(* ===== verification/Prelude.thy ===== *)
theory Prelude
  imports Main "HOL-Library.Word" "HOL-Library.State_Monad"
begin

text \<open>
  Shared vocabulary of the development: the machine integer types of the C code, the
  state monad in which every stateful C function is written (library
  \<^verbatim>\<open>State_Monad\<close>), the loop combinators that stand for the C \<open>for\<close> loops, a weakest
  precondition calculus for that monad with its named collections, and the word lemmas
  (splitting and rejoining 64-bit bus addresses, single-bit masks) the components share.
\<close>

unbundle bit_operations_syntax

type_synonym u8 = "8 word"
type_synonym u16 = "16 word"
type_synonym u32 = "32 word"
type_synonym u64 = "64 word"

named_theorems wp_simps \<open>equations that compute weakest preconditions\<close>
named_theorems preserves_intros \<open>rules for the invariants a program keeps\<close>
named_theorems emits_intros \<open>rules for the shape of the events a program adds to the log\<close>

section \<open>Programs as state transformers\<close>

definition gets :: "('s \<Rightarrow> 'a) \<Rightarrow> ('s, 'a) state" where
  "gets f = State (\<lambda>s. (f s, s))"

definition modify :: "('s \<Rightarrow> 's) \<Rightarrow> ('s, unit) state" where
  "modify f = State (\<lambda>s. ((), f s))"

lemma run_gets [simp]: "run_state (gets f) s = (f s, s)"
  by (simp add: gets_def)

lemma run_modify [simp]: "run_state (modify f) s = ((), f s)"
  by (simp add: modify_def)

text \<open>A C loop over a list of index values whose body always runs to its end.\<close>

fun for_each :: "'a list \<Rightarrow> ('a \<Rightarrow> ('s, unit) state) \<Rightarrow> ('s, unit) state" where
  "for_each [] f = State_Monad.return ()"
| "for_each (x # xs) f = do { f x; for_each xs f }"

text \<open>A C loop that returns false at the first element failing a test, true after the last.\<close>

fun all_m :: "'a list \<Rightarrow> ('a \<Rightarrow> ('s, bool) state) \<Rightarrow> ('s, bool) state" where
  "all_m [] f = State_Monad.return True"
| "all_m (x # xs) f = do { b \<leftarrow> f x; if b then all_m xs f else State_Monad.return False }"

text \<open>A C loop that updates local variables, carried as an accumulator.\<close>

fun fold_m :: "('x \<Rightarrow> 'a \<Rightarrow> ('s, 'a) state) \<Rightarrow> 'x list \<Rightarrow> 'a \<Rightarrow> ('s, 'a) state" where
  "fold_m f [] a = State_Monad.return a"
| "fold_m f (x # xs) a = do { b \<leftarrow> f x a; fold_m f xs b }"

text \<open>A C loop that leaves the function with an error code at the first failing element.\<close>

fun try_each :: "'a list \<Rightarrow> ('a \<Rightarrow> ('s, 'e + unit) state) \<Rightarrow> ('s, 'e + unit) state" where
  "try_each [] f = State_Monad.return (Inr ())"
| "try_each (x # xs) f =
     do { r \<leftarrow> f x; case r of Inl e \<Rightarrow> State_Monad.return (Inl e) | Inr _ \<Rightarrow> try_each xs f }"

text \<open>C's short-circuit conjunction of two tests with effects.\<close>

definition and_m :: "('s, bool) state \<Rightarrow> ('s, bool) state \<Rightarrow> ('s, bool) state" where
  "and_m a b = do { x \<leftarrow> a; if x then b else State_Monad.return False }"

lemma upt_2: "[0..<2] = [0, 1 :: nat]"
  by (simp add: upt_rec)

lemma upt_4: "[0..<4] = [0, 1, 2, 3 :: nat]"
  by (simp add: upt_rec numeral_2_eq_2 numeral_3_eq_3)

lemma for_each_append: "for_each (xs @ ys) f = do { for_each xs f; for_each ys f }"
  by (induction xs) simp_all

lemma for_each_snoc: "for_each (xs @ [y]) f = do { for_each xs f; f y }"
proof -
  have "State_Monad.bind (f y) (\<lambda>_. State_Monad.return ()) = f y"
  proof -
    have "(\<lambda>_. State_Monad.return ()) = (State_Monad.return :: unit \<Rightarrow> ('a, unit) state)"
      by (rule ext) simp
    then show ?thesis by simp
  qed
  then show ?thesis by (simp add: for_each_append)
qed

section \<open>Weakest preconditions\<close>

definition wp :: "('s, 'a) state \<Rightarrow> ('a \<Rightarrow> 's \<Rightarrow> bool) \<Rightarrow> 's \<Rightarrow> bool" where
  "wp m Q s = (case run_state m s of (a, t) \<Rightarrow> Q a t)"

lemma wp_return [wp_simps]: "wp (State_Monad.return a) Q = Q a"
  by (simp add: wp_def fun_eq_iff)

lemma wp_bind [wp_simps]: "wp (State_Monad.bind m f) Q = wp m (\<lambda>a. wp (f a) Q)"
  by (simp add: wp_def fun_eq_iff split: prod.splits)

lemma wp_gets [wp_simps]: "wp (gets f) Q = (\<lambda>s. Q (f s) s)"
  by (simp add: wp_def fun_eq_iff)

lemma wp_modify [wp_simps]: "wp (modify f) Q = (\<lambda>s. Q () (f s))"
  by (simp add: wp_def fun_eq_iff)

lemma wp_if [wp_simps]: "wp (if b then m else n) Q s = (if b then wp m Q s else wp n Q s)"
  by simp

lemma wp_case_sum [wp_simps]:
  "wp (case x of Inl e \<Rightarrow> f e | Inr v \<Rightarrow> g v) Q s =
     (case x of Inl e \<Rightarrow> wp (f e) Q s | Inr v \<Rightarrow> wp (g v) Q s)"
  by (simp split: sum.splits)

lemma wp_case_option [wp_simps]:
  "wp (case x of None \<Rightarrow> f | Some v \<Rightarrow> g v) Q s =
     (case x of None \<Rightarrow> wp f Q s | Some v \<Rightarrow> wp (g v) Q s)"
  by (simp split: option.splits)

lemma wp_and_m [wp_simps]:
  "wp (and_m a b) Q = wp a (\<lambda>x. if x then wp b Q else Q False)"
  by (simp add: and_m_def wp_def fun_eq_iff split: prod.splits)

lemma wp_and_mI:
  "wp a (\<lambda>x t. (x \<longrightarrow> wp b Q t) \<and> (\<not> x \<longrightarrow> Q False t)) s \<Longrightarrow> wp (and_m a b) Q s"
  by (auto simp: wp_and_m wp_def split: prod.splits)

lemma wp_mono: "wp m Q s \<Longrightarrow> (\<And>a t. Q a t \<Longrightarrow> R a t) \<Longrightarrow> wp m R s"
  by (auto simp: wp_def split: prod.splits)

lemma wp_and_then:
  assumes "wp a (\<lambda>ok t. ok \<longrightarrow> R t) s" "\<And>t. R t \<Longrightarrow> wp b (\<lambda>ok t. ok \<longrightarrow> P t) t"
  shows "wp (and_m a b) (\<lambda>ok t. ok \<longrightarrow> P t) s"
  unfolding wp_and_m by (rule wp_mono[OF assms(1)]) (use assms(2) in auto)

lemma wp_conj: "wp m (\<lambda>a t. Q a t \<and> R a t) s \<longleftrightarrow> wp m Q s \<and> wp m R s"
  by (simp add: wp_def split: prod.splits)

lemma wp_conjI: "wp m P s \<Longrightarrow> wp m Q s \<Longrightarrow> wp m (\<lambda>a t. P a t \<and> Q a t) s"
  by (simp add: wp_conj)

lemma wp_run: "wp m Q s \<longleftrightarrow> Q (fst (run_state m s)) (snd (run_state m s))"
  by (simp add: wp_def split_beta)

lemma wp_runD: "wp m Q s \<Longrightarrow> run_state m s = (a, t) \<Longrightarrow> Q a t"
  by (simp add: wp_def)

lemma wpI: "(\<And>a t. run_state m s = (a, t) \<Longrightarrow> Q a t) \<Longrightarrow> wp m Q s"
  by (simp add: wp_def split: prod.splits)

text \<open>A scan whose body only looks at the state.\<close>

lemma run_all_m_pure:
  "(\<And>x. x \<in> set xs \<Longrightarrow> run_state (f x) s = (P x, s)) \<Longrightarrow>
     run_state (all_m xs f) s = (\<forall>x\<in>set xs. P x, s)"
  by (induction xs) auto

text \<open>Loop rules: an invariant indexed by the number of elements already done.\<close>

lemma wp_for_each_nth:
  assumes "I 0 s"
    and "\<And>i t. i < length xs \<Longrightarrow> I i t \<Longrightarrow> wp (f (xs ! i)) (\<lambda>_. I (Suc i)) t"
    and "\<And>t. I (length xs) t \<Longrightarrow> Q () t"
  shows "wp (for_each xs f) Q s"
  using assms
proof (induction xs arbitrary: I s)
  case Nil
  then show ?case by (simp add: wp_simps)
next
  case (Cons x xs)
  have "wp (f x) (\<lambda>_. I (Suc 0)) s"
    using Cons.prems(1) Cons.prems(2)[of 0 s] by simp
  moreover have "wp (for_each xs f) Q t" if "I (Suc 0) t" for t
  proof (rule Cons.IH[where I = "\<lambda>i. I (Suc i)", OF that])
    show "wp (f (xs ! i)) (\<lambda>_. I (Suc (Suc i))) u" if "i < length xs" "I (Suc i) u" for i u
      using Cons.prems(2)[of "Suc i" u] that by simp
  qed (use Cons.prems(3) in simp)
  ultimately show ?case
    by (auto simp: wp_simps elim!: wp_mono)
qed

lemma wp_for_upt:
  assumes "I 0 s"
    and "\<And>i t. i < n \<Longrightarrow> I i t \<Longrightarrow> wp (f i) (\<lambda>_. I (Suc i)) t"
    and "\<And>t. I n t \<Longrightarrow> Q () t"
  shows "wp (for_each [0..<n] f) Q s"
  by (rule wp_for_each_nth[where I = I]) (use assms in simp_all)

lemma wp_fold_nth:
  assumes "I 0 a s"
    and "\<And>i b t. i < length xs \<Longrightarrow> I i b t \<Longrightarrow> wp (f (xs ! i) b) (I (Suc i)) t"
    and "\<And>b t. I (length xs) b t \<Longrightarrow> Q b t"
  shows "wp (fold_m f xs a) Q s"
  using assms
proof (induction xs arbitrary: I a s)
  case Nil
  then show ?case by (simp add: wp_simps)
next
  case (Cons x xs)
  have "wp (f x a) (I (Suc 0)) s"
    using Cons.prems(1) Cons.prems(2)[of 0 a s] by simp
  moreover have "wp (fold_m f xs b) Q t" if "I (Suc 0) b t" for b t
  proof (rule Cons.IH[where I = "\<lambda>i. I (Suc i)", OF that])
    show "wp (f (xs ! i) c) (I (Suc (Suc i))) u" if "i < length xs" "I (Suc i) c u" for i c u
      using Cons.prems(2)[of "Suc i" c u] that by simp
  qed (use Cons.prems(3) in simp)
  ultimately show ?case
    by (auto simp: wp_simps elim!: wp_mono)
qed

lemma wp_fold_upt:
  assumes "I 0 a s"
    and "\<And>i b t. i < n \<Longrightarrow> I i b t \<Longrightarrow> wp (f i b) (I (Suc i)) t"
    and "\<And>b t. I n b t \<Longrightarrow> Q b t"
  shows "wp (fold_m f [0..<n] a) Q s"
  by (rule wp_fold_nth[where I = I]) (use assms in simp_all)

lemma fold_m_append: "fold_m f (xs @ ys) = (\<lambda>a. do { b \<leftarrow> fold_m f xs a; fold_m f ys b })"
  by (induction xs) (rule ext, simp)+

lemma fold_m_concat: "fold_m f (concat xss) = fold_m (fold_m f) xss"
  by (induction xss) (simp_all add: fun_eq_iff fold_m_append)

lemma fold_m_map: "fold_m f (map g xs) = fold_m (\<lambda>x. f (g x)) xs"
  by (induction xs) (rule ext, simp)+

lemma fold_m_product:
  "fold_m (\<lambda>x. fold_m (f x) ys) xs = fold_m (\<lambda>(x, y). f x y) (List.product xs ys)"
  by (simp add: product_concat_map fold_m_concat fold_m_map)

lemma wp_for_each_inv:
  assumes "I s" and "\<And>x t. x \<in> set xs \<Longrightarrow> I t \<Longrightarrow> wp (f x) (\<lambda>_. I) t"
    and "\<And>t. I t \<Longrightarrow> Q () t"
  shows "wp (for_each xs f) Q s"
  by (rule wp_for_each_nth[where I = "\<lambda>_. I"]) (use assms in simp_all)

lemma wp_all_m_nth:
  assumes "I 0 s"
    and "\<And>i t. i < length xs \<Longrightarrow> I i t \<Longrightarrow>
           wp (f (xs ! i)) (\<lambda>b u. if b then I (Suc i) u else Q False u) t"
    and "\<And>t. I (length xs) t \<Longrightarrow> Q True t"
  shows "wp (all_m xs f) Q s"
  using assms
proof (induction xs arbitrary: I s)
  case Nil
  then show ?case by (simp add: wp_simps)
next
  case (Cons x xs)
  have "wp (f x) (\<lambda>b u. if b then I (Suc 0) u else Q False u) s"
    using Cons.prems(1) Cons.prems(2)[of 0 s] by simp
  moreover have "wp (all_m xs f) Q t" if "I (Suc 0) t" for t
  proof (rule Cons.IH[where I = "\<lambda>i. I (Suc i)", OF that])
    show "wp (f (xs ! i)) (\<lambda>b v. if b then I (Suc (Suc i)) v else Q False v) u"
      if "i < length xs" "I (Suc i) u" for i u
      using Cons.prems(2)[of "Suc i" u] that by simp
  qed (use Cons.prems(3) in simp)
  ultimately show ?case
    by (auto simp: wp_simps elim!: wp_mono split: if_splits)
qed

lemma wp_all_upt:
  assumes "I 0 s"
    and "\<And>i t. i < n \<Longrightarrow> I i t \<Longrightarrow>
           wp (f i) (\<lambda>b u. if b then I (Suc i) u else Q False u) t"
    and "\<And>t. I n t \<Longrightarrow> Q True t"
  shows "wp (all_m [0..<n] f) Q s"
  by (rule wp_all_m_nth[where I = I]) (use assms in simp_all)

lemma wp_try_each_inv:
  assumes "I s"
    and "\<And>x t. x \<in> set xs \<Longrightarrow> I t \<Longrightarrow>
           wp (f x) (\<lambda>r u. case r of Inl e \<Rightarrow> Q (Inl e) u | Inr _ \<Rightarrow> I u) t"
    and "\<And>t. I t \<Longrightarrow> Q (Inr ()) t"
  shows "wp (try_each xs f) Q s"
  using assms
proof (induction xs arbitrary: s)
  case Nil
  then show ?case by (simp add: wp_simps)
next
  case (Cons x xs)
  have "wp (f x) (\<lambda>r u. case r of Inl e \<Rightarrow> Q (Inl e) u | Inr _ \<Rightarrow> I u) s"
    using Cons.prems(1) Cons.prems(2)[of x s] by simp
  moreover have "wp (try_each xs f) Q t" if "I t" for t
    by (rule Cons.IH) (use that Cons.prems in auto)
  ultimately show ?case
    by (auto simp: wp_simps elim!: wp_mono split: sum.splits)
qed

lemma wp_try_upt:
  assumes "I 0 s"
    and "\<And>i t. i < n \<Longrightarrow> I i t \<Longrightarrow>
           wp (f i) (\<lambda>r u. case r of Inl e \<Rightarrow> Q (Inl e) u | Inr _ \<Rightarrow> I (Suc i) u) t"
    and "\<And>t. I n t \<Longrightarrow> Q (Inr ()) t"
  shows "wp (try_each [0..<n] f) Q s"
proof -
  have "wp (try_each [m..<n] f) Q s" if "m \<le> n" "I m s" for m s
    using that
  proof (induction "n - m" arbitrary: m s)
    case 0
    then show ?case by (simp add: wp_simps assms(3))
  next
    case (Suc k)
    then have "m < n" by simp
    have "wp (f m) (\<lambda>r u. case r of Inl e \<Rightarrow> Q (Inl e) u | Inr _ \<Rightarrow> I (Suc m) u) s"
      by (rule assms(2)) (use \<open>m < n\<close> Suc.prems in auto)
    moreover have "wp (try_each [Suc m..<n] f) Q t" if "I (Suc m) t" for t
      by (rule Suc.hyps(1)) (use \<open>m < n\<close> Suc.hyps(2) that in auto)
    ultimately show ?case
      using \<open>m < n\<close>
      by (auto simp: wp_simps upt_conv_Cons elim!: wp_mono split: sum.splits)
  qed
  then show ?thesis using assms(1) by simp
qed

text \<open>The same with the set of elements already done.\<close>

lemma wp_for_each_done:
  assumes "I {} s"
    and "\<And>x D t. x \<in> set xs \<Longrightarrow> I D t \<Longrightarrow> wp (f x) (\<lambda>_. I (insert x D)) t"
    and "\<And>t. I (set xs) t \<Longrightarrow> Q () t"
  shows "wp (for_each xs f) Q s"
  using assms
proof (induction xs arbitrary: I s)
  case Nil
  then show ?case by (simp add: wp_simps)
next
  case (Cons x xs)
  have "wp (f x) (\<lambda>_. I {x}) s" using Cons.prems(1) Cons.prems(2)[of x "{}" s] by simp
  moreover have "wp (for_each xs f) Q t" if "I {x} t" for t
  proof (rule Cons.IH[where I = "\<lambda>D. I (insert x D)", OF that])
    show "wp (f y) (\<lambda>_. I (insert x (insert y D))) u" if "y \<in> set xs" "I (insert x D) u" for y D u
      using Cons.prems(2)[of y "insert x D" u] that by (simp add: insert_commute)
  qed (use Cons.prems(3) in simp)
  ultimately show ?case by (auto simp: wp_simps elim!: wp_mono)
qed

lemma wp_try_each_done:
  assumes "I {} s"
    and "\<And>x D t. x \<in> set xs \<Longrightarrow> I D t \<Longrightarrow>
           wp (f x) (\<lambda>r u. case r of Inl e \<Rightarrow> Q (Inl e) u | Inr _ \<Rightarrow> I (insert x D) u) t"
    and "\<And>t. I (set xs) t \<Longrightarrow> Q (Inr ()) t"
  shows "wp (try_each xs f) Q s"
  using assms
proof (induction xs arbitrary: I s)
  case Nil
  then show ?case by (simp add: wp_simps)
next
  case (Cons x xs)
  have "wp (f x) (\<lambda>r u. case r of Inl e \<Rightarrow> Q (Inl e) u | Inr _ \<Rightarrow> I {x} u) s"
    using Cons.prems(1) Cons.prems(2)[of x "{}" s] by simp
  moreover have "wp (try_each xs f) Q t" if "I {x} t" for t
  proof (rule Cons.IH[where I = "\<lambda>D. I (insert x D)", OF that])
    show "wp (f y) (\<lambda>r v. case r of Inl e \<Rightarrow> Q (Inl e) v | Inr _ \<Rightarrow> I (insert x (insert y D)) v) u"
      if "y \<in> set xs" "I (insert x D) u" for y D u
      using Cons.prems(2)[of y "insert x D" u] that by (simp add: insert_commute cong: sum.case_cong)
  qed (use Cons.prems(3) in simp)
  ultimately show ?case by (auto simp: wp_simps elim!: wp_mono split: sum.splits)
qed

section \<open>Invariants a program keeps\<close>

definition preserves :: "('s \<Rightarrow> bool) \<Rightarrow> ('s, 'a) state \<Rightarrow> bool" where
  "preserves I m \<longleftrightarrow> (\<forall>s. I s \<longrightarrow> wp m (\<lambda>_. I) s)"

lemma preservesD: "preserves I m \<Longrightarrow> I s \<Longrightarrow> wp m (\<lambda>_. I) s"
  by (simp add: preserves_def)

lemma preserves_return [preserves_intros]: "preserves I (State_Monad.return a)"
  by (simp add: preserves_def wp_simps)

lemma preserves_bind [preserves_intros]:
  "preserves I m \<Longrightarrow> (\<And>a. preserves I (f a)) \<Longrightarrow> preserves I (State_Monad.bind m f)"
  by (auto simp: preserves_def wp_simps elim!: wp_mono)

lemma preserves_if [preserves_intros]:
  "(b \<Longrightarrow> preserves I m) \<Longrightarrow> (\<not> b \<Longrightarrow> preserves I n) \<Longrightarrow> preserves I (if b then m else n)"
  by simp

lemma preserves_gets [preserves_intros]: "preserves I (gets f)"
  by (simp add: preserves_def wp_simps)

lemma preserves_modify: "(\<And>s. I s \<Longrightarrow> I (f s)) \<Longrightarrow> preserves I (modify f)"
  by (simp add: preserves_def wp_simps)

lemma preserves_conj:
  "preserves I m \<Longrightarrow> preserves J m \<Longrightarrow> preserves (\<lambda>s. I s \<and> J s) m"
  by (simp add: preserves_def wp_conj)

lemma wp_keeping:
  assumes "preserves I m" "I s" "wp m (\<lambda>a t. I t \<longrightarrow> Q a t) s"
  shows "wp m Q s"
  by (rule wp_mono[OF wp_conjI[OF preservesD[OF assms(1,2)] assms(3)]]) blast

lemma preserves_fold_m [preserves_intros]:
  "(\<And>x a. x \<in> set xs \<Longrightarrow> preserves I (f x a)) \<Longrightarrow> preserves I (fold_m f xs a)"
  by (induction xs arbitrary: a) (auto intro!: preserves_intros)

lemma preserves_for_each [preserves_intros]:
  "(\<And>x. x \<in> set xs \<Longrightarrow> preserves I (f x)) \<Longrightarrow> preserves I (for_each xs f)"
  by (induction xs) (auto intro: preserves_intros)

lemma preserves_all_m [preserves_intros]:
  "(\<And>x. x \<in> set xs \<Longrightarrow> preserves I (f x)) \<Longrightarrow> preserves I (all_m xs f)"
  by (induction xs) (auto intro!: preserves_intros)

lemma preserves_and_m [preserves_intros]:
  "preserves I a \<Longrightarrow> preserves I b \<Longrightarrow> preserves I (and_m a b)"
  unfolding and_m_def by (intro preserves_intros)

lemma preserves_case_prod [preserves_intros]:
  "(\<And>a b. x = (a, b) \<Longrightarrow> preserves I (f a b)) \<Longrightarrow> preserves I (case x of (a, b) \<Rightarrow> f a b)"
  by (cases x) simp

lemma preserves_case_option [preserves_intros]:
  "(x = None \<Longrightarrow> preserves I f) \<Longrightarrow> (\<And>v. x = Some v \<Longrightarrow> preserves I (g v)) \<Longrightarrow>
     preserves I (case x of None \<Rightarrow> f | Some v \<Rightarrow> g v)"
  by (cases x) auto

lemma bind_case_sum:
  "State_Monad.bind (case x of Inl e \<Rightarrow> f e | Inr v \<Rightarrow> g v) h =
     (case x of Inl e \<Rightarrow> State_Monad.bind (f e) h | Inr v \<Rightarrow> State_Monad.bind (g v) h)"
  by (cases x) simp_all

lemma try_each_append:
  "try_each (xs @ ys) f =
     do { r \<leftarrow> try_each xs f;
          case r of Inl e \<Rightarrow> State_Monad.return (Inl e) | Inr _ \<Rightarrow> try_each ys f }"
  by (induction xs) (simp_all add: bind_case_sum cong: sum.case_cong)

lemma try_each_concat: "try_each (concat xss) f = try_each xss (\<lambda>xs. try_each xs f)"
  by (induction xss) (simp_all add: try_each_append cong: sum.case_cong)

lemma try_each_map: "try_each (map g xs) f = try_each xs (\<lambda>x. f (g x))"
  by (induction xs) (simp_all cong: sum.case_cong)

section \<open>Decimal numerals\<close>

text \<open>The digits \<open>printf\<close> writes for an unsigned value under \<^verbatim>\<open>%u\<close>, and under \<^verbatim>\<open>%x\<close>.\<close>

fun digits :: "nat \<Rightarrow> nat \<Rightarrow> nat list" where
  "digits b n = (if n < b \<or> b < 2 then [n] else digits b (n div b) @ [n mod b])"

declare digits.simps [simp del]

definition digit :: "nat \<Rightarrow> char" where
  "digit n = char_of (if n < 10 then 48 + n else 87 + n)"

definition dec :: "nat \<Rightarrow> string" where
  "dec n = map digit (digits 10 n)"

definition hex :: "nat \<Rightarrow> nat \<Rightarrow> string" where
  "hex w n = (let s = map digit (digits 16 n) in replicate (w - length s) (CHR ''0'') @ s)"

lemma digits_small: "b \<ge> 2 \<Longrightarrow> d \<in> set (digits b n) \<Longrightarrow> d < b"
proof (induction b n rule: digits.induct)
  case (1 b n)
  then show ?case by (cases "n < b") (auto simp: digits.simps[of b n])
qed

lemma digits_value: "b \<ge> 2 \<Longrightarrow> foldl (\<lambda>v d. v * b + d) 0 (digits b n) = n"
proof (induction b n rule: digits.induct)
  case (1 b n)
  then show ?case by (cases "n < b") (auto simp: digits.simps[of b n])
qed

lemma digits_nonempty: "digits b n \<noteq> []"
  by (simp add: digits.simps[of b n])

lemma digits_head: "b \<ge> 2 \<Longrightarrow> n > 0 \<Longrightarrow> hd (digits b n) \<noteq> 0"
proof (induction b n rule: digits.induct)
  case (1 b n)
  then show ?case
    by (cases "n < b") (auto simp: digits.simps[of b n] digits_nonempty div_greater_zero_iff)
qed

lemma digits_length: "b \<ge> 2 \<Longrightarrow> n < b ^ Suc k \<Longrightarrow> length (digits b n) \<le> Suc k"
proof (induction k arbitrary: n)
  case 0
  then show ?case by (simp add: digits.simps[of b n])
next
  case (Suc k)
  have "n div b < b ^ Suc k"
    using Suc.prems by (simp add: less_mult_imp_div_less mult.commute)
  then have "length (digits b (n div b)) \<le> Suc k" by (rule Suc.IH[OF Suc.prems(1)])
  then show ?case by (simp add: digits.simps[of b n])
qed

section \<open>Words\<close>

text \<open>The kernel's \<open>lower_32_bits\<close> and \<open>upper_32_bits\<close>, and the C code that rejoins them.\<close>

definition lower_32_bits :: "u64 \<Rightarrow> u32" where
  "lower_32_bits a = ucast a"

definition upper_32_bits :: "u64 \<Rightarrow> u32" where
  "upper_32_bits a = ucast (drop_bit 32 a)"

definition join_64 :: "u32 \<Rightarrow> u32 \<Rightarrow> u64" where
  "join_64 lo hi = ucast lo OR push_bit 32 (ucast hi)"

lemma join_64_split: "join_64 (lower_32_bits a) (upper_32_bits a) = a"
  by (rule bit_eqI)
    (auto simp: join_64_def lower_32_bits_def upper_32_bits_def bit_simps)

lemma lower_32_bits_join: "lower_32_bits (join_64 lo hi) = lo"
  by (rule bit_eqI) (auto simp: join_64_def lower_32_bits_def bit_simps)

lemma upper_32_bits_join: "upper_32_bits (join_64 lo hi) = hi"
  by (rule bit_eqI) (auto simp: join_64_def upper_32_bits_def bit_simps dest: bit_imp_le_length)

lemma join_64_eq_iff:
  "join_64 lo hi = a \<longleftrightarrow> lo = lower_32_bits a \<and> hi = upper_32_bits a"
  using join_64_split lower_32_bits_join upper_32_bits_join by metis

lemma shift_mask: "push_bit k 1 - 1 = (mask k :: u32)"
  by (simp add: mask_eq_decr_exp push_bit_eq_mult)

lemma bit_one_shift: "bit (push_bit k 1 :: u32) n \<longleftrightarrow> n = k \<and> k < 32"
  by (auto simp: bit_simps)

lemma and_one_bit: "(w AND 1 :: u32) \<noteq> 0 \<longleftrightarrow> bit w 0"
  by (simp add: and_one_eq odd_iff_mod_2_eq_one bit_0 mod2_eq_if)

end
