(* ===== verification/Bus.thy ===== *)
theory Bus
  imports Prelude
begin

text \<open>
  The world every C function of the repository acts on: a log of bus and operating-system
  events, newest first. The card itself is not part of the repository, so it is a parameter:
  a function from the history of events and a register offset to the value a load returns.
  No assumption is made about it unless a theorem names one. This theory holds the event
  type, the volatile load and store, what the history says about the device (the last value
  stored in a register, bus mastering, live coherent pages, held resources), predicates on
  programs (which events they add, whether they only read), and the interface
  \<^verbatim>\<open>mmio_port\<close> under which each component's own read and write wrappers are used.
\<close>

section \<open>Events and histories\<close>

text \<open>
  The first line of resources is the kernel driver's; the second line is what a user-space
  VFIO tool holds besides its mapping of BAR0: the container, group and device descriptors,
  the group's attachment to the container, the locked ring memory and its IOVA mapping,
  the input file and the heap copy of the ring memory.
\<close>

datatype resource =
    DeviceMem | NameString | DrvData | PciEnabled | Region0 | BarMap | MiscDev
  | VfioContainer | VfioGroup | VfioAttached | VfioMemory | VfioMapping | VfioDevice | InputFile | Snapshot

datatype event =
    Rd u32 u32
  | Wr u32 u32
  | Delay nat
  | Barrier
  | SetMaster
  | ClearMaster
  | ZeroPage nat nat nat
  | DmaAlloc nat nat nat u64
  | DmaFree nat nat nat
  | Acquire resource
  | Release resource
  | DeviceReset
  | Clock u64

type_synonym history = "event list"
type_synonym hw = "history \<Rightarrow> u32 \<Rightarrow> u32"

fun is_rd :: "event \<Rightarrow> bool" where
  "is_rd (Rd _ _) = True"
| "is_rd _ = False"

fun is_wr :: "event \<Rightarrow> bool" where
  "is_wr (Wr _ _) = True"
| "is_wr _ = False"

text \<open>Events that change neither registers, bus mastering, page ownership nor resources.\<close>

fun is_quiet :: "event \<Rightarrow> bool" where
  "is_quiet (Rd _ _) = True"
| "is_quiet (Delay _) = True"
| "is_quiet Barrier = True"
| "is_quiet (ZeroPage _ _ _) = True"
| "is_quiet (Clock _) = True"
| "is_quiet _ = False"

abbreviation reads :: "history \<Rightarrow> bool" where
  "reads rs \<equiv> list_all is_rd rs"

abbreviation quiet :: "history \<Rightarrow> bool" where
  "quiet qs \<equiv> list_all is_quiet qs"

lemma reads_quiet: "reads rs \<Longrightarrow> quiet rs"
proof (induction rs)
  case (Cons e rs) then show ?case by (cases e) auto
qed simp

text \<open>The stores of a history, oldest first.\<close>

fun writes :: "history \<Rightarrow> (u32 \<times> u32) list" where
  "writes [] = []"
| "writes (Wr off v # h) = writes h @ [(off, v)]"
| "writes (_ # h) = writes h"

text \<open>The value last stored at a register offset, if any.\<close>

fun shadow :: "history \<Rightarrow> u32 \<Rightarrow> u32 option" where
  "shadow [] off = None"
| "shadow (Wr a v # h) off = (if a = off then Some v else shadow h off)"
| "shadow (_ # h) off = shadow h off"

fun bus_master :: "history \<Rightarrow> bool" where
  "bus_master [] = False"
| "bus_master (SetMaster # h) = True"
| "bus_master (ClearMaster # h) = False"
| "bus_master (_ # h) = bus_master h"

text \<open>The bus address of a coherent page the driver owns at the end of a history.\<close>

fun live_page :: "history \<Rightarrow> nat \<Rightarrow> nat \<Rightarrow> nat \<Rightarrow> u64 option" where
  "live_page [] d r p = None"
| "live_page (DmaAlloc d' r' p' a # h) d r p =
     (if d' = d \<and> r' = r \<and> p' = p then Some a else live_page h d r p)"
| "live_page (DmaFree d' r' p' # h) d r p =
     (if d' = d \<and> r' = r \<and> p' = p then None else live_page h d r p)"
| "live_page (_ # h) d r p = live_page h d r p"

text \<open>How often a resource is held: acquisitions minus releases.\<close>

fun held :: "history \<Rightarrow> resource \<Rightarrow> int" where
  "held [] x = 0"
| "held (Acquire y # h) x = held h x + (if y = x then 1 else 0)"
| "held (Release y # h) x = held h x - (if y = x then 1 else 0)"
| "held (_ # h) x = held h x"

text \<open>The resources held are exactly a given set, each once.\<close>

definition holds :: "history \<Rightarrow> resource set \<Rightarrow> bool" where
  "holds h S \<longleftrightarrow> (\<forall>x. held h x = of_bool (x \<in> S))"

lemma holds_acquire: "holds h S \<Longrightarrow> x \<notin> S \<Longrightarrow> holds (Acquire x # h) (insert x S)"
  by (auto simp: holds_def)

lemma holds_release: "holds h S \<Longrightarrow> x \<in> S \<Longrightarrow> holds (Release x # h) (S - {x})"
  by (auto simp: holds_def)

text \<open>A property that held at every instant of a history.\<close>

fun always :: "(history \<Rightarrow> bool) \<Rightarrow> history \<Rightarrow> bool" where
  "always P [] = P []"
| "always P (e # h) = (P (e # h) \<and> always P h)"

lemma always_now: "always P h \<Longrightarrow> P h"
  by (cases h) auto

lemma always_mono: "always P h \<Longrightarrow> (\<And>k. P k \<Longrightarrow> Q k) \<Longrightarrow> always Q h"
  by (induction h) auto

lemma always_conj: "always (\<lambda>h. P h \<and> Q h) h \<longleftrightarrow> always P h \<and> always Q h"
  by (induction h) auto

lemma always_suffix: "always P (xs @ h) \<Longrightarrow> always P h"
  by (induction xs) auto

text \<open>Quiet events, loads among them, leave every one of these views unchanged.\<close>

lemma quiet_step [simp]:
  assumes "is_quiet e"
  shows "writes (e # h) = writes h" "shadow (e # h) = shadow h"
    "bus_master (e # h) = bus_master h" "live_page (e # h) = live_page h"
    "held (e # h) = held h"
  using assms by (cases e; simp add: fun_eq_iff)+

text \<open>Which view each other kind of event leaves alone, as equations between functions.\<close>

lemma event_views [simp]:
  "live_page (Wr a v # h) = live_page h" "held (Wr a v # h) = held h"
  "shadow (SetMaster # h) = shadow h" "live_page (SetMaster # h) = live_page h"
  "held (SetMaster # h) = held h"
  "shadow (ClearMaster # h) = shadow h" "live_page (ClearMaster # h) = live_page h"
  "held (ClearMaster # h) = held h"
  "shadow (DmaAlloc d r p x # h) = shadow h" "held (DmaAlloc d r p x # h) = held h"
  "shadow (DmaFree d r p # h) = shadow h" "held (DmaFree d r p # h) = held h"
  "shadow (Acquire res # h) = shadow h" "live_page (Acquire res # h) = live_page h"
  "shadow (Release res # h) = shadow h" "live_page (Release res # h) = live_page h"
  "shadow (DeviceReset # h) = shadow h" "live_page (DeviceReset # h) = live_page h"
  "held (DeviceReset # h) = held h"
  by (simp_all add: fun_eq_iff)

lemma quiet_views [simp]:
  assumes "quiet qs"
  shows "writes (qs @ h) = writes h" "shadow (qs @ h) = shadow h"
    "bus_master (qs @ h) = bus_master h" "live_page (qs @ h) = live_page h"
    "held (qs @ h) = held h"
  using assms by (induction qs) simp_all

lemmas reads_views [simp] = quiet_views[OF reads_quiet]

lemma reads_no_writes [simp]: "reads rs \<Longrightarrow> writes rs = []"
  using reads_views(1)[of rs "[]"] by simp

lemma shadow_map_of: "shadow h = map_of (rev (writes h))"
proof (induction h)
  case (Cons e h) then show ?case by (cases e) (auto simp: fun_eq_iff)
qed (simp add: fun_eq_iff)

lemma writes_append: "writes (xs @ h) = writes h @ writes xs"
proof (induction xs)
  case (Cons e xs) then show ?case by (cases e) auto
qed simp

lemma always_reads:
  assumes "reads rs" and "\<And>k a v. P (Rd a v # k) \<longleftrightarrow> P k"
  shows "always P (rs @ h) \<longleftrightarrow> always P h"
  using assms(1)
proof (induction rs)
  case (Cons e rs)
  then obtain a v where "e = Rd a v" by (cases e) auto
  with Cons show ?case using always_now[of P "rs @ h"] by (auto simp: assms(2))
qed simp

text \<open>The time slept, in nanoseconds.\<close>

fun slept :: "history \<Rightarrow> nat" where
  "slept [] = 0"
| "slept (Delay ns # h) = ns + slept h"
| "slept (_ # h) = slept h"

lemma slept_append: "slept (xs @ h) = slept xs + slept h"
proof (induction xs)
  case (Cons x xs) then show ?case by (cases x) simp_all
qed simp

lemma slept_reads [simp]: "reads rs \<Longrightarrow> slept rs = 0"
proof (induction rs)
  case (Cons x xs) then show ?case by (cases x) simp_all
qed simp

text \<open>The loads a history holds, oldest first.\<close>

fun loads :: "history \<Rightarrow> (u32 \<times> u32) list" where
  "loads [] = []"
| "loads (Rd a v # h) = loads h @ [(a, v)]"
| "loads (_ # h) = loads h"

lemma loads_append: "loads (xs @ h) = loads h @ loads xs"
proof (induction xs)
  case (Cons e xs) then show ?case by (cases e) auto
qed simp

section \<open>Loads, stores and other events\<close>

record bus =
  log :: history

definition emit :: "event \<Rightarrow> ('a bus_scheme, unit) state" where
  "emit e = modify (\<lambda>s. s\<lparr>log := e # log s\<rparr>)"

text \<open>A volatile 32-bit load and store in the BAR0 window.\<close>

definition bus_read :: "hw \<Rightarrow> u32 \<Rightarrow> ('a bus_scheme, u32) state" where
  "bus_read hw off =
     do { h \<leftarrow> gets log; emit (Rd off (hw h off)); State_Monad.return (hw h off) }"

definition bus_write :: "u32 \<Rightarrow> u32 \<Rightarrow> ('a bus_scheme, unit) state" where
  "bus_write off v = emit (Wr off v)"

lemma run_emit [simp]: "run_state (emit e) s = ((), s\<lparr>log := e # log s\<rparr>)"
  by (simp add: emit_def)

lemma run_bus_read [simp]:
  "run_state (bus_read hw off) s =
     (hw (log s) off, s\<lparr>log := Rd off (hw (log s) off) # log s\<rparr>)"
  by (simp add: bus_read_def)

lemma run_bus_write [simp]: "run_state (bus_write off v) s = ((), s\<lparr>log := Wr off v # log s\<rparr>)"
  by (simp add: bus_write_def)

lemma wp_emit [wp_simps]: "wp (emit e) Q = (\<lambda>s. Q () (s\<lparr>log := e # log s\<rparr>))"
  by (simp add: wp_def fun_eq_iff)

lemma wp_bus_read [wp_simps]:
  "wp (bus_read hw off) Q =
     (\<lambda>s. Q (hw (log s) off) (s\<lparr>log := Rd off (hw (log s) off) # log s\<rparr>))"
  by (simp add: wp_def fun_eq_iff)

lemma wp_bus_write [wp_simps]: "wp (bus_write off v) Q = (\<lambda>s. Q () (s\<lparr>log := Wr off v # log s\<rparr>))"
  by (simp add: wp_def fun_eq_iff)

section \<open>What a program adds to the log\<close>

definition emits :: "(event \<Rightarrow> bool) \<Rightarrow> ('a bus_scheme, 'b) state \<Rightarrow> bool" where
  "emits P m \<longleftrightarrow> (\<forall>s. \<exists>evs. log (snd (run_state m s)) = evs @ log s \<and> list_all P evs)"

lemma emitsD:
  assumes "emits P m" and "run_state m s = (a, t)"
  obtains evs where "log t = evs @ log s" and "list_all P evs"
  using assms unfolding emits_def by (metis snd_conv)

lemma emits_return [emits_intros]: "emits P (State_Monad.return a)"
  by (simp add: emits_def)

lemma emits_bind [emits_intros]:
  assumes "emits P m" and "\<And>a. emits P (f a)"
  shows "emits P (State_Monad.bind m f)"
  unfolding emits_def
proof
  fix s
  obtain a t where m: "run_state m s = (a, t)" by fastforce
  obtain b u where f: "run_state (f a) t = (b, u)" by fastforce
  obtain xs where "log t = xs @ log s" "list_all P xs" using assms(1) m by (rule emitsD)
  moreover obtain ys where "log u = ys @ log t" "list_all P ys"
    using assms(2) f by (rule emitsD)
  ultimately have "log u = (ys @ xs) @ log s \<and> list_all P (ys @ xs)" by simp
  with m f show "\<exists>evs. log (snd (run_state (State_Monad.bind m f) s)) = evs @ log s \<and>
      list_all P evs" by auto
qed

lemma emits_if [emits_intros]:
  "(b \<Longrightarrow> emits P m) \<Longrightarrow> (\<not> b \<Longrightarrow> emits P n) \<Longrightarrow> emits P (if b then m else n)"
  by simp

lemma emits_case_sum [emits_intros]:
  "(\<And>e. x = Inl e \<Longrightarrow> emits P (f e)) \<Longrightarrow> (\<And>v. x = Inr v \<Longrightarrow> emits P (g v)) \<Longrightarrow>
     emits P (case x of Inl e \<Rightarrow> f e | Inr v \<Rightarrow> g v)"
  by (cases x) auto

lemma emits_case_option [emits_intros]:
  "(x = None \<Longrightarrow> emits P f) \<Longrightarrow> (\<And>v. x = Some v \<Longrightarrow> emits P (g v)) \<Longrightarrow>
     emits P (case x of None \<Rightarrow> f | Some v \<Rightarrow> g v)"
  by (cases x) auto

lemma emits_case_prod [emits_intros]:
  "(\<And>a b. x = (a, b) \<Longrightarrow> emits P (f a b)) \<Longrightarrow> emits P (case x of (a, b) \<Rightarrow> f a b)"
  by (cases x) simp

lemma emits_gets [emits_intros]: "emits P (gets f)"
  by (simp add: emits_def)

lemma emits_modify [emits_intros]: "(\<And>s. log (f s) = log s) \<Longrightarrow> emits P (modify f)"
  by (simp add: emits_def)

lemma emits_emit [emits_intros]: "P e \<Longrightarrow> emits P (emit e)"
  by (auto simp: emits_def)

lemma emits_bus_read [emits_intros]: "(\<And>v. P (Rd off v)) \<Longrightarrow> emits P (bus_read hw off)"
  by (auto simp: emits_def)

lemma emits_bus_write [emits_intros]: "P (Wr off v) \<Longrightarrow> emits P (bus_write off v)"
  by (auto simp: emits_def)

lemma emits_for_each [emits_intros]:
  "(\<And>x. x \<in> set xs \<Longrightarrow> emits P (f x)) \<Longrightarrow> emits P (for_each xs f)"
  by (induction xs) (auto intro: emits_intros)

lemma emits_all_m [emits_intros]:
  "(\<And>x. x \<in> set xs \<Longrightarrow> emits P (f x)) \<Longrightarrow> emits P (all_m xs f)"
proof (induction xs)
  case (Cons x xs)
  have "emits P (f x)" by (rule Cons.prems) simp
  moreover have "emits P (all_m xs f)" by (rule Cons.IH) (simp add: Cons.prems)
  ultimately show ?case by (auto intro!: emits_bind emits_if emits_return)
qed (simp add: emits_return)

lemma emits_try_each [emits_intros]:
  "(\<And>x. x \<in> set xs \<Longrightarrow> emits P (f x)) \<Longrightarrow> emits P (try_each xs f)"
proof (induction xs)
  case (Cons x xs)
  have "emits P (f x)" by (rule Cons.prems) simp
  moreover have "emits P (try_each xs f)" by (rule Cons.IH) (simp add: Cons.prems)
  ultimately show ?case by (auto intro!: emits_bind emits_case_sum emits_return)
qed (simp add: emits_return)

lemma emits_and_m [emits_intros]: "emits P a \<Longrightarrow> emits P b \<Longrightarrow> emits P (and_m a b)"
  unfolding and_m_def by (intro emits_intros)

lemma emits_mono: "emits P m \<Longrightarrow> (\<And>e. P e \<Longrightarrow> Q e) \<Longrightarrow> emits Q m"
  unfolding emits_def by (metis list.pred_mono_strong)

lemma emits_wp:
  assumes "emits P m" and "\<And>a t evs. run_state m s = (a, t) \<Longrightarrow> log t = evs @ log s \<Longrightarrow>
     list_all P evs \<Longrightarrow> Q a t"
  shows "wp m Q s"
  using assms emitsD by (metis wpI)

lemma wp_emits:
  assumes "emits P m" and "wp m Q s"
  shows "wp m (\<lambda>a t. Q a t \<and> (\<exists>evs. log t = evs @ log s \<and> list_all P evs)) s"
  by (rule wpI) (use assms emitsD wp_runD in metis)

section \<open>Programs that only load\<close>

text \<open>
  \<open>tr\<close> is the view of the state that is the log and \<open>rest\<close> the view of everything else
  the program may change; a read-only program adds loads to the first and keeps the second.
\<close>

definition reads_only ::
  "('s \<Rightarrow> history) \<Rightarrow> ('s \<Rightarrow> 'r) \<Rightarrow> ('s, 'a) state \<Rightarrow> bool" where
  "reads_only tr rest m \<longleftrightarrow>
     (\<forall>s. \<exists>rs. tr (snd (run_state m s)) = rs @ tr s \<and> reads rs \<and>
        rest (snd (run_state m s)) = rest s)"

text \<open>A read-only program whose boolean result is the predicate \<open>p\<close> of the history.\<close>

definition tests ::
  "('s \<Rightarrow> history) \<Rightarrow> ('s \<Rightarrow> 'r) \<Rightarrow> ('s, bool) state \<Rightarrow> (history \<Rightarrow> bool) \<Rightarrow> bool" where
  "tests tr rest m p \<longleftrightarrow>
     reads_only tr rest m \<and> (\<forall>s. fst (run_state m s) \<longleftrightarrow> p (tr s))"

text \<open>A predicate (or a device) that loads do not influence.\<close>

definition read_stable :: "(history \<Rightarrow> 'a) \<Rightarrow> bool" where
  "read_stable p \<longleftrightarrow> (\<forall>a v h. p (Rd a v # h) = p h)"

lemma read_stable_append: "read_stable p \<Longrightarrow> reads rs \<Longrightarrow> p (rs @ h) = p h"
proof (induction rs)
  case (Cons e rs) then show ?case by (cases e) (auto simp: read_stable_def)
qed simp

lemma reads_only_return: "reads_only tr rest (State_Monad.return a)"
  by (simp add: reads_only_def)

lemma reads_only_gets: "reads_only tr rest (gets f)"
  by (simp add: reads_only_def)

lemma reads_only_bind:
  assumes "reads_only tr rest m" and "\<And>a. reads_only tr rest (f a)"
  shows "reads_only tr rest (State_Monad.bind m f)"
  unfolding reads_only_def
proof
  fix s
  obtain a t where m: "run_state m s = (a, t)" by fastforce
  obtain b u where f: "run_state (f a) t = (b, u)" by fastforce
  obtain xs where "tr t = xs @ tr s" "reads xs" "rest t = rest s"
    using assms(1) m unfolding reads_only_def by (metis snd_conv)
  moreover obtain ys where "tr u = ys @ tr t" "reads ys" "rest u = rest t"
    using assms(2) f unfolding reads_only_def by (metis snd_conv)
  ultimately have "tr u = (ys @ xs) @ tr s \<and> reads (ys @ xs) \<and> rest u = rest s" by simp
  with m f show "\<exists>rs. tr (snd (run_state (State_Monad.bind m f) s)) = rs @ tr s \<and> reads rs \<and>
      rest (snd (run_state (State_Monad.bind m f) s)) = rest s" by auto
qed

lemma reads_only_all_m:
  "(\<And>x. x \<in> set xs \<Longrightarrow> reads_only tr rest (f x)) \<Longrightarrow> reads_only tr rest (all_m xs f)"
proof (induction xs)
  case (Cons x xs)
  have "reads_only tr rest (f x)" by (rule Cons.prems) simp
  moreover have "reads_only tr rest (all_m xs f)" by (rule Cons.IH) (simp add: Cons.prems)
  ultimately show ?case by (auto intro!: reads_only_bind simp: reads_only_return)
qed (simp add: reads_only_return)

lemma reads_only_and_m:
  "reads_only tr rest a \<Longrightarrow> reads_only tr rest b \<Longrightarrow> reads_only tr rest (and_m a b)"
  unfolding and_m_def by (auto intro!: reads_only_bind simp: reads_only_return)

lemma tests_reads_only: "tests tr rest m p \<Longrightarrow> reads_only tr rest m"
  by (simp add: tests_def)

lemma testsD:
  assumes "tests tr rest m p" and "run_state m s = (b, t)"
  obtains rs where "b \<longleftrightarrow> p (tr s)" and "tr t = rs @ tr s" and "reads rs" and "rest t = rest s"
  using assms unfolding tests_def reads_only_def by (metis fst_conv snd_conv)

lemma tests_cong: "tests tr rest m p \<Longrightarrow> (\<And>h. p h = q h) \<Longrightarrow> tests tr rest m q"
  by (simp add: tests_def)

lemma tests_return: "tests tr rest (State_Monad.return b) (\<lambda>_. b)"
  by (simp add: tests_def reads_only_return)

lemma tests_and_m:
  assumes "tests tr rest a p" and "tests tr rest b q" and "read_stable q"
  shows "tests tr rest (and_m a b) (\<lambda>h. p h \<and> q h)"
proof -
  have "fst (run_state (and_m a b) s) \<longleftrightarrow> p (tr s) \<and> q (tr s)" for s
  proof -
    obtain x t where a: "run_state a s = (x, t)" by fastforce
    then obtain rs where "x \<longleftrightarrow> p (tr s)" "tr t = rs @ tr s" "reads rs"
      using testsD[OF assms(1) a] by blast
    moreover have "fst (run_state b t) \<longleftrightarrow> q (tr t)"
      using assms(2) by (simp add: tests_def)
    ultimately show ?thesis
      using a assms(3) by (simp add: and_m_def read_stable_append)
  qed
  then show ?thesis
    using assms by (simp add: tests_def reads_only_and_m)
qed

lemma tests_all_m:
  assumes "\<And>x. x \<in> set xs \<Longrightarrow> tests tr rest (f x) (p x)"
    and "\<And>x. x \<in> set xs \<Longrightarrow> read_stable (p x)"
  shows "tests tr rest (all_m xs f) (\<lambda>h. \<forall>x\<in>set xs. p x h)"
  using assms
proof (induction xs)
  case Nil
  then show ?case by (simp add: tests_return)
next
  case (Cons x xs)
  have "read_stable (\<lambda>h. \<forall>x\<in>set xs. p x h)"
    using Cons.prems(2) by (simp add: read_stable_def)
  moreover have "tests tr rest (all_m xs f) (\<lambda>h. \<forall>x\<in>set xs. p x h)"
    by (rule Cons.IH) (use Cons.prems in simp_all)
  ultimately have "tests tr rest (and_m (f x) (all_m xs f)) (\<lambda>h. p x h \<and> (\<forall>x\<in>set xs. p x h))"
    using Cons.prems(1) by (intro tests_and_m) simp_all
  then show ?case by (simp add: and_m_def)
qed

section \<open>The port interface\<close>

text \<open>
  Every C file wraps the volatile load and store in a function pair of its own
  (\<^verbatim>\<open>uad2_read\<close>/\<^verbatim>\<open>uad2_write\<close> in the kernel driver, \<^verbatim>\<open>mmio_read32\<close>/\<^verbatim>\<open>mmio_write32\<close> in the
  user-space tools, one of which counts its stores). What the code on top relies on is this
  contract: a load returns the device's answer and is recorded (\<^verbatim>\<open>mmio_reader\<close>), a store is
  recorded (\<^verbatim>\<open>mmio_port\<close>, which extends it), and nothing else visible changes.
\<close>

locale mmio_reader =
  fixes rd :: "u32 \<Rightarrow> ('s, u32) state"
    and tr :: "'s \<Rightarrow> history"
    and rest :: "'s \<Rightarrow> 'r"
    and answer :: hw
  assumes rd_value: "fst (run_state (rd off) s) = answer (tr s) off"
    and rd_trace: "tr (snd (run_state (rd off) s)) = Rd off (answer (tr s) off) # tr s"
    and rd_rest: "rest (snd (run_state (rd off) s)) = rest s"
begin

lemma rd_reads_only: "reads_only tr rest (rd off)"
  unfolding reads_only_def by (auto simp: rd_trace rd_rest intro: exI[of _ "[Rd _ _]"])

lemma rd_test: "tests tr rest (do { v \<leftarrow> rd off; State_Monad.return (p v) }) (\<lambda>h. p (answer h off))"
proof -
  have "reads_only tr rest (do { v \<leftarrow> rd off; State_Monad.return (p v) })"
    by (intro reads_only_bind rd_reads_only reads_only_return)
  then show ?thesis by (simp add: tests_def split_beta rd_value)
qed

text \<open>Testing a register of every element of a list, as the ready and ring scans do.\<close>

lemma scan_test:
  assumes "read_stable answer"
  shows "tests tr rest (all_m xs (\<lambda>x. do { v \<leftarrow> rd (f x); State_Monad.return (p x v) }))
           (\<lambda>h. \<forall>x\<in>set xs. p x (answer h (f x)))"
  by (intro tests_all_m rd_test) (use assms in \<open>simp add: read_stable_def\<close>)

text \<open>Testing every word of every ring of every DSP.\<close>

lemma ring_scan_test:
  assumes "read_stable answer"
  shows "tests tr rest
     (all_m ds (\<lambda>d. all_m rs (\<lambda>r. all_m ws (\<lambda>w.
        do { v \<leftarrow> rd (f d r w); State_Monad.return (p d r w v) }))))
     (\<lambda>h. \<forall>d\<in>set ds. \<forall>r\<in>set rs. \<forall>w\<in>set ws. p d r w (answer h (f d r w)))"
  by (intro tests_all_m scan_test assms) (use assms in \<open>simp_all add: read_stable_def\<close>)

end

locale mmio_port = mmio_reader rd tr rest answer
  for rd :: "u32 \<Rightarrow> ('s, u32) state"
    and wr :: "u32 \<Rightarrow> u32 \<Rightarrow> ('s, unit) state"
    and tr :: "'s \<Rightarrow> history"
    and rest :: "'s \<Rightarrow> 'r"
    and answer :: hw +
  assumes wr_trace: "tr (snd (run_state (wr off v) s)) = Wr off v # tr s"
    and wr_rest: "rest (snd (run_state (wr off v) s)) = rest s"
begin

text \<open>Storing to every register of a list.\<close>

lemma store_each_trace:
  "tr (snd (run_state (for_each xs (\<lambda>x. wr (f x) (g x))) s)) =
     rev (map (\<lambda>x. Wr (f x) (g x)) xs) @ tr s"
proof (induction xs arbitrary: s)
  case (Cons x xs)
  obtain u t where "run_state (wr (f x) (g x)) s = (u, t)" by (meson surj_pair)
  then show ?case using Cons.IH[of t] wr_trace[of "f x" "g x" s] by simp
qed simp

lemma store_each_rest: "rest (snd (run_state (for_each xs (\<lambda>x. wr (f x) (g x))) s)) = rest s"
proof (induction xs arbitrary: s)
  case (Cons x xs)
  obtain u t where "run_state (wr (f x) (g x)) s = (u, t)" by (meson surj_pair)
  then show ?case using Cons.IH[of t] wr_rest[of "f x" "g x" s] by simp
qed simp

end

section \<open>Geometry of the ring registers\<close>

text \<open>
  The address map of \<^verbatim>\<open>docs/protocol-notes.md\<close>: sixteen 32-bit words per ring, two rings per
  DSP, banks of \<open>0x80\<close> bytes from \<open>0x2000\<close> for DSP 0 to 3 and from \<open>0x5e00\<close> for DSP 4 to 7.
\<close>

definition ring_addr :: "nat \<Rightarrow> nat \<Rightarrow> nat \<Rightarrow> nat" where
  "ring_addr d r w = (if d < 4 then 0x2000 else 0x5e00) + d * 0x80 + r * 0x40 + w * 4"

definition ring_reg :: "nat \<Rightarrow> nat \<Rightarrow> nat \<Rightarrow> u32" where
  "ring_reg d r w = of_nat (ring_addr d r w)"

lemma ring_addr_bounds:
  assumes "d < 8" "r < 2" "w < 16"
  shows "0x2000 \<le> ring_addr d r w \<and> ring_addr d r w < 0x2200 \<and> d < 4 \<or>
         0x6000 \<le> ring_addr d r w \<and> ring_addr d r w < 0x6200 \<and> 4 \<le> d"
  using assms by (auto simp: ring_addr_def)

lemma ring_addr_inj:
  assumes "d < 8" "r < 2" "w < 16" "d' < 8" "r' < 2" "w' < 16"
    and "ring_addr d r w = ring_addr d' r' w'"
  shows "d = d' \<and> r = r' \<and> w = w'"
proof -
  have "d = d'"
    using assms by (cases d d' rule: linorder_cases) (auto simp: ring_addr_def split: if_splits)
  moreover from this have "r = r'"
    using assms by (cases r r' rule: linorder_cases) (auto simp: ring_addr_def split: if_splits)
  ultimately show ?thesis using assms(7) by (simp add: ring_addr_def)
qed

lemma unat_ring_reg:
  assumes "d < 8" "r < 2" "w < 16"
  shows "unat (ring_reg d r w) = ring_addr d r w"
proof -
  have "ring_addr d r w < 2 ^ 32" using ring_addr_bounds[OF assms] by auto
  then show ?thesis by (simp add: ring_reg_def unat_of_nat take_bit_nat_eq_self)
qed

lemma ring_reg_eq_iff:
  assumes "d < 8" "r < 2" "w < 16" "d' < 8" "r' < 2" "w' < 16"
  shows "ring_reg d r w = ring_reg d' r' w' \<longleftrightarrow> d = d' \<and> r = r' \<and> w = w'"
  using ring_addr_inj[OF assms] unat_ring_reg[OF assms(1-3)] unat_ring_reg[OF assms(4-6)]
  by auto

text \<open>Ring registers are none of the card's global control registers.\<close>

lemma ring_reg_not_global:
  assumes "d < 8" "r < 2" "w < 16" and "0x2200 \<le> unat a" "unat a < 0x6000"
  shows "ring_reg d r w \<noteq> a" "a \<noteq> ring_reg d r w"
  using ring_addr_bounds[OF assms(1-3)] unat_ring_reg[OF assms(1-3)] assms(4,5) by auto

lemma ring_reg_in_bar:
  assumes "d < 8" "r < 2" "w < 16"
  shows "unat (ring_reg d r w) < 0x10000" "unat (ring_reg d r w) mod 4 = 0"
  using ring_addr_bounds[OF assms] unat_ring_reg[OF assms] by (auto simp: ring_addr_def)

text \<open>All words \<open>0..<n\<close> of all rings, in the order of the nested C loops.\<close>

definition ring_words :: "nat \<Rightarrow> (nat \<times> nat \<times> nat) list" where
  "ring_words n =
     concat (map (\<lambda>d. concat (map (\<lambda>r. map (\<lambda>w. (d, r, w)) [0..<n]) [0..<2])) [0..<8])"

lemma set_ring_words: "set (ring_words n) = {(d, r, w). d < 8 \<and> r < 2 \<and> w < n}"
  by (auto simp: ring_words_def image_iff)

lemma for_each_map: "for_each (map g xs) f = for_each xs (\<lambda>x. f (g x))"
  by (induction xs) auto

lemma for_each_concat: "for_each (concat xss) f = for_each xss (\<lambda>xs. for_each xs f)"
  by (induction xss) (auto simp: for_each_append)

lemma for_each_ring_words:
  "for_each [0..<8] (\<lambda>d. for_each [0..<2] (\<lambda>r. for_each [0..<n] (\<lambda>w. f d r w))) =
     for_each (ring_words n) (\<lambda>(d, r, w). f d r w)"
  by (simp add: ring_words_def for_each_concat for_each_map)

lemma fold_m_ring_words:
  "fold_m (\<lambda>d. fold_m (\<lambda>r. fold_m (\<lambda>w. f d r w) [0..<n]) [0..<2]) [0..<8] a =
     fold_m (\<lambda>(d, r, w). f d r w) (ring_words n) a"
  by (simp add: ring_words_def fold_m_concat fold_m_map)

lemma try_each_ring_words:
  "try_each [0..<8] (\<lambda>d. try_each [0..<2] (\<lambda>r. try_each [0..<n] (\<lambda>w. f d r w))) =
     try_each (ring_words n) (\<lambda>(d, r, w). f d r w)"
  by (simp add: ring_words_def try_each_concat try_each_map)

lemma for_each_cong: "(\<And>x. x \<in> set xs \<Longrightarrow> f x = g x) \<Longrightarrow> for_each xs f = for_each xs g"
  by (induction xs) auto

lemma all_m_cong: "(\<And>x. x \<in> set xs \<Longrightarrow> f x = g x) \<Longrightarrow> all_m xs f = all_m xs g"
  by (induction xs) (simp_all cong: if_cong)

lemma ring_reg_offset: "ring_reg d r w = ring_reg d r 0 + of_nat w * 4"
  by (simp add: ring_reg_def ring_addr_def)

lemma ring_reg_words:
  "ring_reg d r 0 + 0x20 = ring_reg d r 8"
  "ring_reg d r 0 + 0x24 = ring_reg d r 9"
  "ring_reg d r 0 + 0x28 = ring_reg d r 10"
  "ring_reg d r 0 + of_nat p * 8 = ring_reg d r (2 * p)"
  "ring_reg d r (2 * p) + 4 = ring_reg d r (2 * p + 1)"
  by (simp_all add: ring_reg_def ring_addr_def algebra_simps)

section \<open>Accesses inside the window\<close>

definition in_bar :: "u32 \<Rightarrow> bool" where
  "in_bar off \<longleftrightarrow> unat off + 4 \<le> 0x10000 \<and> unat off mod 4 = 0"

fun bar_rd :: "event \<Rightarrow> bool" where
  "bar_rd (Rd off _) = in_bar off"
| "bar_rd _ = False"

lemma bar_rd_reads: "list_all bar_rd rs \<Longrightarrow> reads rs"
proof (induction rs)
  case (Cons e rs) then show ?case by (cases e) auto
qed simp

lemma ring_reg_in_bar' [simp]:
  assumes "d < 8" "r < 2" "w < 16"
  shows "in_bar (ring_reg d r w)"
  using ring_addr_bounds[OF assms] unat_ring_reg[OF assms]
  by (auto simp: in_bar_def ring_addr_def)

text \<open>A read-only program whose loads stay inside the window is known up to those loads.\<close>

lemma wp_scan:
  fixes m :: "('a bus_scheme, 'b) state"
  assumes "emits bar_rd m" and "reads_only log (\<lambda>s. s\<lparr>log := []\<rparr>) m"
    and "\<And>b rs. list_all bar_rd rs \<Longrightarrow> fst (run_state m s) = b \<Longrightarrow> Q b (s\<lparr>log := rs @ log s\<rparr>)"
  shows "wp m Q s"
proof -
  obtain b t where m: "run_state m s = (b, t)" by fastforce
  obtain rs where rs: "log t = rs @ log s" "list_all bar_rd rs"
    using assms(1) m by (rule emitsD)
  have "t\<lparr>log := []\<rparr> = s\<lparr>log := []\<rparr>"
    using assms(2) m unfolding reads_only_def by (metis snd_conv)
  then have "t = s\<lparr>log := rs @ log s\<rparr>"
    using rs(1) by (cases s, cases t) simp
  then show ?thesis using m rs(2) assms(3)[of rs b] by (simp add: wp_def)
qed

end
