(* ===== verification/Uapi.thy ===== *)
theory Uapi
  imports Prelude
begin

text \<open>
  The user-space ABI of \<^verbatim>\<open>include/uapi/uad2_compute.h\<close>: the three ioctl structures as records
  (reserved arrays as lists), their sizes, the capability bits and the five command numbers,
  with Linux's \<open>_IOC\<close> encoding (direction, size, type and number packed into 32 bits). Error
  codes are the values of a datatype; a C function returning zero or a negative error is a sum.
\<close>

datatype errno =
    EPERM | EIO | ENOMEM | EFAULT | EBUSY | ENODEV | EINVAL | ENOTTY | EPIPE
  | EOPNOTSUPP | ENAMETOOLONG | Callee int

type_synonym 'a result = "errno + 'a"

section \<open>Structures\<close>

record uad2_compute_info =
  info_size :: u32
  info_abi_version :: u32
  info_vendor_id :: u16
  info_device_id :: u16
  info_subsystem_vendor_id :: u16
  info_subsystem_device_id :: u16
  info_fpga_revision :: u32
  info_extended_capabilities :: u32
  info_dsp_count :: u32
  info_transport_started :: u32
  info_capabilities :: u64
  info_reserved :: "u64 list"

record uad2_compute_dsp_status =
  st_size :: u32
  st_dsp_index :: u32
  st_raw_ready_word :: u32
  st_ready :: u32
  st_dma_enabled :: u32
  st_command_read_index :: u32
  st_command_write_index :: u32
  st_response_read_index :: u32
  st_response_write_index :: u32
  st_reserved :: "u32 list"

record uad2_compute_reset =
  rst_size :: u32
  rst_dsp_index :: u32
  rst_flags :: u32
  rst_ready_after :: u32
  rst_dma_control_before :: u32
  rst_dma_control_after :: u32
  rst_reserved :: "u32 list"

text \<open>\<open>sizeof\<close> of each structure: every field is naturally aligned, so there is no padding.\<close>

definition sizeof_info :: nat where
  "sizeof_info = 2 * 4 + 4 * 2 + 4 * 4 + 8 + 4 * 8"

definition sizeof_dsp_status :: nat where
  "sizeof_dsp_status = 9 * 4 + 7 * 4"

definition sizeof_reset :: nat where
  "sizeof_reset = 6 * 4 + 4 * 4"

section \<open>Constants\<close>

definition UAD2_COMPUTE_ABI_VERSION :: u32 where
  "UAD2_COMPUTE_ABI_VERSION = 1"

definition UAD2_COMPUTE_DSP_COUNT :: u32 where
  "UAD2_COMPUTE_DSP_COUNT = 8"

definition UAD2_CAP_RING_TRANSPORT :: u64 where
  "UAD2_CAP_RING_TRANSPORT = push_bit 0 1"

definition UAD2_CAP_PER_DSP_RESET :: u64 where
  "UAD2_CAP_PER_DSP_RESET = push_bit 1 1"

definition UAD2_CAP_PROGRAM_LOAD :: u64 where
  "UAD2_CAP_PROGRAM_LOAD = push_bit 2 1"

definition UAD2_CAP_DMA_BUFFERS :: u64 where
  "UAD2_CAP_DMA_BUFFERS = push_bit 3 1"

definition UAD2_CAP_JOB_COMPLETION :: u64 where
  "UAD2_CAP_JOB_COMPLETION = push_bit 4 1"

definition UAD2_CAP_PROGRAM_ISOLATION :: u64 where
  "UAD2_CAP_PROGRAM_ISOLATION = push_bit 5 1"

section \<open>Command numbers\<close>

definition UAD2_COMPUTE_IOC_MAGIC :: u32 where
  "UAD2_COMPUTE_IOC_MAGIC = 0x55"

definition IOC :: "u32 \<Rightarrow> u32 \<Rightarrow> u32 \<Rightarrow> nat \<Rightarrow> u32" where
  "IOC dir ty nr sz = push_bit 30 dir OR push_bit 16 (of_nat sz) OR push_bit 8 ty OR nr"

definition IOC_TYPE :: "u32 \<Rightarrow> u32" where
  "IOC_TYPE command = drop_bit 8 command AND 0xff"

definition UAD2_COMPUTE_IOC_GET_INFO :: u32 where
  "UAD2_COMPUTE_IOC_GET_INFO = IOC 2 UAD2_COMPUTE_IOC_MAGIC 0x00 sizeof_info"

definition UAD2_COMPUTE_IOC_GET_DSP_STATUS :: u32 where
  "UAD2_COMPUTE_IOC_GET_DSP_STATUS = IOC 3 UAD2_COMPUTE_IOC_MAGIC 0x01 sizeof_dsp_status"

definition UAD2_COMPUTE_IOC_START_TRANSPORT :: u32 where
  "UAD2_COMPUTE_IOC_START_TRANSPORT = IOC 0 UAD2_COMPUTE_IOC_MAGIC 0x02 0"

definition UAD2_COMPUTE_IOC_STOP_TRANSPORT :: u32 where
  "UAD2_COMPUTE_IOC_STOP_TRANSPORT = IOC 0 UAD2_COMPUTE_IOC_MAGIC 0x03 0"

definition UAD2_COMPUTE_IOC_RESET_DSP :: u32 where
  "UAD2_COMPUTE_IOC_RESET_DSP = IOC 3 UAD2_COMPUTE_IOC_MAGIC 0x04 sizeof_reset"

lemmas ioc_defs = UAD2_COMPUTE_IOC_GET_INFO_def UAD2_COMPUTE_IOC_GET_DSP_STATUS_def
  UAD2_COMPUTE_IOC_START_TRANSPORT_def UAD2_COMPUTE_IOC_STOP_TRANSPORT_def
  UAD2_COMPUTE_IOC_RESET_DSP_def

lemma ioc_values:
  "UAD2_COMPUTE_IOC_GET_INFO = 0x80485500"
  "UAD2_COMPUTE_IOC_GET_DSP_STATUS = 0xC0405501"
  "UAD2_COMPUTE_IOC_START_TRANSPORT = 0x5502"
  "UAD2_COMPUTE_IOC_STOP_TRANSPORT = 0x5503"
  "UAD2_COMPUTE_IOC_RESET_DSP = 0xC0285504"
  by (simp_all add: ioc_defs IOC_def UAD2_COMPUTE_IOC_MAGIC_def sizeof_info_def
      sizeof_dsp_status_def sizeof_reset_def)

lemma ioc_types:
  "IOC_TYPE UAD2_COMPUTE_IOC_GET_INFO = UAD2_COMPUTE_IOC_MAGIC"
  "IOC_TYPE UAD2_COMPUTE_IOC_GET_DSP_STATUS = UAD2_COMPUTE_IOC_MAGIC"
  "IOC_TYPE UAD2_COMPUTE_IOC_START_TRANSPORT = UAD2_COMPUTE_IOC_MAGIC"
  "IOC_TYPE UAD2_COMPUTE_IOC_STOP_TRANSPORT = UAD2_COMPUTE_IOC_MAGIC"
  "IOC_TYPE UAD2_COMPUTE_IOC_RESET_DSP = UAD2_COMPUTE_IOC_MAGIC"
  by (simp_all add: ioc_values IOC_TYPE_def UAD2_COMPUTE_IOC_MAGIC_def)

lemma ioc_distinct:
  "distinct [UAD2_COMPUTE_IOC_GET_INFO, UAD2_COMPUTE_IOC_GET_DSP_STATUS,
     UAD2_COMPUTE_IOC_START_TRANSPORT, UAD2_COMPUTE_IOC_STOP_TRANSPORT,
     UAD2_COMPUTE_IOC_RESET_DSP]"
  by (simp add: ioc_values)

end
