(* ===== verification/Kernel_Device.thy ===== *)
theory Kernel_Device
  imports Bus Uapi
begin

text \<open>
  The device half of \<^verbatim>\<open>kernel/uad2_compute.c\<close> (lines 24 to 283): the register constants and
  tables, the per-device structure, the register helpers, and the three operations that run
  with the device mutex held: start, stop and the reset pulse of one DSP. A ring page's
  \<^verbatim>\<open>cpu\<close> pointer is modelled by whether it is non-null, its contents by the
  \<^verbatim>\<open>ZeroPage\<close> events of \<^verbatim>\<open>memset\<close> (the driver never reads them back).
\<close>

section \<open>Constants and tables\<close>

definition UAD2_BAR0_SIZE :: nat where "UAD2_BAR0_SIZE = 0x10000"

definition UAD2_DSP_COUNT :: nat where [simp]: "UAD2_DSP_COUNT = 8"
definition UAD2_RING_COUNT :: nat where [simp]: "UAD2_RING_COUNT = 2"
definition UAD2_RING_PAGES :: nat where [simp]: "UAD2_RING_PAGES = 4"
definition UAD2_RING_PAGE_BYTES :: nat where "UAD2_RING_PAGE_BYTES = 4096"
definition UAD2_RING_ENTRIES :: u32 where "UAD2_RING_ENTRIES = 1024"

definition UAD2_DMA_CONTROL :: u32 where [simp]: "UAD2_DMA_CONTROL = 0x2200"
definition UAD2_INTERRUPT_ENABLE :: u32 where [simp]: "UAD2_INTERRUPT_ENABLE = 0x2204"
definition UAD2_INTERRUPT_ACK :: u32 where [simp]: "UAD2_INTERRUPT_ACK = 0x2208"
definition UAD2_FPGA_REVISION :: u32 where [simp]: "UAD2_FPGA_REVISION = 0x2218"
definition UAD2_NOTIFICATION_CONTROL :: u32 where [simp]: "UAD2_NOTIFICATION_CONTROL = 0x2220"
definition UAD2_EXTENDED_CAPABILITIES :: u32 where
  [simp]: "UAD2_EXTENDED_CAPABILITIES = 0x2234"

definition UAD2_EXPECTED_FPGA_REVISION :: u32 where
  "UAD2_EXPECTED_FPGA_REVISION = 0xa012dc0d"
definition UAD2_EXPECTED_CAPABILITIES :: u32 where
  "UAD2_EXPECTED_CAPABILITIES = 0x00300811"
definition UAD2_DMA_COLD_RESET :: u32 where [simp]: "UAD2_DMA_COLD_RESET = 0x0001fe00"
definition UAD2_DMA_RESET_GLOBAL :: u32 where [simp]: "UAD2_DMA_RESET_GLOBAL = 0x0001fe01"
definition UAD2_DMA_GLOBAL_ONLY :: u32 where [simp]: "UAD2_DMA_GLOBAL_ONLY = 0x00000001"
definition UAD2_DMA_ALL_DSPS :: u32 where [simp]: "UAD2_DMA_ALL_DSPS = 0x000001ff"

definition uad2_dsp_banks :: "u32 list" where
  "uad2_dsp_banks = [0x2000, 0x2080, 0x2100, 0x2180, 0x6000, 0x6080, 0x6100, 0x6180]"

definition uad2_ready_offsets :: "u32 list" where
  "uad2_ready_offsets = [0x01a4, 0x09a4, 0x11a4, 0x19a4, 0x41a4, 0x49a4, 0x51a4, 0x59a4]"

section \<open>The device structure\<close>

record uad2_ring_page =
  cpu :: bool
  dma :: u64

record pci_dev =
  vendor :: u16
  device :: u16
  subsystem_vendor :: u16
  subsystem_device :: u16

record uad2_compute_device =
  pdev :: pci_dev
  bar :: bool
  misc_name :: "string option"
  lock_held :: bool
  refcount :: nat
  pages :: "nat \<Rightarrow> nat \<Rightarrow> nat \<Rightarrow> uad2_ring_page"
  started :: bool
  removing :: bool
  dev_index :: u32

record kstate = bus +
  dev :: uad2_compute_device
  next_index :: u32

definition set_dev :: "(uad2_compute_device \<Rightarrow> uad2_compute_device) \<Rightarrow> (kstate, unit) state" where
  "set_dev f = modify (\<lambda>s. s\<lparr>dev := f (dev s)\<rparr>)"

lemma wp_set_dev [wp_simps]: "wp (set_dev f) Q = (\<lambda>s. Q () (s\<lparr>dev := f (dev s)\<rparr>))"
  by (simp add: set_dev_def wp_simps)

lemma run_set_dev [simp]: "run_state (set_dev f) s = ((), s\<lparr>dev := f (dev s)\<rparr>)"
  by (simp add: set_dev_def)

lemma emits_set_dev [emits_intros]: "emits P (set_dev f)"
  by (auto simp: set_dev_def intro: emits_intros)

section \<open>Register helpers\<close>

definition uad2_read :: "hw \<Rightarrow> u32 \<Rightarrow> (kstate, u32) state" where
  "uad2_read hw offset = bus_read hw offset"

definition uad2_write :: "u32 \<Rightarrow> u32 \<Rightarrow> (kstate, unit) state" where
  "uad2_write offset v = bus_write offset v"

definition uad2_all_dsps_ready :: "hw \<Rightarrow> (kstate, bool) state" where
  "uad2_all_dsps_ready hw = all_m [0..<UAD2_DSP_COUNT] (\<lambda>dsp.
     do { v \<leftarrow> uad2_read hw (uad2_ready_offsets ! dsp); State_Monad.return (v AND 1 \<noteq> 0) })"

definition uad2_all_ring_words_zero :: "hw \<Rightarrow> (kstate, bool) state" where
  "uad2_all_ring_words_zero hw =
     all_m [0..<UAD2_DSP_COUNT] (\<lambda>dsp. all_m [0..<UAD2_RING_COUNT] (\<lambda>ring. all_m [0..<16] (\<lambda>word.
       do { v \<leftarrow> uad2_read hw (uad2_dsp_banks ! dsp + of_nat ring * 0x40 + of_nat word * 4);
            State_Monad.return (v = 0) })))"

definition uad2_clear_all_rings :: "(kstate, unit) state" where
  "uad2_clear_all_rings =
     for_each [0..<UAD2_DSP_COUNT] (\<lambda>dsp. for_each [0..<UAD2_RING_COUNT] (\<lambda>ring.
       for_each [0..<10] (\<lambda>word.
         uad2_write (uad2_dsp_banks ! dsp + of_nat ring * 0x40 + of_nat word * 4) 0)))"

definition reads_as :: "hw \<Rightarrow> u32 \<Rightarrow> u32 \<Rightarrow> (kstate, bool) state" where
  "reads_as hw offset expected =
     do { v \<leftarrow> uad2_read hw offset; State_Monad.return (v = expected) }"

definition uad2_cold_precondition :: "hw \<Rightarrow> (kstate, bool) state" where
  "uad2_cold_precondition hw =
     and_m (reads_as hw UAD2_DMA_CONTROL UAD2_DMA_COLD_RESET)
    (and_m (reads_as hw UAD2_INTERRUPT_ENABLE 0)
    (and_m (reads_as hw UAD2_FPGA_REVISION UAD2_EXPECTED_FPGA_REVISION)
    (and_m (reads_as hw UAD2_EXTENDED_CAPABILITIES UAD2_EXPECTED_CAPABILITIES)
    (and_m (uad2_all_ring_words_zero hw)
           (uad2_all_dsps_ready hw)))))"

definition uad2_initialize_ring :: "hw \<Rightarrow> nat \<Rightarrow> nat \<Rightarrow> (kstate, unit) state" where
  "uad2_initialize_ring hw dsp ring =
     (let base = uad2_dsp_banks ! dsp + of_nat ring * 0x40 in
      do { raw \<leftarrow> uad2_read hw (base + 0x28);
           let index = (if raw \<ge> UAD2_RING_ENTRIES then 0 else raw);
           uad2_write (base + 0x24) index;
           uad2_write (base + 0x20) index;
           for_each [0..<UAD2_RING_PAGES] (\<lambda>page.
             do { address \<leftarrow> gets (\<lambda>s. dma (pages (dev s) dsp ring page));
                  uad2_write (base + of_nat page * 8) (lower_32_bits address);
                  uad2_write (base + of_nat page * 8 + 4) (upper_32_bits address) }) })"

definition uad2_rings_published :: "hw \<Rightarrow> (kstate, bool) state" where
  "uad2_rings_published hw =
     all_m [0..<UAD2_DSP_COUNT] (\<lambda>dsp. all_m [0..<UAD2_RING_COUNT] (\<lambda>ring.
       let base = uad2_dsp_banks ! dsp + of_nat ring * 0x40 in
       all_m [0..<UAD2_RING_PAGES] (\<lambda>page.
         do { lo \<leftarrow> uad2_read hw (base + of_nat page * 8);
              hi \<leftarrow> uad2_read hw (base + of_nat page * 8 + 4);
              address \<leftarrow> gets (\<lambda>s. dma (pages (dev s) dsp ring page));
              State_Monad.return (join_64 lo hi = address) })))"

section \<open>Start, stop and reset, with the mutex held\<close>

text \<open>The register sequence that ends a failed start and begins every stop.\<close>

definition uad2_start_rollback :: "hw \<Rightarrow> (kstate, unit) state" where
  "uad2_start_rollback hw =
     do { uad2_write UAD2_INTERRUPT_ENABLE 0;
          uad2_write UAD2_INTERRUPT_ACK 0xffffffff;
          uad2_write UAD2_DMA_CONTROL UAD2_DMA_RESET_GLOBAL;
          uad2_write UAD2_DMA_CONTROL UAD2_DMA_GLOBAL_ONLY;
          uad2_clear_all_rings;
          uad2_write UAD2_DMA_CONTROL UAD2_DMA_COLD_RESET;
          uad2_read hw UAD2_DMA_CONTROL;
          emit ClearMaster }"

text \<open>
  The body of a start after the precondition: zero the pages, quiesce, publish the sixteen
  rings while adding one engine at a time. Then the check of the result.
\<close>

definition uad2_start_sequence :: "hw \<Rightarrow> (kstate, unit) state" where
  "uad2_start_sequence hw =
     do { for_each [0..<UAD2_DSP_COUNT] (\<lambda>dsp. for_each [0..<UAD2_RING_COUNT] (\<lambda>ring.
            for_each [0..<UAD2_RING_PAGES] (\<lambda>page. emit (ZeroPage dsp ring page))));
          emit Barrier;
          emit SetMaster;
          uad2_write UAD2_NOTIFICATION_CONTROL 0;
          uad2_write UAD2_INTERRUPT_ENABLE 0;
          uad2_write UAD2_INTERRUPT_ACK 0;
          uad2_write UAD2_DMA_CONTROL UAD2_DMA_RESET_GLOBAL;
          uad2_write UAD2_DMA_CONTROL UAD2_DMA_GLOBAL_ONLY;
          uad2_write UAD2_INTERRUPT_ACK 0xffffffff;
          for_each [0..<UAD2_DSP_COUNT] (\<lambda>dsp. do {
            for_each [0..<UAD2_RING_COUNT] (uad2_initialize_ring hw dsp);
            uad2_write UAD2_DMA_CONTROL (push_bit (dsp + 2) 1 - 1) }) }"

definition uad2_start_verify :: "hw \<Rightarrow> (kstate, bool) state" where
  "uad2_start_verify hw =
     do { uad2_read hw UAD2_DMA_CONTROL;
          and_m (reads_as hw UAD2_DMA_CONTROL UAD2_DMA_ALL_DSPS)
         (and_m (uad2_rings_published hw) (uad2_all_dsps_ready hw)) }"

definition uad2_start_locked :: "hw \<Rightarrow> (kstate, unit result) state" where
  "uad2_start_locked hw =
     do { running \<leftarrow> gets (\<lambda>s. started (dev s));
          if running then State_Monad.return (Inr ())
          else do {
            cold \<leftarrow> uad2_cold_precondition hw;
            if \<not> cold then State_Monad.return (Inl EBUSY)
            else do {
              uad2_start_sequence hw;
              ok \<leftarrow> uad2_start_verify hw;
              if \<not> ok then do {
                uad2_start_rollback hw;
                State_Monad.return (Inl EIO) }
              else do {
                set_dev (\<lambda>d. d\<lparr>started := True\<rparr>);
                State_Monad.return (Inr ()) } } } }"

definition uad2_stop_locked :: "hw \<Rightarrow> (kstate, unit result) state" where
  "uad2_stop_locked hw =
     do { running \<leftarrow> gets (\<lambda>s. started (dev s));
          if \<not> running then State_Monad.return (Inr ())
          else do {
            uad2_write UAD2_INTERRUPT_ENABLE 0;
            uad2_write UAD2_INTERRUPT_ACK 0xffffffff;
            uad2_write UAD2_DMA_CONTROL UAD2_DMA_RESET_GLOBAL;
            uad2_write UAD2_DMA_CONTROL UAD2_DMA_GLOBAL_ONLY;
            uad2_clear_all_rings;
            uad2_write UAD2_DMA_CONTROL UAD2_DMA_COLD_RESET;
            uad2_read hw UAD2_DMA_CONTROL;
            emit ClearMaster;
            set_dev (\<lambda>d. d\<lparr>started := False\<rparr>);
            recovered \<leftarrow> uad2_cold_precondition hw;
            State_Monad.return (if recovered then Inr () else Inl EIO) } }"

definition uad2_reset_dsp_locked ::
  "hw \<Rightarrow> uad2_compute_reset \<Rightarrow> (kstate, unit result \<times> uad2_compute_reset) state" where
  "uad2_reset_dsp_locked hw reset =
     do { running \<leftarrow> gets (\<lambda>s. started (dev s));
          if \<not> running then State_Monad.return (Inl EPIPE, reset)
          else if rst_dsp_index reset \<ge> of_nat UAD2_DSP_COUNT \<or> rst_flags reset \<noteq> 0 then
            State_Monad.return (Inl EINVAL, reset)
          else do {
            before \<leftarrow> uad2_read hw UAD2_DMA_CONTROL;
            if before \<noteq> UAD2_DMA_ALL_DSPS then State_Monad.return (Inl EBUSY, reset)
            else do {
              let dsp = unat (rst_dsp_index reset);
              let enable_bit = push_bit (dsp + 1) 1;
              let reset_bit = push_bit (dsp + 9) 1;
              let disabled = before AND NOT enable_bit;
              uad2_write UAD2_DMA_CONTROL (disabled OR reset_bit);
              uad2_write UAD2_DMA_CONTROL disabled;
              emit (Delay 10000);
              pulse \<leftarrow> uad2_read hw (uad2_ready_offsets ! dsp);
              uad2_write UAD2_DMA_CONTROL before;
              uad2_read hw UAD2_DMA_CONTROL;
              after \<leftarrow> uad2_read hw UAD2_DMA_CONTROL;
              ready \<leftarrow> uad2_read hw (uad2_ready_offsets ! dsp);
              let ready_after = (if ready AND 1 \<noteq> 0 then 1 else 0);
              let out = reset\<lparr>rst_dma_control_before := before,
                              rst_dma_control_after := after,
                              rst_ready_after := ready_after\<rparr>;
              State_Monad.return
                (if \<not> (pulse AND 1 \<noteq> 0) \<or> after \<noteq> before \<or> ready_after = 0
                 then Inl EIO else Inr (), out) } } }"

end
