(* ===== verification/Kernel_Safety.thy ===== *)
theory Kernel_Safety
  imports Kernel_Device
begin

text \<open>
  What must hold at every instant of the driver's life, whatever the card answers: a DSP's DMA
  engine is enabled only while all eight page descriptors of its two rings hold the bus
  addresses of coherent pages the driver owns; every register access happens while BAR0 is
  mapped and stays inside its 64 KiB; \<^verbatim>\<open>memset\<close> touches owned pages only. This theory
  defines that property on histories, shows which events keep it, and gives the lemmas on the
  register helpers of \<^verbatim>\<open>kernel/uad2_compute.c\<close>.
\<close>

section \<open>The safety property\<close>

definition published :: "history \<Rightarrow> nat \<Rightarrow> bool" where
  "published h d \<longleftrightarrow> (\<forall>r<2. \<forall>p<4. \<exists>a. live_page h d r p = Some a \<and>
     shadow h (ring_reg d r (2 * p)) = Some (lower_32_bits a) \<and>
     shadow h (ring_reg d r (2 * p + 1)) = Some (upper_32_bits a))"

definition engine_enabled :: "history \<Rightarrow> nat \<Rightarrow> bool" where
  "engine_enabled h d \<longleftrightarrow>
     (case shadow h UAD2_DMA_CONTROL of None \<Rightarrow> False | Some v \<Rightarrow> bit v (d + 1))"

definition engines_ok :: "history \<Rightarrow> bool" where
  "engines_ok h \<longleftrightarrow> (\<forall>d<8. engine_enabled h d \<longrightarrow> published h d)"

fun access_ok :: "history \<Rightarrow> event \<Rightarrow> bool" where
  "access_ok h (Rd off _) = (held h BarMap = 1 \<and> in_bar off)"
| "access_ok h (Wr off _) = (held h BarMap = 1 \<and> in_bar off)"
| "access_ok h (ZeroPage d r p) = (live_page h d r p \<noteq> None)"
| "access_ok h _ = True"

fun dma_safe :: "history \<Rightarrow> bool" where
  "dma_safe [] = True"
| "dma_safe (e # h) = (engines_ok (e # h) \<and> access_ok h e)"

section \<open>Events that keep it\<close>

lemma engines_ok_quiet [simp]: "is_quiet e \<Longrightarrow> engines_ok (e # h) = engines_ok h"
  by (simp add: engines_ok_def engine_enabled_def published_def)

lemma engines_ok_master [simp]:
  "engines_ok (SetMaster # h) = engines_ok h" "engines_ok (ClearMaster # h) = engines_ok h"
  by (simp_all add: engines_ok_def engine_enabled_def published_def)

lemma engines_ok_resource [simp]:
  "engines_ok (Acquire x # h) = engines_ok h" "engines_ok (Release x # h) = engines_ok h"
  by (simp_all add: engines_ok_def engine_enabled_def published_def)

lemma engines_ok_Nil [simp]: "engines_ok []"
  by (simp add: engines_ok_def engine_enabled_def)

lemma dma_safe_engines: "dma_safe h \<Longrightarrow> engines_ok h"
  by (cases h) simp_all

lemma always_safe_engines: "always dma_safe h \<Longrightarrow> engines_ok h"
  by (rule dma_safe_engines) (rule always_now)

text \<open>A store to a register that is neither a ring word nor DMA control.\<close>

definition plain_reg :: "u32 \<Rightarrow> bool" where
  "plain_reg a \<longleftrightarrow> in_bar a \<and> a \<noteq> UAD2_DMA_CONTROL \<and> 0x2200 \<le> unat a \<and> unat a < 0x6000"

lemma plain_regs [simp]:
  "plain_reg UAD2_INTERRUPT_ENABLE" "plain_reg UAD2_INTERRUPT_ACK"
  "plain_reg UAD2_NOTIFICATION_CONTROL"
  "plain_reg 0x2204" "plain_reg 0x2208" "plain_reg 0x2220"
  by (simp_all add: plain_reg_def in_bar_def)

lemma global_in_bar [simp]:
  "in_bar UAD2_DMA_CONTROL" "in_bar UAD2_INTERRUPT_ENABLE" "in_bar UAD2_FPGA_REVISION"
  "in_bar UAD2_EXTENDED_CAPABILITIES" "in_bar 0x2200" "in_bar 0x2204" "in_bar 0x2218"
  "in_bar 0x2234"
  by (simp_all add: in_bar_def)

lemma ready_in_bar [simp]: "d < 8 \<Longrightarrow> in_bar (uad2_ready_offsets ! d)"
proof -
  have "\<forall>a\<in>set uad2_ready_offsets. in_bar a" by (simp add: uad2_ready_offsets_def in_bar_def)
  moreover assume "d < 8"
  then have "uad2_ready_offsets ! d \<in> set uad2_ready_offsets"
    by (intro nth_mem) (simp add: uad2_ready_offsets_def)
  ultimately show ?thesis by blast
qed

lemma ring_reg_not_dma [simp]:
  assumes "d < 8" "r < 2" "w < 16"
  shows "ring_reg d r w \<noteq> 0x2200" "0x2200 \<noteq> ring_reg d r w"
  using ring_reg_not_global[OF assms, of "0x2200"] by simp_all

lemma shadow_ring_plain [simp]:
  assumes "plain_reg a" "d < 8" "r < 2" "w < 16"
  shows "shadow (Wr a v # h) (ring_reg d r w) = shadow h (ring_reg d r w)"
  using ring_reg_not_global[OF assms(2-4), of a] assms(1) by (auto simp: plain_reg_def)

lemma published_plain [simp]:
  "plain_reg a \<Longrightarrow> d < 8 \<Longrightarrow> published (Wr a v # h) d = published h d"
  by (simp add: published_def del: shadow.simps)

lemma engine_enabled_plain [simp]:
  "plain_reg a \<Longrightarrow> engine_enabled (Wr a v # h) d = engine_enabled h d"
  by (simp add: engine_enabled_def plain_reg_def)

lemma engines_ok_plain [simp]: "plain_reg a \<Longrightarrow> engines_ok (Wr a v # h) = engines_ok h"
  by (simp add: engines_ok_def)

lemma safe_plain:
  "plain_reg a \<Longrightarrow> held h BarMap = 1 \<Longrightarrow> always dma_safe h \<Longrightarrow> always dma_safe (Wr a v # h)"
  using always_safe_engines by (auto simp: plain_reg_def)

text \<open>A store to DMA control.\<close>

lemma published_dma [simp]:
  "d < 8 \<Longrightarrow> published (Wr UAD2_DMA_CONTROL v # h) d = published h d"
  "d < 8 \<Longrightarrow> published (Wr 0x2200 v # h) d = published h d"
  by (simp_all add: published_def)

lemma engine_enabled_dma [simp]:
  "engine_enabled (Wr UAD2_DMA_CONTROL v # h) d = bit v (d + 1)"
  "engine_enabled (Wr 0x2200 v # h) d = bit v (d + 1)"
  by (simp_all add: engine_enabled_def)

lemma safe_dma:
  assumes "always dma_safe h" "held h BarMap = 1"
    and "\<And>d. d < 8 \<Longrightarrow> bit v (d + 1) \<Longrightarrow> published h d"
  shows "always dma_safe (Wr UAD2_DMA_CONTROL v # h)"
  using assms by (simp add: engines_ok_def)

text \<open>A store to a ring register of a DSP whose engine is off.\<close>

lemma published_other:
  assumes "d < 8" "r < 2" "w < 16" "d' < 8" "d' \<noteq> d"
  shows "published (Wr (ring_reg d r w) v # h) d' = published h d'"
  using assms by (simp add: published_def ring_reg_eq_iff)

lemma engine_enabled_ring [simp]:
  "d < 8 \<Longrightarrow> r < 2 \<Longrightarrow> w < 16 \<Longrightarrow>
     engine_enabled (Wr (ring_reg d r w) v # h) d' = engine_enabled h d'"
  by (simp add: engine_enabled_def)

lemma safe_ring:
  assumes "always dma_safe h" "held h BarMap = 1" "d < 8" "r < 2" "w < 16"
    and "\<not> engine_enabled h d"
  shows "always dma_safe (Wr (ring_reg d r w) v # h)"
proof -
  have "engines_ok h" using assms(1) by (rule always_safe_engines)
  then have "engines_ok (Wr (ring_reg d r w) v # h)"
    using assms unfolding engines_ok_def
    by (metis engine_enabled_ring published_other)
  with assms show ?thesis by simp
qed

lemma safe_reads:
  assumes "list_all bar_rd rs" "always dma_safe h" "held h BarMap = 1"
  shows "always dma_safe (rs @ h)"
  using assms(1)
proof (induction rs)
  case Nil
  then show ?case using assms by simp
next
  case (Cons e rs)
  then obtain a v where e: "e = Rd a v" "in_bar a" by (cases e) auto
  have "engines_ok (rs @ h)" using Cons by (auto intro: always_safe_engines)
  with Cons e assms(3) show ?case by (auto dest: bar_rd_reads)
qed

text \<open>A list of stores to ring registers, newest last in the list, first in the log.\<close>

definition ring_stores :: "(nat \<times> nat \<times> nat \<times> u32) list \<Rightarrow> history" where
  "ring_stores xs = rev (map (\<lambda>(d, r, w, v). Wr (ring_reg d r w) v) xs)"

lemma ring_stores_simps [simp]:
  "ring_stores [] = []" "ring_stores ((d, r, w, v) # xs) = ring_stores xs @ [Wr (ring_reg d r w) v]"
  by (simp_all add: ring_stores_def)

lemma ring_stores_append: "ring_stores (xs @ ys) = ring_stores ys @ ring_stores xs"
  by (simp add: ring_stores_def)

definition in_rings :: "(nat \<times> nat \<times> nat \<times> u32) list \<Rightarrow> bool" where
  "in_rings xs \<longleftrightarrow> (\<forall>(d, r, w, v) \<in> set xs. d < 8 \<and> r < 2 \<and> w < 16)"

lemma in_rings_Cons:
  "in_rings ((d, r, w, v) # xs) \<longleftrightarrow> d < 8 \<and> r < 2 \<and> w < 16 \<and> in_rings xs"
  by (auto simp: in_rings_def)

lemma ring_stores_views:
  assumes "in_rings xs"
  shows "bus_master (ring_stores xs @ h) = bus_master h"
    "live_page (ring_stores xs @ h) = live_page h"
    "held (ring_stores xs @ h) = held h"
    "engine_enabled (ring_stores xs @ h) = engine_enabled h"
  using assms
proof (induction xs arbitrary: h)
  case (Cons x xs)
  obtain d r w v where x: "x = (d, r, w, v)" by (cases x)
  {
    case 1 with Cons.IH(1) show ?case by (simp add: x in_rings_Cons)
  next
    case 2 with Cons.IH(2) show ?case by (simp add: x in_rings_Cons fun_eq_iff)
  next
    case 3 with Cons.IH(3) show ?case by (simp add: x in_rings_Cons fun_eq_iff)
  next
    case 4 with Cons.IH(4) show ?case by (simp add: x in_rings_Cons fun_eq_iff)
  }
qed (simp_all add: ring_stores_def)

lemma ring_stores_shadow_other:
  assumes "in_rings xs" "\<And>d r w. d < 8 \<Longrightarrow> r < 2 \<Longrightarrow> w < 16 \<Longrightarrow> ring_reg d r w \<noteq> a"
  shows "shadow (ring_stores xs @ h) a = shadow h a"
  using assms(1)
proof (induction xs arbitrary: h)
  case (Cons x xs)
  obtain d r w v where x: "x = (d, r, w, v)" by (cases x)
  with Cons assms(2)[of d r w] show ?case by (simp add: in_rings_Cons)
qed simp

lemma ring_stores_shadow_dma:
  "in_rings xs \<Longrightarrow> shadow (ring_stores xs @ h) UAD2_DMA_CONTROL = shadow h UAD2_DMA_CONTROL"
  by (rule ring_stores_shadow_other) simp_all

text \<open>Words that the list does not touch keep their value.\<close>

lemma ring_stores_untouched:
  assumes "in_rings xs" "d < 8" "r < 2" "w < 16" "\<forall>v. (d, r, w, v) \<notin> set xs"
  shows "shadow (ring_stores xs @ h) (ring_reg d r w) = shadow h (ring_reg d r w)"
  using assms(1,5)
proof (induction xs arbitrary: h)
  case (Cons x xs)
  obtain d' r' w' v where x: "x = (d', r', w', v)" by (cases x)
  then have "ring_reg d' r' w' \<noteq> ring_reg d r w"
    using Cons.prems assms(2-4) by (auto simp: in_rings_Cons ring_reg_eq_iff)
  with x Cons show ?case by (auto simp: in_rings_Cons)
qed simp

lemma safe_ring_stores:
  assumes "in_rings xs" "always dma_safe h" "held h BarMap = 1"
    and "\<forall>(d, r, w, v) \<in> set xs. \<not> engine_enabled h d"
  shows "always dma_safe (ring_stores xs @ h)"
  using assms
proof (induction xs arbitrary: h)
  case (Cons x xs)
  obtain d r w v where x: "x = (d, r, w, v)" by (cases x)
  have "always dma_safe (Wr (ring_reg d r w) v # h)"
    using Cons.prems x by (intro safe_ring) (auto simp: in_rings_Cons)
  then have "always dma_safe (ring_stores xs @ Wr (ring_reg d r w) v # h)"
    using Cons.prems x by (intro Cons.IH) (auto simp: in_rings_Cons)
  with x show ?case by simp
qed simp

section \<open>The kernel's port and helpers\<close>

interpretation kport: mmio_port "uad2_read hw" uad2_write log "\<lambda>s. s\<lparr>log := []\<rparr>" hw for hw
  by unfold_locales (simp_all add: uad2_read_def uad2_write_def)

lemma wp_uad2_read [wp_simps]:
  "wp (uad2_read hw off) Q =
     (\<lambda>s. Q (hw (log s) off) (s\<lparr>log := Rd off (hw (log s) off) # log s\<rparr>))"
  by (simp add: uad2_read_def wp_simps)

lemma wp_uad2_write [wp_simps]:
  "wp (uad2_write off v) Q = (\<lambda>s. Q () (s\<lparr>log := Wr off v # log s\<rparr>))"
  by (simp add: uad2_write_def wp_simps)

lemma emits_uad2_read [emits_intros]: "(\<And>v. P (Rd off v)) \<Longrightarrow> emits P (uad2_read hw off)"
  by (simp add: uad2_read_def emits_bus_read)

lemma emits_uad2_write [emits_intros]: "P (Wr off v) \<Longrightarrow> emits P (uad2_write off v)"
  by (simp add: uad2_write_def emits_bus_write)

text \<open>The literal bank table is the documented address map.\<close>

lemma bank_table:
  assumes "d < 8"
  shows "uad2_dsp_banks ! d = ring_reg d 0 0"
proof -
  have "uad2_dsp_banks = map (\<lambda>d. ring_reg d 0 0) [0..<8]"
    by (simp add: uad2_dsp_banks_def ring_reg_def ring_addr_def upt_rec)
  then have "uad2_dsp_banks ! d = map (\<lambda>d. ring_reg d 0 0) [0..<8] ! d" by (rule arg_cong)
  with assms show ?thesis by (simp del: upt_rec_numeral)
qed

lemma bank_base: "d < 8 \<Longrightarrow> uad2_dsp_banks ! d + of_nat r * 0x40 = ring_reg d r 0"
  by (simp add: bank_table) (simp add: ring_reg_def ring_addr_def)

lemma bank_reg: "d < 8 \<Longrightarrow> uad2_dsp_banks ! d + of_nat r * 0x40 + of_nat w * 4 = ring_reg d r w"
  by (simp add: bank_base ring_reg_offset[of d r w])

abbreviation kscan :: "(kstate, 'a) state \<Rightarrow> bool" where
  "kscan m \<equiv> emits bar_rd m \<and> reads_only log (\<lambda>s. s\<lparr>log := []\<rparr>) m"

lemma kscan_read: "in_bar off \<Longrightarrow> kscan (uad2_read hw off)"
  by (auto intro: emits_uad2_read kport.rd_reads_only)

lemma kscan_reads_as: "in_bar off \<Longrightarrow> kscan (reads_as hw off v)"
  unfolding reads_as_def
  by (auto intro!: emits_intros reads_only_bind kport.rd_reads_only reads_only_return)

lemma kscan_ready: "kscan (uad2_all_dsps_ready hw)"
  unfolding uad2_all_dsps_ready_def
  by (auto intro!: emits_intros reads_only_all_m reads_only_bind kport.rd_reads_only
      reads_only_return)

lemma kscan_zero: "kscan (uad2_all_ring_words_zero hw)"
  unfolding uad2_all_ring_words_zero_def
  by (auto intro!: emits_intros reads_only_all_m reads_only_bind kport.rd_reads_only
      reads_only_return simp: bank_reg)

lemma kscan_published: "kscan (uad2_rings_published hw)"
  unfolding uad2_rings_published_def Let_def
  by (auto intro!: emits_intros reads_only_all_m reads_only_bind kport.rd_reads_only
      reads_only_return reads_only_gets
      simp: bank_base ring_reg_words simp del: One_nat_def add_Suc_right)

lemma kscan_and_m: "kscan a \<Longrightarrow> kscan b \<Longrightarrow> kscan (and_m a b)"
  by (auto intro: emits_and_m reads_only_and_m)

lemma kscan_cold: "kscan (uad2_cold_precondition hw)"
  unfolding uad2_cold_precondition_def
  by (intro kscan_and_m kscan_reads_as kscan_zero kscan_ready) simp_all

lemma wp_kscan:
  assumes "kscan m"
    and "\<And>b rs. list_all bar_rd rs \<Longrightarrow> fst (run_state m s) = b \<Longrightarrow> Q b (s\<lparr>log := rs @ log s\<rparr>)"
  shows "wp m Q s"
  using assms by (intro wp_scan) auto

text \<open>The exact stores of the clearing loop and of one ring's initialisation.\<close>

definition clear_stores :: "(nat \<times> nat \<times> nat \<times> u32) list" where
  "clear_stores = map (\<lambda>(d, r, w). (d, r, w, 0)) (ring_words 10)"

lemma clear_stores_in_rings: "in_rings clear_stores"
  by (auto simp: clear_stores_def in_rings_def set_ring_words)

lemma run_clear_all_rings:
  "run_state uad2_clear_all_rings s = ((), s\<lparr>log := ring_stores clear_stores @ log s\<rparr>)"
proof -
  have "uad2_clear_all_rings =
      for_each (ring_words 10) (\<lambda>x. uad2_write (case x of (d, r, w) \<Rightarrow> ring_reg d r w) 0)"
    unfolding uad2_clear_all_rings_def UAD2_DSP_COUNT_def UAD2_RING_COUNT_def
    by (subst for_each_ring_words)
      (auto intro!: for_each_cong simp: set_ring_words bank_reg split: prod.splits)
  then have "log (snd (run_state uad2_clear_all_rings s)) = ring_stores clear_stores @ log s"
      "(snd (run_state uad2_clear_all_rings s))\<lparr>log := []\<rparr> = s\<lparr>log := []\<rparr>"
    using kport.store_each_trace[where xs = "ring_words 10" and s = s
        and f = "\<lambda>x. case x of (d, r, w) \<Rightarrow> ring_reg d r w" and g = "\<lambda>_. 0"]
      kport.store_each_rest[where xs = "ring_words 10" and s = s
        and f = "\<lambda>x. case x of (d, r, w) \<Rightarrow> ring_reg d r w" and g = "\<lambda>_. 0"]
    by (simp_all add: ring_stores_def clear_stores_def split_def comp_def del: run_state_bind)
  then have "snd (run_state uad2_clear_all_rings s) = s\<lparr>log := ring_stores clear_stores @ log s\<rparr>"
    by (cases s, cases "snd (run_state uad2_clear_all_rings s)") simp
  then show ?thesis by (simp add: prod_eq_iff)
qed

lemma wp_clear_all_rings [wp_simps]:
  "wp uad2_clear_all_rings Q = (\<lambda>s. Q () (s\<lparr>log := ring_stores clear_stores @ log s\<rparr>))"
  by (simp add: wp_def run_clear_all_rings fun_eq_iff)

lemma shadow_clear:
  assumes "d < 8" "r < 2" "w < 10"
  shows "shadow (ring_stores clear_stores @ h) (ring_reg d r w) = Some 0"
proof -
  have "shadow (ring_stores xs @ h) (ring_reg d r w) = Some 0"
    if "in_rings xs" "(d, r, w, 0) \<in> set xs" "\<forall>(d, r, w, v) \<in> set xs. v = 0" for xs
    using that
  proof (induction xs rule: rev_induct)
    case (snoc x xs)
    obtain d' r' w' v where x: "x = (d', r', w', v)" by (cases x)
    have "v = 0" "d' < 8" "r' < 2" "w' < 16" "in_rings xs"
      using snoc.prems x by (auto simp: in_rings_def)
    moreover have "shadow (ring_stores xs @ h) (ring_reg d r w) = Some 0"
      if "(d, r, w, 0) \<noteq> x"
      using snoc that by (intro snoc.IH) (auto simp: in_rings_def)
    ultimately show ?case
      using x by (auto simp: ring_stores_append)
  qed simp
  moreover have "(d, r, w, 0) \<in> set clear_stores"
    using assms by (force simp: clear_stores_def set_ring_words)
  moreover have "\<forall>(d, r, w, v) \<in> set clear_stores. v = 0"
    by (auto simp: clear_stores_def)
  ultimately show ?thesis using clear_stores_in_rings by blast
qed

definition init_stores :: "nat \<Rightarrow> nat \<Rightarrow> u32 \<Rightarrow> (nat \<Rightarrow> u64) \<Rightarrow> (nat \<times> nat \<times> nat \<times> u32) list" where
  "init_stores d r index addr =
     [(d, r, 9, index), (d, r, 8, index)] @
     concat (map (\<lambda>p. [(d, r, 2 * p, lower_32_bits (addr p)),
                       (d, r, 2 * p + 1, upper_32_bits (addr p))]) [0..<4])"

lemma init_stores_in_rings: "d < 8 \<Longrightarrow> r < 2 \<Longrightarrow> in_rings (init_stores d r index addr)"
  by (auto simp: init_stores_def in_rings_def)

definition bounded_index :: "u32 \<Rightarrow> u32" where
  "bounded_index raw = (if raw \<ge> UAD2_RING_ENTRIES then 0 else raw)"

abbreviation page_addr :: "kstate \<Rightarrow> nat \<Rightarrow> nat \<Rightarrow> nat \<Rightarrow> u64" where
  "page_addr s d r p \<equiv> dma (pages (dev s) d r p)"

lemma odd_words:
  "ring_reg d r 0 + 4 = ring_reg d r 1" "12 + ring_reg d r 0 = ring_reg d r 3"
  "20 + ring_reg d r 0 = ring_reg d r 5" "28 + ring_reg d r 0 = ring_reg d r 7"
  by (simp_all add: ring_reg_def ring_addr_def)

lemma wp_initialize_ring:
  assumes "d < 8"
  shows "wp (uad2_initialize_ring hw d r) Q s =
    (let raw = hw (log s) (ring_reg d r 10) in
     Q () (s\<lparr>log := ring_stores (init_stores d r (bounded_index raw) (page_addr s d r)) @
            Rd (ring_reg d r 10) raw # log s\<rparr>))"
  using assms ring_reg_words(4)[of d r 1] ring_reg_words(4)[of d r 2] ring_reg_words(4)[of d r 3]
    odd_words[of d r]
  by (simp add: uad2_initialize_ring_def Let_def wp_simps bank_base ring_reg_words(1-3)
      init_stores_def bounded_index_def upt_4)

lemma shadow_init_desc:
  assumes "d < 8" "r < 2" "p < 4"
  shows "shadow (ring_stores (init_stores d r index addr) @ h) (ring_reg d r (2 * p)) =
      Some (lower_32_bits (addr p))"
    "shadow (ring_stores (init_stores d r index addr) @ h) (ring_reg d r (2 * p + 1)) =
      Some (upper_32_bits (addr p))"
proof -
  have "p = 0 \<or> p = 1 \<or> p = 2 \<or> p = 3" using assms(3) by arith
  then show "shadow (ring_stores (init_stores d r index addr) @ h) (ring_reg d r (2 * p)) =
      Some (lower_32_bits (addr p))"
    "shadow (ring_stores (init_stores d r index addr) @ h) (ring_reg d r (2 * p + 1)) =
      Some (upper_32_bits (addr p))"
    using assms by (auto simp: init_stores_def ring_reg_eq_iff upt_4)
qed

lemma shadow_init_other:
  assumes "d < 8" "r < 2" "d' < 8" "r' < 2" "w < 16" "d' \<noteq> d \<or> r' \<noteq> r"
  shows "shadow (ring_stores (init_stores d r index addr) @ h) (ring_reg d' r' w) =
    shadow h (ring_reg d' r' w)"
proof (rule ring_stores_untouched)
  show "in_rings (init_stores d r index addr)" using assms by (simp add: init_stores_in_rings)
  show "\<forall>v. (d', r', w, v) \<notin> set (init_stores d r index addr)"
    using assms(6) by (auto simp: init_stores_def)
qed (use assms in simp_all)

end
