(* ===== verification/Octo_Card.thy ===== *)
theory Octo_Card
  imports Kernel_Device
begin

text \<open>
  The documented behaviour of the card as a named hypothesis on the parameter \<open>hw\<close>, and a
  concrete card that has it, which the witnesses of the development run on.
\<close>

section \<open>A card that answers as documented\<close>

text \<open>
  The behaviour of the card that \<^verbatim>\<open>docs/protocol-notes.md\<close> and the tools' own checks describe:
  DMA control, interrupt enable and the ring words read back what was stored (after power-on
  the cold values), the identity words are constant, every DSP reports ready, and the six
  upper words of a ring, which the driver never stores to, read zero while nothing runs. A
  hypothesis of the success theorems only; the safety theorems hold for every card.
\<close>

definition octo_hw :: "hw \<Rightarrow> bool" where
  "octo_hw hw \<longleftrightarrow> (\<forall>h.
     hw h UAD2_DMA_CONTROL =
       (case shadow h UAD2_DMA_CONTROL of None \<Rightarrow> UAD2_DMA_COLD_RESET | Some v \<Rightarrow> v) \<and>
     hw h UAD2_INTERRUPT_ENABLE =
       (case shadow h UAD2_INTERRUPT_ENABLE of None \<Rightarrow> 0 | Some v \<Rightarrow> v) \<and>
     hw h UAD2_FPGA_REVISION = UAD2_EXPECTED_FPGA_REVISION \<and>
     hw h UAD2_EXTENDED_CAPABILITIES = UAD2_EXPECTED_CAPABILITIES \<and>
     (\<forall>d<8. hw h (uad2_ready_offsets ! d) AND 1 \<noteq> 0) \<and>
     (\<forall>d<8. \<forall>r<2. \<forall>w<16. hw h (ring_reg d r w) =
        (if w < 10 then case shadow h (ring_reg d r w) of None \<Rightarrow> 0 | Some v \<Rightarrow> v else 0)))"

lemma octo_hwD:
  assumes "octo_hw hw"
  shows "hw h UAD2_DMA_CONTROL =
       (case shadow h UAD2_DMA_CONTROL of None \<Rightarrow> UAD2_DMA_COLD_RESET | Some v \<Rightarrow> v)"
    "hw h UAD2_INTERRUPT_ENABLE =
       (case shadow h UAD2_INTERRUPT_ENABLE of None \<Rightarrow> 0 | Some v \<Rightarrow> v)"
    "hw h UAD2_FPGA_REVISION = UAD2_EXPECTED_FPGA_REVISION"
    "hw h UAD2_EXTENDED_CAPABILITIES = UAD2_EXPECTED_CAPABILITIES"
    "d < 8 \<Longrightarrow> hw h (uad2_ready_offsets ! d) AND 1 \<noteq> 0"
    "d < 8 \<Longrightarrow> r < 2 \<Longrightarrow> w < 16 \<Longrightarrow> hw h (ring_reg d r w) =
        (if w < 10 then case shadow h (ring_reg d r w) of None \<Rightarrow> 0 | Some v \<Rightarrow> v else 0)"
  using assms by (simp_all add: octo_hw_def)

text \<open>A concrete card that behaves so.\<close>

definition octo_card :: hw where
  "octo_card h off =
     (if off = UAD2_DMA_CONTROL then
        (case shadow h UAD2_DMA_CONTROL of None \<Rightarrow> UAD2_DMA_COLD_RESET | Some v \<Rightarrow> v)
      else if off = UAD2_INTERRUPT_ENABLE then
        (case shadow h UAD2_INTERRUPT_ENABLE of None \<Rightarrow> 0 | Some v \<Rightarrow> v)
      else if off = UAD2_FPGA_REVISION then UAD2_EXPECTED_FPGA_REVISION
      else if off = UAD2_EXTENDED_CAPABILITIES then UAD2_EXPECTED_CAPABILITIES
      else if off \<in> set uad2_ready_offsets then 1
      else if off \<in> set (map (\<lambda>(d, r, w). ring_reg d r w) (ring_words 10)) then
        (case shadow h off of None \<Rightarrow> 0 | Some v \<Rightarrow> v)
      else 0)"

lemma ready_offset_plain:
  assumes "a \<in> set uad2_ready_offsets"
  shows "unat a < 0x2000 \<or> 0x2300 \<le> unat a \<and> unat a < 0x6000"
  using assms by (auto simp: uad2_ready_offsets_def)

lemma ring_reg_not_ready:
  assumes "d < 8" "r < 2" "w < 16"
  shows "ring_reg d r w \<notin> set uad2_ready_offsets"
  using ring_addr_bounds[OF assms] unat_ring_reg[OF assms] ready_offset_plain[of "ring_reg d r w"]
  by auto

lemma ring_reg_upper:
  assumes "d < 8" "r < 2" "w < 16"
  shows "ring_reg d r w \<in> set (map (\<lambda>(d, r, w). ring_reg d r w) (ring_words 10)) \<longleftrightarrow> w < 10"
proof
  assume "ring_reg d r w \<in> set (map (\<lambda>(d, r, w). ring_reg d r w) (ring_words 10))"
  then obtain d' r' w' where "d' < 8" "r' < 2" "w' < 10" "ring_reg d r w = ring_reg d' r' w'"
    by (auto simp: set_ring_words)
  then show "w < 10" using assms by (simp add: ring_reg_eq_iff)
next
  assume "w < 10"
  with assms show "ring_reg d r w \<in> set (map (\<lambda>(d, r, w). ring_reg d r w) (ring_words 10))"
    by (auto simp: set_ring_words intro!: image_eqI[of _ _ "(d, r, w)"])
qed

lemma octo_card_octo: "octo_hw octo_card"
proof -
  have ready: "octo_card h (uad2_ready_offsets ! d) AND 1 \<noteq> 0" if "d < 8" for h d
  proof -
    have i: "uad2_ready_offsets ! d \<in> set uad2_ready_offsets"
      using that by (intro nth_mem) (simp add: uad2_ready_offsets_def)
    from ready_offset_plain[OF i] i show ?thesis
      by (auto simp: octo_card_def UAD2_EXPECTED_FPGA_REVISION_def UAD2_EXPECTED_CAPABILITIES_def)
  qed
  have ring: "octo_card h (ring_reg d r w) =
      (if w < 10 then case shadow h (ring_reg d r w) of None \<Rightarrow> 0 | Some v \<Rightarrow> v else 0)"
    if "d < 8" "r < 2" "w < 16" for h d r w
    using ring_reg_not_ready[OF that] ring_reg_upper[OF that]
      ring_reg_not_global(1)[OF that, of "0x2200"] ring_reg_not_global(1)[OF that, of "0x2204"]
      ring_reg_not_global(1)[OF that, of "0x2218"] ring_reg_not_global(1)[OF that, of "0x2234"]
    by (simp add: octo_card_def del: set_map)
  show ?thesis
    unfolding octo_hw_def using ready ring by (auto simp: octo_card_def)
qed

lemma octo_card_stable: "read_stable octo_card"
  by (simp add: read_stable_def octo_card_def fun_eq_iff)

end
