(* ===== verification/Kernel_Transport.thy ===== *)
theory Kernel_Transport
  imports Kernel_Safety Octo_Card
begin

text \<open>
  The transport operations of \<^verbatim>\<open>kernel/uad2_compute.c\<close> that run with the mutex held. The
  invariant \<^verbatim>\<open>drv_inv\<close> ties the \<^verbatim>\<open>started\<close> flag to what the driver has written to the card:
  while started, the eight engines are enabled on published, owned pages and the card may
  master the bus; while stopped, the last words written are the cold values. Each operation
  keeps it on every branch and for every card. A second group of lemmas gives what the
  operations return on a card that answers as documented (\<^verbatim>\<open>octo_hw\<close>).
\<close>

section \<open>Invariant\<close>

definition pages_live :: "kstate \<Rightarrow> bool" where
  "pages_live s \<longleftrightarrow> (\<forall>d<8. \<forall>r<2. \<forall>p<4. cpu (pages (dev s) d r p) \<and>
     live_page (log s) d r p = Some (page_addr s d r p))"

definition quiesced :: "history \<Rightarrow> bool" where
  "quiesced h \<longleftrightarrow> shadow h UAD2_DMA_CONTROL \<in> {None, Some UAD2_DMA_COLD_RESET} \<and>
     \<not> bus_master h \<and>
     (\<forall>d<8. \<forall>r<2. \<forall>w<10. shadow h (ring_reg d r w) \<in> {None, Some 0})"

definition running :: "history \<Rightarrow> bool" where
  "running h \<longleftrightarrow> shadow h UAD2_DMA_CONTROL = Some UAD2_DMA_ALL_DSPS \<and> bus_master h \<and>
     (\<forall>d<8. published h d)"

definition drv_inv :: "kstate \<Rightarrow> bool" where
  "drv_inv s \<longleftrightarrow> always dma_safe (log s) \<and> held (log s) BarMap = 1 \<and> pages_live s \<and>
     (if started (dev s) then running (log s) else quiesced (log s))"

text \<open>A state that differs from another only by its log.\<close>

definition same_dev :: "kstate \<Rightarrow> kstate \<Rightarrow> bool" where
  "same_dev s t \<longleftrightarrow> dev t = dev s \<and> next_index t = next_index s"

lemma quiesced_reads [simp]: "reads rs \<Longrightarrow> quiesced (rs @ h) = quiesced h"
  by (simp add: quiesced_def)

lemma running_reads [simp]: "reads rs \<Longrightarrow> running (rs @ h) = running h"
  by (simp add: running_def published_def)

lemma published_reads [simp]: "reads rs \<Longrightarrow> published (rs @ h) d = published h d"
  by (simp add: published_def)

lemma published_quiet [simp]: "is_quiet e \<Longrightarrow> published (e # h) d = published h d"
  by (simp add: published_def)

lemma quiesced_quiet [simp]: "is_quiet e \<Longrightarrow> quiesced (e # h) = quiesced h"
  by (simp add: quiesced_def)

lemma running_quiet [simp]: "is_quiet e \<Longrightarrow> running (e # h) = running h"
  by (simp add: running_def)

lemma drv_inv_reads:
  assumes "drv_inv s" "list_all bar_rd rs"
  shows "drv_inv (s\<lparr>log := rs @ log s\<rparr>)"
  using assms bar_rd_reads[OF assms(2)]
  by (simp add: drv_inv_def safe_reads pages_live_def)

lemma quiesced_no_engine: "quiesced h \<Longrightarrow> d < 8 \<Longrightarrow> \<not> engine_enabled h d"
proof -
  have "\<not> bit (UAD2_DMA_COLD_RESET) (d + 1)" if "d < 8"
  proof -
    have "d = 0 \<or> d = 1 \<or> d = 2 \<or> d = 3 \<or> d = 4 \<or> d = 5 \<or> d = 6 \<or> d = 7"
      using that by arith
    then show ?thesis by (auto simp: bit_numeral_rec)
  qed
  then show "quiesced h \<Longrightarrow> d < 8 \<Longrightarrow> \<not> engine_enabled h d"
    by (auto simp: quiesced_def engine_enabled_def)
qed

lemma dma_values_off:
  assumes "d < 8"
  shows "\<not> bit (UAD2_DMA_COLD_RESET) (Suc d)" "\<not> bit (UAD2_DMA_RESET_GLOBAL) (Suc d)"
    "\<not> bit (UAD2_DMA_GLOBAL_ONLY) (Suc d)"
proof -
  have "d = 0 \<or> d = 1 \<or> d = 2 \<or> d = 3 \<or> d = 4 \<or> d = 5 \<or> d = 6 \<or> d = 7"
    using assms by arith
  then show "\<not> bit (UAD2_DMA_COLD_RESET) (Suc d)" "\<not> bit (UAD2_DMA_RESET_GLOBAL) (Suc d)"
    "\<not> bit (UAD2_DMA_GLOBAL_ONLY) (Suc d)"
    by (auto simp: bit_numeral_rec)
qed

section \<open>The shared shutdown sequence\<close>

text \<open>
  From any safe history in which BAR0 is mapped, the sequence that ends a failed start and
  begins a stop keeps every instant safe and leaves the card quiesced.
\<close>

definition shutdown_log :: "history \<Rightarrow> history" where
  "shutdown_log h =
     Wr UAD2_DMA_CONTROL UAD2_DMA_COLD_RESET # ring_stores clear_stores @
     Wr UAD2_DMA_CONTROL UAD2_DMA_GLOBAL_ONLY # Wr UAD2_DMA_CONTROL UAD2_DMA_RESET_GLOBAL #
     Wr UAD2_INTERRUPT_ACK 0xffffffff # Wr UAD2_INTERRUPT_ENABLE 0 # h"

lemma shutdown_views [simp]:
  "held (shutdown_log h) = held h" "live_page (shutdown_log h) = live_page h"
  "bus_master (shutdown_log h) = bus_master h"
  by (simp_all add: shutdown_log_def fun_eq_iff ring_stores_views clear_stores_in_rings)

lemma shutdown_safe:
  assumes "always dma_safe h" "held h BarMap = 1"
  shows "always dma_safe (shutdown_log h)"
proof -
  let ?h1 = "Wr UAD2_DMA_CONTROL UAD2_DMA_GLOBAL_ONLY # Wr UAD2_DMA_CONTROL UAD2_DMA_RESET_GLOBAL #
     Wr UAD2_INTERRUPT_ACK 0xffffffff # Wr UAD2_INTERRUPT_ENABLE 0 # h"
  have 1: "always dma_safe ?h1"
    using assms dma_values_off
    by (intro safe_dma safe_plain plain_regs) simp_all
  have off: "\<not> engine_enabled ?h1 d" if "d < 8" for d
    using that dma_values_off by simp
  have 2: "always dma_safe (ring_stores clear_stores @ ?h1)"
    using 1 assms(2) off clear_stores_in_rings
    by (intro safe_ring_stores) (auto simp: clear_stores_def set_ring_words)
  show ?thesis
    unfolding shutdown_log_def
    using 2 assms(2) dma_values_off
    by (intro safe_dma) (simp_all add: ring_stores_views clear_stores_in_rings)
qed

lemma shutdown_quiesced: "quiesced (ClearMaster # Rd a v # shutdown_log h)"
  by (auto simp: quiesced_def shutdown_log_def shadow_clear)

text \<open>The state after the shutdown sequence, whatever the read-back of DMA control returned.\<close>

lemma shutdown_inv:
  assumes "always dma_safe (log s)" "held (log s) BarMap = 1" "pages_live s"
  shows "drv_inv (s\<lparr>log := ClearMaster # Rd UAD2_DMA_CONTROL v # shutdown_log (log s),
                    dev := (dev s)\<lparr>started := False\<rparr>\<rparr>)"
  using assms shutdown_safe[OF assms(1,2)] shutdown_quiesced
    always_safe_engines[OF shutdown_safe[OF assms(1,2)]]
  by (simp add: drv_inv_def pages_live_def)

section \<open>Start\<close>

lemma wp_zero_pages:
  assumes "pages_live s" "always dma_safe (log s)"
    and "\<And>qs. quiet qs \<Longrightarrow> writes (qs @ log s) = writes (log s) \<Longrightarrow>
           always dma_safe (qs @ log s) \<Longrightarrow> Q () (s\<lparr>log := qs @ log s\<rparr>)"
  shows "wp (for_each [0..<UAD2_DSP_COUNT] (\<lambda>dsp. for_each [0..<UAD2_RING_COUNT] (\<lambda>ring.
     for_each [0..<UAD2_RING_PAGES] (\<lambda>page. emit (ZeroPage dsp ring page))))) Q s"
proof -
  let ?I = "\<lambda>t. \<exists>qs. quiet qs \<and> always dma_safe (qs @ log s) \<and> t = s\<lparr>log := qs @ log s\<rparr>"
  have step: "?I (t\<lparr>log := ZeroPage d r p # log t\<rparr>)"
    if I: "?I t" and "d < 8" "r < 2" "p < 4" for t d r p
  proof -
    obtain qs where qs: "quiet qs" "always dma_safe (qs @ log s)" "t = s\<lparr>log := qs @ log s\<rparr>"
      using I by auto
    have "live_page (log s) d r p \<noteq> None"
      using assms(1) that(2-4) by (simp add: pages_live_def)
    then have "always dma_safe ((ZeroPage d r p # qs) @ log s)"
      using qs always_safe_engines[OF qs(2)] by simp
    moreover have "quiet (ZeroPage d r p # qs)" using qs by simp
    ultimately show ?thesis using qs(3)
      by (intro exI[of _ "ZeroPage d r p # qs"]) simp
  qed
  show ?thesis
    unfolding UAD2_DSP_COUNT_def UAD2_RING_COUNT_def UAD2_RING_PAGES_def for_each_ring_words
  proof (rule wp_for_each_inv[where I = ?I])
    show "?I s" using assms(2) by (intro exI[of _ "[]"]) simp
  next
    fix x t
    assume x: "x \<in> set (ring_words 4)" and I: "?I t"
    obtain d r p where x': "x = (d, r, p)" by (cases x)
    show "wp (case x of (d, r, p) \<Rightarrow> emit (ZeroPage d r p)) (\<lambda>_. ?I) t"
      using step[OF I, of d r p] x by (simp add: x' set_ring_words wp_emit)
  qed (use assms(3) in auto)
qed

lemma published_init_other:
  assumes "d < 8" "r < 2" "d' < 8" "d' \<noteq> d"
  shows "published (ring_stores (init_stores d r index addr) @ h) d' = published h d'"
  using assms
  by (simp add: published_def shadow_init_other ring_stores_views init_stores_in_rings)

lemma published_init_both:
  assumes "d < 8" and "\<And>r p. r < 2 \<Longrightarrow> p < 4 \<Longrightarrow> live_page h d r p = Some (addr r p)"
  shows "published (ring_stores (init_stores d 1 j (addr 1)) @ Rd a v #
           ring_stores (init_stores d 0 i (addr 0)) @ h) d"
proof -
  have r: "r = 0 \<or> r = 1" if "r < 2" for r :: nat using that by arith
  show ?thesis
    unfolding published_def
    using assms r shadow_init_desc[of d 0] shadow_init_desc[of d 1] shadow_init_other[of d 1 d 0]
    by (fastforce simp: ring_stores_views init_stores_in_rings)
qed

lemma safe_init_ring:
  assumes "always dma_safe h" "held h BarMap = 1" "d < 8" "r < 2" "\<not> engine_enabled h d"
  shows "always dma_safe (ring_stores (init_stores d r index addr) @ Rd (ring_reg d r 10) v # h)"
proof (rule safe_ring_stores)
  show "in_rings (init_stores d r index addr)" using assms by (simp add: init_stores_in_rings)
  show "always dma_safe (Rd (ring_reg d r 10) v # h)"
    using safe_reads[of "[Rd (ring_reg d r 10) v]" h] assms by simp
  show "\<forall>(d', r', w, x) \<in> set (init_stores d r index addr).
      \<not> engine_enabled (Rd (ring_reg d r 10) v # h) d'"
    using assms by (auto simp: init_stores_def engine_enabled_def)
qed (use assms in simp_all)

text \<open>The invariant of the start loop after the first \<open>k\<close> DSPs.\<close>

definition start_loop_inv :: "kstate \<Rightarrow> nat \<Rightarrow> kstate \<Rightarrow> bool" where
  "start_loop_inv s k t \<longleftrightarrow> same_dev s t \<and> always dma_safe (log t) \<and> held (log t) = held (log s) \<and>
     bus_master (log t) \<and> live_page (log t) = live_page (log s) \<and>
     shadow (log t) UAD2_DMA_CONTROL = Some (mask (k + 1)) \<and>
     (\<forall>d<k. published (log t) d)"

lemma start_loop_step:
  assumes "start_loop_inv s k t" "k < 8" "pages_live s" "held (log s) BarMap = 1"
  shows "wp (do { for_each [0..<UAD2_RING_COUNT] (uad2_initialize_ring hw k);
                  uad2_write UAD2_DMA_CONTROL (mask (k + 2)) })
            (\<lambda>_. start_loop_inv s (Suc k)) t"
proof -
  define addr where "addr = (\<lambda>r p. page_addr t k r p)"
  define v0 where "v0 = hw (log t) (ring_reg k 0 10)"
  define h1 where "h1 = ring_stores (init_stores k 0 (bounded_index v0) (addr 0)) @
      Rd (ring_reg k 0 10) v0 # log t"
  define v1 where "v1 = hw h1 (ring_reg k 1 10)"
  define h2 where "h2 = ring_stores (init_stores k 1 (bounded_index v1) (addr 1)) @
      Rd (ring_reg k 1 10) v1 # h1"
  have t: "dev t = dev s" "next_index t = next_index s" "always dma_safe (log t)"
    "held (log t) = held (log s)" "bus_master (log t)" "live_page (log t) = live_page (log s)"
    "shadow (log t) UAD2_DMA_CONTROL = Some (mask (k + 1))"
    "\<And>d. d < k \<Longrightarrow> published (log t) d"
    using assms(1) by (auto simp: start_loop_inv_def same_dev_def)
  have off: "\<not> engine_enabled (log t) k"
    using t(7) by (simp add: engine_enabled_def bit_mask_iff)
  note views = ring_stores_views init_stores_in_rings
  have off1: "\<not> engine_enabled h1 k"
    using off assms(2) by (simp add: h1_def views) (simp add: engine_enabled_def)
  have safe1: "always dma_safe h1"
    unfolding h1_def using t off assms by (intro safe_init_ring) simp_all
  have held1: "held h1 = held (log s)" using t assms(2) by (simp add: h1_def views)
  have safe2: "always dma_safe h2"
    unfolding h2_def using safe1 off1 held1 assms by (intro safe_init_ring) simp_all
  have live: "live_page (log t) k r p = Some (addr r p)" if "r < 2" "p < 4" for r p
    using assms(2,3) that t by (simp add: pages_live_def addr_def)
  have pub_k: "published h2 k"
    unfolding h2_def h1_def using assms(2) live by (intro published_init_both) simp_all
  have pub: "published h2 d" if "d < Suc k" for d
  proof (cases "d = k")
    case True
    then show ?thesis using pub_k by simp
  next
    case False
    then have "published (log t) d" "d < 8" using that t(8) assms(2) by simp_all
    with False assms(2) show ?thesis
      by (simp add: h2_def h1_def published_init_other)
  qed
  have dma2: "shadow h2 UAD2_DMA_CONTROL = Some (mask (k + 1))"
    using t(7) assms(2) ring_stores_shadow_dma[OF init_stores_in_rings]
    by (simp add: h2_def h1_def)
  have "always dma_safe (Wr UAD2_DMA_CONTROL (mask (k + 2)) # h2)"
  proof (rule safe_dma[OF safe2])
    show "held h2 BarMap = 1" using held1 assms by (simp add: h2_def views)
    show "published h2 d" if "bit (mask (k + 2) :: u32) (d + 1)" for d
      using that pub by (simp add: bit_mask_iff)
  qed
  then have "start_loop_inv s (Suc k)
      (t\<lparr>log := Wr UAD2_DMA_CONTROL (mask (k + 2)) # h2\<rparr>)"
    using t pub held1 assms(2)
    by (simp add: start_loop_inv_def same_dev_def h2_def h1_def views)
  moreover have "wp (do { for_each [0..<UAD2_RING_COUNT] (uad2_initialize_ring hw k);
                  uad2_write UAD2_DMA_CONTROL (mask (k + 2)) }) Q t =
      Q () (t\<lparr>log := Wr UAD2_DMA_CONTROL (mask (k + 2)) # h2\<rparr>)" for Q
    using assms(2)
    by (simp add: upt_2 wp_simps wp_initialize_ring Let_def h2_def h1_def v1_def v0_def addr_def)
  ultimately show ?thesis by simp
qed

text \<open>What an operation may change besides the log: the \<open>started\<close> flag only.\<close>

definition frame :: "kstate \<Rightarrow> kstate \<Rightarrow> bool" where
  "frame s t \<longleftrightarrow> dev t = (dev s)\<lparr>started := started (dev t)\<rparr> \<and> next_index t = next_index s \<and>
     live_page (log t) = live_page (log s) \<and> held (log t) = held (log s)"

lemma wp_start_rollback:
  "wp (uad2_start_rollback hw) Q s =
     (let v = hw (shutdown_log (log s)) UAD2_DMA_CONTROL in
      Q () (s\<lparr>log := ClearMaster # Rd UAD2_DMA_CONTROL v # shutdown_log (log s)\<rparr>))"
  by (simp add: uad2_start_rollback_def wp_simps shutdown_log_def)

lemma start_loop_init:
  assumes "drv_inv s" "\<not> started (dev s)" "quiet qs" "always dma_safe (qs @ log s)"
  shows "start_loop_inv s 0 (s\<lparr>log :=
     Wr UAD2_INTERRUPT_ACK 0xffffffff # Wr UAD2_DMA_CONTROL UAD2_DMA_GLOBAL_ONLY #
     Wr UAD2_DMA_CONTROL UAD2_DMA_RESET_GLOBAL # Wr UAD2_INTERRUPT_ACK 0 #
     Wr UAD2_INTERRUPT_ENABLE 0 # Wr UAD2_NOTIFICATION_CONTROL 0 # SetMaster # Barrier #
     qs @ log s\<rparr>)"
proof -
  have held: "held (log s) BarMap = 1" using assms(1) by (simp add: drv_inv_def)
  have m: "always dma_safe (SetMaster # Barrier # qs @ log s)"
    using assms(4) always_safe_engines[OF assms(4)] by simp
  have "always dma_safe
    (Wr UAD2_INTERRUPT_ACK 0xffffffff # Wr UAD2_DMA_CONTROL UAD2_DMA_GLOBAL_ONLY #
     Wr UAD2_DMA_CONTROL UAD2_DMA_RESET_GLOBAL # Wr UAD2_INTERRUPT_ACK 0 #
     Wr UAD2_INTERRUPT_ENABLE 0 # Wr UAD2_NOTIFICATION_CONTROL 0 # SetMaster # Barrier #
     qs @ log s)"
    using m held assms(3) dma_values_off
    by (intro safe_plain safe_dma plain_regs m) simp_all
  then show ?thesis using assms(3)
    by (simp add: start_loop_inv_def same_dev_def mask_eq_decr_exp)
qed

lemma wp_start_prefix:
  "wp (do { emit Barrier; emit SetMaster;
        uad2_write UAD2_NOTIFICATION_CONTROL 0;
        uad2_write UAD2_INTERRUPT_ENABLE 0;
        uad2_write UAD2_INTERRUPT_ACK 0;
        uad2_write UAD2_DMA_CONTROL UAD2_DMA_RESET_GLOBAL;
        uad2_write UAD2_DMA_CONTROL UAD2_DMA_GLOBAL_ONLY;
        uad2_write UAD2_INTERRUPT_ACK 0xffffffff; m }) Q s =
     wp m Q (s\<lparr>log :=
     Wr UAD2_INTERRUPT_ACK 0xffffffff # Wr UAD2_DMA_CONTROL UAD2_DMA_GLOBAL_ONLY #
     Wr UAD2_DMA_CONTROL UAD2_DMA_RESET_GLOBAL # Wr UAD2_INTERRUPT_ACK 0 #
     Wr UAD2_INTERRUPT_ENABLE 0 # Wr UAD2_NOTIFICATION_CONTROL 0 # SetMaster # Barrier #
     log s\<rparr>)"
  by (simp add: wp_simps)

lemma wp_start_sequence:
  assumes "drv_inv s" "\<not> started (dev s)" "\<And>t. start_loop_inv s 8 t \<Longrightarrow> Q () t"
  shows "wp (uad2_start_sequence hw) Q s"
proof -
  have inv: "pages_live s" "always dma_safe (log s)" "held (log s) BarMap = 1"
    using assms(1) by (simp_all add: drv_inv_def)
  have loop: "wp (for_each [0..<8] (\<lambda>dsp. do {
       for_each [0..<UAD2_RING_COUNT] (uad2_initialize_ring hw dsp);
       uad2_write UAD2_DMA_CONTROL (mask (dsp + 2)) })) Q t"
    if "start_loop_inv s 0 t" for t
    by (rule wp_for_upt[where I = "start_loop_inv s"])
      (use that inv assms(3) start_loop_step in auto)
  show ?thesis
    unfolding uad2_start_sequence_def shift_mask
    apply (subst wp_bind)
    apply (rule wp_zero_pages[OF inv(1,2)])
    apply (subst wp_start_prefix)
    using loop start_loop_init[OF assms(1,2)] by simp
qed

lemma kscan_start_verify: "kscan (uad2_start_verify hw)"
  unfolding uad2_start_verify_def
  by (auto intro!: emits_bind reads_only_bind emits_and_m reads_only_and_m
      simp: kscan_read kscan_reads_as kscan_published kscan_ready)

text \<open>The two ways a start ends after the sequence, from the state the loads left.\<close>

lemma start_outcome:
  assumes "drv_inv s" "\<not> started (dev s)" "start_loop_inv s 8 t" "list_all bar_rd rs"
  defines "u \<equiv> t\<lparr>log := rs @ log t\<rparr>"
  shows "drv_inv (u\<lparr>dev := (dev u)\<lparr>started := True\<rparr>\<rparr>)"
    and "drv_inv (u\<lparr>log := ClearMaster # Rd UAD2_DMA_CONTROL v # shutdown_log (log u)\<rparr>)"
proof -
  have t: "dev t = dev s" "always dma_safe (log t)" "held (log t) = held (log s)"
    "bus_master (log t)" "live_page (log t) = live_page (log s)"
    "shadow (log t) UAD2_DMA_CONTROL = Some UAD2_DMA_ALL_DSPS" "\<forall>d<8. published (log t) d"
    using assms(3) by (auto simp: start_loop_inv_def same_dev_def mask_eq_decr_exp)
  have s: "pages_live s" "held (log s) BarMap = 1" using assms(1) by (simp_all add: drv_inv_def)
  have safe: "always dma_safe (log u)"
    using safe_reads[OF assms(4) t(2)] s t(3) by (simp add: u_def)
  have u: "pages_live u" "held (log u) BarMap = 1" "reads rs"
    using s t bar_rd_reads[OF assms(4)] by (simp_all add: pages_live_def u_def)
  show "drv_inv (u\<lparr>dev := (dev u)\<lparr>started := True\<rparr>\<rparr>)"
    using safe u t by (simp add: drv_inv_def pages_live_def running_def u_def)
  have "dev u = (dev u)\<lparr>started := False\<rparr>" using assms(2) t(1) by (simp add: u_def)
  then show "drv_inv (u\<lparr>log := ClearMaster # Rd UAD2_DMA_CONTROL v # shutdown_log (log u)\<rparr>)"
    using shutdown_inv[OF safe u(2,1), of v] by simp
qed

lemma start_spec:
  assumes inv: "drv_inv s"
  shows "wp (uad2_start_locked hw) (\<lambda>r t. drv_inv t \<and> frame s t \<and>
     (case r of
        Inr _ \<Rightarrow> started (dev t)
      | Inl e \<Rightarrow> \<not> started (dev t) \<and>
          (e = EBUSY \<and> writes (log t) = writes (log s) \<or> e = EIO))) s"
    (is "wp _ ?Q s")
proof (cases "started (dev s)")
  case True
  with inv show ?thesis by (simp add: uad2_start_locked_def wp_simps frame_def)
next
  case False
  show ?thesis
    unfolding uad2_start_locked_def wp_bind wp_gets if_not_P[OF False]
  proof (rule wp_kscan[OF kscan_cold])
    fix cold rs
    assume rs: "list_all bar_rd rs"
    let ?s = "s\<lparr>log := rs @ log s\<rparr>"
    have s': "drv_inv ?s" "\<not> started (dev ?s)" "reads rs"
      using drv_inv_reads[OF inv rs] bar_rd_reads[OF rs] False by simp_all
    have "wp (uad2_start_sequence hw) (\<lambda>_. wp (uad2_start_verify hw) (\<lambda>ok.
        wp (if \<not> ok then do { uad2_start_rollback hw; State_Monad.return (Inl EIO) }
            else do { set_dev (\<lambda>d. d\<lparr>started := True\<rparr>); State_Monad.return (Inr ()) }) ?Q)) ?s"
    proof (rule wp_start_sequence[OF s'(1,2)], rule wp_kscan[OF kscan_start_verify])
      fix t ok qs
      assume J: "start_loop_inv ?s 8 t" and qs: "list_all bar_rd qs"
      have "dev t = dev s" "next_index t = next_index s" "held (log t) = held (log s)"
        "live_page (log t) = live_page (log s)"
        using J s'(3) by (simp_all add: start_loop_inv_def same_dev_def)
      then show "wp (if \<not> ok then do { uad2_start_rollback hw; State_Monad.return (Inl EIO) }
            else do { set_dev (\<lambda>d. d\<lparr>started := True\<rparr>); State_Monad.return (Inr ()) }) ?Q
            (t\<lparr>log := qs @ log t\<rparr>)"
        using start_outcome[OF s'(1,2) J qs] bar_rd_reads[OF qs] False
        by (simp add: wp_simps wp_start_rollback Let_def frame_def)
    qed
    then show "wp (if \<not> cold then State_Monad.return (Inl EBUSY) else do {
        uad2_start_sequence hw;
        ok \<leftarrow> uad2_start_verify hw;
        if \<not> ok then do { uad2_start_rollback hw; State_Monad.return (Inl EIO) }
        else do { set_dev (\<lambda>d. d\<lparr>started := True\<rparr>); State_Monad.return (Inr ()) } }) ?Q ?s"
      using s' False by (simp add: wp_bind wp_return frame_def)
  qed
qed

section \<open>Stop\<close>

lemma stop_spec:
  assumes inv: "drv_inv s"
  shows "wp (uad2_stop_locked hw) (\<lambda>r t. drv_inv t \<and> frame s t \<and> \<not> started (dev t) \<and>
     (r = Inr () \<or> r = Inl EIO)) s"
proof (cases "started (dev s)")
  case False
  with inv show ?thesis by (simp add: uad2_stop_locked_def wp_simps frame_def)
next
  case True
  let ?v = "hw (shutdown_log (log s)) UAD2_DMA_CONTROL"
  let ?t = "s\<lparr>log := ClearMaster # Rd UAD2_DMA_CONTROL ?v # shutdown_log (log s),
               dev := (dev s)\<lparr>started := False\<rparr>\<rparr>"
  have t: "drv_inv ?t" using inv by (intro shutdown_inv) (simp_all add: drv_inv_def)
  have "wp (uad2_cold_precondition hw) (\<lambda>b u. drv_inv u \<and> frame s u \<and> \<not> started (dev u)) ?t"
  proof (rule wp_kscan[OF kscan_cold])
    fix b rs
    assume "list_all bar_rd rs"
    from drv_inv_reads[OF t this] bar_rd_reads[OF this]
    show "drv_inv (?t\<lparr>log := rs @ log ?t\<rparr>) \<and> frame s (?t\<lparr>log := rs @ log ?t\<rparr>) \<and>
        \<not> started (dev (?t\<lparr>log := rs @ log ?t\<rparr>))"
      by (simp add: frame_def)
  qed
  then show ?thesis
    using True by (auto simp: uad2_stop_locked_def wp_simps shutdown_log_def elim!: wp_mono
        split: if_splits)
qed

section \<open>Reset of one DSP\<close>

text \<open>
  A pulse: with everything published, any two stores to DMA control followed by a store of the
  all-engines word keep every instant safe and the card running.
\<close>

lemma pulse_inv:
  assumes "drv_inv s" "started (dev s)" "in_bar a"
  shows "drv_inv (s\<lparr>log := Rd a w3 # Rd UAD2_DMA_CONTROL w2 # Rd UAD2_DMA_CONTROL w1 #
      Wr UAD2_DMA_CONTROL UAD2_DMA_ALL_DSPS # Rd a w0 # Delay 10000 #
      Wr UAD2_DMA_CONTROL y # Wr UAD2_DMA_CONTROL x # Rd UAD2_DMA_CONTROL w # log s\<rparr>)"
proof -
  have s: "always dma_safe (log s)" "held (log s) BarMap = 1" "pages_live s" "running (log s)"
    using assms(1,2) by (simp_all add: drv_inv_def)
  then have pub: "\<forall>d<8. published (log s) d" by (simp add: running_def)
  have "engines_ok (log s)" using s(1) by (rule always_safe_engines)
  with s pub assms(2,3) show ?thesis
    by (simp add: drv_inv_def engines_ok_def pages_live_def running_def)
qed

lemma reset_spec:
  assumes inv: "drv_inv s"
  shows "wp (uad2_reset_dsp_locked hw reset) (\<lambda>(r, out) t. drv_inv t \<and> frame s t \<and>
     started (dev t) = started (dev s) \<and> rst_size out = rst_size reset \<and>
     rst_reserved out = rst_reserved reset \<and>
     (r = Inr () \<longrightarrow> started (dev s) \<and> rst_dsp_index reset < 8 \<and> rst_flags reset = 0 \<and>
        out = reset\<lparr>rst_dma_control_before := UAD2_DMA_ALL_DSPS,
                    rst_dma_control_after := UAD2_DMA_ALL_DSPS, rst_ready_after := 1\<rparr>)) s"
proof (cases "started (dev s) \<and> \<not> (rst_dsp_index reset \<ge> 8 \<or> rst_flags reset \<noteq> 0)")
  case False
  with inv show ?thesis by (auto simp: uad2_reset_dsp_locked_def wp_simps frame_def)
next
  case True
  then have "unat (rst_dsp_index reset) < 8" by (simp add: word_le_nat_alt)
  then have bar: "in_bar (uad2_ready_offsets ! unat (rst_dsp_index reset))" by simp
  have rd: "drv_inv (s\<lparr>log := Rd UAD2_DMA_CONTROL w # log s\<rparr>)" for w
    using drv_inv_reads[OF inv, of "[Rd UAD2_DMA_CONTROL w]"] by simp
  show ?thesis
    using True rd pulse_inv[OF inv _ bar]
    by (auto simp: uad2_reset_dsp_locked_def wp_simps Let_def frame_def)
qed

section \<open>Which registers the driver stores to\<close>

text \<open>
  The complete store policy of the driver: DMA control, interrupt enable (zero only), interrupt
  acknowledge, notification control (zero only), and the first ten words of the sixteen rings.
  The operations that run under the mutex acquire and release nothing.
\<close>

definition store_allowed :: "u32 \<Rightarrow> u32 \<Rightarrow> bool" where
  "store_allowed a v \<longleftrightarrow>
     a = UAD2_DMA_CONTROL \<or> a = UAD2_INTERRUPT_ENABLE \<and> v = 0 \<or>
     a = UAD2_INTERRUPT_ACK \<and> (v = 0 \<or> v = 0xffffffff) \<or>
     a = UAD2_NOTIFICATION_CONTROL \<and> v = 0 \<or>
     a \<in> set (map (\<lambda>(d, r, w). ring_reg d r w) (ring_words 10))"

fun store_ok :: "event \<Rightarrow> bool" where
  "store_ok (Wr a v) = store_allowed a v"
| "store_ok _ = True"

fun op_event :: "event \<Rightarrow> bool" where
  "op_event (Wr a v) = store_allowed a v"
| "op_event (Acquire _) = False"
| "op_event (Release _) = False"
| "op_event (DmaAlloc _ _ _ _) = False"
| "op_event (DmaFree _ _ _) = False"
| "op_event _ = True"

lemma op_event_store_ok: "op_event e \<Longrightarrow> store_ok e"
  by (cases e) simp_all

lemma op_event_held: "list_all op_event evs \<Longrightarrow> held (evs @ h) = held h"
proof (induction evs)
  case (Cons e evs) then show ?case by (cases e) (auto simp: fun_eq_iff)
qed simp

lemma op_event_ring:
  "d < 8 \<Longrightarrow> r < 2 \<Longrightarrow> w < 10 \<Longrightarrow> op_event (Wr (ring_reg d r w) v)"
  by (auto simp: store_allowed_def set_ring_words intro!: disjI2 image_eqI[of _ _ "(d, r, w)"])

lemma op_event_desc:
  assumes "d < 8" "r < 2"
  shows "op_event (Wr (ring_reg d r 0 + 0x24) v)" "op_event (Wr (ring_reg d r 0 + 0x20) v)"
    "p < 4 \<Longrightarrow> op_event (Wr (ring_reg d r 0 + of_nat p * 8) v)"
    "p < 4 \<Longrightarrow> op_event (Wr (ring_reg d r 0 + of_nat p * 8 + 4) v)"
  unfolding ring_reg_words
  by (rule op_event_ring; use assms in simp)+

lemma bar_rd_op_event: "bar_rd e \<Longrightarrow> op_event e"
  by (cases e) auto

lemma emits_kscan: "kscan m \<Longrightarrow> emits op_event m"
  by (auto elim: emits_mono simp: bar_rd_op_event)

lemma emits_op_event_simple:
  "emits op_event (uad2_read hw a)"
  "emits op_event (uad2_write UAD2_DMA_CONTROL v)"
  "emits op_event (uad2_write UAD2_INTERRUPT_ENABLE 0)"
  "emits op_event (uad2_write UAD2_INTERRUPT_ACK 0)"
  "emits op_event (uad2_write UAD2_INTERRUPT_ACK 0xffffffff)"
  "emits op_event (uad2_write UAD2_NOTIFICATION_CONTROL 0)"
  by (auto intro!: emits_intros simp: store_allowed_def)

lemma emits_clear: "emits op_event uad2_clear_all_rings"
  unfolding uad2_clear_all_rings_def UAD2_DSP_COUNT_def UAD2_RING_COUNT_def
  by (intro emits_for_each emits_uad2_write) (simp add: bank_reg op_event_ring del: op_event.simps)

lemma emits_initialize_ring:
  "d < 8 \<Longrightarrow> r < 2 \<Longrightarrow> emits op_event (uad2_initialize_ring hw d r)"
  unfolding uad2_initialize_ring_def Let_def UAD2_RING_PAGES_def
  by (intro emits_bind emits_for_each emits_uad2_write emits_gets emits_op_event_simple)
    (simp_all add: bank_base op_event_desc del: op_event.simps)

lemma emits_rollback: "emits op_event (uad2_start_rollback hw)"
  unfolding uad2_start_rollback_def
  by (intro emits_bind emits_op_event_simple emits_clear emits_emit) simp

lemma emits_sequence: "emits op_event (uad2_start_sequence hw)"
  unfolding uad2_start_sequence_def UAD2_DSP_COUNT_def UAD2_RING_COUNT_def UAD2_RING_PAGES_def
  by (intro emits_bind emits_for_each emits_op_event_simple emits_emit emits_initialize_ring)
    simp_all

lemma emits_start: "emits op_event (uad2_start_locked hw)"
  unfolding uad2_start_locked_def
  by (intro emits_bind emits_if emits_gets emits_return emits_rollback emits_sequence
      emits_set_dev emits_kscan kscan_cold kscan_start_verify)

lemma emits_stop: "emits op_event (uad2_stop_locked hw)"
  unfolding uad2_stop_locked_def
  by (intro emits_bind emits_if emits_gets emits_return emits_set_dev emits_emit emits_clear
      emits_op_event_simple emits_kscan kscan_cold) simp

lemma emits_reset: "emits op_event (uad2_reset_dsp_locked hw reset)"
  unfolding uad2_reset_dsp_locked_def Let_def
  by (intro emits_bind emits_if emits_gets emits_return emits_op_event_simple emits_emit) simp

text \<open>Consequence: interrupts stay masked.\<close>

lemma store_ok_interrupts:
  "list_all store_ok h \<Longrightarrow> shadow h UAD2_INTERRUPT_ENABLE \<in> {None, Some 0}"
proof (induction h)
  case (Cons e h)
  have "ring_reg d r w \<noteq> 0x2204" if "(d, r, w) \<in> set (ring_words 10)" for d r w
    using that ring_reg_not_global(1)[of d r w "0x2204"] by (simp add: set_ring_words)
  with Cons show ?case by (cases e) (auto simp: store_allowed_def)
qed simp

section \<open>Scans on a documented card\<close>

text \<open>A scan that succeeds from \<open>s\<close> however many loads have been made since.\<close>

definition passes :: "kstate \<Rightarrow> (kstate, bool) state \<Rightarrow> bool" where
  "passes s m \<longleftrightarrow> (\<forall>rs. reads rs \<longrightarrow>
     wp m (\<lambda>b t. b \<and> (\<exists>qs. reads qs \<and> t = s\<lparr>log := qs @ log s\<rparr>)) (s\<lparr>log := rs @ log s\<rparr>))"

lemma passes_read:
  assumes "\<And>rs. reads rs \<Longrightarrow> p (hw (rs @ log s) a)"
  shows "passes s (do { v \<leftarrow> uad2_read hw a; State_Monad.return (p v) })"
  unfolding passes_def
proof (intro allI impI)
  fix rs :: history
  assume "reads rs"
  then show "wp (do { v \<leftarrow> uad2_read hw a; State_Monad.return (p v) })
      (\<lambda>b t. b \<and> (\<exists>qs. reads qs \<and> t = s\<lparr>log := qs @ log s\<rparr>)) (s\<lparr>log := rs @ log s\<rparr>)"
    using assms
    by (auto simp: wp_simps intro!: exI[of _ "Rd a (hw (rs @ log s) a) # rs"])
qed

lemma passes_and_m: "passes s a \<Longrightarrow> passes s b \<Longrightarrow> passes s (and_m a b)"
  unfolding passes_def by (fastforce simp: wp_simps elim!: wp_mono)

lemma passes_all_m:
  assumes "\<And>x. x \<in> set xs \<Longrightarrow> passes s (f x)"
  shows "passes s (all_m xs f)"
  using assms
proof (induction xs)
  case Nil
  then show ?case by (auto simp: passes_def wp_simps)
next
  case (Cons x xs)
  then have "passes s (and_m (f x) (all_m xs f))" by (intro passes_and_m) simp_all
  then show ?case by (simp add: and_m_def)
qed

lemma passes_kscan:
  assumes "passes s m" "kscan m"
  shows "wp m (\<lambda>b t. b \<and> (\<exists>rs. list_all bar_rd rs \<and> t = s\<lparr>log := rs @ log s\<rparr>)) s"
proof (rule wp_kscan[OF assms(2)])
  fix b rs
  assume "list_all bar_rd rs" "fst (run_state m s) = b"
  moreover have "fst (run_state m s)"
    using assms(1)[unfolded passes_def, rule_format, of "[]"] by (simp add: wp_run)
  ultimately show "b \<and> (\<exists>rs'. list_all bar_rd rs' \<and>
      s\<lparr>log := rs @ log s\<rparr> = s\<lparr>log := rs' @ log s\<rparr>)" by blast
qed

lemma passes_reads_as: "(\<And>rs. reads rs \<Longrightarrow> hw (rs @ log s) a = v) \<Longrightarrow> passes s (reads_as hw a v)"
  unfolding reads_as_def by (rule passes_read)

lemma passes_ready: "octo_hw hw \<Longrightarrow> passes s (uad2_all_dsps_ready hw)"
  unfolding uad2_all_dsps_ready_def
  by (intro passes_all_m passes_read) (use octo_hwD(5) in auto)

lemma passes_published:
  assumes "octo_hw hw" "pages_live s" "\<forall>d<8. published (log s) d"
  shows "passes s (uad2_rings_published hw)"
  unfolding uad2_rings_published_def Let_def UAD2_DSP_COUNT_def UAD2_RING_COUNT_def
    UAD2_RING_PAGES_def
proof (intro passes_all_m)
  fix d r p
  assume "d \<in> set [0..<8]" "r \<in> set [0..<2]" "p \<in> set [0..<4]"
  then have i: "d < 8" "r < 2" "p < 4" by simp_all
  let ?a = "page_addr s d r p"
  have l: "live_page (log s) d r p = Some ?a" using assms(2) i by (simp add: pages_live_def)
  then have sh: "shadow (log s) (ring_reg d r (2 * p)) = Some (lower_32_bits ?a)"
    "shadow (log s) (ring_reg d r (2 * p + 1)) = Some (upper_32_bits ?a)"
    using assms(3) i unfolding published_def by fastforce+
  have v: "hw (rs @ log s) (ring_reg d r (2 * p)) = lower_32_bits ?a"
    "hw (rs @ log s) (ring_reg d r (2 * p + 1)) = upper_32_bits ?a" if "reads rs" for rs
    using that i sh octo_hwD(6)[OF assms(1) i(1,2)] by simp_all
  show "passes s (do {
      lo \<leftarrow> uad2_read hw (uad2_dsp_banks ! d + of_nat r * 0x40 + of_nat p * 8);
      hi \<leftarrow> uad2_read hw (uad2_dsp_banks ! d + of_nat r * 0x40 + of_nat p * 8 + 4);
      address \<leftarrow> gets (\<lambda>s. dma (pages (dev s) d r p));
      State_Monad.return (join_64 lo hi = address) })"
    unfolding passes_def bank_base[OF i(1)] ring_reg_words
  proof (intro allI impI)
    fix rs :: history
    assume rs: "reads rs"
    let ?R = "\<lambda>w v. Rd (ring_reg d r w) v"
    show "wp (do { lo \<leftarrow> uad2_read hw (ring_reg d r (2 * p));
        hi \<leftarrow> uad2_read hw (ring_reg d r (2 * p + 1));
        address \<leftarrow> gets (\<lambda>s. dma (pages (dev s) d r p));
        State_Monad.return (join_64 lo hi = address) })
      (\<lambda>b t. b \<and> (\<exists>qs. reads qs \<and> t = s\<lparr>log := qs @ log s\<rparr>)) (s\<lparr>log := rs @ log s\<rparr>)"
      using rs v(1)[OF rs] v(2)[of "?R (2 * p) (lower_32_bits ?a) # rs"]
      by (auto simp: wp_simps join_64_split simp del: One_nat_def add_Suc_right
          intro!: exI[of _ "?R (2 * p + 1) (upper_32_bits ?a) #
            ?R (2 * p) (lower_32_bits ?a) # rs"])
  qed
qed

lemma passes_zero:
  assumes "octo_hw hw" "quiesced (log s)"
  shows "passes s (uad2_all_ring_words_zero hw)"
  unfolding uad2_all_ring_words_zero_def UAD2_DSP_COUNT_def UAD2_RING_COUNT_def
proof (intro passes_all_m passes_read)
  fix d r w and rs :: history
  assume "d \<in> set [0..<8]" "r \<in> set [0..<2]" "w \<in> set [0..<16]" "reads rs"
  moreover from this have "w < 10 \<Longrightarrow> shadow (log s) (ring_reg d r w) \<in> {None, Some 0}"
    using assms(2) by (simp add: quiesced_def)
  ultimately show "hw (rs @ log s) (uad2_dsp_banks ! d + of_nat r * 0x40 + of_nat w * 4) = 0"
    using octo_hwD(6)[OF assms(1), of d r w "rs @ log s"] by (auto simp: bank_reg)
qed

lemma passes_cold:
  assumes "octo_hw hw" "quiesced (log s)" "list_all store_ok (log s)"
  shows "passes s (uad2_cold_precondition hw)"
  unfolding uad2_cold_precondition_def
  using assms(2) store_ok_interrupts[OF assms(3)] octo_hwD(1-4)[OF assms(1)]
  by (intro passes_and_m passes_reads_as passes_ready passes_zero assms(1,2))
    (auto simp: quiesced_def)

end
