(* ===== verification/Kernel_Results.thy ===== *)
theory Kernel_Results
  imports Kernel_Transport
begin

text \<open>
  What start, stop and reset of \<^verbatim>\<open>kernel/uad2_compute.c\<close> return and store, beyond the invariant of
  \<^verbatim>\<open>Kernel_Transport\<close>: on a card that answers as documented each of them succeeds, and for
  every card the stores of a start are exactly the published protocol sequence, followed on a
  failed check by the shutdown sequence.
\<close>

section \<open>Success on a documented card\<close>

lemma passes_after_read:
  assumes "passes s m"
  shows "passes s (do { uad2_read hw a; m })"
  unfolding passes_def
proof (intro allI impI)
  fix rs :: history
  assume "reads rs"
  then have "wp m (\<lambda>b t. b \<and> (\<exists>qs. reads qs \<and> t = s\<lparr>log := qs @ log s\<rparr>))
      (s\<lparr>log := (Rd a (hw (rs @ log s) a) # rs) @ log s\<rparr>)"
    using assms unfolding passes_def by (elim allE impE) (simp_all del: append_Cons)
  then show "wp (do { uad2_read hw a; m })
      (\<lambda>b t. b \<and> (\<exists>qs. reads qs \<and> t = s\<lparr>log := qs @ log s\<rparr>)) (s\<lparr>log := rs @ log s\<rparr>)"
    by (simp add: wp_simps)
qed

lemma passes_verify:
  assumes "octo_hw hw" "start_loop_inv s 8 t" "pages_live s"
  shows "passes t (uad2_start_verify hw)"
proof -
  have "pages_live t" "\<forall>d<8. published (log t) d"
    "shadow (log t) UAD2_DMA_CONTROL = Some UAD2_DMA_ALL_DSPS"
    using assms(2,3) by (auto simp: start_loop_inv_def same_dev_def pages_live_def mask_eq_decr_exp)
  then show ?thesis
    unfolding uad2_start_verify_def
    using octo_hwD(1)[OF assms(1)]
    by (intro passes_after_read passes_and_m passes_reads_as passes_published passes_ready
        assms(1)) auto
qed

lemma start_succeeds:
  assumes "octo_hw hw" "drv_inv s" "list_all store_ok (log s)"
  shows "wp (uad2_start_locked hw) (\<lambda>r t. r = Inr ()) s"
proof (cases "started (dev s)")
  case True
  then show ?thesis by (simp add: uad2_start_locked_def wp_simps)
next
  case False
  then have q: "quiesced (log s)" using assms(2) by (simp add: drv_inv_def)
  show ?thesis
    unfolding uad2_start_locked_def wp_bind wp_gets if_not_P[OF False]
  proof (rule wp_mono[OF passes_kscan[OF passes_cold[OF assms(1) q assms(3)] kscan_cold]])
    fix b t
    assume "b \<and> (\<exists>rs. list_all bar_rd rs \<and> t = s\<lparr>log := rs @ log s\<rparr>)"
    then obtain rs where b: "b" and rs: "list_all bar_rd rs" "t = s\<lparr>log := rs @ log s\<rparr>" by auto
    have t: "drv_inv t" "\<not> started (dev t)" "pages_live t"
      using rs drv_inv_reads[OF assms(2) rs(1)] False by (simp_all add: drv_inv_def)
    have "wp (uad2_start_sequence hw) (\<lambda>_. wp (uad2_start_verify hw) (\<lambda>ok u. ok)) t"
      by (rule wp_start_sequence[OF t(1,2)])
        (auto intro: wp_mono[OF passes_kscan[OF passes_verify[OF assms(1) _ t(3)] kscan_start_verify]])
    then show "wp (if \<not> b then State_Monad.return (Inl EBUSY) else do {
        uad2_start_sequence hw;
        ok \<leftarrow> uad2_start_verify hw;
        if \<not> ok then do { uad2_start_rollback hw; State_Monad.return (Inl EIO) }
        else do { set_dev (\<lambda>d. d\<lparr>started := True\<rparr>); State_Monad.return (Inr ()) } })
        (\<lambda>r t. r = Inr ()) t"
      using b by (auto simp: wp_simps elim!: wp_mono)
  qed
qed

lemma stop_succeeds:
  assumes "octo_hw hw" "drv_inv s" "list_all store_ok (log s)"
  shows "wp (uad2_stop_locked hw) (\<lambda>r t. r = Inr ()) s"
proof (cases "started (dev s)")
  case False
  then show ?thesis by (simp add: uad2_stop_locked_def wp_simps)
next
  case True
  let ?v = "hw (shutdown_log (log s)) UAD2_DMA_CONTROL"
  let ?t = "s\<lparr>log := ClearMaster # Rd UAD2_DMA_CONTROL ?v # shutdown_log (log s),
               dev := (dev s)\<lparr>started := False\<rparr>\<rparr>"
  have "list_all store_ok (ring_stores clear_stores)"
    by (auto simp: ring_stores_def clear_stores_def list_all_iff set_ring_words
        intro!: op_event_store_ok op_event_ring simp del: store_ok.simps op_event.simps)
  then have "list_all store_ok (log ?t)"
    using assms(3) by (simp add: shutdown_log_def store_allowed_def)
  then have "passes ?t (uad2_cold_precondition hw)"
    using assms(1) shutdown_quiesced by (intro passes_cold) simp_all
  from passes_kscan[OF this kscan_cold] show ?thesis
    using True by (auto simp: uad2_stop_locked_def wp_simps shutdown_log_def elim!: wp_mono)
qed

lemma reset_succeeds:
  assumes "octo_hw hw" "drv_inv s" "started (dev s)"
    and "rst_dsp_index reset < 8" "rst_flags reset = 0"
  shows "wp (uad2_reset_dsp_locked hw reset) (\<lambda>(r, out) t. r = Inr ()) s"
proof -
  have d: "unat (rst_dsp_index reset) < 8" using assms(4) by (simp add: word_less_nat_alt)
  have "shadow (log s) UAD2_DMA_CONTROL = Some UAD2_DMA_ALL_DSPS"
    using assms(2,3) by (simp add: drv_inv_def running_def)
  then show ?thesis
    using assms(3-5) octo_hwD(1)[OF assms(1)] octo_hwD(5)[OF assms(1) d]
    by (auto simp: uad2_reset_dsp_locked_def wp_simps Let_def)
qed

section \<open>The exact stores of a start\<close>

text \<open>
  The protocol sequence as data: the quiescing prefix, then for each DSP its two rings (write
  and wrap index, four page descriptors low word first) and the next DMA control value.
\<close>

definition ring_writes :: "nat \<Rightarrow> nat \<Rightarrow> u32 \<Rightarrow> (nat \<Rightarrow> u64) \<Rightarrow> (u32 \<times> u32) list" where
  "ring_writes d r index addr =
     [(ring_reg d r 9, index), (ring_reg d r 8, index)] @
     concat (map (\<lambda>p. [(ring_reg d r (2 * p), lower_32_bits (addr p)),
                       (ring_reg d r (2 * p + 1), upper_32_bits (addr p))]) [0..<4])"

definition dsp_writes ::
  "(nat \<Rightarrow> nat \<Rightarrow> u32) \<Rightarrow> (nat \<Rightarrow> nat \<Rightarrow> nat \<Rightarrow> u64) \<Rightarrow> nat \<Rightarrow> (u32 \<times> u32) list" where
  "dsp_writes index addr d =
     ring_writes d 0 (index d 0) (addr d 0) @ ring_writes d 1 (index d 1) (addr d 1) @
     [(UAD2_DMA_CONTROL, mask (d + 2))]"

definition start_prefix :: "(u32 \<times> u32) list" where
  "start_prefix =
     [(UAD2_NOTIFICATION_CONTROL, 0), (UAD2_INTERRUPT_ENABLE, 0), (UAD2_INTERRUPT_ACK, 0),
      (UAD2_DMA_CONTROL, UAD2_DMA_RESET_GLOBAL), (UAD2_DMA_CONTROL, UAD2_DMA_GLOBAL_ONLY),
      (UAD2_INTERRUPT_ACK, 0xffffffff)]"

definition start_writes ::
  "(nat \<Rightarrow> nat \<Rightarrow> u32) \<Rightarrow> (nat \<Rightarrow> nat \<Rightarrow> nat \<Rightarrow> u64) \<Rightarrow> (u32 \<times> u32) list" where
  "start_writes index addr = start_prefix @ concat (map (dsp_writes index addr) [0..<8])"

definition shutdown_writes :: "(u32 \<times> u32) list" where
  "shutdown_writes =
     [(UAD2_INTERRUPT_ENABLE, 0), (UAD2_INTERRUPT_ACK, 0xffffffff),
      (UAD2_DMA_CONTROL, UAD2_DMA_RESET_GLOBAL), (UAD2_DMA_CONTROL, UAD2_DMA_GLOBAL_ONLY)] @
     map (\<lambda>(d, r, w). (ring_reg d r w, 0)) (ring_words 10) @
     [(UAD2_DMA_CONTROL, UAD2_DMA_COLD_RESET)]"

lemma writes_ring_stores:
  "writes (ring_stores xs @ h) = writes h @ map (\<lambda>(d, r, w, v). (ring_reg d r w, v)) xs"
  by (induction xs arbitrary: h) auto

lemma writes_init_stores:
  "map (\<lambda>(d, r, w, v). (ring_reg d r w, v)) (init_stores d r index addr) =
     ring_writes d r index addr"
  by (simp add: init_stores_def ring_writes_def map_concat comp_def)

lemma writes_shutdown: "writes (shutdown_log h) = writes h @ shutdown_writes"
  by (simp add: shutdown_log_def shutdown_writes_def writes_ring_stores clear_stores_def
      comp_def split_def)

lemma bounded_index_less: "bounded_index raw < UAD2_RING_ENTRIES"
  by (auto simp: bounded_index_def UAD2_RING_ENTRIES_def)

definition started_rings :: "kstate \<Rightarrow> nat \<Rightarrow> kstate \<Rightarrow> bool" where
  "started_rings s k t \<longleftrightarrow> dev t = dev s \<and> (\<exists>index. (\<forall>d r. index d r < UAD2_RING_ENTRIES) \<and>
     writes (log t) = writes (log s) @ start_prefix @
       concat (map (dsp_writes index (page_addr s)) [0..<k]))"

lemma started_rings_0:
  assumes "dev t = dev s" "writes (log t) = writes (log s) @ start_prefix"
  shows "started_rings s 0 t"
  using assms by (auto simp: started_rings_def UAD2_RING_ENTRIES_def intro!: exI[of _ "\<lambda>_ _. 0"])

lemma started_rings_step:
  assumes "started_rings s k t" "k < 8"
  shows "wp (do { for_each [0..<UAD2_RING_COUNT] (uad2_initialize_ring hw k);
                  uad2_write UAD2_DMA_CONTROL (mask (k + 2)) }) (\<lambda>_. started_rings s (Suc k)) t"
proof -
  obtain index where ix: "\<forall>d r. index d r < UAD2_RING_ENTRIES"
    and w: "writes (log t) = writes (log s) @ start_prefix @
       concat (map (dsp_writes index (page_addr s)) [0..<k])" and dev: "dev t = dev s"
    using assms(1) by (auto simp: started_rings_def)
  have step: "started_rings s (Suc k) u"
    if "dev u = dev t" "i < UAD2_RING_ENTRIES" "j < UAD2_RING_ENTRIES"
      "writes (log u) = writes (log t) @ ring_writes k 0 i (page_addr t k 0) @
         ring_writes k 1 j (page_addr t k 1) @ [(UAD2_DMA_CONTROL, mask (k + 2))]" for u i j
  proof -
    let ?ix = "index(k := (\<lambda>r. if r = 0 then i else j))"
    have old: "map (dsp_writes ?ix (page_addr s)) [0..<k] =
        map (dsp_writes index (page_addr s)) [0..<k]"
      by (simp add: dsp_writes_def)
    have "writes (log u) = writes (log s) @ start_prefix @
        concat (map (dsp_writes ?ix (page_addr s)) [0..<Suc k])"
      using that(4) w dev by (simp add: old) (simp add: dsp_writes_def)
    moreover have "\<forall>d r. ?ix d r < UAD2_RING_ENTRIES" using that(2,3) ix by simp
    ultimately show ?thesis using that(1) dev unfolding started_rings_def by metis
  qed
  show ?thesis
    using assms(2)
    by (simp only: upt_2 UAD2_RING_COUNT_def for_each.simps wp_simps wp_initialize_ring Let_def)
      (rule step[OF _ bounded_index_less bounded_index_less];
        simp add: writes_ring_stores writes_init_stores)
qed

lemma start_sequence_writes:
  assumes "drv_inv s"
  shows "wp (uad2_start_sequence hw) (\<lambda>_. started_rings s 8) s"
proof -
  have inv: "pages_live s" "always dma_safe (log s)"
    using assms(1) by (simp_all add: drv_inv_def)
  have loop: "wp (for_each [0..<8] (\<lambda>dsp. do {
       for_each [0..<UAD2_RING_COUNT] (uad2_initialize_ring hw dsp);
       uad2_write UAD2_DMA_CONTROL (mask (dsp + 2)) })) (\<lambda>_. started_rings s 8) t"
    if "dev t = dev s" "writes (log t) = writes (log s) @ start_prefix" for t
    by (rule wp_for_upt[where I = "started_rings s"]) (use that started_rings_0 started_rings_step in auto)
  show ?thesis
    unfolding uad2_start_sequence_def shift_mask UAD2_DSP_COUNT_def
    apply (subst wp_bind)
    apply (rule wp_zero_pages[OF inv, unfolded UAD2_DSP_COUNT_def])
    apply (subst wp_start_prefix)
    by (rule loop) (simp_all add: start_prefix_def)
qed

lemma writes_bar_rd: "list_all bar_rd rs \<Longrightarrow> writes (rs @ h) = writes h"
  by (simp add: bar_rd_reads)

lemma start_writes_exact:
  assumes "drv_inv s" "\<not> started (dev s)"
  shows "wp (uad2_start_locked hw) (\<lambda>r t.
     r = Inl EBUSY \<and> writes (log t) = writes (log s) \<or>
     (\<exists>index. (\<forall>d r. index d r < UAD2_RING_ENTRIES) \<and>
        writes (log t) = writes (log s) @ start_writes index (page_addr s) @
          (if r = Inl EIO then shutdown_writes else []))) s"
  unfolding uad2_start_locked_def wp_bind wp_gets if_not_P[OF assms(2)]
proof (rule wp_kscan[OF kscan_cold])
  fix cold rs
  assume rs: "list_all bar_rd rs"
  let ?s = "s\<lparr>log := rs @ log s\<rparr>"
  note seq = start_sequence_writes[OF drv_inv_reads[OF assms(1) rs], of hw]
  show "wp (if \<not> cold then State_Monad.return (Inl EBUSY) else do {
        uad2_start_sequence hw;
        ok \<leftarrow> uad2_start_verify hw;
        if \<not> ok then do { uad2_start_rollback hw; State_Monad.return (Inl EIO) }
        else do { set_dev (\<lambda>d. d\<lparr>started := True\<rparr>); State_Monad.return (Inr ()) } })
     (\<lambda>r t. r = Inl EBUSY \<and> writes (log t) = writes (log s) \<or>
     (\<exists>index. (\<forall>d r. index d r < UAD2_RING_ENTRIES) \<and>
        writes (log t) = writes (log s) @ start_writes index (page_addr s) @
          (if r = Inl EIO then shutdown_writes else []))) ?s" (is "wp _ ?Q _")
  proof (cases cold)
    case False
    then show ?thesis using rs by (simp add: wp_simps writes_bar_rd)
  next
    case True
    have "wp (uad2_start_sequence hw) (\<lambda>_. wp (uad2_start_verify hw) (\<lambda>ok.
        wp (if \<not> ok then do { uad2_start_rollback hw; State_Monad.return (Inl EIO) }
            else do { set_dev (\<lambda>d. d\<lparr>started := True\<rparr>); State_Monad.return (Inr ()) }) ?Q)) ?s"
    proof (rule wp_mono[OF seq], rule wp_kscan[OF kscan_start_verify])
      fix t ok qs
      assume "started_rings ?s 8 t" and qs: "list_all bar_rd qs"
      then show "wp (if \<not> ok then do { uad2_start_rollback hw; State_Monad.return (Inl EIO) }
            else do { set_dev (\<lambda>d. d\<lparr>started := True\<rparr>); State_Monad.return (Inr ()) }) ?Q
            (t\<lparr>log := qs @ log t\<rparr>)"
        using rs by (auto simp: wp_simps wp_start_rollback Let_def writes_shutdown writes_bar_rd
            started_rings_def start_writes_def)
    qed
    with True show ?thesis by (simp add: wp_simps)
  qed
qed

end
