(* ===== verification/Kernel_Ioctl.thy ===== *)
theory Kernel_Ioctl
  imports Kernel_Results
begin

text \<open>
  The character device's ioctl entry point, \<^verbatim>\<open>uad2_ioctl\<close> of \<^verbatim>\<open>kernel/uad2_compute.c\<close>: the
  dispatch on the command number under the device mutex with every early exit. The calling
  process is a record: its CAP_SYS_RAWIO capability, the structure a \<^verbatim>\<open>copy_from_user\<close> of the
  argument pointer yields (None for a fault) and whether \<^verbatim>\<open>copy_to_user\<close> succeeds. The
  structure copied out is part of the result.
\<close>

section \<open>The caller and the structures copied out\<close>

record caller =
  cap_sys_rawio :: bool
  status_in :: "uad2_compute_dsp_status option"
  reset_in :: "uad2_compute_reset option"
  copy_out :: bool

datatype user_out =
    NoOut
  | OutInfo uad2_compute_info
  | OutStatus uad2_compute_dsp_status
  | OutReset uad2_compute_reset

section \<open>The handlers\<close>

definition copy_to_user :: "caller \<Rightarrow> user_out \<Rightarrow> unit result \<times> user_out" where
  "copy_to_user caller out = (if copy_out caller then (Inr (), out) else (Inl EFAULT, NoOut))"

definition flag_u32 :: "bool \<Rightarrow> u32" where
  "flag_u32 b = (if b then 1 else 0)"

definition ioctl_get_info :: "hw \<Rightarrow> caller \<Rightarrow> (kstate, unit result \<times> user_out) state" where
  "ioctl_get_info hw caller =
     do { d \<leftarrow> gets dev;
          fpga \<leftarrow> uad2_read hw UAD2_FPGA_REVISION;
          caps \<leftarrow> uad2_read hw UAD2_EXTENDED_CAPABILITIES;
          State_Monad.return (copy_to_user caller (OutInfo
            \<lparr>info_size = of_nat sizeof_info,
             info_abi_version = UAD2_COMPUTE_ABI_VERSION,
             info_vendor_id = vendor (pdev d),
             info_device_id = device (pdev d),
             info_subsystem_vendor_id = subsystem_vendor (pdev d),
             info_subsystem_device_id = subsystem_device (pdev d),
             info_fpga_revision = fpga,
             info_extended_capabilities = caps,
             info_dsp_count = of_nat UAD2_DSP_COUNT,
             info_transport_started = flag_u32 (started d),
             info_capabilities = UAD2_CAP_RING_TRANSPORT OR UAD2_CAP_PER_DSP_RESET,
             info_reserved = replicate 4 0\<rparr>)) }"

definition ioctl_get_dsp_status :: "hw \<Rightarrow> caller \<Rightarrow> (kstate, unit result \<times> user_out) state" where
  "ioctl_get_dsp_status hw caller =
     (case status_in caller of
        None \<Rightarrow> State_Monad.return (Inl EFAULT, NoOut)
      | Some status \<Rightarrow>
          if st_size status \<noteq> of_nat sizeof_dsp_status \<or>
             st_dsp_index status \<ge> of_nat UAD2_DSP_COUNT
          then State_Monad.return (Inl EINVAL, NoOut)
          else do {
            let dsp = unat (st_dsp_index status);
            let command_base = uad2_dsp_banks ! dsp;
            let response_base = command_base + 0x40;
            dma_control \<leftarrow> uad2_read hw UAD2_DMA_CONTROL;
            ready \<leftarrow> uad2_read hw (uad2_ready_offsets ! dsp);
            cr \<leftarrow> uad2_read hw (command_base + 0x28);
            cw \<leftarrow> uad2_read hw (command_base + 0x24);
            rr \<leftarrow> uad2_read hw (response_base + 0x28);
            rw \<leftarrow> uad2_read hw (response_base + 0x24);
            State_Monad.return (copy_to_user caller (OutStatus (status
              \<lparr>st_raw_ready_word := ready,
               st_ready := flag_u32 (ready AND 1 \<noteq> 0),
               st_dma_enabled := flag_u32 (dma_control AND push_bit (dsp + 1) 1 \<noteq> 0),
               st_command_read_index := cr,
               st_command_write_index := cw,
               st_response_read_index := rr,
               st_response_write_index := rw,
               st_reserved := replicate 7 0\<rparr>))) })"

definition ioctl_reset_dsp :: "hw \<Rightarrow> caller \<Rightarrow> (kstate, unit result \<times> user_out) state" where
  "ioctl_reset_dsp hw caller =
     (if \<not> cap_sys_rawio caller then State_Monad.return (Inl EPERM, NoOut)
      else case reset_in caller of
        None \<Rightarrow> State_Monad.return (Inl EFAULT, NoOut)
      | Some reset \<Rightarrow>
          if rst_size reset \<noteq> of_nat sizeof_reset then State_Monad.return (Inl EINVAL, NoOut)
          else do {
            (r, out) \<leftarrow> uad2_reset_dsp_locked hw (reset\<lparr>rst_reserved := replicate 4 0\<rparr>);
            State_Monad.return (case r of
              Inl e \<Rightarrow> (Inl e, NoOut)
            | Inr _ \<Rightarrow> copy_to_user caller (OutReset out)) })"

definition ioctl_privileged ::
  "caller \<Rightarrow> (kstate, unit result) state \<Rightarrow> (kstate, unit result \<times> user_out) state" where
  "ioctl_privileged caller m =
     (if \<not> cap_sys_rawio caller then State_Monad.return (Inl EPERM, NoOut)
      else do { r \<leftarrow> m; State_Monad.return (r, NoOut) })"

text \<open>The body between the \<^verbatim>\<open>removing\<close> check and the unlock.\<close>

definition ioctl_switch ::
  "hw \<Rightarrow> u32 \<Rightarrow> caller \<Rightarrow> (kstate, unit result \<times> user_out) state" where
  "ioctl_switch hw command caller =
     (if command = UAD2_COMPUTE_IOC_GET_INFO then ioctl_get_info hw caller
      else if command = UAD2_COMPUTE_IOC_GET_DSP_STATUS then ioctl_get_dsp_status hw caller
      else if command = UAD2_COMPUTE_IOC_START_TRANSPORT then
        ioctl_privileged caller (uad2_start_locked hw)
      else if command = UAD2_COMPUTE_IOC_STOP_TRANSPORT then
        ioctl_privileged caller (uad2_stop_locked hw)
      else if command = UAD2_COMPUTE_IOC_RESET_DSP then ioctl_reset_dsp hw caller
      else State_Monad.return (Inl ENOTTY, NoOut))"

definition mutex_lock :: "(kstate, unit) state" where
  "mutex_lock = set_dev (\<lambda>d. d\<lparr>lock_held := True\<rparr>)"

definition mutex_unlock :: "(kstate, unit) state" where
  "mutex_unlock = set_dev (\<lambda>d. d\<lparr>lock_held := False\<rparr>)"

definition uad2_ioctl ::
  "hw \<Rightarrow> u32 \<Rightarrow> caller \<Rightarrow> (kstate, unit result \<times> user_out) state" where
  "uad2_ioctl hw command caller =
     (if IOC_TYPE command \<noteq> UAD2_COMPUTE_IOC_MAGIC then State_Monad.return (Inl ENOTTY, NoOut)
      else do {
        mutex_lock;
        gone \<leftarrow> gets (\<lambda>s. removing (dev s));
        result \<leftarrow> (if gone then State_Monad.return (Inl ENODEV, NoOut)
                   else ioctl_switch hw command caller);
        mutex_unlock;
        State_Monad.return result })"

lemma wp_mutex [wp_simps]:
  "wp mutex_lock Q = (\<lambda>s. Q () (s\<lparr>dev := (dev s)\<lparr>lock_held := True\<rparr>\<rparr>))"
  "wp mutex_unlock Q = (\<lambda>s. Q () (s\<lparr>dev := (dev s)\<lparr>lock_held := False\<rparr>\<rparr>))"
  by (simp_all add: mutex_lock_def mutex_unlock_def wp_simps)

section \<open>Store policy\<close>

lemma emits_get_info: "emits op_event (ioctl_get_info hw caller)"
  unfolding ioctl_get_info_def
  by (intro emits_bind emits_gets emits_return emits_op_event_simple)

lemma emits_get_dsp_status: "emits op_event (ioctl_get_dsp_status hw caller)"
  unfolding ioctl_get_dsp_status_def Let_def
  by (intro emits_case_option emits_if emits_bind emits_return emits_op_event_simple)

lemma emits_reset_dsp: "emits op_event (ioctl_reset_dsp hw caller)"
  unfolding ioctl_reset_dsp_def
  by (auto intro!: emits_case_option emits_if emits_bind emits_return emits_reset
      split: prod.splits)

lemma emits_switch: "emits op_event (ioctl_switch hw command caller)"
  unfolding ioctl_switch_def ioctl_privileged_def
  by (intro emits_if emits_bind emits_return emits_get_info emits_get_dsp_status
      emits_reset_dsp emits_start emits_stop)

lemma emits_mutex: "emits P mutex_lock" "emits P mutex_unlock"
  by (simp_all add: mutex_lock_def mutex_unlock_def emits_set_dev)

lemma emits_ioctl: "emits op_event (uad2_ioctl hw command caller)"
  unfolding uad2_ioctl_def
  by (intro emits_if emits_bind emits_gets emits_return emits_switch emits_mutex)

section \<open>Invariant and frame\<close>

lemma frame_reads: "list_all bar_rd rs \<Longrightarrow> frame s (s\<lparr>log := rs @ log s\<rparr>)"
  by (simp add: frame_def bar_rd_reads)

lemma kscan_get_info: "kscan (ioctl_get_info hw caller)"
  unfolding ioctl_get_info_def
  by (auto intro!: emits_intros reads_only_bind kport.rd_reads_only reads_only_return
      reads_only_gets)

lemma index_nat: "(i :: u32) < 8 \<Longrightarrow> unat i < 8"
  by (simp add: word_less_nat_alt)

lemma status_regs:
  assumes "d < 8"
  shows "uad2_dsp_banks ! d + 0x28 = ring_reg d 0 10" "uad2_dsp_banks ! d + 0x24 = ring_reg d 0 9"
    "uad2_dsp_banks ! d + 0x40 + 0x28 = ring_reg d 1 10"
    "uad2_dsp_banks ! d + 0x40 + 0x24 = ring_reg d 1 9"
  using assms by (simp_all add: bank_table) (simp_all add: ring_reg_def ring_addr_def)

lemma kscan_get_dsp_status: "kscan (ioctl_get_dsp_status hw caller)"
proof -
  have bar: "in_bar (uad2_dsp_banks ! d + 0x28)" "in_bar (uad2_dsp_banks ! d + 0x24)"
    "in_bar (uad2_dsp_banks ! d + 0x40 + 0x28)" "in_bar (uad2_dsp_banks ! d + 0x40 + 0x24)"
    if "d < 8" for d
    unfolding status_regs[OF that] using that by simp_all
  have "emits bar_rd (ioctl_get_dsp_status hw caller)"
    unfolding ioctl_get_dsp_status_def Let_def
    by (intro emits_case_option emits_if emits_bind emits_return emits_uad2_read)
      (use bar ready_in_bar index_nat in \<open>auto simp: not_le simp del: arith_simps\<close>)
  moreover have "reads_only log (\<lambda>s. s\<lparr>log := []\<rparr>) (ioctl_get_dsp_status hw caller)"
    unfolding ioctl_get_dsp_status_def Let_def
    by (auto intro!: reads_only_bind kport.rd_reads_only reads_only_return split: option.splits)
  ultimately show ?thesis by simp
qed

lemma wp_frame_kscan:
  assumes "kscan m" "drv_inv s"
  shows "wp m (\<lambda>_ t. drv_inv t \<and> frame s t) s"
  using assms by (intro wp_kscan) (auto simp: drv_inv_reads frame_reads)

lemma frame_refl [simp]: "frame s s"
  by (simp add: frame_def)

lemma switch_spec:
  assumes "drv_inv s"
  shows "wp (ioctl_switch hw command caller) (\<lambda>_ t. drv_inv t \<and> frame s t) s"
proof -
  have start: "wp (uad2_start_locked hw) (\<lambda>_ t. drv_inv t \<and> frame s t) s"
    by (rule wp_mono[OF start_spec[OF assms]]) simp
  have stop: "wp (uad2_stop_locked hw) (\<lambda>_ t. drv_inv t \<and> frame s t) s"
    by (rule wp_mono[OF stop_spec[OF assms]]) simp
  have reset: "wp (uad2_reset_dsp_locked hw reset) (\<lambda>_ t. drv_inv t \<and> frame s t) s" for reset
    by (rule wp_mono[OF reset_spec[OF assms]]) auto
  note scans = wp_frame_kscan[OF kscan_get_info assms] wp_frame_kscan[OF kscan_get_dsp_status assms]
  show ?thesis
    using assms start stop
    by (auto simp: ioctl_switch_def ioctl_privileged_def ioctl_reset_dsp_def wp_simps scans
        split: option.split intro!: wp_mono[OF reset])
qed

text \<open>The mutex flag is no part of the invariant.\<close>

lemma drv_inv_lock [simp]: "drv_inv (s\<lparr>dev := (dev s)\<lparr>lock_held := b\<rparr>\<rparr>) = drv_inv s"
  by (simp add: drv_inv_def pages_live_def)

lemma drv_inv_unlock [simp]:
  "drv_inv (s\<lparr>dev := (dev s)\<lparr>lock_held := b, removing := c\<rparr>\<rparr>) = drv_inv s"
  by (simp add: drv_inv_def pages_live_def)

definition unlocked_frame :: "kstate \<Rightarrow> kstate \<Rightarrow> bool" where
  "unlocked_frame s t \<longleftrightarrow>
     dev t = (dev s)\<lparr>started := started (dev t), lock_held := False\<rparr> \<and>
     next_index t = next_index s \<and> live_page (log t) = live_page (log s) \<and>
     held (log t) = held (log s)"

lemma frame_lock:
  assumes "frame (s\<lparr>dev := (dev s)\<lparr>lock_held := True\<rparr>\<rparr>) t"
  shows "unlocked_frame s (t\<lparr>dev := (dev t)\<lparr>lock_held := False\<rparr>\<rparr>)"
  using assms
  by (cases "dev s"; cases "dev t") (simp add: frame_def unlocked_frame_def)

lemma ioctl_spec:
  assumes "drv_inv s" "lock_held (dev s) = False"
  shows "wp (uad2_ioctl hw command caller) (\<lambda>_ t. drv_inv t \<and> unlocked_frame s t) s"
proof -
  let ?s = "s\<lparr>dev := (dev s)\<lparr>lock_held := True\<rparr>\<rparr>"
  have refl: "unlocked_frame s s" using assms(2) by (simp add: unlocked_frame_def)
  have "unlocked_frame s (s\<lparr>dev := (dev s)\<lparr>lock_held := False\<rparr>\<rparr>)"
    by (simp add: unlocked_frame_def)
  moreover have "wp (ioctl_switch hw command caller) (\<lambda>_ t. drv_inv t \<and> frame ?s t) ?s"
    by (rule switch_spec) (simp add: assms(1))
  ultimately show ?thesis
    using assms(1) refl
    by (auto simp: uad2_ioctl_def wp_simps elim!: wp_mono intro: frame_lock)
qed

section \<open>Errors that touch nothing\<close>

lemma ioctl_foreign:
  "IOC_TYPE command \<noteq> UAD2_COMPUTE_IOC_MAGIC \<Longrightarrow>
     run_state (uad2_ioctl hw command caller) s = ((Inl ENOTTY, NoOut), s)"
  by (simp add: uad2_ioctl_def)

lemma ioctl_gone:
  assumes "IOC_TYPE command = UAD2_COMPUTE_IOC_MAGIC" "removing (dev s)" "\<not> lock_held (dev s)"
  shows "run_state (uad2_ioctl hw command caller) s = ((Inl ENODEV, NoOut), s)"
  using assms by (simp add: uad2_ioctl_def mutex_lock_def mutex_unlock_def)

lemma switch_unprivileged:
  assumes "\<not> cap_sys_rawio caller"
  shows "wp (ioctl_switch hw command caller) (\<lambda>(r, out) t.
     (\<exists>rs. list_all bar_rd rs \<and> t = s\<lparr>log := rs @ log s\<rparr>) \<and>
     (command \<in> {UAD2_COMPUTE_IOC_START_TRANSPORT, UAD2_COMPUTE_IOC_STOP_TRANSPORT,
        UAD2_COMPUTE_IOC_RESET_DSP} \<longrightarrow> r = Inl EPERM \<and> out = NoOut \<and> t = s)) s"
proof -
  have scan: "wp m (\<lambda>_ t. \<exists>rs. list_all bar_rd rs \<and> t = s\<lparr>log := rs @ log s\<rparr>) s"
    if "kscan m" for m :: "(kstate, unit result \<times> user_out) state"
    by (rule wp_kscan[OF that]) auto
  have none: "\<exists>rs. list_all bar_rd rs \<and> s = s\<lparr>log := rs @ log s\<rparr>"
    by (rule exI[of _ "[]"]) simp
  show ?thesis
    using assms none
    by (auto simp: ioctl_switch_def ioctl_privileged_def ioctl_reset_dsp_def wp_simps ioc_values
        intro!: wp_mono[OF scan[OF kscan_get_info]] wp_mono[OF scan[OF kscan_get_dsp_status]])
qed

lemma lock_id:
  "\<not> lock_held (dev s) \<Longrightarrow> s\<lparr>log := l, dev := (dev s)\<lparr>lock_held := False\<rparr>\<rparr> = s\<lparr>log := l\<rparr>"
  by (cases s, cases "dev s") simp

lemma ioctl_unprivileged:
  assumes "\<not> cap_sys_rawio caller" "\<not> lock_held (dev s)"
  shows "wp (uad2_ioctl hw command caller) (\<lambda>(r, out) t.
     (\<exists>rs. list_all bar_rd rs \<and> t = s\<lparr>log := rs @ log s\<rparr>) \<and>
     (command \<in> {UAD2_COMPUTE_IOC_START_TRANSPORT, UAD2_COMPUTE_IOC_STOP_TRANSPORT,
        UAD2_COMPUTE_IOC_RESET_DSP} \<and> \<not> removing (dev s) \<longrightarrow> r = Inl EPERM)) s"
proof -
  let ?s = "s\<lparr>dev := (dev s)\<lparr>lock_held := True\<rparr>\<rparr>"
  have none: "\<exists>rs. list_all bar_rd rs \<and> s = s\<lparr>log := rs @ log s\<rparr>"
    by (rule exI[of _ "[]"]) simp
  have id: "s\<lparr>dev := (dev s)\<lparr>lock_held := False\<rparr>\<rparr> = s"
    using lock_id[OF assms(2), of "log s"] by (cases s) simp
  have "wp (ioctl_switch hw command caller) (\<lambda>r t.
      (\<exists>rs. list_all bar_rd rs \<and>
        t\<lparr>dev := (dev t)\<lparr>lock_held := False\<rparr>\<rparr> = s\<lparr>log := rs @ log s\<rparr>) \<and>
      (command \<in> {UAD2_COMPUTE_IOC_START_TRANSPORT, UAD2_COMPUTE_IOC_STOP_TRANSPORT,
        UAD2_COMPUTE_IOC_RESET_DSP} \<longrightarrow> fst r = Inl EPERM)) ?s"
    by (rule wp_mono[OF switch_unprivileged[OF assms(1)]])
      (use none in \<open>auto simp: lock_id[OF assms(2)] id split: prod.splits\<close>)
  then show ?thesis
    using none id ioc_types
    by (auto simp: uad2_ioctl_def wp_simps elim!: wp_mono)
qed

section \<open>What the two read-only commands return\<close>

lemma ioctl_info_result:
  assumes "\<not> removing (dev s)" "\<not> lock_held (dev s)"
  shows "run_state (uad2_ioctl hw UAD2_COMPUTE_IOC_GET_INFO caller) s =
    (let fpga = hw (log s) UAD2_FPGA_REVISION;
         h = Rd UAD2_FPGA_REVISION fpga # log s;
         caps = hw h UAD2_EXTENDED_CAPABILITIES in
     (copy_to_user caller (OutInfo
        \<lparr>info_size = 72, info_abi_version = 1,
         info_vendor_id = vendor (pdev (dev s)), info_device_id = device (pdev (dev s)),
         info_subsystem_vendor_id = subsystem_vendor (pdev (dev s)),
         info_subsystem_device_id = subsystem_device (pdev (dev s)),
         info_fpga_revision = fpga, info_extended_capabilities = caps, info_dsp_count = 8,
         info_transport_started = flag_u32 (started (dev s)),
         info_capabilities = 3, info_reserved = [0, 0, 0, 0]\<rparr>),
      s\<lparr>log := Rd UAD2_EXTENDED_CAPABILITIES caps # h\<rparr>))"
  using assms lock_id[OF assms(2)]
  by (simp add: uad2_ioctl_def mutex_lock_def mutex_unlock_def ioc_types ioctl_switch_def
      ioctl_get_info_def uad2_read_def Let_def sizeof_info_def UAD2_COMPUTE_ABI_VERSION_def
      UAD2_CAP_RING_TRANSPORT_def UAD2_CAP_PER_DSP_RESET_def numeral_eq_Suc)

lemma ioctl_status_result:
  assumes "\<not> removing (dev s)" "\<not> lock_held (dev s)"
    and "status_in caller = Some status" "st_size status = 64" "st_dsp_index status < 8"
    and "copy_out caller"
  shows "wp (uad2_ioctl hw UAD2_COMPUTE_IOC_GET_DSP_STATUS caller) (\<lambda>(r, out) t.
     r = Inr () \<and> (\<exists>v. out = OutStatus v \<and>
       (let d = unat (st_dsp_index status); c = hw (log s) UAD2_DMA_CONTROL in
       t = s\<lparr>log := [Rd (ring_reg d 1 9) (st_response_write_index v),
                    Rd (ring_reg d 1 10) (st_response_read_index v),
                    Rd (ring_reg d 0 9) (st_command_write_index v),
                    Rd (ring_reg d 0 10) (st_command_read_index v),
                    Rd (uad2_ready_offsets ! d) (st_raw_ready_word v),
                    Rd UAD2_DMA_CONTROL c] @ log s\<rparr> \<and>
       (st_ready v = 1 \<longleftrightarrow> bit (st_raw_ready_word v) 0) \<and>
       (st_dma_enabled v = 1 \<longleftrightarrow> bit c (d + 1)) \<and>
       st_size v = 64 \<and> st_dsp_index v = st_dsp_index status \<and>
       st_reserved v = replicate 7 0))) s"
proof -
  have d: "unat (st_dsp_index status) < 8" by (rule index_nat) (rule assms(5))
  have idx: "\<not> st_dsp_index status \<ge> 8" using assms(5) by simp
  have bit: "c AND push_bit k 1 \<noteq> 0 \<longleftrightarrow> bit c k" if "k < 32" for c :: u32 and k
  proof -
    have "c AND push_bit k 1 = (if bit c k then push_bit k 1 else 0)"
      by (rule bit_eqI) (auto simp: bit_simps)
    moreover have "push_bit k 1 \<noteq> (0 :: u32)"
      using that bit_one_shift[of k k] by auto
    ultimately show ?thesis by simp
  qed
  have flag: "flag_u32 b = 1 \<longleftrightarrow> b" for b by (simp add: flag_u32_def)
  have ty: "IOC_TYPE UAD2_COMPUTE_IOC_GET_DSP_STATUS = UAD2_COMPUTE_IOC_MAGIC"
    by (rule ioc_types)
  have switch: "ioctl_switch hw UAD2_COMPUTE_IOC_GET_DSP_STATUS caller =
      ioctl_get_dsp_status hw caller"
    by (simp add: ioctl_switch_def ioc_values)
  have regs: "104 + uad2_dsp_banks ! unat (st_dsp_index status) =
      ring_reg (unat (st_dsp_index status)) 1 10"
    "100 + uad2_dsp_banks ! unat (st_dsp_index status) =
      ring_reg (unat (st_dsp_index status)) 1 9"
    using status_regs(3,4)[OF d] by (simp_all add: add.commute)
  show ?thesis
    using assms(1-4,6) d idx lock_id[OF assms(2)] bit
    by (simp add: uad2_ioctl_def wp_simps ty switch ioctl_get_dsp_status_def sizeof_dsp_status_def
        Let_def status_regs regs copy_to_user_def flag and_one_bit
        del: push_bit_Suc push_bit_of_1 One_nat_def add_Suc_right)
qed

end
