(* ===== verification/Kernel_Lifecycle.thy ===== *)
theory Kernel_Lifecycle
  imports Kernel_Ioctl
begin

text \<open>
  The life of a device in \<^verbatim>\<open>kernel/uad2_compute.c\<close>: probe with its unwinding labels, the
  coherent ring pages, open and release with the reference count, and remove. What the kernel's
  own services answer (memory, the PCI core, the DMA allocator, the misc device core) is the
  environment record \<^verbatim>\<open>probe_env\<close>; every service called is an event of the log, so that the
  balance of resources is a property of histories.
\<close>

section \<open>Pages\<close>

definition set_page :: "nat \<Rightarrow> nat \<Rightarrow> nat \<Rightarrow> uad2_ring_page \<Rightarrow> uad2_compute_device \<Rightarrow>
    uad2_compute_device" where
  "set_page dsp ring page v d = d\<lparr>pages := (\<lambda>i j k.
     if i = dsp \<and> j = ring \<and> k = page then v else pages d i j k)\<rparr>"

definition uad2_free_pages :: "(kstate, unit) state" where
  "uad2_free_pages =
     for_each [0..<UAD2_DSP_COUNT] (\<lambda>dsp. for_each [0..<UAD2_RING_COUNT] (\<lambda>ring.
       for_each [0..<UAD2_RING_PAGES] (\<lambda>page.
         do { v \<leftarrow> gets (\<lambda>s. pages (dev s) dsp ring page);
              if \<not> cpu v then State_Monad.return ()
              else do {
                emit (DmaFree dsp ring page);
                set_dev (set_page dsp ring page (v\<lparr>cpu := False\<rparr>)) } })))"

definition uad2_allocate_pages ::
  "(nat \<Rightarrow> nat \<Rightarrow> nat \<Rightarrow> u64 option) \<Rightarrow> (kstate, unit result) state" where
  "uad2_allocate_pages dma_alloc =
     try_each [0..<UAD2_DSP_COUNT] (\<lambda>dsp. try_each [0..<UAD2_RING_COUNT] (\<lambda>ring.
       try_each [0..<UAD2_RING_PAGES] (\<lambda>page.
         case dma_alloc dsp ring page of
           None \<Rightarrow> State_Monad.return (Inl ENOMEM)
         | Some address \<Rightarrow> do {
             emit (DmaAlloc dsp ring page address);
             set_dev (set_page dsp ring page \<lparr>cpu = True, dma = address\<rparr>);
             emit (ZeroPage dsp ring page);
             State_Monad.return (Inr ()) })))"

section \<open>Reference counting, open and release\<close>

definition uad2_release_device :: "(kstate, unit) state" where
  "uad2_release_device =
     do { name \<leftarrow> gets (\<lambda>s. misc_name (dev s));
          (case name of None \<Rightarrow> State_Monad.return () | Some _ \<Rightarrow> emit (Release NameString));
          emit (Release DeviceMem) }"

definition kref_put :: "(kstate, unit) state" where
  "kref_put =
     do { set_dev (\<lambda>d. d\<lparr>refcount := refcount d - 1\<rparr>);
          n \<leftarrow> gets (\<lambda>s. refcount (dev s));
          if n = 0 then uad2_release_device else State_Monad.return () }"

definition kref_get_unless_zero :: "(kstate, bool) state" where
  "kref_get_unless_zero =
     do { n \<leftarrow> gets (\<lambda>s. refcount (dev s));
          if n = 0 then State_Monad.return False
          else do { set_dev (\<lambda>d. d\<lparr>refcount := n + 1\<rparr>); State_Monad.return True } }"

definition uad2_open :: "(kstate, unit result) state" where
  "uad2_open =
     do { mutex_lock;
          gone \<leftarrow> gets (\<lambda>s. removing (dev s));
          got \<leftarrow> (if gone then State_Monad.return False else kref_get_unless_zero);
          mutex_unlock;
          State_Monad.return (if got then Inr () else Inl ENODEV) }"

definition uad2_release :: "(kstate, unit result) state" where
  "uad2_release = do { kref_put; State_Monad.return (Inr ()) }"

section \<open>Probe\<close>

record probe_env =
  page_size :: nat
  bar0_len :: nat
  probe_pdev :: pci_dev
  kzalloc_ok :: bool
  enable_device_mem :: int
  request_region :: int
  set_dma_mask :: int
  iomap_ok :: bool
  dma_alloc_coherent :: "nat \<Rightarrow> nat \<Rightarrow> nat \<Rightarrow> u64 option"
  kasprintf_ok :: bool
  misc_register :: int

text \<open>The unwinding labels, each falling through to the next.\<close>

definition put_device :: "errno \<Rightarrow> (kstate, unit result) state" where
  "put_device result =
     do { emit (Release DrvData); kref_put; State_Monad.return (Inl result) }"

definition disable_device :: "errno \<Rightarrow> (kstate, unit result) state" where
  "disable_device result = do { emit (Release PciEnabled); put_device result }"

definition release_region :: "errno \<Rightarrow> (kstate, unit result) state" where
  "release_region result = do { emit (Release Region0); disable_device result }"

definition unmap_bar :: "errno \<Rightarrow> (kstate, unit result) state" where
  "unmap_bar result = do { emit (Release BarMap); release_region result }"

definition free_pages :: "errno \<Rightarrow> (kstate, unit result) state" where
  "free_pages result = do { uad2_free_pages; unmap_bar result }"

text \<open>\<^verbatim>\<open>kzalloc\<close> and the initialisers before the first call that can fail with an unwind.\<close>

definition new_device :: "pci_dev \<Rightarrow> u32 \<Rightarrow> uad2_compute_device" where
  "new_device p i =
     \<lparr>pdev = p, bar = False, misc_name = None, lock_held = False, refcount = 1,
      pages = (\<lambda>_ _ _. \<lparr>cpu = False, dma = 0\<rparr>), started = False, removing = False,
      dev_index = i\<rparr>"

definition device_name :: "u32 \<Rightarrow> string" where
  "device_name i = ''uad2_compute'' @ dec (unat i)"

definition probe_register :: "probe_env \<Rightarrow> (kstate, unit result) state" where
  "probe_register env =
     do { i \<leftarrow> gets (\<lambda>s. dev_index (dev s));
          if \<not> kasprintf_ok env then free_pages ENOMEM
          else do {
            emit (Acquire NameString);
            set_dev (\<lambda>d. d\<lparr>misc_name := Some (device_name i)\<rparr>);
            if misc_register env \<noteq> 0 then free_pages (Callee (misc_register env))
            else do { emit (Acquire MiscDev); State_Monad.return (Inr ()) } } }"

definition probe_map :: "hw \<Rightarrow> probe_env \<Rightarrow> (kstate, unit result) state" where
  "probe_map hw env =
     (if \<not> iomap_ok env then release_region ENOMEM
      else do {
        emit (Acquire BarMap);
        set_dev (\<lambda>d. d\<lparr>bar := True\<rparr>);
        cold \<leftarrow> uad2_cold_precondition hw;
        if \<not> cold then unmap_bar EBUSY
        else do {
          r \<leftarrow> uad2_allocate_pages (dma_alloc_coherent env);
          case r of Inl e \<Rightarrow> free_pages e | Inr _ \<Rightarrow> probe_register env } })"

definition uad2_probe :: "hw \<Rightarrow> probe_env \<Rightarrow> (kstate, unit result) state" where
  "uad2_probe hw env =
     (if page_size env \<noteq> UAD2_RING_PAGE_BYTES then State_Monad.return (Inl EOPNOTSUPP)
      else if bar0_len env \<noteq> UAD2_BAR0_SIZE then State_Monad.return (Inl EINVAL)
      else if \<not> kzalloc_ok env then State_Monad.return (Inl ENOMEM)
      else do {
        emit (Acquire DeviceMem);
        i \<leftarrow> gets next_index;
        modify (\<lambda>s. s\<lparr>next_index := i + 1\<rparr>);
        set_dev (\<lambda>_. new_device (probe_pdev env) i);
        emit (Acquire DrvData);
        if enable_device_mem env \<noteq> 0 then put_device (Callee (enable_device_mem env))
        else do {
          emit (Acquire PciEnabled);
          if request_region env \<noteq> 0 then disable_device (Callee (request_region env))
          else do {
            emit (Acquire Region0);
            if set_dma_mask env \<noteq> 0 then release_region (Callee (set_dma_mask env))
            else probe_map hw env } } })"

section \<open>Remove\<close>

text \<open>
  Remove in its three atomic parts: the misc device core forgets the device (no further open
  can start), the part under the mutex, and the driver's own reference.
\<close>

definition remove_deregister :: "(kstate, unit) state" where
  "remove_deregister = emit (Release MiscDev)"

definition remove_locked :: "hw \<Rightarrow> (kstate, unit result) state" where
  "remove_locked hw =
     do { mutex_lock;
          set_dev (\<lambda>d. d\<lparr>removing := True\<rparr>);
          stop_result \<leftarrow> uad2_stop_locked hw;
          uad2_free_pages;
          emit (Release BarMap);
          emit (Release Region0);
          emit (Release PciEnabled);
          emit (Release DrvData);
          mutex_unlock;
          State_Monad.return stop_result }"

definition uad2_remove :: "hw \<Rightarrow> (kstate, unit) state" where
  "uad2_remove hw = do { remove_deregister; remove_locked hw; kref_put }"

text \<open>The identifier table and the core's match of a device against it.\<close>

definition uad2_ids :: "pci_dev list" where
  "uad2_ids = [\<lparr>vendor = 0x1a00, device = 0x0002, subsystem_vendor = 0x1a00,
     subsystem_device = 0x0005\<rparr>]"

section \<open>Which resources are held\<close>

text \<open>
  The order in which the driver may hold resources: each only while the ones it depends on are
  held, none twice, none released that is not held.
\<close>

definition nested :: "history \<Rightarrow> bool" where
  "nested h \<longleftrightarrow>
     0 \<le> held h MiscDev \<and> held h MiscDev \<le> held h BarMap \<and> held h MiscDev \<le> held h NameString \<and>
     0 \<le> held h BarMap \<and> held h BarMap \<le> held h Region0 \<and> held h Region0 \<le> held h PciEnabled \<and>
     held h PciEnabled \<le> held h DrvData \<and> held h DrvData \<le> held h DeviceMem \<and>
     0 \<le> held h NameString \<and> held h NameString \<le> held h DeviceMem \<and> held h DeviceMem \<le> 1"

definition nested_set :: "resource set \<Rightarrow> bool" where
  "nested_set S \<longleftrightarrow>
     (MiscDev \<in> S \<longrightarrow> BarMap \<in> S \<and> NameString \<in> S) \<and> (BarMap \<in> S \<longrightarrow> Region0 \<in> S) \<and>
     (Region0 \<in> S \<longrightarrow> PciEnabled \<in> S) \<and> (PciEnabled \<in> S \<longrightarrow> DrvData \<in> S) \<and>
     (DrvData \<in> S \<longrightarrow> DeviceMem \<in> S) \<and> (NameString \<in> S \<longrightarrow> DeviceMem \<in> S)"

lemma holds_nested: "holds h S \<Longrightarrow> nested_set S \<Longrightarrow> nested h"
  by (auto simp: holds_def nested_def nested_set_def)

text \<open>The state of the world between operations that hold the resources \<open>S\<close>.\<close>

definition world :: "resource set \<Rightarrow> history \<Rightarrow> bool" where
  "world S h \<longleftrightarrow> always dma_safe h \<and> always nested h \<and> list_all store_ok h \<and> holds h S"

lemma world_acquire:
  assumes "world S h" "x \<notin> S" "nested_set (insert x S)"
  shows "world (insert x S) (Acquire x # h)"
  using assms holds_nested[OF holds_acquire[of h S x]] always_safe_engines[of h]
  by (auto simp: world_def holds_acquire)

lemma world_release:
  assumes "world S h" "x \<in> S" "nested_set (S - {x})"
  shows "world (S - {x}) (Release x # h)"
  using assms holds_nested[OF holds_release[of h S x]] always_safe_engines[of h]
  by (auto simp: world_def holds_release)

lemma nested_cong: "held g = held h \<Longrightarrow> nested g = nested h"
  by (simp add: nested_def)

lemma always_nested_same:
  assumes "always nested h" "\<And>k e. e \<in> set evs \<Longrightarrow> held (e # k) = held k"
  shows "always nested (evs @ h) \<and> held (evs @ h) = held h"
  using assms(2)
proof (induction evs)
  case Nil
  then show ?case using assms(1) by simp
next
  case (Cons e evs)
  then have IH: "always nested (evs @ h)" "held (evs @ h) = held h" by auto
  have "held (e # (evs @ h)) = held (evs @ h)" by (rule Cons.prems) simp
  with IH nested_cong[OF this] always_now[OF IH(1)] show ?case by simp
qed

text \<open>What an operation under the mutex adds keeps the world, if it keeps DMA safe.\<close>

lemma op_event_held1: "op_event e \<Longrightarrow> held (e # k) = held k"
  by (cases e) (simp_all add: fun_eq_iff)

lemma world_ops:
  assumes "world S h" "list_all op_event evs" "always dma_safe (evs @ h)"
  shows "world S (evs @ h)"
  using assms always_nested_same[of h evs] op_event_held1 op_event_store_ok
  by (auto simp: world_def holds_def list_all_iff)

lemma world_reads:
  assumes "world S h" "list_all bar_rd rs" "BarMap \<in> S"
  shows "world S (rs @ h)"
proof (rule world_ops[OF assms(1)])
  show "list_all op_event rs" using assms(2) by (auto simp: list_all_iff bar_rd_op_event)
  show "always dma_safe (rs @ h)"
    using assms by (intro safe_reads) (auto simp: world_def holds_def)
qed

text \<open>Allocating and freeing pages while the card is quiesced.\<close>

lemma world_page:
  assumes "world S h" "quiesced h"
  shows "world S (DmaAlloc d r p a # h)" "world S (DmaFree d r p # h)"
    "quiesced (DmaAlloc d r p a # h)" "quiesced (DmaFree d r p # h)"
proof -
  show q: "quiesced (DmaAlloc d r p a # h)" "quiesced (DmaFree d r p # h)"
    using assms(2) by (simp_all add: quiesced_def)
  have "engines_ok (DmaAlloc d r p a # h)" "engines_ok (DmaFree d r p # h)"
    using quiesced_no_engine[OF q(1)] quiesced_no_engine[OF q(2)] by (simp_all add: engines_ok_def)
  then show "world S (DmaAlloc d r p a # h)" "world S (DmaFree d r p # h)"
    using assms(1) always_now[of nested h]
      nested_cong[of "DmaAlloc d r p a # h" h] nested_cong[of "DmaFree d r p # h" h]
    by (simp_all add: world_def holds_def)
qed

lemma world_zero_page:
  assumes "world S h" "live_page h d r p \<noteq> None"
  shows "world S (ZeroPage d r p # h)"
  using assms always_now[of nested h] always_safe_engines[of h]
    nested_cong[of "ZeroPage d r p # h" h]
  by (simp add: world_def holds_def)

section \<open>Allocation and freeing of the ring pages\<close>

text \<open>A page is owned exactly when its \<^verbatim>\<open>cpu\<close> pointer is non-null, at the recorded address.\<close>

definition pages_match :: "kstate \<Rightarrow> bool" where
  "pages_match s \<longleftrightarrow> (\<forall>d r p. live_page (log s) d r p =
     (if d < 8 \<and> r < 2 \<and> p < 4 \<and> cpu (pages (dev s) d r p) then Some (page_addr s d r p)
      else None))"

definition page_step :: "resource set \<Rightarrow> kstate \<Rightarrow> kstate \<Rightarrow> bool" where
  "page_step S s t \<longleftrightarrow> world S (log t) \<and> quiesced (log t) \<and> pages_match t \<and>
     (dev t)\<lparr>pages := pages (dev s)\<rparr> = dev s \<and> next_index t = next_index s \<and>
     writes (log t) = writes (log s)"

lemma page_step_refl:
  "world S (log s) \<Longrightarrow> quiesced (log s) \<Longrightarrow> pages_match s \<Longrightarrow> page_step S s s"
  by (simp add: page_step_def)

lemma writes_page_events [simp]:
  "writes (DmaFree d r p # h) = writes h" "writes (DmaAlloc d r p a # h) = writes h"
  by simp_all

lemma page_step_free:
  assumes "page_step S s t" "d < 8" "r < 2" "p < 4"
  shows "page_step S s (t\<lparr>log := DmaFree d r p # log t,
     dev := set_page d r p ((pages (dev t) d r p)\<lparr>cpu := False\<rparr>) (dev t)\<rparr>)"
  using assms world_page(2)[of S "log t" d r p] world_page(4)[of S "log t" d r p]
  by (cases "dev t") (auto simp: page_step_def pages_match_def set_page_def)

lemma page_step_alloc:
  assumes "page_step S s t" "d < 8" "r < 2" "p < 4"
  shows "page_step S s (t\<lparr>dev := set_page d r p \<lparr>cpu = True, dma = a\<rparr> (dev t),
     log := ZeroPage d r p # DmaAlloc d r p a # log t\<rparr>)"
proof -
  have w: "world S (DmaAlloc d r p a # log t)" "quiesced (DmaAlloc d r p a # log t)"
    using assms(1) world_page(1,3)[of S "log t" d r p a] by (simp_all add: page_step_def)
  have "world S (ZeroPage d r p # DmaAlloc d r p a # log t)"
    by (rule world_zero_page[OF w(1)]) simp
  with w(2) assms show ?thesis
    by (cases "dev t") (auto simp: page_step_def pages_match_def set_page_def)
qed

lemma free_pages_spec:
  assumes "page_step S s s"
  shows "wp uad2_free_pages (\<lambda>_ t. page_step S s t \<and> live_page (log t) = (\<lambda>_ _ _. None)) s"
  unfolding uad2_free_pages_def UAD2_DSP_COUNT_def UAD2_RING_COUNT_def UAD2_RING_PAGES_def
    for_each_ring_words
proof (rule wp_for_each_done[where
      I = "\<lambda>D t. page_step S s t \<and> (\<forall>(d, r, p) \<in> D. \<not> cpu (pages (dev t) d r p))"])
  show "page_step S s s \<and> (\<forall>(d, r, p) \<in> {}. \<not> cpu (pages (dev s) d r p))" using assms by simp
next
  fix x D t
  assume x: "x \<in> set (ring_words 4)"
    and I: "page_step S s t \<and> (\<forall>(d, r, p) \<in> D. \<not> cpu (pages (dev t) d r p))"
  obtain d r p where xd: "x = (d, r, p)" "d < 8" "r < 2" "p < 4"
    using x by (auto simp: set_ring_words)
  have D: "\<not> cpu (pages (dev t) d' r' p')" if "(d', r', p') \<in> D" for d' r' p'
    using I that by auto
  show "wp (case x of (d, r, p) \<Rightarrow> do { v \<leftarrow> gets (\<lambda>s. pages (dev s) d r p);
      if \<not> cpu v then State_Monad.return ()
      else do { emit (DmaFree d r p); set_dev (set_page d r p (v\<lparr>cpu := False\<rparr>)) } })
      (\<lambda>_ t. page_step S s t \<and> (\<forall>(d, r, p) \<in> insert x D. \<not> cpu (pages (dev t) d r p))) t"
    using I page_step_free[of S s t d r p] xd D
    by (auto simp: wp_simps) (auto simp: set_page_def split: if_splits)
next
  fix t
  assume "page_step S s t \<and> (\<forall>(d, r, p) \<in> set (ring_words 4). \<not> cpu (pages (dev t) d r p))"
  then show "page_step S s t \<and> live_page (log t) = (\<lambda>_ _ _. None)"
    by (auto simp: page_step_def pages_match_def fun_eq_iff set_ring_words)
qed

lemma allocate_pages_spec:
  assumes "page_step S s s"
  shows "wp (uad2_allocate_pages alloc) (\<lambda>r t. page_step S s t \<and>
     (case r of Inl e \<Rightarrow> e = ENOMEM | Inr _ \<Rightarrow> pages_live t)) s"
  unfolding uad2_allocate_pages_def UAD2_DSP_COUNT_def UAD2_RING_COUNT_def UAD2_RING_PAGES_def
    try_each_ring_words
proof (rule wp_try_each_done[where
      I = "\<lambda>D t. page_step S s t \<and> (\<forall>(d, r, p) \<in> D. cpu (pages (dev t) d r p))"])
  show "page_step S s s \<and> (\<forall>(d, r, p) \<in> {}. cpu (pages (dev s) d r p))" using assms by simp
next
  fix x D t
  assume x: "x \<in> set (ring_words 4)"
    and I: "page_step S s t \<and> (\<forall>(d, r, p) \<in> D. cpu (pages (dev t) d r p))"
  obtain d r p where xd: "x = (d, r, p)" "d < 8" "r < 2" "p < 4"
    using x by (auto simp: set_ring_words)
  have D: "cpu (pages (dev t) d' r' p')" if "(d', r', p') \<in> D" for d' r' p'
    using I that by auto
  show "wp (case x of (d, r, p) \<Rightarrow> (case alloc d r p of
         None \<Rightarrow> State_Monad.return (Inl ENOMEM)
       | Some a \<Rightarrow> do { emit (DmaAlloc d r p a);
           set_dev (set_page d r p \<lparr>cpu = True, dma = a\<rparr>);
           emit (ZeroPage d r p); State_Monad.return (Inr ()) }))
      (\<lambda>r u. case r of
         Inl e \<Rightarrow> page_step S s u \<and> (case Inl e of Inl e \<Rightarrow> e = ENOMEM | Inr _ \<Rightarrow> pages_live u)
       | Inr _ \<Rightarrow> page_step S s u \<and> (\<forall>(d, r, p) \<in> insert x D. cpu (pages (dev u) d r p))) t"
    using I page_step_alloc[of S s t d r p] xd D
    by (auto simp: wp_simps split: option.split) (auto simp: set_page_def)
next
  fix t
  assume "page_step S s t \<and> (\<forall>(d, r, p) \<in> set (ring_words 4). cpu (pages (dev t) d r p))"
  then show "page_step S s t \<and> (case Inr () of Inl e \<Rightarrow> e = ENOMEM | Inr _ \<Rightarrow> pages_live t)"
    by (auto simp: page_step_def pages_match_def pages_live_def set_ring_words)
qed

section \<open>Unwinding\<close>

definition clean :: "history \<Rightarrow> bool" where
  "clean h \<longleftrightarrow> world {} h \<and> quiesced h \<and> live_page h = (\<lambda>_ _ _. None)"

definition name_set :: "kstate \<Rightarrow> resource set" where
  "name_set s = (if misc_name (dev s) = None then {} else {NameString})"

definition unwind_ok :: "resource set \<Rightarrow> kstate \<Rightarrow> bool" where
  "unwind_ok S s \<longleftrightarrow> world (S \<union> name_set s) (log s) \<and> quiesced (log s) \<and>
     live_page (log s) = (\<lambda>_ _ _. None) \<and> refcount (dev s) = 1"

text \<open>What every unwinding label leaves: nothing.\<close>

definition unwound :: "kstate \<Rightarrow> errno \<Rightarrow> unit result \<Rightarrow> kstate \<Rightarrow> bool" where
  "unwound s e r t \<longleftrightarrow> r = Inl e \<and> clean (log t) \<and> writes (log t) = writes (log s) \<and>
     next_index t = next_index s"

lemma quiesced_resource [simp]:
  "quiesced (Acquire x # h) = quiesced h" "quiesced (Release x # h) = quiesced h"
  by (simp_all add: quiesced_def)

lemma unwind_release:
  assumes "unwind_ok (insert x S) s" "x \<notin> S" "x \<noteq> NameString" "nested_set (S \<union> name_set s)"
  shows "unwind_ok S (s\<lparr>log := Release x # log s\<rparr>)"
proof -
  have "(insert x S \<union> name_set s) - {x} = S \<union> name_set s"
    using assms(2,3) by (auto simp: name_set_def)
  then have "world (S \<union> name_set s) (Release x # log s)"
    using world_release[of "insert x S \<union> name_set s" "log s" x] assms by (simp add: unwind_ok_def)
  with assms(1) show ?thesis by (simp add: unwind_ok_def name_set_def)
qed

lemma release_device_spec:
  assumes "unwind_ok {DeviceMem} (s\<lparr>dev := (dev s)\<lparr>refcount := 1\<rparr>\<rparr>)"
  shows "wp uad2_release_device (\<lambda>_ t. clean (log t) \<and> writes (log t) = writes (log s) \<and>
     next_index t = next_index s) s"
proof (cases "misc_name (dev s)")
  case None
  then have "world {DeviceMem} (log s)" "quiesced (log s)" "live_page (log s) = (\<lambda>_ _ _. None)"
    using assms by (simp_all add: unwind_ok_def name_set_def)
  with None show ?thesis
    using world_release[of "{DeviceMem}" "log s" DeviceMem]
    by (simp add: uad2_release_device_def wp_simps clean_def nested_set_def)
next
  case (Some n)
  then have w: "world {DeviceMem, NameString} (log s)" "quiesced (log s)"
    "live_page (log s) = (\<lambda>_ _ _. None)"
    using assms by (simp_all add: unwind_ok_def name_set_def insert_commute)
  have "world {DeviceMem} (Release NameString # log s)"
    using world_release[OF w(1), of NameString]
    by (simp add: nested_set_def insert_Diff_if)
  from world_release[OF this, of DeviceMem] w(2,3) Some show ?thesis
    by (simp add: uad2_release_device_def wp_simps clean_def nested_set_def)
qed

lemma put_device_spec:
  assumes "unwind_ok {DrvData, DeviceMem} s"
  shows "wp (put_device e) (unwound s e) s"
proof -
  let ?s = "s\<lparr>log := Release DrvData # log s\<rparr>"
  let ?t = "?s\<lparr>dev := (dev ?s)\<lparr>refcount := 0\<rparr>\<rparr>"
  have "nested_set ({DeviceMem} \<union> name_set s)" by (simp add: nested_set_def name_set_def)
  then have "unwind_ok {DeviceMem} ?s" using assms by (intro unwind_release) simp_all
  then have "unwind_ok {DeviceMem} (?t\<lparr>dev := (dev ?t)\<lparr>refcount := 1\<rparr>\<rparr>)"
    by (simp add: unwind_ok_def name_set_def)
  from release_device_spec[OF this] assms show ?thesis
    by (auto simp: put_device_def kref_put_def wp_simps unwind_ok_def unwound_def elim!: wp_mono)
qed

lemma unwound_mono:
  "wp m (unwound t e) s \<Longrightarrow> writes (log t) = writes (log u) \<Longrightarrow> next_index t = next_index u \<Longrightarrow>
     wp m (unwound u e) s"
  by (auto simp: unwound_def elim!: wp_mono)

lemma unwind_label:
  assumes "unwind_ok (insert x S) s" "x \<notin> S" "x \<noteq> NameString" "nested_set (S \<union> name_set s)"
    and "\<And>t. unwind_ok S t \<Longrightarrow> wp m (unwound t e) t"
  shows "wp (do { emit (Release x); m }) (unwound s e) s"
  using assms(5)[OF unwind_release[OF assms(1-4)]]
  by (auto simp: wp_simps intro: unwound_mono)

lemma disable_device_spec:
  "unwind_ok {PciEnabled, DrvData, DeviceMem} s \<Longrightarrow> wp (disable_device e) (unwound s e) s"
  unfolding disable_device_def
  by (rule unwind_label[OF _ _ _ _ put_device_spec]) (auto simp: nested_set_def name_set_def)

lemma release_region_spec:
  "unwind_ok {Region0, PciEnabled, DrvData, DeviceMem} s \<Longrightarrow>
     wp (release_region e) (unwound s e) s"
  unfolding release_region_def
  by (rule unwind_label[OF _ _ _ _ disable_device_spec]) (auto simp: nested_set_def name_set_def)

lemma unmap_bar_spec:
  "unwind_ok {BarMap, Region0, PciEnabled, DrvData, DeviceMem} s \<Longrightarrow>
     wp (unmap_bar e) (unwound s e) s"
  unfolding unmap_bar_def
  by (rule unwind_label[OF _ _ _ _ release_region_spec]) (auto simp: nested_set_def name_set_def)

lemma free_pages_label_spec:
  assumes "page_step ({BarMap, Region0, PciEnabled, DrvData, DeviceMem} \<union> name_set s) s s"
    and "refcount (dev s) = 1"
  shows "wp (free_pages e) (unwound s e) s"
  unfolding free_pages_def wp_bind
proof (rule wp_mono[OF free_pages_spec[OF assms(1)]])
  fix a t
  assume t: "page_step ({BarMap, Region0, PciEnabled, DrvData, DeviceMem} \<union> name_set s) s t \<and>
    live_page (log t) = (\<lambda>_ _ _. None)"
  then have "(dev t)\<lparr>pages := pages (dev s)\<rparr> = dev s" by (simp add: page_step_def)
  then have "refcount (dev t) = refcount (dev s)" "misc_name (dev t) = misc_name (dev s)"
    by (cases "dev t"; cases "dev s"; simp)+
  then have "unwind_ok {BarMap, Region0, PciEnabled, DrvData, DeviceMem} t"
    using t assms(2) by (simp add: unwind_ok_def page_step_def name_set_def)
  from unmap_bar_spec[OF this] t show "wp (unmap_bar e) (unwound s e) t"
    by (auto simp: page_step_def intro: unwound_mono)
qed

section \<open>Probe\<close>

abbreviation mapped :: "resource set" where
  "mapped \<equiv> {BarMap, Region0, PciEnabled, DrvData, DeviceMem}"

abbreviation all_resources :: "resource set" where
  "all_resources \<equiv> {MiscDev, NameString, BarMap, Region0, PciEnabled, DrvData, DeviceMem}"

definition attached :: "resource set \<Rightarrow> kstate \<Rightarrow> bool" where
  "attached S s \<longleftrightarrow> world S (log s) \<and> drv_inv s \<and> pages_match s \<and>
     misc_name (dev s) \<noteq> None \<and> \<not> lock_held (dev s) \<and> \<not> removing (dev s)"

abbreviation bound :: "kstate \<Rightarrow> bool" where
  "bound s \<equiv> attached all_resources s"

text \<open>A new device from \<^verbatim>\<open>kzalloc\<close>, before it is registered.\<close>

definition unregistered :: "kstate \<Rightarrow> bool" where
  "unregistered s \<longleftrightarrow> \<not> lock_held (dev s) \<and> \<not> removing (dev s) \<and> \<not> started (dev s) \<and>
     refcount (dev s) = 1 \<and> misc_name (dev s) = None"

definition probe_post :: "kstate \<Rightarrow> unit result \<Rightarrow> kstate \<Rightarrow> bool" where
  "probe_post s r t \<longleftrightarrow> writes (log t) = writes (log s) \<and> next_index t = next_index s \<and>
     (case r of
        Inl e \<Rightarrow> clean (log t)
      | Inr _ \<Rightarrow> bound t \<and> \<not> started (dev t) \<and> refcount (dev t) = 1 \<and>
          misc_name (dev t) = Some (device_name (dev_index (dev s))) \<and>
          pdev (dev t) = pdev (dev s))"

lemma unwound_probe_post: "wp m (unwound s e) s \<Longrightarrow> wp m (probe_post s) s"
  by (auto simp: unwound_def probe_post_def elim!: wp_mono)

lemma unwound_probe_post':
  "wp m (unwound t e) t \<Longrightarrow> writes (log t) = writes (log s) \<Longrightarrow> next_index t = next_index s \<Longrightarrow>
     wp m (probe_post s) t"
  by (auto simp: unwound_def probe_post_def elim!: wp_mono)

lemma probe_post_mono:
  "wp m (probe_post t) t \<Longrightarrow> writes (log t) = writes (log s) \<Longrightarrow> next_index t = next_index s \<Longrightarrow>
     dev_index (dev t) = dev_index (dev s) \<Longrightarrow> pdev (dev t) = pdev (dev s) \<Longrightarrow>
     wp m (probe_post s) t"
  by (auto simp: probe_post_def elim!: wp_mono split: sum.splits)

lemma world_safe: "world S h \<Longrightarrow> always dma_safe h"
  by (simp add: world_def)

lemma world_mapped: "world S h \<Longrightarrow> BarMap \<in> S \<Longrightarrow> held h BarMap = 1"
  by (simp add: world_def holds_def)

lemma bound_fresh:
  assumes "world all_resources (log s)" "quiesced (log s)" "pages_live s" "pages_match s"
    and "\<not> started (dev s)" "\<not> lock_held (dev s)" "\<not> removing (dev s)" "misc_name (dev s) = Some n"
  shows "bound s"
  using assms world_mapped[OF assms(1)] by (simp add: attached_def drv_inv_def world_safe)

lemma probe_register_spec:
  assumes "page_step mapped s s" "pages_live s" "unregistered s"
  shows "wp (probe_register env) (probe_post s) s"
proof (cases "kasprintf_ok env")
  case False
  have "page_step (mapped \<union> name_set s) s s" "refcount (dev s) = 1"
    using assms by (simp_all add: unregistered_def name_set_def)
  from unwound_probe_post[OF free_pages_label_spec[OF this]] False
  show ?thesis by (simp add: probe_register_def wp_simps)
next
  case True
  let ?n = "Some (device_name (dev_index (dev s)))"
  let ?t = "s\<lparr>log := Acquire NameString # log s, dev := (dev s)\<lparr>misc_name := ?n\<rparr>\<rparr>"
  have s: "world mapped (log s)" "quiesced (log s)" "pages_match s" "\<not> started (dev s)"
    "refcount (dev s) = 1" "\<not> lock_held (dev s)" "\<not> removing (dev s)"
    using assms by (simp_all add: page_step_def unregistered_def)
  have w: "world (insert NameString mapped) (Acquire NameString # log s)"
    by (rule world_acquire[OF s(1)]) (simp_all add: nested_set_def)
  have "page_step (mapped \<union> name_set ?t) ?t ?t" "refcount (dev ?t) = 1"
    using w s by (simp_all add: page_step_def pages_match_def name_set_def insert_commute)
  note free = free_pages_label_spec[OF this]
  have "world all_resources (Acquire MiscDev # Acquire NameString # log s)"
    by (rule world_acquire[OF w]) (simp_all add: nested_set_def)
  then have "bound (?t\<lparr>log := Acquire MiscDev # log ?t\<rparr>)"
    using s assms(2)
    by (intro bound_fresh[where n = "device_name (dev_index (dev s))"])
      (simp_all add: pages_live_def pages_match_def)
  then have "probe_post s (Inr ()) (?t\<lparr>log := Acquire MiscDev # log ?t\<rparr>)"
    using s by (simp add: probe_post_def)
  moreover have "wp (free_pages e) (probe_post s) ?t" for e
    by (rule unwound_probe_post'[OF free]) simp_all
  ultimately show ?thesis
    using True by (simp add: probe_register_def wp_simps)
qed

lemma probe_map_spec:
  assumes "world {Region0, PciEnabled, DrvData, DeviceMem} (log s)" "quiesced (log s)"
    "live_page (log s) = (\<lambda>_ _ _. None)" "unregistered s" "\<forall>d r p. \<not> cpu (pages (dev s) d r p)"
  shows "wp (probe_map hw env) (probe_post s) s"
proof (cases "iomap_ok env")
  case False
  have "unwind_ok {Region0, PciEnabled, DrvData, DeviceMem} s"
    using assms by (simp add: unwind_ok_def name_set_def unregistered_def)
  from unwound_probe_post[OF release_region_spec[OF this]] False
  show ?thesis by (simp add: probe_map_def wp_simps)
next
  case True
  let ?s = "s\<lparr>log := Acquire BarMap # log s, dev := (dev s)\<lparr>bar := True\<rparr>\<rparr>"
  have w: "world mapped (Acquire BarMap # log s)"
    by (rule world_acquire[OF assms(1)]) (simp_all add: nested_set_def)
  have "wp (uad2_cold_precondition hw) (\<lambda>cold. wp (if \<not> cold then unmap_bar EBUSY
      else do { r \<leftarrow> uad2_allocate_pages (dma_alloc_coherent env);
                case r of Inl e \<Rightarrow> free_pages e | Inr _ \<Rightarrow> probe_register env }) (probe_post s)) ?s"
  proof (rule wp_kscan[OF kscan_cold])
    fix cold rs
    assume rs: "list_all bar_rd rs"
    let ?t = "?s\<lparr>log := rs @ log ?s\<rparr>"
    have t: "world mapped (log ?t)" "quiesced (log ?t)" "live_page (log ?t) = (\<lambda>_ _ _. None)"
      "writes (log ?t) = writes (log s)"
      using world_reads[OF w rs] bar_rd_reads[OF rs] assms(2,3) by simp_all
    then have u: "unwind_ok mapped ?t" and p: "page_step mapped ?t ?t" and n: "unregistered ?t"
      using assms(4,5)
      by (simp_all add: unwind_ok_def name_set_def unregistered_def page_step_def pages_match_def)
    have alloc: "wp (uad2_allocate_pages (dma_alloc_coherent env)) (\<lambda>r.
        wp (case r of Inl e \<Rightarrow> free_pages e | Inr _ \<Rightarrow> probe_register env) (probe_post ?t)) ?t"
    proof (rule wp_mono[OF allocate_pages_spec[OF p]])
      fix r v
      assume v: "page_step mapped ?t v \<and>
          (case r of Inl e \<Rightarrow> e = ENOMEM | Inr _ \<Rightarrow> pages_live v)"
      then have pv: "page_step mapped v v" by (simp add: page_step_def)
      have dv: "(dev v)\<lparr>pages := pages (dev ?t)\<rparr> = dev ?t" using v by (simp add: page_step_def)
      then have nv: "unregistered v" "pdev (dev v) = pdev (dev ?t)"
        "dev_index (dev v) = dev_index (dev ?t)"
        using n by (cases "dev v"; cases "dev ?t"; simp add: unregistered_def)+
      have same: "writes (log v) = writes (log ?t)" "next_index v = next_index ?t"
        using v by (simp_all add: page_step_def)
      show "wp (case r of Inl e \<Rightarrow> free_pages e | Inr _ \<Rightarrow> probe_register env) (probe_post ?t) v"
      proof (cases r)
        case (Inl e)
        have "page_step (mapped \<union> name_set v) v v" "refcount (dev v) = 1"
          using pv nv by (simp_all add: name_set_def unregistered_def)
        from unwound_probe_post'[OF free_pages_label_spec[OF this] same] Inl
        show ?thesis by simp
      next
        case (Inr x)
        then have "pages_live v" using v by simp
        from probe_post_mono[OF probe_register_spec[OF pv this nv(1)] same nv(3,2)] Inr
        show ?thesis by simp
      qed
    qed
    show "wp (if \<not> cold then unmap_bar EBUSY
      else do { r \<leftarrow> uad2_allocate_pages (dma_alloc_coherent env);
                case r of Inl e \<Rightarrow> free_pages e | Inr _ \<Rightarrow> probe_register env }) (probe_post s) ?t"
      by (rule probe_post_mono[where t = ?t])
        (use unwound_probe_post[OF unmap_bar_spec[OF u]] alloc t(4) in \<open>simp_all add: wp_bind\<close>)
  qed
  with True show ?thesis by (simp add: probe_map_def wp_simps)
qed

lemma clean_world: "clean h \<Longrightarrow> world {} h"
  by (simp add: clean_def)

lemma probe_spec:
  assumes "clean (log s)"
  shows "wp (uad2_probe hw env) (\<lambda>r t. writes (log t) = writes (log s) \<and>
     (case r of
        Inl e \<Rightarrow> clean (log t)
      | Inr _ \<Rightarrow> bound t \<and> \<not> started (dev t) \<and> refcount (dev t) = 1 \<and>
          misc_name (dev t) = Some (device_name (next_index s)) \<and>
          pdev (dev t) = probe_pdev env \<and> next_index t = next_index s + 1)) s"
proof -
  let ?P = "\<lambda>r t. writes (log t) = writes (log s) \<and>
     (case r of
        Inl e \<Rightarrow> clean (log t)
      | Inr _ \<Rightarrow> bound t \<and> \<not> started (dev t) \<and> refcount (dev t) = 1 \<and>
          misc_name (dev t) = Some (device_name (next_index s)) \<and>
          pdev (dev t) = probe_pdev env \<and> next_index t = next_index s + 1)"
  let ?d = "new_device (probe_pdev env) (next_index s)"
  let ?s1 = "s\<lparr>next_index := next_index s + 1, dev := ?d,
    log := Acquire DrvData # Acquire DeviceMem # log s\<rparr>"
  let ?s2 = "?s1\<lparr>log := Acquire PciEnabled # log ?s1\<rparr>"
  let ?s3 = "?s2\<lparr>log := Acquire Region0 # log ?s2\<rparr>"
  have q: "quiesced (log s)" "live_page (log s) = (\<lambda>_ _ _. None)"
    using assms by (simp_all add: clean_def)
  have "world {DeviceMem} (Acquire DeviceMem # log s)"
    by (rule world_acquire[OF clean_world[OF assms]]) (simp_all add: nested_set_def)
  then have w1: "world {DrvData, DeviceMem} (log ?s1)"
    using world_acquire[of "{DeviceMem}" _ DrvData] by (simp add: nested_set_def)
  then have w2: "world {PciEnabled, DrvData, DeviceMem} (log ?s2)"
    using world_acquire[of "{DrvData, DeviceMem}" _ PciEnabled] by (simp add: nested_set_def)
  then have w3: "world {Region0, PciEnabled, DrvData, DeviceMem} (log ?s3)"
    using world_acquire[of "{PciEnabled, DrvData, DeviceMem}" _ Region0]
    by (simp add: nested_set_def)
  have u: "unwind_ok {DrvData, DeviceMem} ?s1" "unwind_ok {PciEnabled, DrvData, DeviceMem} ?s2"
    "unwind_ok {Region0, PciEnabled, DrvData, DeviceMem} ?s3"
    using w1 w2 w3 q by (simp_all add: unwind_ok_def name_set_def new_device_def)
  have fail: "wp m (unwound t e) t \<Longrightarrow> writes (log t) = writes (log s) \<Longrightarrow> wp m ?P t" for m t e
    by (auto simp: unwound_def elim!: wp_mono)
  have "wp (probe_map hw env) (probe_post ?s3) ?s3"
    using w3 q by (intro probe_map_spec) (simp_all add: unregistered_def new_device_def)
  then have map: "wp (probe_map hw env) ?P ?s3"
    by (auto simp: probe_post_def new_device_def elim!: wp_mono split: sum.splits)
  note labels = fail[OF put_device_spec[OF u(1)]] fail[OF disable_device_spec[OF u(2)]]
    fail[OF release_region_spec[OF u(3)]]
  show ?thesis
    using map labels assms by (simp add: uad2_probe_def wp_simps)
qed

section \<open>Reference count, open, release and remove\<close>

lemma kref_put_last:
  assumes "unwind_ok {DeviceMem} s"
  shows "wp kref_put (\<lambda>_ t. clean (log t) \<and> writes (log t) = writes (log s) \<and>
     next_index t = next_index s) s"
proof -
  have "(s\<lparr>dev := (dev s)\<lparr>refcount := 0\<rparr>\<rparr>)\<lparr>dev := (dev s)\<lparr>refcount := 1\<rparr>\<rparr> = s"
    using assms by (simp add: unwind_ok_def)
  then have "unwind_ok {DeviceMem} ((s\<lparr>dev := (dev s)\<lparr>refcount := 0\<rparr>\<rparr>)
      \<lparr>dev := (dev (s\<lparr>dev := (dev s)\<lparr>refcount := 0\<rparr>\<rparr>))\<lparr>refcount := 1\<rparr>\<rparr>)"
    using assms by (simp add: unwind_ok_def name_set_def)
  from release_device_spec[OF this] show ?thesis
    using assms by (simp add: kref_put_def wp_simps unwind_ok_def)
qed

lemma kref_put_more:
  assumes "refcount (dev s) > 1"
  shows "run_state kref_put s = ((), s\<lparr>dev := (dev s)\<lparr>refcount := refcount (dev s) - 1\<rparr>\<rparr>)"
  using assms by (simp add: kref_put_def)

lemma open_alive:
  assumes "\<not> lock_held (dev s)" "\<not> removing (dev s)" "refcount (dev s) > 0"
  shows "run_state uad2_open s =
    (Inr (), s\<lparr>dev := (dev s)\<lparr>refcount := refcount (dev s) + 1\<rparr>\<rparr>)"
proof -
  have "(dev s)\<lparr>refcount := n, lock_held := False\<rparr> = (dev s)\<lparr>refcount := n\<rparr>" for n
    using assms(1) by (cases "dev s") simp
  then show ?thesis
    using assms by (simp add: uad2_open_def mutex_lock_def mutex_unlock_def kref_get_unless_zero_def)
qed

text \<open>The part of remove under the mutex, from an attached device no longer listed.\<close>

definition detached :: "kstate \<Rightarrow> bool" where
  "detached s \<longleftrightarrow> world {NameString, DeviceMem} (log s) \<and> quiesced (log s) \<and>
     live_page (log s) = (\<lambda>_ _ _. None) \<and> misc_name (dev s) \<noteq> None \<and>
     \<not> lock_held (dev s) \<and> removing (dev s) \<and> \<not> started (dev s)"

lemma remove_locked_spec:
  assumes "attached (insert NameString mapped) s"
  shows "wp (remove_locked hw) (\<lambda>r t. detached t \<and> refcount (dev t) = refcount (dev s) \<and>
     next_index t = next_index s \<and> r \<in> {Inr (), Inl EIO}) s"
proof -
  let ?s = "s\<lparr>dev := (dev s)\<lparr>lock_held := True, removing := True\<rparr>\<rparr>"
  have s: "world (insert NameString mapped) (log s)" "drv_inv s" "pages_match s"
    "misc_name (dev s) \<noteq> None"
    using assms by (simp_all add: attached_def)
  have "wp (uad2_stop_locked hw) (\<lambda>r t. (drv_inv t \<and> frame ?s t \<and> \<not> started (dev t) \<and>
     (r = Inr () \<or> r = Inl EIO)) \<and> (\<exists>evs. log t = evs @ log ?s \<and> list_all op_event evs)) ?s"
    using s(2) by (intro wp_emits emits_stop stop_spec) simp
  then have "wp (uad2_stop_locked hw) (\<lambda>r. wp (do { uad2_free_pages; emit (Release BarMap);
          emit (Release Region0); emit (Release PciEnabled); emit (Release DrvData);
          mutex_unlock; State_Monad.return r })
      (\<lambda>r t. detached t \<and> refcount (dev t) = refcount (dev s) \<and>
         next_index t = next_index s \<and> r \<in> {Inr (), Inl EIO})) ?s"
  proof (rule wp_mono, elim conjE exE)
    fix r t evs
    assume t: "drv_inv t" "frame ?s t" "\<not> started (dev t)" and r: "r = Inr () \<or> r = Inl EIO"
      and evs: "log t = evs @ log ?s" "list_all op_event evs"
    have "world (insert NameString mapped) (log t)" "quiesced (log t)"
      using world_ops[OF s(1) evs(2)] t(1,3) evs(1) by (simp_all add: drv_inv_def)
    moreover have dt: "dev t = (dev ?s)\<lparr>started := started (dev t)\<rparr>" "next_index t = next_index s"
      "live_page (log t) = live_page (log s)"
      using t(2) by (simp_all add: frame_def)
    then have keep: "pages (dev t) = pages (dev s)" "misc_name (dev t) = misc_name (dev s)"
      "refcount (dev t) = refcount (dev s)" "removing (dev t)"
      by (cases "dev t"; cases "dev s"; simp)+
    ultimately have p: "page_step (insert NameString mapped) t t"
      using s(3) dt(3) by (simp add: page_step_def pages_match_def)
    show "wp (do { uad2_free_pages; emit (Release BarMap); emit (Release Region0);
          emit (Release PciEnabled); emit (Release DrvData); mutex_unlock;
          State_Monad.return r })
      (\<lambda>r t. detached t \<and> refcount (dev t) = refcount (dev s) \<and>
         next_index t = next_index s \<and> r \<in> {Inr (), Inl EIO}) t"
      unfolding wp_bind
    proof (rule wp_mono[OF free_pages_spec[OF p]])
      fix a u
      assume u: "page_step (insert NameString mapped) t u \<and> live_page (log u) = (\<lambda>_ _ _. None)"
      then have w: "world (insert NameString mapped) (log u)" "quiesced (log u)"
        "live_page (log u) = (\<lambda>_ _ _. None)" "next_index u = next_index t"
        "(dev u)\<lparr>pages := pages (dev t)\<rparr> = dev t"
        by (simp_all add: page_step_def)
      then have d: "misc_name (dev u) = misc_name (dev s)" "refcount (dev u) = refcount (dev s)"
        "removing (dev u)" "\<not> started (dev u)"
        using keep t(3) by (cases "dev u"; cases "dev t"; simp)+
      have "world {NameString, Region0, PciEnabled, DrvData, DeviceMem} (Release BarMap # log u)"
        using world_release[OF w(1), of BarMap] by (simp add: nested_set_def insert_Diff_if)
      then have "world {NameString, PciEnabled, DrvData, DeviceMem}
          (Release Region0 # Release BarMap # log u)"
        using world_release[of _ _ Region0] by (fastforce simp: nested_set_def insert_Diff_if)
      then have "world {NameString, DrvData, DeviceMem}
          (Release PciEnabled # Release Region0 # Release BarMap # log u)"
        using world_release[of _ _ PciEnabled] by (fastforce simp: nested_set_def insert_Diff_if)
      then have "world {NameString, DeviceMem}
          (Release DrvData # Release PciEnabled # Release Region0 # Release BarMap # log u)"
        using world_release[of _ _ DrvData] by (fastforce simp: nested_set_def insert_Diff_if)
      then show "wp (emit (Release BarMap)) (\<lambda>_. wp (emit (Release Region0))
          (\<lambda>_. wp (emit (Release PciEnabled)) (\<lambda>_. wp (emit (Release DrvData))
          (\<lambda>_. wp mutex_unlock (\<lambda>_. wp (State_Monad.return r)
            (\<lambda>r t. detached t \<and> refcount (dev t) = refcount (dev s) \<and>
         next_index t = next_index s \<and> r \<in> {Inr (), Inl EIO})))))) u"
        using w(2-4) d s(4) r dt(2) by (auto simp: wp_simps detached_def)
    qed
  qed
  then show ?thesis by (simp add: remove_locked_def wp_simps)
qed

end
