(* ===== verification/Kernel_System.thy ===== *)
theory Kernel_System
  imports Kernel_Lifecycle
begin

text \<open>
  The driver as a state machine: the actions the kernel and its user processes can take on one
  device (bind, open, ioctl, release, and the three atomic parts of remove) in any order the
  PCI and misc device cores allow, with the open files counted. The reachable states satisfy
  an invariant that says which of the earlier theories' predicates holds in which phase; the
  properties of all executions follow from it.
\<close>

section \<open>Actions\<close>

datatype phase = Absent | Bound | Deregistered | Detached

record sys =
  phase :: phase
  files :: nat
  kern :: kstate

datatype action =
    Probe probe_env
  | Open
  | Ioctl u32 caller
  | Close
  | Deregister
  | Detach
  | PutDevice

definition with_kern :: "(kstate, 'a) state \<Rightarrow> sys \<Rightarrow> 'a \<times> sys" where
  "with_kern m y = (case run_state m (kern y) of (r, k) \<Rightarrow> (r, y\<lparr>kern := k\<rparr>))"

text \<open>
  One action; None when the cores do not allow it in the current phase. A device can be opened
  only while it is registered; ioctl and close need an open file; remove runs on a bound device.
\<close>

fun sys_act :: "hw \<Rightarrow> action \<Rightarrow> sys \<Rightarrow> sys option" where
  "sys_act hw (Probe env) y =
     (if phase y = Absent \<and> files y = 0 then
        (case with_kern (uad2_probe hw env) y of
           (Inl _, z) \<Rightarrow> Some z
         | (Inr _, z) \<Rightarrow> Some (z\<lparr>phase := Bound\<rparr>))
      else None)"
| "sys_act hw Open y =
     (if phase y = Bound then
        (case with_kern uad2_open y of
           (Inl _, z) \<Rightarrow> Some z
         | (Inr _, z) \<Rightarrow> Some (z\<lparr>files := files z + 1\<rparr>))
      else None)"
| "sys_act hw (Ioctl command caller) y =
     (if files y > 0 then Some (snd (with_kern (uad2_ioctl hw command caller) y)) else None)"
| "sys_act hw Close y =
     (if files y > 0 then
        (case with_kern uad2_release y of (_, z) \<Rightarrow> Some (z\<lparr>files := files z - 1\<rparr>))
      else None)"
| "sys_act hw Deregister y =
     (if phase y = Bound then Some ((snd (with_kern remove_deregister y))\<lparr>phase := Deregistered\<rparr>)
      else None)"
| "sys_act hw Detach y =
     (if phase y = Deregistered then
        Some ((snd (with_kern (remove_locked hw) y))\<lparr>phase := Detached\<rparr>)
      else None)"
| "sys_act hw PutDevice y =
     (if phase y = Detached then Some ((snd (with_kern kref_put y))\<lparr>phase := Absent\<rparr>)
      else None)"

definition sys_init :: sys where
  "sys_init = \<lparr>phase = Absent, files = 0,
     kern = \<lparr>log = [], dev = new_device \<lparr>vendor = 0, device = 0, subsystem_vendor = 0,
       subsystem_device = 0\<rparr> 0, next_index = 0\<rparr>\<rparr>"

inductive reachable :: "hw \<Rightarrow> sys \<Rightarrow> bool" for hw where
  init: "reachable hw sys_init"
| step: "reachable hw y \<Longrightarrow> sys_act hw a y = Some z \<Longrightarrow> reachable hw z"

fun run_actions :: "hw \<Rightarrow> action list \<Rightarrow> sys \<Rightarrow> sys option" where
  "run_actions hw [] y = Some y"
| "run_actions hw (a # as) y =
     (case sys_act hw a y of None \<Rightarrow> None | Some z \<Rightarrow> run_actions hw as z)"

lemma run_actions_reachable:
  "run_actions hw as y = Some z \<Longrightarrow> reachable hw y \<Longrightarrow> reachable hw z"
  by (induction as arbitrary: y) (auto split: option.splits intro: reachable.step)

section \<open>The invariant of every phase\<close>

definition sys_inv :: "sys \<Rightarrow> bool" where
  "sys_inv y \<longleftrightarrow>
     (case phase y of
        Absent \<Rightarrow> (if files y = 0 then clean (log (kern y))
                   else detached (kern y) \<and> refcount (dev (kern y)) = files y)
      | Bound \<Rightarrow> bound (kern y) \<and> refcount (dev (kern y)) = files y + 1
      | Deregistered \<Rightarrow>
          attached (insert NameString mapped) (kern y) \<and> refcount (dev (kern y)) = files y + 1
      | Detached \<Rightarrow> detached (kern y) \<and> refcount (dev (kern y)) = files y + 1)"

lemma clean_Nil: "clean []"
  by (simp add: clean_def world_def holds_def nested_def quiesced_def fun_eq_iff)

lemma detached_unwind:
  "detached s \<Longrightarrow> refcount (dev s) = 1 \<Longrightarrow> unwind_ok {DeviceMem} s"
  by (auto simp: detached_def unwind_ok_def name_set_def insert_commute)

lemma detached_refcount [simp]:
  "detached (s\<lparr>dev := (dev s)\<lparr>refcount := n\<rparr>\<rparr>) = detached s"
  by (simp add: detached_def)

lemma attached_refcount [simp]:
  "attached S (s\<lparr>dev := (dev s)\<lparr>refcount := n\<rparr>\<rparr>) = attached S s"
  by (simp add: attached_def drv_inv_def pages_live_def pages_match_def)

lemma attached_ioctl:
  assumes "attached S s"
  shows "wp (uad2_ioctl hw command caller) (\<lambda>_ t. attached S t \<and>
     refcount (dev t) = refcount (dev s) \<and> next_index t = next_index s) s"
proof -
  have s: "world S (log s)" "drv_inv s" "\<not> lock_held (dev s)" "pages_match s"
    "misc_name (dev s) \<noteq> None" "\<not> removing (dev s)"
    using assms by (simp_all add: attached_def)
  have "wp (uad2_ioctl hw command caller) (\<lambda>_ t. (drv_inv t \<and> unlocked_frame s t) \<and>
      (\<exists>evs. log t = evs @ log s \<and> list_all op_event evs)) s"
    using s by (intro wp_emits emits_ioctl ioctl_spec) simp_all
  then show ?thesis
  proof (rule wp_mono, elim conjE exE)
    fix a t evs
    assume t: "drv_inv t" "unlocked_frame s t"
      and evs: "log t = evs @ log s" "list_all op_event evs"
    have "world S (log t)"
      using world_ops[OF s(1) evs(2)] t(1) evs(1) by (simp add: drv_inv_def)
    moreover have "dev t = (dev s)\<lparr>started := started (dev t), lock_held := False\<rparr>"
      "next_index t = next_index s" "live_page (log t) = live_page (log s)"
      using t(2) by (simp_all add: unlocked_frame_def)
    moreover from this(1) have "pages (dev t) = pages (dev s)" "misc_name (dev t) = misc_name (dev s)"
      "refcount (dev t) = refcount (dev s)" "\<not> removing (dev t)" "\<not> lock_held (dev t)"
      using s(6) by (cases "dev t"; cases "dev s"; simp)+
    ultimately show "attached S t \<and> refcount (dev t) = refcount (dev s) \<and>
        next_index t = next_index s"
      using s t(1) by (simp add: attached_def pages_match_def)
  qed
qed

lemma detached_ioctl:
  assumes "detached s"
  shows "snd (run_state (uad2_ioctl hw command caller) s) = s"
proof (cases "IOC_TYPE command = UAD2_COMPUTE_IOC_MAGIC")
  case True
  then show ?thesis using ioctl_gone[OF True, of s hw caller] assms by (simp add: detached_def)
qed (simp add: ioctl_foreign)

lemma inv_probe:
  assumes "clean (log (kern y))" "phase y = Absent" "files y = 0"
    and "sys_act hw (Probe env) y = Some z"
  shows "sys_inv z"
proof -
  obtain r k where rk: "run_state (uad2_probe hw env) (kern y) = (r, k)" by (meson surj_pair)
  from wp_runD[OF probe_spec[OF assms(1)] rk] assms(2-) rk show ?thesis
    by (auto simp: with_kern_def sys_inv_def split: sum.splits)
qed

lemma inv_open:
  assumes "sys_inv y" "sys_act hw Open y = Some z"
  shows "sys_inv z"
proof -
  have "phase y = Bound" using assms(2) by (simp split: if_splits)
  with assms(1) have k: "bound (kern y)" "refcount (dev (kern y)) = files y + 1"
    by (simp_all add: sys_inv_def)
  then have "run_state uad2_open (kern y) = (Inr (), (kern y)\<lparr>dev := (dev (kern y))
      \<lparr>refcount := refcount (dev (kern y)) + 1\<rparr>\<rparr>)"
    by (intro open_alive) (simp_all add: attached_def)
  with assms(2) k \<open>phase y = Bound\<close> show ?thesis
    by (auto simp: with_kern_def sys_inv_def)
qed

lemma inv_ioctl:
  assumes "sys_inv y" "sys_act hw (Ioctl command caller) y = Some z"
  shows "sys_inv z"
proof -
  obtain r k where rk: "run_state (uad2_ioctl hw command caller) (kern y) = (r, k)"
    by (meson surj_pair)
  have z: "z = y\<lparr>kern := k\<rparr>" "files y > 0"
    using assms(2) rk by (simp_all add: with_kern_def split: if_splits)
  have gone: "detached (kern y) \<Longrightarrow> k = kern y"
    using detached_ioctl[of "kern y" hw command caller] rk by simp
  have live: "attached S (kern y) \<Longrightarrow>
      attached S k \<and> refcount (dev k) = refcount (dev (kern y))" for S
    using wp_runD[OF attached_ioctl rk] by blast
  show ?thesis
  proof (cases "phase y")
    case Absent
    then show ?thesis using assms(1) z gone by (simp add: sys_inv_def)
  next
    case Bound
    then show ?thesis using assms(1) z live[of all_resources] by (simp add: sys_inv_def)
  next
    case Deregistered
    then show ?thesis
      using assms(1) z live[of "insert NameString mapped"] by (simp add: sys_inv_def)
  next
    case Detached
    then show ?thesis using assms(1) z gone by (simp add: sys_inv_def)
  qed
qed

lemma inv_close:
  assumes "sys_inv y" "sys_act hw Close y = Some z"
  shows "sys_inv z"
proof (cases "refcount (dev (kern y)) > 1")
  case True
  have "files y > 0" using assms(2) by (simp split: if_splits)
  then have "z = y\<lparr>kern := (kern y)\<lparr>dev := (dev (kern y))
      \<lparr>refcount := refcount (dev (kern y)) - 1\<rparr>\<rparr>, files := files y - 1\<rparr>"
    using assms(2) kref_put_more[OF True] by (simp add: with_kern_def uad2_release_def)
  with True assms(1) \<open>files y > 0\<close> show ?thesis
    by (cases "phase y") (auto simp: sys_inv_def)
next
  case False
  have f: "files y > 0" using assms(2) by (simp split: if_splits)
  with False assms(1) have y: "phase y = Absent" "files y = 1" "detached (kern y)"
    "refcount (dev (kern y)) = 1"
    by (auto simp: sys_inv_def split: phase.splits)
  obtain u k where rk: "run_state kref_put (kern y) = (u, k)" by (meson surj_pair)
  have "clean (log k)" using wp_runD[OF kref_put_last[OF detached_unwind[OF y(3,4)]] rk] by simp
  with assms(2) rk y show ?thesis
    by (auto simp: with_kern_def uad2_release_def sys_inv_def)
qed

lemma inv_deregister:
  assumes "sys_inv y" "sys_act hw Deregister y = Some z"
  shows "sys_inv z"
proof -
  have p: "phase y = Bound" using assms(2) by (simp split: if_splits)
  let ?k = "kern y"
  have k: "bound ?k" "refcount (dev ?k) = files y + 1" using assms(1) p by (simp_all add: sys_inv_def)
  have w: "world (insert NameString mapped) (Release MiscDev # log ?k)"
    using world_release[of all_resources "log ?k" MiscDev] k(1)
    by (simp add: attached_def nested_set_def insert_Diff_if)
  have "published (Release MiscDev # log ?k) d = published (log ?k) d" for d
    by (simp add: published_def)
  then have "running (Release MiscDev # log ?k) = running (log ?k)" by (simp add: running_def)
  then have "attached (insert NameString mapped) (?k\<lparr>log := Release MiscDev # log ?k\<rparr>)"
    using k(1) w world_safe[OF w] world_mapped[OF w]
    by (simp add: attached_def drv_inv_def pages_live_def pages_match_def del: always.simps)
  then show ?thesis
    using assms(2) p k(2) by (auto simp: with_kern_def remove_deregister_def sys_inv_def)
qed

lemma inv_detach:
  assumes "sys_inv y" "sys_act hw Detach y = Some z"
  shows "sys_inv z"
proof -
  have p: "phase y = Deregistered" using assms(2) by (simp split: if_splits)
  then have k: "attached (insert NameString mapped) (kern y)"
    "refcount (dev (kern y)) = files y + 1" using assms(1) by (simp_all add: sys_inv_def)
  obtain r k' where rk: "run_state (remove_locked hw) (kern y) = (r, k')" by (meson surj_pair)
  from wp_runD[OF remove_locked_spec[OF k(1)] rk] assms(2) p k(2) rk show ?thesis
    by (auto simp: with_kern_def sys_inv_def)
qed

lemma inv_put:
  assumes "sys_inv y" "sys_act hw PutDevice y = Some z"
  shows "sys_inv z"
proof -
  have p: "phase y = Detached" using assms(2) by (simp split: if_splits)
  then have k: "detached (kern y)" "refcount (dev (kern y)) = files y + 1"
    using assms(1) by (simp_all add: sys_inv_def)
  obtain u k' where rk: "run_state kref_put (kern y) = (u, k')" by (meson surj_pair)
  show ?thesis
  proof (cases "files y = 0")
    case True
    have "clean (log k')" using wp_runD[OF kref_put_last[OF detached_unwind] rk] k True by simp
    with assms(2) p rk True show ?thesis by (auto simp: with_kern_def sys_inv_def)
  next
    case False
    then have "k' = (kern y)\<lparr>dev := (dev (kern y))\<lparr>refcount := files y\<rparr>\<rparr>"
      using kref_put_more[of "kern y"] k rk by simp
    with assms(2) p rk k False show ?thesis by (auto simp: with_kern_def sys_inv_def)
  qed
qed

lemma sys_inv_step:
  assumes "sys_inv y" "sys_act hw a y = Some z"
  shows "sys_inv z"
proof (cases a)
  case (Probe env)
  then have "phase y = Absent" "files y = 0" using assms(2) by (simp_all split: if_splits)
  with assms Probe show ?thesis by (intro inv_probe[of y hw env z]) (simp_all add: sys_inv_def)
qed (use assms inv_open inv_ioctl inv_close inv_deregister inv_detach inv_put in blast)+

lemma sys_inv_init: "sys_inv sys_init"
  by (simp add: sys_inv_def sys_init_def clean_Nil)

lemma reachable_inv: "reachable hw y \<Longrightarrow> sys_inv y"
  by (induction rule: reachable.induct) (auto intro: sys_inv_init sys_inv_step)

lemma sys_inv_world: "sys_inv y \<Longrightarrow> \<exists>S. world S (log (kern y))"
  by (cases "phase y") (auto simp: sys_inv_def attached_def detached_def clean_def split: if_splits)

section \<open>Exactly which error a probe returns\<close>

text \<open>The first failing requirement, in the order of the code; \<open>cold\<close> is the cold-state check.\<close>

definition alloc_all :: "(nat \<Rightarrow> nat \<Rightarrow> nat \<Rightarrow> u64 option) \<Rightarrow> bool" where
  "alloc_all alloc \<longleftrightarrow> (\<forall>(d, r, p) \<in> set (ring_words 4). alloc d r p \<noteq> None)"

definition probe_error :: "probe_env \<Rightarrow> bool \<Rightarrow> errno option" where
  "probe_error env cold =
     (if page_size env \<noteq> 4096 then Some EOPNOTSUPP
      else if bar0_len env \<noteq> 0x10000 then Some EINVAL
      else if \<not> kzalloc_ok env then Some ENOMEM
      else if enable_device_mem env \<noteq> 0 then Some (Callee (enable_device_mem env))
      else if request_region env \<noteq> 0 then Some (Callee (request_region env))
      else if set_dma_mask env \<noteq> 0 then Some (Callee (set_dma_mask env))
      else if \<not> iomap_ok env then Some ENOMEM
      else if \<not> cold then Some EBUSY
      else if \<not> alloc_all (dma_alloc_coherent env) then Some ENOMEM
      else if \<not> kasprintf_ok env then Some ENOMEM
      else if misc_register env \<noteq> 0 then Some (Callee (misc_register env))
      else None)"

lemma label_results:
  "fst (run_state (put_device e) s) = Inl e"
  "fst (run_state (disable_device e) s) = Inl e"
  "fst (run_state (release_region e) s) = Inl e"
  "fst (run_state (unmap_bar e) s) = Inl e"
  "fst (run_state (free_pages e) s) = Inl e"
  by (simp_all add: free_pages_def unmap_bar_def release_region_def disable_device_def
      put_device_def split_beta)

lemma wp_label_results:
  assumes "m \<in> {put_device e, disable_device e, release_region e, unmap_bar e, free_pages e}"
  shows "wp m (\<lambda>r t. r = Inl e) s"
  using assms label_results[of e s] by (auto simp: wp_run)

lemma allocate_pages_result:
  "wp (uad2_allocate_pages alloc)
     (\<lambda>r t. r = (if alloc_all alloc then Inr () else Inl ENOMEM)) s"
proof -
  let ?f = "\<lambda>(d, r, p). (case alloc d r p of
         None \<Rightarrow> State_Monad.return (Inl ENOMEM)
       | Some a \<Rightarrow> do { emit (DmaAlloc d r p a);
           set_dev (set_page d r p \<lparr>cpu = True, dma = a\<rparr>);
           emit (ZeroPage d r p); State_Monad.return (Inr ()) })"
  have "wp (try_each xs ?f) (\<lambda>r t. r = (if list_all (\<lambda>(d, r, p). alloc d r p \<noteq> None) xs
      then Inr () else Inl ENOMEM)) s" for xs s
  proof (induction xs arbitrary: s)
    case (Cons x xs)
    obtain d r p where "x = (d, r, p)" by (cases x)
    then show ?case using Cons.IH by (cases "alloc d r p") (auto simp: wp_simps)
  qed (simp add: wp_simps)
  then show ?thesis
    by (simp add: uad2_allocate_pages_def try_each_ring_words alloc_all_def list_all_iff)
qed

lemma probe_register_result:
  "wp (probe_register env) (\<lambda>r t. r =
     (if \<not> kasprintf_ok env then Inl ENOMEM
      else if misc_register env \<noteq> 0 then Inl (Callee (misc_register env)) else Inr ())) s"
  using wp_label_results[of "free_pages e" e for e]
  by (auto simp: probe_register_def wp_simps)

definition error_result :: "errno option \<Rightarrow> unit result" where
  "error_result e = (case e of None \<Rightarrow> Inr () | Some e \<Rightarrow> Inl e)"

lemma probe_map_result:
  assumes "quiesced (log s)" "list_all store_ok (log s)" "page_size env = 4096"
    "bar0_len env = 0x10000" "kzalloc_ok env" "enable_device_mem env = 0"
    "request_region env = 0" "set_dma_mask env = 0"
  shows "wp (probe_map hw env) (\<lambda>r t. \<exists>cold. (octo_hw hw \<longrightarrow> cold) \<and>
     r = error_result (probe_error env cold)) s"
proof -
  let ?s = "s\<lparr>log := Acquire BarMap # log s, dev := (dev s)\<lparr>bar := True\<rparr>\<rparr>"
  let ?P = "\<lambda>r t. \<exists>cold. (octo_hw hw \<longrightarrow> cold) \<and> r = error_result (probe_error env cold)"
  have "passes ?s (uad2_cold_precondition hw)" if "octo_hw hw"
    using that assms by (intro passes_cold) simp_all
  from passes_kscan[OF this kscan_cold]
  have cold: "wp (uad2_cold_precondition hw) (\<lambda>b t. octo_hw hw \<longrightarrow> b) ?s"
    by (auto simp: wp_run)
  have alloc: "wp (do { r \<leftarrow> uad2_allocate_pages (dma_alloc_coherent env);
            case r of Inl e \<Rightarrow> free_pages e | Inr _ \<Rightarrow> probe_register env }) ?P t"
    if "iomap_ok env" for t
    unfolding wp_bind
  proof (rule wp_mono[OF allocate_pages_result])
    fix r u
    assume "r = (if alloc_all (dma_alloc_coherent env) then Inr () else Inl ENOMEM)"
    then show "wp (case r of Inl e \<Rightarrow> free_pages e | Inr _ \<Rightarrow> probe_register env) ?P u"
      using that assms(3-) wp_label_results[of "free_pages ENOMEM" ENOMEM u]
        probe_register_result[of env u]
      by (auto simp: probe_error_def error_result_def elim!: wp_mono intro!: exI[of _ True])
  qed
  show ?thesis
  proof (cases "iomap_ok env")
    case True
    have step: "wp (if \<not> b then unmap_bar EBUSY
        else do { r \<leftarrow> uad2_allocate_pages (dma_alloc_coherent env);
                  case r of Inl e \<Rightarrow> free_pages e | Inr _ \<Rightarrow> probe_register env }) ?P t"
      if "octo_hw hw \<longrightarrow> b" for b t
      using that alloc[OF True, of t] assms(3-) True wp_label_results[of "unmap_bar EBUSY" EBUSY t]
      by (cases b) (auto simp: probe_error_def error_result_def elim!: wp_mono
          intro!: exI[of _ False])
    have "wp (uad2_cold_precondition hw) (\<lambda>b. wp (if \<not> b then unmap_bar EBUSY
        else do { r \<leftarrow> uad2_allocate_pages (dma_alloc_coherent env);
                  case r of Inl e \<Rightarrow> free_pages e | Inr _ \<Rightarrow> probe_register env }) ?P) ?s"
      by (rule wp_mono[OF cold]) (rule step)
    with True show ?thesis by (simp add: probe_map_def wp_simps)
  next
    case False
    then show ?thesis
      using assms(3-) wp_label_results[of "release_region ENOMEM" ENOMEM s]
      by (auto simp: probe_map_def probe_error_def error_result_def elim!: wp_mono
          intro!: exI[of _ True])
  qed
qed

lemma probe_result:
  assumes "clean (log s)"
  shows "wp (uad2_probe hw env) (\<lambda>r t. \<exists>cold. (octo_hw hw \<longrightarrow> cold) \<and>
     r = error_result (probe_error env cold)) s"
proof -
  define P where "P = (\<lambda>r (t :: kstate). \<exists>cold. (octo_hw hw \<longrightarrow> cold) \<and>
     r = error_result (probe_error env cold))"
  have early: "P (Inl e) t" if "probe_error env True = Some e" for e t
    using that by (auto simp: P_def error_result_def intro!: exI[of _ True])
  have label: "wp m P t"
    if "probe_error env True = Some e"
      "m \<in> {put_device e, disable_device e, release_region e, unmap_bar e, free_pages e}" for m e t
    using wp_label_results[OF that(2), of t] early[OF that(1)] by (auto elim!: wp_mono)
  have map: "wp (probe_map hw env) P t"
    if "quiesced (log t)" "list_all store_ok (log t)" "page_size env = 4096"
    "bar0_len env = 0x10000" "kzalloc_ok env" "enable_device_mem env = 0"
    "request_region env = 0" "set_dma_mask env = 0" for t
    unfolding P_def by (rule probe_map_result[OF that])
  have "quiesced (log s)" "list_all store_ok (log s)"
    using assms by (simp_all add: clean_def world_def)
  then have "wp (uad2_probe hw env) P s"
    by (simp add: uad2_probe_def wp_simps UAD2_RING_PAGE_BYTES_def UAD2_BAR0_SIZE_def)
      (intro conjI impI early label map; (simp add: probe_error_def; fail)?; blast)
  then show ?thesis by (simp add: P_def)
qed

section \<open>A concrete card and a concrete run\<close>

text \<open>
  A host on which every service succeeds, and, on the concrete card \<open>octo_card\<close>, the state after binding the card and opening the device once.
\<close>

definition demo_env :: probe_env where
  "demo_env = \<lparr>page_size = 4096, bar0_len = 0x10000,
     probe_pdev = \<lparr>vendor = 0x1a00, device = 2, subsystem_vendor = 0x1a00,
       subsystem_device = 5\<rparr>,
     kzalloc_ok = True, enable_device_mem = 0, request_region = 0, set_dma_mask = 0,
     iomap_ok = True,
     dma_alloc_coherent = (\<lambda>d r p. Some (0x100000000 + of_nat (d * 8 + r * 4 + p) * 4096)),
     kasprintf_ok = True, misc_register = 0\<rparr>"

definition demo_sys :: sys where
  "demo_sys = the (run_actions octo_card [Probe demo_env, Open] sys_init)"

lemma demo_run:
  "\<exists>z. run_actions octo_card [Probe demo_env, Open] sys_init = Some z \<and> phase z = Bound \<and>
     files z = 1 \<and> \<not> started (dev (kern z))"
proof -
  obtain r k where rk: "run_state (uad2_probe octo_card demo_env) (kern sys_init) = (r, k)"
    by (meson surj_pair)
  have c: "clean (log (kern sys_init))" by (simp add: sys_init_def clean_Nil)
  have "probe_error demo_env True = None"
    by (simp add: probe_error_def demo_env_def alloc_all_def)
  then have "r = Inr ()"
    using wp_runD[OF probe_result[OF c] rk] octo_card_octo by (auto simp: error_result_def)
  then have k: "bound k" "refcount (dev k) = 1" "\<not> started (dev k)"
    using wp_runD[OF probe_spec[OF c] rk] by simp_all
  then have "run_state uad2_open k = (Inr (), k\<lparr>dev := (dev k)\<lparr>refcount := 2\<rparr>\<rparr>)"
    using open_alive[of k] by (simp add: attached_def numeral_2_eq_2)
  with rk \<open>r = Inr ()\<close> k show ?thesis
    by (simp add: with_kern_def sys_init_def)
qed

lemma demo_sys:
  "reachable octo_card demo_sys" "phase demo_sys = Bound" "files demo_sys = 1"
  "\<not> started (dev (kern demo_sys))"
  using demo_run run_actions_reachable[OF _ reachable.init]
  by (auto simp: demo_sys_def simp del: run_actions.simps)

lemma reachable_bound: "reachable hw y \<Longrightarrow> phase y = Bound \<Longrightarrow> bound (kern y)"
  using reachable_inv[of hw y] by (simp add: sys_inv_def)

lemma boundD:
  assumes "bound s"
  shows "drv_inv s" "list_all store_ok (log s)" "\<not> lock_held (dev s)" "\<not> removing (dev s)"
  using assms by (simp_all add: attached_def world_def)

text \<open>What each phase says about the reference count and the resources.\<close>

lemma world_held: "world S h \<Longrightarrow> held h x = of_bool (x \<in> S)"
  by (simp add: world_def holds_def)

lemma quiesced_master: "quiesced h \<Longrightarrow> \<not> bus_master h"
  by (simp add: quiesced_def)

lemma clean_resources:
  "clean h \<Longrightarrow> held h x = 0 \<and> live_page h = (\<lambda>_ _ _. None) \<and> \<not> bus_master h"
  using world_held[of "{}" h x] quiesced_master by (simp add: clean_def)

lemma attached_alive:
  "attached S s \<Longrightarrow> DeviceMem \<in> S \<Longrightarrow> held (log s) DeviceMem = 1 \<and> \<not> lock_held (dev s)"
  using world_held[of S "log s" DeviceMem] by (simp add: attached_def)

lemma detached_alive: "detached s \<Longrightarrow> held (log s) DeviceMem = 1 \<and> \<not> lock_held (dev s)"
  using world_held[of "{NameString, DeviceMem}" "log s" DeviceMem] by (simp add: detached_def)

section \<open>A run that starts the transport\<close>

definition root :: caller where
  "root = \<lparr>cap_sys_rawio = True,
     status_in = Some \<lparr>st_size = 64, st_dsp_index = 5, st_raw_ready_word = 0, st_ready = 0,
       st_dma_enabled = 0, st_command_read_index = 0, st_command_write_index = 0,
       st_response_read_index = 0, st_response_write_index = 0, st_reserved = replicate 7 0\<rparr>,
     reset_in = Some \<lparr>rst_size = 40, rst_dsp_index = 5, rst_flags = 0, rst_ready_after = 0,
       rst_dma_control_before = 0, rst_dma_control_after = 0, rst_reserved = replicate 4 0\<rparr>,
     copy_out = True\<rparr>"

definition demo_started :: sys where
  "demo_started = the (sys_act octo_card (Ioctl UAD2_COMPUTE_IOC_START_TRANSPORT root) demo_sys)"

lemma ioctl_start_run:
  assumes "octo_hw hw" "bound s" "cap_sys_rawio caller"
  shows "wp (uad2_ioctl hw UAD2_COMPUTE_IOC_START_TRANSPORT caller) (\<lambda>r t. r = (Inr (), NoOut) \<and>
     bound t \<and> started (dev t) \<and> running (log t)) s"
proof -
  let ?s = "s\<lparr>dev := (dev s)\<lparr>lock_held := True\<rparr>\<rparr>"
  have s: "drv_inv ?s" "list_all store_ok (log ?s)" "\<not> removing (dev s)"
    using boundD[OF assms(2)] by simp_all
  have sw: "ioctl_switch hw UAD2_COMPUTE_IOC_START_TRANSPORT caller =
      do { r \<leftarrow> uad2_start_locked hw; State_Monad.return (r, NoOut) }"
    using assms(3) by (simp add: ioctl_switch_def ioc_values ioctl_privileged_def)
  have "wp (uad2_start_locked hw) (\<lambda>r t. r = Inr () \<and> started (dev t)) ?s"
    using start_succeeds[OF assms(1) s(1,2)] start_spec[OF s(1), of hw] by (auto simp: wp_run)
  then have "wp (uad2_ioctl hw UAD2_COMPUTE_IOC_START_TRANSPORT caller) (\<lambda>r t.
      r = (Inr (), NoOut) \<and> started (dev t)) s"
    using s(3) by (auto simp: uad2_ioctl_def ioc_types wp_simps sw elim!: wp_mono)
  moreover have "wp (uad2_ioctl hw UAD2_COMPUTE_IOC_START_TRANSPORT caller) (\<lambda>r t. bound t) s"
    by (rule wp_mono[OF attached_ioctl[OF assms(2)]]) simp
  ultimately show ?thesis
    by (auto simp: wp_run attached_def drv_inv_def)
qed

lemma ioctl_stop_run:
  assumes "octo_hw hw" "bound s" "cap_sys_rawio caller"
  shows "wp (uad2_ioctl hw UAD2_COMPUTE_IOC_STOP_TRANSPORT caller) (\<lambda>r t. r = (Inr (), NoOut) \<and>
     bound t \<and> \<not> started (dev t) \<and> quiesced (log t)) s"
proof -
  let ?s = "s\<lparr>dev := (dev s)\<lparr>lock_held := True\<rparr>\<rparr>"
  have s: "drv_inv ?s" "list_all store_ok (log ?s)" "\<not> removing (dev s)"
    using boundD[OF assms(2)] by simp_all
  have sw: "ioctl_switch hw UAD2_COMPUTE_IOC_STOP_TRANSPORT caller =
      do { r \<leftarrow> uad2_stop_locked hw; State_Monad.return (r, NoOut) }"
    using assms(3) by (simp add: ioctl_switch_def ioc_values ioctl_privileged_def)
  have "wp (uad2_stop_locked hw) (\<lambda>r t. r = Inr () \<and> \<not> started (dev t)) ?s"
    using stop_succeeds[OF assms(1) s(1,2)] stop_spec[OF s(1), of hw] by (auto simp: wp_run)
  then have "wp (uad2_ioctl hw UAD2_COMPUTE_IOC_STOP_TRANSPORT caller) (\<lambda>r t.
      r = (Inr (), NoOut) \<and> \<not> started (dev t)) s"
    using s(3) by (auto simp: uad2_ioctl_def ioc_types wp_simps sw elim!: wp_mono)
  moreover have "wp (uad2_ioctl hw UAD2_COMPUTE_IOC_STOP_TRANSPORT caller) (\<lambda>r t. bound t) s"
    by (rule wp_mono[OF attached_ioctl[OF assms(2)]]) simp
  ultimately show ?thesis
    by (auto simp: wp_run attached_def drv_inv_def)
qed

lemma demo_started:
  "reachable octo_card demo_started" "phase demo_started = Bound" "files demo_started = 1"
  "started (dev (kern demo_started))" "running (log (kern demo_started))"
proof -
  obtain r k where rk: "run_state (uad2_ioctl octo_card UAD2_COMPUTE_IOC_START_TRANSPORT root)
      (kern demo_sys) = (r, k)" by (meson surj_pair)
  have act: "sys_act octo_card (Ioctl UAD2_COMPUTE_IOC_START_TRANSPORT root) demo_sys =
      Some (demo_sys\<lparr>kern := k\<rparr>)"
    using rk demo_sys(3) by (simp add: with_kern_def)
  then have d: "demo_started = demo_sys\<lparr>kern := k\<rparr>" by (simp add: demo_started_def)
  show "reachable octo_card demo_started"
    unfolding d by (rule reachable.step[OF demo_sys(1) act])
  show "phase demo_started = Bound" "files demo_started = 1" using demo_sys by (simp_all add: d)
  have "cap_sys_rawio root" by (simp add: root_def)
  from wp_runD[OF ioctl_start_run[OF octo_card_octo reachable_bound[OF demo_sys(1,2)] this] rk]
  show "started (dev (kern demo_started))" "running (log (kern demo_started))"
    by (simp_all add: d)
qed

section \<open>The reset pulse\<close>

definition pulse_values :: "nat \<Rightarrow> u32 list" where
  "pulse_values d =
     [(UAD2_DMA_ALL_DSPS AND NOT (push_bit (d + 1) 1)) OR push_bit (d + 9) 1,
      UAD2_DMA_ALL_DSPS AND NOT (push_bit (d + 1) 1), UAD2_DMA_ALL_DSPS]"

lemma reset_writes:
  "wp (uad2_reset_dsp_locked hw reset) (\<lambda>r t.
     writes (log t) = writes (log s) \<or>
     unat (rst_dsp_index reset) < 8 \<and> writes (log t) = writes (log s) @
       map (\<lambda>v. (UAD2_DMA_CONTROL, v)) (pulse_values (unat (rst_dsp_index reset)))) s"
  using index_nat[of "rst_dsp_index reset"]
  by (auto simp: uad2_reset_dsp_locked_def wp_simps Let_def pulse_values_def not_le)

text \<open>Bits of the three values: enables are bits 1 to 8, resets bits 9 to 16.\<close>

lemma all_dsps_bits: "bit UAD2_DMA_ALL_DSPS n \<longleftrightarrow> n < 9"
proof -
  have "bit UAD2_DMA_ALL_DSPS n \<longleftrightarrow> bit (mask 9 :: u32) n" by (simp add: mask_eq_decr_exp)
  also have "\<dots> \<longleftrightarrow> n < 9" unfolding bit_mask_iff by auto
  finally show ?thesis .
qed

lemma pulse_bits:
  assumes "d < 8"
  shows "list_all (\<lambda>v. \<forall>e\<in>{0..<8} - {d}. bit v (e + 1)) (pulse_values d)"
    "map (\<lambda>v. bit v (d + 1)) (pulse_values d) = [False, False, True]"
    "map (\<lambda>v. filter (bit v) [9..<17]) (pulse_values d) = [[d + 9], [], []]"
proof -
  have one: "bit (push_bit k 1 :: u32) n \<longleftrightarrow> n = k \<and> k < 32" for k n by (rule bit_one_shift)
  show "list_all (\<lambda>v. \<forall>e\<in>{0..<8} - {d}. bit v (e + 1)) (pulse_values d)"
    "map (\<lambda>v. bit v (d + 1)) (pulse_values d) = [False, False, True]"
    using assms
    by (auto simp: pulse_values_def bit_or_iff bit_and_iff bit_not_iff one all_dsps_bits
        simp del: UAD2_DMA_ALL_DSPS_def push_bit_of_1 push_bit_Suc)
  have v: "bit v n = (n = d + 9)" if "n \<in> set [9..<17]"
    "v = (UAD2_DMA_ALL_DSPS AND NOT (push_bit (d + 1) 1)) OR push_bit (d + 9) 1" for n v
    using that assms by (auto simp: bit_or_iff bit_and_iff one all_dsps_bits
        simp del: UAD2_DMA_ALL_DSPS_def push_bit_of_1)
  have "filter (\<lambda>n. n = d + 9) [9..<17] = [d + 9]"
  proof -
    have "d = 0 \<or> d = 1 \<or> d = 2 \<or> d = 3 \<or> d = 4 \<or> d = 5 \<or> d = 6 \<or> d = 7" using assms by arith
    then show ?thesis by (auto simp: upt_rec)
  qed
  moreover have "filter (bit ((UAD2_DMA_ALL_DSPS AND NOT (push_bit (d + 1) 1)) OR
      push_bit (d + 9) 1)) [9..<17] = filter (\<lambda>n. n = d + 9) [9..<17]"
    by (rule filter_cong[OF refl]) (rule v[OF _ refl])
  moreover have "filter (bit (UAD2_DMA_ALL_DSPS AND NOT (push_bit (d + 1) 1))) [9..<17] = []"
    "filter (bit UAD2_DMA_ALL_DSPS) [9..<17] = []"
    by (simp_all add: filter_empty_conv bit_and_iff all_dsps_bits del: UAD2_DMA_ALL_DSPS_def)
  ultimately show "map (\<lambda>v. filter (bit v) [9..<17]) (pulse_values d) = [[d + 9], [], []]"
    by (simp add: pulse_values_def del: UAD2_DMA_ALL_DSPS_def upt_rec_numeral)
qed

lemma ioctl_reset_run:
  assumes "octo_hw hw" "bound s" "started (dev s)" "cap_sys_rawio caller" "copy_out caller"
    and "reset_in caller = Some reset" "rst_size reset = 40" "rst_dsp_index reset < 8"
    and "rst_flags reset = 0"
  shows "wp (uad2_ioctl hw UAD2_COMPUTE_IOC_RESET_DSP caller) (\<lambda>r t. r = (Inr (), OutReset (reset
     \<lparr>rst_reserved := replicate 4 0, rst_dma_control_before := 0x1ff,
      rst_dma_control_after := 0x1ff, rst_ready_after := 1\<rparr>)) \<and> bound t \<and> started (dev t)) s"
proof -
  let ?s = "s\<lparr>dev := (dev s)\<lparr>lock_held := True\<rparr>\<rparr>"
  let ?in = "reset\<lparr>rst_reserved := replicate 4 0\<rparr>"
  have s: "drv_inv ?s" "\<not> removing (dev s)" "started (dev ?s)"
    using boundD[OF assms(2)] assms(3) by simp_all
  have sw: "ioctl_switch hw UAD2_COMPUTE_IOC_RESET_DSP caller =
      do { (r, out) \<leftarrow> uad2_reset_dsp_locked hw ?in;
           State_Monad.return (case r of Inl e \<Rightarrow> (Inl e, NoOut)
             | Inr _ \<Rightarrow> copy_to_user caller (OutReset out)) }"
    using assms(4,6,7) by (simp add: ioctl_switch_def ioc_values ioctl_reset_dsp_def sizeof_reset_def)
  have "rst_dsp_index ?in < 8" "rst_flags ?in = 0" using assms(8,9) by simp_all
  from reset_succeeds[OF assms(1) s(1,3) this] reset_spec[OF s(1), of hw ?in] s(3)
  have "wp (uad2_reset_dsp_locked hw ?in) (\<lambda>(r, out) t. r = Inr () \<and> started (dev t) \<and>
      out = ?in\<lparr>rst_dma_control_before := 0x1ff, rst_dma_control_after := 0x1ff,
        rst_ready_after := 1\<rparr>) ?s"
    by (auto simp: wp_run split_beta)
  then have "wp (uad2_ioctl hw UAD2_COMPUTE_IOC_RESET_DSP caller) (\<lambda>r t. r = (Inr (), OutReset (reset
     \<lparr>rst_reserved := replicate 4 0, rst_dma_control_before := 0x1ff,
      rst_dma_control_after := 0x1ff, rst_ready_after := 1\<rparr>)) \<and> started (dev t)) s"
    using s(2) assms(5)
    by (auto simp: uad2_ioctl_def ioc_types wp_simps sw copy_to_user_def split_beta elim!: wp_mono)
  moreover have "wp (uad2_ioctl hw UAD2_COMPUTE_IOC_RESET_DSP caller) (\<lambda>r t. bound t) s"
    by (rule wp_mono[OF attached_ioctl[OF assms(2)]]) simp
  ultimately show ?thesis by (auto simp: wp_run)
qed

end
