(* ===== verification/Kernel_Properties.thy ===== *)
theory Kernel_Properties
  imports Kernel_System
begin

text \<open>
  The properties of \<^verbatim>\<open>kernel/uad2_compute.c\<close>: what holds in every execution of the driver
  whatever the card answers, what the transport operations store and return, the ioctl
  interface, and probe and remove. The witnesses run
  them on the concrete card and host of \<^verbatim>\<open>Kernel_System\<close>.
\<close>

section \<open>Every execution\<close>

text \<open>
  C1. DMA safety. In every state the driver can reach, for every card and every interleaving of
  opens, ioctls, closes and removal, at every past instant: a DSP's DMA engine was enabled only
  while both its rings held the addresses of live coherent pages the driver owned, every load
  and store hit the mapped BAR0 inside its 64 KiB, and \<^verbatim>\<open>memset\<close> touched owned pages only.
\<close>

theorem dma_safety:
  assumes "reachable hw y"
  shows "always dma_safe (log (kern y))"
  using sys_inv_world[OF reachable_inv[OF assms]] by (auto simp: world_def)

theorem dma_safety_witness: "reachable octo_card demo_sys \<and> always dma_safe (log (kern demo_sys))"
  using dma_safety[OF demo_sys(1)] demo_sys(1) by simp

text \<open>
  C2. Resource order. At every instant of every execution no resource is held twice or released
  unheld, and each is held only while the ones it depends on are: the misc device only while
  BAR0 is mapped and its name exists, the mapping only inside the region, the region only while
  the PCI device is enabled, all of it only while the device structure is allocated.
\<close>

theorem resources_nested:
  assumes "reachable hw y"
  shows "always nested (log (kern y))"
  using sys_inv_world[OF reachable_inv[OF assms]] by (auto simp: world_def)

theorem resources_nested_witness: "always nested (log (kern demo_sys))"
  using resources_nested[OF demo_sys(1)] .

text \<open>
  C3. Lifetime. In every reachable state the reference count is the number of open files plus
  the driver's own reference; while it is positive the device structure is allocated (no use
  after free by an ioctl or a close), and once it is zero everything acquired has been released,
  no coherent page is left and bus mastering is off (no leak).
\<close>

theorem lifetime:
  assumes "reachable hw y"
  shows "(if files y = 0 \<and> phase y = Absent
      then (\<forall>x. held (log (kern y)) x = 0) \<and> live_page (log (kern y)) = (\<lambda>_ _ _. None) \<and>
           \<not> bus_master (log (kern y))
      else held (log (kern y)) DeviceMem = 1 \<and> \<not> lock_held (dev (kern y)) \<and>
           refcount (dev (kern y)) = files y + (if phase y = Absent then 0 else 1))"
proof (cases "phase y")
  case Absent
  then show ?thesis
    using reachable_inv[OF assms] clean_resources[of "log (kern y)"] detached_alive[of "kern y"]
    by (simp add: sys_inv_def split: if_splits)
qed (use reachable_inv[OF assms] attached_alive[of all_resources "kern y"]
    attached_alive[of "insert NameString mapped" "kern y"] detached_alive[of "kern y"]
    in \<open>simp_all add: sys_inv_def\<close>)

theorem lifetime_witness:
  "held (log (kern demo_sys)) DeviceMem = 1 \<and> refcount (dev (kern demo_sys)) = 2"
  using lifetime[OF demo_sys(1)] demo_sys(2,3) by simp

text \<open>
  C4. Store policy. The only registers the driver ever stores to are DMA control, interrupt
  enable (only zero), interrupt acknowledge, notification control (only zero) and the first ten
  words of the sixteen rings.
\<close>

theorem store_policy:
  assumes "reachable hw y"
  shows "list_all (\<lambda>(a, v). store_allowed a v) (writes (log (kern y)))"
proof -
  have "list_all store_ok h \<Longrightarrow> list_all (\<lambda>(a, v). store_allowed a v) (writes h)" for h
  proof (induction h)
    case (Cons e h) then show ?case by (cases e) auto
  qed simp
  with sys_inv_world[OF reachable_inv[OF assms]] show ?thesis by (auto simp: world_def)
qed

theorem store_policy_witness:
  "list_all (\<lambda>(a, v). store_allowed a v) (writes (log (kern demo_started)))"
  using store_policy[OF demo_started(1)] .

section \<open>Transport operations\<close>

text \<open>
  C5. The start sequence. For every card, a start of a stopped device either refuses with EBUSY
  and stores nothing, or stores exactly the documented sequence (quiesce; for each DSP both
  rings, write and wrap index then the four page descriptors low word first, then one more
  engine in DMA control) with every index below 1024, followed by exactly the shutdown
  sequence when the result check fails with EIO.
\<close>

theorem start_stores:
  assumes "drv_inv s" "\<not> started (dev s)"
    and "run_state (uad2_start_locked hw) s = (r, t)"
  shows "(r = Inl EBUSY \<and> writes (log t) = writes (log s)) \<or>
    (\<exists>index. (\<forall>d r. index d r < UAD2_RING_ENTRIES) \<and>
       writes (log t) = writes (log s) @ start_writes index (page_addr s) @
         (if r = Inl EIO then shutdown_writes else []))"
  by (rule wp_runD[OF start_writes_exact[OF assms(1,2)] assms(3)])

theorem start_stores_witness:
  "\<exists>index. writes (log (snd (run_state (uad2_start_locked octo_card) (kern demo_sys)))) =
     writes (log (kern demo_sys)) @ start_writes index (page_addr (kern demo_sys))"
proof -
  note b = boundD[OF reachable_bound[OF demo_sys(1,2)]]
  obtain r t where rt: "run_state (uad2_start_locked octo_card) (kern demo_sys) = (r, t)"
    by (meson surj_pair)
  have "r = Inr ()" using wp_runD[OF start_succeeds[OF octo_card_octo b(1,2)] rt] .
  with start_stores[OF b(1) demo_sys(4) rt] rt show ?thesis by auto
qed

text \<open>
  C6. A failed start leaves the card as it found it. For every card, when start returns an
  error the device is not started, bus mastering is off, DMA control was last stored the cold
  value or never, and every descriptor and index word was last stored zero or never.
\<close>

theorem failed_start_quiesced:
  assumes "drv_inv s" "run_state (uad2_start_locked hw) s = (Inl e, t)"
  shows "drv_inv t \<and> \<not> started (dev t) \<and> quiesced (log t) \<and> e \<in> {EBUSY, EIO}"
proof -
  have "drv_inv t \<and> \<not> started (dev t) \<and> (e = EBUSY \<or> e = EIO)"
    using wp_runD[OF start_spec[OF assms(1)] assms(2)] by auto
  then show ?thesis by (simp add: drv_inv_def)
qed

text \<open>A card whose every register reads zero: each start on it is refused.\<close>

theorem failed_start_quiesced_witness:
  "\<exists>t. run_state (uad2_start_locked (\<lambda>_ _. 0)) (kern demo_sys) = (Inl EBUSY, t) \<and>
     quiesced (log t)"
proof -
  have "\<exists>t. run_state (uad2_start_locked (\<lambda>_ _. 0)) (kern demo_sys) = (Inl EBUSY, t)"
    using demo_sys(4)
    by (simp add: uad2_start_locked_def uad2_cold_precondition_def and_m_def reads_as_def
        uad2_read_def)
  with failed_start_quiesced[OF boundD(1)[OF reachable_bound[OF demo_sys(1,2)]]]
  show ?thesis by blast
qed

text \<open>
  C7. Start, then stop, work. On a card that answers as documented, in every reachable state in
  which the device is bound, a privileged start succeeds and leaves the eight engines running
  on published pages, and a stop after it succeeds and leaves the card quiesced.
\<close>

theorem start_stop_succeed:
  assumes "octo_hw hw" "reachable hw y" "phase y = Bound" "cap_sys_rawio caller"
    and "run_state (uad2_ioctl hw UAD2_COMPUTE_IOC_START_TRANSPORT caller) (kern y) = (r, t)"
    and "run_state (uad2_ioctl hw UAD2_COMPUTE_IOC_STOP_TRANSPORT caller) t = (r', u)"
  shows "r = (Inr (), NoOut) \<and> started (dev t) \<and> running (log t) \<and>
    r' = (Inr (), NoOut) \<and> \<not> started (dev u) \<and> quiesced (log u)"
proof -
  note t = wp_runD[OF ioctl_start_run[OF assms(1) reachable_bound[OF assms(2,3)] assms(4)] assms(5)]
  then have "bound t" by simp
  from t wp_runD[OF ioctl_stop_run[OF assms(1) this assms(4)] assms(6)] show ?thesis by simp
qed

theorem start_stop_succeed_witness:
  "\<exists>t u. run_state (uad2_ioctl octo_card UAD2_COMPUTE_IOC_START_TRANSPORT root) (kern demo_sys) =
       ((Inr (), NoOut), t) \<and> started (dev t) \<and>
     run_state (uad2_ioctl octo_card UAD2_COMPUTE_IOC_STOP_TRANSPORT root) t =
       ((Inr (), NoOut), u) \<and> quiesced (log u)"
proof -
  obtain r t where rt: "run_state (uad2_ioctl octo_card UAD2_COMPUTE_IOC_START_TRANSPORT root)
      (kern demo_sys) = (r, t)" by (meson surj_pair)
  obtain r' u where ru: "run_state (uad2_ioctl octo_card UAD2_COMPUTE_IOC_STOP_TRANSPORT root) t =
      (r', u)" by (meson surj_pair)
  have "cap_sys_rawio root" by (simp add: root_def)
  from start_stop_succeed[OF octo_card_octo demo_sys(1,2) this rt ru] rt ru show ?thesis by auto
qed

text \<open>
  C8. Reset isolation. For every card, a reset of one DSP either stores nothing or stores three
  values to DMA control: in each of them every other DSP's engine stays enabled, only the
  addressed DSP's reset bit is ever set, its own engine is off in the first two and on in the
  last, which enables all eight.
\<close>

theorem reset_isolated:
  "\<exists>vs. writes (log (snd (run_state (uad2_reset_dsp_locked hw reset) s))) =
       writes (log s) @ map (\<lambda>v. (UAD2_DMA_CONTROL, v)) vs \<and>
     (let d = unat (rst_dsp_index reset) in
      vs = [] \<or>
      (d < 8 \<and> last vs = UAD2_DMA_ALL_DSPS \<and>
       map (\<lambda>v. bit v (d + 1)) vs = [False, False, True] \<and>
       map (\<lambda>v. filter (bit v) [9..<17]) vs = [[d + 9], [], []] \<and>
       list_all (\<lambda>v. {e. e < 8 \<and> e \<noteq> d} \<subseteq> {e. bit v (e + 1)}) vs))"
proof -
  let ?d = "unat (rst_dsp_index reset)" and ?t = "snd (run_state (uad2_reset_dsp_locked hw reset) s)"
  from reset_writes[of hw reset s]
  consider "writes (log ?t) = writes (log s)"
    | "?d < 8" "writes (log ?t) = writes (log s) @
         map (\<lambda>v. (UAD2_DMA_CONTROL, v)) (pulse_values ?d)"
    by (auto simp: wp_run)
  then show ?thesis
  proof cases
    case 1
    then show ?thesis by (intro exI[of _ "[]"]) simp
  next
    case 2
    have l: "last (pulse_values ?d) = UAD2_DMA_ALL_DSPS" by (simp add: pulse_values_def)
    have a: "list_all (\<lambda>v. {e. e < 8 \<and> e \<noteq> ?d} \<subseteq> {e. bit v (e + 1)}) (pulse_values ?d)"
      using pulse_bits(1)[OF 2(1)] by (auto simp: list_all_iff)
    show ?thesis
      unfolding Let_def
      by (intro exI[of _ "pulse_values ?d"] conjI disjI2) (fact 2 pulse_bits(2,3)[OF 2(1)] l a)+
  qed
qed

text \<open>
  C9. Reset on a running card. On a card that answers as documented, a privileged reset request
  with the right size, a DSP index below eight and no flags succeeds while the transport runs;
  the structure returned keeps the request, has the reserved words cleared, and reports all
  engines enabled before and after and the DSP ready. The transport is still running.
\<close>

theorem reset_succeeds_running:
  assumes "octo_hw hw" "reachable hw y" "phase y = Bound" "started (dev (kern y))"
    and "cap_sys_rawio caller" "copy_out caller" "reset_in caller = Some reset"
    and "rst_size reset = 40" "rst_dsp_index reset < 8" "rst_flags reset = 0"
    and "run_state (uad2_ioctl hw UAD2_COMPUTE_IOC_RESET_DSP caller) (kern y) = (r, t)"
  shows "r = (Inr (), OutReset (reset\<lparr>rst_reserved := replicate 4 0,
      rst_dma_control_before := 0x1ff, rst_dma_control_after := 0x1ff, rst_ready_after := 1\<rparr>)) \<and>
    started (dev t) \<and> running (log t)"
  using wp_runD[OF ioctl_reset_run[OF assms(1) reachable_bound[OF assms(2,3)] assms(4-10)] assms(11)]
  by (simp add: attached_def drv_inv_def)

theorem reset_succeeds_running_witness:
  "\<exists>out. fst (run_state (uad2_ioctl octo_card UAD2_COMPUTE_IOC_RESET_DSP root)
       (kern demo_started)) = (Inr (), OutReset out) \<and> rst_dsp_index out = 5 \<and> rst_ready_after out = 1"
proof -
  obtain r t where rt: "run_state (uad2_ioctl octo_card UAD2_COMPUTE_IOC_RESET_DSP root)
      (kern demo_started) = (r, t)" by (meson surj_pair)
  from reset_succeeds_running[OF octo_card_octo demo_started(1,2,4) _ _ _ _ _ _ rt]
  show ?thesis using rt by (simp add: root_def)
qed

section \<open>The ioctl interface\<close>

text \<open>
  C10. Privilege. For every card, state and command, an ioctl by a process without
  CAP_SYS_RAWIO stores to no register, changes no driver state and adds nothing to the log but
  loads inside the window; start, stop and reset on a bound device return EPERM.
\<close>

theorem unprivileged_reads_only:
  assumes "\<not> cap_sys_rawio caller" "\<not> lock_held (dev s)"
    and "run_state (uad2_ioctl hw command caller) s = (r, t)"
  shows "(\<exists>rs. list_all bar_rd rs \<and> t = s\<lparr>log := rs @ log s\<rparr>) \<and>
    (if command \<in> {UAD2_COMPUTE_IOC_START_TRANSPORT, UAD2_COMPUTE_IOC_STOP_TRANSPORT,
        UAD2_COMPUTE_IOC_RESET_DSP} \<and> \<not> removing (dev s) then fst r = Inl EPERM else True)"
  using wp_runD[OF ioctl_unprivileged[OF assms(1,2)] assms(3)] by (auto split: prod.splits)

theorem unprivileged_reads_only_witness:
  "fst (fst (run_state (uad2_ioctl octo_card UAD2_COMPUTE_IOC_STOP_TRANSPORT
     (root\<lparr>cap_sys_rawio := False\<rparr>)) (kern demo_started))) = Inl EPERM"
proof -
  note b = boundD[OF reachable_bound[OF demo_started(1,2)]]
  obtain r t where rt: "run_state (uad2_ioctl octo_card UAD2_COMPUTE_IOC_STOP_TRANSPORT
      (root\<lparr>cap_sys_rawio := False\<rparr>)) (kern demo_started) = (r, t)" by (meson surj_pair)
  from unprivileged_reads_only[OF _ b(3) rt] b(4) rt show ?thesis by simp
qed

text \<open>
  C11. Commands that touch nothing. A command of another type, an unknown number, and every
  command once removal has begun leave the card and the driver state exactly as they were and
  return ENOTTY, ENOTTY and ENODEV.
\<close>

theorem ioctl_rejected:
  assumes "\<not> lock_held (dev s)"
    and "IOC_TYPE command \<noteq> UAD2_COMPUTE_IOC_MAGIC \<or> removing (dev s) \<or>
      command \<notin> {UAD2_COMPUTE_IOC_GET_INFO, UAD2_COMPUTE_IOC_GET_DSP_STATUS,
        UAD2_COMPUTE_IOC_START_TRANSPORT, UAD2_COMPUTE_IOC_STOP_TRANSPORT,
        UAD2_COMPUTE_IOC_RESET_DSP}"
  shows "run_state (uad2_ioctl hw command caller) s =
    ((Inl (if IOC_TYPE command = UAD2_COMPUTE_IOC_MAGIC \<and> removing (dev s) then ENODEV
           else ENOTTY), NoOut), s)"
proof (cases "IOC_TYPE command = UAD2_COMPUTE_IOC_MAGIC \<and> \<not> removing (dev s)")
  case False
  then show ?thesis
    using ioctl_foreign[of command hw caller s] ioctl_gone[of command s hw caller] assms(1) by auto
next
  case True
  have "s\<lparr>dev := (dev s)\<lparr>lock_held := False\<rparr>\<rparr> = s"
    using lock_id[OF assms(1), of "log s"] by (cases s) simp
  with True assms(2) show ?thesis
    by (simp add: uad2_ioctl_def mutex_lock_def mutex_unlock_def ioctl_switch_def)
qed

theorem ioctl_rejected_witness:
  "run_state (uad2_ioctl octo_card 0x5509 root) (kern demo_started) =
     ((Inl ENOTTY, NoOut), kern demo_started)"
proof -
  note b = boundD[OF reachable_bound[OF demo_started(1,2)]]
  have "IOC_TYPE 0x5509 = UAD2_COMPUTE_IOC_MAGIC"
    by (simp add: IOC_TYPE_def UAD2_COMPUTE_IOC_MAGIC_def)
  then show ?thesis using ioctl_rejected[OF b(3), of "0x5509" octo_card root] b(4)
    by (simp add: ioc_values)
qed

text \<open>
  C12. GET_INFO. Every bound device answers with the ABI version, the PCI identity, the two
  identity words the card returned, eight DSPs, whether the transport runs, and exactly the
  two capabilities that are implemented (ring transport and per-DSP reset); a fault copying
  out is EFAULT. Two loads are all it does.
\<close>

theorem get_info_result:
  assumes "\<not> removing (dev s)" "\<not> lock_held (dev s)"
  shows "run_state (uad2_ioctl hw UAD2_COMPUTE_IOC_GET_INFO caller) s =
    (let fpga = hw (log s) UAD2_FPGA_REVISION;
         h = Rd UAD2_FPGA_REVISION fpga # log s;
         caps = hw h UAD2_EXTENDED_CAPABILITIES in
     (if copy_out caller then
        (Inr (), OutInfo
        \<lparr>info_size = 72, info_abi_version = 1,
         info_vendor_id = vendor (pdev (dev s)), info_device_id = device (pdev (dev s)),
         info_subsystem_vendor_id = subsystem_vendor (pdev (dev s)),
         info_subsystem_device_id = subsystem_device (pdev (dev s)),
         info_fpga_revision = fpga, info_extended_capabilities = caps, info_dsp_count = 8,
         info_transport_started = (if started (dev s) then 1 else 0),
         info_capabilities = 3, info_reserved = [0, 0, 0, 0]\<rparr>)
      else (Inl EFAULT, NoOut),
      s\<lparr>log := Rd UAD2_EXTENDED_CAPABILITIES caps # h\<rparr>))"
  unfolding ioctl_info_result[OF assms] by (simp add: copy_to_user_def flag_u32_def Let_def)

theorem get_info_result_witness:
  "\<exists>out. fst (run_state (uad2_ioctl octo_card UAD2_COMPUTE_IOC_GET_INFO root) (kern demo_started)) =
     (Inr (), OutInfo out) \<and> info_transport_started out = 1"
  using get_info_result[of "kern demo_started" octo_card root] demo_started(4)
    boundD[OF reachable_bound[OF demo_started(1,2)]]
  by (simp add: root_def Let_def)

text \<open>
  C13. GET_DSP_STATUS. For a well-formed request naming a DSP below eight, the structure
  returned holds exactly the values of six loads (DMA control, the DSP's ready word, and the
  read and write indices of its command and response rings), with the ready and enabled flags
  decoded from bit 0 and from bit index+1, the reserved words cleared, and no store made.
\<close>

theorem get_status_result:
  assumes "\<not> removing (dev s)" "\<not> lock_held (dev s)"
    and "status_in caller = Some status" "st_size status = 64" "st_dsp_index status < 8"
    and "copy_out caller"
    and "run_state (uad2_ioctl hw UAD2_COMPUTE_IOC_GET_DSP_STATUS caller) s = ((r, out), t)"
  shows "r = Inr () \<and> (\<exists>v. out = OutStatus v \<and>
       (let d = unat (st_dsp_index status); c = hw (log s) UAD2_DMA_CONTROL in
       t = s\<lparr>log := [Rd (ring_reg d 1 9) (st_response_write_index v),
                    Rd (ring_reg d 1 10) (st_response_read_index v),
                    Rd (ring_reg d 0 9) (st_command_write_index v),
                    Rd (ring_reg d 0 10) (st_command_read_index v),
                    Rd (uad2_ready_offsets ! d) (st_raw_ready_word v),
                    Rd UAD2_DMA_CONTROL c] @ log s\<rparr> \<and>
       (st_ready v = 1 \<longleftrightarrow> bit (st_raw_ready_word v) 0) \<and>
       (st_dma_enabled v = 1 \<longleftrightarrow> bit c (d + 1)) \<and>
       st_size v = 64 \<and> st_dsp_index v = st_dsp_index status \<and>
       st_reserved v = replicate 7 0))"
  using wp_runD[OF ioctl_status_result[OF assms(1-6)] assms(7)] by simp

theorem get_status_result_witness:
  "\<exists>v. snd (fst (run_state (uad2_ioctl octo_card UAD2_COMPUTE_IOC_GET_DSP_STATUS root)
     (kern demo_started))) = OutStatus v \<and> st_dsp_index v = 5"
proof -
  note b = boundD[OF reachable_bound[OF demo_started(1,2)]]
  obtain r out t where rt: "run_state (uad2_ioctl octo_card UAD2_COMPUTE_IOC_GET_DSP_STATUS root)
      (kern demo_started) = ((r, out), t)" by (metis surj_pair)
  from get_status_result[OF b(4,3) _ _ _ _ rt] rt show ?thesis
    by (auto simp: root_def Let_def)
qed

section \<open>Probe and remove\<close>



text \<open>
  C15. Remove. Removing a bound device whose last reference is the driver's own releases
  everything for every card, even when the card does not return to its cold state, and leaves
  bus mastering off and the engines disabled.
\<close>

theorem remove_releases:
  assumes "bound s" "refcount (dev s) = 1"
  shows "clean (log (snd (run_state (uad2_remove hw) s)))"
proof -
  let ?s = "s\<lparr>log := Release MiscDev # log s\<rparr>"
  let ?y = "\<lparr>phase = Bound, files = 0, kern = s\<rparr>"
  have "sys_inv ?y" using assms by (simp add: sys_inv_def)
  from inv_deregister[OF this, of hw "?y\<lparr>phase := Deregistered, kern := ?s\<rparr>"]
  have a: "attached (insert NameString mapped) ?s"
    by (simp add: with_kern_def remove_deregister_def sys_inv_def)
  have "wp (remove_locked hw) (\<lambda>_. wp kref_put (\<lambda>_ t. clean (log t))) ?s"
    by (rule wp_mono[OF remove_locked_spec[OF a]])
      (use assms(2) in \<open>auto intro!: wp_mono[OF kref_put_last] detached_unwind\<close>)
  then have "wp (uad2_remove hw) (\<lambda>_ t. clean (log t)) s"
    by (simp add: uad2_remove_def remove_deregister_def wp_simps)
  then show ?thesis by (simp add: wp_run)
qed

theorem remove_releases_witness:
  "\<exists>s. run_state (uad2_probe octo_card demo_env) (kern sys_init) = (Inr (), s) \<and>
     clean (log (snd (run_state (uad2_remove (\<lambda>_ _. 0)) s)))"
proof -
  obtain r k where rk: "run_state (uad2_probe octo_card demo_env) (kern sys_init) = (r, k)"
    by (meson surj_pair)
  have c: "clean (log (kern sys_init))" by (simp add: sys_init_def clean_Nil)
  have "probe_error demo_env True = None"
    by (simp add: probe_error_def demo_env_def alloc_all_def)
  then have "r = Inr ()"
    using wp_runD[OF probe_result[OF c] rk] octo_card_octo by (auto simp: error_result_def)
  then show ?thesis
    using wp_runD[OF probe_spec[OF c] rk] remove_releases[of k "\<lambda>_ _. 0"] rk by auto
qed

end
