(* ===== verification/Identity.thy ===== *)
theory Identity
  imports Kernel_Lifecycle
begin

text \<open>
  The one-shot read-only probe module \<^verbatim>\<open>kernel/uad2_identity.c\<close>: check the BAR length and that
  bus mastering is off, map BAR0, load six words, log them, release everything and decline the
  device. It promises (in its header comment) no store, DMA, interrupt or reset path; the
  property of this theory is that promise.
\<close>

datatype ident_msg =
    RefusingLength
  | RefusingMaster
  | IdentityBegin
  | IdentityWord u32 string u32
  | IdentityEnd

record istate = bus +
  kmsg :: "ident_msg list"

record identity_env =
  id_bar0_len :: nat
  id_config_read :: int
  id_command :: u16
  id_enable_mem :: int
  id_request_region :: int
  id_iomap_ok :: bool
  pcibios_err_to_errno :: "int \<Rightarrow> int"

definition UA_BAR0_SIZE :: nat where
  "UA_BAR0_SIZE = 0x10000"

definition uad2_identity_words :: "(u32 \<times> string) list" where
  "uad2_identity_words =
     [(0x0020, ''identity_word_0''), (0x0024, ''identity_word_1''),
      (0x0028, ''identity_word_2''), (0x002c, ''identity_word_3''),
      (0x2218, ''fpga_revision''), (0x2234, ''extended_capabilities'')]"

definition dev_info :: "ident_msg \<Rightarrow> (istate, unit) state" where
  "dev_info m = modify (\<lambda>s. s\<lparr>kmsg := kmsg s @ [m]\<rparr>)"

text \<open>The Linux bit \<^verbatim>\<open>PCI_COMMAND_MASTER\<close> of the command register.\<close>

definition PCI_COMMAND_MASTER :: u16 where
  "PCI_COMMAND_MASTER = 4"

definition identity_disable :: "errno \<Rightarrow> (istate, unit result) state" where
  "identity_disable ret = do { emit (Release PciEnabled); State_Monad.return (Inl ret) }"

definition identity_release :: "errno \<Rightarrow> (istate, unit result) state" where
  "identity_release ret = do { emit (Release Region0); identity_disable ret }"

definition uad2_identity_probe :: "hw \<Rightarrow> identity_env \<Rightarrow> (istate, unit result) state" where
  "uad2_identity_probe hw env =
     (if id_bar0_len env \<noteq> UA_BAR0_SIZE then
        do { dev_info RefusingLength; State_Monad.return (Inl EINVAL) }
      else if id_config_read env \<noteq> 0 then
        State_Monad.return (Inl (Callee (pcibios_err_to_errno env (id_config_read env))))
      else if id_command env AND PCI_COMMAND_MASTER \<noteq> 0 then
        do { dev_info RefusingMaster; State_Monad.return (Inl EPERM) }
      else if id_enable_mem env \<noteq> 0 then
        State_Monad.return (Inl (Callee (id_enable_mem env)))
      else do {
        emit (Acquire PciEnabled);
        if id_request_region env \<noteq> 0 then identity_disable (Callee (id_request_region env))
        else do {
          emit (Acquire Region0);
          if \<not> id_iomap_ok env then identity_release ENOMEM
          else do {
            emit (Acquire BarMap);
            dev_info IdentityBegin;
            for_each uad2_identity_words (\<lambda>(offset, name). do {
              v \<leftarrow> bus_read hw offset;
              dev_info (IdentityWord offset name v) });
            dev_info IdentityEnd;
            emit (Release BarMap);
            identity_release ENODEV } } })"

definition uad2_identity_ids :: "pci_dev list" where
  "uad2_identity_ids = [\<lparr>vendor = 0x1a00, device = 0x0002, subsystem_vendor = 0x1a00,
     subsystem_device = 0x0005\<rparr>]"

lemma run_dev_info [simp]: "run_state (dev_info m) s = ((), s\<lparr>kmsg := kmsg s @ [m]\<rparr>)"
  by (simp add: dev_info_def)

text \<open>The words a message list reports.\<close>

fun reported :: "ident_msg list \<Rightarrow> (u32 \<times> u32) list" where
  "reported [] = []"
| "reported (IdentityWord a n v # ms) = (a, v) # reported ms"
| "reported (_ # ms) = reported ms"

lemma reported_append: "reported (xs @ ys) = reported xs @ reported ys"
  by (induction xs rule: reported.induct) auto

text \<open>The loop, for any list of words: one load and one report each, in order.\<close>

lemma identity_loop:
  "\<exists>rs t. run_state (for_each ws (\<lambda>(offset, name). do {
       v \<leftarrow> bus_read hw offset; dev_info (IdentityWord offset name v) })) s = ((), t) \<and>
     log t = rs @ log s \<and> reads rs \<and> map fst (loads rs) = map fst ws \<and>
     reported (kmsg t) = reported (kmsg s) @ loads rs"
proof (induction ws arbitrary: s)
  case Nil
  show ?case by (rule exI[of _ "[]"]) simp
next
  case (Cons w ws)
  obtain off name where w: "w = (off, name)" by (cases w)
  let ?v = "hw (log s) off"
  let ?s = "s\<lparr>log := Rd off ?v # log s, kmsg := kmsg s @ [IdentityWord off name ?v]\<rparr>"
  obtain rs t where "run_state (for_each ws (\<lambda>(offset, name). do {
       v \<leftarrow> bus_read hw offset; dev_info (IdentityWord offset name v) })) ?s = ((), t)"
     "log t = rs @ log ?s" "reads rs" "map fst (loads rs) = map fst ws"
     "reported (kmsg t) = reported (kmsg ?s) @ loads rs"
    using Cons.IH[of ?s] by blast
  then show ?case
    by (intro exI[of _ "rs @ [Rd off ?v]"] exI[of _ t])
      (simp add: w loads_append reported_append)
qed

lemma and_single_bit:
  fixes x m :: u16
  assumes "\<And>k. bit m k \<longleftrightarrow> k = n" and "n < 16"
  shows "x AND m = 0 \<longleftrightarrow> \<not> bit x n"
proof
  assume "x AND m = 0"
  then have "\<not> bit (x AND m) n" by simp
  then show "\<not> bit x n" by (simp add: bit_and_iff assms(1))
next
  assume "\<not> bit x n"
  then show "x AND m = 0" by (intro bit_eqI) (auto simp only: bit_and_iff assms(1) bit_0_eq bot_apply bot_bool_def)
qed

lemma command_master: "x AND PCI_COMMAND_MASTER = 0 \<longleftrightarrow> \<not> bit x 2"
proof (rule and_single_bit)
  fix k
  have "bit (push_bit 2 1 :: u16) k \<longleftrightarrow> k = 2"
    unfolding bit_push_bit_iff by (auto simp: bit_1_iff)
  moreover have "PCI_COMMAND_MASTER = push_bit 2 1" by (simp add: PCI_COMMAND_MASTER_def)
  ultimately show "bit PCI_COMMAND_MASTER k \<longleftrightarrow> k = 2" by (simp only:)
qed simp

definition identity_post :: "identity_env \<Rightarrow> errno \<Rightarrow> istate \<Rightarrow> bool" where
  "identity_post env e t \<longleftrightarrow>
     writes (log t) = [] \<and> \<not> bus_master (log t) \<and> (\<forall>x. held (log t) x = 0) \<and>
     always (\<lambda>h. 0 \<le> held h BarMap \<and> held h BarMap \<le> held h Region0 \<and>
       held h Region0 \<le> held h PciEnabled \<and> held h PciEnabled \<le> 1) (log t) \<and>
     reported (kmsg t) = loads (log t) \<and>
     (loads (log t) = [] \<or> (map fst (loads (log t)) = map fst uad2_identity_words \<and> e = ENODEV \<and>
        \<not> bit (id_command env) 2))"

lemma identity_early:
  assumes "h \<in> {[], [Release PciEnabled, Acquire PciEnabled],
     [Release PciEnabled, Release Region0, Acquire Region0, Acquire PciEnabled]}"
    and "reported m = []"
  shows "identity_post env e \<lparr>log = h, kmsg = m\<rparr>"
  using assms by (auto simp: identity_post_def)

lemma identity_full:
  assumes "log t = Release PciEnabled # Release Region0 # Release BarMap # rs @
      [Acquire BarMap, Acquire Region0, Acquire PciEnabled]"
    and "reads rs" "map fst (loads rs) = map fst uad2_identity_words"
    and "reported (kmsg t) = loads rs" "\<not> bit (id_command env) 2"
  shows "identity_post env ENODEV t"
proof -
  have "always (\<lambda>h. 0 \<le> held h BarMap \<and> held h BarMap \<le> held h Region0 \<and>
       held h Region0 \<le> held h PciEnabled \<and> held h PciEnabled \<le> 1)
       (rs @ [Acquire BarMap, Acquire Region0, Acquire PciEnabled])"
    using assms(2) by (subst always_reads) simp_all
  then show ?thesis
    using assms by (simp add: identity_post_def loads_append)
qed

lemma identity_spec:
  "\<exists>e t. run_state (uad2_identity_probe hw env) \<lparr>log = [], kmsg = []\<rparr> = (Inl e, t) \<and>
     identity_post env e t"
proof (cases "id_bar0_len env = UA_BAR0_SIZE \<and> id_config_read env = 0 \<and>
    id_command env AND PCI_COMMAND_MASTER = 0 \<and> id_enable_mem env = 0 \<and>
    id_request_region env = 0 \<and> id_iomap_ok env")
  case True
  let ?s = "\<lparr>log = [Acquire BarMap, Acquire Region0, Acquire PciEnabled], kmsg = [IdentityBegin]\<rparr>"
  obtain rs t where "run_state (for_each uad2_identity_words (\<lambda>(offset, name). do {
       v \<leftarrow> bus_read hw offset; dev_info (IdentityWord offset name v) })) ?s = ((), t)"
     "log t = rs @ log ?s" "reads rs" "map fst (loads rs) = map fst uad2_identity_words"
     "reported (kmsg t) = reported (kmsg ?s) @ loads rs"
    using identity_loop[of uad2_identity_words hw ?s] by blast
  with True show ?thesis
    by (simp add: uad2_identity_probe_def identity_release_def identity_disable_def
        identity_full reported_append command_master)
next
  case False
  then show ?thesis
    using identity_early
    by (auto simp: uad2_identity_probe_def identity_release_def identity_disable_def)
qed

text \<open>
  C16. The identity probe is read-only and leaves nothing behind. For every card and host it
  declines the device with an error, stores to no register, never touches bus mastering, ends
  holding exactly the resources it started with, and either loads nothing or loads exactly the
  six listed words in order, once each, and reports exactly the values loaded. It goes as far
  as loading only when bus mastering was off.
\<close>

theorem identity_read_only:
  "\<exists>e t. run_state (uad2_identity_probe hw env) \<lparr>log = [], kmsg = []\<rparr> = (Inl e, t) \<and>
     writes (log t) = [] \<and> \<not> bus_master (log t) \<and> (\<forall>x. held (log t) x = 0) \<and>
     always (\<lambda>h. 0 \<le> held h BarMap \<and> held h BarMap \<le> held h Region0 \<and>
       held h Region0 \<le> held h PciEnabled \<and> held h PciEnabled \<le> 1) (log t) \<and>
     reported (kmsg t) = loads (log t) \<and>
     (loads (log t) = [] \<or> (map fst (loads (log t)) = map fst uad2_identity_words \<and> e = ENODEV \<and>
        bit (id_command env) 2 = False))"
  using identity_spec[of hw env] by (simp add: identity_post_def)

end
