(* ===== verification/Lib_Compute.thy ===== *)
theory Lib_Compute
  imports Kernel_System
begin

text \<open>
  The user-space library \<^verbatim>\<open>lib/uad2_compute.c\<close>: open and close of a card and one
  function per ioctl, each with its argument checks, and the four reserved entry points that
  are not implemented. The system calls are a record of functions on an abstract system state.
  The contract the library relies on is the locale \<^verbatim>\<open>compute_device\<close>; it is interpreted on the
  kernel driver's own model (\<^verbatim>\<open>host_os\<close>), so that the library's guarantees hold end to end.
  Handles live in a small heap model (allocation, use and free are events), because the
  command line tool's error path depends on it.
\<close>

section \<open>System calls and the process\<close>

datatype ioctl_arg =
    NoArg
  | ArgInfo uad2_compute_info
  | ArgStatus uad2_compute_dsp_status
  | ArgReset uad2_compute_reset

record 'k os =
  open_sys :: "string \<Rightarrow> 'k \<Rightarrow> (errno + int) \<times> 'k"
  ioctl_sys :: "int \<Rightarrow> u32 \<Rightarrow> ioctl_arg \<Rightarrow> 'k \<Rightarrow> (errno + ioctl_arg) \<times> 'k"
  close_sys :: "int \<Rightarrow> 'k \<Rightarrow> 'k"
  calloc_ok :: "'k \<Rightarrow> bool"

datatype uevent =
    Alloc nat
  | Free nat
  | Use nat
  | Opened string
  | Closed int
  | Called int u32
  | Print string
  | Usage
  | ErrorLine errno

text \<open>
  A process: the system, its events (newest first), the \<^verbatim>\<open>fd\<close> member of every handle ever
  allocated, and the next address \<^verbatim>\<open>calloc\<close> returns.
\<close>

record 'k process =
  system :: 'k
  trace :: "uevent list"
  fd_of :: "nat \<Rightarrow> int"
  next_addr :: nat

definition happens :: "uevent \<Rightarrow> ('k process, unit) state" where
  "happens e = modify (\<lambda>u. u\<lparr>trace := e # trace u\<rparr>)"

definition syscall :: "('k \<Rightarrow> 'a \<times> 'k) \<Rightarrow> ('k process, 'a) state" where
  "syscall f = State (\<lambda>u. case f (system u) of (a, k) \<Rightarrow> (a, u\<lparr>system := k\<rparr>))"

text \<open>A handle is a C pointer: None is NULL. Reading its member is a use of the memory.\<close>

definition load_fd :: "nat \<Rightarrow> ('k process, int) state" where
  "load_fd a = do { happens (Use a); gets (\<lambda>u. fd_of u a) }"

text \<open>
  The memory discipline of a trace: every use and every free of a handle happens while it is
  allocated and not yet freed.
\<close>

fun live_handle :: "uevent list \<Rightarrow> nat \<Rightarrow> bool" where
  "live_handle [] a = False"
| "live_handle (Alloc b # h) a = (b = a \<or> live_handle h a)"
| "live_handle (Free b # h) a = (b \<noteq> a \<and> live_handle h a)"
| "live_handle (_ # h) a = live_handle h a"

fun memory_ok :: "uevent list \<Rightarrow> bool" where
  "memory_ok [] = True"
| "memory_ok (Use a # h) = (live_handle h a \<and> memory_ok h)"
| "memory_ok (Free a # h) = (live_handle h a \<and> memory_ok h)"
| "memory_ok (_ # h) = memory_ok h"

lemma run_happens [simp]: "run_state (happens e) u = ((), u\<lparr>trace := e # trace u\<rparr>)"
  by (simp add: happens_def)

lemma run_syscall [simp]:
  "run_state (syscall f) u = (fst (f (system u)), u\<lparr>system := snd (f (system u))\<rparr>)"
  by (simp add: syscall_def split: prod.splits)

lemma run_load_fd [simp]: "run_state (load_fd a) u = (fd_of u a, u\<lparr>trace := Use a # trace u\<rparr>)"
  by (simp add: load_fd_def)

lemma wp_happens [wp_simps]: "wp (happens e) Q = (\<lambda>u. Q () (u\<lparr>trace := e # trace u\<rparr>))"
  by (simp add: wp_def fun_eq_iff)

lemma wp_syscall [wp_simps]:
  "wp (syscall f) Q = (\<lambda>u. Q (fst (f (system u))) (u\<lparr>system := snd (f (system u))\<rparr>))"
  by (simp add: wp_def fun_eq_iff)

lemma wp_load_fd [wp_simps]:
  "wp (load_fd a) Q = (\<lambda>u. Q (fd_of u a) (u\<lparr>trace := Use a # trace u\<rparr>))"
  by (simp add: wp_def fun_eq_iff)

section \<open>Open and close\<close>

definition device_path :: "u32 \<Rightarrow> string" where
  "device_path card_index = ''/dev/uad2_compute'' @ dec (unat card_index)"

definition path_size :: nat where
  "path_size = 64"

definition uad2_compute_open ::
  "'k os \<Rightarrow> u32 \<Rightarrow> bool \<Rightarrow> ('k process, unit result \<times> nat option) state" where
  "uad2_compute_open os card_index out =
     (if \<not> out then State_Monad.return (Inl EINVAL, None)
      else if length (device_path card_index) \<ge> path_size then
        State_Monad.return (Inl ENAMETOOLONG, None)
      else do {
        ok \<leftarrow> gets (\<lambda>u. calloc_ok os (system u));
        if \<not> ok then State_Monad.return (Inl ENOMEM, None)
        else do {
          a \<leftarrow> gets next_addr;
          happens (Alloc a);
          modify (\<lambda>u. u\<lparr>next_addr := a + 1\<rparr>);
          r \<leftarrow> syscall (open_sys os (device_path card_index));
          happens (Opened (device_path card_index));
          case r of
            Inl error \<Rightarrow> do { happens (Free a); State_Monad.return (Inl error, None) }
          | Inr fd \<Rightarrow> do {
              modify (\<lambda>u. u\<lparr>fd_of := (fd_of u)(a := fd)\<rparr>);
              State_Monad.return (Inr (), Some a) } } })"

definition uad2_compute_close :: "'k os \<Rightarrow> nat option \<Rightarrow> ('k process, unit) state" where
  "uad2_compute_close os handle =
     (case handle of
        None \<Rightarrow> State_Monad.return ()
      | Some a \<Rightarrow> do {
          fd \<leftarrow> load_fd a;
          syscall (\<lambda>k. ((), close_sys os fd k));
          happens (Closed fd);
          happens (Free a) })"

section \<open>The ioctl wrappers\<close>

definition lib_ioctl ::
  "'k os \<Rightarrow> nat \<Rightarrow> u32 \<Rightarrow> ioctl_arg \<Rightarrow> ('k process, errno + ioctl_arg) state" where
  "lib_ioctl os a command arg =
     do { fd \<leftarrow> load_fd a;
          r \<leftarrow> syscall (ioctl_sys os fd command arg);
          happens (Called fd command);
          State_Monad.return r }"

definition zero_info :: uad2_compute_info where
  "zero_info = \<lparr>info_size = of_nat sizeof_info, info_abi_version = 0, info_vendor_id = 0,
     info_device_id = 0, info_subsystem_vendor_id = 0, info_subsystem_device_id = 0,
     info_fpga_revision = 0, info_extended_capabilities = 0, info_dsp_count = 0,
     info_transport_started = 0, info_capabilities = 0, info_reserved = replicate 4 0\<rparr>"

definition zero_status :: "u32 \<Rightarrow> uad2_compute_dsp_status" where
  "zero_status dsp = \<lparr>st_size = of_nat sizeof_dsp_status, st_dsp_index = dsp,
     st_raw_ready_word = 0, st_ready = 0, st_dma_enabled = 0, st_command_read_index = 0,
     st_command_write_index = 0, st_response_read_index = 0, st_response_write_index = 0,
     st_reserved = replicate 7 0\<rparr>"

definition zero_reset :: "u32 \<Rightarrow> uad2_compute_reset" where
  "zero_reset dsp = \<lparr>rst_size = of_nat sizeof_reset, rst_dsp_index = dsp, rst_flags = 0,
     rst_ready_after = 0, rst_dma_control_before = 0, rst_dma_control_after = 0,
     rst_reserved = replicate 4 0\<rparr>"

text \<open>The structure after the call: what the kernel copied out, or the initialised one.\<close>

fun info_out :: "ioctl_arg \<Rightarrow> uad2_compute_info" where
  "info_out (ArgInfo i) = i"
| "info_out _ = zero_info"

fun status_out :: "u32 \<Rightarrow> ioctl_arg \<Rightarrow> uad2_compute_dsp_status" where
  "status_out dsp (ArgStatus v) = v"
| "status_out dsp _ = zero_status dsp"

fun reset_out :: "u32 \<Rightarrow> ioctl_arg \<Rightarrow> uad2_compute_reset" where
  "reset_out dsp (ArgReset v) = v"
| "reset_out dsp _ = zero_reset dsp"

definition uad2_compute_get_info ::
  "'k os \<Rightarrow> nat option \<Rightarrow> bool \<Rightarrow> ('k process, uad2_compute_info result) state" where
  "uad2_compute_get_info os handle info =
     (case handle of
        None \<Rightarrow> State_Monad.return (Inl EINVAL)
      | Some a \<Rightarrow>
          if \<not> info then State_Monad.return (Inl EINVAL)
          else do {
            r \<leftarrow> lib_ioctl os a UAD2_COMPUTE_IOC_GET_INFO (ArgInfo zero_info);
            State_Monad.return (map_sum id info_out r) })"

definition uad2_compute_get_dsp_status ::
  "'k os \<Rightarrow> nat option \<Rightarrow> u32 \<Rightarrow> bool \<Rightarrow> ('k process, uad2_compute_dsp_status result) state" where
  "uad2_compute_get_dsp_status os handle dsp_index status =
     (case handle of
        None \<Rightarrow> State_Monad.return (Inl EINVAL)
      | Some a \<Rightarrow>
          if \<not> status \<or> dsp_index \<ge> UAD2_COMPUTE_DSP_COUNT then State_Monad.return (Inl EINVAL)
          else do {
            r \<leftarrow> lib_ioctl os a UAD2_COMPUTE_IOC_GET_DSP_STATUS (ArgStatus (zero_status dsp_index));
            State_Monad.return (map_sum id (status_out dsp_index) r) })"

definition lib_command :: "'k os \<Rightarrow> nat option \<Rightarrow> u32 \<Rightarrow> ('k process, unit result) state" where
  "lib_command os handle command =
     (case handle of
        None \<Rightarrow> State_Monad.return (Inl EINVAL)
      | Some a \<Rightarrow> do {
          r \<leftarrow> lib_ioctl os a command NoArg;
          State_Monad.return (map_sum id (\<lambda>_. ()) r) })"

definition uad2_compute_start_transport ::
  "'k os \<Rightarrow> nat option \<Rightarrow> ('k process, unit result) state" where
  "uad2_compute_start_transport os handle =
     lib_command os handle UAD2_COMPUTE_IOC_START_TRANSPORT"

definition uad2_compute_stop_transport ::
  "'k os \<Rightarrow> nat option \<Rightarrow> ('k process, unit result) state" where
  "uad2_compute_stop_transport os handle =
     lib_command os handle UAD2_COMPUTE_IOC_STOP_TRANSPORT"

definition uad2_compute_reset_dsp ::
  "'k os \<Rightarrow> nat option \<Rightarrow> u32 \<Rightarrow> ('k process, uad2_compute_reset result) state" where
  "uad2_compute_reset_dsp os handle dsp_index =
     (case handle of
        None \<Rightarrow> State_Monad.return (Inl EINVAL)
      | Some a \<Rightarrow>
          if dsp_index \<ge> UAD2_COMPUTE_DSP_COUNT then State_Monad.return (Inl EINVAL)
          else do {
            r \<leftarrow> lib_ioctl os a UAD2_COMPUTE_IOC_RESET_DSP (ArgReset (zero_reset dsp_index));
            State_Monad.return (map_sum id (reset_out dsp_index) r) })"

section \<open>Reserved entry points\<close>

definition uad2_compute_alloc_buffer ::
  "nat option \<Rightarrow> u64 \<Rightarrow> u32 \<Rightarrow> ('k process, u64 result) state" where
  "uad2_compute_alloc_buffer handle bytes flags = State_Monad.return (Inl EOPNOTSUPP)"

definition uad2_compute_load_program ::
  "nat option \<Rightarrow> u32 \<Rightarrow> u8 list \<Rightarrow> ('k process, u64 result) state" where
  "uad2_compute_load_program handle dsp_index img = State_Monad.return (Inl EOPNOTSUPP)"

definition uad2_compute_submit ::
  "nat option \<Rightarrow> u32 \<Rightarrow> u64 \<Rightarrow> u64 \<Rightarrow> u64 \<Rightarrow> ('k process, u64 result) state" where
  "uad2_compute_submit handle dsp_index program_id input_buffer_id output_buffer_id =
     State_Monad.return (Inl EOPNOTSUPP)"

definition uad2_compute_wait ::
  "nat option \<Rightarrow> u64 \<Rightarrow> int \<Rightarrow> ('k process, unit result) state" where
  "uad2_compute_wait handle job_id timeout_ms = State_Monad.return (Inl EOPNOTSUPP)"

lemmas unsupported_defs = uad2_compute_alloc_buffer_def uad2_compute_load_program_def
  uad2_compute_submit_def uad2_compute_wait_def

section \<open>What the library relies on\<close>

text \<open>
  The contract of the character device: in a good system state every ioctl leaves a good
  state; an information request that succeeds is answered in the ABI version 1 format with
  eight DSPs and the two implemented capabilities; a status request that succeeds is answered
  for the DSP asked about; a reset that succeeds reports that DSP ready with every engine
  enabled before and after.
\<close>

locale compute_device =
  fixes os :: "'k os" and good :: "'k \<Rightarrow> bool"
  assumes good_ioctl: "good k \<Longrightarrow> good (snd (ioctl_sys os fd command arg k))"
    and info_law: "good k \<Longrightarrow>
      fst (ioctl_sys os fd UAD2_COMPUTE_IOC_GET_INFO (ArgInfo i) k) = Inr out \<Longrightarrow>
      \<exists>v. out = ArgInfo v \<and> info_size v = 72 \<and> info_abi_version v = 1 \<and> info_dsp_count v = 8 \<and>
        info_capabilities v = 3"
    and status_law: "good k \<Longrightarrow>
      fst (ioctl_sys os fd UAD2_COMPUTE_IOC_GET_DSP_STATUS (ArgStatus q) k) = Inr out \<Longrightarrow>
      \<exists>v. out = ArgStatus v \<and> st_size v = 64 \<and> st_dsp_index v = st_dsp_index q"
    and reset_law: "good k \<Longrightarrow>
      fst (ioctl_sys os fd UAD2_COMPUTE_IOC_RESET_DSP (ArgReset p) k) = Inr out \<Longrightarrow>
      \<exists>v. out = ArgReset v \<and> rst_dsp_index v = rst_dsp_index p \<and> rst_ready_after v = 1 \<and>
        rst_dma_control_before v = 0x1ff \<and> rst_dma_control_after v = 0x1ff"
begin

lemma lib_ioctl_good:
  assumes "good (system u)"
  shows "wp (lib_ioctl os a command arg) (\<lambda>r v. good (system v) \<and>
     r = fst (ioctl_sys os (fd_of u a) command arg (system u))) u"
  using good_ioctl[OF assms] by (simp add: lib_ioctl_def wp_simps)

lemma get_info_good:
  assumes "good (system u)"
  shows "wp (uad2_compute_get_info os handle info) (\<lambda>r v. good (system v) \<and>
     (case r of Inl e \<Rightarrow> True
      | Inr i \<Rightarrow> info_size i = 72 \<and> info_abi_version i = 1 \<and> info_dsp_count i = 8 \<and>
          info_capabilities i = 3)) u"
proof -
  have "case map_sum id info_out r of Inl e \<Rightarrow> True
      | Inr i \<Rightarrow> info_size i = 72 \<and> info_abi_version i = 1 \<and> info_dsp_count i = 8 \<and>
          info_capabilities i = 3"
    if "r = fst (ioctl_sys os fd UAD2_COMPUTE_IOC_GET_INFO (ArgInfo zero_info) (system u))" for r fd
    using that info_law[OF assms, of fd zero_info] by (cases r) fastforce+
  then show ?thesis
    using assms
    by (auto simp: uad2_compute_get_info_def wp_simps split: option.split
        intro!: wp_mono[OF lib_ioctl_good])
qed

lemma get_status_good:
  assumes "good (system u)"
  shows "wp (uad2_compute_get_dsp_status os handle dsp status) (\<lambda>r v. good (system v) \<and>
     (case r of Inl e \<Rightarrow> True | Inr s \<Rightarrow> st_size s = 64 \<and> st_dsp_index s = dsp)) u"
proof -
  have "case map_sum id (status_out dsp) r of Inl e \<Rightarrow> True
      | Inr s \<Rightarrow> st_size s = 64 \<and> st_dsp_index s = dsp"
    if "r = fst (ioctl_sys os fd UAD2_COMPUTE_IOC_GET_DSP_STATUS (ArgStatus (zero_status dsp))
      (system u))" for r fd
    using that status_law[OF assms, of fd "zero_status dsp"]
    by (cases r) (fastforce simp: zero_status_def)+
  then show ?thesis
    using assms
    by (auto simp: uad2_compute_get_dsp_status_def wp_simps split: option.split
        intro!: wp_mono[OF lib_ioctl_good])
qed

lemma reset_good:
  assumes "good (system u)"
  shows "wp (uad2_compute_reset_dsp os handle dsp) (\<lambda>r v. good (system v) \<and>
     (case r of Inl e \<Rightarrow> True
      | Inr s \<Rightarrow> rst_dsp_index s = dsp \<and> rst_ready_after s = 1 \<and>
          rst_dma_control_before s = 0x1ff \<and> rst_dma_control_after s = 0x1ff)) u"
proof -
  have "case map_sum id (reset_out dsp) r of Inl e \<Rightarrow> True
      | Inr s \<Rightarrow> rst_dsp_index s = dsp \<and> rst_ready_after s = 1 \<and>
          rst_dma_control_before s = 0x1ff \<and> rst_dma_control_after s = 0x1ff"
    if "r = fst (ioctl_sys os fd UAD2_COMPUTE_IOC_RESET_DSP (ArgReset (zero_reset dsp))
      (system u))" for r fd
    using that reset_law[OF assms, of fd "zero_reset dsp"]
    by (cases r) (fastforce simp: zero_reset_def)+
  then show ?thesis
    using assms
    by (auto simp: uad2_compute_reset_dsp_def wp_simps split: option.split
        intro!: wp_mono[OF lib_ioctl_good])
qed

lemma command_good:
  assumes "good (system u)"
  shows "wp (lib_command os handle command) (\<lambda>r v. good (system v)) u"
  using assms
  by (auto simp: lib_command_def wp_simps split: option.split intro!: wp_mono[OF lib_ioctl_good])

end

section \<open>The kernel driver as provider\<close>

record host =
  hsys :: sys
  fds :: "int list"
  next_fd :: int
  privileged :: bool

fun arg_caller :: "bool \<Rightarrow> ioctl_arg \<Rightarrow> caller" where
  "arg_caller p (ArgStatus v) =
     \<lparr>cap_sys_rawio = p, status_in = Some v, reset_in = None, copy_out = True\<rparr>"
| "arg_caller p (ArgReset v) =
     \<lparr>cap_sys_rawio = p, status_in = None, reset_in = Some v, copy_out = True\<rparr>"
| "arg_caller p (ArgInfo _) =
     \<lparr>cap_sys_rawio = p, status_in = None, reset_in = None, copy_out = True\<rparr>"
| "arg_caller p NoArg =
     \<lparr>cap_sys_rawio = p, status_in = None, reset_in = None, copy_out = False\<rparr>"

fun arg_after :: "ioctl_arg \<Rightarrow> user_out \<Rightarrow> ioctl_arg" where
  "arg_after arg NoOut = arg"
| "arg_after arg (OutInfo v) = ArgInfo v"
| "arg_after arg (OutStatus v) = ArgStatus v"
| "arg_after arg (OutReset v) = ArgReset v"

definition registered_path :: "sys \<Rightarrow> string \<Rightarrow> bool" where
  "registered_path y path \<longleftrightarrow> phase y = Bound \<and>
     (case misc_name (dev (kern y)) of None \<Rightarrow> False | Some n \<Rightarrow> path = ''/dev/'' @ n)"

definition host_open :: "string \<Rightarrow> host \<Rightarrow> (errno + int) \<times> host" where
  "host_open path h =
     (if registered_path (hsys h) path then
        (case with_kern uad2_open (hsys h) of
           (Inl e, y) \<Rightarrow> (Inl e, h\<lparr>hsys := y\<rparr>)
         | (Inr _, y) \<Rightarrow> (Inr (next_fd h), h\<lparr>hsys := y\<lparr>files := files y + 1\<rparr>,
             fds := next_fd h # fds h, next_fd := next_fd h + 1\<rparr>))
      else (Inl (Callee 2), h))"

definition host_ioctl ::
  "hw \<Rightarrow> int \<Rightarrow> u32 \<Rightarrow> ioctl_arg \<Rightarrow> host \<Rightarrow> (errno + ioctl_arg) \<times> host" where
  "host_ioctl hw fd command arg h =
     (if fd \<notin> set (fds h) then (Inl (Callee 9), h)
      else case with_kern (uad2_ioctl hw command (arg_caller (privileged h) arg)) (hsys h) of
          ((Inl e, _), y) \<Rightarrow> (Inl e, h\<lparr>hsys := y\<rparr>)
        | ((Inr _, out), y) \<Rightarrow> (Inr (arg_after arg out), h\<lparr>hsys := y\<rparr>))"

definition host_close :: "int \<Rightarrow> host \<Rightarrow> host" where
  "host_close fd h =
     (if fd \<notin> set (fds h) then h
      else case with_kern uad2_release (hsys h) of
          (_, y) \<Rightarrow> h\<lparr>hsys := y\<lparr>files := files y - 1\<rparr>, fds := remove1 fd (fds h)\<rparr>)"

definition host_os :: "hw \<Rightarrow> host os" where
  "host_os hw = \<lparr>open_sys = host_open, ioctl_sys = host_ioctl hw, close_sys = host_close,
     calloc_ok = (\<lambda>_. True)\<rparr>"

text \<open>A host whose driver is in a reachable state and whose descriptors are its open files.\<close>

definition host_good :: "hw \<Rightarrow> host \<Rightarrow> bool" where
  "host_good hw h \<longleftrightarrow> reachable hw (hsys h) \<and> length (fds h) = files (hsys h)"

lemma host_files:
  assumes "host_good hw h" "fd \<in> set (fds h)"
  shows "files (hsys h) > 0" "reachable hw (hsys h)" "\<not> lock_held (dev (kern (hsys h)))"
    "removing (dev (kern (hsys h))) \<or> drv_inv (kern (hsys h))"
proof -
  show f: "files (hsys h) > 0"
    using assms length_pos_if_in_set[OF assms(2)] by (simp add: host_good_def)
  show r: "reachable hw (hsys h)" using assms(1) by (simp add: host_good_def)
  have "sys_inv (hsys h)" by (rule reachable_inv[OF r])
  then show "\<not> lock_held (dev (kern (hsys h)))"
    "removing (dev (kern (hsys h))) \<or> drv_inv (kern (hsys h))"
    using f by (cases "phase (hsys h)"; simp add: sys_inv_def attached_def detached_def)+
qed

lemma switch_status_shape:
  assumes "status_in caller = Some q"
  shows "wp (ioctl_switch hw UAD2_COMPUTE_IOC_GET_DSP_STATUS caller) (\<lambda>r t. fst r = Inr () \<longrightarrow>
     (\<exists>v. snd r = OutStatus v \<and> st_size v = 64 \<and> st_dsp_index v = st_dsp_index q)) s"
  using assms
  by (simp add: ioctl_switch_def ioc_values ioctl_get_dsp_status_def wp_simps Let_def
      copy_to_user_def sizeof_dsp_status_def)

lemma switch_reset_shape:
  assumes "reset_in caller = Some q" "drv_inv s"
  shows "wp (ioctl_switch hw UAD2_COMPUTE_IOC_RESET_DSP caller) (\<lambda>r t. fst r = Inr () \<longrightarrow>
     (\<exists>v. snd r = OutReset v \<and> rst_dsp_index v = rst_dsp_index q \<and> rst_ready_after v = 1 \<and>
        rst_dma_control_before v = 0x1ff \<and> rst_dma_control_after v = 0x1ff)) s"
  using assms(1) reset_spec[OF assms(2), of hw "q\<lparr>rst_reserved := replicate 4 0\<rparr>"]
  by (auto simp: ioctl_switch_def ioc_values ioctl_reset_dsp_def wp_simps copy_to_user_def
      elim!: wp_mono split: sum.split)

lemma ioctl_shape:
  assumes "IOC_TYPE command = UAD2_COMPUTE_IOC_MAGIC" "removing (dev s) \<or> drv_inv s"
    and "\<And>t. drv_inv t \<Longrightarrow> wp (ioctl_switch hw command caller) (\<lambda>r t. fst r = Inr () \<longrightarrow> P (snd r)) t"
  shows "wp (uad2_ioctl hw command caller) (\<lambda>r t. fst r = Inr () \<longrightarrow> P (snd r)) s"
proof -
  let ?s = "s\<lparr>dev := (dev s)\<lparr>lock_held := True\<rparr>\<rparr>"
  have "\<not> removing (dev s) \<Longrightarrow> drv_inv ?s" using assms(2) by simp
  then show ?thesis
    using assms(1,3) by (auto simp: uad2_ioctl_def wp_simps elim!: wp_mono)
qed

lemma host_ioctl_shape:
  assumes "host_good hw h" "fst (host_ioctl hw fd command arg h) = Inr a"
    and "IOC_TYPE command = UAD2_COMPUTE_IOC_MAGIC"
    and "\<And>t. drv_inv t \<Longrightarrow> wp (ioctl_switch hw command (arg_caller (privileged h) arg))
           (\<lambda>r t. fst r = Inr () \<longrightarrow> P (snd r)) t"
  shows "\<exists>out. a = arg_after arg out \<and> P out"
proof -
  have fd: "fd \<in> set (fds h)" using assms(2) by (auto simp: host_ioctl_def split: if_splits)
  obtain r out k where run: "run_state (uad2_ioctl hw command (arg_caller (privileged h) arg))
      (kern (hsys h)) = ((r, out), k)" by (metis surj_pair)
  have "r = Inr () \<longrightarrow> P out"
    using wp_runD[OF ioctl_shape[OF assms(3) host_files(4)[OF assms(1) fd] assms(4)] run] by simp
  then show ?thesis
    using assms(2) fd run by (auto simp: host_ioctl_def with_kern_def split: sum.splits)
qed

lemma switch_info_shape:
  "copy_out caller \<Longrightarrow>
     wp (ioctl_switch hw UAD2_COMPUTE_IOC_GET_INFO caller) (\<lambda>r t. fst r = Inr () \<longrightarrow>
     (\<exists>v. snd r = OutInfo v \<and> info_size v = 72 \<and> info_abi_version v = 1 \<and> info_dsp_count v = 8 \<and>
        info_capabilities v = 3)) s"
  by (simp add: ioctl_switch_def ioctl_get_info_def wp_simps copy_to_user_def sizeof_info_def
      UAD2_COMPUTE_ABI_VERSION_def UAD2_CAP_RING_TRANSPORT_def UAD2_CAP_PER_DSP_RESET_def)

interpretation kernel_host: compute_device "host_os hw" "host_good hw" for hw
proof
  fix k fd command arg
  assume g: "host_good hw k"
  show "host_good hw (snd (ioctl_sys (host_os hw) fd command arg k))"
  proof (cases "fd \<in> set (fds k)")
    case True
    obtain r out z where run: "with_kern (uad2_ioctl hw command (arg_caller (privileged k) arg))
        (hsys k) = ((r, out), z)" by (metis surj_pair)
    have "sys_act hw (Ioctl command (arg_caller (privileged k) arg)) (hsys k) = Some z"
      using run host_files(1)[OF g True] by simp
    then have "reachable hw z" using host_files(2)[OF g True] by (rule reachable.step[rotated])
    moreover have "files z = files (hsys k)" using run by (auto simp: with_kern_def split: prod.splits)
    ultimately show ?thesis
      using True run g by (auto simp: host_os_def host_ioctl_def host_good_def split: sum.splits)
  qed (use g in \<open>simp add: host_os_def host_ioctl_def\<close>)
next
  fix k fd i out
  assume g: "host_good hw k"
    and r: "fst (ioctl_sys (host_os hw) fd UAD2_COMPUTE_IOC_GET_INFO (ArgInfo i) k) = Inr out"
  have r': "fst (host_ioctl hw fd UAD2_COMPUTE_IOC_GET_INFO (ArgInfo i) k) = Inr out"
    using r by (simp add: host_os_def)
  have "wp (ioctl_switch hw UAD2_COMPUTE_IOC_GET_INFO (arg_caller (privileged k) (ArgInfo i)))
      (\<lambda>r t. fst r = Inr () \<longrightarrow> (\<exists>v. snd r = OutInfo v \<and> info_size v = 72 \<and>
      info_abi_version v = 1 \<and> info_dsp_count v = 8 \<and> info_capabilities v = 3)) t" if "drv_inv t" for t
    using that by (intro switch_info_shape) simp_all
  from host_ioctl_shape[OF g r' ioc_types(1), of "\<lambda>x. \<exists>v. x = OutInfo v \<and> info_size v = 72 \<and>
      info_abi_version v = 1 \<and> info_dsp_count v = 8 \<and> info_capabilities v = 3", OF this]
  show "\<exists>v. out = ArgInfo v \<and> info_size v = 72 \<and>
      info_abi_version v = 1 \<and> info_dsp_count v = 8 \<and> info_capabilities v = 3" by auto
next
  fix k fd q out
  assume g: "host_good hw k"
    and r: "fst (ioctl_sys (host_os hw) fd UAD2_COMPUTE_IOC_GET_DSP_STATUS (ArgStatus q) k) = Inr out"
  have r': "fst (host_ioctl hw fd UAD2_COMPUTE_IOC_GET_DSP_STATUS (ArgStatus q) k) = Inr out"
    using r by (simp add: host_os_def)
  have "wp (ioctl_switch hw UAD2_COMPUTE_IOC_GET_DSP_STATUS (arg_caller (privileged k) (ArgStatus q)))
      (\<lambda>r t. fst r = Inr () \<longrightarrow> (\<exists>v. snd r = OutStatus v \<and> st_size v = 64 \<and>
      st_dsp_index v = st_dsp_index q)) t" if "drv_inv t" for t
    using that by (intro switch_status_shape) simp_all
  from host_ioctl_shape[OF g r' ioc_types(2), of "\<lambda>x. \<exists>v. x = OutStatus v \<and> st_size v = 64 \<and>
      st_dsp_index v = st_dsp_index q", OF this]
  show "\<exists>v. out = ArgStatus v \<and> st_size v = 64 \<and>
      st_dsp_index v = st_dsp_index q" by auto
next
  fix k fd p out
  assume g: "host_good hw k"
    and r: "fst (ioctl_sys (host_os hw) fd UAD2_COMPUTE_IOC_RESET_DSP (ArgReset p) k) = Inr out"
  have r': "fst (host_ioctl hw fd UAD2_COMPUTE_IOC_RESET_DSP (ArgReset p) k) = Inr out"
    using r by (simp add: host_os_def)
  have "wp (ioctl_switch hw UAD2_COMPUTE_IOC_RESET_DSP (arg_caller (privileged k) (ArgReset p)))
      (\<lambda>r t. fst r = Inr () \<longrightarrow> (\<exists>v. snd r = OutReset v \<and> rst_dsp_index v = rst_dsp_index p \<and>
      rst_ready_after v = 1 \<and> rst_dma_control_before v = 0x1ff \<and> rst_dma_control_after v = 0x1ff)) t" if "drv_inv t" for t
    using that by (intro switch_reset_shape) simp_all
  from host_ioctl_shape[OF g r' ioc_types(5), of "\<lambda>x. \<exists>v. x = OutReset v \<and> rst_dsp_index v = rst_dsp_index p \<and>
      rst_ready_after v = 1 \<and> rst_dma_control_before v = 0x1ff \<and> rst_dma_control_after v = 0x1ff", OF this]
  show "\<exists>v. out = ArgReset v \<and> rst_dsp_index v = rst_dsp_index p \<and>
      rst_ready_after v = 1 \<and> rst_dma_control_before v = 0x1ff \<and> rst_dma_control_after v = 0x1ff" by auto
qed

end
