(* ===== verification/Uad2ctl.thy ===== *)
theory Uad2ctl
  imports Lib_Compute "HOL-Library.Char_ord"
begin

text \<open>
  The command line tool \<^verbatim>\<open>lib/uad2ctl.c\<close>: number parsing on top of \<^verbatim>\<open>strtoul\<close> with base 0, the
  argument grammar, the two printing commands, and \<^verbatim>\<open>main\<close> with its error path. The standard
  library's \<^verbatim>\<open>strtoul\<close> and the \<^verbatim>\<open>printf\<close> conversions the tool uses are modelled as the C
  standard defines them for a 64-bit \<^verbatim>\<open>unsigned long\<close>.
\<close>

section \<open>Numbers\<close>

definition is_space :: "char \<Rightarrow> bool" where
  "is_space c \<longleftrightarrow> c = CHR '' '' \<or> (9 \<le> (of_char c :: nat) \<and> (of_char c :: nat) \<le> 13)"

definition digit_value :: "char \<Rightarrow> nat option" where
  "digit_value c =
     (let n = (of_char c :: nat) in
      if 48 \<le> n \<and> n \<le> 57 then Some (n - 48)
      else if 97 \<le> n \<and> n \<le> 102 then Some (n - 87)
      else if 65 \<le> n \<and> n \<le> 70 then Some (n - 55) else None)"

text \<open>The longest prefix of digits in a base, and what follows.\<close>

fun span_digits :: "nat \<Rightarrow> string \<Rightarrow> nat list \<times> string" where
  "span_digits b [] = ([], [])"
| "span_digits b (c # cs) =
     (case digit_value c of
        None \<Rightarrow> ([], c # cs)
      | Some d \<Rightarrow>
          if d < b then (case span_digits b cs of (ds, r) \<Rightarrow> (d # ds, r)) else ([], c # cs))"

definition strip_sign :: "string \<Rightarrow> bool \<times> string" where
  "strip_sign s =
     (case s of [] \<Rightarrow> (False, [])
      | c # r \<Rightarrow> if c = CHR ''-'' then (True, r) else if c = CHR ''+'' then (False, r)
                 else (False, s))"

text \<open>Base 0: a hexadecimal prefix followed by a digit, a leading zero, or decimal.\<close>

definition detect_base :: "string \<Rightarrow> nat \<times> string" where
  "detect_base s =
     (case s of
        z # x # d # r \<Rightarrow>
          if z = CHR ''0'' \<and> (x = CHR ''x'' \<or> x = CHR ''X'') \<and> digit_value d \<noteq> None
          then (16, d # r) else if z = CHR ''0'' then (8, s) else (10, s)
      | z # r \<Rightarrow> if z = CHR ''0'' then (8, s) else (10, s)
      | [] \<Rightarrow> (10, s))"

text \<open>\<^verbatim>\<open>strtoul(text, &end, 0)\<close>: the value, the unparsed rest, and whether \<^verbatim>\<open>errno\<close> is set.\<close>

definition strtoul :: "string \<Rightarrow> nat \<times> string \<times> bool" where
  "strtoul text =
     (let (neg, s) = strip_sign (dropWhile is_space text);
          (b, t) = detect_base s;
          (ds, rest) = span_digits b t in
      if ds = [] then (0, text, False)
      else let v = foldl (\<lambda>v d. v * b + d) 0 ds in
        if v \<ge> 2 ^ 64 then (2 ^ 64 - 1, rest, True)
        else (if neg then (2 ^ 64 - v) mod 2 ^ 64 else v, rest, False))"

definition parse_uint :: "string \<Rightarrow> u32 option" where
  "parse_uint text =
     (case strtoul text of (parsed, rest, errno) \<Rightarrow>
        if errno \<or> text = [] \<or> rest \<noteq> [] \<or> parsed > 0xffffffff then None
        else Some (of_nat parsed))"

section \<open>The commands\<close>

definition nl :: string where
  "nl = [char_of (10 :: nat)]"

definition print :: "string \<Rightarrow> ('k process, unit) state" where
  "print line = happens (Print line)"

definition usage :: "('k process, unit) state" where
  "usage = happens Usage"

definition udec :: "u32 \<Rightarrow> string" where
  "udec v = dec (unat v)"

definition show_info :: "'k os \<Rightarrow> nat option \<Rightarrow> ('k process, unit result) state" where
  "show_info os handle =
     do { r \<leftarrow> uad2_compute_get_info os handle True;
          case r of
            Inl error \<Rightarrow> State_Monad.return (Inl error)
          | Inr info \<Rightarrow> do {
              print (''abi_version='' @ udec (info_abi_version info) @ nl);
              print (''pci='' @ hex 4 (unat (info_vendor_id info)) @ '':'' @
                hex 4 (unat (info_device_id info)) @ '' subsystem='' @
                hex 4 (unat (info_subsystem_vendor_id info)) @ '':'' @
                hex 4 (unat (info_subsystem_device_id info)) @ nl);
              print (''fpga_revision=0x'' @ hex 8 (unat (info_fpga_revision info)) @
                '' extended_capabilities=0x'' @
                hex 8 (unat (info_extended_capabilities info)) @ nl);
              print (''dsp_count='' @ udec (info_dsp_count info) @ '' transport_started='' @
                udec (info_transport_started info) @ '' capabilities=0x'' @
                hex 16 (unat (info_capabilities info)) @ nl);
              State_Monad.return (Inr ()) } }"

definition status_line :: "nat \<Rightarrow> uad2_compute_dsp_status \<Rightarrow> string" where
  "status_line dsp s =
     ''dsp'' @ dec dsp @ '' ready='' @ udec (st_ready s) @ '' raw=0x'' @
     hex 8 (unat (st_raw_ready_word s)) @ '' dma='' @ udec (st_dma_enabled s) @ '' cmd='' @
     udec (st_command_read_index s) @ ''/'' @ udec (st_command_write_index s) @ '' rsp='' @
     udec (st_response_read_index s) @ ''/'' @ udec (st_response_write_index s) @ nl"

definition show_status :: "'k os \<Rightarrow> nat option \<Rightarrow> ('k process, unit result) state" where
  "show_status os handle =
     try_each [0..<8] (\<lambda>dsp.
       do { r \<leftarrow> uad2_compute_get_dsp_status os handle (of_nat dsp) True;
            case r of
              Inl error \<Rightarrow> State_Monad.return (Inl error)
            | Inr status \<Rightarrow> do { print (status_line dsp status); State_Monad.return (Inr ()) } })"

definition do_reset :: "'k os \<Rightarrow> nat option \<Rightarrow> u32 \<Rightarrow> ('k process, unit result) state" where
  "do_reset os handle dsp =
     do { r \<leftarrow> uad2_compute_reset_dsp os handle dsp;
          case r of
            Inl error \<Rightarrow> State_Monad.return (Inl error)
          | Inr reset \<Rightarrow> do {
              print (''dsp'' @ udec dsp @ '' ready='' @ udec (rst_ready_after reset) @
                '' dma_before=0x'' @ hex 8 (unat (rst_dma_control_before reset)) @
                '' dma_after=0x'' @ hex 8 (unat (rst_dma_control_after reset)) @ nl);
              State_Monad.return (Inr ()) } }"

section \<open>Arguments and main\<close>

text \<open>The card, the command and its DSP, or None for a usage error. \<^verbatim>\<open>argv\<close> holds the program name.\<close>

definition parse_args :: "string list \<Rightarrow> (u32 \<times> string \<times> u32) option" where
  "parse_args argv =
     (let argc = length argv in
      case (if argc \<ge> 3 \<and> argv ! 1 = ''--card''
            then map_option (\<lambda>cd. (cd, 3)) (parse_uint (argv ! 2)) else Some (0, 1)) of
        None \<Rightarrow> None
      | Some (cd, argument) \<Rightarrow>
          if argument \<ge> argc then None
          else let command = argv ! argument; argument = argument + 1 in
            case (if command = ''reset''
                  then (if argument \<ge> argc then None
                        else map_option (\<lambda>dsp. (dsp, argument + 1)) (parse_uint (argv ! argument)))
                  else Some (0, argument)) of
              None \<Rightarrow> None
            | Some (dsp, argument) \<Rightarrow>
                if argument \<noteq> argc then None else Some (cd, command, dsp))"

definition run_command ::
  "'k os \<Rightarrow> nat option \<Rightarrow> string \<Rightarrow> u32 \<Rightarrow> ('k process, unit result) state" where
  "run_command os handle command dsp =
     (if command = ''info'' then show_info os handle
      else if command = ''status'' then show_status os handle
      else if command = ''start'' then uad2_compute_start_transport os handle
      else if command = ''stop'' then uad2_compute_stop_transport os handle
      else if command = ''reset'' then do_reset os handle dsp
      else do { usage; State_Monad.return (Inl EINVAL) })"

datatype exit_code = EXIT_SUCCESS | EXIT_FAILURE

text \<open>The label \<^verbatim>\<open>fail\<close>, reached by a failed open and by falling through after a failed command.\<close>

definition main_fail :: "'k os \<Rightarrow> errno \<Rightarrow> nat option \<Rightarrow> ('k process, exit_code) state" where
  "main_fail os error handle =
     do { happens (ErrorLine error);
          uad2_compute_close os handle;
          State_Monad.return EXIT_FAILURE }"

text \<open>The part of \<^verbatim>\<open>main\<close> after a successful open.\<close>

definition main_command ::
  "'k os \<Rightarrow> nat option \<Rightarrow> string \<Rightarrow> u32 \<Rightarrow> ('k process, exit_code) state" where
  "main_command os handle command dsp =
     do { r \<leftarrow> run_command os handle command dsp;
          uad2_compute_close os handle;
          case r of
            Inr _ \<Rightarrow> State_Monad.return EXIT_SUCCESS
          | Inl error \<Rightarrow> main_fail os error handle }"

definition uad2ctl_main :: "'k os \<Rightarrow> string list \<Rightarrow> ('k process, exit_code) state" where
  "uad2ctl_main os argv =
     (case parse_args argv of
        None \<Rightarrow> do { usage; State_Monad.return EXIT_FAILURE }
      | Some (cd, command, dsp) \<Rightarrow> do {
          (r, handle) \<leftarrow> uad2_compute_open os cd True;
          case r of
            Inl error \<Rightarrow> main_fail os error handle
          | Inr _ \<Rightarrow> main_command os handle command dsp })"

section \<open>Number parsing\<close>

lemma of_char_digit: "n < 16 \<Longrightarrow> (of_char (digit n) :: nat) = (if n < 10 then 48 + n else 87 + n)"
  by (simp add: digit_def)

lemma digit_value_digit: "n < 16 \<Longrightarrow> digit_value (digit n) = Some n"
  by (auto simp: digit_value_def of_char_digit)

lemma char_code: "(of_char (CHR ''0'') :: nat) = 48" "(of_char (CHR ''-'') :: nat) = 45"
  "(of_char (CHR ''+'') :: nat) = 43" "(of_char (CHR '' '') :: nat) = 32"
  "(of_char (CHR ''x'') :: nat) = 120" "(of_char (CHR ''X'') :: nat) = 88"
  by simp_all

lemma digit_not:
  assumes "n < 10"
  shows "\<not> is_space (digit n)" "digit n \<noteq> CHR ''-''" "digit n \<noteq> CHR ''+''"
    "digit n \<noteq> CHR ''x''" "digit n \<noteq> CHR ''X''" "digit n = CHR ''0'' \<longleftrightarrow> n = 0"
proof -
  have c: "(of_char (digit n) :: nat) = 48 + n" using assms by (simp add: of_char_digit)
  have ne: "digit n \<noteq> x" if "(of_char x :: nat) \<noteq> 48 + n" for x using c that by auto
  show "digit n \<noteq> CHR ''-''" "digit n \<noteq> CHR ''+''" "digit n \<noteq> CHR ''x''" "digit n \<noteq> CHR ''X''"
    by (rule ne, use assms in simp)+
  show "\<not> is_space (digit n)"
    using c char_code(4) assms by (auto simp: is_space_def)
  have "of_char (digit n) = (of_char (CHR ''0'') :: nat) \<longleftrightarrow> n = 0"
    using c char_code(1) by linarith
  then show "digit n = CHR ''0'' \<longleftrightarrow> n = 0" by (simp only: of_char_eq_iff)
qed

lemma span_digits_map:
  assumes "b \<le> 16" "\<forall>d \<in> set ds. d < b"
  shows "span_digits b (map digit ds) = (ds, [])"
  using assms by (induction ds) (auto simp: digit_value_digit)

lemma span_dec:
  "span_digits (fst (detect_base (dec n))) (snd (detect_base (dec n))) = (digits 10 n, [])"
  "foldl (\<lambda>v d. v * fst (detect_base (dec n)) + d) 0 (digits 10 n) = n"
  "strip_sign (dropWhile is_space (dec n)) = (False, dec n)"
proof -
  let ?ds = "digits 10 n"
  obtain d ds where ds: "?ds = d # ds" using digits_nonempty[of 10 n] by (cases ?ds) auto
  have small: "\<forall>x \<in> set ?ds. x < 10" using digits_small[of 10] by simp
  then have d: "d < 10" by (simp add: ds)
  have dt: "dec n = digit d # map digit ds" by (simp add: dec_def ds)
  show "strip_sign (dropWhile is_space (dec n)) = (False, dec n)"
    using digit_not[OF d] by (simp add: dt strip_sign_def)
  have "span_digits (fst (detect_base (dec n))) (snd (detect_base (dec n))) = (?ds, []) \<and>
      foldl (\<lambda>v d. v * fst (detect_base (dec n)) + d) 0 ?ds = n"
  proof (cases "n = 0")
    case True
    then have e: "?ds = [0]" by (simp add: digits.simps)
    have z: "digit 0 = CHR ''0''" using digit_not(6)[of 0] by simp
    then have "detect_base (dec n) = (8, map digit [0])"
      by (simp add: dec_def e detect_base_def)
    moreover have "span_digits 8 (map digit [0]) = ([0], [])"
      by (rule span_digits_map) simp_all
    ultimately show ?thesis using True e by simp
  next
    case False
    then have "d \<noteq> 0" using digits_head[of 10 n] ds by simp
    then have "detect_base (dec n) = (10, dec n)"
      using digit_not(6)[OF d] by (auto simp: dt detect_base_def split: list.split)
    moreover have "span_digits 10 (dec n) = (?ds, [])"
      unfolding dec_def using small by (intro span_digits_map) simp_all
    ultimately show ?thesis using digits_value[of 10 n] by simp
  qed
  then show "span_digits (fst (detect_base (dec n))) (snd (detect_base (dec n))) = (?ds, [])"
    "foldl (\<lambda>v d. v * fst (detect_base (dec n)) + d) 0 ?ds = n" by simp_all
qed

lemma strtoul_dec:
  "strtoul (dec n) = (if n \<ge> 2 ^ 64 then (2 ^ 64 - 1, [], True) else (n, [], False))"
  using span_dec[of n] digits_nonempty[of 10 n]
  by (simp add: strtoul_def split_beta Let_def)

lemma strtoul_minus:
  "strtoul (CHR ''-'' # dec n) =
     (if n \<ge> 2 ^ 64 then (2 ^ 64 - 1, [], True) else ((2 ^ 64 - n) mod 2 ^ 64, [], False))"
proof -
  have "strip_sign (dropWhile is_space (CHR ''-'' # dec n)) = (True, dec n)"
    by (simp add: is_space_def strip_sign_def)
  then show ?thesis
    using span_dec(1,2)[of n] digits_nonempty[of 10 n]
    by (simp add: strtoul_def split_beta Let_def)
qed

lemma dec_nonempty: "dec n \<noteq> []"
  by (simp add: dec_def digits_nonempty)

lemma parse_dec_nat: "parse_uint (dec n) = (if n \<le> 0xffffffff then Some (of_nat n) else None)"
  by (simp add: parse_uint_def strtoul_dec dec_nonempty)

lemma parse_dec: "parse_uint (dec (unat v)) = Some v"
proof -
  have "unat v < 2 ^ 32" using unsigned_less[of v, where 'a = nat] by simp
  then show ?thesis by (simp add: parse_dec_nat)
qed

lemma device_path_length: "length (device_path c) < path_size"
proof -
  have "unat c < 10 ^ Suc 9" using unsigned_less[of c, where 'a = nat] by simp
  from digits_length[OF _ this] show ?thesis
    by (simp add: device_path_def dec_def path_size_def)
qed

section \<open>What a command adds to the trace\<close>

definition adds :: "(uevent \<Rightarrow> bool) \<Rightarrow> ('k process, 'a) state \<Rightarrow> bool" where
  "adds P m \<longleftrightarrow> (\<forall>u. \<exists>evs. trace (snd (run_state m u)) = evs @ trace u \<and> list_all P evs)"

lemma adds_return: "adds P (State_Monad.return a)"
  by (simp add: adds_def)

lemma adds_bind:
  assumes "adds P m" and "\<And>a. adds P (f a)"
  shows "adds P (State_Monad.bind m f)"
  unfolding adds_def
proof
  fix u
  obtain a v where m: "run_state m u = (a, v)" by (meson surj_pair)
  obtain b w where f: "run_state (f a) v = (b, w)" by (meson surj_pair)
  obtain xs where "trace v = xs @ trace u" "list_all P xs"
    using assms(1) m unfolding adds_def by (metis snd_conv)
  moreover obtain ys where "trace w = ys @ trace v" "list_all P ys"
    using assms(2) f unfolding adds_def by (metis snd_conv)
  ultimately have "trace w = (ys @ xs) @ trace u \<and> list_all P (ys @ xs)" by simp
  with m f show "\<exists>evs. trace (snd (run_state (State_Monad.bind m f) u)) = evs @ trace u \<and>
      list_all P evs" by auto
qed

lemma adds_happens: "P e \<Longrightarrow> adds P (happens e)"
  by (auto simp: adds_def intro: exI[of _ "[e]"])

lemma adds_load_fd: "P (Use a) \<Longrightarrow> adds P (load_fd a)"
  by (auto simp: adds_def intro: exI[of _ "[Use a]"])

lemma adds_syscall: "adds P (syscall f)"
  by (simp add: adds_def)

lemma adds_try_each: "(\<And>x. x \<in> set xs \<Longrightarrow> adds P (f x)) \<Longrightarrow> adds P (try_each xs f)"
proof (induction xs)
  case (Cons x xs)
  have "adds P (f x)" "adds P (try_each xs f)" using Cons by simp_all
  then show ?case by (auto intro!: adds_bind split: sum.split simp: adds_return)
qed (simp add: adds_return)

lemma adds_if: "adds P m \<Longrightarrow> adds P n \<Longrightarrow> adds P (if b then m else n)"
  by simp

lemma adds_case_sum:
  "(\<And>e. adds P (f e)) \<Longrightarrow> (\<And>v. adds P (g v)) \<Longrightarrow> adds P (case x of Inl e \<Rightarrow> f e | Inr v \<Rightarrow> g v)"
  by (cases x) simp_all

lemmas adds_rules = adds_bind adds_return adds_happens adds_load_fd adds_syscall adds_try_each
  adds_if adds_case_sum

text \<open>The events of a command on a handle.\<close>

fun benign :: "nat \<Rightarrow> uevent \<Rightarrow> bool" where
  "benign a (Use b) = (b = a)"
| "benign a (Called _ _) = True"
| "benign a (Print _) = True"
| "benign a Usage = True"
| "benign a _ = False"

lemma adds_lib_ioctl: "adds (benign a) (lib_ioctl os a command arg)"
  unfolding lib_ioctl_def by (intro adds_rules) simp_all

lemma adds_lib:
  "adds (benign a) (uad2_compute_get_info os (Some a) info)"
  "adds (benign a) (uad2_compute_get_dsp_status os (Some a) dsp status)"
  "adds (benign a) (uad2_compute_reset_dsp os (Some a) dsp)"
  "adds (benign a) (lib_command os (Some a) command)"
  unfolding uad2_compute_get_info_def uad2_compute_get_dsp_status_def uad2_compute_reset_dsp_def
    lib_command_def option.case
  by (intro adds_rules adds_lib_ioctl)+

lemma adds_print: "adds (benign a) (print line)" "adds (benign a) usage"
  unfolding print_def usage_def by (intro adds_rules; simp)+

lemma adds_run_command: "adds (benign a) (run_command os (Some a) command dsp)"
  unfolding run_command_def show_info_def show_status_def do_reset_def
    uad2_compute_start_transport_def uad2_compute_stop_transport_def
  by (intro adds_rules adds_lib adds_print)

fun is_close :: "uevent \<Rightarrow> bool" where
  "is_close (Closed _) = True"
| "is_close _ = False"

definition closes :: "uevent list \<Rightarrow> nat" where
  "closes h = length (filter is_close h)"

lemma closes_simps [simp]:
  "closes [] = 0" "closes (e # h) = (if is_close e then 1 else 0) + closes h"
  "closes (g @ h) = closes g + closes h"
  by (simp_all add: closes_def)

lemma benign_closes: "list_all (benign a) evs \<Longrightarrow> closes evs = 0"
proof (induction evs)
  case (Cons e evs) then show ?case by (cases e) auto
qed simp

lemma benign_live: "list_all (benign a) evs \<Longrightarrow> live_handle (evs @ h) b = live_handle h b"
proof (induction evs)
  case (Cons e evs) then show ?case by (cases e) auto
qed simp

lemma benign_memory:
  assumes "list_all (benign a) evs" "live_handle h a"
  shows "memory_ok (evs @ h) = memory_ok h"
  using assms(1)
proof (induction evs)
  case (Cons e evs)
  with benign_live[of a evs h a] assms(2) show ?case by (cases e) auto
qed simp

definition start_process :: "'k \<Rightarrow> 'k process" where
  "start_process k = \<lparr>system = k, trace = [], fd_of = (\<lambda>_. 0), next_addr = 0\<rparr>"

text \<open>What \<^verbatim>\<open>main\<close> does once its arguments are parsed.\<close>

definition main_post :: "exit_code \<Rightarrow> 'k process \<Rightarrow> bool" where
  "main_post x v \<longleftrightarrow> closes (trace v) \<le> 2 \<and> (x = EXIT_SUCCESS \<longleftrightarrow> closes (trace v) = 1) \<and>
     (memory_ok (trace v) \<longleftrightarrow> closes (trace v) < 2)"

lemma close_run:
  "wp (uad2_compute_close os (Some a)) Q u = Q () (u\<lparr>system := close_sys os (fd_of u a) (system u),
     trace := Free a # Closed (fd_of u a) # Use a # trace u\<rparr>)"
  by (simp add: uad2_compute_close_def wp_simps)

lemma command_post:
  assumes "trace u = [Opened p, Alloc 0]"
  shows "wp (main_command os (Some 0) command dsp) main_post u"
proof -
  obtain r v where run: "run_state (run_command os (Some 0) command dsp) u = (r, v)"
    by (meson surj_pair)
  obtain evs where evs: "trace v = evs @ [Opened p, Alloc 0]" "list_all (benign 0) evs"
    using adds_run_command[of 0 os command dsp] run assms unfolding adds_def by (metis snd_conv)
  have "wp (uad2_compute_close os (Some 0)) (\<lambda>_. wp (case r of
        Inr _ \<Rightarrow> State_Monad.return EXIT_SUCCESS
      | Inl error \<Rightarrow> main_fail os error (Some 0)) main_post) v"
    using evs(1) benign_closes[OF evs(2)] benign_live[OF evs(2), of "[Opened p, Alloc 0]"]
      benign_memory[OF evs(2), of "[Opened p, Alloc 0]"]
    by (cases r) (simp_all add: close_run main_fail_def wp_simps main_post_def)
  with run show ?thesis by (simp add: main_command_def wp_bind) (simp add: wp_def)
qed

lemma main_closes: "wp (uad2ctl_main os argv) main_post (start_process k)"
proof (cases "parse_args argv")
  case None
  then show ?thesis
    by (simp add: uad2ctl_main_def usage_def wp_simps main_post_def start_process_def)
next
  case (Some a)
  obtain c command dsp where a: "a = (c, command, dsp)" by (cases a)
  have len: "\<not> path_size \<le> length (device_path c)" using device_path_length[of c] by simp
  show ?thesis
  proof (cases "calloc_ok os k")
    case False
    then show ?thesis
      using Some len
      by (simp add: uad2ctl_main_def a uad2_compute_open_def wp_simps start_process_def
          main_fail_def uad2_compute_close_def main_post_def)
  next
    case True
    then show ?thesis
      using Some len
      by (cases "fst (open_sys os (device_path c) k)")
        (simp_all add: uad2ctl_main_def a uad2_compute_open_def wp_simps start_process_def
          main_fail_def uad2_compute_close_def main_post_def command_post)
  qed
qed

end
