(* ===== verification/Lib_Properties.thy ===== *)
theory Lib_Properties
  imports Uad2ctl
begin

text \<open>
  The properties of the user-space library and the command line tool. Those about answers of
  the device rest on the interpretation of \<^verbatim>\<open>compute_device\<close> on the kernel driver's model, so
  they speak about library and driver together.
\<close>

section \<open>A concrete host\<close>

definition demo_host :: "bool \<Rightarrow> host" where
  "demo_host p = \<lparr>hsys = demo_sys, fds = [3], next_fd = 4, privileged = p\<rparr>"

lemma demo_host_good: "host_good octo_card (demo_host p)"
  using demo_sys by (simp add: host_good_def demo_host_def)

text \<open>An open of the registered path on a good host with a bound device.\<close>

lemma device_path_name: "device_path i = ''/dev/'' @ device_name i"
  by (simp add: device_path_def device_name_def)

lemma host_open_run:
  assumes "host_good hw h" "phase (hsys h) = Bound"
    and "misc_name (dev (kern (hsys h))) = Some (device_name i)"
  shows "\<exists>y. host_open (device_path i) h = (Inr (next_fd h), h\<lparr>hsys := y,
      fds := next_fd h # fds h, next_fd := next_fd h + 1\<rparr>) \<and>
    bound (kern y) \<and> phase y = Bound \<and> started (dev (kern y)) = started (dev (kern (hsys h))) \<and>
    host_good hw (h\<lparr>hsys := y, fds := next_fd h # fds h, next_fd := next_fd h + 1\<rparr>)"
proof -
  let ?k = "kern (hsys h)"
  have r: "reachable hw (hsys h)" using assms(1) by (simp add: host_good_def)
  have b: "bound ?k" by (rule reachable_bound[OF r assms(2)])
  have "refcount (dev ?k) > 0" using reachable_inv[OF r] assms(2) by (simp add: sys_inv_def)
  then have run: "run_state uad2_open ?k =
      (Inr (), ?k\<lparr>dev := (dev ?k)\<lparr>refcount := refcount (dev ?k) + 1\<rparr>\<rparr>)"
    using b by (intro open_alive) (simp_all add: attached_def)
  have "registered_path (hsys h) (device_path i)"
    using assms(2,3) by (simp add: registered_path_def device_path_name)
  moreover
  let ?y = "(hsys h)\<lparr>kern := ?k\<lparr>dev := (dev ?k)\<lparr>refcount := refcount (dev ?k) + 1\<rparr>\<rparr>,
    files := files (hsys h) + 1\<rparr>"
  have "sys_act hw Open (hsys h) = Some ?y" using run assms(2) by (simp add: with_kern_def)
  from reachable.step[OF r this] have "reachable hw ?y" .
  ultimately show ?thesis
    using run b assms(1,2)
    by (intro exI[of _ ?y]) (simp add: host_open_def with_kern_def host_good_def)
qed

text \<open>Start and stop through an open descriptor.\<close>

lemma host_start_run:
  assumes "octo_hw hw" "fd \<in> set (fds h)" "privileged h" "bound (kern (hsys h))"
  shows "\<exists>k. host_ioctl hw fd UAD2_COMPUTE_IOC_START_TRANSPORT NoArg h =
    (Inr NoArg, h\<lparr>hsys := (hsys h)\<lparr>kern := k\<rparr>\<rparr>) \<and> bound k \<and> started (dev k) \<and> running (log k)"
proof -
  obtain r k where run: "run_state (uad2_ioctl hw UAD2_COMPUTE_IOC_START_TRANSPORT
      (arg_caller (privileged h) NoArg)) (kern (hsys h)) = (r, k)" by (meson surj_pair)
  have "cap_sys_rawio (arg_caller (privileged h) NoArg)" using assms(3) by simp
  from wp_runD[OF ioctl_start_run[OF assms(1,4) this] run] run assms(2) show ?thesis
    by (intro exI[of _ k]) (simp add: host_ioctl_def with_kern_def)
qed

lemma host_unprivileged_run:
  assumes "fd \<in> set (fds h)" "\<not> privileged h" "bound (kern (hsys h))"
    and "command \<in> {UAD2_COMPUTE_IOC_START_TRANSPORT, UAD2_COMPUTE_IOC_STOP_TRANSPORT,
      UAD2_COMPUTE_IOC_RESET_DSP}"
  shows "fst (host_ioctl hw fd command NoArg h) = Inl EPERM"
proof -
  obtain r k where run: "run_state (uad2_ioctl hw command (arg_caller (privileged h) NoArg))
      (kern (hsys h)) = (r, k)" by (meson surj_pair)
  have "\<not> cap_sys_rawio (arg_caller (privileged h) NoArg)" using assms(2) by simp
  from wp_runD[OF ioctl_unprivileged[OF this boundD(3)[OF assms(3)]] run] boundD(4)[OF assms(3)]
    assms(4)
  have "fst r = Inl EPERM" by (auto split: prod.splits)
  with run assms(1) show ?thesis
    by (cases r) (simp add: host_ioctl_def with_kern_def)
qed

lemma demo_name: "misc_name (dev (kern demo_sys)) = Some (device_name 0)"
proof -
  obtain r k where rk: "run_state (uad2_probe octo_card demo_env) (kern sys_init) = (r, k)"
    by (meson surj_pair)
  have c: "clean (log (kern sys_init))" by (simp add: sys_init_def clean_Nil)
  have "probe_error demo_env True = None"
    by (simp add: probe_error_def demo_env_def alloc_all_def)
  then have "r = Inr ()"
    using wp_runD[OF probe_result[OF c] rk] octo_card_octo by (auto simp: error_result_def)
  then have k: "bound k" "refcount (dev k) = 1" "misc_name (dev k) = Some (device_name 0)"
    using wp_runD[OF probe_spec[OF c] rk] by (simp_all add: sys_init_def)
  then have "run_state uad2_open k = (Inr (), k\<lparr>dev := (dev k)\<lparr>refcount := 2\<rparr>\<rparr>)"
    using open_alive[of k] by (simp add: attached_def numeral_2_eq_2)
  with rk \<open>r = Inr ()\<close> k show ?thesis
    by (simp add: demo_sys_def with_kern_def sys_init_def)
qed

section \<open>The command line tool\<close>

text \<open>
  C17. Handles in uad2ctl. For every system and argument vector, main closes its handle at most
  twice; it exits successfully exactly when it closed once; and its memory use is valid (every
  handle is used and freed only while allocated) exactly when it closed less than twice.
\<close>

theorem ctl_handle_discipline:
  "\<exists>x v. run_state (uad2ctl_main os argv) (start_process k) = (x, v) \<and>
     closes (trace v) \<le> 2 \<and> (x = EXIT_SUCCESS \<longleftrightarrow> closes (trace v) = 1) \<and>
     (memory_ok (trace v) \<longleftrightarrow> closes (trace v) < 2)"
proof -
  obtain x v where run: "run_state (uad2ctl_main os argv) (start_process k) = (x, v)"
    by (meson surj_pair)
  from wp_runD[OF main_closes run] run show ?thesis by (auto simp: main_post_def)
qed

lemma main_open:
  assumes "parse_args argv = Some (c, command, dsp)" "calloc_ok os k"
    and "open_sys os (device_path c) k = (Inr fd, k')"
  shows "wp (uad2ctl_main os argv) Q (start_process k) =
    wp (main_command os (Some 0) command dsp) Q
      \<lparr>system = k', trace = [Opened (device_path c), Alloc 0], fd_of = (\<lambda>_. 0)(0 := fd),
       next_addr = 1\<rparr>"
  using assms device_path_length[of c]
  by (simp add: uad2ctl_main_def uad2_compute_open_def wp_simps start_process_def)

text \<open>
  C18. A failing command closes its handle twice. Whenever the arguments parse, the open
  succeeds and the command then fails, main exits with failure after closing the same
  descriptor twice and using and freeing the handle after it was freed.
\<close>

theorem ctl_failed_command:
  assumes "parse_args argv = Some (c, command, dsp)" "calloc_ok os k"
    and "open_sys os (device_path c) k = (Inr fd, k')"
    and "run_state (run_command os (Some 0) command dsp)
      \<lparr>system = k', trace = [Opened (device_path c), Alloc 0], fd_of = (\<lambda>_. 0)(0 := fd),
       next_addr = 1\<rparr> = (Inl e, v)"
  shows "\<exists>w. run_state (uad2ctl_main os argv) (start_process k) = (EXIT_FAILURE, w) \<and>
    closes (trace w) = 2 \<and> \<not> memory_ok (trace w)"
proof -
  let ?u = "\<lparr>system = k', trace = [Opened (device_path c), Alloc 0], fd_of = (\<lambda>_. 0)(0 := fd),
    next_addr = 1\<rparr>"
  obtain evs where evs: "trace v = evs @ [Opened (device_path c), Alloc 0]" "list_all (benign 0) evs"
    using adds_run_command[of 0 os command dsp] assms(4) unfolding adds_def
    by (metis snd_conv process.select_convs(2))
  have "wp (run_command os (Some 0) command dsp) (\<lambda>r u. r = Inl e \<and> u = v) ?u"
    using assms(4) by (simp add: wp_def)
  then have "wp (main_command os (Some 0) command dsp) (\<lambda>x w. x = EXIT_FAILURE \<and>
      closes (trace w) = 2) ?u"
    unfolding main_command_def wp_bind
    by (rule wp_mono) (use evs benign_closes[OF evs(2)] in
      \<open>auto simp: close_run main_fail_def wp_simps\<close>)
  then have "wp (uad2ctl_main os argv) (\<lambda>x w. x = EXIT_FAILURE \<and> closes (trace w) = 2)
      (start_process k)"
    by (simp only: main_open[OF assms(1-3)])
  moreover have "wp (uad2ctl_main os argv) main_post (start_process k)" by (rule main_closes)
  ultimately show ?thesis by (auto simp: wp_run main_post_def prod_eq_iff)
qed

theorem ctl_failed_command_witness:
  "\<exists>w. run_state (uad2ctl_main (host_os octo_card) [''uad2ctl'', ''start''])
       (start_process (demo_host False)) = (EXIT_FAILURE, w) \<and>
     closes (trace w) = 2 \<and> \<not> memory_ok (trace w)"
proof -
  let ?os = "host_os octo_card" and ?h = "demo_host False"
  have args: "parse_args [''uad2ctl'', ''start''] = Some (0, ''start'', 0)"
    by (simp add: parse_args_def)
  obtain y where open': "host_open (device_path 0) ?h = (Inr 4, ?h\<lparr>hsys := y, fds := [4, 3],
      next_fd := 5\<rparr>)" and y: "bound (kern y)"
    using host_open_run[OF demo_host_good, of False 0] demo_sys(2) demo_name
    by (auto simp: demo_host_def)
  let ?k = "?h\<lparr>hsys := y, fds := [4, 3], next_fd := 5\<rparr>"
  let ?u = "\<lparr>system = ?k, trace = [Opened (device_path 0), Alloc 0], fd_of = (\<lambda>_. 0)(0 := 4),
    next_addr = 1\<rparr>"
  have "fst (host_ioctl octo_card 4 UAD2_COMPUTE_IOC_START_TRANSPORT NoArg ?k) = Inl EPERM"
    by (rule host_unprivileged_run) (use y in \<open>simp_all add: demo_host_def\<close>)
  then have "\<exists>v. run_state (run_command ?os (Some 0) ''start'' 0) ?u = (Inl EPERM, v)"
    by (simp add: run_command_def uad2_compute_start_transport_def lib_command_def lib_ioctl_def
        host_os_def)
  then obtain v where "run_state (run_command ?os (Some 0) ''start'' 0) ?u = (Inl EPERM, v)" by blast
  from ctl_failed_command[OF args _ _ this] open' show ?thesis by (simp add: host_os_def)
qed

text \<open>
  C19. Numbers. The numeral of every value up to the largest 32-bit one parses to that value
  and the numeral of every larger value is refused, also those beyond 64 bits: what
  \<^verbatim>\<open>--card\<close> and \<^verbatim>\<open>reset\<close> receive is what was typed, never a truncation of it.
\<close>

theorem parse_uint_numeral:
  "parse_uint (dec n) = (if n \<le> 0xffffffff then Some (of_nat n) else None)"
  by (rule parse_dec_nat)


text \<open>
  Negative numbers wrap. A numeral with a minus sign is not refused as such: it is
  accepted exactly for zero and for values within \<open>2^32 - 1\<close> below \<open>2^64\<close>, and then read
  modulo \<open>2^64\<close>, so that \<^verbatim>\<open>-18446744073709551615\<close> names card 1.
\<close>

theorem parse_uint_negative:
  "parse_uint (CHR ''-'' # dec n) =
     (if n = 0 then Some 0
      else if 2 ^ 64 - 0xffffffff \<le> n \<and> n < 2 ^ 64 then Some (of_nat (2 ^ 64 - n)) else None)"
proof (cases "n = 0 \<or> n \<ge> 2 ^ 64")
  case False
  then have "(2 ^ 64 - n) mod 2 ^ 64 = 2 ^ 64 - n" by simp
  with False show ?thesis by (auto simp: parse_uint_def strtoul_minus)
qed (auto simp: parse_uint_def strtoul_minus)

section \<open>The library\<close>

text \<open>
  Argument checks. With a null handle, a null result pointer or a DSP index of eight or
  more, no library function makes a system call or touches memory: it returns EINVAL with the
  process unchanged.
\<close>

theorem lib_argument_checks:
  assumes "h = None \<or> d \<ge> 8"
  shows "run_state (uad2_compute_get_dsp_status os h d p) u = (Inl EINVAL, u) \<and>
    run_state (uad2_compute_get_dsp_status os (Some a) d False) u = (Inl EINVAL, u) \<and>
    run_state (uad2_compute_reset_dsp os h d) u = (Inl EINVAL, u) \<and>
    run_state (uad2_compute_get_info os None p) u = (Inl EINVAL, u) \<and>
    run_state (uad2_compute_get_info os (Some a) False) u = (Inl EINVAL, u) \<and>
    run_state (uad2_compute_start_transport os None) u = (Inl EINVAL, u) \<and>
    run_state (uad2_compute_stop_transport os None) u = (Inl EINVAL, u)"
  using assms
  by (auto simp: uad2_compute_get_dsp_status_def uad2_compute_reset_dsp_def
      uad2_compute_get_info_def uad2_compute_start_transport_def uad2_compute_stop_transport_def
      lib_command_def UAD2_COMPUTE_DSP_COUNT_def split: option.split)

theorem lib_argument_checks_witness:
  "run_state (uad2_compute_reset_dsp (host_os octo_card) (Some 0) 8)
     (start_process (demo_host True)) = (Inl EINVAL, start_process (demo_host True))"
  using lib_argument_checks[of "Some 0" 8 "host_os octo_card" True "start_process (demo_host True)" 0]
  by simp

text \<open>
  Open. For every card number the path fits the 64-byte buffer, so the library's own
  ENAMETOOLONG is never returned, and it is the path under which the driver registers the
  device of that index. Open allocates one handle, keeps it exactly when the system call
  succeeds, and otherwise frees it and returns the call's error with a NULL handle.
\<close>

theorem open_outcome:
  "run_state (uad2_compute_open os i True) (start_process k) =
     (if \<not> calloc_ok os k then ((Inl ENOMEM, None), start_process k)
      else let path = ''/dev/'' @ device_name i in
        case open_sys os path k of
          (Inl e, k') \<Rightarrow> ((Inl e, None), (start_process k)\<lparr>system := k', next_addr := 1,
             trace := [Free 0, Opened path, Alloc 0]\<rparr>)
        | (Inr fd, k') \<Rightarrow> ((Inr (), Some 0), (start_process k)\<lparr>system := k', next_addr := 1,
             trace := [Opened path, Alloc 0], fd_of := (\<lambda>_. 0)(0 := fd)\<rparr>))"
proof -
  have "\<not> path_size \<le> length (device_path i)" using device_path_length[of i] by simp
  then show ?thesis
    unfolding device_path_name[symmetric]
    by (auto simp: uad2_compute_open_def start_process_def Let_def split: prod.split sum.split)
qed



text \<open>
  C22. Start from the command line. On a card that answers as documented, with the device
  bound under the card number given and CAP_SYS_RAWIO, \<^verbatim>\<open>uad2ctl start\<close> exits successfully,
  leaves the transport running, closes its handle once and uses its memory correctly.
\<close>

theorem ctl_start:
  assumes "octo_hw hw" "host_good hw k" "phase (hsys k) = Bound" "privileged k"
    and "misc_name (dev (kern (hsys k))) = Some (device_name i)"
    and "parse_args argv = Some (i, ''start'', d)"
  shows "\<exists>v. run_state (uad2ctl_main (host_os hw) argv) (start_process k) = (EXIT_SUCCESS, v) \<and>
    started (dev (kern (hsys (system v)))) \<and> running (log (kern (hsys (system v)))) \<and>
    memory_ok (trace v)"
proof -
  let ?os = "host_os hw" and ?fd = "next_fd k"
  obtain y where open': "host_open (device_path i) k = (Inr ?fd, k\<lparr>hsys := y, fds := ?fd # fds k,
      next_fd := ?fd + 1\<rparr>)" and y: "bound (kern y)" "phase y = Bound"
    and good: "host_good hw (k\<lparr>hsys := y, fds := ?fd # fds k, next_fd := ?fd + 1\<rparr>)"
    using host_open_run[OF assms(2,3,5)] by blast
  let ?k = "k\<lparr>hsys := y, fds := ?fd # fds k, next_fd := ?fd + 1\<rparr>"
  obtain s where start: "host_ioctl hw ?fd UAD2_COMPUTE_IOC_START_TRANSPORT NoArg ?k =
      (Inr NoArg, ?k\<lparr>hsys := y\<lparr>kern := s\<rparr>\<rparr>)" and s: "started (dev s)" "running (log s)"
    using host_start_run[OF assms(1), of ?fd ?k] assms(4) y by auto
  let ?l = "?k\<lparr>hsys := y\<lparr>kern := s\<rparr>\<rparr>"
  have "host_good hw ?l"
    using kernel_host.good_ioctl[OF good, of ?fd UAD2_COMPUTE_IOC_START_TRANSPORT NoArg] start
    by (simp add: host_os_def)
  then have "refcount (dev s) > 1"
    using reachable_inv[of hw "hsys ?l"] y(2) by (auto simp: host_good_def sys_inv_def)
  then have close: "host_close ?fd ?l = ?l\<lparr>hsys := (y\<lparr>kern := s\<lparr>dev := (dev s)
      \<lparr>refcount := refcount (dev s) - 1\<rparr>\<rparr>, files := files y - 1\<rparr>), fds := fds k\<rparr>"
    using kref_put_more[of s] by (simp add: host_close_def with_kern_def uad2_release_def)
  let ?u = "\<lparr>system = ?k, trace = [Opened (device_path i), Alloc 0], fd_of = (\<lambda>_. 0)(0 := ?fd),
    next_addr = 1\<rparr>"
  have "wp (main_command ?os (Some 0) ''start'' d) (\<lambda>x v. x = EXIT_SUCCESS \<and>
      started (dev (kern (hsys (system v)))) \<and> running (log (kern (hsys (system v))))) ?u"
    using start close s
    by (simp add: main_command_def run_command_def uad2_compute_start_transport_def
        lib_command_def lib_ioctl_def wp_simps close_run host_os_def)
  then have "wp (uad2ctl_main ?os argv) (\<lambda>x v. x = EXIT_SUCCESS \<and>
      started (dev (kern (hsys (system v)))) \<and> running (log (kern (hsys (system v)))))
      (start_process k)"
    using main_open[OF assms(6), of ?os k] open' by (simp add: host_os_def)
  with main_closes[of ?os argv k] show ?thesis
    by (auto simp: wp_run main_post_def prod_eq_iff)
qed

theorem ctl_start_witness:
  "\<exists>v. run_state (uad2ctl_main (host_os octo_card) [''uad2ctl'', ''--card'', ''0'', ''start''])
     (start_process (demo_host True)) = (EXIT_SUCCESS, v) \<and>
     started (dev (kern (hsys (system v))))"
proof -
  have "udec 0 = ''0''"
  proof -
    have "digits 10 0 = [0]" by (simp add: digits.simps)
    moreover have "digit 0 = CHR ''0''" using digit_not(6)[of 0] by simp
    ultimately show ?thesis by (simp add: udec_def dec_def)
  qed
  then have "parse_uint ''0'' = Some 0" using parse_dec[of 0] by (simp add: udec_def)
  then have args: "parse_args [''uad2ctl'', ''--card'', ''0'', ''start''] = Some (0, ''start'', 0)"
    by (simp add: parse_args_def nth_Cons')
  from ctl_start[OF octo_card_octo demo_host_good _ _ _ args] demo_sys(2) demo_name
  show ?thesis by (auto simp: demo_host_def)
qed

end
