(* ===== verification/Ring_Port.thy ===== *)
theory Ring_Port
  imports Bus
begin

text \<open>
  The register routines the user-space tools of \<^verbatim>\<open>tools/\<close> have in common (each C file holds its
  own copy over its own \<^verbatim>\<open>mmio_read32\<close>/\<^verbatim>\<open>mmio_write32\<close> pair): the ready and ring scans, the
  publication of one ring, the clearing of all rings, the restore sequence. They take the pair
  as arguments, so one set of lemmas, proved in the interface \<^verbatim>\<open>mmio_port\<close>, serves every tool:
  what a scan that succeeds has seen (\<open>checks\<close>), the exact stores of a store-only routine
  (\<open>stores\<close>), and the stores of a routine that also loads (\<open>writing\<close>).
\<close>

type_synonym 's rd = "u32 \<Rightarrow> ('s, u32) state"
type_synonym 's wr = "u32 \<Rightarrow> u32 \<Rightarrow> ('s, unit) state"

section \<open>The tables and the routines\<close>

definition DMA_CONTROL :: u32 where [simp]: "DMA_CONTROL = 0x2200"
definition INTERRUPT_ENABLE :: u32 where [simp]: "INTERRUPT_ENABLE = 0x2204"
definition INTERRUPT_ACK :: u32 where [simp]: "INTERRUPT_ACK = 0x2208"
definition NOTIFICATION_CONTROL :: u32 where [simp]: "NOTIFICATION_CONTROL = 0x2220"
definition FPGA_REVISION :: u32 where [simp]: "FPGA_REVISION = 0x2218"
definition EXTENDED_CAPABILITIES :: u32 where [simp]: "EXTENDED_CAPABILITIES = 0x2234"
definition DMA_COLD_RESET :: u32 where [simp]: "DMA_COLD_RESET = 0x0001fe00"
definition DMA_RESET_GLOBAL :: u32 where [simp]: "DMA_RESET_GLOBAL = 0x0001fe01"
definition DMA_GLOBAL_ONLY :: u32 where [simp]: "DMA_GLOBAL_ONLY = 0x00000001"
definition DMA_ALL_DSPS :: u32 where [simp]: "DMA_ALL_DSPS = 0x000001ff"
definition EXPECTED_FPGA_REVISION :: u32 where "EXPECTED_FPGA_REVISION = 0xa012dc0d"
definition EXPECTED_CAPABILITIES :: u32 where "EXPECTED_CAPABILITIES = 0x00300811"

definition dsp_banks :: "u32 list" where
  "dsp_banks = [0x2000, 0x2080, 0x2100, 0x2180, 0x6000, 0x6080, 0x6100, 0x6180]"

definition boot_offsets :: "u32 list" where
  "boot_offsets = [0x01a4, 0x09a4, 0x11a4, 0x19a4, 0x41a4, 0x49a4, 0x51a4, 0x59a4]"

definition ring_base :: "nat \<Rightarrow> nat \<Rightarrow> u32" where
  "ring_base dsp ring = dsp_banks ! dsp + of_nat ring * 0x40"

text \<open>The rings of DSP 0, for the tools that use no other.\<close>

definition DSP0_CMD_BASE :: u32 where "DSP0_CMD_BASE = 0x2000"
definition DSP0_RESP_BASE :: u32 where "DSP0_RESP_BASE = 0x2040"

definition read_is :: "'s rd \<Rightarrow> u32 \<Rightarrow> u32 \<Rightarrow> ('s, bool) state" where
  "read_is rd offset expected = do { v \<leftarrow> rd offset; State_Monad.return (v = expected) }"

definition scan_ready :: "'s rd \<Rightarrow> ('s, bool) state" where
  "scan_ready rd = all_m [0..<8] (\<lambda>dsp.
     do { v \<leftarrow> rd (boot_offsets ! dsp); State_Monad.return (v AND 1 \<noteq> 0) })"

definition scan_rings :: "'s rd \<Rightarrow> (nat \<Rightarrow> nat \<Rightarrow> nat \<Rightarrow> u32 \<Rightarrow> bool) \<Rightarrow> ('s, bool) state" where
  "scan_rings rd p = all_m [0..<8] (\<lambda>dsp. all_m [0..<2] (\<lambda>ring. all_m [0..<16] (\<lambda>field.
     do { v \<leftarrow> rd (ring_base dsp ring + of_nat field * 4);
          State_Monad.return (p dsp ring field v) })))"

abbreviation scan_rings_zero :: "'s rd \<Rightarrow> ('s, bool) state" where
  "scan_rings_zero rd \<equiv> scan_rings rd (\<lambda>_ _ _ v. v = 0)"

definition store_address :: "'s wr \<Rightarrow> u32 \<Rightarrow> u64 \<Rightarrow> ('s, unit) state" where
  "store_address wr offset iova =
     do { wr offset (lower_32_bits iova); wr (offset + 4) (upper_32_bits iova) }"

definition publish_ring :: "'s wr \<Rightarrow> u32 \<Rightarrow> u64 \<Rightarrow> u32 \<Rightarrow> ('s, unit) state" where
  "publish_ring wr base first index =
     do { wr (base + 0x24) index;
          wr (base + 0x20) index;
          for_each [0..<4] (\<lambda>page.
            store_address wr (base + of_nat page * 8) (first + of_nat page * 4096)) }"

definition clear_rings :: "'s wr \<Rightarrow> ('s, unit) state" where
  "clear_rings wr = for_each [0..<8] (\<lambda>dsp. for_each [0..<2] (\<lambda>ring. for_each [0..<10] (\<lambda>field.
     wr (ring_base dsp ring + of_nat field * 4) 0)))"

text \<open>The six stores before the rings are published, and the sequence back to the cold state.\<close>

definition quiesce_card :: "'s wr \<Rightarrow> ('s, unit) state" where
  "quiesce_card wr =
     do { wr NOTIFICATION_CONTROL 0;
          wr INTERRUPT_ENABLE 0;
          wr INTERRUPT_ACK 0;
          wr DMA_CONTROL DMA_RESET_GLOBAL;
          wr DMA_CONTROL DMA_GLOBAL_ONLY;
          wr INTERRUPT_ACK 0xffffffff }"

definition restore_card :: "'s wr \<Rightarrow> ('s, unit) state" where
  "restore_card wr =
     do { wr INTERRUPT_ENABLE 0;
          wr INTERRUPT_ACK 0xffffffff;
          wr DMA_CONTROL DMA_RESET_GLOBAL;
          wr DMA_CONTROL DMA_GLOBAL_ONLY;
          clear_rings wr;
          wr DMA_CONTROL DMA_COLD_RESET }"

lemma ring_base_reg:
  assumes "d < 8"
  shows "ring_base d r = ring_reg d r 0"
proof -
  have "d \<in> {0, 1, 2, 3, 4, 5, 6, 7}" using assms by auto
  then show ?thesis
    by (elim insertE emptyE)
      (simp_all add: ring_base_def dsp_banks_def ring_reg_def ring_addr_def)
qed

lemma ring_base_word: "d < 8 \<Longrightarrow> ring_base d r + of_nat w * 4 = ring_reg d r w"
  by (simp add: ring_base_reg ring_reg_offset[of d r w])

lemma dsp0_bases: "DSP0_CMD_BASE = ring_base 0 0" "DSP0_RESP_BASE = ring_base 0 (Suc 0)"
  by (simp_all add: DSP0_CMD_BASE_def DSP0_RESP_BASE_def ring_base_def dsp_banks_def)

lemma boot_offset_in_bar: "d < 8 \<Longrightarrow> in_bar (boot_offsets ! d)"
proof -
  assume "d < 8"
  then have "d \<in> {0, 1, 2, 3, 4, 5, 6, 7}" by auto
  then show ?thesis by (elim insertE emptyE) (simp_all add: boot_offsets_def in_bar_def)
qed

section \<open>Scans and what they have seen\<close>

text \<open>
  \<open>seen E rs\<close>: for every pair in \<open>E\<close>, of a register and a condition, the loads \<open>rs\<close> hold one
  of that register whose value meets the condition.
\<close>

definition seen :: "(u32 \<times> (u32 \<Rightarrow> bool)) set \<Rightarrow> history \<Rightarrow> bool" where
  "seen E rs \<longleftrightarrow> (\<forall>(a, p) \<in> E. \<exists>v. p v \<and> Rd a v \<in> set rs)"

lemma seen_union: "seen (A \<union> B) rs \<longleftrightarrow> seen A rs \<and> seen B rs"
  by (simp add: seen_def ball_Un)

lemma seen_mono: "seen E rs \<Longrightarrow> set rs \<subseteq> set qs \<Longrightarrow> seen E qs"
  by (fastforce simp: seen_def)

lemma seenD: "seen E rs \<Longrightarrow> (a, p) \<in> E \<Longrightarrow> \<exists>v. p v \<and> Rd a v \<in> set rs"
  by (auto simp: seen_def)

definition rings_seen :: "(nat \<Rightarrow> nat \<Rightarrow> nat \<Rightarrow> u32 \<Rightarrow> bool) \<Rightarrow> (u32 \<times> (u32 \<Rightarrow> bool)) set" where
  "rings_seen p = {(ring_reg d r w, p d r w) | d r w. d < 8 \<and> r < 2 \<and> w < 16}"

definition ready_seen :: "(u32 \<times> (u32 \<Rightarrow> bool)) set" where
  "ready_seen = (\<Union>d\<in>set [0..<8]. {(boot_offsets ! d, \<lambda>v. v AND 1 \<noteq> 0)})"

definition checks ::
  "('s \<Rightarrow> history) \<Rightarrow> ('s \<Rightarrow> 'r) \<Rightarrow> ('s, bool) state \<Rightarrow> (u32 \<times> (u32 \<Rightarrow> bool)) set \<Rightarrow> bool" where
  "checks tr rest m E \<longleftrightarrow> (\<forall>s. \<exists>rs. tr (snd (run_state m s)) = rs @ tr s \<and> reads rs \<and>
     rest (snd (run_state m s)) = rest s \<and> (fst (run_state m s) \<longrightarrow> seen E rs))"

lemma checksD:
  assumes "checks tr rest m E" and "run_state m s = (b, t)"
  obtains rs where "tr t = rs @ tr s" "reads rs" "rest t = rest s" "b \<longrightarrow> seen E rs"
  using assms unfolding checks_def by (metis fst_conv snd_conv)

lemma checks_and_m:
  assumes "checks tr rest a A" and "checks tr rest b B"
  shows "checks tr rest (and_m a b) (A \<union> B)"
  unfolding checks_def
proof
  fix s
  obtain x t where a: "run_state a s = (x, t)" by fastforce
  obtain y u where b: "run_state b t = (y, u)" by fastforce
  obtain rs where rs: "tr t = rs @ tr s" "reads rs" "rest t = rest s" "x \<longrightarrow> seen A rs"
    by (rule checksD[OF assms(1) a])
  obtain qs where qs: "tr u = qs @ tr t" "reads qs" "rest u = rest t" "y \<longrightarrow> seen B qs"
    by (rule checksD[OF assms(2) b])
  show "\<exists>rs. tr (snd (run_state (and_m a b) s)) = rs @ tr s \<and> reads rs \<and>
     rest (snd (run_state (and_m a b) s)) = rest s \<and>
     (fst (run_state (and_m a b) s) \<longrightarrow> seen (A \<union> B) rs)"
  proof (cases x)
    case True
    then show ?thesis
      using a b rs qs seen_mono[of A rs "qs @ rs"] seen_mono[of B qs "qs @ rs"]
      by (intro exI[of _ "qs @ rs"]) (auto simp: and_m_def seen_union)
  next
    case False
    then show ?thesis using a rs by (intro exI[of _ rs]) (simp add: and_m_def)
  qed
qed

lemma checks_true: "checks tr rest (State_Monad.return True) {}"
  by (simp add: checks_def seen_def)

lemma checks_all_m:
  "(\<And>x. x \<in> set xs \<Longrightarrow> checks tr rest (f x) (E x)) \<Longrightarrow>
     checks tr rest (all_m xs f) (\<Union>x\<in>set xs. E x)"
proof (induction xs)
  case (Cons x xs)
  have "checks tr rest (and_m (f x) (all_m xs f)) (E x \<union> (\<Union>x\<in>set xs. E x))"
    by (intro checks_and_m Cons.IH Cons.prems) simp_all
  then show ?case by (simp add: and_m_def)
qed (simp add: checks_true)

lemma checks_wp:
  assumes "checks tr rest m E"
    and "\<And>b t rs. tr t = rs @ tr s \<Longrightarrow> reads rs \<Longrightarrow> rest t = rest s \<Longrightarrow> (b \<Longrightarrow> seen E rs) \<Longrightarrow> Q b t"
  shows "wp m Q s"
proof (rule wpI)
  fix b t
  assume m: "run_state m s = (b, t)"
  obtain rs where "tr t = rs @ tr s" "reads rs" "rest t = rest s" "b \<longrightarrow> seen E rs"
    by (rule checksD[OF assms(1) m])
  then show "Q b t" by (intro assms(2)) auto
qed

lemma checks_mono:
  assumes "checks tr rest m E" "F \<subseteq> E"
  shows "checks tr rest m F"
proof -
  have "seen E rs \<Longrightarrow> seen F rs" for rs using assms(2) by (auto simp: seen_def)
  then show ?thesis using assms(1) unfolding checks_def by blast
qed

context mmio_reader
begin

lemma checks_read: "checks tr rest (do { v \<leftarrow> rd a; State_Monad.return (p v) }) {(a, p)}"
  unfolding checks_def
proof
  fix s
  let ?m = "do { v \<leftarrow> rd a; State_Monad.return (p v) }"
  have "tr (snd (run_state ?m s)) = [Rd a (answer (tr s) a)] @ tr s"
    "rest (snd (run_state ?m s)) = rest s" "fst (run_state ?m s) = p (answer (tr s) a)"
    by (simp_all add: split_beta rd_trace rd_rest rd_value)
  then show "\<exists>rs. tr (snd (run_state ?m s)) = rs @ tr s \<and> reads rs \<and>
      rest (snd (run_state ?m s)) = rest s \<and> (fst (run_state ?m s) \<longrightarrow> seen {(a, p)} rs)"
    by (intro exI[of _ "[Rd a (answer (tr s) a)]"]) (simp add: seen_def)
qed

lemma checks_read_is: "checks tr rest (read_is rd a v) {(a, \<lambda>x. x = v)}"
  unfolding read_is_def by (rule checks_read)

text \<open>Reading an address back from its two words.\<close>

lemma checks_read_address:
  "checks tr rest (do { lo \<leftarrow> rd a; hi \<leftarrow> rd b; State_Monad.return (join_64 lo hi = x) })
     {(a, \<lambda>v. v = lower_32_bits x), (b, \<lambda>v. v = upper_32_bits x)}"
  unfolding checks_def
proof
  fix s
  let ?m = "do { lo \<leftarrow> rd a; hi \<leftarrow> rd b; State_Monad.return (join_64 lo hi = x) }"
  obtain lo t where 1: "run_state (rd a) s = (lo, t)" by fastforce
  obtain hi u where 2: "run_state (rd b) t = (hi, u)" by fastforce
  have "tr u = [Rd b hi, Rd a lo] @ tr s" "rest u = rest s"
    using rd_trace[of a s] rd_rest[of a s] rd_value[of a s] rd_trace[of b t] rd_rest[of b t]
      rd_value[of b t] 1 2 by simp_all
  moreover have "run_state ?m s = (join_64 lo hi = x, u)" using 1 2 by simp
  ultimately show "\<exists>rs. tr (snd (run_state ?m s)) = rs @ tr s \<and> reads rs \<and>
      rest (snd (run_state ?m s)) = rest s \<and> (fst (run_state ?m s) \<longrightarrow>
        seen {(a, \<lambda>v. v = lower_32_bits x), (b, \<lambda>v. v = upper_32_bits x)} rs)"
    by (intro exI[of _ "[Rd b hi, Rd a lo]"]) (simp add: seen_def join_64_eq_iff)
qed

lemma checks_rings: "checks tr rest (scan_rings rd p) (rings_seen p)"
proof -
  have "rings_seen p =
      (\<Union>d\<in>set [0..<8]. \<Union>r\<in>set [0..<2]. \<Union>w\<in>set [0..<16].
         {(ring_base d r + of_nat w * 4, p d r w)})"
    by (fastforce simp: rings_seen_def ring_base_word)
  then show ?thesis
    unfolding scan_rings_def by (simp only:) (intro checks_all_m checks_read)
qed

lemma checks_rings_but:
  "checks tr rest (all_m [0..<8] (\<lambda>d. all_m [0..<2] (\<lambda>r. all_m [0..<16] (\<lambda>w.
       if skip d r w then State_Monad.return True
       else read_is rd (ring_base d r + of_nat w * 4) (x d r w)))))
     {(ring_reg d r w, \<lambda>v. v = x d r w) | d r w. d < 8 \<and> r < 2 \<and> w < 16 \<and> \<not> skip d r w}"
proof (rule checks_mono)
  let ?E = "\<Union>d\<in>set [0..<8]. \<Union>r\<in>set [0..<2]. \<Union>w\<in>set [0..<16].
      if skip d r w then {} else {(ring_reg d r w, \<lambda>v. v = x d r w)}"
  show "checks tr rest (all_m [0..<8] (\<lambda>d. all_m [0..<2] (\<lambda>r. all_m [0..<16] (\<lambda>w.
       if skip d r w then State_Monad.return True
       else read_is rd (ring_base d r + of_nat w * 4) (x d r w))))) ?E"
    by (intro checks_all_m) (auto simp: ring_base_word intro: checks_true checks_read_is)
  show "{(ring_reg d r w, \<lambda>v. v = x d r w) | d r w. d < 8 \<and> r < 2 \<and> w < 16 \<and> \<not> skip d r w} \<subseteq> ?E"
  proof
    fix z
    assume "z \<in> {(ring_reg d r w, \<lambda>v. v = x d r w) | d r w. d < 8 \<and> r < 2 \<and> w < 16 \<and> \<not> skip d r w}"
    then obtain d r w where "d < 8" "r < 2" "w < 16" "\<not> skip d r w" "z = (ring_reg d r w, \<lambda>v. v = x d r w)"
      by auto
    then show "z \<in> ?E" by (intro UN_I[of d] UN_I[of r] UN_I[of w]) auto
  qed
qed

lemma checks_ready: "checks tr rest (scan_ready rd) ready_seen"
  unfolding scan_ready_def ready_seen_def by (intro checks_all_m checks_read)

lemma tests_read_is: "tests tr rest (read_is rd a v) (\<lambda>h. answer h a = v)"
  unfolding read_is_def by (rule rd_test)

lemma tests_ready:
  assumes "read_stable answer"
  shows "tests tr rest (scan_ready rd) (\<lambda>h. \<forall>d<8. answer h (boot_offsets ! d) AND 1 \<noteq> 0)"
  unfolding scan_ready_def by (rule tests_cong[OF scan_test[OF assms]]) auto

lemma tests_rings:
  assumes "read_stable answer"
  shows "tests tr rest (scan_rings rd p)
           (\<lambda>h. \<forall>d<8. \<forall>r<2. \<forall>w<16. p d r w (answer h (ring_reg d r w)))"
  unfolding scan_rings_def
  by (rule tests_cong[OF ring_scan_test[OF assms]]) (auto simp: ring_base_word)

end

text \<open>
  A scan over a session-like state: afterwards the log has grown by loads, nothing else has
  changed, and an invariant the scan keeps still holds.
\<close>

lemma scan_wp:
  fixes m :: "('a bus_scheme, bool) state"
  assumes "checks log (\<lambda>s. s\<lparr>log := []\<rparr>) m E" and "preserves I m" and "I s"
    and "\<And>b rs. reads rs \<Longrightarrow> (b \<Longrightarrow> seen E rs) \<Longrightarrow> I (s\<lparr>log := rs @ log s\<rparr>) \<Longrightarrow>
           Q b (s\<lparr>log := rs @ log s\<rparr>)"
  shows "wp m Q s"
proof (rule wpI)
  fix b t
  assume m: "run_state m s = (b, t)"
  obtain rs where rs: "log t = rs @ log s" "reads rs" "t\<lparr>log := []\<rparr> = s\<lparr>log := []\<rparr>"
    "b \<longrightarrow> seen E rs"
    by (rule checksD[OF assms(1) m])
  then have t: "t = s\<lparr>log := rs @ log s\<rparr>" by (cases s, cases t) simp
  have "I t" using preservesD[OF assms(2,3)] m by (rule wp_runD)
  then show "Q b t" using rs assms(4)[of rs b] t by simp
qed

lemma read_only_wp:
  fixes m :: "('a bus_scheme, bool) state"
  assumes "checks log (\<lambda>s. s\<lparr>log := []\<rparr>) m E"
    and "\<And>b rs. reads rs \<Longrightarrow> (b \<Longrightarrow> seen E rs) \<Longrightarrow> Q b (s\<lparr>log := rs @ log s\<rparr>)"
  shows "wp m Q s"
  by (rule scan_wp[OF assms(1), where I = "\<lambda>_. True"]) (use assms(2) in \<open>simp_all add: preserves_def wp_run\<close>)

section \<open>Invariants of the routines\<close>

text \<open>What the loads and stores inside the window keep, the routines keep.\<close>

lemma control_in_bar [simp]:
  "in_bar 0x2200" "in_bar 0x2204" "in_bar 0x2208" "in_bar 0x2220" "in_bar 0x2218" "in_bar 0x2234"
  by (simp_all add: in_bar_def)

definition keeps_rd :: "('s \<Rightarrow> bool) \<Rightarrow> 's rd \<Rightarrow> bool" where
  "keeps_rd I rd \<longleftrightarrow> (\<forall>a. in_bar a \<longrightarrow> preserves I (rd a))"

definition keeps_wr :: "('s \<Rightarrow> bool) \<Rightarrow> 's wr \<Rightarrow> bool" where
  "keeps_wr I wr \<longleftrightarrow> (\<forall>a v. in_bar a \<longrightarrow> preserves I (wr a v))"

text \<open>As \<open>keeps_wr\<close>, for a tool that stores to ring registers only.\<close>

definition keeps_ring_wr :: "('s \<Rightarrow> bool) \<Rightarrow> 's wr \<Rightarrow> bool" where
  "keeps_ring_wr I wr \<longleftrightarrow>
     (\<forall>d<8. \<forall>r<2. \<forall>w<10. \<forall>v. preserves I (wr (ring_reg d r w) v))"

lemma keeps_wr_ring: "keeps_wr I wr \<Longrightarrow> keeps_ring_wr I wr"
  by (simp add: keeps_wr_def keeps_ring_wr_def)

lemma keeps_rdD: "keeps_rd I rd \<Longrightarrow> in_bar a \<Longrightarrow> preserves I (rd a)"
  by (simp add: keeps_rd_def)

lemma preserves_read_is: "keeps_rd I rd \<Longrightarrow> in_bar a \<Longrightarrow> preserves I (read_is rd a v)"
  unfolding read_is_def by (intro preserves_intros keeps_rdD)

lemma preserves_scan_ready: "keeps_rd I rd \<Longrightarrow> preserves I (scan_ready rd)"
  unfolding scan_ready_def
  by (intro preserves_intros keeps_rdD) (simp_all add: boot_offset_in_bar)

lemma preserves_scan_rings: "keeps_rd I rd \<Longrightarrow> preserves I (scan_rings rd p)"
  unfolding scan_rings_def
  by (intro preserves_intros keeps_rdD) (simp_all add: ring_base_word)

lemma preserves_publish:
  assumes "keeps_ring_wr I wr" "d < 8" "r < 2"
  shows "preserves I (publish_ring wr (ring_base d r) first index)"
proof -
  have w: "preserves I (wr (ring_reg d r w) v)" if "w < 10" for w v
    using assms that by (simp add: keeps_ring_wr_def)
  show ?thesis
    unfolding publish_ring_def store_address_def ring_base_reg[OF assms(2)] ring_reg_words
    by (intro preserves_intros w) simp_all
qed

lemma preserves_clear: "keeps_ring_wr I wr \<Longrightarrow> preserves I (clear_rings wr)"
  unfolding clear_rings_def
  by (intro preserves_intros) (simp add: ring_base_word keeps_ring_wr_def)

lemma preserves_quiesce: "keeps_wr I wr \<Longrightarrow> preserves I (quiesce_card wr)"
  unfolding quiesce_card_def by (intro preserves_intros) (simp_all add: keeps_wr_def)

lemma preserves_restore: "keeps_wr I wr \<Longrightarrow> preserves I (restore_card wr)"
  unfolding restore_card_def
  by (intro preserves_intros preserves_clear keeps_wr_ring) (simp_all add: keeps_wr_def)

section \<open>Exact stores\<close>

definition stores ::
  "('s \<Rightarrow> history) \<Rightarrow> ('s \<Rightarrow> 'r) \<Rightarrow> ('s, 'a) state \<Rightarrow> (u32 \<times> u32) list \<Rightarrow> bool" where
  "stores tr rest m ws \<longleftrightarrow> (\<forall>s. tr (snd (run_state m s)) = rev (map (\<lambda>(a, v). Wr a v) ws) @ tr s \<and>
     rest (snd (run_state m s)) = rest s)"

named_theorems stores_intros \<open>the stores of store-only routines\<close>

lemma stores_return [stores_intros]: "stores tr rest (State_Monad.return a) []"
  by (simp add: stores_def)

lemma stores_bind [stores_intros]:
  assumes "stores tr rest m xs" and "\<And>a. stores tr rest (f a) ys"
  shows "stores tr rest (State_Monad.bind m f) (xs @ ys)"
  using assms by (simp add: stores_def split_beta)

lemma stores_for_each [stores_intros]:
  "(\<And>x. x \<in> set xs \<Longrightarrow> stores tr rest (f x) (g x)) \<Longrightarrow>
     stores tr rest (for_each xs f) (concat (map g xs))"
  by (induction xs) (auto intro!: stores_intros)

lemma stores_wp:
  assumes "stores tr rest m ws"
    and "\<And>a t. tr t = rev (map (\<lambda>(a, v). Wr a v) ws) @ tr s \<Longrightarrow> rest t = rest s \<Longrightarrow> Q a t"
  shows "wp m Q s"
  using assms unfolding stores_def by (metis wpI snd_conv)

lemma writes_rev_stores: "writes (rev (map (\<lambda>(a, v). Wr a v) ws) @ h) = writes h @ ws"
proof (induction ws arbitrary: h)
  case (Cons w ws) then show ?case by (cases w) simp
qed simp

text \<open>The stores that publish one ring, as data.\<close>

definition publish_stores :: "nat \<Rightarrow> nat \<Rightarrow> u32 \<Rightarrow> (nat \<Rightarrow> u64) \<Rightarrow> (u32 \<times> u32) list" where
  "publish_stores d r index addr =
     [(ring_reg d r 9, index), (ring_reg d r 8, index)] @
     concat (map (\<lambda>p. [(ring_reg d r (2 * p), lower_32_bits (addr p)),
                       (ring_reg d r (2 * p + 1), upper_32_bits (addr p))]) [0..<4])"

definition clear_stores_of :: "(nat \<times> nat \<times> nat) list \<Rightarrow> (u32 \<times> u32) list" where
  "clear_stores_of xs = map (\<lambda>(d, r, w). (ring_reg d r w, 0)) xs"

definition quiesce_stores :: "(u32 \<times> u32) list" where
  "quiesce_stores =
     [(NOTIFICATION_CONTROL, 0), (INTERRUPT_ENABLE, 0), (INTERRUPT_ACK, 0),
      (DMA_CONTROL, DMA_RESET_GLOBAL), (DMA_CONTROL, DMA_GLOBAL_ONLY),
      (INTERRUPT_ACK, 0xffffffff)]"

definition restore_stores :: "(u32 \<times> u32) list" where
  "restore_stores =
     [(INTERRUPT_ENABLE, 0), (INTERRUPT_ACK, 0xffffffff),
      (DMA_CONTROL, DMA_RESET_GLOBAL), (DMA_CONTROL, DMA_GLOBAL_ONLY)] @
     clear_stores_of (ring_words 10) @ [(DMA_CONTROL, DMA_COLD_RESET)]"

context mmio_port
begin

lemma stores_wr [stores_intros]: "stores tr rest (wr a v) [(a, v)]"
  by (simp add: stores_def wr_trace wr_rest)

lemma stores_address:
  "stores tr rest (store_address wr a x) [(a, lower_32_bits x), (a + 4, upper_32_bits x)]"
proof -
  have "stores tr rest (store_address wr a x) ([(a, lower_32_bits x)] @ [(a + 4, upper_32_bits x)])"
    unfolding store_address_def by (intro stores_intros)
  then show ?thesis by simp
qed

lemma stores_publish:
  assumes "d < 8"
  shows "stores tr rest (publish_ring wr (ring_base d r) first index)
           (publish_stores d r index (\<lambda>p. first + of_nat p * 4096))"
proof -
  have "stores tr rest (publish_ring wr (ring_base d r) first index)
      ([(ring_base d r + 0x24, index)] @ [(ring_base d r + 0x20, index)] @
       concat (map (\<lambda>p. [(ring_base d r + of_nat p * 8, lower_32_bits (first + of_nat p * 4096)),
         (ring_base d r + of_nat p * 8 + 4, upper_32_bits (first + of_nat p * 4096))]) [0..<4]))"
    unfolding publish_ring_def by (intro stores_intros stores_address)
  then show ?thesis
    by (simp add: publish_stores_def ring_base_reg[OF assms] ring_reg_words)
qed

lemma stores_clear: "stores tr rest (clear_rings wr) (clear_stores_of (ring_words 10))"
proof -
  have "map (\<lambda>(d, r, w). (ring_base d r + of_nat w * 4, 0 :: u32)) (ring_words 10) =
      map (\<lambda>(d, r, w). (ring_reg d r w, 0)) (ring_words 10)"
    by (rule map_cong[OF refl]) (auto simp: set_ring_words ring_base_word)
  then have eq: "concat (map (\<lambda>x. [(\<lambda>(d, r, w). (ring_base d r + of_nat w * 4, 0 :: u32)) x])
      (ring_words 10)) = clear_stores_of (ring_words 10)"
    by (simp add: clear_stores_of_def concat_map_singleton)
  have "stores tr rest (for_each (ring_words 10) (\<lambda>(d, r, w). wr (ring_base d r + of_nat w * 4) 0))
      (concat (map (\<lambda>x. [(\<lambda>(d, r, w). (ring_base d r + of_nat w * 4, 0)) x]) (ring_words 10)))"
    by (rule stores_for_each) (simp add: split_beta stores_wr)
  then show ?thesis
    unfolding clear_rings_def for_each_ring_words eq .
qed

lemma stores_quiesce: "stores tr rest (quiesce_card wr) quiesce_stores"
proof -
  have "stores tr rest (quiesce_card wr) ([(NOTIFICATION_CONTROL, 0)] @ [(INTERRUPT_ENABLE, 0)] @
      [(INTERRUPT_ACK, 0)] @ [(DMA_CONTROL, DMA_RESET_GLOBAL)] @ [(DMA_CONTROL, DMA_GLOBAL_ONLY)] @
      [(INTERRUPT_ACK, 0xffffffff)])"
    unfolding quiesce_card_def by (intro stores_intros)
  then show ?thesis by (simp add: quiesce_stores_def)
qed

lemma stores_restore: "stores tr rest (restore_card wr) restore_stores"
proof -
  have "stores tr rest (restore_card wr) ([(INTERRUPT_ENABLE, 0)] @ [(INTERRUPT_ACK, 0xffffffff)] @
      [(DMA_CONTROL, DMA_RESET_GLOBAL)] @ [(DMA_CONTROL, DMA_GLOBAL_ONLY)] @
      clear_stores_of (ring_words 10) @ [(DMA_CONTROL, DMA_COLD_RESET)])"
    unfolding restore_card_def by (intro stores_intros stores_clear)
  then show ?thesis by (simp add: restore_stores_def)
qed

end

section \<open>Stores of routines that also load\<close>

text \<open>\<open>writing tr m R\<close>: the stores a run adds, and its result, are related by \<open>R\<close>.\<close>

definition writing ::
  "('s \<Rightarrow> history) \<Rightarrow> ('s, 'a) state \<Rightarrow> ('a \<Rightarrow> (u32 \<times> u32) list \<Rightarrow> bool) \<Rightarrow> bool" where
  "writing tr m R \<longleftrightarrow> (\<forall>s. \<exists>ws. writes (tr (snd (run_state m s))) = writes (tr s) @ ws \<and>
     R (fst (run_state m s)) ws)"

lemma writingD:
  assumes "writing tr m R" and "run_state m s = (a, t)"
  obtains ws where "writes (tr t) = writes (tr s) @ ws" "R a ws"
  using assms unfolding writing_def by (metis fst_conv snd_conv)

lemma writing_bind:
  assumes "writing tr m R" and "\<And>a. writing tr (f a) (S a)"
    and "\<And>a xs b ys. R a xs \<Longrightarrow> S a b ys \<Longrightarrow> T b (xs @ ys)"
  shows "writing tr (State_Monad.bind m f) T"
  unfolding writing_def
proof
  fix s
  obtain a t where m: "run_state m s = (a, t)" by fastforce
  obtain b u where f: "run_state (f a) t = (b, u)" by fastforce
  obtain xs where xs: "writes (tr t) = writes (tr s) @ xs" "R a xs"
    by (rule writingD[OF assms(1) m])
  obtain ys where ys: "writes (tr u) = writes (tr t) @ ys" "S a b ys"
    by (rule writingD[OF assms(2) f])
  show "\<exists>ws. writes (tr (snd (run_state (State_Monad.bind m f) s))) = writes (tr s) @ ws \<and>
     T (fst (run_state (State_Monad.bind m f) s)) ws"
    using m f xs ys assms(3) by (intro exI[of _ "xs @ ys"]) auto
qed

lemma writing_mono: "writing tr m R \<Longrightarrow> (\<And>a ws. R a ws \<Longrightarrow> S a ws) \<Longrightarrow> writing tr m S"
  by (auto simp: writing_def) metis

lemma writing_stores: "stores tr rest m ws \<Longrightarrow> writing tr m (\<lambda>_ xs. xs = ws)"
  by (simp add: writing_def stores_def writes_rev_stores)

lemma writing_reads: "reads_only tr rest m \<Longrightarrow> writing tr m (\<lambda>_ xs. xs = [])"
  unfolding writing_def reads_only_def by (metis append_Nil2 reads_views(1))

lemma writing_quiet:
  "(\<And>s. writes (tr (snd (run_state m s))) = writes (tr s)) \<Longrightarrow> writing tr m (\<lambda>_ xs. xs = [])"
  by (simp add: writing_def)

lemma writing_emits:
  assumes "emits (\<lambda>e. \<not> is_wr e) m"
  shows "writing log m (\<lambda>_ xs. xs = [])"
proof -
  have quiet: "list_all (\<lambda>e. \<not> is_wr e) evs \<Longrightarrow> writes (evs @ h) = writes h" for evs h
  proof (induction evs)
    case (Cons e evs) then show ?case by (cases e) auto
  qed simp
  show ?thesis
    using assms quiet unfolding emits_def writing_def by (metis append_Nil2)
qed

lemma writing_return: "writing tr (State_Monad.return a) (\<lambda>b xs. b = a \<and> xs = [])"
  by (simp add: writing_def)

lemma writing_checks: "checks tr rest m E \<Longrightarrow> writing tr m (\<lambda>_ xs. xs = [])"
  unfolding writing_def checks_def by (metis append_Nil2 reads_views(1))

lemma writingI:
  "(\<And>s. wp m (\<lambda>a t. \<exists>ws. writes (log t) = writes (log s) @ ws \<and> R a ws) s) \<Longrightarrow> writing log m R"
  by (simp add: writing_def wp_run)

lemma writing_wp:
  assumes "writing log m R"
    and "\<And>a t ws. writes (log t) = writes (log s) @ ws \<Longrightarrow> R a ws \<Longrightarrow> Q a t"
  shows "wp m Q s"
  by (rule wpI) (use assms writingD in metis)

lemma writing_when:
  assumes "writing tr m (\<lambda>_. P)" and "P []"
  shows "writing tr (do { b \<leftarrow> gets c; if b then m else State_Monad.return a }) (\<lambda>_. P)"
  using assms by (auto simp: writing_def)

text \<open>A loop whose turns each store one of several lists, and how to name what was chosen.\<close>

lemma writing_for_each:
  "(\<And>x. x \<in> set xs \<Longrightarrow> writing tr (f x) (\<lambda>_. P x)) \<Longrightarrow>
     writing tr (for_each xs f) (\<lambda>_ ws. \<exists>wss. list_all2 P xs wss \<and> ws = concat wss)"
proof (induction xs)
  case Nil
  then show ?case by (simp add: writing_def)
next
  case (Cons x xs)
  have "writing tr (f x) (\<lambda>_. P x)" by (rule Cons.prems) simp
  moreover have "writing tr (for_each xs f) (\<lambda>_ ws. \<exists>wss. list_all2 P xs wss \<and> ws = concat wss)"
    by (rule Cons.IH) (simp add: Cons.prems)
  ultimately show ?case
    unfolding for_each.simps
    by (rule writing_bind) (metis concat.simps(2) list.rel_intros(2))
qed

lemma list_all2_choice:
  assumes "list_all2 (\<lambda>x y. \<exists>c. Q c \<and> y = g x c) [0..<n] ys"
  shows "\<exists>F. (\<forall>i<n. Q (F i)) \<and> ys = map (\<lambda>i. g i (F i)) [0..<n]"
proof -
  have len: "length ys = n" using list_all2_lengthD[OF assms] by simp
  have "\<forall>i. \<exists>c. i < n \<longrightarrow> Q c \<and> ys ! i = g i c"
    using assms len by (auto simp: list_all2_conv_all_nth)
  then obtain F where F: "\<forall>i<n. Q (F i) \<and> ys ! i = g i (F i)" by metis
  then have "ys = map (\<lambda>i. g i (F i)) [0..<n]" using len by (intro nth_equalityI) auto
  with F show ?thesis by auto
qed

text \<open>A loop that may be left at any turn, each turn storing a prefix of its schedule.\<close>

lemma writing_schedule:
  assumes "\<And>x. x \<in> set xs \<Longrightarrow> writing tr (f x) (\<lambda>b ws. \<exists>k \<le> length (g x). ws = take k (g x) \<and> ok k \<and>
      (b \<longrightarrow> k = length (g x)))"
    and "\<And>x. x \<in> set xs \<Longrightarrow> length (g x) = m" and "ok 0" and "\<And>k. ok (k + m) = ok k"
  shows "writing tr (all_m xs f) (\<lambda>_ ws. \<exists>n. ws = take n (concat (map g xs)) \<and> ok n)"
  using assms
proof (induction xs)
  case Nil
  then show ?case by (auto simp: writing_def)
next
  case (Cons x xs)
  have x: "writing tr (f x) (\<lambda>b ws. \<exists>k \<le> length (g x). ws = take k (g x) \<and> ok k \<and>
      (b \<longrightarrow> k = length (g x)))" by (rule Cons.prems) simp
  have m: "length (g x) = m" by (rule Cons.prems) simp
  have IH: "writing tr (all_m xs f) (\<lambda>_ ws. \<exists>n. ws = take n (concat (map g xs)) \<and> ok n)"
    by (rule Cons.IH) (use Cons.prems in auto)
  show ?case
    unfolding all_m.simps
  proof (rule writing_bind[OF x])
    fix b
    show "writing tr (if b then all_m xs f else State_Monad.return False)
        (\<lambda>_ ws. if b then \<exists>n. ws = take n (concat (map g xs)) \<and> ok n else ws = [])"
      using IH by (auto simp: writing_def)
  next
    fix b ws c vs
    assume b: "\<exists>k \<le> length (g x). ws = take k (g x) \<and> ok k \<and> (b \<longrightarrow> k = length (g x))"
      and "if b then \<exists>n. vs = take n (concat (map g xs)) \<and> ok n else vs = []"
    then consider n where "b" "vs = take n (concat (map g xs))" "ok n" | "\<not> b" "vs = []"
      by (auto split: if_splits)
    then show "\<exists>n. ws @ vs = take n (concat (map g (x # xs))) \<and> ok n"
    proof cases
      case 1
      then show ?thesis using b m Cons.prems(4)[of n] by (intro exI[of _ "n + m"]) auto
    next
      case 2
      obtain k where "k \<le> length (g x)" "ws = take k (g x)" "ok k" using b by auto
      then show ?thesis using 2 by (intro exI[of _ k]) simp
    qed
  qed
qed

end
