(* ===== verification/Vfio.thy ===== *)
theory Vfio
  imports Ring_Port
begin

text \<open>
  A VFIO session as the tools of \<^verbatim>\<open>tools/\<close> run it: container, group, IOMMU, locked memory, IOVA
  mapping, device and BAR0 mapping, acquired in that order with a jump to the cleanup label at
  the first failure, and released at the label under one test each. The kernel's VFIO
  interface is not part of the repository: the outcome of every system call is a field of
  the parameter \<open>vfio_env\<close>, on which nothing is assumed unless a theorem says so. A boolean
  field such as \<open>group_viable\<close> stands for the flag test the code makes on the returned
  structure. The routines of this theory are mapped to their text in
  \<^verbatim>\<open>tools/vfio_full_octo_start.c\<close>; the other tools hold copies of them.
\<close>

section \<open>The host and the state of a session\<close>

record vfio_env =
  answer :: hw
  ram_view :: "history \<Rightarrow> (nat \<Rightarrow> u8) \<Rightarrow> nat \<Rightarrow> u8"
  signalled :: "history \<Rightarrow> bool"
  sys_page_size :: int
  container_open :: int
  api_matches :: bool
  type1_supported :: bool
  group_open :: int
  group_status :: int
  group_viable :: bool
  set_container :: int
  set_iommu :: int
  iommu_info :: int
  iova_pgsizes :: u64
  memory_mmap :: bool
  memory_mlock :: int
  map_dma :: int
  get_device_fd :: int
  device_info :: int
  device_is_pci :: bool
  device_resets :: bool
  region_info :: int
  region_size :: u64
  region_read :: bool
  region_write :: bool
  region_mmap :: bool
  bar_mmap :: bool
  device_reset :: int
  unmap_dma :: int
  unmap_size :: nat

text \<open>
  \<open>ram\<close> is what the program last stored in its locked memory; \<open>ram_view\<close> is what a load of a
  byte returns, which the card may have overwritten by DMA.
\<close>

record session = bus +
  container_fd :: int
  group_fd :: int
  device_fd :: int
  container_set :: bool
  dma_mapped :: bool
  memory_ok :: bool
  bar_ok :: bool
  ram :: "nat \<Rightarrow> u8"
  exit_success :: bool
  stdout :: "string list"

definition BAR0_SIZE :: u64 where "BAR0_SIZE = 0x10000"
definition TEST_IOVA :: u64 where "TEST_IOVA = 0x10000000"
definition PAGE_SIZE_4K :: nat where [simp]: "PAGE_SIZE_4K = 4096"

text \<open>Every tool's locals start the same way.\<close>

definition fresh_session :: "'a session_scheme \<Rightarrow> bool" where
  "fresh_session s \<longleftrightarrow> container_fd s = -1 \<and> group_fd s = -1 \<and> device_fd s = -1 \<and>
     \<not> container_set s \<and> \<not> dma_mapped s \<and> \<not> memory_ok s \<and> \<not> bar_ok s \<and> \<not> exit_success s \<and>
     log s = []"

definition when_m :: "('s \<Rightarrow> bool) \<Rightarrow> ('s, unit) state \<Rightarrow> ('s, unit) state" where
  "when_m c m = do { b \<leftarrow> gets c; if b then m else State_Monad.return () }"

lemma wp_when_m [wp_simps]: "wp (when_m c m) Q = (\<lambda>s. if c s then wp m Q s else Q () s)"
  by (simp add: when_m_def wp_simps fun_eq_iff)

lemma preserves_when_m [preserves_intros]: "preserves I m \<Longrightarrow> preserves I (when_m c m)"
  unfolding when_m_def by (intro preserves_intros)

section \<open>Acquisition\<close>

text \<open>Each step returns false where the C code jumps to the cleanup label.\<close>

definition check :: "bool \<Rightarrow> ('s, bool) state" where
  "check b = State_Monad.return b"

definition fail :: "('a session_scheme, unit) state" where
  "fail = modify (\<lambda>s. s\<lparr>exit_success := False\<rparr>)"

definition print :: "string \<Rightarrow> ('a session_scheme, unit) state" where
  "print line = modify (\<lambda>s. s\<lparr>stdout := stdout s @ [line]\<rparr>)"

definition open_container :: "vfio_env \<Rightarrow> ('a session_scheme, bool) state" where
  "open_container e =
     do { modify (\<lambda>s. s\<lparr>container_fd := container_open e\<rparr>);
          if container_open e < 0 then State_Monad.return False
          else do {
            emit (Acquire VfioContainer);
            State_Monad.return (api_matches e \<and> type1_supported e) } }"

definition open_group :: "vfio_env \<Rightarrow> ('a session_scheme, bool) state" where
  "open_group e =
     do { modify (\<lambda>s. s\<lparr>group_fd := group_open e\<rparr>);
          if group_open e < 0 then State_Monad.return False
          else do {
            emit (Acquire VfioGroup);
            State_Monad.return (\<not> group_status e < 0 \<and> group_viable e) } }"

definition attach_group :: "vfio_env \<Rightarrow> ('a session_scheme, bool) state" where
  "attach_group e =
     (if set_container e < 0 then State_Monad.return False
      else do {
        emit (Acquire VfioAttached);
        modify (\<lambda>s. s\<lparr>container_set := True\<rparr>);
        State_Monad.return True })"

definition configure_iommu :: "vfio_env \<Rightarrow> u64 \<Rightarrow> ('a session_scheme, bool) state" where
  "configure_iommu e page_size =
     check (\<not> set_iommu e < 0 \<and> \<not> iommu_info e < 0 \<and> iova_pgsizes e AND page_size \<noteq> 0)"

definition allocate_memory :: "vfio_env \<Rightarrow> ('a session_scheme, bool) state" where
  "allocate_memory e =
     (if \<not> memory_mmap e then State_Monad.return False
      else do {
        emit (Acquire VfioMemory);
        modify (\<lambda>s. s\<lparr>memory_ok := True\<rparr>);
        State_Monad.return (\<not> memory_mlock e < 0) })"

definition map_iova :: "vfio_env \<Rightarrow> ('a session_scheme, bool) state" where
  "map_iova e =
     (if map_dma e < 0 then State_Monad.return False
      else do {
        emit (Acquire VfioMapping);
        modify (\<lambda>s. s\<lparr>dma_mapped := True\<rparr>);
        State_Monad.return True })"

text \<open>The device, with the tool's own test of the device and region information.\<close>

definition open_device :: "vfio_env \<Rightarrow> bool \<Rightarrow> ('a session_scheme, bool) state" where
  "open_device e valid =
     do { modify (\<lambda>s. s\<lparr>device_fd := get_device_fd e\<rparr>);
          if get_device_fd e < 0 then State_Monad.return False
          else do { emit (Acquire VfioDevice); State_Monad.return valid } }"

definition map_bar :: "vfio_env \<Rightarrow> ('a session_scheme, bool) state" where
  "map_bar e =
     (if \<not> bar_mmap e then State_Monad.return False
      else do {
        emit (Acquire BarMap);
        modify (\<lambda>s. s\<lparr>bar_ok := True\<rparr>);
        State_Monad.return True })"

text \<open>Lines of the JSON reports.\<close>

definition json_flag :: "string \<Rightarrow> bool \<Rightarrow> string" where
  "json_flag key b = ''  \"'' @ key @ ''\": '' @ (if b then ''true'' else ''false'') @ '',''"

definition json_number :: "string \<Rightarrow> nat \<Rightarrow> string" where
  "json_number key n = ''  \"'' @ key @ ''\": '' @ dec n @ '',''"

definition json_word :: "string \<Rightarrow> u32 \<Rightarrow> string" where
  "json_word key v = ''  \"'' @ key @ ''\": \"0x'' @ hex 8 (unat v) @ ''\",''"

section \<open>Memory and signals\<close>

definition memset :: "nat \<Rightarrow> u8 \<Rightarrow> nat \<Rightarrow> (nat \<Rightarrow> u8) \<Rightarrow> nat \<Rightarrow> u8" where
  "memset a v n m = (\<lambda>i. if a \<le> i \<and> i < a + n then v else m i)"

definition store_ram :: "((nat \<Rightarrow> u8) \<Rightarrow> nat \<Rightarrow> u8) \<Rightarrow> ('a session_scheme, unit) state" where
  "store_ram f = modify (\<lambda>s. s\<lparr>ram := f (ram s)\<rparr>)"

definition load_byte :: "vfio_env \<Rightarrow> nat \<Rightarrow> ('a session_scheme, u8) state" where
  "load_byte e i = gets (\<lambda>s. ram_view e (log s) (ram s) i)"

text \<open>
  The signal handler sets a flag that is never cleared: the flag is set once a signal has
  been delivered at any instant of the history.
\<close>

fun ever :: "(history \<Rightarrow> bool) \<Rightarrow> history \<Rightarrow> bool" where
  "ever P [] = P []"
| "ever P (x # h) = (P (x # h) \<or> ever P h)"

lemma ever_append: "ever P h \<Longrightarrow> ever P (xs @ h)"
  by (induction xs) auto

definition interrupted :: "vfio_env \<Rightarrow> ('a session_scheme, bool) state" where
  "interrupted e = gets (\<lambda>s. ever (signalled e) (log s))"

definition nanosleep :: "nat \<Rightarrow> ('a session_scheme, unit) state" where
  "nanosleep ns = emit (Delay ns)"

section \<open>Release\<close>

text \<open>\<open>VFIO_DEVICE_RESET\<close> on the open device; the result says whether it succeeded.\<close>

definition reset_device :: "vfio_env \<Rightarrow> ('a session_scheme, bool) state" where
  "reset_device e = do { emit DeviceReset; State_Monad.return (device_reset e = 0) }"

definition unmap_ok :: "vfio_env \<Rightarrow> nat \<Rightarrow> bool" where
  "unmap_ok e bytes \<longleftrightarrow> \<not> unmap_dma e < 0 \<and> unmap_size e = bytes"

definition release_bar :: "('a session_scheme, unit) state" where
  "release_bar = when_m bar_ok (emit (Release BarMap))"

definition release_device :: "('a session_scheme, unit) state" where
  "release_device = when_m (\<lambda>s. \<not> device_fd s < 0) (emit (Release VfioDevice))"

definition release_mapping :: "vfio_env \<Rightarrow> nat \<Rightarrow> ('a session_scheme, unit) state" where
  "release_mapping e bytes =
     when_m dma_mapped (if unmap_ok e bytes then emit (Release VfioMapping) else fail)"

definition release_memory :: "('a session_scheme, unit) state" where
  "release_memory = when_m memory_ok (emit (Release VfioMemory))"

definition detach_group :: "('a session_scheme, unit) state" where
  "detach_group = when_m container_set (emit (Release VfioAttached))"

definition release_group :: "('a session_scheme, unit) state" where
  "release_group = when_m (\<lambda>s. \<not> group_fd s < 0) (emit (Release VfioGroup))"

definition release_container :: "('a session_scheme, unit) state" where
  "release_container = when_m (\<lambda>s. \<not> container_fd s < 0) (emit (Release VfioContainer))"

definition teardown :: "vfio_env \<Rightarrow> nat \<Rightarrow> ('a session_scheme, unit) state" where
  "teardown e bytes =
     do { release_bar;
          release_device;
          release_mapping e bytes;
          release_memory;
          detach_group;
          release_group;
          release_container }"

section \<open>What a session owns, and when that is safe\<close>

text \<open>
  No resource is held twice or without the ones it rests on; every register access falls in
  the mapped BAR0; and while any DSP engine is enabled in DMA control, the IOVA mapping and
  the locked memory behind it are held.
\<close>

definition engines_on :: "history \<Rightarrow> bool" where
  "engines_on h \<longleftrightarrow> (case shadow h 0x2200 of None \<Rightarrow> False | Some v \<Rightarrow> v AND 0x1fe \<noteq> 0)"

definition vfio_nested :: "history \<Rightarrow> bool" where
  "vfio_nested h \<longleftrightarrow>
     0 \<le> held h BarMap \<and> held h BarMap \<le> held h VfioDevice \<and>
     held h VfioDevice \<le> held h VfioAttached \<and> held h VfioAttached \<le> held h VfioGroup \<and>
     held h VfioGroup \<le> held h VfioContainer \<and> held h VfioContainer \<le> 1 \<and>
     0 \<le> held h VfioMapping \<and> held h VfioMapping \<le> held h VfioMemory \<and>
     held h VfioMapping \<le> held h VfioAttached \<and> held h VfioMemory \<le> 1"

fun access_ok :: "history \<Rightarrow> bool" where
  "access_ok (Rd a _ # h) = (in_bar a \<and> held h BarMap = 1)"
| "access_ok (Wr a _ # h) = (in_bar a \<and> held h BarMap = 1)"
| "access_ok _ = True"

definition confined :: "history \<Rightarrow> bool" where
  "confined h \<longleftrightarrow> (engines_on h \<longrightarrow> held h VfioMapping = 1 \<and> held h VfioMemory = 1)"

definition vfio_safe :: "history \<Rightarrow> bool" where
  "vfio_safe h \<longleftrightarrow> vfio_nested h \<and> access_ok h \<and> confined h"

fun owns :: "'a session_scheme \<Rightarrow> resource \<Rightarrow> bool" where
  "owns s VfioContainer = (0 \<le> container_fd s)"
| "owns s VfioGroup = (0 \<le> group_fd s)"
| "owns s VfioAttached = container_set s"
| "owns s VfioMemory = memory_ok s"
| "owns s VfioMapping = dma_mapped s"
| "owns s VfioDevice = (0 \<le> device_fd s)"
| "owns s BarMap = bar_ok s"
| "owns s _ = False"

definition owned :: "'a session_scheme \<Rightarrow> resource set" where
  "owned s = Collect (owns s)"

definition closed :: "resource set \<Rightarrow> bool" where
  "closed S \<longleftrightarrow> (BarMap \<in> S \<longrightarrow> VfioDevice \<in> S) \<and> (VfioDevice \<in> S \<longrightarrow> VfioAttached \<in> S) \<and>
     (VfioAttached \<in> S \<longrightarrow> VfioGroup \<in> S) \<and> (VfioGroup \<in> S \<longrightarrow> VfioContainer \<in> S) \<and>
     (VfioMapping \<in> S \<longrightarrow> VfioMemory \<in> S \<and> VfioAttached \<in> S)"

text \<open>The invariant between steps: the log agrees with a set of resources held.\<close>

definition session_world :: "resource set \<Rightarrow> history \<Rightarrow> bool" where
  "session_world S h \<longleftrightarrow> holds h S \<and> closed S \<and> always vfio_safe h"

definition session_ok :: "'a session_scheme \<Rightarrow> bool" where
  "session_ok s \<longleftrightarrow> session_world (owned s) (log s)"

lemma holds_vfio_nested: "holds h S \<Longrightarrow> closed S \<Longrightarrow> vfio_nested h"
  by (auto simp: holds_def closed_def vfio_nested_def)

lemma engines_on_simps [simp]:
  "engines_on [] = False"
  "engines_on (Acquire x # h) = engines_on h" "engines_on (Release x # h) = engines_on h"
  "engines_on (DeviceReset # h) = engines_on h"
  "engines_on (Wr a v # h) = (if a = 0x2200 then v AND 0x1fe \<noteq> 0 else engines_on h)"
  by (simp_all add: engines_on_def)

lemma engines_on_quiet [simp]: "is_quiet e \<Longrightarrow> engines_on (e # h) = engines_on h"
  by (simp add: engines_on_def)

lemma engines_off_unwritten: "writes h = [] \<Longrightarrow> \<not> engines_on h"
  by (simp add: engines_on_def shadow_map_of)

lemma engines_on_reads [simp]: "reads rs \<Longrightarrow> engines_on (rs @ h) = engines_on h"
  by (simp add: engines_on_def)

lemma engines_off_restored [simp]:
  "\<not> engines_on (rev (map (\<lambda>(a, v). Wr a v) restore_stores) @ h)"
  by (simp add: restore_stores_def)

lemma world_start: "session_world {} []"
  by (simp add: session_world_def holds_def closed_def vfio_safe_def vfio_nested_def confined_def)

lemma world_empty: "fresh_session s \<Longrightarrow> session_ok s"
proof -
  assume f: "fresh_session s"
  have "owns s x = False" for x
    using f by (cases x) (simp_all add: fresh_session_def)
  then have "owned s = {}" by (simp add: owned_def)
  then show ?thesis using f world_start by (simp add: session_ok_def fresh_session_def)
qed

lemma world_now:
  assumes "session_world S h"
  shows "vfio_nested h" "access_ok h" "confined h"
proof -
  have "vfio_safe h" using assms always_now[of vfio_safe h] by (simp add: session_world_def)
  then show "vfio_nested h" "access_ok h" "confined h" by (simp_all add: vfio_safe_def)
qed

lemma session_acquire:
  assumes "session_world S h" "x \<notin> S" "closed (insert x S)"
  shows "session_world (insert x S) (Acquire x # h)"
proof -
  have "confined h" using world_now[OF assms(1)] by simp
  then have "confined (Acquire x # h)"
    using assms(1,2) by (auto simp: confined_def session_world_def holds_def)
  then show ?thesis
    using assms holds_vfio_nested[OF holds_acquire[of h S x]]
    by (simp add: session_world_def vfio_safe_def holds_acquire)
qed

lemma session_release:
  assumes "session_world S h" "x \<in> S" "closed (S - {x})"
    and "x = VfioMapping \<or> x = VfioMemory \<Longrightarrow> \<not> engines_on h"
  shows "session_world (S - {x}) (Release x # h)"
proof -
  have "confined h" using world_now[OF assms(1)] by simp
  then have "confined (Release x # h)" using assms(4) by (auto simp: confined_def)
  then show ?thesis
    using assms(1-3) holds_vfio_nested[OF holds_release[of h S x]]
    by (simp add: session_world_def vfio_safe_def holds_release)
qed

lemma world_release_if:
  assumes "session_world S h" "closed (S - {x})"
    and "x = VfioMapping \<or> x = VfioMemory \<Longrightarrow> \<not> engines_on h"
  shows "x \<in> S \<Longrightarrow> session_world (S - {x}) (Release x # h)" "x \<notin> S \<Longrightarrow> session_world (S - {x}) h"
  using assms session_release by auto

text \<open>Events that hold on to everything: loads, delays, clock readings and the device reset.\<close>

lemma world_same:
  assumes "session_world S h" "held (e # h) = held h" "engines_on (e # h) = engines_on h"
    "access_ok (e # h)"
  shows "session_world S (e # h)"
proof -
  have "vfio_safe h" using assms(1) always_now by (auto simp: session_world_def)
  then have "vfio_safe (e # h)"
    using assms(2-4) by (simp add: vfio_safe_def vfio_nested_def confined_def)
  then show ?thesis using assms(1,2) by (simp add: session_world_def holds_def)
qed

lemma world_write:
  assumes "session_world S h" "in_bar a" "BarMap \<in> S" "VfioMapping \<in> S"
  shows "session_world S (Wr a v # h)"
proof -
  have "vfio_safe h" and S: "held h BarMap = 1" "held h VfioMapping = 1" "held h VfioMemory = 1"
    using assms always_now by (auto simp: session_world_def holds_def closed_def)
  then have "vfio_safe (Wr a v # h)"
    using assms(2) by (simp add: vfio_safe_def vfio_nested_def confined_def)
  then show ?thesis using assms(1) by (simp add: session_world_def holds_def)
qed

lemma world_write_off:
  assumes "session_world S h" "in_bar a" "BarMap \<in> S" "\<not> engines_on (Wr a v # h)"
  shows "session_world S (Wr a v # h)"
proof -
  have "vfio_safe h" and S: "held h BarMap = 1"
    using assms always_now by (auto simp: session_world_def holds_def closed_def)
  then have "vfio_safe (Wr a v # h)"
    using assms(2,4) by (simp add: vfio_safe_def vfio_nested_def confined_def)
  then show ?thesis using assms(1) by (simp add: session_world_def holds_def)
qed

lemma world_read:
  assumes "session_world S h" "in_bar a" "BarMap \<in> S"
  shows "session_world S (Rd a v # h)"
  using assms by (intro world_same) (auto simp: session_world_def holds_def)

section \<open>The acquisition steps\<close>

text \<open>
  Beside the VFIO resources a tool may hold an input file and a heap copy of its memory, on
  which nothing rests: the frame \<open>F\<close> of a session.
\<close>

definition framed :: "resource set \<Rightarrow> 'a session_scheme \<Rightarrow> bool" where
  "framed F s \<longleftrightarrow> F \<subseteq> {InputFile, Snapshot} \<and> session_world (owned s \<union> F) (log s)"

lemma session_ok_framed: "session_ok s \<longleftrightarrow> framed {} s"
  by (simp add: session_ok_def framed_def)

lemma closed_frame: "F \<subseteq> {InputFile, Snapshot} \<Longrightarrow> closed (S \<union> F) \<longleftrightarrow> closed S"
proof -
  assume "F \<subseteq> {InputFile, Snapshot}"
  then have "BarMap \<notin> F" "VfioDevice \<notin> F" "VfioAttached \<notin> F" "VfioGroup \<notin> F" "VfioContainer \<notin> F"
    "VfioMapping \<notin> F" "VfioMemory \<notin> F" by blast+
  then show ?thesis by (simp add: closed_def)
qed

lemma framedD:
  assumes "framed F s"
  shows "session_world (owned s \<union> F) (log s)" "closed (owned s)" "F \<subseteq> {InputFile, Snapshot}"
proof -
  show F: "F \<subseteq> {InputFile, Snapshot}" and w: "session_world (owned s \<union> F) (log s)"
    using assms by (simp_all only: framed_def simp_thms)
  from w have "closed (owned s \<union> F)" by (simp only: session_world_def simp_thms)
  then show "closed (owned s)" by (simp only: closed_frame[OF F])
qed

text \<open>
  \<open>setup_to F X m Y\<close>: from a session that owns \<open>X\<close> beside the frame, the step \<open>m\<close> either ends
  in one that owns \<open>Y\<close> or reports failure; either way the log agrees with what is owned,
  nothing was stored to the card, and the tool's own variables are as before.
\<close>

definition setup_to ::
  "resource set \<Rightarrow> resource set \<Rightarrow> ('a session_scheme, bool) state \<Rightarrow> resource set \<Rightarrow> bool" where
  "setup_to F X m Y \<longleftrightarrow> (\<forall>s. framed F s \<longrightarrow> owned s = X \<longrightarrow>
     wp m (\<lambda>b t. framed F t \<and> session.more t = session.more s \<and>
       writes (log t) = writes (log s) \<and> exit_success t = exit_success s \<and>
       (b \<longrightarrow> owned t = Y)) s)"

lemma setup_toD:
  assumes "setup_to {} X m Y" "session_ok s" "owned s = X"
  shows "wp m (\<lambda>b t. session_ok t \<and> session.more t = session.more s \<and>
       writes (log t) = writes (log s) \<and> exit_success t = exit_success s \<and> (b \<longrightarrow> owned t = Y)) s"
  using assms by (simp add: setup_to_def session_ok_framed)

named_theorems setup_intros \<open>the acquisition steps and their composition\<close>

lemma setup_and_m [setup_intros]:
  assumes "setup_to F X a Y" and "setup_to F Y b Z"
  shows "setup_to F X (and_m a b) Z"
  unfolding setup_to_def wp_and_m
proof (intro allI impI)
  fix s :: "'a session_scheme"
  assume s: "framed F s" "owned s = X"
  let ?P = "\<lambda>s Y b t. framed F t \<and> session.more t = session.more s \<and>
       writes (log t) = writes (log s) \<and> exit_success t = exit_success s \<and> (b \<longrightarrow> owned t = Y)"
  have "wp a (?P s Y) s" using assms(1) s by (simp add: setup_to_def)
  then show "wp a (\<lambda>x. if x then wp b (?P s Z) else ?P s Z False) s"
  proof (rule wp_mono)
    fix x t
    assume t: "?P s Y x t"
    have "wp b (?P t Z) t" if x
      using assms(2) t that unfolding setup_to_def by blast
    then have "wp b (?P s Z) t" if x
      using that t by (auto elim: wp_mono)
    then show "(if x then wp b (?P s Z) else ?P s Z False) t" using t by simp
  qed
qed

lemma setup_check [setup_intros]: "setup_to F X (check b) X"
  by (simp add: setup_to_def check_def wp_simps)

lemma owns_iff: "x \<in> owned s \<longleftrightarrow> owns s x"
  by (simp add: owned_def)

lemma owned_update:
  "owned (s\<lparr>log := l\<rparr>) = owned s"
  "owned (s\<lparr>ram := m\<rparr>) = owned s"
  "owned (s\<lparr>exit_success := b\<rparr>) = owned s"
  "owned (s\<lparr>container_set := True\<rparr>) = insert VfioAttached (owned s)"
  "owned (s\<lparr>memory_ok := True\<rparr>) = insert VfioMemory (owned s)"
  "owned (s\<lparr>dma_mapped := True\<rparr>) = insert VfioMapping (owned s)"
  "owned (s\<lparr>bar_ok := True\<rparr>) = insert BarMap (owned s)"
  "0 \<le> c \<Longrightarrow> owned (s\<lparr>container_fd := c\<rparr>) = insert VfioContainer (owned s)"
  "c < 0 \<Longrightarrow> owned (s\<lparr>container_fd := c\<rparr>) = owned s - {VfioContainer}"
  "0 \<le> c \<Longrightarrow> owned (s\<lparr>group_fd := c\<rparr>) = insert VfioGroup (owned s)"
  "c < 0 \<Longrightarrow> owned (s\<lparr>group_fd := c\<rparr>) = owned s - {VfioGroup}"
  "0 \<le> c \<Longrightarrow> owned (s\<lparr>device_fd := c\<rparr>) = insert VfioDevice (owned s)"
  "c < 0 \<Longrightarrow> owned (s\<lparr>device_fd := c\<rparr>) = owned s - {VfioDevice}"
  by (rule set_eqI, rename_tac x, case_tac x; simp add: owns_iff)+

lemma owned_more: "owned (s\<lparr>log := l\<rparr>) = owned t \<longleftrightarrow> owned s = owned t"
  by (simp add: owned_update)

lemma closed_insert:
  "closed S \<Longrightarrow> closed (insert VfioContainer S)"
  "closed S \<Longrightarrow> VfioContainer \<in> S \<Longrightarrow> closed (insert VfioGroup S)"
  "closed S \<Longrightarrow> VfioGroup \<in> S \<Longrightarrow> closed (insert VfioAttached S)"
  "closed S \<Longrightarrow> closed (insert VfioMemory S)"
  "closed S \<Longrightarrow> VfioMemory \<in> S \<Longrightarrow> VfioAttached \<in> S \<Longrightarrow> closed (insert VfioMapping S)"
  "closed S \<Longrightarrow> VfioAttached \<in> S \<Longrightarrow> closed (insert VfioDevice S)"
  "closed S \<Longrightarrow> VfioDevice \<in> S \<Longrightarrow> closed (insert BarMap S)"
  by (auto simp: closed_def)

lemma session_okD: "session_ok s \<Longrightarrow> session_world (owned s) (log s)" "session_ok s \<Longrightarrow> closed (owned s)"
  by (simp_all add: session_ok_def session_world_def)

lemma setup_store_ram [setup_intros]: "setup_to F X (do { store_ram f; check True }) X"
  by (auto simp: setup_to_def store_ram_def check_def wp_simps framed_def owned_update)

definition whole :: "resource set" where
  "whole = {BarMap, VfioDevice, VfioMapping, VfioMemory, VfioAttached, VfioGroup, VfioContainer}"

lemma whole_simps [simp]: "BarMap \<in> whole" "VfioMapping \<in> whole"
  by (simp_all add: whole_def)

text \<open>A step that acquires one resource, or fails with nothing changed.\<close>

lemma framed_event:
  assumes "framed F s" "x \<notin> owned s" "x \<notin> {InputFile, Snapshot}" "closed (insert x (owned s))"
  shows "session_world (insert x (owned s \<union> F)) (Acquire x # log s)"
proof -
  note f = framedD[OF assms(1)]
  have "closed (insert x (owned s \<union> F))" using closed_frame[OF f(3), of "insert x (owned s)"] assms(4) by simp
  then show ?thesis using assms(2,3) f by (intro session_acquire) auto
qed

lemma framedI: "framed F s \<Longrightarrow> session_world (owned t \<union> F) (log t) \<Longrightarrow> framed F t"
  by (simp add: framed_def)

lemma setup_container [setup_intros]:
  "VfioContainer \<notin> X \<Longrightarrow> setup_to F X (open_container e) (insert VfioContainer X)"
  by (auto simp: setup_to_def open_container_def wp_simps owned_update framed_event
      framedD(1,2) closed_insert intro: framedI)

lemma setup_group [setup_intros]:
  "VfioGroup \<notin> X \<Longrightarrow> VfioContainer \<in> X \<Longrightarrow> setup_to F X (open_group e) (insert VfioGroup X)"
  by (auto simp: setup_to_def open_group_def wp_simps owned_update framed_event
      framedD(1,2) closed_insert intro: framedI)

lemma setup_attach [setup_intros]:
  "VfioAttached \<notin> X \<Longrightarrow> VfioGroup \<in> X \<Longrightarrow> setup_to F X (attach_group e) (insert VfioAttached X)"
  by (auto simp: setup_to_def attach_group_def wp_simps owned_update framed_event
      framedD(1,2) closed_insert intro: framedI)

lemma setup_iommu [setup_intros]: "setup_to F X (configure_iommu e p) X"
  unfolding configure_iommu_def by (rule setup_check)

lemma setup_memory [setup_intros]:
  "VfioMemory \<notin> X \<Longrightarrow> setup_to F X (allocate_memory e) (insert VfioMemory X)"
  by (auto simp: setup_to_def allocate_memory_def wp_simps owned_update framed_event
      framedD(1,2) closed_insert intro: framedI)

lemma setup_mapping [setup_intros]:
  "VfioMapping \<notin> X \<Longrightarrow> VfioMemory \<in> X \<Longrightarrow> VfioAttached \<in> X \<Longrightarrow>
     setup_to F X (map_iova e) (insert VfioMapping X)"
  by (auto simp: setup_to_def map_iova_def wp_simps owned_update framed_event
      framedD(1,2) closed_insert intro: framedI)

lemma setup_device [setup_intros]:
  "VfioDevice \<notin> X \<Longrightarrow> VfioAttached \<in> X \<Longrightarrow> setup_to F X (open_device e v) (insert VfioDevice X)"
  by (auto simp: setup_to_def open_device_def wp_simps owned_update framed_event
      framedD(1,2) closed_insert intro: framedI)

lemma setup_bar [setup_intros]:
  "BarMap \<notin> X \<Longrightarrow> VfioDevice \<in> X \<Longrightarrow> setup_to F X (map_bar e) (insert BarMap X)"
  by (auto simp: setup_to_def map_bar_def wp_simps owned_update framed_event
      framedD(1,2) closed_insert intro: framedI)

end
