(* ===== verification/Vfio_Session.thy ===== *)
theory Vfio_Session
  imports Vfio
begin

text \<open>
  The life of a VFIO session: programs that run while its resources stay as they are
  (\<open>inside\<close>), the teardown at the cleanup label, and the contract \<open>vfio_tool\<close> every tool
  meets: whatever fails and wherever, the session ends with everything released, never having
  held a resource without the ones it rests on nor left a DMA engine enabled without its
  mapping.
\<close>

section \<open>Running inside a session\<close>

definition inside :: "resource set \<Rightarrow> 'a session_scheme \<Rightarrow> bool" where
  "inside S s \<longleftrightarrow> session_world S (log s) \<and> owned s = S"

text \<open>The same beside a frame of files and heap copies, which \<open>inside\<close> has not.\<close>

definition within :: "resource set \<Rightarrow> resource set \<Rightarrow> 'a session_scheme \<Rightarrow> bool" where
  "within F S s \<longleftrightarrow> session_world (S \<union> F) (log s) \<and> owned s = S"

lemma inside_within: "inside = within {}"
  by (simp add: inside_def within_def fun_eq_iff)

lemma session_ok_inside: "session_ok s \<longleftrightarrow> inside (owned s) s"
  by (simp add: session_ok_def inside_def)

lemma framed_within: "framed F s \<longleftrightarrow> F \<subseteq> {InputFile, Snapshot} \<and> within F (owned s) s"
  by (simp only: framed_def within_def simp_thms)

lemma owned_cong:
  fixes s t :: "'a session_scheme"
  assumes "container_fd t = container_fd s" "group_fd t = group_fd s" "device_fd t = device_fd s"
    and "container_set t = container_set s" "dma_mapped t = dma_mapped s"
    and "memory_ok t = memory_ok s" "bar_ok t = bar_ok s"
  shows "owned t = owned s"
  by (rule set_eqI, rename_tac x, case_tac x) (simp_all add: owns_iff assms)

text \<open>Changing a variable of the tool.\<close>

lemma within_local:
  fixes f :: "'a session_scheme \<Rightarrow> 'a session_scheme"
  assumes "\<And>s. log (f s) = log s" "\<And>s. container_fd (f s) = container_fd s"
    "\<And>s. group_fd (f s) = group_fd s" "\<And>s. device_fd (f s) = device_fd s"
    "\<And>s. container_set (f s) = container_set s" "\<And>s. dma_mapped (f s) = dma_mapped s"
    "\<And>s. memory_ok (f s) = memory_ok s" "\<And>s. bar_ok (f s) = bar_ok s"
  shows "preserves (within F S) (modify f)"
proof (rule preserves_modify)
  fix s :: "'a session_scheme"
  assume "within F S s"
  moreover have "owned (f s) = owned s" by (rule owned_cong) (simp_all add: assms)
  ultimately show "within F S (f s)" by (simp add: within_def assms)
qed

lemma within_read [preserves_intros]:
  "in_bar a \<Longrightarrow> BarMap \<in> S \<Longrightarrow> preserves (within F S) (bus_read hw a)"
  by (simp add: preserves_def wp_simps within_def owned_update world_read)

lemma within_write [preserves_intros]:
  "in_bar a \<Longrightarrow> BarMap \<in> S \<Longrightarrow> VfioMapping \<in> S \<Longrightarrow> preserves (within F S) (bus_write a v)"
  by (simp add: preserves_def wp_simps within_def owned_update world_write)

lemma within_quiet [preserves_intros]:
  "is_quiet e \<Longrightarrow> \<not> is_rd e \<Longrightarrow> preserves (within F S) (emit e)"
  by (cases e) (auto simp: preserves_def wp_simps within_def owned_update intro!: world_same)

lemma within_sleep [preserves_intros]: "preserves (within F S) (nanosleep n)"
  unfolding nanosleep_def by (rule within_quiet) simp_all

lemma within_interrupted [preserves_intros]: "preserves (within F S) (interrupted e)"
  unfolding interrupted_def by (rule preserves_gets)

lemma within_load_byte [preserves_intros]: "preserves (within F S) (load_byte e i)"
  unfolding load_byte_def by (rule preserves_gets)

lemma within_store_ram [preserves_intros]: "preserves (within F S) (store_ram f)"
  unfolding store_ram_def by (rule within_local) simp_all

lemma within_fail [preserves_intros]: "preserves (within F S) fail"
  unfolding fail_def by (rule within_local) simp_all

lemma within_print [preserves_intros]: "preserves (within F S) (print l)"
  unfolding print_def by (rule within_local) simp_all

lemma within_reset [preserves_intros]: "preserves (within F S) (reset_device e)"
  unfolding reset_device_def
  by (auto simp: preserves_def wp_simps within_def owned_update intro!: world_same)

lemmas inside_local = within_local[where F = "{}", folded inside_within]

lemmas inside_intros [preserves_intros] =
  within_read[where F = "{}", folded inside_within] within_write[where F = "{}", folded inside_within]
  within_quiet[where F = "{}", folded inside_within] within_sleep[where F = "{}", folded inside_within]
  within_interrupted[where F = "{}", folded inside_within]
  within_load_byte[where F = "{}", folded inside_within]
  within_store_ram[where F = "{}", folded inside_within] within_fail[where F = "{}", folded inside_within]
  within_print[where F = "{}", folded inside_within] within_reset[where F = "{}", folded inside_within]

lemmas inside_read = within_read[where F = "{}", folded inside_within]

text \<open>
  The same while no engine is enabled: a store that enables none needs no mapping.
\<close>

definition calm :: "resource set \<Rightarrow> resource set \<Rightarrow> 'a session_scheme \<Rightarrow> bool" where
  "calm F S s \<longleftrightarrow> within F S s \<and> \<not> engines_on (log s)"

definition idle :: "resource set \<Rightarrow> 'a session_scheme \<Rightarrow> bool" where
  "idle S s \<longleftrightarrow> inside S s \<and> \<not> engines_on (log s)"

lemma idle_calm: "idle = calm {}"
  by (simp add: idle_def calm_def inside_within fun_eq_iff)

lemma calm_local:
  assumes "preserves (within F S) (modify f)" "\<And>s. log (f s) = log s"
  shows "preserves (calm F S) (modify f)"
  using assms by (simp add: preserves_def wp_simps calm_def)

lemma calm_read [preserves_intros]:
  "in_bar a \<Longrightarrow> BarMap \<in> S \<Longrightarrow> preserves (calm F S) (bus_read hw a)"
  by (simp add: preserves_def wp_simps calm_def within_def owned_update world_read)

lemma calm_write [preserves_intros]:
  "in_bar a \<Longrightarrow> BarMap \<in> S \<Longrightarrow> a \<noteq> 0x2200 \<or> v AND 0x1fe = 0 \<Longrightarrow>
     preserves (calm F S) (bus_write a v)"
  by (auto simp: preserves_def wp_simps calm_def within_def owned_update intro!: world_write_off)

lemma calm_sleep [preserves_intros]: "preserves (calm F S) (nanosleep n)"
  by (simp add: preserves_def nanosleep_def wp_simps calm_def within_def owned_update world_same)

lemma calm_store_ram [preserves_intros]: "preserves (calm F S) (store_ram f)"
  unfolding store_ram_def
  by (rule calm_local[OF within_store_ram[unfolded store_ram_def]]) simp

lemma calm_fail [preserves_intros]: "preserves (calm F S) fail"
  unfolding fail_def by (rule calm_local[OF within_fail[unfolded fail_def]]) simp

lemma calm_reset [preserves_intros]: "preserves (calm F S) (reset_device e)"
  unfolding reset_device_def
  by (auto simp: preserves_def wp_simps calm_def within_def owned_update intro!: world_same)

lemma calm_interrupted [preserves_intros]: "preserves (calm F S) (interrupted e)"
  unfolding interrupted_def by (rule preserves_gets)

lemma calm_load_byte [preserves_intros]: "preserves (calm F S) (load_byte e i)"
  unfolding load_byte_def by (rule preserves_gets)

lemmas idle_local = calm_local[where F = "{}", folded inside_within idle_calm]

lemmas idle_intros [preserves_intros] =
  calm_read[where F = "{}", folded idle_calm] calm_write[where F = "{}", folded idle_calm]
  calm_sleep[where F = "{}", folded idle_calm] calm_store_ram[where F = "{}", folded idle_calm]
  calm_fail[where F = "{}", folded idle_calm] calm_reset[where F = "{}", folded idle_calm]
  calm_interrupted[where F = "{}", folded idle_calm] calm_load_byte[where F = "{}", folded idle_calm]

lemmas idle_sleep = calm_sleep[where F = "{}", folded idle_calm]
lemmas idle_read = calm_read[where F = "{}", folded idle_calm]
lemmas idle_write = calm_write[where F = "{}", folded idle_calm]

section \<open>Teardown\<close>

text \<open>
  Part of the way through the teardown of a session that held \<open>H\<close> and had the handles of \<open>s\<close>:
  the resources \<open>X\<close> have been released, none before those that rest on it (\<open>torn\<close>). \<open>good\<close>
  is false only when the IOVA mapping could not be removed.
\<close>

definition same_handles :: "'a session_scheme \<Rightarrow> 'a session_scheme \<Rightarrow> bool" where
  "same_handles s t \<longleftrightarrow> container_fd t = container_fd s \<and> group_fd t = group_fd s \<and>
     device_fd t = device_fd s \<and> container_set t = container_set s \<and>
     dma_mapped t = dma_mapped s \<and> memory_ok t = memory_ok s \<and> bar_ok t = bar_ok s"

definition tracks :: "resource set \<Rightarrow> 'a session_scheme \<Rightarrow> bool" where
  "tracks H s \<longleftrightarrow> closed H \<and> (\<forall>x\<in>whole. x \<in> H \<longleftrightarrow> owns s x)"

definition torn :: "resource set \<Rightarrow> bool" where
  "torn X \<longleftrightarrow> (VfioDevice \<in> X \<longrightarrow> BarMap \<in> X) \<and> (VfioAttached \<in> X \<longrightarrow> VfioDevice \<in> X \<and> VfioMapping \<in> X) \<and>
     (VfioGroup \<in> X \<longrightarrow> VfioAttached \<in> X) \<and> (VfioContainer \<in> X \<longrightarrow> VfioGroup \<in> X) \<and>
     (VfioMemory \<in> X \<longrightarrow> VfioMapping \<in> X)"

lemma closed_torn: "closed H \<Longrightarrow> torn X \<Longrightarrow> closed (H - X)"
  by (auto simp: closed_def torn_def)

definition tearing ::
  "bool \<Rightarrow> resource set \<Rightarrow> 'a session_scheme \<Rightarrow> resource set \<Rightarrow> 'a session_scheme \<Rightarrow> bool" where
  "tearing good H s X t \<longleftrightarrow>
     holds (log t) (H - X) \<and> (good \<longrightarrow> session_world (H - X) (log t)) \<and> tracks H s \<and>
     \<not> engines_on (log t) \<and> writes (log t) = writes (log s) \<and> same_handles s t"

lemma tracks_owned: "closed (owned s) \<Longrightarrow> F \<subseteq> {InputFile, Snapshot} \<Longrightarrow> tracks (owned s \<union> F) s"
proof -
  assume F: "F \<subseteq> {InputFile, Snapshot}" and "closed (owned s)"
  then have "closed (owned s \<union> F)" by (simp only: closed_frame)
  moreover have "BarMap \<notin> F" "VfioDevice \<notin> F" "VfioAttached \<notin> F" "VfioGroup \<notin> F" "VfioContainer \<notin> F"
    "VfioMapping \<notin> F" "VfioMemory \<notin> F" using F by blast+
  ultimately show ?thesis by (simp add: tracks_def whole_def owns_iff)
qed

lemma tearing_start:
  assumes "session_world (owned s \<union> F) (log s)" "F \<subseteq> {InputFile, Snapshot}" "\<not> engines_on (log s)"
  shows "tearing good (owned s \<union> F) s {} s"
proof -
  have "closed (owned s \<union> F)" using assms(1) by (simp add: session_world_def)
  then have "tracks (owned s \<union> F) s" using tracks_owned assms(2) by (simp only: closed_frame)
  then show ?thesis using assms by (simp add: tearing_def session_world_def same_handles_def)
qed

lemma tearing_step:
  assumes t: "tearing good H s X t" and x: "x \<notin> X"
    and c: "c t \<longleftrightarrow> x \<in> H" and cl: "good \<Longrightarrow> torn (insert x X)"
  shows "wp (when_m c (emit (Release x))) (\<lambda>_. tearing good H s (insert x X)) t"
proof -
  have eq: "H - insert x X = H - X - {x}" by auto
  have cl: "good \<Longrightarrow> closed (H - X - {x})"
    using t cl closed_torn[of H "insert x X"] by (simp add: tearing_def tracks_def eq)
  show ?thesis
  proof (cases "x \<in> H")
    case True
    then have "x \<in> H - X" using x by simp
    then have "tearing good H s (insert x X) (t\<lparr>log := Release x # log t\<rparr>)"
      using t cl session_release[of "H - X" "log t" x] holds_release[of "log t" "H - X" x]
      unfolding tearing_def eq by (auto simp: same_handles_def)
    then show ?thesis using True c by (simp add: wp_simps)
  next
    case False
    then have "tearing good H s (insert x X) t" using t unfolding tearing_def eq by simp
    then show ?thesis using False c by (simp add: wp_simps)
  qed
qed

lemma tearing_flags:
  assumes "tearing good H s X t"
  shows "container_fd t = container_fd s" "group_fd t = group_fd s" "device_fd t = device_fd s"
    "container_set t = container_set s" "dma_mapped t = dma_mapped s"
    "memory_ok t = memory_ok s" "bar_ok t = bar_ok s"
  using assms by (simp_all add: tearing_def same_handles_def)

text \<open>A change of the tool's own variables, such as a report.\<close>

lemma tearing_local:
  "tearing good H s X t \<Longrightarrow> same_handles t u \<Longrightarrow> log u = log t \<Longrightarrow> tearing good H s X u"
  by (simp add: tearing_def same_handles_def)

definition clean_unmap :: "vfio_env \<Rightarrow> nat \<Rightarrow> 'a session_scheme \<Rightarrow> bool" where
  "clean_unmap e n s \<longleftrightarrow> unmap_ok e n \<or> \<not> dma_mapped s"

text \<open>The removal of the mapping, which succeeds if \<open>ok\<close>.\<close>

lemma tear_mapping_if:
  assumes t: "tearing good H s X t" "VfioMapping \<notin> X" "good \<longleftrightarrow> ok \<or> \<not> dma_mapped s"
    and cl: "good \<Longrightarrow> torn (insert VfioMapping X)"
  shows "wp (when_m dma_mapped (if ok then emit (Release VfioMapping) else fail)) (\<lambda>_.
     tearing good H s (if good then insert VfioMapping X else X)) t"
proof -
  have m: "VfioMapping \<in> H \<longleftrightarrow> dma_mapped s" "dma_mapped t = dma_mapped s"
    using t(1) by (simp_all add: tearing_def tracks_def whole_def same_handles_def)
  consider "ok" "good" | "\<not> ok" "dma_mapped s" "\<not> good" | "\<not> ok" "\<not> dma_mapped s" "good"
    using t(3) by blast
  then show ?thesis
  proof cases
    case 1
    then show ?thesis using tearing_step[OF t(1,2), of dma_mapped] m cl by simp
  next
    case 2
    then have "tearing good H s X (t\<lparr>exit_success := False\<rparr>)"
      using t(1) unfolding tearing_def by (auto simp: same_handles_def)
    then show ?thesis using 2 m by (simp add: wp_simps fail_def)
  next
    case 3
    then have "H - insert VfioMapping X = H - X" using m by auto
    then have "tearing good H s (insert VfioMapping X) t"
      using t(1) unfolding tearing_def by simp
    then show ?thesis using 3 m by (simp add: wp_simps)
  qed
qed

lemma tear_mapping:
  assumes "tearing good H s X t" "VfioMapping \<notin> X" "good = clean_unmap e n s"
    and "good \<Longrightarrow> torn (insert VfioMapping X)"
  shows "wp (release_mapping e n) (\<lambda>_. tearing good H s (if good then insert VfioMapping X else X)) t"
  unfolding release_mapping_def
  by (rule tear_mapping_if[OF assms(1,2) _ assms(4)]) (use assms(3) in \<open>simp_all add: clean_unmap_def\<close>)

lemma tear_handle:
  assumes "tearing good H s X t"
  shows "BarMap \<notin> X \<Longrightarrow> (good \<Longrightarrow> torn (insert BarMap X)) \<Longrightarrow>
      wp release_bar (\<lambda>_. tearing good H s (insert BarMap X)) t"
    "VfioDevice \<notin> X \<Longrightarrow> (good \<Longrightarrow> torn (insert VfioDevice X)) \<Longrightarrow>
      wp release_device (\<lambda>_. tearing good H s (insert VfioDevice X)) t"
    "VfioMemory \<notin> X \<Longrightarrow> (good \<Longrightarrow> torn (insert VfioMemory X)) \<Longrightarrow>
      wp release_memory (\<lambda>_. tearing good H s (insert VfioMemory X)) t"
    "VfioAttached \<notin> X \<Longrightarrow> (good \<Longrightarrow> torn (insert VfioAttached X)) \<Longrightarrow>
      wp detach_group (\<lambda>_. tearing good H s (insert VfioAttached X)) t"
    "VfioGroup \<notin> X \<Longrightarrow> (good \<Longrightarrow> torn (insert VfioGroup X)) \<Longrightarrow>
      wp release_group (\<lambda>_. tearing good H s (insert VfioGroup X)) t"
    "VfioContainer \<notin> X \<Longrightarrow> (good \<Longrightarrow> torn (insert VfioContainer X)) \<Longrightarrow>
      wp release_container (\<lambda>_. tearing good H s (insert VfioContainer X)) t"
  unfolding release_bar_def release_device_def release_memory_def detach_group_def release_group_def
    release_container_def
proof -
  have mem: "BarMap \<in> H \<longleftrightarrow> bar_ok t" "VfioDevice \<in> H \<longleftrightarrow> \<not> device_fd t < 0" "VfioMemory \<in> H \<longleftrightarrow> memory_ok t"
    "VfioAttached \<in> H \<longleftrightarrow> container_set t" "VfioGroup \<in> H \<longleftrightarrow> \<not> group_fd t < 0"
    "VfioContainer \<in> H \<longleftrightarrow> \<not> container_fd t < 0"
    using assms tearing_flags[OF assms] by (simp_all add: tearing_def tracks_def whole_def not_less)
  note step = tearing_step[OF assms]
  show "BarMap \<notin> X \<Longrightarrow> (good \<Longrightarrow> torn (insert BarMap X)) \<Longrightarrow>
      wp (when_m bar_ok (emit (Release BarMap))) (\<lambda>_. tearing good H s (insert BarMap X)) t"
    "VfioDevice \<notin> X \<Longrightarrow> (good \<Longrightarrow> torn (insert VfioDevice X)) \<Longrightarrow>
      wp (when_m (\<lambda>s. \<not> device_fd s < 0) (emit (Release VfioDevice)))
        (\<lambda>_. tearing good H s (insert VfioDevice X)) t"
    "VfioMemory \<notin> X \<Longrightarrow> (good \<Longrightarrow> torn (insert VfioMemory X)) \<Longrightarrow>
      wp (when_m memory_ok (emit (Release VfioMemory))) (\<lambda>_. tearing good H s (insert VfioMemory X)) t"
    "VfioAttached \<notin> X \<Longrightarrow> (good \<Longrightarrow> torn (insert VfioAttached X)) \<Longrightarrow>
      wp (when_m container_set (emit (Release VfioAttached)))
        (\<lambda>_. tearing good H s (insert VfioAttached X)) t"
    "VfioGroup \<notin> X \<Longrightarrow> (good \<Longrightarrow> torn (insert VfioGroup X)) \<Longrightarrow>
      wp (when_m (\<lambda>s. \<not> group_fd s < 0) (emit (Release VfioGroup)))
        (\<lambda>_. tearing good H s (insert VfioGroup X)) t"
    "VfioContainer \<notin> X \<Longrightarrow> (good \<Longrightarrow> torn (insert VfioContainer X)) \<Longrightarrow>
      wp (when_m (\<lambda>s. \<not> container_fd s < 0) (emit (Release VfioContainer)))
        (\<lambda>_. tearing good H s (insert VfioContainer X)) t"
    by (erule step, simp only: mem, assumption)+
qed

text \<open>How a session ends.\<close>

definition released :: "bool \<Rightarrow> bool \<Rightarrow> history \<Rightarrow> bool" where
  "released good mapped h \<longleftrightarrow>
     (\<forall>x. held h x = of_bool (x = VfioMapping \<and> mapped \<and> \<not> good)) \<and>
     (good \<longrightarrow> always vfio_safe h) \<and> \<not> engines_on h"

lemma tearing_released:
  assumes "tearing good (owned s \<union> F) s X t" "good \<longleftrightarrow> ok \<or> \<not> dma_mapped s"
    and "whole - {VfioMapping} \<union> F \<subseteq> X" "VfioMapping \<in> X \<longleftrightarrow> good"
  shows "released good (dma_mapped s) (log t)"
proof -
  have "owned s \<subseteq> whole"
    by (rule subsetI, rename_tac x, case_tac x) (simp_all add: owns_iff whole_def)
  moreover have "VfioMapping \<in> owned s \<longleftrightarrow> dma_mapped s" by (simp add: owns_iff)
  moreover have "VfioMapping \<in> F \<Longrightarrow> good" using assms(3,4) by auto
  ultimately have H: "owned s \<union> F - X = (if dma_mapped s \<and> \<not> good then {VfioMapping} else {})"
    using assms(2,3,4) by auto
  have "holds (log t) (owned s \<union> F - X)" "good \<Longrightarrow> session_world (owned s \<union> F - X) (log t)"
    "\<not> engines_on (log t)"
    using assms(1) by (simp_all add: tearing_def)
  then show ?thesis
    unfolding H by (auto simp: released_def holds_def session_world_def)
qed

lemma teardown_spec:
  assumes "session_ok s" "\<not> engines_on (log s)"
  shows "wp (teardown e n) (\<lambda>_ t. released (clean_unmap e n s) (dma_mapped s) (log t) \<and>
     writes (log t) = writes (log s) \<and> same_handles s t) s"
proof -
  define good where "good = clean_unmap e n s"
  let ?X3 = "if good then {VfioMapping, VfioDevice, BarMap} else {VfioDevice, BarMap}"
  have s0: "tearing good (owned s \<union> {}) s {} s"
    using assms by (intro tearing_start) (simp_all add: session_ok_def)
  have "wp (teardown e n) (\<lambda>_. tearing good (owned s \<union> {}) s (insert VfioContainer (insert VfioGroup
      (insert VfioAttached (insert VfioMemory ?X3))))) s"
    unfolding teardown_def wp_bind
    by (rule wp_mono[OF tear_handle(1)[OF s0]], simp, simp add: torn_def,
        erule tear_handle(2)[THEN wp_mono], simp, simp add: torn_def,
        erule tear_mapping[THEN wp_mono], simp, rule good_def, simp add: torn_def,
        erule tear_handle(3)[THEN wp_mono], simp split: if_splits, simp add: torn_def,
        erule tear_handle(4)[THEN wp_mono], simp split: if_splits, simp add: torn_def,
        erule tear_handle(5)[THEN wp_mono], simp split: if_splits, simp add: torn_def,
        erule tear_handle(6)[THEN wp_mono], simp split: if_splits, simp add: torn_def, simp)
  then show ?thesis
  proof (rule wp_mono)
    fix t
    assume t: "tearing good (owned s \<union> {}) s (insert VfioContainer (insert VfioGroup
      (insert VfioAttached (insert VfioMemory ?X3)))) t"
    have "released good (dma_mapped s) (log t)"
      by (rule tearing_released[OF t good_def[unfolded clean_unmap_def]]) (auto simp: whole_def)
    then show "released (clean_unmap e n s) (dma_mapped s) (log t) \<and>
        writes (log t) = writes (log s) \<and> same_handles s t"
      using t by (simp add: good_def tearing_def)
  qed
qed

section \<open>Evidence since a point of the history\<close>

definition extends :: "history \<Rightarrow> 'a bus_scheme \<Rightarrow> bool" where
  "extends k t \<longleftrightarrow> (\<exists>evs. log t = evs @ k)"

definition since :: "history \<Rightarrow> (u32 \<times> (u32 \<Rightarrow> bool)) set \<Rightarrow> 'a bus_scheme \<Rightarrow> bool" where
  "since k E t \<longleftrightarrow> (\<exists>evs. log t = evs @ k \<and> seen E evs)"

lemma since_mono: "since k E s \<Longrightarrow> extends (log s) t \<Longrightarrow> since k E t"
  unfolding since_def extends_def by (metis append.assoc seen_mono set_append Un_upper2)

lemma extends_trans: "extends k s \<Longrightarrow> extends (log s) t \<Longrightarrow> extends k t"
  unfolding extends_def by (metis append.assoc)

lemma extends_refl: "extends (log s) s"
  by (simp add: extends_def)

lemma since_later:
  assumes "extends k s" "since (log s) E t"
  shows "since k E t"
proof -
  obtain xs ys where "log s = xs @ k" "log t = ys @ xs @ k" "seen E ys"
    using assms by (auto simp: extends_def since_def)
  then show ?thesis
    unfolding since_def by (intro exI[of _ "ys @ xs"]) (auto intro: seen_mono)
qed

lemma since_union: "since k A t \<Longrightarrow> since k B t \<Longrightarrow> since k (A \<union> B) t"
  unfolding since_def by (metis append_same_eq seen_union)

text \<open>A scan, as its effect on a session.\<close>

lemma scan_since:
  assumes "checks log (\<lambda>s. s\<lparr>log := []\<rparr>) m E"
    and "\<And>b rs. reads rs \<Longrightarrow> extends (log s) (s\<lparr>log := rs @ log s\<rparr>) \<Longrightarrow>
      (b \<Longrightarrow> since (log s) E (s\<lparr>log := rs @ log s\<rparr>)) \<Longrightarrow> Q b (s\<lparr>log := rs @ log s\<rparr>)"
  shows "wp m Q s"
  by (rule read_only_wp[OF assms(1)], rule assms(2)) (auto simp: extends_def since_def)

lemma preserves_extending:
  fixes s :: "'a session_scheme"
  shows "preserves (\<lambda>t. (\<exists>xs. log t = xs @ log s \<and> writes xs = []) \<and>
     (exit_success t \<longrightarrow> exit_success s)) (teardown e n)"
  unfolding teardown_def release_bar_def release_device_def release_mapping_def release_memory_def
    detach_group_def release_group_def release_container_def fail_def
  by (intro preserves_intros preserves_modify) (auto simp: preserves_def wp_simps)

text \<open>The canary pages, as a scan of them finds them.\<close>

definition pages_intact :: "nat \<Rightarrow> vfio_env \<Rightarrow> history \<Rightarrow> (nat \<Rightarrow> u8) \<Rightarrow> bool" where
  "pages_intact n e h m \<longleftrightarrow>
     (\<forall>page<n. \<forall>byte<4096. ram_view e h m (page * 4096 + byte) = of_nat (0x40 + page))"

lemma wp_page_scan:
  "wp (all_m [0..<n] (\<lambda>page. all_m [0..<4096] (\<lambda>byte. do {
     b \<leftarrow> load_byte e (page * 4096 + byte);
     State_Monad.return (b = of_nat (0x40 + page)) }))) Q s = Q (pages_intact n e (log s) (ram s)) s"
proof -
  have "run_state (all_m [0..<n] (\<lambda>page. all_m [0..<4096] (\<lambda>byte. do {
      b \<leftarrow> load_byte e (page * 4096 + byte);
      State_Monad.return (b = of_nat (0x40 + page)) }))) s =
      (\<forall>page\<in>set [0..<n]. \<forall>byte\<in>set [0..<4096].
         ram_view e (log s) (ram s) (page * 4096 + byte) = of_nat (0x40 + page), s)"
    by (intro run_all_m_pure) (simp add: load_byte_def)
  moreover have "(\<forall>page\<in>set [0..<n]. \<forall>byte\<in>set [0..<4096].
         ram_view e (log s) (ram s) (page * 4096 + byte) = of_nat (0x40 + page)) \<longleftrightarrow>
      pages_intact n e (log s) (ram s)"
    unfolding pages_intact_def by (simp only: set_upt atLeastLessThan_iff le0 Ball_def simp_thms)
  ultimately show ?thesis by (simp add: wp_def)
qed

section \<open>The contract of a tool\<close>

text \<open>
  A tool is its attempt (everything up to the cleanup label), its cleanup of the card, its
  report and the teardown. The contract: from the tool's initial variables the attempt reaches
  a state the cleanup can start in, the cleanup leaves no engine enabled, and the report only
  prints.
\<close>

locale vfio_tool =
  fixes attempt :: "('a session_scheme, unit) state"
    and cleanup :: "('a session_scheme, unit) state"
    and report :: "('a session_scheme, unit) state"
    and start :: "'a session_scheme"
    and ready :: "'a session_scheme \<Rightarrow> bool"
  assumes attempt_ready: "wp attempt (\<lambda>_. ready) start"
    and cleanup_ready: "ready s \<Longrightarrow> wp cleanup (\<lambda>_ t. session_ok t \<and> \<not> engines_on (log t)) s"
    and report_prints: "\<exists>out. snd (run_state report r) = r\<lparr>stdout := out\<rparr>"
begin

lemma owned_stdout: "owned (s\<lparr>stdout := out\<rparr>) = owned s"
  by (rule owned_cong) simp_all

lemma run_released:
  "wp (do { attempt; cleanup; report; teardown e n })
     (\<lambda>_ t. released (clean_unmap e n t) (dma_mapped t) (log t)) start"
  unfolding wp_bind
proof (rule wp_mono[OF attempt_ready], rule wp_mono[OF cleanup_ready], assumption)
  fix t :: "'a session_scheme"
  assume t: "session_ok t \<and> \<not> engines_on (log t)"
  obtain out where out: "snd (run_state report t) = t\<lparr>stdout := out\<rparr>"
    using report_prints by blast
  let ?u = "t\<lparr>stdout := out\<rparr>"
  have "session_ok ?u" "\<not> engines_on (log ?u)"
    using t by (simp_all add: session_ok_def owned_stdout)
  then have "wp (teardown e n) (\<lambda>_ v. released (clean_unmap e n v) (dma_mapped v) (log v)) ?u"
    by (rule wp_mono[OF teardown_spec]) (auto simp: same_handles_def clean_unmap_def)
  then show "wp report (\<lambda>_. wp (teardown e n)
      (\<lambda>_ v. released (clean_unmap e n v) (dma_mapped v) (log v))) t"
    by (simp add: wp_run[of report] out)
qed

end

end
