(* ===== verification/Ring_Layout.thy ===== *)
theory Ring_Layout
  imports Vfio_Session
begin

text \<open>
  How the tools with sixteen rings lay their memory out: four pages for each ring, at
  consecutive IOVA addresses, sixteen bytes for each ring entry; the stores that publish all
  rings at these addresses; 32-bit words in the byte memory of the little-endian host; and the
  loads that show the card restored and recovered.
\<close>

section \<open>Addresses and the stores that publish them\<close>

definition first_iova :: "nat \<Rightarrow> nat \<Rightarrow> u64" where
  "first_iova dsp ring = TEST_IOVA + of_nat (dsp * 8 + ring * 4) * 4096"

definition page_iova :: "nat \<Rightarrow> nat \<Rightarrow> nat \<Rightarrow> u64" where
  "page_iova d r p = first_iova d r + of_nat p * 4096"

lemma page_iova_fun: "(\<lambda>p. first_iova d r + of_nat p * 4096) = page_iova d r"
  by (simp add: page_iova_def fun_eq_iff)

definition dsp_stores :: "nat \<Rightarrow> (nat \<Rightarrow> u32) \<Rightarrow> (u32 \<times> u32) list" where
  "dsp_stores d ix =
     publish_stores d 0 (ix 0) (page_iova d 0) @ publish_stores d 1 (ix 1) (page_iova d 1) @
     [(DMA_CONTROL, mask (d + 2))]"

definition startup_stores :: "(nat \<Rightarrow> nat \<Rightarrow> u32) \<Rightarrow> (u32 \<times> u32) list" where
  "startup_stores ix = quiesce_stores @ concat (map (\<lambda>d. dsp_stores d (ix d)) [0..<8])"

lemma writing_modify: "(\<And>s. log (f s) = log s) \<Longrightarrow> writing log (modify f) (\<lambda>_ xs. xs = [])"
  by (simp add: writing_def)

lemma ring_base_in_bar:
  assumes "d < 8" "r < 2"
  shows "in_bar (ring_base d r + 0x20)" "in_bar (ring_base d r + 0x24)" "in_bar (ring_base d r + 0x28)"
    "p < 4 \<Longrightarrow> in_bar (ring_base d r + of_nat p * 8)"
    "p < 4 \<Longrightarrow> in_bar (ring_base d r + of_nat p * 8 + 4)"
  using assms by (simp_all add: ring_base_reg ring_reg_words)

definition restored_seen :: "(u32 \<times> (u32 \<Rightarrow> bool)) set" where
  "restored_seen = rings_seen (\<lambda>_ _ _ v. v = 0) \<union> {(DMA_CONTROL, \<lambda>v. v = DMA_COLD_RESET)}"

definition recovered_seen :: "(u32 \<times> (u32 \<Rightarrow> bool)) set" where
  "recovered_seen = rings_seen (\<lambda>_ _ _ v. v = 0) \<union>
     ({(DMA_CONTROL, \<lambda>v. v = DMA_COLD_RESET)} \<union> ready_seen)"

section \<open>Words in memory\<close>

definition put32 :: "nat \<Rightarrow> u32 \<Rightarrow> (nat \<Rightarrow> u8) \<Rightarrow> nat \<Rightarrow> u8" where
  "put32 a v m = m(a := ucast v, a + 1 := ucast (drop_bit 8 v), a + 2 := ucast (drop_bit 16 v),
     a + 3 := ucast (drop_bit 24 v))"

definition get32 :: "(nat \<Rightarrow> u8) \<Rightarrow> nat \<Rightarrow> u32" where
  "get32 m a = ucast (m a) OR push_bit 8 (ucast (m (a + 1))) OR push_bit 16 (ucast (m (a + 2))) OR
     push_bit 24 (ucast (m (a + 3)))"

lemma get32_put32: "get32 (put32 a v m) a = v"
proof (rule bit_eqI)
  fix n
  assume "possible_bit TYPE(u32) n"
  then have "n < 32" by simp
  then consider "n < 8" | "8 \<le> n" "n < 16" | "16 \<le> n" "n < 24" | "24 \<le> n" "n < 32" by linarith
  then show "bit (get32 (put32 a v m) a) n \<longleftrightarrow> bit v n"
    by cases (auto simp: get32_def put32_def bit_simps)
qed

lemma put32_other: "i < a \<or> a + 4 \<le> i \<Longrightarrow> put32 a v m i = m i"
  by (auto simp: put32_def)

lemma get32_put32_other: "b + 4 \<le> a \<or> a + 4 \<le> b \<Longrightarrow> get32 (put32 a v m) b = get32 m b"
  by (auto simp: get32_def put32_other)

lemma get32_memset_other: "b + 4 \<le> a \<or> a + n \<le> b \<Longrightarrow> get32 (memset a v n m) b = get32 m b"
  by (auto simp: get32_def memset_def)

text \<open>Where a ring entry lies in the memory, and a descriptor of a buffer for the card.\<close>

definition ring_entry :: "nat \<Rightarrow> nat \<Rightarrow> u32 \<Rightarrow> nat" where
  "ring_entry dsp ring index = (dsp * 8 + ring * 4) * 4096 + unat (index * 16)"

definition set_descriptor :: "nat \<Rightarrow> u32 \<Rightarrow> u64 \<Rightarrow> (nat \<Rightarrow> u8) \<Rightarrow> nat \<Rightarrow> u8" where
  "set_descriptor entry dwords iova m =
     put32 (entry + 12) (upper_32_bits iova) (put32 (entry + 8) (lower_32_bits iova)
       (put32 (entry + 4) 0 (put32 entry (0x80000000 OR dwords) m)))"

text \<open>The card finds entry \<open>i\<close> of a ring at the address the ring publishes for page \<open>i div 256\<close>.\<close>

lemma unat_entry: "i < 1024 \<Longrightarrow> unat (of_nat i * 16 :: u32) = i * 16"
proof -
  assume i: "i < 1024"
  then have "unat (of_nat i * 16 :: u32) = unat (of_nat (i * 16) :: u32)" by simp
  also have "\<dots> = i * 16" using i by (simp add: unat_of_nat take_bit_nat_eq_self del: of_nat_mult)
  finally show ?thesis .
qed

lemma ring_entry_nat: "i < 1024 \<Longrightarrow> ring_entry d r (of_nat i) = ((d * 2 + r) * 1024 + i) * 16"
  by (simp add: ring_entry_def unat_entry)

lemma entry_address:
  assumes "i < 1024"
  shows "page_iova d r (i div 256) + of_nat (i mod 256 * 16) = TEST_IOVA + of_nat (ring_entry d r (of_nat i))"
proof -
  have "ring_entry d r (of_nat i) = ((d * 2 + r) * 1024 + (i div 256 * 256 + i mod 256)) * 16"
    using ring_entry_nat[OF assms, of d r] by (simp only: div_mult_mod_eq)
  also have "\<dots> = (d * 8 + r * 4) * 4096 + (i div 256 * 4096 + i mod 256 * 16)"
    by (simp only: distrib_right mult.assoc)
  finally show ?thesis unfolding page_iova_def first_iova_def by simp
qed

lemma entry_in_ring: "i < 1024 \<Longrightarrow> d < 8 \<Longrightarrow> r < 2 \<Longrightarrow> ring_entry d r (of_nat i) + 16 \<le> 64 * 4096"
  by (simp add: ring_entry_def unat_entry)

text \<open>Entries of different rings or with different indexes do not overlap.\<close>

lemma entry_number:
  fixes d c r q i j :: nat
  assumes "i < 1024" "j < 1024" "r < 2" "q < 2" "(d * 2 + r) * 1024 + i = (c * 2 + q) * 1024 + j"
  shows "(d, r, i) = (c, q, j)"
proof -
  have "((d * 2 + r) * 1024 + i) div 1024 = ((c * 2 + q) * 1024 + j) div 1024" using assms(5) by simp
  then have n: "d * 2 + r = c * 2 + q"
    by (simp only: div_mult_self3[of 1024] div_less[OF assms(1)] div_less[OF assms(2)] add_0_right)
  then have "(d * 2 + r) div 2 = (c * 2 + q) div 2" by simp
  then have "d = c" using assms(3,4) by simp
  then show ?thesis using n assms(5) by simp
qed

lemma entries_apart:
  assumes "i < 1024" "j < 1024" "r < 2" "q < 2" "(d, r, i) \<noteq> (c, q, j)"
  shows "ring_entry d r (of_nat i) + 16 \<le> ring_entry c q (of_nat j) \<or>
     ring_entry c q (of_nat j) + 16 \<le> ring_entry d r (of_nat i)"
proof -
  have "(d * 2 + r) * 1024 + i \<noteq> (c * 2 + q) * 1024 + j" using entry_number[OF assms(1-4)] assms(5) by blast
  then have "(d * 2 + r) * 1024 + i < (c * 2 + q) * 1024 + j \<or> (c * 2 + q) * 1024 + j < (d * 2 + r) * 1024 + i"
    by linarith
  then show ?thesis
    unfolding ring_entry_nat[OF assms(1)] ring_entry_nat[OF assms(2)] by (elim disjE) simp_all
qed

lemma descriptor_words:
  "get32 (set_descriptor a n x m) a = 0x80000000 OR n"
  "get32 (set_descriptor a n x m) (a + 4) = 0"
  "join_64 (get32 (set_descriptor a n x m) (a + 8)) (get32 (set_descriptor a n x m) (a + 12)) = x"
  by (simp_all add: set_descriptor_def get32_put32 get32_put32_other join_64_split)

lemma set_descriptor_other: "i < a \<or> a + 16 \<le> i \<Longrightarrow> set_descriptor a n x m i = m i"
  by (auto simp: set_descriptor_def put32_other)

lemma get32_descriptor_other:
  "b + 4 \<le> a \<or> a + 16 \<le> b \<Longrightarrow> get32 (set_descriptor a n x m) b = get32 m b"
  by (auto simp: set_descriptor_def get32_put32_other)

end
