(* ===== verification/Full_Octo_Start.thy ===== *)
theory Full_Octo_Start
  imports Ring_Layout
begin

text \<open>
  \<^verbatim>\<open>tools/vfio_full_octo_start.c\<close> (experiments 013 and 017): start all sixteen rings and eight
  engines on canary pages, optionally pulse the reset of each DSP, check that nothing moved,
  restore the cold state and reset the device. The session record carries the C locals; the
  goto-cleanup chain is a conjunction of steps; \<open>break\<close> in the pulse loop is a body that
  returns false. This theory also proves that the tool meets the session contract; the stores of
  a run are in \<^verbatim>\<open>Full_Octo_Results\<close>.
\<close>

section \<open>State and register access\<close>

record octo_session = session +
  mmio_write_count :: u32
  exercise_resets :: bool
  startup_begun :: bool
  raw_indexes :: "nat \<Rightarrow> nat \<Rightarrow> u32"
  indexes :: "nat \<Rightarrow> nat \<Rightarrow> u32"
  publication_ok :: bool
  pages_ok :: bool
  ready_ok :: bool
  interrupt_ok :: bool
  dma_ok :: bool
  per_dsp_resets_ok :: bool
  reset_pass_mask :: u32
  restored :: bool
  reset_called :: bool
  reset_recovered :: bool

definition fos_locals :: octo_session where
  "fos_locals = \<lparr>log = [], container_fd = -1, group_fd = -1, device_fd = -1,
     container_set = False, dma_mapped = False, memory_ok = False, bar_ok = False,
     ram = (\<lambda>_. 0), exit_success = False, stdout = [],
     mmio_write_count = 0, exercise_resets = False, startup_begun = False,
     raw_indexes = (\<lambda>_ _. 0), indexes = (\<lambda>_ _. 0), publication_ok = False, pages_ok = False,
     ready_ok = False, interrupt_ok = False, dma_ok = False, per_dsp_resets_ok = True,
     reset_pass_mask = 0, restored = False, reset_called = False, reset_recovered = False\<rparr>"

definition fos_mmio_read32 :: "vfio_env \<Rightarrow> u32 \<Rightarrow> (octo_session, u32) state" where
  "fos_mmio_read32 e offset = bus_read (answer e) offset"

definition fos_mmio_write32 :: "u32 \<Rightarrow> u32 \<Rightarrow> (octo_session, unit) state" where
  "fos_mmio_write32 offset v =
     do { bus_write offset v;
          modify (\<lambda>s. s\<lparr>mmio_write_count := mmio_write_count s + 1\<rparr>) }"

definition fos_bounded_index :: "vfio_env \<Rightarrow> u32 \<Rightarrow> (octo_session, u32 \<times> u32) state" where
  "fos_bounded_index e base =
     do { raw \<leftarrow> fos_mmio_read32 e (base + 0x28);
          State_Monad.return (raw, if raw < 1024 then raw else 0) }"

definition fos_initialize_ring :: "u32 \<Rightarrow> u64 \<Rightarrow> u32 \<Rightarrow> (octo_session, unit) state" where
  "fos_initialize_ring base first index = publish_ring fos_mmio_write32 base first index"

definition fos_all_dsps_ready :: "vfio_env \<Rightarrow> (octo_session, bool) state" where
  "fos_all_dsps_ready e = scan_ready (fos_mmio_read32 e)"

definition fos_all_ring_words_zero :: "vfio_env \<Rightarrow> (octo_session, bool) state" where
  "fos_all_ring_words_zero e = scan_rings_zero (fos_mmio_read32 e)"

definition fos_all_rings_match ::
  "vfio_env \<Rightarrow> (nat \<Rightarrow> nat \<Rightarrow> u32) \<Rightarrow> (octo_session, bool) state" where
  "fos_all_rings_match e ix = all_m [0..<8] (\<lambda>dsp. all_m [0..<2] (\<lambda>ring.
     let base = ring_base dsp ring; first = first_iova dsp ring in
     and_m (and_m (read_is (fos_mmio_read32 e) (base + 0x20) (ix dsp ring))
                  (read_is (fos_mmio_read32 e) (base + 0x24) (ix dsp ring)))
           (all_m [0..<4] (\<lambda>page. do {
              lo \<leftarrow> fos_mmio_read32 e (base + of_nat page * 8);
              hi \<leftarrow> fos_mmio_read32 e (base + of_nat page * 8 + 4);
              State_Monad.return (join_64 lo hi = first + of_nat page * 4096) }))))"

definition fos_clear_all_rings :: "(octo_session, unit) state" where
  "fos_clear_all_rings = clear_rings fos_mmio_write32"

definition fos_fill_canaries :: "(nat \<Rightarrow> u8) \<Rightarrow> nat \<Rightarrow> u8" where
  "fos_fill_canaries = fold (\<lambda>page. memset (page * 4096) (of_nat (0x40 + page)) 4096) [0..<64]"

definition fos_pages_unchanged :: "vfio_env \<Rightarrow> (octo_session, bool) state" where
  "fos_pages_unchanged e = all_m [0..<64] (\<lambda>page. all_m [0..<4096] (\<lambda>byte. do {
     b \<leftarrow> load_byte e (page * 4096 + byte);
     State_Monad.return (b = of_nat (0x40 + page)) }))"

section \<open>The run up to the cleanup label\<close>

definition fos_arguments :: "string list \<Rightarrow> (octo_session, bool) state" where
  "fos_arguments argv =
     (if length argv = 2 \<and> argv ! 1 = ''--exercise-dsp-resets'' then
        do { modify (\<lambda>s. s\<lparr>exercise_resets := True\<rparr>); State_Monad.return True }
      else check (length argv = 1))"

definition fos_device_valid :: "vfio_env \<Rightarrow> bool" where
  "fos_device_valid e \<longleftrightarrow>
     \<not> device_info e < 0 \<and> device_is_pci e \<and> device_resets e \<and> \<not> region_info e < 0 \<and>
     region_size e = BAR0_SIZE \<and> region_read e \<and> region_write e \<and> region_mmap e"

definition fos_setup :: "vfio_env \<Rightarrow> (octo_session, bool) state" where
  "fos_setup e =
     and_m (check (sys_page_size e = 4096))
    (and_m (open_container e)
    (and_m (open_group e)
    (and_m (attach_group e)
    (and_m (configure_iommu e 4096)
    (and_m (allocate_memory e)
    (and_m (do { store_ram fos_fill_canaries; check True })
    (and_m (map_iova e)
    (and_m (open_device e (fos_device_valid e))
           (map_bar e)))))))))"

definition fos_precondition :: "vfio_env \<Rightarrow> (octo_session, bool) state" where
  "fos_precondition e =
     and_m (fos_all_ring_words_zero e)
    (and_m (fos_all_dsps_ready e)
    (and_m (read_is (fos_mmio_read32 e) DMA_CONTROL DMA_COLD_RESET)
    (and_m (read_is (fos_mmio_read32 e) INTERRUPT_ENABLE 0)
    (and_m (read_is (fos_mmio_read32 e) FPGA_REVISION EXPECTED_FPGA_REVISION)
           (read_is (fos_mmio_read32 e) EXTENDED_CAPABILITIES EXPECTED_CAPABILITIES)))))"

definition fos_start_ring :: "vfio_env \<Rightarrow> nat \<Rightarrow> nat \<Rightarrow> (octo_session, unit) state" where
  "fos_start_ring e dsp ring =
     do { (raw, index) \<leftarrow> fos_bounded_index e (ring_base dsp ring);
          modify (\<lambda>s. s\<lparr>raw_indexes := (raw_indexes s)(dsp := (raw_indexes s dsp)(ring := raw)),
                        indexes := (indexes s)(dsp := (indexes s dsp)(ring := index))\<rparr>);
          fos_initialize_ring (ring_base dsp ring) (first_iova dsp ring) index }"

definition fos_startup :: "vfio_env \<Rightarrow> (octo_session, unit) state" where
  "fos_startup e =
     do { modify (\<lambda>s. s\<lparr>startup_begun := True\<rparr>);
          quiesce_card fos_mmio_write32;
          for_each [0..<8] (\<lambda>dsp. do {
            for_each [0..<2] (fos_start_ring e dsp);
            fos_mmio_write32 DMA_CONTROL (push_bit (dsp + 2) 1 - 1) }) }"

text \<open>One turn of the reset loop; false is the loop's exit.\<close>

definition fos_pulse_failed :: "(octo_session, bool) state" where
  "fos_pulse_failed =
     do { modify (\<lambda>s. s\<lparr>per_dsp_resets_ok := False\<rparr>); State_Monad.return False }"

definition fos_settled :: "vfio_env \<Rightarrow> u32 \<Rightarrow> (octo_session, bool) state" where
  "fos_settled e control =
     and_m (read_is (fos_mmio_read32 e) DMA_CONTROL control) (fos_all_dsps_ready e)"

definition fos_pulse :: "vfio_env \<Rightarrow> nat \<Rightarrow> (octo_session, bool) state" where
  "fos_pulse e dsp =
     (let enable_bit = push_bit (dsp + 1) 1;
          reset_bit = push_bit (dsp + 9) 1;
          disabled = DMA_ALL_DSPS AND NOT enable_bit in
      do { stop \<leftarrow> interrupted e;
           if stop then State_Monad.return False
           else do {
             fos_mmio_write32 DMA_CONTROL (disabled OR reset_bit);
             fos_mmio_write32 DMA_CONTROL disabled;
             nanosleep 10000000;
             off \<leftarrow> fos_settled e disabled;
             if \<not> off then fos_pulse_failed
             else do {
               fos_mmio_write32 DMA_CONTROL (disabled OR enable_bit);
               on \<leftarrow> fos_settled e DMA_ALL_DSPS;
               if \<not> on then fos_pulse_failed
               else do {
                 modify (\<lambda>s. s\<lparr>reset_pass_mask := reset_pass_mask s OR enable_bit\<rparr>);
                 State_Monad.return True } } } })"

definition fos_exercise :: "vfio_env \<Rightarrow> (octo_session, unit) state" where
  "fos_exercise e =
     when_m (\<lambda>s. exercise_resets s \<and> publication_ok s)
       (do { all_m [0..<8] (fos_pulse e); State_Monad.return () })"

definition fos_verify :: "vfio_env \<Rightarrow> (octo_session, unit) state" where
  "fos_verify e =
     do { nanosleep 250000000;
          b \<leftarrow> fos_pages_unchanged e;
          modify (\<lambda>s. s\<lparr>pages_ok := b\<rparr>);
          b \<leftarrow> fos_all_dsps_ready e;
          modify (\<lambda>s. s\<lparr>ready_ok := b\<rparr>);
          b \<leftarrow> read_is (fos_mmio_read32 e) INTERRUPT_ENABLE 0;
          modify (\<lambda>s. s\<lparr>interrupt_ok := b\<rparr>);
          b \<leftarrow> read_is (fos_mmio_read32 e) DMA_CONTROL DMA_ALL_DSPS;
          modify (\<lambda>s. s\<lparr>dma_ok := b\<rparr>);
          stop \<leftarrow> interrupted e;
          when_m (\<lambda>s. \<not> stop \<and> publication_ok s \<and> pages_ok s \<and> ready_ok s \<and> interrupt_ok s \<and>
              dma_ok s \<and> (\<not> exercise_resets s \<or> per_dsp_resets_ok s))
            (modify (\<lambda>s. s\<lparr>exit_success := True\<rparr>)) }"

definition fos_run :: "vfio_env \<Rightarrow> (octo_session, unit) state" where
  "fos_run e =
     do { fos_startup e;
          ix \<leftarrow> gets indexes;
          b \<leftarrow> fos_all_rings_match e ix;
          modify (\<lambda>s. s\<lparr>publication_ok := b\<rparr>);
          fos_exercise e;
          fos_verify e }"

definition fos_attempt :: "vfio_env \<Rightarrow> string list \<Rightarrow> (octo_session, unit) state" where
  "fos_attempt e argv =
     do { ok \<leftarrow> and_m (and_m (fos_arguments argv) (fos_setup e)) (fos_precondition e);
          if ok then fos_run e else State_Monad.return () }"

section \<open>Cleanup, report and the whole program\<close>

definition fos_restore :: "vfio_env \<Rightarrow> (octo_session, unit) state" where
  "fos_restore e = when_m (\<lambda>s. startup_begun s \<and> bar_ok s)
     (do { restore_card fos_mmio_write32;
           b \<leftarrow> and_m (fos_all_ring_words_zero e)
                       (read_is (fos_mmio_read32 e) DMA_CONTROL DMA_COLD_RESET);
           modify (\<lambda>s. s\<lparr>restored := b\<rparr>);
           if b then State_Monad.return () else fail })"

definition fos_reset :: "vfio_env \<Rightarrow> (octo_session, unit) state" where
  "fos_reset e = when_m (\<lambda>s. \<not> device_fd s < 0 \<and> bar_ok s)
     (do { modify (\<lambda>s. s\<lparr>reset_called := True\<rparr>);
           done \<leftarrow> reset_device e;
           b \<leftarrow> and_m (check done)
               (and_m (fos_all_ring_words_zero e)
               (and_m (read_is (fos_mmio_read32 e) DMA_CONTROL DMA_COLD_RESET)
                      (fos_all_dsps_ready e)));
           modify (\<lambda>s. s\<lparr>reset_recovered := b\<rparr>);
           if b then State_Monad.return () else fail })"

definition fos_cleanup :: "vfio_env \<Rightarrow> (octo_session, unit) state" where
  "fos_cleanup e = do { fos_restore e; fos_reset e }"

definition json_bool :: "bool \<Rightarrow> string" where
  "json_bool b = (if b then ''true'' else ''false'')"

definition json_hex :: "u32 \<Rightarrow> string" where
  "json_hex v = ''\"0x'' @ hex 8 (unat v) @ ''\"''"

definition fos_report_lines :: "octo_session \<Rightarrow> string list" where
  "fos_report_lines s =
     [''{'',
      ''  \"experiment\": \"'' @ (if exercise_resets s then ''017-per-dsp-reset-isolation''
         else ''013-full-octo-empty-start'') @ ''\",'',
      ''  \"mapped_pages\": '' @ dec 64 @ '','',
      ''  \"dsp_engines_enabled\": '' @ dec 8 @ '','',
      ''  \"command_entries_submitted\": 0,'',
      ''  \"audio_extension_programmed\": false,'',
      ''  \"published_all_sixteen_rings\": '' @ json_bool (publication_ok s) @ '','',
      ''  \"pages_unchanged\": '' @ json_bool (pages_ok s) @ '','',
      ''  \"all_dsps_ready\": '' @ json_bool (ready_ok s) @ '','',
      ''  \"interrupt_enable_remained_zero\": '' @ json_bool (interrupt_ok s) @ '','',
      ''  \"dma_control_reached\": '' @ json_hex (if dma_ok s then DMA_ALL_DSPS else 0) @ '','',
      ''  \"per_dsp_resets_requested\": '' @ json_bool (exercise_resets s) @ '','',
      ''  \"per_dsp_reset_pass_mask\": '' @ json_hex (reset_pass_mask s) @ '','',
      ''  \"per_dsp_resets_isolated_and_reenabled\": '' @
         json_bool (exercise_resets s \<and> per_dsp_resets_ok s \<and> reset_pass_mask s = 0x1fe) @ '','',
      ''  \"mmio_writes_including_cleanup\": '' @ dec (unat (mmio_write_count s)) @ '','',
      ''  \"explicit_restore_succeeded\": '' @ json_bool (restored s) @ '','',
      ''  \"vfio_reset_called\": '' @ json_bool (reset_called s) @ '','',
      ''  \"vfio_reset_recovered\": '' @ json_bool (reset_recovered s),
      ''}'']"

definition fos_report :: "(octo_session, unit) state" where
  "fos_report = modify (\<lambda>s. s\<lparr>stdout := stdout s @ fos_report_lines s\<rparr>)"

definition fos_main :: "vfio_env \<Rightarrow> string list \<Rightarrow> (octo_session, bool) state" where
  "fos_main e argv =
     do { fos_attempt e argv;
          fos_cleanup e;
          fos_report;
          teardown e (64 * 4096);
          gets exit_success }"

interpretation fos_reader: mmio_reader "fos_mmio_read32 e" log
    "\<lambda>s :: octo_session. s\<lparr>log := []\<rparr>" "answer e" for e
  by unfold_locales (simp_all add: fos_mmio_read32_def)

interpretation fos_port: mmio_port "fos_mmio_read32 e" fos_mmio_write32 log
    "\<lambda>s :: octo_session. s\<lparr>log := [], mmio_write_count := 0\<rparr>" "answer e" for e
  by unfold_locales (simp_all add: fos_mmio_read32_def fos_mmio_write32_def)

lemma wp_fos_write [wp_simps]: "wp (fos_mmio_write32 a v) Q s =
     Q () (s\<lparr>log := Wr a v # log s, mmio_write_count := mmio_write_count s + 1\<rparr>)"
  by (simp add: fos_mmio_write32_def wp_simps)

section \<open>The session contract\<close>

abbreviation "fos_rest \<equiv> \<lambda>s :: octo_session. s\<lparr>log := []\<rparr>"

lemma fos_setup_to: "setup_to {} {} (fos_setup e) whole"
  unfolding fos_setup_def whole_def by (rule setup_intros | simp)+

lemma fos_keeps_rd: "keeps_rd (inside whole) (fos_mmio_read32 e)"
  unfolding keeps_rd_def fos_mmio_read32_def by (intro allI impI inside_read) simp_all

lemma fos_keeps_wr: "keeps_wr (inside whole) fos_mmio_write32"
  unfolding keeps_wr_def fos_mmio_write32_def
  by (intro allI impI preserves_intros inside_local) simp_all

lemmas fos_keeps = preserves_read_is[OF fos_keeps_rd] preserves_scan_ready[OF fos_keeps_rd]
  preserves_scan_rings[OF fos_keeps_rd] preserves_publish[OF keeps_wr_ring[OF fos_keeps_wr]]
  preserves_quiesce[OF fos_keeps_wr] preserves_restore[OF fos_keeps_wr]
  keeps_rdD[OF fos_keeps_rd] fos_keeps_wr[unfolded keeps_wr_def, rule_format]

lemmas fos_defs = fos_all_dsps_ready_def fos_all_ring_words_zero_def fos_initialize_ring_def
  fos_bounded_index_def fos_settled_def

lemma fos_match_keeps: "preserves (inside whole) (fos_all_rings_match e ix)"
  unfolding fos_all_rings_match_def Let_def
  by (intro preserves_intros fos_keeps) (simp_all add: ring_base_in_bar)

lemma fos_start_ring_keeps:
  "d < 8 \<Longrightarrow> r < 2 \<Longrightarrow> preserves (inside whole) (fos_start_ring e d r)"
  unfolding fos_start_ring_def fos_defs
  by (auto intro!: preserves_intros fos_keeps inside_local simp: ring_base_in_bar)

lemma fos_startup_keeps: "preserves (inside whole) (fos_startup e)"
  unfolding fos_startup_def
  by (intro preserves_intros fos_keeps inside_local fos_start_ring_keeps) simp_all

lemma fos_exercise_keeps: "preserves (inside whole) (fos_exercise e)"
  unfolding fos_exercise_def fos_pulse_def fos_pulse_failed_def Let_def fos_defs
  by (intro preserves_intros fos_keeps inside_local) simp_all

lemma fos_verify_keeps: "preserves (inside whole) (fos_verify e)"
  unfolding fos_verify_def fos_pages_unchanged_def fos_defs
  by (intro preserves_intros fos_keeps inside_local) simp_all

lemma fos_run_keeps: "preserves (inside whole) (fos_run e)"
  unfolding fos_run_def
  by (intro preserves_intros fos_startup_keeps fos_match_keeps fos_exercise_keeps
      fos_verify_keeps inside_local) simp_all

lemma fos_settled_checks:
  "checks log fos_rest (fos_settled e v) ({(DMA_CONTROL, \<lambda>x. x = v)} \<union> ready_seen)"
  unfolding fos_settled_def fos_defs
  by (intro checks_and_m fos_reader.checks_ready fos_reader.checks_read_is)

text \<open>Where the cleanup label may be reached from.\<close>

definition fos_ready :: "octo_session \<Rightarrow> bool" where
  "fos_ready s \<longleftrightarrow> session_ok s \<and> (if startup_begun s then owned s = whole
     else \<not> engines_on (log s))"

definition cold_seen :: "(u32 \<times> (u32 \<Rightarrow> bool)) set" where
  "cold_seen = rings_seen (\<lambda>_ _ _ v. v = 0) \<union> (ready_seen \<union> ({(DMA_CONTROL, \<lambda>v. v = DMA_COLD_RESET)} \<union>
       ({(INTERRUPT_ENABLE, \<lambda>v. v = 0)} \<union> ({(FPGA_REVISION, \<lambda>v. v = EXPECTED_FPGA_REVISION)} \<union>
         {(EXTENDED_CAPABILITIES, \<lambda>v. v = EXPECTED_CAPABILITIES)}))))"

lemma fos_precondition_checks: "checks log fos_rest (fos_precondition e) cold_seen"
  unfolding fos_precondition_def fos_defs cold_seen_def
  by (intro checks_and_m fos_reader.checks_rings fos_reader.checks_ready fos_reader.checks_read_is)

lemma fos_precondition_keeps: "preserves (inside whole) (fos_precondition e)"
  unfolding fos_precondition_def fos_defs by (intro preserves_intros fos_keeps) simp_all

definition fos_unstarted :: "octo_session \<Rightarrow> bool" where
  "fos_unstarted s \<longleftrightarrow> session_ok s \<and> \<not> startup_begun s \<and> writes (log s) = [] \<and>
     mmio_write_count s = 0 \<and> \<not> exit_success s \<and> \<not> restored s \<and> \<not> reset_recovered s"

lemma fos_more:
  fixes s t :: octo_session
  assumes "session.more t = session.more s"
  shows "startup_begun t = startup_begun s" "mmio_write_count t = mmio_write_count s"
    "exercise_resets t = exercise_resets s" "restored t = restored s"
    "reset_recovered t = reset_recovered s"
  using assms by (cases s; cases t; simp)+

lemma fos_locals_ok:
  "session_ok (fos_locals\<lparr>exercise_resets := b\<rparr>)" "owned (fos_locals\<lparr>exercise_resets := b\<rparr>) = {}"
proof -
  have f: "fresh_session (fos_locals\<lparr>exercise_resets := b\<rparr>)"
    by (simp add: fresh_session_def fos_locals_def)
  show "session_ok (fos_locals\<lparr>exercise_resets := b\<rparr>)" by (rule world_empty[OF f])
  show "owned (fos_locals\<lparr>exercise_resets := b\<rparr>) = {}"
    by (rule set_eqI, rename_tac x, case_tac x) (simp_all add: owns_iff fos_locals_def)
qed

lemma fos_setup_from:
  assumes "fos_unstarted s" "owned s = {}"
  shows "wp (fos_setup e) (\<lambda>ok t. fos_unstarted t \<and> exercise_resets t = exercise_resets s \<and>
     (ok \<longrightarrow> owned t = whole)) s"
proof -
  have "wp (fos_setup e) (\<lambda>ok t. session_ok t \<and> session.more t = session.more s \<and>
        writes (log t) = writes (log s) \<and> exit_success t = exit_success s \<and>
        (ok \<longrightarrow> owned t = whole)) s"
    using assms unfolding fos_unstarted_def by (intro setup_toD[OF fos_setup_to]) simp_all
  then show ?thesis
  proof (rule wp_mono)
    fix ok t
    assume t: "session_ok t \<and> session.more t = session.more s \<and>
        writes (log t) = writes (log s) \<and> exit_success t = exit_success s \<and>
        (ok \<longrightarrow> owned t = whole)"
    then have "session.more t = session.more s" by simp
    from fos_more[OF this] t assms(1)
    show "fos_unstarted t \<and> exercise_resets t = exercise_resets s \<and> (ok \<longrightarrow> owned t = whole)"
      by (simp add: fos_unstarted_def)
  qed
qed

lemma fos_locals_unstarted: "fos_unstarted (fos_locals\<lparr>exercise_resets := b\<rparr>)"
  using fos_locals_ok(1)[of b] by (simp add: fos_unstarted_def) (simp add: fos_locals_def)

lemmas fos_setup_spec = fos_setup_from[OF fos_locals_unstarted fos_locals_ok(2)]

definition fos_wants_resets :: "string list \<Rightarrow> bool" where
  "fos_wants_resets argv \<longleftrightarrow> length argv = 2 \<and> argv ! 1 = ''--exercise-dsp-resets''"

text \<open>The state at which the program decides between running and cleaning up.\<close>

lemma fos_gate:
  "wp (and_m (and_m (fos_arguments argv) (fos_setup e)) (fos_precondition e))
     (\<lambda>ok t. fos_unstarted t \<and> exercise_resets t = fos_wants_resets argv \<and>
        (ok \<longrightarrow> owned t = whole \<and> (\<exists>rs k. log t = rs @ k \<and> reads rs \<and> seen cold_seen rs)))
     fos_locals" (is "wp _ ?Q _")
proof -
  have same: "fos_locals\<lparr>exercise_resets := False\<rparr> = fos_locals" by (simp add: fos_locals_def)
  have gate: "wp (fos_precondition e) ?Q t"
    if t: "fos_unstarted t" "exercise_resets t = fos_wants_resets argv" "owned t = whole" for t
  proof (rule scan_wp[OF fos_precondition_checks fos_precondition_keeps])
    show "inside whole t" using t by (simp add: fos_unstarted_def session_ok_inside)
  next
    fix ok rs
    assume "reads rs" "ok \<Longrightarrow> seen cold_seen rs" "inside whole (t\<lparr>log := rs @ log t\<rparr>)"
    then show "?Q ok (t\<lparr>log := rs @ log t\<rparr>)"
      using t by (auto simp: fos_unstarted_def session_ok_inside owned_update)
  qed
  have "wp (and_m (fos_arguments argv) (fos_setup e))
     (\<lambda>ok t. fos_unstarted t \<and> exercise_resets t = fos_wants_resets argv \<and> (ok \<longrightarrow> owned t = whole))
     fos_locals"
  proof (cases "fos_wants_resets argv")
    case True
    then show ?thesis using fos_setup_spec[of e True]
      by (simp add: fos_arguments_def fos_wants_resets_def wp_simps)
  next
    case False
    moreover have "fos_unstarted fos_locals"
      using fos_locals_unstarted[of False] same by simp
    ultimately show ?thesis using fos_setup_spec[of e False] same
      by (auto simp: fos_arguments_def fos_wants_resets_def wp_simps check_def fos_locals_def)
  qed
  then show ?thesis
    unfolding wp_and_m[of "and_m (fos_arguments argv) (fos_setup e)"]
    by (rule wp_mono) (use gate in auto)
qed

lemma preserves_started:
  "preserves startup_begun (fos_mmio_read32 e a)" "preserves startup_begun (fos_mmio_write32 a v)"
  by (simp_all add: preserves_def fos_mmio_read32_def fos_mmio_write32_def wp_simps)

lemma started_keeps: "keeps_rd startup_begun (fos_mmio_read32 e)" "keeps_wr startup_begun fos_mmio_write32"
  by (simp_all add: keeps_rd_def keeps_wr_def preserves_started)

lemma fos_run_starts: "wp (fos_run e) (\<lambda>_. startup_begun) s"
proof -
  note keeps = preserves_read_is[OF started_keeps(1)] preserves_scan_ready[OF started_keeps(1)]
    preserves_scan_rings[OF started_keeps(1)] preserves_started
    preserves_publish[OF keeps_wr_ring[OF started_keeps(2)]] preserves_quiesce[OF started_keeps(2)]
  have ring: "d < 8 \<Longrightarrow> r < 2 \<Longrightarrow> preserves startup_begun (fos_start_ring e d r)" for d r
    unfolding fos_start_ring_def fos_defs
    by (auto intro!: preserves_intros keeps preserves_modify)
  have startup: "preserves startup_begun (do { quiesce_card fos_mmio_write32;
          for_each [0..<8] (\<lambda>dsp. do {
            for_each [0..<2] (fos_start_ring e dsp);
            fos_mmio_write32 DMA_CONTROL (push_bit (dsp + 2) 1 - 1) }) })"
    by (intro preserves_intros keeps ring) simp_all
  have rest: "preserves startup_begun (do { ix \<leftarrow> gets indexes;
          b \<leftarrow> fos_all_rings_match e ix;
          modify (\<lambda>s. s\<lparr>publication_ok := b\<rparr>);
          fos_exercise e;
          fos_verify e })"
    unfolding fos_all_rings_match_def fos_exercise_def fos_pulse_def fos_pulse_failed_def
      fos_verify_def fos_pages_unchanged_def fos_defs Let_def nanosleep_def load_byte_def interrupted_def
    by (intro preserves_intros keeps preserves_modify)
      (simp_all add: preserves_def wp_simps ring_base_in_bar)
  have "wp (do { quiesce_card fos_mmio_write32;
          for_each [0..<8] (\<lambda>dsp. do {
            for_each [0..<2] (fos_start_ring e dsp);
            fos_mmio_write32 DMA_CONTROL (push_bit (dsp + 2) 1 - 1) }) })
     (\<lambda>_. startup_begun) (s\<lparr>startup_begun := True\<rparr>)"
    by (rule preservesD[OF startup]) simp
  then show ?thesis
    unfolding fos_run_def fos_startup_def wp_bind wp_modify
    by (elim wp_mono) (use preservesD[OF rest] in \<open>simp add: wp_bind wp_gets wp_modify\<close>)
qed

lemma fos_attempt_ready: "wp (fos_attempt e argv) (\<lambda>_. fos_ready) fos_locals"
  unfolding fos_attempt_def wp_bind
proof (rule wp_mono[OF fos_gate])
  fix ok t
  assume t: "fos_unstarted t \<and> exercise_resets t = fos_wants_resets argv \<and>
    (ok \<longrightarrow> owned t = whole \<and> (\<exists>rs k. log t = rs @ k \<and> reads rs \<and> seen cold_seen rs))"
  show "wp (if ok then fos_run e else State_Monad.return ()) (\<lambda>_. fos_ready) t"
  proof (cases ok)
    case True
    then have "session_ok t" "owned t = whole" using t by (simp_all add: fos_unstarted_def)
    then have "inside whole t" by (simp add: session_ok_inside)
    then have "wp (fos_run e) (\<lambda>_ u. inside whole u \<and> startup_begun u) t"
      using preservesD[OF fos_run_keeps] fos_run_starts by (simp add: wp_conj)
    with True show ?thesis
      by (auto simp: fos_ready_def session_ok_inside inside_def elim!: wp_mono)
  next
    case False
    then show ?thesis
      using t engines_off_unwritten by (simp add: wp_simps fos_unstarted_def fos_ready_def)
  qed
qed

lemma fos_idle_rd: "BarMap \<in> S \<Longrightarrow> keeps_rd (idle S) (fos_mmio_read32 e)"
  unfolding keeps_rd_def fos_mmio_read32_def by (intro allI impI idle_read) simp_all

lemma fos_idle_reset:
  assumes "idle S s"
  shows "wp (fos_reset e) (\<lambda>_. idle S) s"
proof (cases "BarMap \<in> S")
  case True
  note rd = fos_idle_rd[OF True]
  have "preserves (idle S) (fos_reset e)"
    unfolding fos_reset_def fos_defs check_def
    by (intro preserves_intros preserves_scan_rings[OF rd] preserves_scan_ready[OF rd]
        preserves_read_is[OF rd] idle_local inside_local) simp_all
  then show ?thesis using assms by (rule preservesD)
next
  case False
  then have "\<not> bar_ok s" using assms by (auto simp: idle_def inside_def owns_iff)
  then show ?thesis using assms by (simp add: fos_reset_def wp_simps)
qed

lemma fos_restore_idle:
  assumes "fos_ready s"
  shows "wp (fos_restore e) (\<lambda>_ t. idle (owned s) t) s"
proof (cases "startup_begun s")
  case True
  then have own: "owned s = whole" and ins: "inside whole s"
    using assms by (auto simp: fos_ready_def session_ok_inside)
  have b: "bar_ok s" using own owns_iff[of BarMap s] by simp
  note rd = fos_idle_rd[OF whole_simps(1)]
  have rest: "preserves (idle whole) (do {
           b \<leftarrow> and_m (fos_all_ring_words_zero e)
                       (read_is (fos_mmio_read32 e) DMA_CONTROL DMA_COLD_RESET);
           modify (\<lambda>s. s\<lparr>restored := b\<rparr>);
           if b then State_Monad.return () else fail })"
    unfolding fos_defs
    by (intro preserves_intros preserves_scan_rings[OF rd] preserves_read_is[OF rd]
        idle_local inside_local) simp_all
  have "wp (restore_card fos_mmio_write32) (\<lambda>_. inside whole) s"
    by (rule preservesD[OF preserves_restore[OF fos_keeps_wr] ins])
  moreover have "wp (restore_card fos_mmio_write32) (\<lambda>_ t. \<not> engines_on (log t)) s"
    by (rule stores_wp[OF fos_port.stores_restore]) simp
  ultimately have "wp (restore_card fos_mmio_write32) (\<lambda>_. idle whole) s"
    unfolding idle_def by (simp add: wp_conj)
  then show ?thesis
    unfolding fos_restore_def own wp_when_m if_P[OF conjI[OF True b]] wp_bind
    by (rule wp_mono) (use preservesD[OF rest] in \<open>simp add: wp_bind\<close>)
next
  case False
  then show ?thesis
    using assms by (simp add: fos_restore_def wp_simps fos_ready_def idle_def session_ok_inside)
qed

lemma fos_cleanup_ready:
  assumes "fos_ready s"
  shows "wp (fos_cleanup e) (\<lambda>_ t. session_ok t \<and> \<not> engines_on (log t)) s"
  unfolding fos_cleanup_def wp_bind
proof (rule wp_mono[OF fos_restore_idle[OF assms]])
  fix t :: octo_session
  assume "idle (owned s) t"
  then show "wp (fos_reset e) (\<lambda>_ t. session_ok t \<and> \<not> engines_on (log t)) t"
    by (rule wp_mono[OF fos_idle_reset]) (auto simp: idle_def inside_def session_ok_def)
qed

lemma fos_report_prints: "\<exists>out. snd (run_state fos_report r) = r\<lparr>stdout := out\<rparr>"
  unfolding fos_report_def run_modify snd_conv by (rule exI, rule refl)

interpretation fos_tool: vfio_tool "fos_attempt e argv" "fos_cleanup e" fos_report fos_locals fos_ready
  for e argv
  by unfold_locales (rule fos_attempt_ready, erule fos_cleanup_ready, rule fos_report_prints)

text \<open>
  The whole run as one program for its effects; its value is the exit status.
\<close>

definition fos_final :: "vfio_env \<Rightarrow> string list \<Rightarrow> octo_session" where
  "fos_final e argv = snd (run_state (fos_main e argv) fos_locals)"

lemma fos_main_effects:
  "wp (do { fos_attempt e argv; fos_cleanup e; fos_report; teardown e (64 * 4096) }) (\<lambda>_. Q)
     fos_locals \<longleftrightarrow> Q (fos_final e argv)"
  by (simp add: fos_final_def fos_main_def wp_def split_beta)

lemma fos_run_released:
  "released (clean_unmap e (64 * 4096) (fos_final e argv)) (dma_mapped (fos_final e argv))
     (log (fos_final e argv))"
proof -
  have "wp (do { fos_attempt e argv; fos_cleanup e; fos_report; teardown e (64 * 4096) })
      (\<lambda>_ t. released (clean_unmap e (64 * 4096) t) (dma_mapped t) (log t)) fos_locals"
    by (rule fos_tool.run_released)
  then show ?thesis by (simp only: fos_main_effects)
qed

end
