(* ===== verification/Full_Octo_Results.thy ===== *)
theory Full_Octo_Results
  imports Full_Octo_Start
begin

text \<open>
  What \<^verbatim>\<open>tools/vfio_full_octo_start.c\<close> stores: nothing, or the startup sequence, a prefix of the
  reset schedule that never leaves a DSP between the two halves of its pulse, and the restore
  sequence. The store counter of the report is the number of stores.
\<close>

section \<open>The stores of a run\<close>

text \<open>What the reset of one DSP stores, as data.\<close>

definition pulse_stores :: "nat \<Rightarrow> (u32 \<times> u32) list" where
  "pulse_stores d =
     (let enable_bit = push_bit (d + 1) 1; disabled = DMA_ALL_DSPS AND NOT enable_bit in
      [(DMA_CONTROL, disabled OR push_bit (d + 9) 1), (DMA_CONTROL, disabled),
       (DMA_CONTROL, disabled OR enable_bit)])"

lemma fos_start_ring_stores:
  assumes "d < 8"
  shows "writing log (fos_start_ring e d r)
     (\<lambda>_ ws. \<exists>i<1024. ws = publish_stores d r i (page_iova d r))"
proof (rule writingI)
  fix s :: octo_session
  have "wp (fos_initialize_ring (ring_base d r) (first_iova d r) i)
      (\<lambda>_ t. \<exists>ws. writes (log t) = writes (log s) @ ws \<and>
        (\<exists>i<1024. ws = publish_stores d r i (page_iova d r))) u"
    if "writes (log u) = writes (log s)" "i < 1024" for i and u :: octo_session
    unfolding fos_initialize_ring_def page_iova_def
    by (rule stores_wp[OF fos_port.stores_publish[OF assms]])
      (use that in \<open>auto simp: writes_rev_stores\<close>)
  then show "wp (fos_start_ring e d r) (\<lambda>_ t. \<exists>ws. writes (log t) = writes (log s) @ ws \<and>
      (\<exists>i<1024. ws = publish_stores d r i (page_iova d r))) s"
    by (simp add: fos_start_ring_def fos_bounded_index_def fos_mmio_read32_def wp_simps)
qed

lemma fos_dsp_stores:
  assumes "d < 8"
  shows "writing log (do { for_each [0..<2] (fos_start_ring e d);
       fos_mmio_write32 DMA_CONTROL (push_bit (d + 2) 1 - 1) })
     (\<lambda>_ ws. \<exists>ix. (\<forall>r. ix r < 1024) \<and> ws = dsp_stores d ix)"
proof (rule writing_bind)
  note ring = fos_start_ring_stores[OF assms]
  have second: "writing log (do { fos_start_ring e d 1; State_Monad.return () })
      (\<lambda>_ ws. \<exists>j<1024. ws = publish_stores d 1 j (page_iova d 1))"
    by (rule writing_bind[OF ring writing_return]) auto
  show "writing log (for_each [0..<2] (fos_start_ring e d)) (\<lambda>_ ws. \<exists>i<1024. \<exists>j<1024.
      ws = publish_stores d 0 i (page_iova d 0) @ publish_stores d 1 j (page_iova d 1))"
    unfolding upt_2 for_each.simps by (rule writing_bind[OF ring second]) auto
  show "writing log (fos_mmio_write32 DMA_CONTROL (push_bit (d + 2) 1 - 1))
      (\<lambda>_ ws. ws = [(DMA_CONTROL, mask (d + 2))])" for u :: unit
    unfolding shift_mask by (rule writing_stores[OF fos_port.stores_wr])
next
  fix u v :: unit and xs ys :: "(u32 \<times> u32) list"
  assume "\<exists>i<1024. \<exists>j<1024. xs = publish_stores d 0 i (page_iova d 0) @
      publish_stores d 1 j (page_iova d 1)" and ys: "ys = [(DMA_CONTROL, mask (d + 2))]"
  then obtain i j where "i < 1024" "j < 1024"
    "xs = publish_stores d 0 i (page_iova d 0) @ publish_stores d 1 j (page_iova d 1)" by auto
  with ys show "\<exists>ix. (\<forall>r. ix r < 1024) \<and> xs @ ys = dsp_stores d ix"
    by (intro exI[of _ "\<lambda>r. if r = 0 then i else j"]) (simp add: dsp_stores_def)
qed

lemma fos_startup_stores:
  "writing log (fos_startup e) (\<lambda>_ ws. \<exists>ix. (\<forall>d<8. \<forall>r. ix d r < 1024) \<and> ws = startup_stores ix)"
  unfolding fos_startup_def
proof (rule writing_bind[OF writing_modify], simp)
  let ?loop = "for_each [0..<8] (\<lambda>dsp. do {
      for_each [0..<2] (fos_start_ring e dsp);
      fos_mmio_write32 DMA_CONTROL (push_bit (dsp + 2) 1 - 1) })"
  have "writing log ?loop (\<lambda>_ ws. \<exists>wss.
      list_all2 (\<lambda>d ws. \<exists>ix. (\<forall>r. ix r < 1024) \<and> ws = dsp_stores d ix) [0..<8] wss \<and> ws = concat wss)"
    by (rule writing_for_each, rule fos_dsp_stores) simp
  then have loop: "writing log ?loop (\<lambda>_ ws. \<exists>ix. (\<forall>d<8. \<forall>r. ix d r < 1024) \<and>
      ws = concat (map (\<lambda>d. dsp_stores d (ix d)) [0..<8]))"
    by (rule writing_mono) (auto dest!: list_all2_choice)
  show "writing log (do { quiesce_card fos_mmio_write32; ?loop })
      (\<lambda>_ ws. \<exists>ix. (\<forall>d<8. \<forall>r. ix d r < 1024) \<and> ws = startup_stores ix)" for u :: unit
    by (rule writing_bind[OF writing_stores[OF fos_port.stores_quiesce] loop])
      (auto simp: startup_stores_def)
qed simp

lemma fos_pulse_stores:
  assumes "d < 8"
  shows "writing log (fos_pulse e d) (\<lambda>b ws. \<exists>k \<le> length (pulse_stores d).
     ws = take k (pulse_stores d) \<and> k mod 3 \<noteq> 1 \<and> (b \<longrightarrow> k = length (pulse_stores d)))"
proof (rule writingI)
  fix s :: octo_session
  define Q where "Q b t \<longleftrightarrow> (\<exists>ws. writes (log t) = writes (log s) @ ws \<and>
      (\<exists>k \<le> length (pulse_stores d). ws = take k (pulse_stores d) \<and> k mod 3 \<noteq> 1 \<and>
        (b \<longrightarrow> k = length (pulse_stores d))))"
    for b and t :: octo_session
  define en rs dis where
    "en = (push_bit (d + 1) 1 :: u32)" and "rs = (push_bit (d + 9) 1 :: u32)" and "dis = DMA_ALL_DSPS AND NOT en"
  have P: "pulse_stores d = [(DMA_CONTROL, dis OR rs), (DMA_CONTROL, dis), (DMA_CONTROL, dis OR en)]"
    by (simp only: pulse_stores_def Let_def en_def rs_def dis_def)
  have end0: "Q False t" if "writes (log t) = writes (log s)" for t :: octo_session
    unfolding Q_def using that by (intro exI[of _ "[]"] conjI exI[of _ 0]) simp_all
  have end2: "Q False t" if "writes (log t) = writes (log s) @ [(DMA_CONTROL, dis OR rs), (DMA_CONTROL, dis)]"
    for t :: octo_session
    unfolding Q_def using that by (intro exI[of _ "take 2 (pulse_stores d)"] conjI exI[of _ 2]) (simp_all add: P)
  have end3: "Q b t" if "writes (log t) = writes (log s) @
      [(DMA_CONTROL, dis OR rs), (DMA_CONTROL, dis), (DMA_CONTROL, dis OR en)]"
    for b and t :: octo_session
    unfolding Q_def using that by (intro exI[of _ "pulse_stores d"] conjI exI[of _ 3]) (simp_all add: P)
  note steps = wp_bind wp_return wp_gets wp_modify wp_fos_write wp_emit nanosleep_def
    interrupted_def fos_pulse_failed_def
  have "wp (fos_pulse e d) Q s"
  proof (cases "ever (signalled e) (log s)")
    case True
    show ?thesis unfolding fos_pulse_def Let_def steps if_P[OF True] by (rule end0) simp
  next
    case False
    have again: "wp (fos_settled e DMA_ALL_DSPS) (\<lambda>on. wp (if \<not> on then fos_pulse_failed
        else do { modify (\<lambda>s. s\<lparr>reset_pass_mask := reset_pass_mask s OR en\<rparr>);
                  State_Monad.return True }) Q) t"
      if "writes (log t) = writes (log s) @
        [(DMA_CONTROL, dis OR rs), (DMA_CONTROL, dis), (DMA_CONTROL, dis OR en)]" for t
      by (rule read_only_wp[OF fos_settled_checks], case_tac b;
          simp only: steps if_True if_False not_True_eq_False not_False_eq_True;
          rule end3; simp add: that)
    show ?thesis
      unfolding fos_pulse_def Let_def en_def[symmetric] rs_def[symmetric] dis_def[symmetric]
      unfolding steps if_not_P[OF False]
      apply (rule read_only_wp[OF fos_settled_checks], case_tac b)
       apply (simp only: steps if_True if_False not_True_eq_False not_False_eq_True)
       apply (rule again[unfolded steps], simp)
      apply (simp only: steps if_True if_False not_True_eq_False not_False_eq_True)
      apply (rule end2, simp)
      done
  qed
  then show "wp (fos_pulse e d) (\<lambda>b t. \<exists>ws. writes (log t) = writes (log s) @ ws \<and>
      (\<exists>k \<le> length (pulse_stores d). ws = take k (pulse_stores d) \<and> k mod 3 \<noteq> 1 \<and>
        (b \<longrightarrow> k = length (pulse_stores d)))) s"
    unfolding Q_def .
qed

text \<open>The schedule of the reset loop.\<close>

definition pulse_schedule :: "(u32 \<times> u32) list" where
  "pulse_schedule = concat (map pulse_stores [0..<8])"

lemma fos_pulses_stores:
  "writing log (all_m [0..<8] (fos_pulse e)) (\<lambda>_ ws. \<exists>n. ws = take n pulse_schedule \<and> n mod 3 \<noteq> 1)"
  unfolding pulse_schedule_def
proof (rule writing_schedule[where m = 3])
  show "writing log (fos_pulse e d) (\<lambda>b ws. \<exists>k \<le> length (pulse_stores d).
     ws = take k (pulse_stores d) \<and> k mod 3 \<noteq> 1 \<and> (b \<longrightarrow> k = length (pulse_stores d)))"
    if "d \<in> set [0..<8]" for d
    by (rule fos_pulse_stores) (use that in simp)
qed (simp_all add: pulse_stores_def Let_def)

lemma fos_match_reads: "reads_only log fos_rest (fos_all_rings_match e ix)"
  unfolding fos_all_rings_match_def Let_def read_is_def
  by (intro reads_only_all_m reads_only_and_m reads_only_bind fos_reader.rd_reads_only reads_only_return)

lemma fos_verify_stores: "emits (\<lambda>x. \<not> is_wr x) (fos_verify e)"
  unfolding fos_verify_def fos_pages_unchanged_def fos_defs scan_ready_def read_is_def when_m_def
    load_byte_def interrupted_def nanosleep_def fos_mmio_read32_def
  by (intro emits_intros) simp_all

lemma fos_reset_stores: "emits (\<lambda>x. \<not> is_wr x) (fos_reset e)"
  unfolding fos_reset_def fos_defs scan_ready_def scan_rings_def read_is_def when_m_def check_def
    reset_device_def fail_def fos_mmio_read32_def
  by (intro emits_intros) simp_all

lemma fos_match_stores: "emits (\<lambda>x. \<not> is_wr x) (fos_all_rings_match e ix)"
  unfolding fos_all_rings_match_def Let_def read_is_def fos_mmio_read32_def
  by (intro emits_intros) simp_all

text \<open>The reset loop runs only when it was asked for.\<close>

lemma fos_run_stores:
  "wp (fos_run e) (\<lambda>_ t. \<exists>ix n. (\<forall>d<8. \<forall>r. ix d r < 1024) \<and> n mod 3 \<noteq> 1 \<and>
     (n = 0 \<or> exercise_resets s) \<and>
     writes (log t) = writes (log s) @ startup_stores ix @ take n pulse_schedule) s"
proof -
  let ?b = "exercise_resets s"
  let ?A = "\<lambda>t. exercise_resets t = ?b \<and> (\<exists>ix. (\<forall>d<8. \<forall>r. ix d r < 1024) \<and>
      writes (log t) = writes (log s) @ startup_stores ix)"
  let ?C = "\<lambda>t. \<exists>ix n. (\<forall>d<8. \<forall>r. ix d r < 1024) \<and> n mod 3 \<noteq> 1 \<and> (n = 0 \<or> ?b) \<and>
     writes (log t) = writes (log s) @ startup_stores ix @ take n pulse_schedule"
  let ?flag = "\<lambda>t. exercise_resets t = ?b"
  have keeps: "keeps_rd ?flag (fos_mmio_read32 e)" "keeps_wr ?flag fos_mmio_write32"
    by (simp_all add: keeps_rd_def keeps_wr_def preserves_def fos_mmio_read32_def wp_simps)
  note k = preserves_publish[OF keeps_wr_ring[OF keeps(2)]] preserves_quiesce[OF keeps(2)]
    keeps_rdD[OF keeps(1)] keeps(2)[unfolded keeps_wr_def, rule_format] preserves_read_is[OF keeps(1)]
  have ring: "d < 8 \<Longrightarrow> r < 2 \<Longrightarrow> preserves ?flag (fos_start_ring e d r)" for d r
    unfolding fos_start_ring_def fos_defs
    by (auto intro!: preserves_intros k preserves_modify simp: ring_base_in_bar)
  have "preserves ?flag (fos_startup e)"
    unfolding fos_startup_def by (intro preserves_intros k ring preserves_modify) simp_all
  then have "wp (fos_startup e) (\<lambda>_. ?flag) s" by (rule preservesD) simp
  moreover have "wp (fos_startup e) (\<lambda>_ t. \<exists>ix. (\<forall>d<8. \<forall>r. ix d r < 1024) \<and>
      writes (log t) = writes (log s) @ startup_stores ix) s"
    by (rule writing_wp[OF fos_startup_stores]) auto
  ultimately have 1: "wp (fos_startup e) (\<lambda>_. ?A) s" by (simp add: wp_conj)
  have 2: "wp (fos_all_rings_match e ix) (\<lambda>_. ?A) t" if "?A t" for ix t
  proof -
    have "preserves ?flag (fos_all_rings_match e ix)"
      unfolding fos_all_rings_match_def Let_def
      by (intro preserves_intros k) (simp_all add: ring_base_in_bar)
    then have "wp (fos_all_rings_match e ix) (\<lambda>_. ?flag) t" by (rule preservesD) (use that in simp)
    moreover have "wp (fos_all_rings_match e ix) (\<lambda>_ u. writes (log u) = writes (log t)) t"
      by (rule writing_wp[OF writing_emits[OF fos_match_stores]]) simp
    ultimately have "wp (fos_all_rings_match e ix)
        (\<lambda>_ u. ?flag u \<and> writes (log u) = writes (log t)) t"
      by (simp add: wp_conj)
    then show ?thesis by (rule wp_mono) (use that in auto)
  qed
  have 3: "wp (fos_exercise e) (\<lambda>_. ?C) t" if A: "?A t" for t
  proof (cases "exercise_resets t \<and> publication_ok t")
    case True
    obtain ix where ix: "\<forall>d<8. \<forall>r. ix d r < 1024"
      "writes (log t) = writes (log s) @ startup_stores ix" using A by blast
    have "wp (all_m [0..<8] (fos_pulse e)) (\<lambda>_. ?C) t"
      by (rule writing_wp[OF fos_pulses_stores]) (use ix True A in auto)
    then show ?thesis using True by (simp add: fos_exercise_def wp_simps)
  next
    case False
    obtain ix where "\<forall>d<8. \<forall>r. ix d r < 1024"
      "writes (log t) = writes (log s) @ startup_stores ix" using A by blast
    then have "?C t" by (intro exI[of _ ix] exI[of _ 0]) simp
    then show ?thesis unfolding fos_exercise_def wp_when_m if_not_P[OF False] .
  qed
  have 4: "wp (fos_verify e) (\<lambda>_. ?C) t" if "?C t" for t
    by (rule writing_wp[OF writing_emits[OF fos_verify_stores]]) (use that in simp)
  show ?thesis
    unfolding fos_run_def wp_bind wp_gets wp_modify
    by (rule wp_mono[OF 1], rule wp_mono[OF 2], assumption, rule wp_mono[OF 3], simp, rule 4)
qed

lemma fos_restore_stores:
  assumes "fos_ready s"
  shows "wp (fos_restore e) (\<lambda>_ t.
     writes (log t) = writes (log s) @ (if startup_begun s then restore_stores else [])) s"
proof (cases "startup_begun s")
  case True
  then have b: "bar_ok s" using assms owns_iff[of BarMap s] by (simp add: fos_ready_def)
  have tail: "emits (\<lambda>x. \<not> is_wr x) (do {
           b \<leftarrow> and_m (fos_all_ring_words_zero e)
                       (read_is (fos_mmio_read32 e) DMA_CONTROL DMA_COLD_RESET);
           modify (\<lambda>s. s\<lparr>restored := b\<rparr>);
           if b then State_Monad.return () else fail })"
    unfolding fos_defs scan_rings_def read_is_def fail_def fos_mmio_read32_def
    by (intro emits_intros) simp_all
  show ?thesis
    unfolding fos_restore_def wp_when_m if_P[OF conjI[OF True b]] wp_bind[of "restore_card _"]
    by (rule writing_wp[OF writing_stores[OF fos_port.stores_restore]],
        rule writing_wp[OF writing_emits[OF tail]]) (use True in simp)
next
  case False
  then show ?thesis by (simp add: fos_restore_def wp_simps)
qed

definition fos_store_shape :: "string list \<Rightarrow> (u32 \<times> u32) list \<Rightarrow> bool" where
  "fos_store_shape argv ws \<longleftrightarrow> ws = [] \<or>
     (\<exists>ix n. (\<forall>d<8. \<forall>r. ix d r < 1024) \<and> n mod 3 \<noteq> 1 \<and> (n = 0 \<or> fos_wants_resets argv) \<and>
        ws = startup_stores ix @ take n pulse_schedule @ restore_stores)"

lemma fos_attempt_stores:
  "wp (fos_attempt e argv) (\<lambda>_ t. if startup_begun t then
       \<exists>ix n. (\<forall>d<8. \<forall>r. ix d r < 1024) \<and> n mod 3 \<noteq> 1 \<and> (n = 0 \<or> fos_wants_resets argv) \<and>
         writes (log t) = startup_stores ix @ take n pulse_schedule
     else writes (log t) = []) fos_locals" (is "wp _ ?Q _")
  unfolding fos_attempt_def wp_bind
proof (rule wp_mono[OF fos_gate])
  fix ok t
  assume t: "fos_unstarted t \<and> exercise_resets t = fos_wants_resets argv \<and>
    (ok \<longrightarrow> owned t = whole \<and> (\<exists>rs k. log t = rs @ k \<and> reads rs \<and> seen cold_seen rs))"
  then have w: "writes (log t) = []" "\<not> startup_begun t" by (simp_all add: fos_unstarted_def)
  show "wp (if ok then fos_run e else State_Monad.return ()) ?Q t"
  proof (cases ok)
    case True
    have "wp (fos_run e) (\<lambda>_ u. startup_begun u \<and> (\<exists>ix n. (\<forall>d<8. \<forall>r. ix d r < 1024) \<and>
        n mod 3 \<noteq> 1 \<and> (n = 0 \<or> exercise_resets t) \<and>
        writes (log u) = writes (log t) @ startup_stores ix @ take n pulse_schedule)) t"
      using fos_run_starts fos_run_stores by (simp only: wp_conj simp_thms)
    then show ?thesis unfolding if_P[OF True]
      by (rule wp_mono) (use t w in simp)
  next
    case False
    then show ?thesis using w by (simp add: wp_simps)
  qed
qed

lemma fos_run_shape: "fos_store_shape argv (writes (log (fos_final e argv)))"
proof -
  have tail: "wp (do { fos_report; teardown e (64 * 4096) })
      (\<lambda>_ v. writes (log v) = writes (log u)) u" if "session_ok u" "\<not> engines_on (log u)" for u
  proof -
    have "session_ok (u\<lparr>stdout := out\<rparr>)" for out
      using that(1) by (simp add: session_ok_def fos_tool.owned_stdout)
    then show ?thesis
      using teardown_spec[of "u\<lparr>stdout := stdout u @ fos_report_lines u\<rparr>" e "64 * 4096"] that
      by (auto simp: fos_report_def wp_simps elim!: wp_mono)
  qed
  have cleanup: "wp (fos_cleanup e) (\<lambda>_ u. writes (log u) = writes (log t) @
      (if startup_begun t then restore_stores else [])) t" if "fos_ready t" for t
    unfolding fos_cleanup_def wp_bind
    by (rule wp_mono[OF fos_restore_stores[OF that]],
        rule writing_wp[OF writing_emits[OF fos_reset_stores]]) simp
  have both: "wp (fos_cleanup e) (\<lambda>_ u. (session_ok u \<and> \<not> engines_on (log u)) \<and>
      writes (log u) = writes (log t) @ (if startup_begun t then restore_stores else [])) t"
    if "fos_ready t" for t
    using fos_cleanup_ready[OF that] cleanup[OF that] by (simp only: wp_conj simp_thms)
  have attempt: "wp (fos_attempt e argv) (\<lambda>_ t. fos_ready t \<and> (if startup_begun t then
       \<exists>ix n. (\<forall>d<8. \<forall>r. ix d r < 1024) \<and> n mod 3 \<noteq> 1 \<and> (n = 0 \<or> fos_wants_resets argv) \<and>
         writes (log t) = startup_stores ix @ take n pulse_schedule
     else writes (log t) = [])) fos_locals"
    using fos_attempt_ready fos_attempt_stores by (simp only: wp_conj simp_thms)
  have "wp (do { fos_attempt e argv; fos_cleanup e; fos_report; teardown e (64 * 4096) })
      (\<lambda>_ v. fos_store_shape argv (writes (log v))) fos_locals"
    unfolding wp_bind[of "fos_attempt _ _"] wp_bind[of "fos_cleanup _"]
  proof (rule wp_mono[OF attempt], rule wp_mono[OF both], simp)
    fix t u :: octo_session
    assume t: "fos_ready t \<and> (if startup_begun t then
       \<exists>ix n. (\<forall>d<8. \<forall>r. ix d r < 1024) \<and> n mod 3 \<noteq> 1 \<and> (n = 0 \<or> fos_wants_resets argv) \<and>
         writes (log t) = startup_stores ix @ take n pulse_schedule
       else writes (log t) = [])"
      and u: "(session_ok u \<and> \<not> engines_on (log u)) \<and>
        writes (log u) = writes (log t) @ (if startup_begun t then restore_stores else [])"
    have "fos_store_shape argv (writes (log u))"
      using t u unfolding fos_store_shape_def by (auto split: if_splits)
    then show "wp (do { fos_report; teardown e (64 * 4096) })
        (\<lambda>_ v. fos_store_shape argv (writes (log v))) u"
      using tail[of u] u by (auto elim!: wp_mono)
  qed
  then show ?thesis by (simp only: fos_main_effects)
qed

section \<open>The store counter\<close>

definition fos_counted :: "octo_session \<Rightarrow> bool" where
  "fos_counted s \<longleftrightarrow> mmio_write_count s = of_nat (length (writes (log s)))"

lemma counted_rd: "keeps_rd fos_counted (fos_mmio_read32 e)"
  and counted_wr: "keeps_wr fos_counted fos_mmio_write32"
  and counted_emit: "\<not> is_wr x \<Longrightarrow> preserves fos_counted (emit x)"
  by (cases x; simp add: keeps_rd_def keeps_wr_def preserves_def fos_mmio_read32_def wp_simps
      fos_counted_def)+

lemma counted_modify:
  "(\<And>s. log (f s) = log s) \<Longrightarrow> (\<And>s. mmio_write_count (f s) = mmio_write_count s) \<Longrightarrow>
     preserves fos_counted (modify f)"
  by (simp add: preserves_def wp_simps fos_counted_def)

lemmas counted_intros = preserves_read_is[OF counted_rd] preserves_scan_ready[OF counted_rd]
  preserves_scan_rings[OF counted_rd] preserves_publish[OF keeps_wr_ring[OF counted_wr]]
  preserves_quiesce[OF counted_wr] preserves_restore[OF counted_wr]
  keeps_rdD[OF counted_rd] counted_wr[unfolded keeps_wr_def, rule_format] counted_emit counted_modify

lemma counted_start_ring: "d < 8 \<Longrightarrow> r < 2 \<Longrightarrow> preserves fos_counted (fos_start_ring e d r)"
  unfolding fos_start_ring_def fos_defs
  by (auto intro!: preserves_intros counted_intros simp: ring_base_in_bar)

lemma counted_run: "preserves fos_counted (fos_run e)"
  unfolding fos_run_def fos_startup_def fos_all_rings_match_def fos_exercise_def fos_pulse_def
    fos_pulse_failed_def fos_verify_def fos_pages_unchanged_def fos_defs Let_def nanosleep_def
    load_byte_def interrupted_def
  by (intro preserves_intros counted_intros counted_start_ring) (simp_all add: ring_base_in_bar)

lemma counted_setup: "preserves fos_counted (fos_setup e)"
  unfolding fos_setup_def open_container_def open_group_def attach_group_def configure_iommu_def
    allocate_memory_def store_ram_def map_iova_def open_device_def map_bar_def check_def
  by (intro preserves_intros counted_intros) simp_all

lemma counted_main: "preserves fos_counted (fos_main e argv)"
  unfolding fos_main_def fos_attempt_def fos_arguments_def fos_precondition_def fos_cleanup_def
    fos_restore_def fos_reset_def fos_report_def teardown_def release_bar_def release_device_def
    release_mapping_def release_memory_def detach_group_def release_group_def
    release_container_def reset_device_def fail_def fos_defs check_def
  by (intro preserves_intros counted_intros counted_run counted_setup) simp_all

lemma fos_run_counted:
  "mmio_write_count (fos_final e argv) = of_nat (length (writes (log (fos_final e argv))))"
proof -
  have "wp (fos_main e argv) (\<lambda>_. fos_counted) fos_locals"
    by (rule preservesD[OF counted_main]) (simp add: fos_counted_def fos_locals_def)
  then show ?thesis by (simp add: fos_final_def wp_run fos_counted_def)
qed

end
