(* ===== verification/Full_Octo_Success.thy ===== *)
theory Full_Octo_Success
  imports Full_Octo_Results
begin

text \<open>
  What exit status 0 of \<^verbatim>\<open>tools/vfio_full_octo_start.c\<close> vouches for: the loads the run has made,
  phase by phase, and the complete sequence of its stores.
\<close>

section \<open>What each phase leaves unchanged\<close>

definition fos_keep :: "octo_session \<Rightarrow> octo_session \<Rightarrow> bool" where
  "fos_keep s t \<longleftrightarrow> exercise_resets t = exercise_resets s \<and> publication_ok t = publication_ok s \<and>
     per_dsp_resets_ok t = per_dsp_resets_ok s \<and> exit_success t = exit_success s \<and> ram t = ram s \<and>
     reset_pass_mask t = reset_pass_mask s"

lemma fos_keep_refl: "fos_keep s s"
  by (simp add: fos_keep_def)

lemma fos_keep_trans: "fos_keep s t \<Longrightarrow> fos_keep t u \<Longrightarrow> fos_keep s u"
  by (simp add: fos_keep_def)

lemma port_rest:
  assumes "t\<lparr>log := [], mmio_write_count := 0\<rparr> = s\<lparr>log := [], mmio_write_count := 0\<rparr>"
  shows "indexes t = indexes s" "fos_keep s t" "startup_begun t = startup_begun s"
    "device_fd t = device_fd s" "bar_ok t = bar_ok s"
  using assms by (cases s; cases t; simp add: fos_keep_def)+

section \<open>Startup\<close>

lemma fos_start_ring_wp:
  assumes "d < 8"
    and "\<And>t i. i < 1024 \<Longrightarrow> extends (log s) t \<Longrightarrow>
      writes (log t) = writes (log s) @ publish_stores d r i (page_iova d r) \<Longrightarrow>
      indexes t = (indexes s)(d := (indexes s d)(r := i)) \<Longrightarrow> fos_keep s t \<Longrightarrow> Q () t"
  shows "wp (fos_start_ring e d r) Q s"
proof -
  have "wp (fos_initialize_ring (ring_base d r) (first_iova d r) i) Q u"
    if i: "i < 1024" and u: "writes (log u) = writes (log s)" "extends (log s) u"
      "indexes u = (indexes s)(d := (indexes s d)(r := i))" "fos_keep s u" for u i
    unfolding fos_initialize_ring_def
  proof (rule stores_wp[OF fos_port.stores_publish[OF assms(1)]])
    fix a t
    assume t: "log t = rev (map (\<lambda>(a, v). Wr a v)
          (publish_stores d r i (\<lambda>p. first_iova d r + of_nat p * 4096))) @ log u"
      and rest: "t\<lparr>log := [], mmio_write_count := 0\<rparr> = u\<lparr>log := [], mmio_write_count := 0\<rparr>"
    have "extends (log s) t" using u(2) t by (auto simp: extends_def)
    moreover have "writes (log t) = writes (log s) @ publish_stores d r i (page_iova d r)"
      using t u(1) by (simp add: writes_rev_stores page_iova_fun)
    ultimately show "Q a t"
      using assms(2)[OF i] port_rest(1,2)[OF rest] u(3,4) fos_keep_trans by simp
  qed
  then show ?thesis
    by (simp add: fos_start_ring_def fos_bounded_index_def fos_mmio_read32_def wp_simps
        extends_def fos_keep_def)
qed

definition start_inv :: "octo_session \<Rightarrow> nat \<Rightarrow> octo_session \<Rightarrow> bool" where
  "start_inv s k t \<longleftrightarrow> extends (log s) t \<and> fos_keep s t \<and>
     (\<forall>d<k. \<forall>r<2. indexes t d r < 1024) \<and>
     writes (log t) = writes (log s) @ quiesce_stores @
       concat (map (\<lambda>d. dsp_stores d (indexes t d)) [0..<k])"

lemma start_inv_step:
  assumes "start_inv s k t" "k < 8"
  shows "wp (do { for_each [0..<2] (fos_start_ring e k);
       fos_mmio_write32 DMA_CONTROL (push_bit (k + 2) 1 - 1) }) (\<lambda>_. start_inv s (Suc k)) t"
proof -
  have fin: "start_inv s (Suc k) (v\<lparr>log := Wr DMA_CONTROL (mask (k + 2)) # log v,
      mmio_write_count := mmio_write_count v + 1\<rparr>)"
    if i: "i < 1024" "j < 1024" and u: "extends (log t) u" "fos_keep t u"
      "writes (log u) = writes (log t) @ publish_stores k 0 i (page_iova k 0)"
      "indexes u = (indexes t)(k := (indexes t k)(0 := i))"
      and v: "extends (log u) v" "fos_keep u v"
      "writes (log v) = writes (log u) @ publish_stores k 1 j (page_iova k 1)"
      "indexes v = (indexes u)(k := (indexes u k)(1 := j))"
    for i j u v
  proof -
    let ?ix = "(indexes t)(k := (indexes t k)(0 := i, 1 := j))"
    have ix: "indexes v = ?ix" using u(4) v(4) by (simp add: fun_eq_iff)
    have old: "map (\<lambda>d. dsp_stores d (?ix d)) [0..<k] =
        map (\<lambda>d. dsp_stores d (indexes t d)) [0..<k]"
      by (rule map_cong) simp_all
    have "extends (log s) v"
      using assms(1) u(1) v(1) by (auto simp: start_inv_def intro: extends_trans)
    moreover have "fos_keep s v"
      using assms(1) u(2) v(2) by (auto simp: start_inv_def intro: fos_keep_trans)
    moreover have "\<forall>d<Suc k. \<forall>r<2. ?ix d r < 1024"
      using assms(1) i by (auto simp: start_inv_def less_Suc_eq less_2_cases_iff)
    moreover have "writes (log v) @ [(DMA_CONTROL, mask (k + 2))] =
        writes (log s) @ quiesce_stores @ concat (map (\<lambda>d. dsp_stores d (?ix d)) [0..<Suc k])"
    proof -
      have "concat (map (\<lambda>d. dsp_stores d (?ix d)) [0..<Suc k]) =
          concat (map (\<lambda>d. dsp_stores d (indexes t d)) [0..<k]) @ dsp_stores k (?ix k)"
        by (simp only: upt_Suc_append[OF le0] map_append concat_append old list.map concat.simps append_Nil2)
      moreover have "dsp_stores k (?ix k) = publish_stores k 0 i (page_iova k 0) @
          publish_stores k 1 j (page_iova k 1) @ [(DMA_CONTROL, mask (k + 2))]"
        by (simp add: dsp_stores_def)
      ultimately show ?thesis
        using assms(1) u(3) v(3) by (simp only: start_inv_def append_assoc)
    qed
    ultimately show ?thesis
      by (simp add: start_inv_def ix) (auto simp: extends_def fos_keep_def)
  qed
  show ?thesis
    unfolding shift_mask upt_2 for_each.simps wp_bind wp_return wp_fos_write
    by (rule fos_start_ring_wp[OF assms(2)], rule fos_start_ring_wp[OF assms(2)]) (rule fin)
qed

lemma fos_startup_wp:
  assumes "\<And>t. extends (log s) t \<Longrightarrow> fos_keep s t \<Longrightarrow> (\<forall>d<8. \<forall>r<2. indexes t d r < 1024) \<Longrightarrow>
      writes (log t) = writes (log s) @ startup_stores (indexes t) \<Longrightarrow> Q () t"
  shows "wp (fos_startup e) Q s"
proof -
  let ?s = "s\<lparr>startup_begun := True\<rparr>"
  have loop: "wp (for_each [0..<8] (\<lambda>dsp. do { for_each [0..<2] (fos_start_ring e dsp);
       fos_mmio_write32 DMA_CONTROL (push_bit (dsp + 2) 1 - 1) })) Q u"
    if "start_inv s 0 u" for u
    by (rule wp_for_upt[where I = "start_inv s"])
      (use that start_inv_step assms in \<open>auto simp: start_inv_def startup_stores_def\<close>)
  have init: "start_inv s 0 u"
    if "log u = rev (map (\<lambda>(a, v). Wr a v) quiesce_stores) @ log ?s"
      "u\<lparr>log := [], mmio_write_count := 0\<rparr> = ?s\<lparr>log := [], mmio_write_count := 0\<rparr>" for u
  proof -
    have "fos_keep s u" using port_rest(2)[OF that(2)] by (simp add: fos_keep_def)
    then show ?thesis using that(1) by (simp add: start_inv_def writes_rev_stores extends_def)
  qed
  show ?thesis
    unfolding fos_startup_def wp_bind wp_modify
    by (rule stores_wp[OF fos_port.stores_quiesce], rule loop[unfolded wp_bind], rule init)
qed

section \<open>The reset loop\<close>

definition fos_keep2 :: "octo_session \<Rightarrow> octo_session \<Rightarrow> bool" where
  "fos_keep2 s t \<longleftrightarrow> indexes t = indexes s \<and> publication_ok t = publication_ok s \<and>
     exercise_resets t = exercise_resets s \<and> ram t = ram s \<and> exit_success t = exit_success s"

definition pulse_inv :: "octo_session \<Rightarrow> nat \<Rightarrow> octo_session \<Rightarrow> bool" where
  "pulse_inv s i t \<longleftrightarrow> extends (log s) t \<and> fos_keep2 s t \<and>
     writes (log t) = writes (log s) @ concat (map pulse_stores [0..<i])"

definition pulse_exit :: "vfio_env \<Rightarrow> octo_session \<Rightarrow> octo_session \<Rightarrow> bool" where
  "pulse_exit e s t \<longleftrightarrow> extends (log s) t \<and> fos_keep2 s t \<and>
     (\<not> per_dsp_resets_ok t \<or> ever (signalled e) (log t))"

lemma pulse_stores_wide: "pulse_stores d =
    [(DMA_CONTROL, DMA_ALL_DSPS AND NOT (push_bit (d + 1) 1) OR push_bit (d + 9) 1),
     (DMA_CONTROL, DMA_ALL_DSPS AND NOT (push_bit (d + 1) 1)),
     (DMA_CONTROL, DMA_ALL_DSPS AND NOT (push_bit (d + 1) 1) OR push_bit (d + 1) 1)]"
  by (simp only: pulse_stores_def Let_def)

lemma fos_pulse_wp:
  assumes "pulse_inv s i t"
  shows "wp (fos_pulse e i) (\<lambda>b u. if b then pulse_inv s (Suc i) u else pulse_exit e s u) t"
proof -
  define en rs dis where
    "en = (push_bit (i + 1) 1 :: u32)" and "rs = (push_bit (i + 9) 1 :: u32)" and "dis = DMA_ALL_DSPS AND NOT en"
  have P: "pulse_stores i = [(DMA_CONTROL, dis OR rs), (DMA_CONTROL, dis), (DMA_CONTROL, dis OR en)]"
    by (simp only: pulse_stores_wide en_def rs_def dis_def)
  have t: "extends (log s) t" "fos_keep2 s t"
    "writes (log t) = writes (log s) @ concat (map pulse_stores [0..<i])"
    using assms by (simp_all add: pulse_inv_def)
  have early: "pulse_exit e s u"
    if "\<exists>xs. log u = xs @ log t" "fos_keep2 t u" "\<not> per_dsp_resets_ok u \<or> ever (signalled e) (log u)" for u
    using that t by (auto simp: pulse_exit_def extends_def fos_keep2_def)
  have full: "pulse_inv s (Suc i) u"
    if "\<exists>xs. log u = xs @ log t" "fos_keep2 t u" "writes (log u) = writes (log t) @ pulse_stores i" for u
    using that t by (auto simp: pulse_inv_def extends_def fos_keep2_def)
  note steps = wp_bind wp_return wp_gets wp_modify wp_fos_write wp_emit nanosleep_def
    interrupted_def fos_pulse_failed_def
  show ?thesis
  proof (cases "ever (signalled e) (log t)")
    case True
    show ?thesis unfolding fos_pulse_def Let_def steps if_P[OF True] if_False
      by (rule early) (use True in \<open>simp_all add: fos_keep2_def\<close>)
  next
    case False
    have again: "wp (fos_settled e DMA_ALL_DSPS) (\<lambda>on. wp (if \<not> on then fos_pulse_failed
        else do { modify (\<lambda>s. s\<lparr>reset_pass_mask := reset_pass_mask s OR en\<rparr>);
                  State_Monad.return True })
        (\<lambda>b u. if b then pulse_inv s (Suc i) u else pulse_exit e s u)) u"
      if u: "\<exists>xs. log u = xs @ log t" "fos_keep2 t u"
        "writes (log u) = writes (log t) @ pulse_stores i" for u
    proof (rule read_only_wp[OF fos_settled_checks])
      fix b qs
      assume "reads qs"
      then show "wp (if \<not> b then fos_pulse_failed
          else do { modify (\<lambda>s. s\<lparr>reset_pass_mask := reset_pass_mask s OR en\<rparr>);
                  State_Monad.return True })
        (\<lambda>b u. if b then pulse_inv s (Suc i) u else pulse_exit e s u) (u\<lparr>log := qs @ log u\<rparr>)"
        using u by (cases b) (auto simp: wp_simps fos_pulse_failed_def fos_keep2_def intro!: early full)
    qed
    show ?thesis
      unfolding fos_pulse_def Let_def en_def[symmetric] rs_def[symmetric] dis_def[symmetric]
      unfolding steps if_not_P[OF False]
      apply (rule read_only_wp[OF fos_settled_checks], case_tac b)
       apply (simp only: steps if_True if_False not_True_eq_False not_False_eq_True)
       apply (rule again[unfolded steps])
         apply (simp_all add: fos_keep2_def P)[3]
      apply (simp only: steps if_True if_False not_True_eq_False not_False_eq_True)
      apply (rule early)
        apply (simp_all add: fos_keep2_def)
      done
  qed
qed

lemma fos_exercise_wp:
  assumes "\<And>t. extends (log s) t \<Longrightarrow> fos_keep2 s t \<Longrightarrow>
      (per_dsp_resets_ok t \<Longrightarrow> \<not> ever (signalled e) (log t) \<Longrightarrow> publication_ok s \<Longrightarrow>
        writes (log t) = writes (log s) @ (if exercise_resets s then pulse_schedule else [])) \<Longrightarrow>
      (\<not> exercise_resets s \<Longrightarrow> t = s) \<Longrightarrow> Q () t"
  shows "wp (fos_exercise e) Q s"
proof (cases "exercise_resets s \<and> publication_ok s")
  case True
  have "wp (all_m [0..<8] (fos_pulse e)) (\<lambda>_. Q ()) s"
  proof (rule wp_all_upt[where I = "pulse_inv s"])
    show "pulse_inv s 0 s" by (simp add: pulse_inv_def extends_refl fos_keep2_def)
  next
    fix i t
    assume "pulse_inv s i t"
    from fos_pulse_wp[OF this]
    show "wp (fos_pulse e i) (\<lambda>b u. if b then pulse_inv s (Suc i) u else Q () u) t"
      by (rule wp_mono) (use assms True in \<open>auto simp: pulse_exit_def split: if_splits\<close>)
  next
    fix t
    assume "pulse_inv s 8 t"
    then show "Q () t"
      using True by (intro assms) (simp_all add: pulse_inv_def pulse_schedule_def)
  qed
  then show ?thesis
    unfolding fos_exercise_def wp_when_m if_P[OF True] by (simp add: wp_simps)
next
  case False
  have "Q () s" by (rule assms) (use False in \<open>auto simp: extends_refl fos_keep2_def\<close>)
  then show ?thesis unfolding fos_exercise_def wp_when_m if_not_P[OF False] .
qed

section \<open>The final checks\<close>

lemma wp_pages_unchanged:
  "wp (fos_pages_unchanged e) Q s = Q (pages_intact 64 e (log s) (ram s)) s"
  unfolding fos_pages_unchanged_def by (rule wp_page_scan)

definition running_seen :: "(u32 \<times> (u32 \<Rightarrow> bool)) set" where
  "running_seen = ready_seen \<union> ({(INTERRUPT_ENABLE, \<lambda>v. v = 0)} \<union> {(DMA_CONTROL, \<lambda>v. v = DMA_ALL_DSPS)})"

lemma verify_seen:
  assumes "seen ready_seen rs" "seen {(0x2204, \<lambda>x. x = 0)} qs" "seen {(0x2200, \<lambda>x. x = 0x1ff)} ps"
  shows "seen running_seen (ps @ qs @ rs @ xs)"
proof -
  have "seen ready_seen (ps @ qs @ rs @ xs)" by (rule seen_mono[OF assms(1)]) auto
  moreover have "seen {(0x2204, \<lambda>x. x = 0)} (ps @ qs @ rs @ xs)" by (rule seen_mono[OF assms(2)]) auto
  moreover have "seen {(0x2200, \<lambda>x. x = 0x1ff)} (ps @ qs @ rs @ xs)" by (rule seen_mono[OF assms(3)]) auto
  ultimately show ?thesis unfolding running_seen_def by (simp only: seen_union simp_thms
      INTERRUPT_ENABLE_def DMA_CONTROL_def DMA_ALL_DSPS_def)
qed

lemma verify_quiet: "\<not> ever P (ps @ qs @ rs @ x # h) \<Longrightarrow> \<not> ever P h"
  using ever_append[of P h "ps @ qs @ rs @ [x]"] by auto

lemma fos_verify_wp:
  assumes "\<And>t. extends (log s) t \<Longrightarrow> indexes t = indexes s \<Longrightarrow> ram t = ram s \<Longrightarrow>
      writes (log t) = writes (log s) \<Longrightarrow> (\<exists>xs. log t = xs @ Delay 250000000 # log s) \<Longrightarrow>
      (exit_success t \<Longrightarrow> exit_success s \<or> publication_ok s \<and>
         (\<not> exercise_resets s \<or> per_dsp_resets_ok s) \<and> \<not> ever (signalled e) (log s) \<and>
         since (log s) running_seen t \<and> pages_intact 64 e (Delay 250000000 # log s) (ram s)) \<Longrightarrow> Q () t"
  shows "wp (fos_verify e) Q s"
proof -
  have ready: "checks log fos_rest (fos_all_dsps_ready e) ready_seen"
    unfolding fos_defs by (rule fos_reader.checks_ready)
  note rd_is = fos_reader.checks_read_is
  show ?thesis
    unfolding fos_verify_def nanosleep_def wp_bind wp_emit wp_pages_unchanged wp_modify
    apply (rule read_only_wp[OF ready])
    apply (rule read_only_wp[OF rd_is])
    apply (rule read_only_wp[OF rd_is])
    apply (simp only: interrupted_def wp_gets wp_when_m wp_modify split: if_split)
    apply (intro conjI impI; rule assms)
             apply (simp_all add: extends_def since_def)
    using verify_seen verify_quiet by blast
qed

section \<open>The whole run\<close>

text \<open>Every word that publishes the rings has been read back.\<close>

definition published_seen :: "(nat \<Rightarrow> nat \<Rightarrow> u32) \<Rightarrow> (u32 \<times> (u32 \<Rightarrow> bool)) set" where
  "published_seen ix = (\<Union>d<8. \<Union>r<2.
     (\<lambda>(a, x). (a, \<lambda>v. v = x)) ` set (publish_stores d r (ix d r) (page_iova d r)))"

lemma fos_match_checks: "checks log fos_rest (fos_all_rings_match e ix) (published_seen ix)"
proof (rule checks_mono)
  let ?a = "\<lambda>d r p. {(ring_base d r + of_nat p * 8, \<lambda>v. v = lower_32_bits (page_iova d r p)),
    (ring_base d r + of_nat p * 8 + 4, \<lambda>v. v = upper_32_bits (page_iova d r p))}"
  let ?E = "\<Union>d\<in>set [0..<8]. \<Union>r\<in>set [0..<2].
    ({(ring_base d r + 0x20, \<lambda>v. v = ix d r)} \<union> {(ring_base d r + 0x24, \<lambda>v. v = ix d r)}) \<union>
    (\<Union>p\<in>set [0..<4]. ?a d r p)"
  show "checks log fos_rest (fos_all_rings_match e ix) ?E"
    unfolding fos_all_rings_match_def Let_def page_iova_def
    by (intro checks_all_m checks_and_m fos_reader.checks_read_is fos_reader.checks_read_address)
  have words: "set (publish_stores d r (ix d r) (page_iova d r)) =
      {(ring_base d r + 0x24, ix d r), (ring_base d r + 0x20, ix d r)} \<union>
      (\<Union>p\<in>set [0..<4]. {(ring_base d r + of_nat p * 8, lower_32_bits (page_iova d r p)),
         (ring_base d r + of_nat p * 8 + 4, upper_32_bits (page_iova d r p))})" if "d < 8" for d r
    unfolding publish_stores_def ring_base_reg[OF that] ring_reg_words by auto
  show "published_seen ix \<subseteq> ?E"
  proof
    fix z
    assume "z \<in> published_seen ix"
    then obtain d r a x where dr: "d < 8" "r < 2" "z = (a, \<lambda>v. v = x)"
      "(a, x) \<in> set (publish_stores d r (ix d r) (page_iova d r))"
      by (auto simp: published_seen_def)
    then have "z \<in> ({(ring_base d r + 0x20, \<lambda>v. v = ix d r)} \<union> {(ring_base d r + 0x24, \<lambda>v. v = ix d r)}) \<union>
        (\<Union>p\<in>set [0..<4]. ?a d r p)"
      unfolding words[OF dr(1)] by auto
    then show "z \<in> ?E" using dr(1,2) by (intro UN_I[of d] UN_I[of r]) simp_all
  qed
qed

text \<open>What a run that reported success has done between two points of the history.\<close>

definition vouched :: "vfio_env \<Rightarrow> bool \<Rightarrow> (nat \<Rightarrow> u8) \<Rightarrow> history \<Rightarrow> history \<Rightarrow> bool" where
  "vouched e resets m k h \<longleftrightarrow> (\<exists>evs ix. h = evs @ k \<and> (\<forall>d<8. \<forall>r<2. ix d r < 1024) \<and>
     writes evs = startup_stores ix @ (if resets then pulse_schedule else []) \<and>
     seen (published_seen ix \<union> running_seen) evs \<and>
     (\<exists>xs ys. evs = xs @ ys \<and> pages_intact 64 e (ys @ k) m))"

lemma vouchedI:
  assumes "extends k t" "\<forall>d<8. \<forall>r<2. ix d r < 1024"
    and "writes (log t) = writes k @ startup_stores ix @ (if resets then pulse_schedule else [])"
    and "since k (published_seen ix \<union> running_seen) t"
    and "log t = xs @ ys @ k" "pages_intact 64 e (ys @ k) m"
  shows "vouched e resets m k (log t)"
proof -
  have "writes (xs @ ys) = startup_stores ix @ (if resets then pulse_schedule else [])"
    using assms(3,5) writes_append[of "xs @ ys" k] by simp
  moreover have "seen (published_seen ix \<union> running_seen) (xs @ ys)"
    using assms(4,5) by (auto simp: since_def)
  ultimately show ?thesis
    unfolding vouched_def using assms(2,5,6)
    by (intro exI[of _ "xs @ ys"] exI[of _ ix]) auto
qed

lemma fos_run_wp:
  assumes "\<not> exit_success s"
    and "\<And>t. extends (log s) t \<Longrightarrow> ram t = ram s \<Longrightarrow>
      (exit_success t \<Longrightarrow> vouched e (exercise_resets s) (ram s) (log s) (log t)) \<Longrightarrow> Q () t"
  shows "wp (fos_run e) Q s"
  unfolding fos_run_def wp_bind wp_gets wp_modify
proof (rule fos_startup_wp, rule scan_since[OF fos_match_checks])
  fix t b rs
  assume t: "extends (log s) t" "fos_keep s t" "\<forall>d<8. \<forall>r<2. indexes t d r < 1024"
      "writes (log t) = writes (log s) @ startup_stores (indexes t)"
    and rs: "reads rs" "b \<Longrightarrow> since (log t) (published_seen (indexes t)) (t\<lparr>log := rs @ log t\<rparr>)"
  let ?u = "t\<lparr>log := rs @ log t, publication_ok := b\<rparr>"
  show "wp (fos_exercise e) (\<lambda>_. wp (fos_verify e) Q) ?u"
  proof (rule fos_exercise_wp, rule fos_verify_wp, rule assms(2))
    fix v w
    assume v: "extends (log ?u) v" "fos_keep2 ?u v"
        "per_dsp_resets_ok v \<Longrightarrow> \<not> ever (signalled e) (log v) \<Longrightarrow> publication_ok ?u \<Longrightarrow>
          writes (log v) = writes (log ?u) @ (if exercise_resets ?u then pulse_schedule else [])"
        "\<not> exercise_resets ?u \<Longrightarrow> v = ?u"
      and w: "extends (log v) w" "indexes w = indexes v" "ram w = ram v"
        "writes (log w) = writes (log v)" "\<exists>xs. log w = xs @ Delay 250000000 # log v"
        "exit_success w \<Longrightarrow> exit_success v \<or> publication_ok v \<and>
          (\<not> exercise_resets v \<or> per_dsp_resets_ok v) \<and> \<not> ever (signalled e) (log v) \<and>
          since (log v) running_seen w \<and> pages_intact 64 e (Delay 250000000 # log v) (ram v)"
    have u: "extends (log s) ?u" using t(1) by (auto simp: extends_def)
    have vs: "extends (log s) v" using u v(1) by (rule extends_trans)
    then show "extends (log s) w" using w(1) by (rule extends_trans)
    show ram: "ram w = ram s" using w(3) v(2) t(2) by (simp add: fos_keep_def fos_keep2_def)
    assume "exit_success w"
    then have ok: "publication_ok v" "\<not> exercise_resets v \<or> per_dsp_resets_ok v"
      "\<not> ever (signalled e) (log v)" "since (log v) running_seen w"
      "pages_intact 64 e (Delay 250000000 # log v) (ram v)"
      using w(6) v(2) t(2) assms(1) by (auto simp: fos_keep_def fos_keep2_def)
    have b: "b" using ok(1) v(2) by (simp add: fos_keep2_def)
    have "since (log s) (published_seen (indexes t)) ?u"
      using since_later[OF t(1) rs(2)[OF b]] by (simp add: since_def)
    then have "since (log s) (published_seen (indexes t)) w"
      using since_mono v(1) w(1) extends_trans by blast
    moreover have "since (log s) running_seen w" using vs ok(4) by (rule since_later)
    ultimately have seen: "since (log s) (published_seen (indexes t) \<union> running_seen) w"
      by (rule since_union)
    have ex: "exercise_resets ?u = exercise_resets s" "exercise_resets v = exercise_resets s"
      using t(2) v(2) by (simp_all add: fos_keep_def fos_keep2_def)
    have "writes (log v) = writes (log ?u) @ (if exercise_resets s then pulse_schedule else [])"
      using v(3)[OF _ ok(3)] v(4) ok(2) ex b by (cases "exercise_resets s") simp_all
    then have ws: "writes (log w) = writes (log s) @ startup_stores (indexes t) @
        (if exercise_resets s then pulse_schedule else [])"
      using w(4) t(4) rs(1) by simp
    obtain xs where xs: "log w = xs @ Delay 250000000 # log v" using w(5) by auto
    obtain ys where ys: "log v = ys @ log s" using vs by (auto simp: extends_def)
    have "ram v = ram s" using ram w(3) by simp
    then have "log w = xs @ (Delay 250000000 # ys) @ log s"
      "pages_intact 64 e ((Delay 250000000 # ys) @ log s) (ram s)"
      using xs ys ok(5) by simp_all
    then show "vouched e (exercise_resets s) (ram s) (log s) (log w)"
      using vouchedI[OF _ t(3) ws seen] \<open>extends (log s) w\<close> by blast
  qed
qed

section \<open>Cleanup after success\<close>

lemma restored_checks: "checks log fos_rest (and_m (fos_all_ring_words_zero e)
    (read_is (fos_mmio_read32 e) DMA_CONTROL DMA_COLD_RESET)) restored_seen"
  unfolding restored_seen_def fos_defs
  by (intro checks_and_m fos_reader.checks_rings fos_reader.checks_read_is)

lemma recovered_checks: "checks log fos_rest (and_m (check c) (and_m (fos_all_ring_words_zero e)
    (and_m (read_is (fos_mmio_read32 e) DMA_CONTROL DMA_COLD_RESET) (fos_all_dsps_ready e))))
    ({} \<union> recovered_seen)"
  unfolding recovered_seen_def fos_defs
  by (rule checks_and_m, simp add: checks_def check_def seen_def)
    (intro checks_and_m fos_reader.checks_rings fos_reader.checks_read_is fos_reader.checks_ready)

lemma fos_restore_wp:
  assumes "startup_begun s" "bar_ok s"
    and "\<And>t evs. log t = evs @ log s \<Longrightarrow> ram t = ram s \<Longrightarrow> device_fd t = device_fd s \<Longrightarrow>
      bar_ok t = bar_ok s \<Longrightarrow> (exit_success t \<Longrightarrow> exit_success s \<and>
        writes evs = restore_stores \<and> seen restored_seen evs) \<Longrightarrow> Q () t"
  shows "wp (fos_restore e) Q s"
  unfolding fos_restore_def wp_when_m if_P[OF conjI[OF assms(1,2)]] wp_bind[of "restore_card _"]
proof (rule stores_wp[OF fos_port.stores_restore])
  fix t
  assume t: "log t = rev (map (\<lambda>(a, v). Wr a v) restore_stores) @ log s"
    and rest: "t\<lparr>log := [], mmio_write_count := 0\<rparr> = s\<lparr>log := [], mmio_write_count := 0\<rparr>"
  note same = port_rest[OF rest]
  have w: "writes (rev (map (\<lambda>(a, v). Wr a v) restore_stores)) = restore_stores"
    using writes_rev_stores[of restore_stores "[]"] by simp
  show "wp (do { b \<leftarrow> and_m (fos_all_ring_words_zero e)
                       (read_is (fos_mmio_read32 e) DMA_CONTROL DMA_COLD_RESET);
           modify (\<lambda>s. s\<lparr>restored := b\<rparr>);
           if b then State_Monad.return () else fail }) Q t"
    unfolding wp_bind
  proof (rule read_only_wp[OF restored_checks])
    fix b rs
    assume rs: "reads rs" "b \<Longrightarrow> seen restored_seen rs"
    let ?evs = "rs @ rev (map (\<lambda>(a, v). Wr a v) restore_stores)"
    have "writes ?evs = restore_stores" using rs(1) w by simp
    moreover have "seen restored_seen ?evs" if b
      using rs(2)[OF that] by (rule seen_mono) auto
    ultimately have ev: "writes ?evs = restore_stores" "b \<Longrightarrow> seen restored_seen ?evs"
      by simp_all
    show "wp (modify (restored_update (\<lambda>_. b))) (\<lambda>_. wp (if b then State_Monad.return () else fail) Q)
        (t\<lparr>log := rs @ log t\<rparr>)"
    proof (cases b)
      case True
      show ?thesis unfolding wp_modify if_P[OF True] wp_return
        by (rule assms(3)[where evs = ?evs]) (use same t ev True in \<open>auto simp: fos_keep_def\<close>)
    next
      case False
      show ?thesis unfolding wp_modify if_not_P[OF False] fail_def
        by (rule assms(3)[where evs = ?evs]) (use same t ev False in \<open>auto simp: fos_keep_def\<close>)
    qed
  qed
qed

lemma fos_reset_wp:
  assumes "\<not> device_fd s < 0" "bar_ok s"
    and "\<And>t rs. log t = rs @ DeviceReset # log s \<Longrightarrow> reads rs \<Longrightarrow> ram t = ram s \<Longrightarrow>
      (exit_success t \<Longrightarrow> exit_success s \<and> seen recovered_seen rs) \<Longrightarrow> Q () t"
  shows "wp (fos_reset e) Q s"
  unfolding fos_reset_def wp_when_m if_P[OF conjI[OF assms(1,2)]] reset_device_def wp_bind wp_modify
    wp_emit wp_return
proof (rule read_only_wp[OF recovered_checks])
  fix b rs
  let ?s = "s\<lparr>reset_called := True, log := DeviceReset # log (s\<lparr>reset_called := True\<rparr>)\<rparr>"
  assume "reads rs" "b \<Longrightarrow> seen ({} \<union> recovered_seen) rs"
  then show "wp (if b then State_Monad.return () else fail) Q (?s\<lparr>log := rs @ log ?s, reset_recovered := b\<rparr>)"
    by (cases b) (auto simp: wp_simps fail_def intro!: assms(3)[where rs = rs])
qed

section \<open>Exit status 0\<close>

lemma fos_setup_ram: "wp (fos_setup e) (\<lambda>ok t. ok \<longrightarrow> ram t = fos_fill_canaries (ram s)) s"
  by (simp add: fos_setup_def open_container_def open_group_def attach_group_def configure_iommu_def
      allocate_memory_def store_ram_def map_iova_def open_device_def map_bar_def check_def wp_simps)

lemma fos_gate_ram:
  "wp (and_m (and_m (fos_arguments argv) (fos_setup e)) (fos_precondition e))
     (\<lambda>ok t. ok \<longrightarrow> ram t = fos_fill_canaries (\<lambda>_. 0)) fos_locals"
proof -
  have args: "wp (fos_arguments argv) (\<lambda>_ t. ram t = (\<lambda>_. 0)) fos_locals"
    by (simp add: fos_arguments_def check_def wp_simps fos_locals_def)
  have pre: "wp (fos_precondition e) (\<lambda>ok t. ok \<longrightarrow> ram t = m) t" if "ram t = m" for t m
    by (rule read_only_wp[OF fos_precondition_checks]) (use that in simp)
  have su: "wp (fos_setup e) (\<lambda>ok t. ok \<longrightarrow> ram t = fos_fill_canaries (\<lambda>_. 0)) s"
    if "ram s = (\<lambda>_. 0)" for s
    using fos_setup_ram[of e s] that by simp
  show ?thesis
    by (rule wp_and_mI, rule wp_and_mI, rule wp_mono[OF args])
      (auto intro: wp_mono[OF su] pre)
qed

definition fos_evidence :: "vfio_env \<Rightarrow> bool \<Rightarrow> history \<Rightarrow> bool" where
  "fos_evidence e resets h \<longleftrightarrow> (\<exists>closing recovery restore run cold.
     h = closing @ recovery @ DeviceReset # restore @ run \<and>
     writes cold = [] \<and> seen cold_seen cold \<and>
     vouched e resets (fos_fill_canaries (\<lambda>_. 0)) cold run \<and>
     writes restore = restore_stores \<and> seen restored_seen restore \<and>
     reads recovery \<and> seen recovered_seen recovery \<and> writes closing = [])"

definition fos_passed :: "vfio_env \<Rightarrow> bool \<Rightarrow> octo_session \<Rightarrow> bool" where
  "fos_passed e resets s \<longleftrightarrow> (exit_success s \<longrightarrow> startup_begun s \<and> bar_ok s \<and> \<not> device_fd s < 0 \<and>
     (\<exists>cold. writes cold = [] \<and> seen cold_seen cold \<and>
        vouched e resets (fos_fill_canaries (\<lambda>_. 0)) cold (log s)))"

lemma fos_run_passed:
  assumes "owned s = whole" "session_ok s" "\<not> exit_success s" "writes (log s) = []"
    "seen cold_seen (log s)" "ram s = fos_fill_canaries (\<lambda>_. 0)"
  shows "wp (fos_run e) (\<lambda>_. fos_passed e (exercise_resets s)) s"
proof -
  have "inside whole s" using assms by (simp add: session_ok_inside)
  then have "wp (fos_run e) (\<lambda>_. inside whole) s" by (rule preservesD[OF fos_run_keeps])
  moreover have "wp (fos_run e) (\<lambda>_. startup_begun) s" by (rule fos_run_starts)
  moreover have "wp (fos_run e) (\<lambda>_ t. exit_success t \<longrightarrow>
      vouched e (exercise_resets s) (ram s) (log s) (log t)) s"
    by (rule fos_run_wp[OF assms(3)]) simp
  ultimately have "wp (fos_run e) (\<lambda>_ t. inside whole t \<and> startup_begun t \<and> (exit_success t \<longrightarrow>
      vouched e (exercise_resets s) (ram s) (log s) (log t))) s"
    by (simp only: wp_conj)
  then show ?thesis
  proof (rule wp_mono)
    fix t :: octo_session
    assume t: "inside whole t \<and> startup_begun t \<and> (exit_success t \<longrightarrow>
      vouched e (exercise_resets s) (ram s) (log s) (log t))"
    then have "owned t = whole" by (simp add: inside_def)
    then have "bar_ok t" "\<not> device_fd t < 0"
      using owns_iff[of BarMap t] owns_iff[of VfioDevice t] by (simp_all add: whole_def)
    then show "fos_passed e (exercise_resets s) t"
      using t assms(4-6) by (auto simp: fos_passed_def)
  qed
qed

lemma fos_attempt_passed: "wp (fos_attempt e argv) (\<lambda>_. fos_passed e (fos_wants_resets argv)) fos_locals"
  unfolding fos_attempt_def wp_bind
proof (rule wp_mono[OF wp_conjI[OF fos_gate fos_gate_ram]])
  fix ok t
  assume t: "(fos_unstarted t \<and> exercise_resets t = fos_wants_resets argv \<and>
      (ok \<longrightarrow> owned t = whole \<and> (\<exists>rs k. log t = rs @ k \<and> reads rs \<and> seen cold_seen rs))) \<and>
      (ok \<longrightarrow> ram t = fos_fill_canaries (\<lambda>_. 0))"
  show "wp (if ok then fos_run e else State_Monad.return ())
      (\<lambda>_. fos_passed e (fos_wants_resets argv)) t"
  proof (cases ok)
    case True
    then obtain rs k where k: "log t = rs @ k" "seen cold_seen rs" using t by auto
    then have "seen cold_seen (log t)" by (auto intro: seen_mono)
    then show ?thesis
      using fos_run_passed[of t e] t True by (simp add: fos_unstarted_def)
  next
    case False
    then show ?thesis using t by (simp add: wp_simps fos_passed_def fos_unstarted_def)
  qed
qed

lemma fos_unsuccessful:
  "preserves (\<lambda>s. \<not> exit_success s) (fos_mmio_read32 e a)"
  "preserves (\<lambda>s. \<not> exit_success s) (fos_mmio_write32 a v)"
  by (simp_all add: preserves_def fos_mmio_read32_def fos_mmio_write32_def wp_simps)

lemma fos_cleanup_failed: "preserves (\<lambda>s. \<not> exit_success s) (fos_cleanup e)"
proof -
  have rd: "keeps_rd (\<lambda>s. \<not> exit_success s) (fos_mmio_read32 e)"
    and wr: "keeps_wr (\<lambda>s. \<not> exit_success s) fos_mmio_write32"
    by (simp_all add: keeps_rd_def keeps_wr_def fos_unsuccessful)
  show ?thesis
    unfolding fos_cleanup_def fos_restore_def fos_reset_def fos_defs check_def fail_def reset_device_def
    by (intro preserves_intros preserves_restore[OF wr] preserves_scan_rings[OF rd]
        preserves_scan_ready[OF rd] preserves_read_is[OF rd] preserves_modify)
      (simp_all add: preserves_def wp_simps)
qed

lemma fos_cleanup_passed:
  assumes "fos_passed e resets s"
  shows "wp (fos_cleanup e) (\<lambda>_ t. exit_success t \<longrightarrow> (\<exists>recovery restore run cold.
     log t = recovery @ DeviceReset # restore @ run \<and>
     writes cold = [] \<and> seen cold_seen cold \<and>
     vouched e resets (fos_fill_canaries (\<lambda>_. 0)) cold run \<and>
     writes restore = restore_stores \<and> seen restored_seen restore \<and>
     reads recovery \<and> seen recovered_seen recovery)) s"
proof (cases "exit_success s")
  case False
  show ?thesis by (rule wp_mono[OF preservesD[OF fos_cleanup_failed False]]) simp
next
  case True
  then obtain cold where s: "startup_begun s" "bar_ok s" "\<not> device_fd s < 0" and
    cold: "writes cold = []" "seen cold_seen cold"
      "vouched e resets (fos_fill_canaries (\<lambda>_. 0)) cold (log s)"
    using assms by (auto simp: fos_passed_def)
  show ?thesis
    unfolding fos_cleanup_def wp_bind
  proof (rule fos_restore_wp[OF s(1,2)])
    fix t :: octo_session and evs
    assume t: "log t = evs @ log s" "device_fd t = device_fd s" "bar_ok t = bar_ok s"
      "exit_success t \<Longrightarrow> exit_success s \<and> writes evs = restore_stores \<and> seen restored_seen evs"
    show "wp (fos_reset e) (\<lambda>_ t. exit_success t \<longrightarrow> (\<exists>recovery restore run cold.
       log t = recovery @ DeviceReset # restore @ run \<and>
       writes cold = [] \<and> seen cold_seen cold \<and>
       vouched e resets (fos_fill_canaries (\<lambda>_. 0)) cold run \<and>
       writes restore = restore_stores \<and> seen restored_seen restore \<and>
       reads recovery \<and> seen recovered_seen recovery)) t"
    proof (rule fos_reset_wp)
      show "\<not> device_fd t < 0" "bar_ok t" using s t by simp_all
    next
      fix u rs
      assume u: "log u = rs @ DeviceReset # log t" "reads rs"
        "exit_success u \<Longrightarrow> exit_success t \<and> seen recovered_seen rs"
      show "exit_success u \<longrightarrow> (\<exists>recovery restore run cold.
         log u = recovery @ DeviceReset # restore @ run \<and>
         writes cold = [] \<and> seen cold_seen cold \<and>
         vouched e resets (fos_fill_canaries (\<lambda>_. 0)) cold run \<and>
         writes restore = restore_stores \<and> seen restored_seen restore \<and>
         reads recovery \<and> seen recovered_seen recovery)"
      proof
        assume "exit_success u"
        then have "seen recovered_seen rs" "writes evs = restore_stores" "seen restored_seen evs"
          using u(3) t(4) by blast+
        then show "\<exists>recovery restore run cold.
           log u = recovery @ DeviceReset # restore @ run \<and>
           writes cold = [] \<and> seen cold_seen cold \<and>
           vouched e resets (fos_fill_canaries (\<lambda>_. 0)) cold run \<and>
           writes restore = restore_stores \<and> seen restored_seen restore \<and>
           reads recovery \<and> seen recovered_seen recovery"
          using cold u(1,2) t(1)
          by (intro exI[of _ rs] exI[of _ evs] exI[of _ "log s"] exI[of _ cold]) simp
      qed
    qed
  qed
qed

lemma fos_evidence_final:
  assumes "exit_success (fos_final e argv)"
  shows "fos_evidence e (fos_wants_resets argv) (log (fos_final e argv))"
proof -
  have "wp (do { fos_attempt e argv; fos_cleanup e; fos_report; teardown e (64 * 4096) })
     (\<lambda>_ t. exit_success t \<longrightarrow> fos_evidence e (fos_wants_resets argv) (log t)) fos_locals"
    unfolding wp_bind fos_report_def wp_modify
  proof (rule wp_mono[OF fos_attempt_passed], rule wp_mono[OF fos_cleanup_passed], assumption)
    fix t :: octo_session
    assume t: "exit_success t \<longrightarrow> (\<exists>recovery restore run cold.
     log t = recovery @ DeviceReset # restore @ run \<and>
     writes cold = [] \<and> seen cold_seen cold \<and>
     vouched e (fos_wants_resets argv) (fos_fill_canaries (\<lambda>_. 0)) cold run \<and>
     writes restore = restore_stores \<and> seen restored_seen restore \<and>
     reads recovery \<and> seen recovered_seen recovery)"
    let ?u = "t\<lparr>stdout := stdout t @ fos_report_lines t\<rparr>"
    have "wp (teardown e (64 * 4096)) (\<lambda>_ v. (\<exists>xs. log v = xs @ log ?u \<and> writes xs = []) \<and>
       (exit_success v \<longrightarrow> exit_success ?u)) ?u"
      by (rule preservesD[OF preserves_extending]) simp
    then show "wp (teardown e (64 * 4096))
        (\<lambda>_ v. exit_success v \<longrightarrow> fos_evidence e (fos_wants_resets argv) (log v)) ?u"
      by (rule wp_mono) (use t in \<open>fastforce simp: fos_evidence_def\<close>)
  qed
  then show ?thesis using assms by (simp only: fos_main_effects)
qed

end
