(* ===== verification/Card_Session.thy ===== *)
theory Card_Session
  imports Vfio_Session Octo_Card
begin

text \<open>
  Sessions on a card that behaves as documented (\<open>octo_hw\<close>) and a host on which every call
  succeeds (\<open>good_env\<close>): a scan then succeeds exactly when the last stored values say so, which
  is what the liveness results of the tools rest on.
\<close>

section \<open>Scans that are bound to succeed\<close>

text \<open>
  \<open>meets m R\<close>: from any state whose last stored values satisfy \<open>R\<close>, the scan \<open>m\<close> succeeds,
  adding loads to the history and changing nothing else.
\<close>

definition meets :: "('a bus_scheme, bool) state \<Rightarrow> ((u32 \<Rightarrow> u32 option) \<Rightarrow> bool) \<Rightarrow> bool" where
  "meets m R \<longleftrightarrow> (\<forall>s. R (shadow (log s)) \<longrightarrow>
     wp m (\<lambda>b t. b \<and> (\<exists>rs. reads rs \<and> t = s\<lparr>log := rs @ log s\<rparr>)) s)"

lemma meets_wp:
  assumes "meets m R" "R (shadow (log s))"
    and "\<And>rs. reads rs \<Longrightarrow> Q True (s\<lparr>log := rs @ log s\<rparr>)"
  shows "wp m Q s"
proof -
  have "wp m (\<lambda>b t. b \<and> (\<exists>rs. reads rs \<and> t = s\<lparr>log := rs @ log s\<rparr>)) s"
    using assms(1,2) by (simp add: meets_def)
  then show ?thesis by (rule wp_mono) (use assms(3) in auto)
qed

lemma meetsI:
  "(\<And>s. R (shadow (log s)) \<Longrightarrow>
     wp m (\<lambda>b t. b \<and> (\<exists>rs. reads rs \<and> t = s\<lparr>log := rs @ log s\<rparr>)) s) \<Longrightarrow> meets m R"
  by (simp add: meets_def)

named_theorems meets_intros \<open>scans that succeed\<close>

lemma meets_true [meets_intros]: "meets (State_Monad.return True) (\<lambda>_. True)"
  by (rule meetsI) (auto simp: wp_simps intro!: exI[of _ "[]"])

lemma meets_check [meets_intros]: "c \<Longrightarrow> meets (check c) (\<lambda>_. True)"
  by (simp add: check_def meets_true)

lemma meets_and_m [meets_intros]:
  assumes "meets a A" "meets b B"
  shows "meets (and_m a b) (\<lambda>m. A m \<and> B m)"
proof (rule meetsI)
  fix s :: "'a bus_scheme"
  assume s: "A (shadow (log s)) \<and> B (shadow (log s))"
  show "wp (and_m a b) (\<lambda>b t. b \<and> (\<exists>rs. reads rs \<and> t = s\<lparr>log := rs @ log s\<rparr>)) s"
  proof (rule wp_and_mI, rule meets_wp[OF assms(1)])
    fix rs :: history
    assume rs: "reads rs"
    have "wp b (\<lambda>b t. b \<and> (\<exists>rs. reads rs \<and> t = s\<lparr>log := rs @ log s\<rparr>)) (s\<lparr>log := rs @ log s\<rparr>)"
    proof (rule meets_wp[OF assms(2)])
      fix qs :: history
      assume "reads qs"
      then show "True \<and> (\<exists>ps. reads ps \<and>
          s\<lparr>log := rs @ log s, log := qs @ log (s\<lparr>log := rs @ log s\<rparr>)\<rparr> = s\<lparr>log := ps @ log s\<rparr>)"
        using rs by (intro conjI TrueI exI[of _ "qs @ rs"]) simp_all
    qed (use s rs in simp)
    then show "(True \<longrightarrow> wp b (\<lambda>b t. b \<and> (\<exists>rs. reads rs \<and> t = s\<lparr>log := rs @ log s\<rparr>))
        (s\<lparr>log := rs @ log s\<rparr>)) \<and> (\<not> True \<longrightarrow> False \<and> (\<exists>qs. reads qs \<and>
          s\<lparr>log := rs @ log s\<rparr> = s\<lparr>log := qs @ log s\<rparr>))"
      by simp
  qed (use s in simp)
qed

lemma meets_mono: "meets m R \<Longrightarrow> (\<And>k. S k \<Longrightarrow> R k) \<Longrightarrow> meets m S"
  by (simp add: meets_def)

lemma meets_all_m:
  "(\<And>x. x \<in> set xs \<Longrightarrow> meets (f x) (R x)) \<Longrightarrow> meets (all_m xs f) (\<lambda>k. \<forall>x\<in>set xs. R x k)"
proof (induction xs)
  case Nil
  then show ?case by (simp add: meets_true)
next
  case (Cons x xs)
  have "meets (and_m (f x) (all_m xs f)) (\<lambda>k. R x k \<and> (\<forall>x\<in>set xs. R x k))"
    by (intro meets_and_m Cons.IH Cons.prems) simp_all
  then show ?case by (simp add: and_m_def)
qed

lemma meets_upt: "(\<And>i. i < n \<Longrightarrow> meets (f i) (R i)) \<Longrightarrow> meets (all_m [0..<n] f) (\<lambda>k. \<forall>i<n. R i k)"
  by (rule meets_mono[OF meets_all_m]) auto

lemma meets_bus_read:
  "(\<And>h. R (shadow h) \<Longrightarrow> p (hw h a)) \<Longrightarrow>
     meets (do { v \<leftarrow> bus_read hw a; State_Monad.return (p v) }) R"
  by (rule meetsI) (auto simp: wp_simps intro!: exI[of _ "[Rd a x]" for x])

lemma meets_read_is: "(\<And>h. R (shadow h) \<Longrightarrow> hw h a = v) \<Longrightarrow> meets (read_is (bus_read hw) a v) R"
  unfolding read_is_def by (rule meets_bus_read)

lemma meets_read_address:
  "(\<And>h. R (shadow h) \<Longrightarrow> hw h a = lower_32_bits x \<and> hw h b = upper_32_bits x) \<Longrightarrow>
     meets (do { lo \<leftarrow> bus_read hw a; hi \<leftarrow> bus_read hw b; State_Monad.return (join_64 lo hi = x) }) R"
  by (rule meetsI) (auto simp: wp_simps join_64_eq_iff intro!: exI[of _ "[Rd b y, Rd a x]" for x y])

text \<open>The last stored values after a list of stores.\<close>

lemma shadow_after:
  "writes h = writes k @ ws \<Longrightarrow> shadow h = shadow k ++ map_of (rev ws)"
  by (simp add: shadow_map_of)

lemma last_store:
  assumes "(a, v) \<in> set ws" "\<And>x. (a, x) \<in> set ws \<Longrightarrow> x = v"
  shows "map_of (rev ws) a = Some v"
proof (cases "map_of (rev ws) a")
  case None
  then show ?thesis using assms(1) by (force simp: map_of_eq_None_iff)
next
  case (Some x)
  then have "(a, x) \<in> set ws" using map_of_SomeD by force
  then show ?thesis using assms(2) Some by simp
qed

lemma zero_stores:
  "(\<And>a v. (a, v) \<in> set ws \<Longrightarrow> v = 0) \<Longrightarrow> map_of (rev ws) a \<in> {None, Some 0}"
  by (cases "map_of (rev ws) a") (auto dest!: map_of_SomeD)

text \<open>The ten words that publish a ring.\<close>

definition publish_value :: "u32 \<Rightarrow> (nat \<Rightarrow> u64) \<Rightarrow> nat \<Rightarrow> u32" where
  "publish_value index addr w =
     (if 8 \<le> w then index else if even w then lower_32_bits (addr (w div 2))
      else upper_32_bits (addr (w div 2)))"

lemma set_publish_stores:
  "set (publish_stores d r i addr) = (\<lambda>w. (ring_reg d r w, publish_value i addr w)) ` {..<10}"
proof -
  have ten: "{..<10 :: nat} = {0, 1, 2, 3, 4, 5, 6, 7, 8, 9}" by auto
  show ?thesis
    unfolding publish_stores_def ten by (auto simp: upt_4 publish_value_def)
qed

lemma ring_base_pages:
  assumes "d < 8"
  shows "ring_base d r + 0x20 = ring_reg d r 8" "ring_base d r + 0x24 = ring_reg d r 9"
    "ring_base d r + of_nat p * 8 = ring_reg d r (2 * p)"
    "ring_base d r + of_nat p * 8 + 4 = ring_reg d r (2 * p + 1)"
  using assms by (simp_all add: ring_base_reg ring_reg_words)

text \<open>The words the restore sequence leaves.\<close>

lemma restore_ring:
  assumes "d < 8" "r < 2" "w < 10"
  shows "map_of (rev restore_stores) (ring_reg d r w) = Some 0"
proof (rule last_store)
  show "(ring_reg d r w, 0) \<in> set restore_stores"
    using assms by (force simp: restore_stores_def clear_stores_of_def set_ring_words)
next
  fix x
  assume "(ring_reg d r w, x) \<in> set restore_stores"
  then show "x = 0"
    using assms ring_reg_not_global(1)[of d r w] by (auto simp: restore_stores_def clear_stores_of_def)
qed

lemma restore_dma: "map_of (rev restore_stores) DMA_CONTROL = Some DMA_COLD_RESET"
  by (simp add: restore_stores_def)

section \<open>The documented card\<close>

definition stored_at :: "(u32 \<Rightarrow> u32 option) \<Rightarrow> u32 \<Rightarrow> u32 \<Rightarrow> u32" where
  "stored_at k a v = (case k a of None \<Rightarrow> v | Some x \<Rightarrow> x)"

definition ring_word :: "(u32 \<Rightarrow> u32 option) \<Rightarrow> nat \<Rightarrow> nat \<Rightarrow> nat \<Rightarrow> u32" where
  "ring_word k d r w = (if w < 10 then stored_at k (ring_reg d r w) 0 else 0)"

lemma boot_offsets_ready: "boot_offsets = uad2_ready_offsets"
  by (simp add: boot_offsets_def uad2_ready_offsets_def)

lemma card_reads:
  assumes "octo_hw hw"
  shows "hw h DMA_CONTROL = stored_at (shadow h) DMA_CONTROL DMA_COLD_RESET"
    "hw h INTERRUPT_ENABLE = stored_at (shadow h) INTERRUPT_ENABLE 0"
    "hw h FPGA_REVISION = EXPECTED_FPGA_REVISION"
    "hw h EXTENDED_CAPABILITIES = EXPECTED_CAPABILITIES"
    "d < 8 \<Longrightarrow> hw h (boot_offsets ! d) AND 1 \<noteq> 0"
    "d < 8 \<Longrightarrow> r < 2 \<Longrightarrow> w < 16 \<Longrightarrow> hw h (ring_reg d r w) = ring_word (shadow h) d r w"
  using octo_hwD[OF assms, where h = h]
  by (simp_all add: stored_at_def ring_word_def boot_offsets_ready EXPECTED_FPGA_REVISION_def
      EXPECTED_CAPABILITIES_def UAD2_DMA_COLD_RESET_def UAD2_EXPECTED_FPGA_REVISION_def UAD2_EXPECTED_CAPABILITIES_def split: option.split)

lemma meets_ready: "octo_hw hw \<Longrightarrow> meets (scan_ready (bus_read hw)) (\<lambda>_. True)"
  unfolding scan_ready_def
  by (rule meets_mono[OF meets_upt[OF meets_bus_read[where R = "\<lambda>_. True"]]])
    (simp_all add: card_reads(5))

lemma meets_rings:
  assumes "octo_hw hw"
  shows "meets (scan_rings (bus_read hw) p) (\<lambda>k. \<forall>d<8. \<forall>r<2. \<forall>w<16. p d r w (ring_word k d r w))"
  unfolding scan_rings_def
  by (intro meets_upt meets_bus_read) (simp add: ring_base_word card_reads(6)[OF assms])

lemma meets_dma: "octo_hw hw \<Longrightarrow> meets (read_is (bus_read hw) DMA_CONTROL v)
    (\<lambda>k. stored_at k DMA_CONTROL DMA_COLD_RESET = v)"
  by (rule meets_read_is) (simp only: card_reads)

lemma meets_interrupt: "octo_hw hw \<Longrightarrow> meets (read_is (bus_read hw) INTERRUPT_ENABLE v)
    (\<lambda>k. stored_at k INTERRUPT_ENABLE 0 = v)"
  by (rule meets_read_is) (simp only: card_reads)

lemma meets_identity:
  assumes "octo_hw hw"
  shows "meets (read_is (bus_read hw) FPGA_REVISION EXPECTED_FPGA_REVISION) (\<lambda>_. True)"
    "meets (read_is (bus_read hw) EXTENDED_CAPABILITIES EXPECTED_CAPABILITIES) (\<lambda>_. True)"
  by (rule meets_read_is, simp only: card_reads[OF assms])+

section \<open>A host on which every call succeeds\<close>

definition good_env :: "vfio_env \<Rightarrow> bool" where
  "good_env e \<longleftrightarrow> octo_hw (answer e) \<and> (\<forall>h. \<not> signalled e h) \<and> (\<forall>h m. ram_view e h m = m) \<and>
     sys_page_size e = 4096 \<and> 0 \<le> container_open e \<and> api_matches e \<and> type1_supported e \<and>
     0 \<le> group_open e \<and> 0 \<le> group_status e \<and> group_viable e \<and> 0 \<le> set_container e \<and>
     0 \<le> set_iommu e \<and> 0 \<le> iommu_info e \<and> iova_pgsizes e = 4096 \<and> memory_mmap e \<and>
     0 \<le> memory_mlock e \<and> 0 \<le> map_dma e \<and> 0 \<le> get_device_fd e \<and> 0 \<le> device_info e \<and>
     device_is_pci e \<and> device_resets e \<and> 0 \<le> region_info e \<and> region_size e = BAR0_SIZE \<and>
     region_read e \<and> region_write e \<and> region_mmap e \<and> bar_mmap e \<and> device_reset e = 0"

text \<open>A concrete one; the unmap call reports the given number of bytes.\<close>

definition demo_env :: "nat \<Rightarrow> vfio_env" where
  "demo_env bytes = \<lparr>answer = octo_card, ram_view = (\<lambda>_ m. m), signalled = (\<lambda>_. False),
     sys_page_size = 4096, container_open = 3, api_matches = True, type1_supported = True,
     group_open = 4, group_status = 0, group_viable = True, set_container = 0, set_iommu = 0,
     iommu_info = 0, iova_pgsizes = 4096, memory_mmap = True, memory_mlock = 0, map_dma = 0,
     get_device_fd = 5, device_info = 0, device_is_pci = True, device_resets = True,
     region_info = 0, region_size = BAR0_SIZE, region_read = True, region_write = True,
     region_mmap = True, bar_mmap = True, device_reset = 0, unmap_dma = 0, unmap_size = bytes\<rparr>"

lemma demo_env_good: "good_env (demo_env bytes)" "unmap_ok (demo_env bytes) bytes"
  by (simp_all add: good_env_def demo_env_def octo_card_octo unmap_ok_def)

lemma never_interrupted:
  assumes "good_env e"
  shows "\<not> ever (signalled e) h"
  using assms by (induction h) (simp_all add: good_env_def)

lemma teardown_live:
  assumes "unmap_ok e n"
  shows "preserves exit_success (teardown e n)"
  unfolding teardown_def release_bar_def release_device_def release_mapping_def release_memory_def
    detach_group_def release_group_def release_container_def if_P[OF assms]
  by (intro preserves_intros) (simp_all add: preserves_def wp_simps)

lemma canaries_fold:
  "fold (\<lambda>page. memset (page * 4096) (of_nat (0x40 + page)) 4096) [0..<n] m i =
     (if i < n * 4096 then of_nat (0x40 + i div 4096) else m i)"
proof (induction n)
  case (Suc n)
  have "i div 4096 = n" if "n * 4096 \<le> i" "i < n * 4096 + 4096"
    using that by (simp add: div_nat_eqI)
  then show ?case using Suc by (auto simp: memset_def)
qed simp

lemma canaries_intact:
  assumes "good_env e"
  shows "pages_intact n e h (fold (\<lambda>page. memset (page * 4096) (of_nat (0x40 + page)) 4096) [0..<n] m)"
proof -
  have "fold (\<lambda>page. memset (page * 4096) (of_nat (0x40 + page)) 4096) [0..<n] m (page * 4096 + byte) =
      of_nat (0x40 + page)" if "page < n" "byte < 4096" for page byte
    unfolding canaries_fold using that by auto
  then show ?thesis using assms by (simp add: pages_intact_def good_env_def)
qed

end
