(* ===== verification/Full_Octo_Live.thy ===== *)
theory Full_Octo_Live
  imports Full_Octo_Success Card_Session
begin

text \<open>
  \<^verbatim>\<open>tools/vfio_full_octo_start.c\<close> succeeds: on a host on which every call succeeds, a card that
  behaves as documented and leaves the canary pages alone, and without a signal, every run with
  a valid command line ends with exit status 0.
\<close>

section \<open>What the card holds after startup\<close>

lemma in_startup_stores:
  assumes "(a, v) \<in> set (startup_stores ix)"
  shows "(\<exists>d<8. \<exists>r<2. \<exists>w<10. a = ring_reg d r w \<and> v = publish_value (ix d r) (page_iova d r) w) \<or>
    a \<in> {NOTIFICATION_CONTROL, INTERRUPT_ACK, DMA_CONTROL} \<or> (a, v) = (INTERRUPT_ENABLE, 0)"
proof -
  have ring: "\<exists>d<8. \<exists>r<2. \<exists>w<10. a = ring_reg d r w \<and> v = publish_value (ix d r) (page_iova d r) w"
    if "d < 8" "r < 2" "(a, v) \<in> set (publish_stores d r (ix d r) (page_iova d r))" for d r
    using that by (intro exI[of _ d] exI[of _ r]) (auto simp: set_publish_stores)
  consider "(a, v) \<in> set quiesce_stores" | d where "d < 8" "(a, v) \<in> set (dsp_stores d (ix d))"
    using assms by (auto simp: startup_stores_def)
  then show ?thesis
  proof cases
    case 1
    then show ?thesis by (auto simp: quiesce_stores_def)
  next
    case 2
    then show ?thesis using ring[of d 0] ring[of d 1] by (auto simp: dsp_stores_def)
  qed
qed

lemma startup_ring:
  assumes "d < 8" "r < 2" "w < 10"
  shows "map_of (rev (startup_stores ix)) (ring_reg d r w) =
    Some (publish_value (ix d r) (page_iova d r) w)"
proof (rule last_store)
  have r: "r = 0 \<or> r = 1" using assms(2) by auto
  have "(ring_reg d r w, publish_value (ix d r) (page_iova d r) w) \<in>
      set (publish_stores d r (ix d r) (page_iova d r))"
    using assms(3) by (simp add: set_publish_stores)
  then have "(ring_reg d r w, publish_value (ix d r) (page_iova d r) w) \<in> set (dsp_stores d (ix d))"
    using r by (auto simp: dsp_stores_def)
  then show "(ring_reg d r w, publish_value (ix d r) (page_iova d r) w) \<in> set (startup_stores ix)"
    using assms(1) by (auto simp: startup_stores_def)
next
  fix x
  assume "(ring_reg d r w, x) \<in> set (startup_stores ix)"
  from in_startup_stores[OF this]
  show "x = publish_value (ix d r) (page_iova d r) w"
    using assms ring_reg_not_global[of d r w] by (auto simp: ring_reg_eq_iff)
qed

lemma startup_dma: "map_of (rev (startup_stores ix)) DMA_CONTROL = Some DMA_ALL_DSPS"
proof -
  have "startup_stores ix = (quiesce_stores @ concat (map (\<lambda>d. dsp_stores d (ix d)) [0..<7]) @
      publish_stores 7 0 (ix 7 0) (page_iova 7 0) @ publish_stores 7 1 (ix 7 1) (page_iova 7 1)) @
      [(DMA_CONTROL, mask 9)]"
    using upt_Suc_append[of 0 7] by (simp add: startup_stores_def dsp_stores_def)
  then show ?thesis by (simp add: mask_numeral)
qed

lemma startup_interrupt: "map_of (rev (startup_stores ix)) INTERRUPT_ENABLE = Some 0"
proof (rule last_store)
  show "(INTERRUPT_ENABLE, 0) \<in> set (startup_stores ix)"
    by (simp add: startup_stores_def quiesce_stores_def)
next
  fix x
  assume "(INTERRUPT_ENABLE, x) \<in> set (startup_stores ix)"
  from in_startup_stores[OF this] show "x = 0"
    using ring_reg_not_global(2)[of _ _ _ "0x2204"] by auto
qed

lemma fos_reads: "fos_mmio_read32 e = bus_read (answer e)"
  by (simp add: fun_eq_iff fos_mmio_read32_def)

lemma meets_match:
  assumes "octo_hw (answer e)"
  shows "meets (fos_all_rings_match e ix) (\<lambda>k. \<forall>d<8. \<forall>r<2. \<forall>w<10.
     k (ring_reg d r w) = Some (publish_value (ix d r) (page_iova d r) w))"
proof -
  have read: "answer e h (ring_reg d r w) = publish_value (ix d r) (page_iova d r) w"
    if "\<forall>w<10. shadow h (ring_reg d r w) = Some (publish_value (ix d r) (page_iova d r) w)"
      "d < 8" "r < 2" "w < 10" for h d r w
    using card_reads(6)[OF assms that(2,3), of w h] that by (simp add: ring_word_def stored_at_def)
  have ring: "meets (and_m (and_m (read_is (bus_read (answer e)) (ring_base d r + 0x20) (ix d r))
                  (read_is (bus_read (answer e)) (ring_base d r + 0x24) (ix d r)))
           (all_m [0..<4] (\<lambda>page. do {
              lo \<leftarrow> bus_read (answer e) (ring_base d r + of_nat page * 8);
              hi \<leftarrow> bus_read (answer e) (ring_base d r + of_nat page * 8 + 4);
              State_Monad.return (join_64 lo hi = page_iova d r page) })))
      (\<lambda>k. \<forall>w<10. k (ring_reg d r w) = Some (publish_value (ix d r) (page_iova d r) w))"
    (is "meets _ ?R") if d: "d < 8" "r < 2" for d r
  proof -
    have a: "meets (read_is (bus_read (answer e)) (ring_base d r + 0x20) (ix d r)) ?R"
      "meets (read_is (bus_read (answer e)) (ring_base d r + 0x24) (ix d r)) ?R"
      unfolding ring_base_pages[OF d(1)]
      by (rule meets_read_is, use read[OF _ d, of _ 8] read[OF _ d, of _ 9] in
          \<open>simp add: publish_value_def\<close>)+
    have b: "meets (do {
              lo \<leftarrow> bus_read (answer e) (ring_base d r + of_nat page * 8);
              hi \<leftarrow> bus_read (answer e) (ring_base d r + of_nat page * 8 + 4);
              State_Monad.return (join_64 lo hi = page_iova d r page) }) ?R" if p: "page < 4" for page
    proof (rule meets_read_address, unfold ring_base_pages[OF d(1)] ring_reg_words(5))
      fix h
      assume "?R (shadow h)"
      from read[OF this d, of "2 * page"] read[OF this d, of "2 * page + 1"] p
      show "answer e h (ring_reg d r (2 * page)) = lower_32_bits (page_iova d r page) \<and>
          answer e h (ring_reg d r (2 * page + 1)) = upper_32_bits (page_iova d r page)"
        by (simp add: publish_value_def)
    qed
    show ?thesis
      by (rule meets_mono[OF meets_and_m[OF meets_and_m[OF a] meets_upt[OF b]]]) simp_all
  qed
  show ?thesis
    unfolding fos_all_rings_match_def Let_def fos_reads page_iova_def[symmetric]
    by (rule meets_mono[OF meets_upt[OF meets_upt[OF ring]]]) simp_all
qed

section \<open>The run\<close>

definition fos_holds :: "octo_session \<Rightarrow> octo_session \<Rightarrow> bool" where
  "fos_holds s t \<longleftrightarrow> fos_keep2 s t \<and> per_dsp_resets_ok t \<and>
     shadow (log t) DMA_CONTROL = Some DMA_ALL_DSPS \<and>
     shadow (log t) INTERRUPT_ENABLE = Some 0"

lemma meets_settled:
  assumes "octo_hw (answer e)"
  shows "meets (fos_settled e v) (\<lambda>k. stored_at k DMA_CONTROL DMA_COLD_RESET = v)"
  unfolding fos_settled_def fos_all_dsps_ready_def fos_reads
  by (rule meets_mono[OF meets_and_m[OF meets_dma[OF assms] meets_ready[OF assms]]]) simp

lemma pulse_restores_mask:
  assumes "i < 8"
  shows "DMA_ALL_DSPS AND NOT (push_bit (i + 1) 1) OR push_bit (i + 1) 1 = DMA_ALL_DSPS"
proof -
  have "i \<in> {0, 1, 2, 3, 4, 5, 6, 7}" using assms by auto
  then show ?thesis by (elim insertE emptyE) simp_all
qed

lemma fos_pulse_live:
  assumes "good_env e" "fos_holds s t" "i < 8"
  shows "wp (fos_pulse e i) (\<lambda>b u. b \<and> fos_holds s u) t"
proof -
  define en rs dis where
    "en = (push_bit (i + 1) 1 :: u32)" and "rs = (push_bit (i + 9) 1 :: u32)" and "dis = DMA_ALL_DSPS AND NOT en"
  have all: "dis OR en = DMA_ALL_DSPS"
    using pulse_restores_mask[OF assms(3)] by (simp only: dis_def en_def)
  have card: "octo_hw (answer e)" using assms(1) by (simp add: good_env_def)
  note quiet = never_interrupted[OF assms(1), of "log t"]
  note steps = wp_bind wp_return wp_gets wp_modify wp_fos_write wp_emit nanosleep_def
    interrupted_def if_not_P[OF quiet] not_True_eq_False if_False
  show ?thesis
    unfolding fos_pulse_def Let_def en_def[symmetric] rs_def[symmetric] dis_def[symmetric]
    unfolding steps
    apply (rule meets_wp[OF meets_settled[OF card]])
     apply (simp add: stored_at_def)
    apply (simp only: steps)
    apply (rule meets_wp[OF meets_settled[OF card]])
     apply (simp only: all, simp add: stored_at_def)
    using assms(2) all by (simp add: wp_simps fos_holds_def fos_keep2_def)
qed

lemma fos_exercise_live:
  assumes "good_env e" "fos_holds s s"
  shows "wp (fos_exercise e) (\<lambda>_. fos_holds s) s"
proof -
  have "wp (all_m [0..<8] (fos_pulse e)) (\<lambda>_. fos_holds s) s"
    by (rule wp_all_upt[where I = "\<lambda>_. fos_holds s"], rule assms(2),
        rule wp_mono[OF fos_pulse_live[OF assms(1)]]) auto
  then show ?thesis
    using assms(2) by (simp add: fos_exercise_def wp_simps)
qed

lemma fos_verify_live:
  assumes "good_env e" "fos_holds s s" "publication_ok s" "ram s = fos_fill_canaries m"
  shows "wp (fos_verify e) (\<lambda>_. exit_success) s"
proof -
  have card: "octo_hw (answer e)" using assms(1) by (simp add: good_env_def)
  have sh: "stored_at (shadow (log s)) DMA_CONTROL DMA_COLD_RESET = DMA_ALL_DSPS"
    "stored_at (shadow (log s)) INTERRUPT_ENABLE 0 = 0" "per_dsp_resets_ok s"
    using assms(2) by (simp_all add: fos_holds_def stored_at_def)
  show ?thesis
    unfolding fos_verify_def nanosleep_def wp_bind wp_emit wp_pages_unchanged wp_modify
      fos_all_dsps_ready_def fos_reads
    apply (rule meets_wp[OF meets_ready[OF card]], rule TrueI)
    apply (rule meets_wp[OF meets_interrupt[OF card]])
     apply (simp add: sh(2)[unfolded INTERRUPT_ENABLE_def])
    apply (rule meets_wp[OF meets_dma[OF card]])
     apply (simp add: sh(1)[simplified])
    apply (simp only: interrupted_def wp_gets wp_when_m wp_modify never_interrupted[OF assms(1)])
    using assms(3,4) sh(3) canaries_intact[OF assms(1), of 64 _ m] by (simp add: fos_fill_canaries_def)
qed

lemma fos_run_live:
  assumes "good_env e" "per_dsp_resets_ok s" "ram s = fos_fill_canaries m"
  shows "wp (fos_run e) (\<lambda>_. exit_success) s"
  unfolding fos_run_def wp_bind wp_gets wp_modify
proof (rule fos_startup_wp)
  have card: "octo_hw (answer e)" using assms(1) by (simp add: good_env_def)
  fix t
  assume t: "fos_keep s t" "writes (log t) = writes (log s) @ startup_stores (indexes t)"
  note sh = shadow_after[OF t(2)]
  show "wp (fos_all_rings_match e (indexes t)) (\<lambda>b u. wp (fos_exercise e)
      (\<lambda>_. wp (fos_verify e) (\<lambda>_. exit_success)) (u\<lparr>publication_ok := b\<rparr>)) t"
  proof (rule meets_wp[OF meets_match[OF card]])
    show "\<forall>d<8. \<forall>r<2. \<forall>w<10. shadow (log t) (ring_reg d r w) =
        Some (publish_value (indexes t d r) (page_iova d r) w)"
      by (simp add: sh startup_ring map_add_find_right)
  next
    fix rs :: history
    assume rs: "reads rs"
    let ?u = "t\<lparr>log := rs @ log t, publication_ok := True\<rparr>"
    have u: "fos_holds ?u ?u"
      using rs t(1) assms(2) startup_dma startup_interrupt
      by (simp add: fos_holds_def fos_keep2_def fos_keep_def sh map_add_find_right)
    show "wp (fos_exercise e) (\<lambda>_. wp (fos_verify e) (\<lambda>_. exit_success)) ?u"
    proof (rule wp_mono[OF fos_exercise_live[OF assms(1) u]], rule fos_verify_live[OF assms(1)])
      fix v
      assume v: "fos_holds ?u v"
      show "fos_holds v v" using v by (simp add: fos_holds_def fos_keep2_def)
      show "publication_ok v" using v by (simp add: fos_holds_def fos_keep2_def)
      show "ram v = fos_fill_canaries m"
        using v t(1) assms(3) by (simp add: fos_holds_def fos_keep2_def fos_keep_def)
    qed
  qed
qed

definition fos_valid_arguments :: "string list \<Rightarrow> bool" where
  "fos_valid_arguments argv \<longleftrightarrow> length argv = 1 \<or> fos_wants_resets argv"

lemma fos_arguments_live:
  assumes "fos_valid_arguments argv"
  shows "wp (fos_arguments argv) (\<lambda>ok t. ok \<and> per_dsp_resets_ok t \<and> writes (log t) = []) fos_locals"
  using assms by (auto simp: fos_arguments_def fos_valid_arguments_def fos_wants_resets_def check_def
      wp_simps fos_locals_def)

lemma fos_setup_live:
  assumes "good_env e"
  shows "wp (fos_setup e) (\<lambda>ok t. ok \<and> writes (log t) = writes (log s) \<and>
     per_dsp_resets_ok t = per_dsp_resets_ok s \<and> ram t = fos_fill_canaries (ram s)) s"
  using assms by (simp add: good_env_def fos_setup_def open_container_def open_group_def
      attach_group_def configure_iommu_def allocate_memory_def store_ram_def map_iova_def
      open_device_def map_bar_def check_def fos_device_valid_def wp_simps)

lemma meets_precondition:
  assumes "octo_hw (answer e)"
  shows "meets (fos_precondition e) (\<lambda>k. k = Map.empty)"
  unfolding fos_precondition_def fos_all_ring_words_zero_def fos_all_dsps_ready_def fos_reads
  by (rule meets_mono[OF meets_and_m[OF meets_rings[OF assms] meets_and_m[OF meets_ready[OF assms]
      meets_and_m[OF meets_dma[OF assms] meets_and_m[OF meets_interrupt[OF assms]
      meets_and_m[OF meets_identity[OF assms]]]]]]])
    (simp add: ring_word_def stored_at_def)

lemma fos_attempt_live:
  assumes "good_env e" "fos_valid_arguments argv"
  shows "wp (fos_attempt e argv) (\<lambda>_. exit_success) fos_locals"
proof -
  have card: "octo_hw (answer e)" using assms(1) by (simp add: good_env_def)
  have run: "wp (fos_precondition e) (\<lambda>ok. wp (if ok then fos_run e else State_Monad.return ())
      (\<lambda>_. exit_success)) t"
    if t: "writes (log t) = []" "per_dsp_resets_ok t" "ram t = fos_fill_canaries m" for t m
  proof (rule meets_wp[OF meets_precondition[OF card]])
    show "shadow (log t) = Map.empty" using t(1) by (simp add: shadow_map_of)
  next
    fix rs :: history
    assume "reads rs"
    show "wp (if True then fos_run e else State_Monad.return ()) (\<lambda>_. exit_success)
        (t\<lparr>log := rs @ log t\<rparr>)"
      unfolding if_True by (rule fos_run_live[OF assms(1)]) (use t in simp_all)
  qed
  show ?thesis
    unfolding fos_attempt_def wp_bind wp_and_m
    by (rule wp_mono[OF fos_arguments_live[OF assms(2)]])
      (auto intro!: wp_mono[OF fos_setup_live[OF assms(1)]] run)
qed

section \<open>Cleanup and exit\<close>

definition fos_cold :: "octo_session \<Rightarrow> bool" where
  "fos_cold s \<longleftrightarrow> exit_success s \<and> \<not> device_fd s < 0 \<and> bar_ok s \<and>
     shadow (log s) DMA_CONTROL = Some DMA_COLD_RESET \<and>
     (\<forall>d<8. \<forall>r<2. \<forall>w<10. shadow (log s) (ring_reg d r w) = Some 0)"

lemma meets_zero:
  assumes "octo_hw (answer e)"
  shows "meets (fos_all_ring_words_zero e) (\<lambda>k. \<forall>d<8. \<forall>r<2. \<forall>w<10. k (ring_reg d r w) = Some 0)"
  unfolding fos_all_ring_words_zero_def fos_reads
  by (rule meets_mono[OF meets_rings[OF assms]]) (simp add: ring_word_def stored_at_def)

lemma fos_restore_live:
  assumes "good_env e" "exit_success s" "startup_begun s" "bar_ok s" "\<not> device_fd s < 0"
  shows "wp (fos_restore e) (\<lambda>_. fos_cold) s"
  unfolding fos_restore_def wp_when_m if_P[OF conjI[OF assms(3,4)]] wp_bind[of "restore_card _"]
proof (rule stores_wp[OF fos_port.stores_restore])
  have card: "octo_hw (answer e)" using assms(1) by (simp add: good_env_def)
  fix t
  assume t: "log t = rev (map (\<lambda>(a, v). Wr a v) restore_stores) @ log s"
    and rest: "t\<lparr>log := [], mmio_write_count := 0\<rparr> = s\<lparr>log := [], mmio_write_count := 0\<rparr>"
  have "writes (log t) = writes (log s) @ restore_stores" by (simp add: t writes_rev_stores)
  note sh = shadow_after[OF this]
  have dma: "shadow (log t) DMA_CONTROL = Some DMA_COLD_RESET"
    using restore_dma by (simp add: sh map_add_find_right)
  have rings: "\<forall>d<8. \<forall>r<2. \<forall>w<10. shadow (log t) (ring_reg d r w) = Some 0"
    by (simp add: sh map_add_find_right restore_ring)
  have keep: "fos_keep s t" "device_fd t = device_fd s" "bar_ok t = bar_ok s"
    using port_rest[OF rest] by simp_all
  show "wp (do { b \<leftarrow> and_m (fos_all_ring_words_zero e)
                       (read_is (fos_mmio_read32 e) DMA_CONTROL DMA_COLD_RESET);
           modify (\<lambda>s. s\<lparr>restored := b\<rparr>);
           if b then State_Monad.return () else fail }) (\<lambda>_. fos_cold) t"
    unfolding wp_bind fos_reads
  proof (rule meets_wp[OF meets_and_m[OF meets_zero[OF card] meets_dma[OF card]]])
    show "(\<forall>d<8. \<forall>r<2. \<forall>w<10. shadow (log t) (ring_reg d r w) = Some 0) \<and>
        stored_at (shadow (log t)) DMA_CONTROL DMA_COLD_RESET = DMA_COLD_RESET"
      using dma rings by (simp add: stored_at_def)
  next
    fix rs :: history
    assume "reads rs"
    then show "wp (modify (restored_update (\<lambda>_. True))) (\<lambda>_. wp (if True then State_Monad.return ()
        else fail) (\<lambda>_. fos_cold)) (t\<lparr>log := rs @ log t\<rparr>)"
      using dma rings keep assms(2,4,5) by (simp add: wp_simps fos_cold_def fos_keep_def)
  qed
qed

lemma fos_reset_live:
  assumes "good_env e" "fos_cold s"
  shows "wp (fos_reset e) (\<lambda>_. exit_success) s"
proof -
  have card: "octo_hw (answer e)" using assms(1) by (simp add: good_env_def)
  have r: "device_reset e = 0" using assms(1) by (simp add: good_env_def)
  have s: "\<not> device_fd s < 0 \<and> bar_ok s" using assms(2) by (simp add: fos_cold_def)
  show ?thesis
    unfolding fos_reset_def wp_when_m if_P[OF s] reset_device_def wp_bind wp_modify wp_emit wp_return
      fos_all_dsps_ready_def fos_reads r
    by (rule meets_wp[OF meets_and_m[OF meets_check meets_and_m[OF meets_zero[OF card]
            meets_and_m[OF meets_dma[OF card] meets_ready[OF card]]]]])
      (use assms(2) in \<open>simp_all add: fos_cold_def stored_at_def wp_simps\<close>)
qed

lemma fos_live:
  assumes "good_env e" "unmap_ok e (64 * 4096)" "fos_valid_arguments argv"
  shows "exit_success (fos_final e argv)"
proof -
  have "wp (do { fos_attempt e argv; fos_cleanup e; fos_report; teardown e (64 * 4096) })
     (\<lambda>_. exit_success) fos_locals"
    unfolding wp_bind fos_report_def wp_modify fos_cleanup_def
  proof (rule wp_mono[OF wp_conjI[OF fos_attempt_passed fos_attempt_live[OF assms(1,3)]]])
    fix s :: octo_session
    assume "fos_passed e (fos_wants_resets argv) s \<and> exit_success s"
    then have s: "exit_success s" "startup_begun s" "bar_ok s" "\<not> device_fd s < 0"
      by (auto simp: fos_passed_def)
    show "wp (fos_restore e) (\<lambda>_. wp (fos_reset e) (\<lambda>_ t. wp (teardown e (64 * 4096))
        (\<lambda>_. exit_success) (t\<lparr>stdout := stdout t @ fos_report_lines t\<rparr>))) s"
      by (rule wp_mono[OF fos_restore_live[OF assms(1) s]],
          rule wp_mono[OF fos_reset_live[OF assms(1)]], assumption,
          rule preservesD[OF teardown_live[OF assms(2)]]) simp
  qed
  then show ?thesis by (simp only: fos_main_effects)
qed

end
