(* ===== verification/Official_Ring.thy ===== *)
theory Official_Ring
  imports Vfio_Session
begin

text \<open>
  \<^verbatim>\<open>tools/vfio_official_ring_init.c\<close> (experiment 011): publish the two rings of DSP 0 in the
  order of the vendor's initialiser, read everything back, clear the rings and reset the device,
  with every DMA engine off throughout. The report is printed after the teardown; a wrong
  command line returns before anything is opened.
\<close>

section \<open>State and register access\<close>

record ring_session = session +
  rings_published :: bool
  publication_ok :: bool
  pages_ok :: bool
  ready_ok :: bool
  dma_unchanged :: bool
  restore_ok :: bool
  reset_called :: bool
  reset_recovered :: bool
  command_index_raw :: u32
  response_index_raw :: u32
  command_index :: u32
  response_index :: u32

definition ori_locals :: ring_session where
  "ori_locals = \<lparr>log = [], container_fd = -1, group_fd = -1, device_fd = -1,
     container_set = False, dma_mapped = False, memory_ok = False, bar_ok = False,
     ram = (\<lambda>_. 0), exit_success = False, stdout = [],
     rings_published = False, publication_ok = False, pages_ok = False, ready_ok = False,
     dma_unchanged = False, restore_ok = False, reset_called = False, reset_recovered = False,
     command_index_raw = 0, response_index_raw = 0, command_index = 0, response_index = 0\<rparr>"

definition ori_mmio_read32 :: "vfio_env \<Rightarrow> u32 \<Rightarrow> (ring_session, u32) state" where
  "ori_mmio_read32 e offset = bus_read (answer e) offset"

definition ori_mmio_write32 :: "u32 \<Rightarrow> u32 \<Rightarrow> (ring_session, unit) state" where
  "ori_mmio_write32 offset v = bus_write offset v"

definition ori_all_ring_words_zero :: "vfio_env \<Rightarrow> (ring_session, bool) state" where
  "ori_all_ring_words_zero e = scan_rings_zero (ori_mmio_read32 e)"

definition ori_all_dsps_ready :: "vfio_env \<Rightarrow> (ring_session, bool) state" where
  "ori_all_dsps_ready e = scan_ready (ori_mmio_read32 e)"

definition write_descriptor :: "u32 \<Rightarrow> u64 \<Rightarrow> (ring_session, unit) state" where
  "write_descriptor offset iova = store_address ori_mmio_write32 offset iova"

definition read_descriptor :: "vfio_env \<Rightarrow> u32 \<Rightarrow> (ring_session, u64) state" where
  "read_descriptor e offset =
     do { lo \<leftarrow> ori_mmio_read32 e offset;
          hi \<leftarrow> ori_mmio_read32 e (offset + 4);
          State_Monad.return (join_64 lo hi) }"

definition bounded_hardware_index :: "vfio_env \<Rightarrow> u32 \<Rightarrow> (ring_session, u32 \<times> u32) state" where
  "bounded_hardware_index e base =
     do { raw \<leftarrow> ori_mmio_read32 e (base + 0x28);
          State_Monad.return (raw, if raw < 1024 then raw else 0) }"

definition ori_initialize_ring :: "u32 \<Rightarrow> u64 \<Rightarrow> u32 \<Rightarrow> (ring_session, unit) state" where
  "ori_initialize_ring base first_iova index =
     do { ori_mmio_write32 (base + 0x24) index;
          ori_mmio_write32 (base + 0x20) index;
          for_each [0..<4] (\<lambda>page.
            write_descriptor (base + of_nat page * 8) (first_iova + of_nat page * 4096)) }"

definition ring_matches :: "vfio_env \<Rightarrow> u32 \<Rightarrow> u64 \<Rightarrow> u32 \<Rightarrow> (ring_session, bool) state" where
  "ring_matches e base first_iova index =
     and_m (and_m (read_is (ori_mmio_read32 e) (base + 0x20) index)
                  (read_is (ori_mmio_read32 e) (base + 0x24) index))
           (all_m [0..<4] (\<lambda>page.
              do { v \<leftarrow> read_descriptor e (base + of_nat page * 8);
                   State_Monad.return (v = first_iova + of_nat page * 4096) }))"

definition expected_word :: "u32 \<Rightarrow> u32 \<Rightarrow> nat \<Rightarrow> nat \<Rightarrow> nat \<Rightarrow> u32" where
  "expected_word ci ri dsp ring field =
     (if dsp = 0 \<and> field < 8 then
        (let iova = TEST_IOVA + of_nat (ring * 4 + field div 2) * 4096 in
         if field mod 2 \<noteq> 0 then upper_32_bits iova else lower_32_bits iova)
      else if dsp = 0 \<and> (field = 8 \<or> field = 9) then (if ring \<noteq> 0 then ri else ci)
      else 0)"

definition only_dsp0_rings_published ::
  "vfio_env \<Rightarrow> u32 \<Rightarrow> u32 \<Rightarrow> (ring_session, bool) state" where
  "only_dsp0_rings_published e ci ri =
     all_m [0..<8] (\<lambda>dsp. all_m [0..<2] (\<lambda>ring. all_m [0..<16] (\<lambda>field.
       if dsp = 0 \<and> field = 10 then State_Monad.return True
       else read_is (ori_mmio_read32 e) (ring_base dsp ring + of_nat field * 4)
              (expected_word ci ri dsp ring field))))"

definition ori_fill_canaries :: "(nat \<Rightarrow> u8) \<Rightarrow> nat \<Rightarrow> u8" where
  "ori_fill_canaries = fold (\<lambda>page. memset (page * 4096) (of_nat (0x40 + page)) 4096) [0..<8]"

definition ori_pages_unchanged :: "vfio_env \<Rightarrow> (ring_session, bool) state" where
  "ori_pages_unchanged e = all_m [0..<8] (\<lambda>page. all_m [0..<4096] (\<lambda>byte. do {
     b \<leftarrow> load_byte e (page * 4096 + byte);
     State_Monad.return (b = of_nat (0x40 + page)) }))"

definition clear_dsp0_rings :: "vfio_env \<Rightarrow> (ring_session, bool) state" where
  "clear_dsp0_rings e =
     do { for_each [0..<4] (\<lambda>page. do {
            write_descriptor (DSP0_CMD_BASE + of_nat page * 8) 0;
            write_descriptor (DSP0_RESP_BASE + of_nat page * 8) 0 });
          ori_mmio_write32 (DSP0_CMD_BASE + 0x24) 0;
          ori_mmio_write32 (DSP0_CMD_BASE + 0x20) 0;
          ori_mmio_write32 (DSP0_RESP_BASE + 0x24) 0;
          ori_mmio_write32 (DSP0_RESP_BASE + 0x20) 0;
          ori_all_ring_words_zero e }"

section \<open>The program\<close>

definition ori_device_valid :: "vfio_env \<Rightarrow> bool" where
  "ori_device_valid e \<longleftrightarrow>
     \<not> device_info e < 0 \<and> device_is_pci e \<and> device_resets e \<and> \<not> region_info e < 0 \<and>
     region_size e = BAR0_SIZE \<and> region_read e \<and> region_write e \<and> region_mmap e"

definition ori_setup :: "vfio_env \<Rightarrow> (ring_session, bool) state" where
  "ori_setup e =
     and_m (check (sys_page_size e = 4096))
    (and_m (open_container e)
    (and_m (open_group e)
    (and_m (attach_group e)
    (and_m (configure_iommu e 4096)
    (and_m (allocate_memory e)
    (and_m (do { store_ram ori_fill_canaries; check True })
    (and_m (map_iova e)
    (and_m (open_device e (ori_device_valid e))
           (map_bar e)))))))))"

definition ori_precondition :: "vfio_env \<Rightarrow> (ring_session, bool) state" where
  "ori_precondition e =
     and_m (ori_all_ring_words_zero e)
    (and_m (ori_all_dsps_ready e)
           (read_is (ori_mmio_read32 e) DMA_CONTROL DMA_COLD_RESET))"

definition RESPONSE_IOVA :: u64 where "RESPONSE_IOVA = TEST_IOVA + 4 * 4096"

definition ori_publish :: "vfio_env \<Rightarrow> (ring_session, unit) state" where
  "ori_publish e =
     do { (raw, index) \<leftarrow> bounded_hardware_index e DSP0_CMD_BASE;
          modify (\<lambda>s. s\<lparr>command_index_raw := raw, command_index := index\<rparr>);
          (raw, index) \<leftarrow> bounded_hardware_index e DSP0_RESP_BASE;
          modify (\<lambda>s. s\<lparr>response_index_raw := raw, response_index := index\<rparr>);
          ci \<leftarrow> gets command_index;
          ori_initialize_ring DSP0_CMD_BASE TEST_IOVA ci;
          ri \<leftarrow> gets response_index;
          ori_initialize_ring DSP0_RESP_BASE RESPONSE_IOVA ri;
          modify (\<lambda>s. s\<lparr>rings_published := True\<rparr>) }"

definition ori_check_publication :: "vfio_env \<Rightarrow> u32 \<Rightarrow> u32 \<Rightarrow> (ring_session, bool) state" where
  "ori_check_publication e ci ri =
     and_m (and_m (ring_matches e DSP0_CMD_BASE TEST_IOVA ci)
                  (ring_matches e DSP0_RESP_BASE RESPONSE_IOVA ri))
           (only_dsp0_rings_published e ci ri)"

definition ori_verify :: "vfio_env \<Rightarrow> u32 \<Rightarrow> u32 \<Rightarrow> (ring_session, unit) state" where
  "ori_verify e ci ri =
     do { nanosleep 250000000;
          b \<leftarrow> ori_pages_unchanged e;
          modify (\<lambda>s. s\<lparr>pages_ok := b\<rparr>);
          b \<leftarrow> ori_all_dsps_ready e;
          modify (\<lambda>s. s\<lparr>ready_ok := b\<rparr>);
          b \<leftarrow> read_is (ori_mmio_read32 e) DMA_CONTROL DMA_COLD_RESET;
          modify (\<lambda>s. s\<lparr>dma_unchanged := b\<rparr>);
          stop \<leftarrow> interrupted e;
          bad \<leftarrow> gets (\<lambda>s. stop \<or> \<not> pages_ok s \<or> \<not> ready_ok s \<or> \<not> dma_unchanged s);
          ok \<leftarrow> and_m (check (\<not> bad)) (only_dsp0_rings_published e ci ri);
          if ok then modify (\<lambda>s. s\<lparr>exit_success := True\<rparr>) else State_Monad.return () }"

definition ori_run :: "vfio_env \<Rightarrow> (ring_session, unit) state" where
  "ori_run e =
     do { ori_publish e;
          ci \<leftarrow> gets command_index;
          ri \<leftarrow> gets response_index;
          b \<leftarrow> ori_check_publication e ci ri;
          modify (\<lambda>s. s\<lparr>publication_ok := b\<rparr>);
          if b then ori_verify e ci ri else State_Monad.return () }"

definition ori_attempt :: "vfio_env \<Rightarrow> (ring_session, unit) state" where
  "ori_attempt e =
     do { ok \<leftarrow> and_m (ori_setup e) (ori_precondition e);
          if ok then ori_run e else State_Monad.return () }"

definition ori_restore :: "vfio_env \<Rightarrow> (ring_session, unit) state" where
  "ori_restore e = when_m (\<lambda>s. rings_published s \<and> bar_ok s)
     (do { b \<leftarrow> clear_dsp0_rings e;
           modify (\<lambda>s. s\<lparr>restore_ok := b\<rparr>);
           if b then State_Monad.return () else fail })"

definition ori_reset :: "vfio_env \<Rightarrow> (ring_session, unit) state" where
  "ori_reset e = when_m (\<lambda>s. \<not> device_fd s < 0 \<and> bar_ok s)
     (do { modify (\<lambda>s. s\<lparr>reset_called := True\<rparr>);
           done \<leftarrow> reset_device e;
           b \<leftarrow> and_m (check done)
               (and_m (ori_all_ring_words_zero e)
               (and_m (read_is (ori_mmio_read32 e) DMA_CONTROL DMA_COLD_RESET)
                      (ori_all_dsps_ready e)));
           modify (\<lambda>s. s\<lparr>reset_recovered := b\<rparr>);
           if b then State_Monad.return () else fail })"

definition ori_cleanup :: "vfio_env \<Rightarrow> (ring_session, unit) state" where
  "ori_cleanup e = do { ori_restore e; ori_reset e }"

definition ori_report_lines :: "bool \<Rightarrow> ring_session \<Rightarrow> string list" where
  "ori_report_lines stop s =
     [''{'',
      ''  \"experiment\": \"011-official-ring-initializer\",'',
      json_number ''mapped_pages'' 8,
      json_word ''command_hardware_index_raw'' (command_index_raw s),
      json_number ''command_synchronized_index'' (unat (command_index s)),
      json_word ''response_hardware_index_raw'' (response_index_raw s),
      json_number ''response_synchronized_index'' (unat (response_index s)),
      json_flag ''rings_published'' (rings_published s),
      json_number ''descriptor_words_written'' (if rings_published s then 16 else 0),
      json_number ''ring_control_writes'' (if rings_published s then 4 else 0),
      json_number ''dma_control_writes'' 0,
      json_number ''interrupt_register_writes'' 0,
      json_number ''command_entries_submitted'' 0,
      json_flag ''publication_readback_ok'' (publication_ok s),
      json_flag ''pages_unchanged'' (pages_ok s),
      json_flag ''all_dsps_ready'' (ready_ok s),
      json_flag ''dma_control_unchanged'' (dma_unchanged s),
      json_flag ''rings_restored_to_zero'' (restore_ok s),
      json_flag ''vfio_device_reset_called'' (reset_called s),
      json_flag ''reset_recovered'' (reset_recovered s),
      json_flag ''interrupted'' stop,
      ''  \"success\": '' @ (if exit_success s then ''true'' else ''false''),
      ''}'']"

definition ori_report :: "vfio_env \<Rightarrow> (ring_session, unit) state" where
  "ori_report e =
     do { stop \<leftarrow> interrupted e;
          modify (\<lambda>s. s\<lparr>stdout := stdout s @ ori_report_lines stop s\<rparr>) }"

definition ori_main :: "vfio_env \<Rightarrow> string list \<Rightarrow> (ring_session, bool) state" where
  "ori_main e argv =
     (if length argv \<noteq> 1 then State_Monad.return False
      else do {
        ori_attempt e;
        ori_cleanup e;
        teardown e (8 * 4096);
        ori_report e;
        gets exit_success })"

definition ori_final :: "vfio_env \<Rightarrow> string list \<Rightarrow> ring_session" where
  "ori_final e argv = snd (run_state (ori_main e argv) ori_locals)"

interpretation ori_reader: mmio_reader "ori_mmio_read32 e" log
    "\<lambda>s :: ring_session. s\<lparr>log := []\<rparr>" "answer e" for e
  by unfold_locales (simp_all add: ori_mmio_read32_def)

interpretation ori_port: mmio_port "ori_mmio_read32 e" ori_mmio_write32 log
    "\<lambda>s :: ring_session. s\<lparr>log := []\<rparr>" "answer e" for e
  by unfold_locales (simp_all add: ori_mmio_read32_def ori_mmio_write32_def)

section \<open>The session contract\<close>

lemma ori_initialize_publish: "ori_initialize_ring base first ix = publish_ring ori_mmio_write32 base first ix"
  by (simp add: ori_initialize_ring_def publish_ring_def write_descriptor_def)

lemmas ori_defs = ori_all_ring_words_zero_def ori_all_dsps_ready_def

lemma ori_setup_to: "setup_to {} {} (ori_setup e) whole"
  unfolding ori_setup_def whole_def by (rule setup_intros | simp)+

lemma ori_idle_rd: "keeps_rd (idle whole) (ori_mmio_read32 e)"
  unfolding keeps_rd_def ori_mmio_read32_def by (intro allI impI idle_read) simp_all

lemma ring_reg_not_control: "d < 8 \<Longrightarrow> r < 2 \<Longrightarrow> w < 16 \<Longrightarrow> ring_reg d r w \<noteq> 0x2200"
  by (rule ring_reg_not_global) simp_all

lemma ori_idle_wr: "keeps_ring_wr (idle whole) ori_mmio_write32"
  unfolding keeps_ring_wr_def ori_mmio_write32_def
  by (intro allI impI idle_write) (simp_all add: ring_reg_not_control)

lemmas ori_keeps = preserves_scan_rings[OF ori_idle_rd] preserves_scan_ready[OF ori_idle_rd]
  preserves_read_is[OF ori_idle_rd] keeps_rdD[OF ori_idle_rd] preserves_publish[OF ori_idle_wr]

lemma ori_precondition_keeps: "preserves (idle whole) (ori_precondition e)"
  unfolding ori_precondition_def ori_defs by (intro preserves_intros ori_keeps) simp_all

lemma dsp0_in_bar:
  assumes "r < 2"
  shows "in_bar (ring_base 0 r + 0x20)" "in_bar (ring_base 0 r + 0x24)" "in_bar (ring_base 0 r + 0x28)"
    "p < 4 \<Longrightarrow> in_bar (ring_base 0 r + of_nat p * 8)" "p < 4 \<Longrightarrow> in_bar (ring_base 0 r + of_nat p * 8 + 4)"
  using assms by (simp_all add: ring_base_reg ring_reg_words)

lemma ori_publication_keeps: "preserves (idle whole) (ori_check_publication e ci ri)"
  unfolding ori_check_publication_def ring_matches_def only_dsp0_rings_published_def
    read_descriptor_def dsp0_bases
  by (intro preserves_intros ori_keeps) (simp_all add: dsp0_in_bar ring_base_word)

lemma only_dsp0_keeps: "preserves (idle whole) (only_dsp0_rings_published e ci ri)"
  unfolding only_dsp0_rings_published_def
  by (intro preserves_intros ori_keeps) (simp_all add: ring_base_word)

lemma ori_publish_keeps: "preserves (idle whole) (ori_publish e)"
  unfolding ori_publish_def bounded_hardware_index_def ori_initialize_publish dsp0_bases
  by (auto intro!: preserves_intros ori_keeps idle_local inside_local simp: dsp0_in_bar)

lemma ori_verify_keeps: "preserves (idle whole) (ori_verify e ci ri)"
  unfolding ori_verify_def ori_pages_unchanged_def ori_defs check_def
  by (intro preserves_intros ori_keeps only_dsp0_keeps idle_local inside_local) simp_all

lemma ori_run_keeps: "preserves (idle whole) (ori_run e)"
  unfolding ori_run_def
  by (intro preserves_intros ori_publish_keeps ori_publication_keeps ori_verify_keeps idle_local
      inside_local) simp_all

end
