(* ===== verification/Official_Ring_Results.thy ===== *)
theory Official_Ring_Results
  imports Official_Ring
begin

text \<open>
  What \<^verbatim>\<open>tools/vfio_official_ring_init.c\<close> stores on every run, what its exit status 0 vouches
  for, and that the session is released with every engine off throughout.
\<close>

section \<open>The stores and the evidence, as data\<close>

definition dsp0_iova :: "nat \<Rightarrow> nat \<Rightarrow> u64" where
  "dsp0_iova r p = (if r = 0 then TEST_IOVA else RESPONSE_IOVA) + of_nat p * 4096"

definition dsp0_publish_stores :: "u32 \<Rightarrow> u32 \<Rightarrow> (u32 \<times> u32) list" where
  "dsp0_publish_stores i j =
     publish_stores 0 0 i (dsp0_iova 0) @ publish_stores 0 1 j (dsp0_iova 1)"

definition dsp0_clear_stores :: "(u32 \<times> u32) list" where
  "dsp0_clear_stores =
     concat (map (\<lambda>p. [(ring_reg 0 0 (2 * p), 0), (ring_reg 0 0 (2 * p + 1), 0),
                       (ring_reg 0 1 (2 * p), 0), (ring_reg 0 1 (2 * p + 1), 0)]) [0..<4]) @
     [(ring_reg 0 0 9, 0), (ring_reg 0 0 8, 0), (ring_reg 0 1 9, 0), (ring_reg 0 1 8, 0)]"

text \<open>Every ring word but the two hardware indexes.\<close>

definition dsp0_seen :: "u32 \<Rightarrow> u32 \<Rightarrow> (u32 \<times> (u32 \<Rightarrow> bool)) set" where
  "dsp0_seen ci ri = {(ring_reg d r w, \<lambda>v. v = expected_word ci ri d r w) | d r w.
     d < 8 \<and> r < 2 \<and> w < 16 \<and> \<not> (d = 0 \<and> w = 10)}"

definition idle_seen :: "(u32 \<times> (u32 \<Rightarrow> bool)) set" where
  "idle_seen = ready_seen \<union> {(DMA_CONTROL, \<lambda>v. v = DMA_COLD_RESET)}"

definition cold_rings_seen :: "(u32 \<times> (u32 \<Rightarrow> bool)) set" where
  "cold_rings_seen = rings_seen (\<lambda>_ _ _ v. v = 0)"

abbreviation "ori_rest \<equiv> \<lambda>s :: ring_session. s\<lparr>log := []\<rparr>"

lemma only_dsp0_checks:
  "checks log ori_rest (only_dsp0_rings_published e ci ri) (dsp0_seen ci ri)"
  unfolding only_dsp0_rings_published_def dsp0_seen_def by (rule ori_reader.checks_rings_but)

lemma ring_matches_checks: "\<exists>E. checks log ori_rest (ring_matches e base first ix) E"
proof -
  have addr: "checks log ori_rest (do { v \<leftarrow> read_descriptor e a; State_Monad.return (v = x) })
      {(a, \<lambda>v. v = lower_32_bits x), (a + 4, \<lambda>v. v = upper_32_bits x)}" for a x
    using ori_reader.checks_read_address[of e a "a + 4" x] by (simp add: read_descriptor_def)
  show ?thesis
    unfolding ring_matches_def
    by (rule exI, rule checks_and_m, rule checks_and_m, rule ori_reader.checks_read_is,
        rule ori_reader.checks_read_is, rule checks_all_m, rule addr)
qed

lemma ori_publication_checks: "checks log ori_rest (ori_check_publication e ci ri) (dsp0_seen ci ri)"
proof -
  obtain A B where
    "checks log ori_rest (ring_matches e DSP0_CMD_BASE TEST_IOVA ci) A"
    "checks log ori_rest (ring_matches e DSP0_RESP_BASE RESPONSE_IOVA ri) B"
    using ring_matches_checks by metis
  then have "checks log ori_rest (ori_check_publication e ci ri) ((A \<union> B) \<union> dsp0_seen ci ri)"
    unfolding ori_check_publication_def by (intro checks_and_m only_dsp0_checks)
  then show ?thesis by (rule checks_mono) simp
qed

lemma ori_precondition_checks:
  "checks log ori_rest (ori_precondition e) (cold_rings_seen \<union> idle_seen)"
  unfolding ori_precondition_def ori_defs cold_rings_seen_def idle_seen_def
  by (intro checks_and_m ori_reader.checks_rings ori_reader.checks_ready ori_reader.checks_read_is)

section \<open>The run\<close>

lemma ori_stores_clear:
  "stores log ori_rest (do {
     for_each [0..<4] (\<lambda>page. do {
       write_descriptor (DSP0_CMD_BASE + of_nat page * 8) 0;
       write_descriptor (DSP0_RESP_BASE + of_nat page * 8) 0 });
     ori_mmio_write32 (DSP0_CMD_BASE + 0x24) 0;
     ori_mmio_write32 (DSP0_CMD_BASE + 0x20) 0;
     ori_mmio_write32 (DSP0_RESP_BASE + 0x24) 0;
     ori_mmio_write32 (DSP0_RESP_BASE + 0x20) 0 }) dsp0_clear_stores"
proof -
  let ?a = "\<lambda>r p. [(ring_base 0 r + of_nat p * 8, lower_32_bits 0),
    (ring_base 0 r + of_nat p * 8 + 4, upper_32_bits 0)]"
  have "stores log ori_rest (do {
     for_each [0..<4] (\<lambda>page. do {
       write_descriptor (ring_base 0 0 + of_nat page * 8) 0;
       write_descriptor (ring_base 0 (Suc 0) + of_nat page * 8) 0 });
     ori_mmio_write32 (ring_base 0 0 + 0x24) 0;
     ori_mmio_write32 (ring_base 0 0 + 0x20) 0;
     ori_mmio_write32 (ring_base 0 (Suc 0) + 0x24) 0;
     ori_mmio_write32 (ring_base 0 (Suc 0) + 0x20) 0 })
     (concat (map (\<lambda>p. ?a 0 p @ ?a (Suc 0) p) [0..<4]) @ [(ring_base 0 0 + 0x24, 0)] @
       [(ring_base 0 0 + 0x20, 0)] @ [(ring_base 0 (Suc 0) + 0x24, 0)] @ [(ring_base 0 (Suc 0) + 0x20, 0)])"
    unfolding write_descriptor_def by (intro stores_intros ori_port.stores_wr ori_port.stores_address)
  then show ?thesis
    unfolding dsp0_bases
    by (simp add: dsp0_clear_stores_def ring_base_reg ring_reg_words lower_32_bits_def upper_32_bits_def)
qed

lemma ori_publish_wp:
  assumes "\<And>t i j. i < 1024 \<Longrightarrow> j < 1024 \<Longrightarrow> extends (log s) t \<Longrightarrow>
      writes (log t) = writes (log s) @ dsp0_publish_stores i j \<Longrightarrow>
      command_index t = i \<Longrightarrow> response_index t = j \<Longrightarrow> rings_published t \<Longrightarrow> ram t = ram s \<Longrightarrow>
      exit_success t = exit_success s \<Longrightarrow> Q () t"
  shows "wp (ori_publish e) Q s"
proof -
  have second: "wp (do { ri \<leftarrow> gets response_index;
        ori_initialize_ring DSP0_RESP_BASE RESPONSE_IOVA ri;
        modify (\<lambda>s. s\<lparr>rings_published := True\<rparr>) }) Q t"
    if t: "writes (log t) = writes (log s) @ publish_stores 0 0 i (dsp0_iova 0)" "extends (log s) t"
      "command_index t = i" "response_index t < 1024" "i < 1024" "ram t = ram s"
      "exit_success t = exit_success s" for t i
    unfolding ori_initialize_publish dsp0_bases wp_bind wp_gets wp_modify
  proof (rule stores_wp[OF ori_port.stores_publish], simp)
    fix u
    assume u: "log u = rev (map (\<lambda>(a, v). Wr a v) (publish_stores 0 (Suc 0) (response_index t)
        (\<lambda>p. RESPONSE_IOVA + of_nat p * 4096))) @ log t" and rest: "u\<lparr>log := []\<rparr> = t\<lparr>log := []\<rparr>"
    have iova: "(\<lambda>p. RESPONSE_IOVA + of_nat p * 4096) = dsp0_iova 1"
      by (simp add: dsp0_iova_def fun_eq_iff)
    have same: "command_index u = command_index t" "response_index u = response_index t"
      "ram u = ram t" "exit_success u = exit_success t"
      using rest by (cases t; cases u; simp)+
    show "Q () (u\<lparr>rings_published := True\<rparr>)"
    proof (rule assms)
      show "extends (log s) (u\<lparr>rings_published := True\<rparr>)"
        using t(2) u by (auto simp: extends_def)
      show "writes (log (u\<lparr>rings_published := True\<rparr>)) =
          writes (log s) @ dsp0_publish_stores i (response_index t)"
        using t(1) u by (simp add: writes_rev_stores dsp0_publish_stores_def iova)
    qed (use t same in simp_all)
  qed
  have first: "wp (do { ci \<leftarrow> gets command_index;
        ori_initialize_ring DSP0_CMD_BASE TEST_IOVA ci; ri \<leftarrow> gets response_index;
        ori_initialize_ring DSP0_RESP_BASE RESPONSE_IOVA ri;
        modify (\<lambda>s. s\<lparr>rings_published := True\<rparr>) }) Q t"
    if t: "writes (log t) = writes (log s)" "extends (log s) t" "command_index t < 1024"
      "response_index t < 1024" "ram t = ram s" "exit_success t = exit_success s" for t
    unfolding wp_bind[of "gets command_index"] wp_bind[of "ori_initialize_ring DSP0_CMD_BASE _ _"] wp_gets
    unfolding ori_initialize_publish dsp0_bases
  proof (rule stores_wp[OF ori_port.stores_publish], simp)
    fix u
    assume u: "log u = rev (map (\<lambda>(a, v). Wr a v) (publish_stores 0 0 (command_index t)
        (\<lambda>p. TEST_IOVA + of_nat p * 4096))) @ log t" and rest: "u\<lparr>log := []\<rparr> = t\<lparr>log := []\<rparr>"
    have iova: "(\<lambda>p. TEST_IOVA + of_nat p * 4096) = dsp0_iova 0"
      by (simp add: dsp0_iova_def fun_eq_iff)
    have same: "command_index u = command_index t" "response_index u = response_index t"
      "ram u = ram t" "exit_success u = exit_success t"
      using rest by (cases t; cases u; simp)+
    have ext: "extends (log s) u" using t(2) u by (auto simp: extends_def)
    have w: "writes (log u) = writes (log s) @ publish_stores 0 0 (command_index t) (dsp0_iova 0)"
      using t(1) u by (simp add: writes_rev_stores iova)
    show "wp (do { ri \<leftarrow> gets response_index;
        publish_ring ori_mmio_write32 (ring_base 0 (Suc 0)) RESPONSE_IOVA ri;
        modify (\<lambda>s. s\<lparr>rings_published := True\<rparr>) }) Q u"
      using second[of u "command_index t"] w ext same t(3-6)
      by (simp add: ori_initialize_publish dsp0_bases)
  qed
  have bound: "(if x < 1024 then x else 0) < (1024 :: u32)" for x by simp
  show ?thesis
    unfolding ori_publish_def bounded_hardware_index_def ori_mmio_read32_def
    apply (simp only: wp_bind[of "bus_read _ _"] wp_bind[of "modify _"] wp_bind[of "State_Monad.bind _ _"]
        wp_bus_read wp_modify wp_return prod.case)
    apply (rule first)
         apply (simp_all add: extends_def bound)
    done
qed

lemma wp_ori_pages: "wp (ori_pages_unchanged e) Q s = Q (pages_intact 8 e (log s) (ram s)) s"
  unfolding ori_pages_unchanged_def by (rule wp_page_scan)

text \<open>What a run that sets the exit status to success has done since the history was \<open>k\<close>.\<close>

definition ori_vouched :: "vfio_env \<Rightarrow> (nat \<Rightarrow> u8) \<Rightarrow> u32 \<Rightarrow> u32 \<Rightarrow> history \<Rightarrow> history \<Rightarrow> bool" where
  "ori_vouched e m i j k h \<longleftrightarrow> (\<exists>xs ys. h = xs @ ys @ k \<and> seen (dsp0_seen i j \<union> idle_seen) (xs @ ys) \<and>
     writes (xs @ ys) = dsp0_publish_stores i j \<and> pages_intact 8 e (ys @ k) m)"

lemma ori_verify_wp:
  assumes "\<not> exit_success s" "since k (dsp0_seen ci ri) s"
    "writes (log s) = writes k @ dsp0_publish_stores ci ri"
    and "\<And>t. extends (log s) t \<Longrightarrow> writes (log t) = writes (log s) \<Longrightarrow> ram t = ram s \<Longrightarrow>
      rings_published t = rings_published s \<Longrightarrow>
      (exit_success t \<Longrightarrow> ori_vouched e (ram s) ci ri k (log t)) \<Longrightarrow> Q () t"
  shows "wp (ori_verify e ci ri) Q s"
proof -
  obtain evs where evs: "log s = evs @ k" "seen (dsp0_seen ci ri) evs"
    using assms(2) by (auto simp: since_def)
  have ws: "writes evs = dsp0_publish_stores ci ri"
    using assms(3) evs(1) writes_append[of evs k] by simp
  have fin: "Q () t"
    if t: "log t = as @ ps @ qs @ Delay 250000000 # log s" "reads as" "reads ps" "reads qs" "ram t = ram s"
      "rings_published t = rings_published s"
      "exit_success t \<Longrightarrow> pages_intact 8 e (Delay 250000000 # log s) (ram s) \<and> seen ready_seen qs \<and>
        seen {(DMA_CONTROL, \<lambda>v. v = DMA_COLD_RESET)} ps" for t as ps qs
  proof (rule assms(4))
    show "extends (log s) t" using t(1) by (simp add: extends_def)
    show "writes (log t) = writes (log s)" using t(1-4) by simp
    show "ram t = ram s" "rings_published t = rings_published s" using t(5,6) by simp_all
    assume "exit_success t"
    then have *: "pages_intact 8 e (Delay 250000000 # log s) (ram s)" "seen ready_seen qs"
      "seen {(DMA_CONTROL, \<lambda>v. v = DMA_COLD_RESET)} ps" using t(7) by simp_all
    let ?xs = "as @ ps @ qs" and ?ys = "Delay 250000000 # evs"
    have "seen (dsp0_seen ci ri) (?xs @ ?ys)" by (rule seen_mono[OF evs(2)]) auto
    moreover have "seen ready_seen (?xs @ ?ys)" by (rule seen_mono[OF *(2)]) auto
    moreover have "seen {(DMA_CONTROL, \<lambda>v. v = DMA_COLD_RESET)} (?xs @ ?ys)"
      by (rule seen_mono[OF *(3)]) auto
    ultimately have "seen (dsp0_seen ci ri \<union> idle_seen) (?xs @ ?ys)"
      unfolding idle_seen_def by (simp only: seen_union simp_thms)
    then show "ori_vouched e (ram s) ci ri k (log t)"
      unfolding ori_vouched_def using *(1) t(1-4) evs(1) ws
      by (intro exI[of _ ?xs] exI[of _ ?ys]) simp
  qed
  have tail: "wp (and_m (check c) (only_dsp0_rings_published e ci ri))
      (\<lambda>ok. wp (if ok then modify (\<lambda>s. s\<lparr>exit_success := True\<rparr>) else State_Monad.return ()) Q) u"
    if u: "log u = ps @ qs @ Delay 250000000 # log s" "reads ps" "reads qs" "ram u = ram s"
      "rings_published u = rings_published s" "\<not> exit_success u"
      "c \<Longrightarrow> pages_intact 8 e (Delay 250000000 # log s) (ram s) \<and> seen ready_seen qs \<and>
        seen {(DMA_CONTROL, \<lambda>v. v = DMA_COLD_RESET)} ps" for u c ps qs
  proof (cases c)
    case True
    show ?thesis
      unfolding wp_and_m check_def wp_return if_P[OF True]
      by (rule read_only_wp[OF only_dsp0_checks], rename_tac b rs, case_tac b)
        (simp_all add: wp_simps, (rule fin[where ps = ps and qs = qs]; use u True in simp)+)
  next
    case False
    show ?thesis
      unfolding wp_and_m check_def wp_return if_not_P[OF False] if_False
      by (rule fin[where ps = ps and qs = qs and as = "[]"]) (use u in simp_all)
  qed
  show ?thesis
    unfolding ori_verify_def nanosleep_def wp_bind wp_emit wp_ori_pages wp_modify ori_defs
      interrupted_def wp_gets
    by (rule read_only_wp[OF ori_reader.checks_ready], rule read_only_wp[OF ori_reader.checks_read_is],
        rule tail) (use assms(1) in simp_all)
qed

lemma ori_run_wp:
  assumes "\<not> exit_success s"
    and "\<And>t i j. i < 1024 \<Longrightarrow> j < 1024 \<Longrightarrow> extends (log s) t \<Longrightarrow> rings_published t \<Longrightarrow>
      writes (log t) = writes (log s) @ dsp0_publish_stores i j \<Longrightarrow>
      (exit_success t \<Longrightarrow> ori_vouched e (ram s) i j (log s) (log t)) \<Longrightarrow> Q () t"
  shows "wp (ori_run e) Q s"
  unfolding ori_run_def wp_bind wp_gets wp_modify
proof (rule ori_publish_wp, rule scan_since[OF ori_publication_checks])
  fix t :: ring_session and i j b rs
  assume t: "i < 1024" "j < 1024" "extends (log s) t"
      "writes (log t) = writes (log s) @ dsp0_publish_stores i j"
      "command_index t = i" "response_index t = j" "rings_published t" "ram t = ram s"
      "exit_success t = exit_success s"
    and rs: "reads rs"
      "b \<Longrightarrow> since (log t) (dsp0_seen (command_index t) (response_index t)) (t\<lparr>log := rs @ log t\<rparr>)"
  let ?u = "t\<lparr>log := rs @ log t, publication_ok := b\<rparr>"
  have ext: "extends (log s) ?u" using t(3) by (auto simp: extends_def)
  show "wp (if b then ori_verify e (command_index t) (response_index t) else State_Monad.return ()) Q ?u"
  proof (cases b)
    case True
    have "since (log s) (dsp0_seen i j) ?u"
      using since_later[OF t(3) rs(2)[OF True]] t(5,6) by (simp add: since_def)
    then show ?thesis
      unfolding if_P[OF True] t(5,6)
    proof (rule ori_verify_wp[rotated])
      show "writes (log ?u) = writes (log s) @ dsp0_publish_stores i j" using t(4) rs(1) by simp
      show "\<not> exit_success ?u" using t(9) assms(1) by simp
      fix v :: ring_session
      assume v: "extends (log ?u) v" "writes (log v) = writes (log ?u)" "ram v = ram ?u"
        "rings_published v = rings_published ?u"
        "exit_success v \<Longrightarrow> ori_vouched e (ram ?u) i j (log s) (log v)"
      show "Q () v"
        by (rule assms(2)[OF t(1,2)]) (use v t(4,7,8) rs(1) extends_trans[OF ext v(1)] in simp_all)
    qed
  next
    case False
    have "\<not> exit_success ?u" using t(9) assms(1) by simp
    then show ?thesis
      unfolding if_not_P[OF False] wp_return
      by (intro assms(2)[OF t(1,2)]) (use t(4,7) rs(1) ext in simp_all)
  qed
qed

section \<open>The gate, the cleanup and the contract\<close>

definition ori_unstarted :: "ring_session \<Rightarrow> bool" where
  "ori_unstarted s \<longleftrightarrow> session_ok s \<and> \<not> rings_published s \<and> writes (log s) = [] \<and> \<not> exit_success s"

lemma ori_locals_ok: "ori_unstarted ori_locals" "owned ori_locals = {}"
proof -
  have f: "fresh_session ori_locals" by (simp add: fresh_session_def ori_locals_def)
  show "ori_unstarted ori_locals"
    using world_empty[OF f] by (simp add: ori_unstarted_def) (simp add: ori_locals_def)
  show "owned ori_locals = {}"
    by (rule set_eqI, rename_tac x, case_tac x) (simp_all add: owns_iff ori_locals_def)
qed

lemma ori_more:
  fixes s t :: ring_session
  shows "session.more t = session.more s \<Longrightarrow> rings_published t = rings_published s"
  by (cases s; cases t; simp)

lemma ori_setup_ram: "wp (ori_setup e) (\<lambda>ok t. ok \<longrightarrow> ram t = ori_fill_canaries (ram s)) s"
  by (simp add: ori_setup_def open_container_def open_group_def attach_group_def configure_iommu_def
      allocate_memory_def store_ram_def map_iova_def open_device_def map_bar_def check_def wp_simps)

lemma ori_gate:
  "wp (and_m (ori_setup e) (ori_precondition e)) (\<lambda>ok t. ori_unstarted t \<and> (ok \<longrightarrow> owned t = whole \<and>
     ram t = ori_fill_canaries (\<lambda>_. 0) \<and> seen (cold_rings_seen \<union> idle_seen) (log t))) ori_locals"
    (is "wp _ ?Q _")
proof -
  have set: "wp (ori_setup e) (\<lambda>ok t. session_ok t \<and> session.more t = session.more ori_locals \<and>
        writes (log t) = writes (log ori_locals) \<and> exit_success t = exit_success ori_locals \<and>
        (ok \<longrightarrow> owned t = whole)) ori_locals"
    using ori_locals_ok unfolding ori_unstarted_def by (intro setup_toD[OF ori_setup_to]) simp_all
  show ?thesis
  proof (rule wp_and_mI, rule wp_mono[OF wp_conjI[OF set ori_setup_ram]])
    fix ok t
    assume t: "(session_ok t \<and> session.more t = session.more ori_locals \<and>
        writes (log t) = writes (log ori_locals) \<and> exit_success t = exit_success ori_locals \<and>
        (ok \<longrightarrow> owned t = whole)) \<and> (ok \<longrightarrow> ram t = ori_fill_canaries (ram ori_locals))"
    then have "rings_published t = rings_published ori_locals"
      using ori_more by blast
    with t have un: "ori_unstarted t" by (simp add: ori_unstarted_def ori_locals_def)
    have "wp (ori_precondition e) ?Q t" if ok
    proof (rule scan_wp[OF ori_precondition_checks ori_precondition_keeps])
      show "idle whole t"
        using t that un engines_off_unwritten by (simp add: idle_def ori_unstarted_def session_ok_inside)
    next
      fix b rs
      assume "reads rs" "b \<Longrightarrow> seen (cold_rings_seen \<union> idle_seen) rs" "idle whole (t\<lparr>log := rs @ log t\<rparr>)"
      then show "?Q b (t\<lparr>log := rs @ log t\<rparr>)"
        using t that un by (auto simp: ori_unstarted_def session_ok_inside owned_update idle_def
            ori_locals_def elim!: seen_mono)
    qed
    with un show "(ok \<longrightarrow> wp (ori_precondition e) ?Q t) \<and> (\<not> ok \<longrightarrow> ?Q False t)" by simp
  qed
qed

definition ori_cold :: "history \<Rightarrow> bool" where
  "ori_cold k \<longleftrightarrow> writes k = [] \<and> seen (cold_rings_seen \<union> idle_seen) k"

definition ori_attempted :: "vfio_env \<Rightarrow> ring_session \<Rightarrow> bool" where
  "ori_attempted e s \<longleftrightarrow> idle (owned s) s \<and> (if rings_published s then owned s = whole \<and>
       (\<exists>i<1024. \<exists>j<1024. writes (log s) = dsp0_publish_stores i j \<and> (exit_success s \<longrightarrow>
         (\<exists>k. ori_cold k \<and> ori_vouched e (ori_fill_canaries (\<lambda>_. 0)) i j k (log s))))
     else writes (log s) = [] \<and> \<not> exit_success s)"

lemma ori_attempt_attempted: "wp (ori_attempt e) (\<lambda>_. ori_attempted e) ori_locals"
  unfolding ori_attempt_def wp_bind
proof (rule wp_mono[OF ori_gate])
  fix ok t
  assume t: "ori_unstarted t \<and> (ok \<longrightarrow> owned t = whole \<and>
     ram t = ori_fill_canaries (\<lambda>_. 0) \<and> seen (cold_rings_seen \<union> idle_seen) (log t))"
  then have w: "writes (log t) = []" "\<not> exit_success t" "\<not> rings_published t" "inside (owned t) t"
    by (simp_all add: ori_unstarted_def session_ok_inside)
  then have i: "idle (owned t) t" using engines_off_unwritten by (simp add: idle_def)
  show "wp (if ok then ori_run e else State_Monad.return ()) (\<lambda>_. ori_attempted e) t"
  proof (cases ok)
    case True
    then have own: "owned t = whole" and cold: "ori_cold (log t)" and ram: "ram t = ori_fill_canaries (\<lambda>_. 0)"
      using t w(1) by (simp_all add: ori_cold_def)
    have "wp (ori_run e) (\<lambda>_. idle whole) t"
      by (rule preservesD[OF ori_run_keeps]) (use i own in simp)
    moreover have "wp (ori_run e) (\<lambda>_ u. rings_published u \<and>
       (\<exists>i<1024. \<exists>j<1024. writes (log u) = dsp0_publish_stores i j \<and> (exit_success u \<longrightarrow>
         (\<exists>k. ori_cold k \<and> ori_vouched e (ori_fill_canaries (\<lambda>_. 0)) i j k (log u))))) t"
      by (rule ori_run_wp[OF w(2)]) (use w(1) cold ram in auto)
    ultimately have "wp (ori_run e) (\<lambda>_ u. idle whole u \<and> rings_published u \<and>
       (\<exists>i<1024. \<exists>j<1024. writes (log u) = dsp0_publish_stores i j \<and> (exit_success u \<longrightarrow>
         (\<exists>k. ori_cold k \<and> ori_vouched e (ori_fill_canaries (\<lambda>_. 0)) i j k (log u))))) t"
      by (rule wp_conjI)
    then show ?thesis
      unfolding if_P[OF True]
      by (rule wp_mono) (auto simp: ori_attempted_def idle_def inside_def)
  next
    case False
    then show ?thesis using w i by (simp add: wp_return ori_attempted_def)
  qed
qed

lemma wp_clear_stores:
  assumes "\<And>t. log t = rev (map (\<lambda>(a, v). Wr a v) dsp0_clear_stores) @ log s \<Longrightarrow>
      ori_rest t = ori_rest s \<Longrightarrow> wp (ori_all_ring_words_zero e) Q t"
  shows "wp (clear_dsp0_rings e) Q s"
proof -
  have "wp (do {
     for_each [0..<4] (\<lambda>page. do {
       write_descriptor (DSP0_CMD_BASE + of_nat page * 8) 0;
       write_descriptor (DSP0_RESP_BASE + of_nat page * 8) 0 });
     ori_mmio_write32 (DSP0_CMD_BASE + 0x24) 0;
     ori_mmio_write32 (DSP0_CMD_BASE + 0x20) 0;
     ori_mmio_write32 (DSP0_RESP_BASE + 0x24) 0;
     ori_mmio_write32 (DSP0_RESP_BASE + 0x20) 0 }) (\<lambda>_. wp (ori_all_ring_words_zero e) Q) s"
    by (rule stores_wp[OF ori_stores_clear], rule assms)
  then show ?thesis unfolding clear_dsp0_rings_def by (simp only: wp_bind)
qed

lemma wp_clear_dsp0:
  assumes "\<And>b t rs. log t = rs @ rev (map (\<lambda>(a, v). Wr a v) dsp0_clear_stores) @ log s \<Longrightarrow> reads rs \<Longrightarrow>
      ori_rest t = ori_rest s \<Longrightarrow> (b \<Longrightarrow> seen cold_rings_seen rs) \<Longrightarrow> Q b t"
  shows "wp (clear_dsp0_rings e) Q s"
  by (rule wp_clear_stores, unfold ori_defs, rule read_only_wp[OF ori_reader.checks_rings], rule assms)
    (simp_all add: cold_rings_seen_def)

lemma ori_clear_keeps: "preserves (idle whole) (clear_dsp0_rings e)"
proof -
  have w: "preserves (idle whole) (ori_mmio_write32 (ring_reg 0 r w) v)" if "r < 2" "w < 10" for r w v
    using ori_idle_wr that by (simp add: keeps_ring_wr_def)
  show ?thesis
    unfolding clear_dsp0_rings_def dsp0_bases write_descriptor_def store_address_def ori_defs
    by (simp only: ring_base_reg[of 0] ring_reg_words zero_less_numeral)
      (intro preserves_intros ori_keeps w; simp)
qed

text \<open>What the cleanup adds to the history of a session it leaves as a success.\<close>

definition ori_undone :: "ring_session \<Rightarrow> ring_session \<Rightarrow> bool" where
  "ori_undone s t \<longleftrightarrow> writes (log t) = writes (log s) @ (if rings_published s then dsp0_clear_stores else []) \<and>
     bar_ok t = bar_ok s \<and> device_fd t = device_fd s \<and>
     (exit_success t \<longrightarrow> exit_success s \<and> (\<exists>restore. log t = restore @ log s \<and>
        (rings_published s \<longrightarrow> writes restore = dsp0_clear_stores \<and> seen cold_rings_seen restore)))"

lemma ori_restore_wp:
  assumes "ori_attempted e s"
  shows "wp (ori_restore e) (\<lambda>_ t. idle (owned s) t \<and> ori_undone s t) s"
proof (cases "rings_published s")
  case True
  have own: "owned s = whole" and i: "idle whole s" using assms True by (auto simp: ori_attempted_def)
  have b: "bar_ok s" using own owns_iff[of BarMap s] by simp
  have w: "writes (rev (map (\<lambda>(a, v). Wr a v) dsp0_clear_stores)) = dsp0_clear_stores"
    using writes_rev_stores[of dsp0_clear_stores "[]"] by simp
  have tail: "preserves (idle whole) (do { b \<leftarrow> clear_dsp0_rings e;
           modify (\<lambda>s. s\<lparr>restore_ok := b\<rparr>);
           if b then State_Monad.return () else fail })"
    by (intro preserves_intros ori_clear_keeps idle_local inside_local) simp_all
  have "wp (do { b \<leftarrow> clear_dsp0_rings e;
           modify (\<lambda>s. s\<lparr>restore_ok := b\<rparr>);
           if b then State_Monad.return () else fail }) (\<lambda>_. ori_undone s) s"
    unfolding wp_bind wp_modify
  proof (rule wp_clear_dsp0)
    fix b and t :: ring_session and rs
    assume t: "log t = rs @ rev (map (\<lambda>(a, v). Wr a v) dsp0_clear_stores) @ log s" "reads rs"
      "ori_rest t = ori_rest s" "b \<Longrightarrow> seen cold_rings_seen rs"
    have same: "bar_ok t = bar_ok s" "device_fd t = device_fd s" "exit_success t = exit_success s"
      using t(3) by (cases s; cases t; simp)+
    have ws: "writes (log t) = writes (log s) @ dsp0_clear_stores"
      using t(1,2) by (simp add: writes_rev_stores)
    have ev: "b \<Longrightarrow> \<exists>restore. log t = restore @ log s \<and> writes restore = dsp0_clear_stores \<and>
        seen cold_rings_seen restore"
      using t(1,2) w seen_mono[OF t(4), of "rs @ rev (map (\<lambda>(a, v). Wr a v) dsp0_clear_stores)"]
      by (intro exI[of _ "rs @ rev (map (\<lambda>(a, v). Wr a v) dsp0_clear_stores)"]) auto
    show "wp (if b then State_Monad.return () else fail) (\<lambda>_. ori_undone s) (t\<lparr>restore_ok := b\<rparr>)"
      using same ws ev True by (cases b) (auto simp: wp_simps fail_def ori_undone_def)
  qed
  then have "wp (do { b \<leftarrow> clear_dsp0_rings e;
           modify (\<lambda>s. s\<lparr>restore_ok := b\<rparr>);
           if b then State_Monad.return () else fail }) (\<lambda>_ t. idle whole t \<and> ori_undone s t) s"
    using preservesD[OF tail i] by (simp only: wp_conj simp_thms)
  then show ?thesis
    unfolding ori_restore_def own wp_when_m if_P[OF conjI[OF True b]] .
next
  case False
  then show ?thesis
    using assms by (simp add: ori_restore_def wp_simps ori_attempted_def ori_undone_def)
qed

lemma ori_reset_checks: "checks log ori_rest (and_m (check c) (and_m (ori_all_ring_words_zero e)
    (and_m (read_is (ori_mmio_read32 e) DMA_CONTROL DMA_COLD_RESET) (ori_all_dsps_ready e))))
    ({} \<union> (cold_rings_seen \<union> ({(DMA_CONTROL, \<lambda>v. v = DMA_COLD_RESET)} \<union> ready_seen)))"
  unfolding cold_rings_seen_def ori_defs
  by (rule checks_and_m, simp add: checks_def check_def seen_def)
    (intro checks_and_m ori_reader.checks_rings ori_reader.checks_read_is ori_reader.checks_ready)

lemma ori_reset_wp:
  assumes "\<And>t rs. writes (log t) = writes (log s) \<Longrightarrow>
      (exit_success t \<Longrightarrow> exit_success s \<and> (bar_ok s \<and> \<not> device_fd s < 0 \<longrightarrow>
        log t = rs @ DeviceReset # log s \<and> reads rs \<and> seen (cold_rings_seen \<union> idle_seen) rs)) \<Longrightarrow> Q () t"
  shows "wp (ori_reset e) Q s"
proof (cases "\<not> device_fd s < 0 \<and> bar_ok s")
  case True
  show ?thesis
    unfolding ori_reset_def wp_when_m if_P[OF True] reset_device_def wp_bind wp_modify wp_emit wp_return
  proof (rule read_only_wp[OF ori_reset_checks])
    fix b rs
    let ?s = "s\<lparr>reset_called := True, log := DeviceReset # log (s\<lparr>reset_called := True\<rparr>)\<rparr>"
    assume "reads rs" "b \<Longrightarrow> seen ({} \<union> (cold_rings_seen \<union> ({(DMA_CONTROL, \<lambda>v. v = DMA_COLD_RESET)} \<union> ready_seen))) rs"
    then show "wp (if b then State_Monad.return () else fail) Q (?s\<lparr>log := rs @ log ?s, reset_recovered := b\<rparr>)"
      by (cases b) (auto simp: wp_simps fail_def idle_seen_def Un_commute intro!: assms[where rs = rs])
  qed
next
  case False
  show ?thesis
    unfolding ori_reset_def wp_when_m if_not_P[OF False]
    by (rule assms[where rs = "[]"]) (use False in auto)
qed

lemma ori_reset_idle:
  assumes "idle S s"
  shows "wp (ori_reset e) (\<lambda>_. idle S) s"
proof (cases "BarMap \<in> S")
  case True
  have rd: "keeps_rd (idle S) (ori_mmio_read32 e)"
    unfolding keeps_rd_def ori_mmio_read32_def using True by (intro allI impI idle_read) simp_all
  have "preserves (idle S) (ori_reset e)"
    unfolding ori_reset_def ori_defs check_def
    by (intro preserves_intros preserves_scan_rings[OF rd] preserves_scan_ready[OF rd]
        preserves_read_is[OF rd] idle_local inside_local) simp_all
  then show ?thesis using assms by (rule preservesD)
next
  case False
  then have "\<not> bar_ok s" using assms by (auto simp: idle_def inside_def owns_iff)
  then show ?thesis using assms by (simp add: ori_reset_def wp_simps)
qed

section \<open>The whole run\<close>

lemma ori_main_effects:
  assumes "length argv = 1"
  shows "wp (do { ori_attempt e; ori_cleanup e; teardown e (8 * 4096); ori_report e }) (\<lambda>_. Q)
     ori_locals \<longleftrightarrow> Q (ori_final e argv)"
  using assms by (simp add: ori_final_def ori_main_def wp_def split_beta)

lemma ori_usage: "length argv \<noteq> 1 \<Longrightarrow> ori_final e argv = ori_locals"
  by (simp add: ori_final_def ori_main_def)

lemma ori_cleanup_ready:
  assumes "ori_attempted e s"
  shows "wp (ori_cleanup e) (\<lambda>_ t. session_ok t \<and> \<not> engines_on (log t)) s"
  unfolding ori_cleanup_def wp_bind
proof (rule wp_mono[OF ori_restore_wp[OF assms]])
  fix t :: ring_session
  assume "idle (owned s) t \<and> ori_undone s t"
  then show "wp (ori_reset e) (\<lambda>_ t. session_ok t \<and> \<not> engines_on (log t)) t"
    by (intro wp_mono[OF ori_reset_idle]) (auto simp: idle_def inside_def session_ok_def)
qed

lemma ori_stdout_same: "\<exists>out. r = r\<lparr>stdout := out\<rparr>" for r :: ring_session
  by (rule exI[of _ "stdout r"]) simp

interpretation ori_tool: vfio_tool "ori_attempt e" "ori_cleanup e" "State_Monad.return ()" ori_locals
    "ori_attempted e" for e
  by unfold_locales (rule ori_attempt_attempted, erule ori_cleanup_ready,
      simp add: ori_stdout_same)

lemma ori_report_wp: "(\<And>out. Q () (s\<lparr>stdout := out\<rparr>)) \<Longrightarrow> wp (ori_report e) Q s"
  by (simp add: ori_report_def interrupted_def wp_simps)

lemma ori_run_released:
  "released (clean_unmap e (8 * 4096) (ori_final e argv)) (dma_mapped (ori_final e argv))
     (log (ori_final e argv))"
proof (cases "length argv = 1")
  case True
  let ?Q = "\<lambda>t. released (clean_unmap e (8 * 4096) t) (dma_mapped t) (log t)"
  have "wp (do { ori_attempt e; ori_cleanup e; State_Monad.return (); teardown e (8 * 4096) })
      (\<lambda>_. ?Q) ori_locals"
    by (rule ori_tool.run_released)
  then have "wp (do { ori_attempt e; ori_cleanup e; teardown e (8 * 4096); ori_report e })
      (\<lambda>_. ?Q) ori_locals"
    unfolding wp_bind wp_return
    by (elim wp_mono) (rule ori_report_wp, simp add: clean_unmap_def)
  then show ?thesis by (simp only: ori_main_effects[OF True])
next
  case False
  have "always vfio_safe []" using world_start by (simp add: session_world_def)
  then show ?thesis
    by (simp add: ori_usage[OF False] released_def) (simp add: ori_locals_def)
qed

definition ori_store_shape :: "(u32 \<times> u32) list \<Rightarrow> bool" where
  "ori_store_shape ws \<longleftrightarrow> ws = [] \<or>
     (\<exists>i<1024. \<exists>j<1024. ws = dsp0_publish_stores i j @ dsp0_clear_stores)"

definition ori_evidence :: "vfio_env \<Rightarrow> history \<Rightarrow> bool" where
  "ori_evidence e h \<longleftrightarrow> (\<exists>closing recovery restore run cold i j.
     h = closing @ recovery @ DeviceReset # restore @ run \<and> i < 1024 \<and> j < 1024 \<and>
     ori_cold cold \<and> ori_vouched e (ori_fill_canaries (\<lambda>_. 0)) i j cold run \<and>
     writes restore = dsp0_clear_stores \<and> seen cold_rings_seen restore \<and>
     reads recovery \<and> seen (cold_rings_seen \<union> idle_seen) recovery \<and> writes closing = [])"

lemma ori_evidenceI:
  assumes "h = closing @ recovery @ DeviceReset # restore @ run" "i < 1024" "j < 1024"
    "ori_cold cold" "ori_vouched e (ori_fill_canaries (\<lambda>_. 0)) i j cold run"
    "writes restore = dsp0_clear_stores" "seen cold_rings_seen restore"
    "reads recovery" "seen (cold_rings_seen \<union> idle_seen) recovery" "writes closing = []"
  shows "ori_evidence e h"
  unfolding ori_evidence_def
  by (rule exI[of _ closing], rule exI[of _ recovery], rule exI[of _ restore], rule exI[of _ run],
      rule exI[of _ cold], rule exI[of _ i], rule exI[of _ j]) (simp only: assms simp_thms)

lemma ori_evidence_later:
  assumes "ori_evidence e h" "writes xs = []"
  shows "ori_evidence e (xs @ h)"
proof -
  from assms(1)[unfolded ori_evidence_def] show ?thesis
  proof (elim exE conjE)
    fix closing recovery restore run cold i j
    assume e: "h = closing @ recovery @ DeviceReset # restore @ run" "i < 1024" "j < 1024"
      "ori_cold cold" "ori_vouched e (ori_fill_canaries (\<lambda>_. 0)) i j cold run"
      "writes restore = dsp0_clear_stores" "seen cold_rings_seen restore"
      "reads recovery" "seen (cold_rings_seen \<union> idle_seen) recovery" "writes closing = []"
    have h: "xs @ h = (xs @ closing) @ recovery @ DeviceReset # restore @ run" using e(1) by simp
    have w: "writes (xs @ closing) = []" using assms(2) e(10) by (simp add: writes_append)
    show ?thesis by (rule ori_evidenceI[OF h e(2-9) w])
  qed
qed

definition ori_cleaned :: "vfio_env \<Rightarrow> ring_session \<Rightarrow> bool" where
  "ori_cleaned e t \<longleftrightarrow> ori_store_shape (writes (log t)) \<and>
     (exit_success t \<longrightarrow> ori_evidence e (log t))"

lemma ori_cleanup_wp:
  assumes "ori_attempted e s"
  shows "wp (ori_cleanup e) (\<lambda>_. ori_cleaned e) s"
  unfolding ori_cleanup_def wp_bind
proof (rule wp_mono[OF ori_restore_wp[OF assms]], rule ori_reset_wp)
  fix t u :: ring_session and rs
  assume t: "idle (owned s) t \<and> ori_undone s t" and u: "writes (log u) = writes (log t)"
    "exit_success u \<Longrightarrow> exit_success t \<and> (bar_ok t \<and> \<not> device_fd t < 0 \<longrightarrow>
        log u = rs @ DeviceReset # log t \<and> reads rs \<and> seen (cold_rings_seen \<union> idle_seen) rs)"
  have shape: "ori_store_shape (writes (log u))"
    using assms t u(1) by (auto simp: ori_attempted_def ori_undone_def ori_store_shape_def split: if_splits)
  have "ori_evidence e (log u)" if "exit_success u"
  proof -
    have ok: "exit_success t" "exit_success s"
      using u(2)[OF that] t by (auto simp: ori_undone_def)
    then have pub: "rings_published s" and own: "owned s = whole"
      using assms by (auto simp: ori_attempted_def split: if_splits)
    obtain i j k where k: "i < 1024" "j < 1024" "ori_cold k"
      "ori_vouched e (ori_fill_canaries (\<lambda>_. 0)) i j k (log s)"
      using assms ok pub by (auto simp: ori_attempted_def)
    obtain restore where r: "log t = restore @ log s" "writes restore = dsp0_clear_stores"
      "seen cold_rings_seen restore" using t ok pub by (auto simp: ori_undone_def)
    have "bar_ok t" "\<not> device_fd t < 0"
      using t own owns_iff[of BarMap s] owns_iff[of VfioDevice s] by (simp_all add: ori_undone_def whole_def)
    then have l: "log u = rs @ DeviceReset # log t" "reads rs" "seen (cold_rings_seen \<union> idle_seen) rs"
      using u(2)[OF that] by simp_all
    have h: "log u = [] @ rs @ DeviceReset # restore @ log s" using l(1) r(1) by simp
    have wr: "writes [] = []" by simp
    show ?thesis by (rule ori_evidenceI[OF h k(1-4) r(2,3) l(2,3) wr])
  qed
  with shape show "ori_cleaned e u" by (simp add: ori_cleaned_def)
qed

lemma ori_final_cleaned: "ori_cleaned e (ori_final e argv)"
proof (cases "length argv = 1")
  case True
  have "wp (ori_attempt e) (\<lambda>_. wp (ori_cleanup e) (\<lambda>_. wp (teardown e (8 * 4096))
      (\<lambda>_. wp (ori_report e) (\<lambda>_. ori_cleaned e)))) ori_locals"
  proof (rule wp_mono[OF ori_attempt_attempted], rule wp_mono[OF ori_cleanup_wp], assumption)
    fix t :: ring_session
    assume t: "ori_cleaned e t"
    have "wp (teardown e (8 * 4096)) (\<lambda>_ v. (\<exists>xs. log v = xs @ log t \<and> writes xs = []) \<and>
       (exit_success v \<longrightarrow> exit_success t)) t"
      by (rule preservesD[OF preserves_extending]) simp
    then show "wp (teardown e (8 * 4096)) (\<lambda>_. wp (ori_report e) (\<lambda>_. ori_cleaned e)) t"
    proof (rule wp_mono, intro ori_report_wp)
      fix v :: ring_session and out
      assume v: "(\<exists>xs. log v = xs @ log t \<and> writes xs = []) \<and> (exit_success v \<longrightarrow> exit_success t)"
      then obtain xs where xs: "log v = xs @ log t" "writes xs = []" by blast
      have "ori_evidence e (log v)" if "ori_evidence e (log t)"
        using ori_evidence_later[OF that xs(2)] xs(1) by simp
      then show "ori_cleaned e (v\<lparr>stdout := out\<rparr>)"
        using t v xs by (simp add: ori_cleaned_def writes_append)
    qed
  qed
  then have "wp (do { ori_attempt e; ori_cleanup e; teardown e (8 * 4096); ori_report e })
      (\<lambda>_. ori_cleaned e) ori_locals"
    by (simp only: wp_bind)
  then show ?thesis by (simp only: ori_main_effects[OF True])
next
  case False
  then show ?thesis
    by (simp add: ori_usage ori_cleaned_def ori_store_shape_def) (simp add: ori_locals_def)
qed

lemma ori_run_shape: "ori_store_shape (writes (log (ori_final e argv)))"
  using ori_final_cleaned by (simp add: ori_cleaned_def)

end
