(* ===== verification/Official_Ring_Live.thy ===== *)
theory Official_Ring_Live
  imports Official_Ring_Results Card_Session
begin

text \<open>
  \<^verbatim>\<open>tools/vfio_official_ring_init.c\<close> ends with exit status 0 on a card that behaves as
  documented and a host on which every call succeeds.
\<close>

section \<open>What the card holds\<close>

lemma ori_reads: "ori_mmio_read32 e = bus_read (answer e)"
  by (simp add: fun_eq_iff ori_mmio_read32_def)

abbreviation published_map :: "u32 \<Rightarrow> u32 \<Rightarrow> u32 \<Rightarrow> u32 option" where
  "published_map i j \<equiv> map_of (rev (dsp0_publish_stores i j))"

lemma expected_publish:
  assumes "r < 2" "w < 10"
  shows "expected_word i j 0 r w = publish_value (if r = 0 then i else j) (dsp0_iova r) w"
proof -
  have r: "r \<in> {0, 1}" and w: "w \<in> {0, 1, 2, 3, 4, 5, 6, 7, 8, 9}" using assms by auto
  show ?thesis
    using r w by (elim insertE emptyE) (simp_all add: expected_word_def publish_value_def
        dsp0_iova_def RESPONSE_IOVA_def TEST_IOVA_def)
qed

lemma in_dsp0_publish:
  "(a, v) \<in> set (dsp0_publish_stores i j) \<longleftrightarrow>
     (\<exists>r<2. \<exists>w<10. a = ring_reg 0 r w \<and> v = expected_word i j 0 r w)"
proof -
  have two: "(\<exists>r<2. P r) \<longleftrightarrow> P 0 \<or> P (1 :: nat)" for P by (auto simp: less_2_cases_iff)
  have "(a, v) \<in> set (dsp0_publish_stores i j) \<longleftrightarrow>
      (\<exists>w<10. a = ring_reg 0 0 w \<and> v = publish_value i (dsp0_iova 0) w) \<or>
      (\<exists>w<10. a = ring_reg 0 1 w \<and> v = publish_value j (dsp0_iova 1) w)"
    unfolding dsp0_publish_stores_def set_append set_publish_stores by auto
  also have "\<dots> \<longleftrightarrow> (\<exists>r<2. \<exists>w<10. a = ring_reg 0 r w \<and> v = expected_word i j 0 r w)"
    unfolding two by (simp add: expected_publish cong: conj_cong)
  finally show ?thesis .
qed

lemma published_word:
  assumes "d < 8" "r < 2" "w < 10"
  shows "published_map i j (ring_reg d r w) = (if d = 0 then Some (expected_word i j 0 r w) else None)"
proof (cases "d = 0")
  case True
  have "published_map i j (ring_reg 0 r w) = Some (expected_word i j 0 r w)"
  proof (rule last_store)
    show "(ring_reg 0 r w, expected_word i j 0 r w) \<in> set (dsp0_publish_stores i j)"
      using assms by (auto simp: in_dsp0_publish)
  next
    fix x
    assume "(ring_reg 0 r w, x) \<in> set (dsp0_publish_stores i j)"
    then show "x = expected_word i j 0 r w"
      using assms by (auto simp: in_dsp0_publish ring_reg_eq_iff)
  qed
  then show ?thesis using True by simp
next
  case False
  have "(ring_reg d r w, x) \<notin> set (dsp0_publish_stores i j)" for x
    using assms False by (auto simp: in_dsp0_publish ring_reg_eq_iff)
  then show ?thesis using False by (force simp: map_of_eq_None_iff)
qed

lemma dsp0_published_dma: "published_map i j DMA_CONTROL = None"
proof -
  have "(DMA_CONTROL, x) \<notin> set (dsp0_publish_stores i j)" for x
    using ring_reg_not_global(2)[of 0 _ _ "0x2200"] by (auto simp: in_dsp0_publish)
  then show ?thesis by (force simp: map_of_eq_None_iff)
qed

lemma cleared_word:
  assumes "r < 2" "w < 10"
  shows "map_of (rev dsp0_clear_stores) (ring_reg 0 r w) = Some 0"
proof (rule last_store)
  have r: "r \<in> {0, 1}" and w: "w \<in> {0, 1, 2, 3, 4, 5, 6, 7, 8, 9}" using assms by auto
  show "(ring_reg 0 r w, 0) \<in> set dsp0_clear_stores"
    using r w by (elim insertE emptyE) (simp_all add: dsp0_clear_stores_def upt_4)
next
  fix x
  assume "(ring_reg 0 r w, x) \<in> set dsp0_clear_stores"
  then show "x = 0" by (auto simp: dsp0_clear_stores_def)
qed

lemma cleared_dma: "map_of (rev dsp0_clear_stores) DMA_CONTROL = None"
proof -
  have "(DMA_CONTROL, x) \<notin> set dsp0_clear_stores" for x
    using ring_reg_not_global(2)[of 0 _ _ "0x2200"] by (auto simp: dsp0_clear_stores_def)
  then show ?thesis by (force simp: map_of_eq_None_iff)
qed

section \<open>The scans\<close>

lemma meets_only_dsp0:
  assumes "octo_hw (answer e)"
  shows "meets (only_dsp0_rings_published e i j) (\<lambda>k. k = published_map i j)"
proof -
  have word: "meets (if d = 0 \<and> w = 10 then State_Monad.return True
       else read_is (bus_read (answer e)) (ring_base d r + of_nat w * 4) (expected_word i j d r w))
      (\<lambda>k. k = published_map i j)" if "d < 8" "r < 2" "w < 16" for d r w
  proof (cases "d = 0 \<and> w = 10")
    case True
    then show ?thesis by (simp add: meets_mono[OF meets_true])
  next
    case False
    have "ring_word (published_map i j) d r w = expected_word i j d r w"
      using that False by (auto simp: ring_word_def stored_at_def published_word expected_word_def)
    then show ?thesis
      unfolding if_not_P[OF False] ring_base_word[OF that(1)]
      by (intro meets_read_is) (simp add: card_reads(6)[OF assms that])
  qed
  show ?thesis
    unfolding only_dsp0_rings_published_def ori_reads
    by (rule meets_mono[OF meets_upt[OF meets_upt[OF meets_upt[OF word]]]]) simp_all
qed

lemma meets_ring_matches:
  assumes "octo_hw (answer e)" "r < 2"
    "first = (if r = 0 then TEST_IOVA else RESPONSE_IOVA)" "ix = (if r = 0 then i else j)"
  shows "meets (ring_matches e (ring_base 0 r) first ix) (\<lambda>k. k = published_map i j)"
proof -
  have d: "(0 :: nat) < 8" by simp
  have val: "answer e h (ring_reg 0 r w) = publish_value ix (dsp0_iova r) w"
    if "shadow h = published_map i j" "w < 10" for h w
    using card_reads(6)[OF assms(1) d assms(2), of w h] that assms(2,4)
    by (simp add: ring_word_def stored_at_def published_word expected_publish)
  have first: "dsp0_iova r p = first + of_nat p * 4096" for p
    by (simp add: dsp0_iova_def assms(3))
  have addr: "meets (do { v \<leftarrow> read_descriptor e (ring_base 0 r + of_nat p * 8);
      State_Monad.return (v = first + of_nat p * 4096) }) (\<lambda>k. k = published_map i j)" if p: "p < 4" for p
  proof -
    have "meets (do { lo \<leftarrow> bus_read (answer e) (ring_base 0 r + of_nat p * 8);
        hi \<leftarrow> bus_read (answer e) (ring_base 0 r + of_nat p * 8 + 4);
        State_Monad.return (join_64 lo hi = dsp0_iova r p) }) (\<lambda>k. k = published_map i j)"
    proof (rule meets_read_address, unfold ring_base_pages[OF d] ring_reg_words(5))
      fix h
      assume h: "shadow h = published_map i j"
      show "answer e h (ring_reg 0 r (2 * p)) = lower_32_bits (dsp0_iova r p) \<and>
          answer e h (ring_reg 0 r (2 * p + 1)) = upper_32_bits (dsp0_iova r p)"
        using val[OF h, of "2 * p"] val[OF h, of "2 * p + 1"] p by (simp add: publish_value_def)
    qed
    then show ?thesis by (simp add: read_descriptor_def ori_reads first)
  qed
  have index: "meets (read_is (bus_read (answer e)) (ring_base 0 r + 0x20) ix) (\<lambda>k. k = published_map i j)"
    "meets (read_is (bus_read (answer e)) (ring_base 0 r + 0x24) ix) (\<lambda>k. k = published_map i j)"
    unfolding ring_base_pages[OF d]
    by (rule meets_read_is, use val[of _ 8] val[of _ 9] in \<open>simp add: publish_value_def\<close>)+
  show ?thesis
    unfolding ring_matches_def ori_reads
    by (rule meets_mono[OF meets_and_m[OF meets_and_m[OF index] meets_upt[OF addr]]]) simp_all
qed

lemma meets_publication:
  assumes "octo_hw (answer e)"
  shows "meets (ori_check_publication e i j) (\<lambda>k. k = published_map i j)"
  unfolding ori_check_publication_def dsp0_bases
  by (rule meets_mono[OF meets_and_m[OF meets_and_m[OF
      meets_ring_matches[OF assms, of 0] meets_ring_matches[OF assms, of "Suc 0"]]
      meets_only_dsp0[OF assms]]]) simp_all

lemma meets_cold_rings:
  assumes "octo_hw (answer e)"
  shows "meets (ori_all_ring_words_zero e)
    (\<lambda>k. \<forall>d<8. \<forall>r<2. \<forall>w<10. k (ring_reg d r w) \<in> {None, Some 0})"
  unfolding ori_all_ring_words_zero_def ori_reads
  by (rule meets_mono[OF meets_rings[OF assms]]) (fastforce simp: ring_word_def stored_at_def split: option.split)

lemma meets_ori_precondition:
  assumes "octo_hw (answer e)"
  shows "meets (ori_precondition e) (\<lambda>k. k = Map.empty)"
  unfolding ori_precondition_def ori_all_dsps_ready_def ori_reads
  by (rule meets_mono[OF meets_and_m[OF meets_cold_rings[OF assms] meets_and_m[OF
      meets_ready[OF assms] meets_dma[OF assms]]]])
    (simp add: stored_at_def)

section \<open>The run\<close>

lemma ori_verify_live:
  assumes "good_env e" "shadow (log s) = published_map i j" "ram s = ori_fill_canaries m"
  shows "wp (ori_verify e i j) (\<lambda>_. exit_success) s"
proof -
  have card: "octo_hw (answer e)" using assms(1) by (simp add: good_env_def)
  have pages: "pages_intact 8 e h (ram s)" for h
    unfolding assms(3) ori_fill_canaries_def by (rule canaries_intact[OF assms(1)])
  have dma: "stored_at (published_map i j) DMA_CONTROL DMA_COLD_RESET = DMA_COLD_RESET"
    by (simp add: stored_at_def dsp0_published_dma[unfolded DMA_CONTROL_def])
  show ?thesis
    unfolding ori_verify_def nanosleep_def wp_bind wp_emit wp_ori_pages wp_modify ori_defs
      interrupted_def wp_gets ori_reads
    apply (rule meets_wp[OF meets_ready[OF card]], rule TrueI)
    apply (rule meets_wp[OF meets_dma[OF card]])
     apply (simp add: assms(2) dma[unfolded DMA_CONTROL_def DMA_COLD_RESET_def])
    apply (rule meets_wp[OF meets_and_m[OF meets_check meets_only_dsp0[OF card, of i j]]])
      apply (simp add: never_interrupted[OF assms(1)] pages)
     apply (simp add: assms(2))
    by (simp add: wp_simps)
qed

lemma ori_run_live:
  assumes "good_env e" "writes (log s) = []" "ram s = ori_fill_canaries m"
  shows "wp (ori_run e) (\<lambda>_. exit_success) s"
  unfolding ori_run_def wp_bind wp_gets wp_modify
proof (rule ori_publish_wp)
  have card: "octo_hw (answer e)" using assms(1) by (simp add: good_env_def)
  fix t :: ring_session and i j
  assume t: "writes (log t) = writes (log s) @ dsp0_publish_stores i j"
    "command_index t = i" "response_index t = j" "ram t = ram s"
  have sh: "shadow (log t) = published_map i j" using t(1) assms(2) by (simp add: shadow_map_of)
  show "wp (ori_check_publication e (command_index t) (response_index t)) (\<lambda>b u. wp (if b
      then ori_verify e (command_index t) (response_index t) else State_Monad.return ())
      (\<lambda>_. exit_success) (u\<lparr>publication_ok := b\<rparr>)) t"
    unfolding t(2,3)
  proof (rule meets_wp[OF meets_publication[OF card] sh], unfold if_True)
    fix rs :: history
    assume "reads rs"
    then show "wp (ori_verify e i j) (\<lambda>_. exit_success) (t\<lparr>log := rs @ log t, publication_ok := True\<rparr>)"
      by (intro ori_verify_live[OF assms(1)]) (use sh t(4) assms(3) in simp_all)
  qed
qed

lemma ori_setup_live:
  assumes "good_env e"
  shows "wp (ori_setup e) (\<lambda>ok t. ok \<and> writes (log t) = writes (log s) \<and>
     ram t = ori_fill_canaries (ram s)) s"
  using assms by (simp add: good_env_def ori_setup_def open_container_def open_group_def
      attach_group_def configure_iommu_def allocate_memory_def store_ram_def map_iova_def
      open_device_def map_bar_def check_def ori_device_valid_def wp_simps)

lemma ori_attempt_live:
  assumes "good_env e"
  shows "wp (ori_attempt e) (\<lambda>_. exit_success) ori_locals"
  unfolding ori_attempt_def wp_bind
proof (rule wp_and_mI, rule wp_mono[OF ori_setup_live[OF assms]])
  have card: "octo_hw (answer e)" using assms by (simp add: good_env_def)
  fix ok and t :: ring_session
  assume t: "ok \<and> writes (log t) = writes (log ori_locals) \<and>
     ram t = ori_fill_canaries (ram ori_locals)"
  have w: "writes (log t) = []" using t by (simp add: ori_locals_def)
  have "wp (ori_precondition e) (\<lambda>ok. wp (if ok then ori_run e else State_Monad.return ())
      (\<lambda>_. exit_success)) t"
  proof (rule meets_wp[OF meets_ori_precondition[OF card]], unfold if_True)
    show "shadow (log t) = Map.empty" using w by (simp add: shadow_map_of)
    fix rs :: history
    assume "reads rs"
    then show "wp (ori_run e) (\<lambda>_. exit_success) (t\<lparr>log := rs @ log t\<rparr>)"
      by (intro ori_run_live[OF assms, where m = "ram ori_locals"]) (use w t in simp_all)
  qed
  then show "(ok \<longrightarrow> wp (ori_precondition e) (\<lambda>ok. wp (if ok then ori_run e
      else State_Monad.return ()) (\<lambda>_. exit_success)) t) \<and>
      (\<not> ok \<longrightarrow> wp (if False then ori_run e else State_Monad.return ()) (\<lambda>_. exit_success) t)"
    using t by simp
qed

definition ori_zeroed :: "ring_session \<Rightarrow> bool" where
  "ori_zeroed s \<longleftrightarrow> exit_success s \<and>
     (\<forall>d<8. \<forall>r<2. \<forall>w<10. shadow (log s) (ring_reg d r w) \<in> {None, Some 0}) \<and>
     shadow (log s) DMA_CONTROL = None"

lemma ori_restore_live:
  assumes "good_env e" "ori_attempted e s" "exit_success s"
  shows "wp (ori_restore e) (\<lambda>_. ori_zeroed) s"
proof -
  have card: "octo_hw (answer e)" using assms(1) by (simp add: good_env_def)
  have pub: "rings_published s" and own: "owned s = whole"
    using assms(2,3) by (auto simp: ori_attempted_def split: if_splits)
  have b: "bar_ok s" using own owns_iff[of BarMap s] by simp
  obtain i j where ij: "writes (log s) = dsp0_publish_stores i j"
    using assms(2) pub by (auto simp: ori_attempted_def)
  have words: "shadow h (ring_reg d r w) \<in> {None, Some 0}"
    if "writes h = writes (log s) @ dsp0_clear_stores" "d < 8" "r < 2" "w < 10" for h d r w
  proof -
    have "shadow h = published_map i j ++ map_of (rev dsp0_clear_stores)"
      using shadow_after[OF that(1)] ij by (simp add: shadow_map_of)
    moreover have "map_of (rev dsp0_clear_stores) (ring_reg d r w) \<in> {None, Some 0}"
      by (rule zero_stores) (auto simp: dsp0_clear_stores_def)
    moreover have "d = 0 \<Longrightarrow> map_of (rev dsp0_clear_stores) (ring_reg d r w) = Some 0"
      using that cleared_word by simp
    moreover have "d \<noteq> 0 \<Longrightarrow> published_map i j (ring_reg d r w) = None"
      using that published_word by simp
    ultimately show ?thesis by (cases "d = 0") (auto simp: map_add_def)
  qed
  have dma: "shadow h DMA_CONTROL = None" if "writes h = writes (log s) @ dsp0_clear_stores" for h
    using shadow_after[OF that] ij dsp0_published_dma cleared_dma by (simp add: shadow_map_of map_add_def)
  show ?thesis
    unfolding ori_restore_def wp_when_m if_P[OF conjI[OF pub b]] wp_bind wp_modify
  proof (rule wp_clear_stores)
    fix t :: ring_session
    assume t: "log t = rev (map (\<lambda>(a, v). Wr a v) dsp0_clear_stores) @ log s" "ori_rest t = ori_rest s"
    have ex: "exit_success t" using t(2) assms(3) by (cases s; cases t; simp)
    have w: "writes (log t) = writes (log s) @ dsp0_clear_stores" by (simp add: t(1) writes_rev_stores)
    show "wp (ori_all_ring_words_zero e) (\<lambda>b u. wp (if b then State_Monad.return () else fail)
        (\<lambda>_. ori_zeroed) (u\<lparr>restore_ok := b\<rparr>)) t"
    proof (rule meets_wp[OF meets_cold_rings[OF card]], use words[OF w] in blast, unfold if_True wp_return)
      fix rs :: history
      assume "reads rs"
      then show "ori_zeroed (t\<lparr>log := rs @ log t, restore_ok := True\<rparr>)"
        using words[OF w] dma[OF w] ex by (simp add: ori_zeroed_def)
    qed
  qed
qed

lemma ori_reset_live:
  assumes "good_env e" "ori_zeroed s"
  shows "wp (ori_reset e) (\<lambda>_. exit_success) s"
proof (cases "\<not> device_fd s < 0 \<and> bar_ok s")
  case True
  have card: "octo_hw (answer e)" and r: "device_reset e = 0" using assms(1) by (simp_all add: good_env_def)
  show ?thesis
    unfolding ori_reset_def wp_when_m if_P[OF True] reset_device_def wp_bind wp_modify wp_emit wp_return
      ori_all_dsps_ready_def ori_reads r
    by (rule meets_wp[OF meets_and_m[OF meets_check meets_and_m[OF meets_cold_rings[OF card]
            meets_and_m[OF meets_dma[OF card] meets_ready[OF card]]]]])
      (use assms(2) in \<open>simp_all add: ori_zeroed_def stored_at_def wp_simps\<close>)
next
  case False
  show ?thesis
    unfolding ori_reset_def wp_when_m if_not_P[OF False] using assms(2) by (simp add: ori_zeroed_def)
qed

lemma ori_live:
  assumes "good_env e" "unmap_ok e (8 * 4096)" "length argv = 1"
  shows "exit_success (ori_final e argv)"
proof -
  have report: "wp (ori_report e) (\<lambda>_. exit_success) t" if "exit_success t" for t :: ring_session
    by (rule ori_report_wp) (use that in simp)
  have "wp (do { ori_attempt e; ori_cleanup e; teardown e (8 * 4096); ori_report e })
      (\<lambda>_. exit_success) ori_locals"
    unfolding wp_bind ori_cleanup_def
  proof (rule wp_mono[OF wp_conjI[OF ori_attempt_attempted ori_attempt_live[OF assms(1)]]])
    fix s :: ring_session
    assume s: "ori_attempted e s \<and> exit_success s"
    show "wp (ori_restore e) (\<lambda>_. wp (ori_reset e) (\<lambda>_. wp (teardown e (8 * 4096))
        (\<lambda>_. wp (ori_report e) (\<lambda>_. exit_success)))) s"
      by (rule wp_mono[OF ori_restore_live[OF assms(1)]], use s in simp, use s in simp,
          rule wp_mono[OF ori_reset_live[OF assms(1)]], assumption,
          rule wp_mono[OF preservesD[OF teardown_live[OF assms(2)]]], assumption, erule report)
  qed
  then show ?thesis by (simp only: ori_main_effects[OF assms(3)])
qed

end
