(* ===== verification/Probe_Session.thy ===== *)
theory Probe_Session
  imports Vfio_Session
begin

text \<open>
  What the register probes \<^verbatim>\<open>tools/vfio_ring_control.c\<close> and \<^verbatim>\<open>tools/vfio_reset_recovery.c\<close>
  share: a VFIO session without memory or IOVA mapping, an orderly close at the end of
  \<^verbatim>\<open>main\<close>, \<^verbatim>\<open>die\<close> (exit at once, the kernel closes the descriptors) at every failure before,
  and loops that count ring words.
\<close>

section \<open>Opening and closing\<close>

text \<open>A step that returns false stands for a call of \<^verbatim>\<open>die\<close>.\<close>

definition attach_iommu :: "vfio_env \<Rightarrow> ('a session_scheme, bool) state" where
  "attach_iommu e = check (\<not> set_iommu e < 0)"

definition close_probe :: "('a session_scheme, unit) state" where
  "close_probe =
     do { emit (Release BarMap);
          emit (Release VfioDevice);
          detach_group;
          emit (Release VfioGroup);
          emit (Release VfioContainer) }"

definition probe_held :: "resource set" where
  "probe_held = {BarMap, VfioDevice, VfioAttached, VfioGroup, VfioContainer}"

lemma probe_held_bar [simp]: "BarMap \<in> probe_held"
  by (simp add: probe_held_def)

lemma setup_attach_iommu [setup_intros]: "setup_to F X (attach_iommu e) X"
  unfolding attach_iommu_def by (rule setup_check)

lemma world_close:
  assumes "session_world probe_held h"
  shows "session_world {} (Release VfioContainer # Release VfioGroup # Release VfioAttached #
    Release VfioDevice # Release BarMap # h)"
proof -
  have 1: "session_world {VfioDevice, VfioAttached, VfioGroup, VfioContainer} (Release BarMap # h)"
    using session_release[OF assms, of BarMap] by (simp add: probe_held_def closed_def)
  have 2: "session_world {VfioAttached, VfioGroup, VfioContainer} (Release VfioDevice # Release BarMap # h)"
    using session_release[OF 1, of VfioDevice] by (simp add: closed_def)
  have 3: "session_world {VfioGroup, VfioContainer}
      (Release VfioAttached # Release VfioDevice # Release BarMap # h)"
    using session_release[OF 2, of VfioAttached] by (simp add: closed_def)
  have 4: "session_world {VfioContainer}
      (Release VfioGroup # Release VfioAttached # Release VfioDevice # Release BarMap # h)"
    using session_release[OF 3, of VfioGroup] by (simp add: closed_def)
  show ?thesis using session_release[OF 4, of VfioContainer] by (simp add: closed_def)
qed

lemma close_probe_wp:
  assumes "idle probe_held s"
    and "\<And>t evs. t = s\<lparr>log := evs @ log s\<rparr> \<Longrightarrow> writes evs = [] \<Longrightarrow> released True m (log t) \<Longrightarrow> Q () t"
  shows "wp close_probe Q s"
proof -
  have s: "session_world probe_held (log s)" "\<not> engines_on (log s)" "owned s = probe_held"
    using assms(1) by (simp_all add: idle_def inside_def)
  have c: "container_set s" using owns_iff[of VfioAttached s] s(3) by (simp add: probe_held_def)
  have "released True m (Release VfioContainer # Release VfioGroup # Release VfioAttached #
    Release VfioDevice # Release BarMap # log s)"
    using world_close[OF s(1)] s(2) by (simp add: released_def session_world_def holds_def)
  then show ?thesis
    using assms(2)[of _ "[Release VfioContainer, Release VfioGroup, Release VfioAttached,
      Release VfioDevice, Release BarMap]"] c
    by (simp add: close_probe_def detach_group_def wp_simps)
qed

section \<open>Counting ring words\<close>

text \<open>
  \<open>nonzero\<close> counts the words that do not read zero; \<open>unexpected\<close> is the offset of the last of
  them that is not the target. There are 256 words, so the C counter cannot wrap.
\<close>

fun tally :: "u32 \<Rightarrow> u32 \<times> u32 \<Rightarrow> nat \<times> u32 \<Rightarrow> nat \<times> u32" where
  "tally target (offset, v) (nonzero, unexpected) =
     (if v \<noteq> 0 then (nonzero + 1, if offset \<noteq> target then offset else unexpected)
      else (nonzero, unexpected))"

definition count_ring_words :: "'s rd \<Rightarrow> u32 \<Rightarrow> ('s, nat \<times> u32) state" where
  "count_ring_words rd target =
     fold_m (\<lambda>dsp. fold_m (\<lambda>ring. fold_m (\<lambda>field acc.
       let offset = ring_base dsp ring + of_nat field * 4 in
       do { v \<leftarrow> rd offset; State_Monad.return (tally target (offset, v) acc) })
       [0..<16]) [0..<2]) [0..<8] (0, 0)"

definition all_ring_offsets :: "u32 list" where
  "all_ring_offsets = map (\<lambda>(d, r, w). ring_reg d r w) (ring_words 16)"

lemma set_all_ring_offsets: "a \<in> set all_ring_offsets \<longleftrightarrow> (\<exists>d<8. \<exists>r<2. \<exists>w<16. a = ring_reg d r w)"
  by (auto simp: all_ring_offsets_def set_ring_words image_iff)

lemma wp_fold_reads:
  assumes "\<And>vs. length vs = length xs \<Longrightarrow>
     Q (fold (\<lambda>(x, v). g x v) (zip xs vs) a) (s\<lparr>log := rev (map2 (\<lambda>x. Rd (addr x)) xs vs) @ log s\<rparr>)"
  shows "wp (fold_m (\<lambda>x acc. do { v \<leftarrow> bus_read hw (addr x); State_Monad.return (g x v acc) }) xs a) Q s"
  using assms
proof (induction xs arbitrary: a s)
  case Nil
  then show ?case by (simp add: wp_simps)
next
  case (Cons x xs)
  let ?v = "hw (log s) (addr x)"
  have "wp (fold_m (\<lambda>x acc. do { v \<leftarrow> bus_read hw (addr x); State_Monad.return (g x v acc) })
    xs (g x ?v a)) Q (s\<lparr>log := Rd (addr x) ?v # log s\<rparr>)"
  proof (rule Cons.IH)
    fix vs :: "u32 list"
    let ?h = "rev (map2 (\<lambda>x. Rd (addr x)) xs vs)"
    assume "length vs = length xs"
    then show "Q (fold (\<lambda>(x, v). g x v) (zip xs vs) (g x ?v a))
        (s\<lparr>log := Rd (addr x) ?v # log s, log := ?h @ log (s\<lparr>log := Rd (addr x) ?v # log s\<rparr>)\<rparr>)"
      using Cons.prems[of "?v # vs"] by simp
  qed
  then show ?case by (simp add: wp_simps)
qed

lemma fold_tally_wp:
  assumes "\<And>vs. length vs = length offs \<Longrightarrow>
     Q (fold (tally target) (zip offs vs) a) (s\<lparr>log := rev (map2 Rd offs vs) @ log s\<rparr>)"
  shows "wp (fold_m (\<lambda>off acc. do { v \<leftarrow> bus_read hw off; State_Monad.return (tally target (off, v) acc) })
    offs a) Q s"
  by (rule wp_fold_reads[where addr = "\<lambda>off. off"]) (use assms in \<open>simp add: case_prod_eta\<close>)

lemma count_as_fold:
  "count_ring_words rd target = fold_m (\<lambda>off acc.
     do { v \<leftarrow> rd off; State_Monad.return (tally target (off, v) acc) }) all_ring_offsets (0, 0)"
proof -
  let ?f = "\<lambda>off acc. do { v \<leftarrow> rd off; State_Monad.return (tally target (off, v) acc) }"
  have "fold_m (\<lambda>(d, r, w). ?f (ring_base d r + of_nat w * 4)) xs a =
      fold_m (\<lambda>(d, r, w). ?f (ring_reg d r w)) xs a" if "set xs \<subseteq> set (ring_words 16)" for xs a
    using that
  proof (induction xs arbitrary: a)
    case (Cons x xs)
    obtain d r w where x: "x = (d, r, w)" "d < 8" using Cons.prems by (auto simp: set_ring_words)
    have "fold_m (\<lambda>(d, r, w). ?f (ring_base d r + of_nat w * 4)) xs =
        fold_m (\<lambda>(d, r, w). ?f (ring_reg d r w)) xs"
      using Cons by (intro ext) simp
    then show ?case by (simp only: fold_m.simps x prod.case ring_base_word[OF x(2)])
  qed simp
  then show ?thesis
    unfolding count_ring_words_def Let_def fold_m_ring_words[of "\<lambda>d r w. ?f (ring_base d r + of_nat w * 4)"]
      all_ring_offsets_def fold_m_map
    by (simp add: case_prod_unfold)
qed

lemma tally_result:
  assumes "fold (tally target) zs (n, u) = (m, v)"
  shows "m = n + length (filter (\<lambda>z. snd z \<noteq> 0) zs)"
    and "v = 0 \<Longrightarrow> \<forall>z\<in>set zs. fst z \<noteq> 0 \<Longrightarrow> u = 0 \<and> (\<forall>z\<in>set zs. snd z \<noteq> 0 \<longrightarrow> fst z = target)"
  using assms
proof (induction zs arbitrary: n u)
  case Nil
  { case 1 then show ?case by simp }
  { case 2 then show ?case by simp }
next
  case (Cons z zs)
  obtain off x where z: "z = (off, x)" by (cases z)
  { case 1
    then show ?case using Cons.IH(1)[of "fst (tally target z (n, u))" "snd (tally target z (n, u))"]
      by (auto simp: z split: if_splits) }
  { case 2
    then have "snd (tally target z (n, u)) = 0 \<and> (\<forall>z\<in>set zs. snd z \<noteq> 0 \<longrightarrow> fst z = target)"
      using Cons.IH(2)[of "fst (tally target z (n, u))" "snd (tally target z (n, u))"] by simp
    with 2 show ?case by (auto simp: z split: if_splits) }
qed

text \<open>What the two outcomes the tools accept say about the loads.\<close>

definition one_word_seen :: "u32 \<Rightarrow> (u32 \<times> (u32 \<Rightarrow> bool)) set" where
  "one_word_seen target = rings_seen (\<lambda>d r w v. v \<noteq> 0 \<longleftrightarrow> ring_reg d r w = target)"

definition zero_words_seen :: "(u32 \<times> (u32 \<Rightarrow> bool)) set" where
  "zero_words_seen = rings_seen (\<lambda>_ _ _ v. v = 0)"

lemma ring_offset_nonzero: "a \<in> set all_ring_offsets \<Longrightarrow> a \<noteq> 0"
proof -
  assume "a \<in> set all_ring_offsets"
  then obtain d r w where "d < 8" "r < 2" "w < 16" "a = ring_reg d r w"
    by (auto simp: set_all_ring_offsets)
  then show ?thesis using unat_ring_reg[of d r w] ring_addr_bounds[of d r w] by auto
qed

lemma distinct_ring_offsets: "distinct all_ring_offsets"
proof -
  have "ring_words 16 = List.product [0..<8] (List.product [0..<2] [0..<16])"
    by (simp only: ring_words_def product_concat_map map_concat map_map comp_def)
  then have "distinct (ring_words 16)" by (simp only: distinct_product distinct_upt)
  moreover have "inj_on (\<lambda>(d, r, w). ring_reg d r w) (set (ring_words 16))"
    by (auto simp: inj_on_def set_ring_words ring_reg_eq_iff)
  ultimately show ?thesis by (simp add: all_ring_offsets_def distinct_map)
qed

lemma count_wp:
  assumes "\<And>n u rs. reads rs \<Longrightarrow> n \<le> 256 \<Longrightarrow> (n = 0 \<Longrightarrow> seen zero_words_seen rs) \<Longrightarrow>
      (n = 1 \<Longrightarrow> u = 0 \<Longrightarrow> seen (one_word_seen target) rs) \<Longrightarrow> Q (n, u) (s\<lparr>log := rs @ log s\<rparr>)"
  shows "wp (count_ring_words (bus_read hw) target) Q s"
  unfolding count_as_fold
proof (rule fold_tally_wp)
  fix vs :: "u32 list"
  let ?o = all_ring_offsets
  let ?zs = "zip ?o vs" and ?rs = "rev (map2 Rd ?o vs)"
  assume len: "length vs = length ?o"
  obtain n u where nu: "fold (tally target) ?zs (0, 0) = (n, u)" by fastforce
  have n: "n = length (filter (\<lambda>z. snd z \<noteq> 0) ?zs)" using tally_result(1)[OF nu] by simp
  have entry: "\<exists>v. (ring_reg d r w, v) \<in> set ?zs" if "d < 8" "r < 2" "w < 16" for d r w
  proof -
    have "ring_reg d r w \<in> set ?o" using that by (auto simp: set_all_ring_offsets)
    then show ?thesis using len by (metis in_set_impl_in_set_zip1)
  qed
  have load: "Rd a v \<in> set ?rs" if "(a, v) \<in> set ?zs" for a v
    using that by (force simp: image_iff)
  have reads: "reads ?rs"
    by (simp add: list_all_iff) auto
  have le: "n \<le> 256"
  proof -
    have "length ?o = 256" by (simp add: all_ring_offsets_def ring_words_def sum_list_triv length_concat comp_def)
    then show ?thesis using n length_filter_le[of "\<lambda>z. snd z \<noteq> 0" ?zs] len by simp
  qed
  have zero: "seen zero_words_seen ?rs" if "n = 0"
  proof -
    have "\<forall>z\<in>set ?zs. snd z = 0" using that n by (simp add: filter_empty_conv)
    then show ?thesis
      using entry load by (fastforce simp: seen_def zero_words_seen_def rings_seen_def)
  qed
  have one: "seen (one_word_seen target) ?rs" if "n = 1" "u = 0"
  proof -
    have nz: "\<forall>z\<in>set ?zs. fst z \<noteq> 0"
      using ring_offset_nonzero by (auto dest: set_zip_leftD)
    have only: "\<forall>z\<in>set ?zs. snd z \<noteq> 0 \<longrightarrow> fst z = target"
      using tally_result(2)[OF nu that(2) nz] by simp
    have "filter (\<lambda>z. snd z \<noteq> 0) ?zs \<noteq> []" using that(1) n by auto
    then obtain z where z: "z \<in> set ?zs" "snd z \<noteq> 0" by (auto simp: filter_empty_conv)
    have uniq: "v = snd z" if "(target, v) \<in> set ?zs" for v
    proof -
      have "distinct (map fst ?zs)" using distinct_ring_offsets len by simp
      moreover have "z = (target, snd z)" using only z by (metis prod.collapse)
      ultimately show ?thesis using that z(1) by (metis eq_key_imp_eq_value)
    qed
    have "\<exists>v. (v \<noteq> 0 \<longleftrightarrow> ring_reg d r w = target) \<and> Rd (ring_reg d r w) v \<in> set ?rs"
      if dr: "d < 8" "r < 2" "w < 16" for d r w
    proof -
      obtain v where v: "(ring_reg d r w, v) \<in> set ?zs" using entry[OF dr] by blast
      then have "v \<noteq> 0 \<longleftrightarrow> ring_reg d r w = target" using only uniq z(2) by auto
      then show ?thesis using load[OF v] by blast
    qed
    then show ?thesis by (auto simp: seen_def one_word_seen_def rings_seen_def)
  qed
  show "Q (fold (tally target) ?zs (0, 0)) (s\<lparr>log := ?rs @ log s\<rparr>)"
    unfolding nu by (rule assms[OF reads le zero one])
qed

lemma preserves_count:
  assumes "keeps_rd I rd"
  shows "preserves I (count_ring_words rd target)"
  unfolding count_ring_words_def Let_def
  by (intro preserves_intros keeps_rdD[OF assms]) (simp_all add: ring_base_word)

end
