(* ===== verification/Ring_Control.thy ===== *)
theory Ring_Control
  imports Probe_Session
begin

text \<open>
  \<^verbatim>\<open>tools/vfio_ring_control.c\<close> (experiments 005 and 006): store 1 to one control word of the
  command ring of DSP 0, check that nothing else moved, store 0 back, reset the device. \<^verbatim>\<open>die\<close>
  is the result \<open>None\<close>; \<open>Some b\<close> is a return from \<^verbatim>\<open>main\<close>, with exit status 0 when \<open>b\<close>.
\<close>

section \<open>The program\<close>

definition DSP0_CMD_POINTER :: u32 where "DSP0_CMD_POINTER = 0x2020"
definition DSP0_CMD_DOORBELL :: u32 where "DSP0_CMD_DOORBELL = 0x2024"

definition rc_mmio_read32 :: "vfio_env \<Rightarrow> u32 \<Rightarrow> (session, u32) state" where
  "rc_mmio_read32 e offset = bus_read (answer e) offset"

definition rc_mmio_write32 :: "u32 \<Rightarrow> u32 \<Rightarrow> (session, unit) state" where
  "rc_mmio_write32 offset v = bus_write offset v"

definition count_nonzero_ring_words :: "vfio_env \<Rightarrow> u32 \<Rightarrow> (session, nat \<times> u32) state" where
  "count_nonzero_ring_words e target = count_ring_words (rc_mmio_read32 e) target"

definition identity_and_dsps_match :: "vfio_env \<Rightarrow> (session, bool) state" where
  "identity_and_dsps_match e =
     and_m (read_is (rc_mmio_read32 e) FPGA_REVISION EXPECTED_FPGA_REVISION)
    (and_m (read_is (rc_mmio_read32 e) EXTENDED_CAPABILITIES EXPECTED_CAPABILITIES)
    (and_m (read_is (rc_mmio_read32 e) DMA_CONTROL DMA_COLD_RESET)
           (scan_ready (rc_mmio_read32 e))))"

text \<open>The command line: which word is written, and the name of the experiment.\<close>

definition rc_target :: "string list \<Rightarrow> (u32 \<times> string) option" where
  "rc_target argv =
     (if length argv = 2 \<and> argv ! 1 = ''--experiment-006'' then
        Some (DSP0_CMD_DOORBELL, ''006-ring-doorbell-write'')
      else if length argv = 1 then Some (DSP0_CMD_POINTER, ''005-ring-control-write'')
      else None)"

definition rc_device_valid :: "vfio_env \<Rightarrow> bool" where
  "rc_device_valid e \<longleftrightarrow>
     \<not> device_info e < 0 \<and> device_is_pci e \<and> device_resets e \<and> \<not> region_info e < 0 \<and>
     region_size e = BAR0_SIZE \<and> region_read e \<and> region_write e \<and> region_mmap e"

definition rc_setup :: "vfio_env \<Rightarrow> (session, bool) state" where
  "rc_setup e =
     and_m (open_container e)
    (and_m (open_group e)
    (and_m (attach_group e)
    (and_m (attach_iommu e)
    (and_m (open_device e (rc_device_valid e))
           (map_bar e)))))"

definition rc_baseline :: "vfio_env \<Rightarrow> u32 \<Rightarrow> (session, nat \<times> bool) state" where
  "rc_baseline e target =
     do { (nonzero, _) \<leftarrow> count_nonzero_ring_words e target;
          ok \<leftarrow> and_m (check (nonzero = 0)) (identity_and_dsps_match e);
          State_Monad.return (nonzero, ok) }"

text \<open>The check after the store of 1, made at once and again after the wait.\<close>

definition rc_check_one :: "vfio_env \<Rightarrow> u32 \<Rightarrow> (session, u32 \<times> nat \<times> bool) state" where
  "rc_check_one e target =
     do { readback \<leftarrow> rc_mmio_read32 e target;
          (nonzero, unexpected) \<leftarrow> count_nonzero_ring_words e target;
          exact \<leftarrow> and_m (check (readback = 1 \<and> nonzero = 1 \<and> unexpected = 0))
                        (identity_and_dsps_match e);
          State_Monad.return (readback, nonzero, exact) }"

definition rc_check_restored :: "vfio_env \<Rightarrow> u32 \<Rightarrow> (session, u32 \<times> nat \<times> bool) state" where
  "rc_check_restored e target =
     do { readback \<leftarrow> rc_mmio_read32 e target;
          (nonzero, _) \<leftarrow> count_nonzero_ring_words e target;
          restored \<leftarrow> and_m (check (readback = 0 \<and> nonzero = 0)) (identity_and_dsps_match e);
          State_Monad.return (readback, nonzero, restored) }"

definition rc_report :: "string \<Rightarrow> u32 \<Rightarrow> nat \<Rightarrow> u32 \<times> nat \<times> bool \<Rightarrow> u32 \<times> nat \<times> bool \<Rightarrow>
  u32 \<times> nat \<times> bool \<Rightarrow> nat \<times> bool \<Rightarrow> string list" where
  "rc_report experiment target nonzero_before written waited restored reset =
     (let (write_readback, nonzero_after_write, after_write_exact) = written;
          (wait_readback, nonzero_after_wait, after_wait_exact) = waited;
          (restore_readback, nonzero_after_restore, restored) = restored;
          (nonzero_after_reset, reset_recovered) = reset in
      [''{'',
       ''  \"experiment\": \"'' @ experiment @ ''\",'',
       ''  \"target_offset\": \"0x'' @ hex 4 (unat target) @ ''\",'',
       json_number ''dma_mappings'' 0,
       json_number ''dma_control_writes'' 0,
       json_number ''ring_control_writes'' 2,
       json_number ''vfio_device_reset_calls'' 1,
       json_number ''nonzero_before'' nonzero_before,
       json_word ''write_one_readback'' write_readback,
       json_number ''nonzero_after_write'' nonzero_after_write,
       json_flag ''after_write_exact'' after_write_exact,
       json_word ''wait_readback'' wait_readback,
       json_number ''nonzero_after_wait'' nonzero_after_wait,
       json_flag ''after_wait_exact'' after_wait_exact,
       json_word ''restore_readback'' restore_readback,
       json_number ''nonzero_after_restore'' nonzero_after_restore,
       json_flag ''restored'' restored,
       json_number ''nonzero_after_reset'' nonzero_after_reset,
       json_flag ''reset_recovered'' reset_recovered,
       ''  \"success\": '' @ (if after_write_exact \<and> after_wait_exact \<and> restored \<and> reset_recovered
         then ''true'' else ''false''),
       ''}''])"

text \<open>From the device reset to the end of \<^verbatim>\<open>main\<close>, and the two stores before it.\<close>

definition rc_finish :: "vfio_env \<Rightarrow> u32 \<Rightarrow> string \<Rightarrow> nat \<Rightarrow> u32 \<times> nat \<times> bool \<Rightarrow>
  u32 \<times> nat \<times> bool \<Rightarrow> u32 \<times> nat \<times> bool \<Rightarrow> (session, bool option) state" where
  "rc_finish e target experiment nonzero_before written waited restored =
     do { emit DeviceReset;
          if device_reset e < 0 then State_Monad.return None
          else do {
            reset \<leftarrow> rc_baseline e target;
            modify (\<lambda>s. s\<lparr>stdout := stdout s @
              rc_report experiment target nonzero_before written waited restored reset\<rparr>);
            close_probe;
            State_Monad.return (Some (snd (snd written) \<and> snd (snd waited) \<and>
              snd (snd restored) \<and> snd reset)) } }"

definition rc_exercise :: "vfio_env \<Rightarrow> u32 \<Rightarrow> string \<Rightarrow> nat \<Rightarrow> (session, bool option) state" where
  "rc_exercise e target experiment nonzero_before =
     do { rc_mmio_write32 target 1;
          written \<leftarrow> rc_check_one e target;
          nanosleep 250000000;
          waited \<leftarrow> rc_check_one e target;
          rc_mmio_write32 target 0;
          restored \<leftarrow> rc_check_restored e target;
          rc_finish e target experiment nonzero_before written waited restored }"

definition rc_run :: "vfio_env \<Rightarrow> u32 \<Rightarrow> string \<Rightarrow> (session, bool option) state" where
  "rc_run e target experiment =
     do { (nonzero_before, cold) \<leftarrow> rc_baseline e target;
          if \<not> cold then State_Monad.return None
          else rc_exercise e target experiment nonzero_before }"

definition rc_main :: "vfio_env \<Rightarrow> string list \<Rightarrow> (session, bool option) state" where
  "rc_main e argv =
     (case rc_target argv of
        None \<Rightarrow> State_Monad.return (Some False)
      | Some (target, experiment) \<Rightarrow>
          do { ok \<leftarrow> rc_setup e;
               if ok then rc_run e target experiment else State_Monad.return None })"

definition probe_locals :: session where
  "probe_locals = \<lparr>log = [], container_fd = -1, group_fd = -1, device_fd = -1,
     container_set = False, dma_mapped = False, memory_ok = False, bar_ok = False,
     ram = (\<lambda>_. 0), exit_success = False, stdout = []\<rparr>"

section \<open>What a run does\<close>

abbreviation "rc_rest \<equiv> \<lambda>s :: session. s\<lparr>log := []\<rparr>"

interpretation rc_port: mmio_port "rc_mmio_read32 e" rc_mmio_write32 log rc_rest "answer e" for e
  by unfold_locales (simp_all add: rc_mmio_read32_def rc_mmio_write32_def)

definition identity_seen :: "(u32 \<times> (u32 \<Rightarrow> bool)) set" where
  "identity_seen = {(FPGA_REVISION, \<lambda>v. v = EXPECTED_FPGA_REVISION)} \<union>
     ({(EXTENDED_CAPABILITIES, \<lambda>v. v = EXPECTED_CAPABILITIES)} \<union>
      ({(DMA_CONTROL, \<lambda>v. v = DMA_COLD_RESET)} \<union> ready_seen))"

lemma identity_checks: "checks log rc_rest (identity_and_dsps_match e) identity_seen"
  unfolding identity_and_dsps_match_def identity_seen_def
  by (intro checks_and_m rc_port.checks_read_is rc_port.checks_ready)

lemma rc_reads: "rc_mmio_read32 e = bus_read (answer e)"
  by (simp add: fun_eq_iff rc_mmio_read32_def)

lemma wp_check_and:
  assumes "\<And>b rs. reads rs \<Longrightarrow> (b \<Longrightarrow> c \<and> seen identity_seen rs) \<Longrightarrow> Q b (s\<lparr>log := rs @ log s\<rparr>)"
  shows "wp (and_m (check c) (identity_and_dsps_match e)) Q s"
proof (cases c)
  case True
  show ?thesis unfolding wp_and_m check_def wp_return if_P[OF True]
    by (rule read_only_wp[OF identity_checks], rule assms) (use True in simp_all)
next
  case False
  show ?thesis unfolding wp_and_m check_def wp_return if_not_P[OF False]
    using assms[of "[]" False] by simp
qed

lemma rc_baseline_wp:
  assumes "\<And>n b rs. reads rs \<Longrightarrow> (b \<Longrightarrow> seen (zero_words_seen \<union> identity_seen) rs) \<Longrightarrow>
      Q (n, b) (s\<lparr>log := rs @ log s\<rparr>)"
  shows "wp (rc_baseline e target) Q s"
  unfolding rc_baseline_def count_nonzero_ring_words_def rc_reads wp_bind
proof (rule count_wp, simp only: prod.case wp_bind wp_return, rule wp_check_and)
  fix n :: nat and u :: u32 and b and rs qs :: history
  assume r: "reads rs" "n = 0 \<Longrightarrow> seen zero_words_seen rs" "reads qs" "b \<Longrightarrow> n = 0 \<and> seen identity_seen qs"
  have "Q (n, b) (s\<lparr>log := (qs @ rs) @ log s\<rparr>)"
  proof (rule assms)
    show "reads (qs @ rs)" using r by simp
    assume b
    then have "seen zero_words_seen rs" "seen identity_seen qs" using r by simp_all
    then show "seen (zero_words_seen \<union> identity_seen) (qs @ rs)"
      by (auto simp: seen_union intro: seen_mono)
  qed
  then show "Q (n, b) (s\<lparr>log := rs @ log s, log := qs @ log (s\<lparr>log := rs @ log s\<rparr>)\<rparr>)" by simp
qed

definition exact_seen :: "u32 \<Rightarrow> (u32 \<times> (u32 \<Rightarrow> bool)) set" where
  "exact_seen target = {(target, \<lambda>v. v = 1)} \<union> (one_word_seen target \<union> identity_seen)"

lemma rc_check_one_wp:
  assumes "\<And>v n b rs. reads rs \<Longrightarrow> (b \<Longrightarrow> seen (exact_seen target) rs) \<Longrightarrow>
      Q (v, n, b) (s\<lparr>log := rs @ log s\<rparr>)"
  shows "wp (rc_check_one e target) Q s"
  unfolding rc_check_one_def count_nonzero_ring_words_def rc_reads wp_bind wp_bus_read
proof (rule count_wp[where target = target], simp only: prod.case wp_bind wp_return, rule wp_check_and)
  fix n :: nat and u :: u32 and b and rs qs :: history
  let ?v = "answer e (log s) target"
  assume r: "reads rs" "n = 1 \<Longrightarrow> u = 0 \<Longrightarrow> seen (one_word_seen target) rs" "reads qs"
    "b \<Longrightarrow> (?v = 1 \<and> n = 1 \<and> u = 0) \<and> seen identity_seen qs"
  have "Q (?v, n, b) (s\<lparr>log := (qs @ rs @ [Rd target ?v]) @ log s\<rparr>)"
  proof (rule assms)
    show "reads (qs @ rs @ [Rd target ?v])" using r by simp
    assume b
    then have "seen (one_word_seen target) rs" "seen identity_seen qs" "?v = 1" using r by simp_all
    moreover from this(3) have "seen {(target, \<lambda>v. v = 1)} (qs @ rs @ [Rd target ?v])"
      by (simp add: seen_def)
    ultimately show "seen (exact_seen target) (qs @ rs @ [Rd target ?v])"
      unfolding exact_seen_def seen_union by (auto elim!: seen_mono)
  qed
  then show "Q (?v, n, b) (s\<lparr>log := Rd target ?v # log s,
      log := rs @ log (s\<lparr>log := Rd target ?v # log s\<rparr>),
      log := qs @ log (s\<lparr>log := Rd target ?v # log s, log := rs @ log (s\<lparr>log := Rd target ?v # log s\<rparr>)\<rparr>)\<rparr>)"
    by simp
qed

lemma rc_check_restored_wp:
  assumes "\<And>v n b rs. reads rs \<Longrightarrow> (b \<Longrightarrow> seen (zero_words_seen \<union> identity_seen) rs) \<Longrightarrow>
      Q (v, n, b) (s\<lparr>log := rs @ log s\<rparr>)"
  shows "wp (rc_check_restored e target) Q s"
  unfolding rc_check_restored_def count_nonzero_ring_words_def rc_reads wp_bind wp_bus_read
proof (rule count_wp[where target = target], simp only: prod.case wp_bind wp_return, rule wp_check_and)
  fix n :: nat and u :: u32 and b and rs qs :: history
  let ?v = "answer e (log s) target"
  assume r: "reads rs" "n = 0 \<Longrightarrow> seen zero_words_seen rs" "reads qs"
    "b \<Longrightarrow> (?v = 0 \<and> n = 0) \<and> seen identity_seen qs"
  have "Q (?v, n, b) (s\<lparr>log := (qs @ rs @ [Rd target ?v]) @ log s\<rparr>)"
  proof (rule assms)
    show "reads (qs @ rs @ [Rd target ?v])" using r by simp
    assume b
    then have "seen zero_words_seen rs" "seen identity_seen qs" using r by simp_all
    then show "seen (zero_words_seen \<union> identity_seen) (qs @ rs @ [Rd target ?v])"
      unfolding seen_union by (auto elim!: seen_mono)
  qed
  then show "Q (?v, n, b) (s\<lparr>log := Rd target ?v # log s,
      log := rs @ log (s\<lparr>log := Rd target ?v # log s\<rparr>),
      log := qs @ log (s\<lparr>log := Rd target ?v # log s, log := rs @ log (s\<lparr>log := Rd target ?v # log s\<rparr>)\<rparr>)\<rparr>)"
    by simp
qed

section \<open>The whole program\<close>

lemma rc_idle_rd: "keeps_rd (idle probe_held) (rc_mmio_read32 e)"
  unfolding keeps_rd_def rc_mmio_read32_def by (intro allI impI idle_read) simp_all

lemma rc_target_cases:
  assumes "rc_target argv = Some (target, experiment)"
  shows "target = ring_reg 0 0 8 \<or> target = ring_reg 0 0 9"
  using assms by (auto simp: rc_target_def DSP0_CMD_POINTER_def DSP0_CMD_DOORBELL_def ring_reg_def
      ring_addr_def split: if_splits)

lemma rc_keeps:
  assumes "rc_target argv = Some (target, experiment)"
  shows "preserves (idle probe_held) (identity_and_dsps_match e)"
    "preserves (idle probe_held) (rc_baseline e target)"
    "preserves (idle probe_held) (rc_check_one e target)"
    "preserves (idle probe_held) (rc_check_restored e target)"
    "preserves (idle probe_held) (rc_mmio_write32 target v)"
proof -
  note keeps = preserves_read_is[OF rc_idle_rd] preserves_scan_ready[OF rc_idle_rd]
    preserves_count[OF rc_idle_rd] keeps_rdD[OF rc_idle_rd]
  have t: "in_bar target" "target \<noteq> 0x2200"
    using rc_target_cases[OF assms] ring_reg_not_global(1)[of 0 0 _ "0x2200"] by auto
  show id: "preserves (idle probe_held) (identity_and_dsps_match e)"
    unfolding identity_and_dsps_match_def by (intro preserves_intros keeps) simp_all
  show "preserves (idle probe_held) (rc_baseline e target)"
    unfolding rc_baseline_def count_nonzero_ring_words_def check_def
    by (auto intro!: preserves_intros keeps id)
  show "preserves (idle probe_held) (rc_check_one e target)"
    unfolding rc_check_one_def count_nonzero_ring_words_def check_def
    by (auto intro!: preserves_intros keeps id t)
  show "preserves (idle probe_held) (rc_check_restored e target)"
    unfolding rc_check_restored_def count_nonzero_ring_words_def check_def
    by (auto intro!: preserves_intros keeps id t)
  show "preserves (idle probe_held) (rc_mmio_write32 target v)"
    unfolding rc_mmio_write32_def by (intro idle_write) (simp_all add: t)
qed

text \<open>The evidence a run with exit status 0 leaves, latest first.\<close>

definition rc_evidence :: "u32 \<Rightarrow> history \<Rightarrow> bool" where
  "rc_evidence target h \<longleftrightarrow> (\<exists>closing reset restored waited written cold.
     h = closing @ reset @ DeviceReset # restored @ Wr target 0 # waited @ Delay 250000000 #
       written @ Wr target 1 # cold \<and>
     writes cold = [] \<and> seen (zero_words_seen \<union> identity_seen) cold \<and>
     reads written \<and> seen (exact_seen target) written \<and>
     reads waited \<and> seen (exact_seen target) waited \<and>
     reads restored \<and> seen (zero_words_seen \<union> identity_seen) restored \<and>
     reads reset \<and> seen (zero_words_seen \<union> identity_seen) reset \<and> writes closing = [])"

definition rc_outcome :: "string list \<Rightarrow> bool option \<Rightarrow> session \<Rightarrow> bool" where
  "rc_outcome argv r t \<longleftrightarrow> always vfio_safe (log t) \<and> \<not> engines_on (log t) \<and>
     (r \<noteq> None \<longrightarrow> released True False (log t)) \<and>
     (case rc_target argv of
        None \<Rightarrow> writes (log t) = []
      | Some (target, _) \<Rightarrow> (writes (log t) = [] \<or> writes (log t) = [(target, 1), (target, 0)]) \<and>
          (r = Some True \<longrightarrow> rc_evidence target (log t)))"

lemma idle_safe: "idle S s \<Longrightarrow> always vfio_safe (log s) \<and> \<not> engines_on (log s)"
  by (simp add: idle_def inside_def session_world_def)

lemma idle_log: "idle S (s\<lparr>stdout := out\<rparr>) \<longleftrightarrow> idle S s"
proof -
  have "owned (s\<lparr>stdout := out\<rparr>) = owned s" by (rule owned_cong) simp_all
  then show ?thesis by (simp add: idle_def inside_def)
qed

lemma rc_finish_wp:
  fixes s :: session
  assumes "rc_target argv = Some (target, experiment)" "idle probe_held s"
    and "writes (log s) = [(target, 1), (target, 0)]"
    and "snd (snd written) \<Longrightarrow> snd (snd waited) \<Longrightarrow> snd (snd restored) \<Longrightarrow>
      (\<And>closing reset. reads reset \<Longrightarrow> seen (zero_words_seen \<union> identity_seen) reset \<Longrightarrow>
        writes closing = [] \<Longrightarrow> rc_evidence target (closing @ reset @ DeviceReset # log s))"
  shows "wp (rc_finish e target experiment nb written waited restored) (rc_outcome argv) s"
proof -
  let ?s = "s\<lparr>log := DeviceReset # log s\<rparr>"
  have i: "idle probe_held ?s"
    using assms(2) by (auto simp: idle_def inside_def owned_update intro!: world_same)
  have out: "wp close_probe (\<lambda>_. rc_outcome argv (Some (snd (snd written) \<and> snd (snd waited) \<and>
      snd (snd restored) \<and> b))) (u\<lparr>stdout := out\<rparr>)"
    if u: "u = ?s\<lparr>log := rs @ log ?s\<rparr>" "reads rs" "b \<Longrightarrow> seen (zero_words_seen \<union> identity_seen) rs"
      "idle probe_held u" for u rs b out
  proof (rule close_probe_wp)
    show "idle probe_held (u\<lparr>stdout := out\<rparr>)" using u(4) by (simp add: idle_log)
  next
    fix t :: session and evs
    assume t: "t = u\<lparr>stdout := out, log := evs @ log (u\<lparr>stdout := out\<rparr>)\<rparr>" "writes evs = []"
      "released True False (log t)"
    have l: "log t = evs @ rs @ DeviceReset # log s" using t(1) u(1) by simp
    have w: "writes (log t) = [(target, 1), (target, 0)]"
      using l t(2) u(2) assms(3) by (simp add: writes_append)
    have "rc_evidence target (log t)" if "snd (snd written) \<and> snd (snd waited) \<and> snd (snd restored) \<and> b"
      unfolding l using that u(2,3) t(2) by (intro assms(4)) simp_all
    then show "rc_outcome argv (Some (snd (snd written) \<and> snd (snd waited) \<and> snd (snd restored) \<and> b)) t"
      using t(3) w assms(1) by (auto simp: rc_outcome_def released_def)
  qed
  show ?thesis
  proof (cases "device_reset e < 0")
    case True
    have "rc_outcome argv None ?s"
      using idle_safe[OF i] assms(1,3) by (simp add: rc_outcome_def)
    then show ?thesis by (simp add: rc_finish_def wp_bind wp_emit wp_return True)
  next
    case False
    show ?thesis
      unfolding rc_finish_def wp_bind wp_emit if_not_P[OF False] wp_modify
      by (rule wp_keeping[OF rc_keeps(2)[OF assms(1)] i], rule rc_baseline_wp)
        (simp only: snd_conv wp_return, rule impI, rule out[OF refl]; simp)
  qed
qed

lemma rc_exercise_wp:
  fixes s :: session
  assumes a: "rc_target argv = Some (target, experiment)" and s: "idle probe_held s" "writes (log s) = []"
    "seen (zero_words_seen \<union> identity_seen) (log s)"
  shows "wp (rc_exercise e target experiment nb) (rc_outcome argv) s"
proof -
  have store: "wp (rc_mmio_write32 target v) Q u"
    if "idle probe_held u" "idle probe_held (u\<lparr>log := Wr target v # log u\<rparr>) \<Longrightarrow> Q () (u\<lparr>log := Wr target v # log u\<rparr>)"
    for Q v and u :: session
    by (rule wp_keeping[OF rc_keeps(5)[OF a] that(1)]) (use that(2) in \<open>simp add: rc_mmio_write32_def wp_bus_write\<close>)
  have sleep: "wp (nanosleep n) Q u"
    if "idle probe_held u" "idle probe_held (u\<lparr>log := Delay n # log u\<rparr>) \<Longrightarrow> Q () (u\<lparr>log := Delay n # log u\<rparr>)"
    for Q n and u :: session
    by (rule wp_keeping[OF idle_sleep that(1)]) (use that(2) in \<open>simp add: nanosleep_def wp_emit\<close>)
  show ?thesis
    unfolding rc_exercise_def wp_bind
    apply (rule store[OF s(1)])
    apply (rule wp_keeping[OF rc_keeps(3)[OF a]], assumption)
    apply (rule rc_check_one_wp, rule impI, rule sleep, assumption)
    apply (rule wp_keeping[OF rc_keeps(3)[OF a]], assumption)
    apply (rule rc_check_one_wp, rule impI, rule store, assumption)
    apply (rule wp_keeping[OF rc_keeps(4)[OF a]], assumption)
    apply (rule rc_check_restored_wp, rule impI)
    apply (rule rc_finish_wp[OF a], assumption)
     apply (simp add: s(2) writes_append)
    subgoal premises prems for v n b written v' n' b' waited v'' n'' b'' restored closing reset
      unfolding rc_evidence_def
      apply (rule exI[of _ closing], rule exI[of _ reset], rule exI[of _ restored], rule exI[of _ waited],
          rule exI[of _ written], rule exI[of _ "log s"])
      using prems s by simp
    done
qed

lemma rc_run_wp:
  fixes s :: session
  assumes a: "rc_target argv = Some (target, experiment)" and s: "idle probe_held s" "writes (log s) = []"
  shows "wp (rc_run e target experiment) (rc_outcome argv) s"
  unfolding rc_run_def wp_bind
proof (rule wp_keeping[OF rc_keeps(2)[OF a] s(1)], rule rc_baseline_wp, rule impI)
  fix n :: nat and b and rs :: history
  let ?t = "s\<lparr>log := rs @ log s\<rparr>"
  assume rs: "reads rs" "b \<Longrightarrow> seen (zero_words_seen \<union> identity_seen) rs" and i: "idle probe_held ?t"
  show "wp (case (n, b) of (nonzero_before, cold) \<Rightarrow> if \<not> cold then State_Monad.return None
      else rc_exercise e target experiment nonzero_before) (rc_outcome argv) ?t"
  proof (cases b)
    case True
    have "seen (zero_words_seen \<union> identity_seen) (log ?t)"
      using rs(2)[OF True] by (rule seen_mono) auto
    then show ?thesis
      using rc_exercise_wp[OF a i] rs(1) s(2) True by simp
  next
    case False
    then show ?thesis using idle_safe[OF i] rs(1) s(2) a by (simp add: wp_return rc_outcome_def)
  qed
qed

lemma rc_setup_to: "setup_to {} {} (rc_setup e) probe_held"
  unfolding rc_setup_def probe_held_def by (rule setup_intros | simp)+

lemma probe_locals_ok: "session_ok probe_locals" "owned probe_locals = {}"
proof -
  have "fresh_session probe_locals" by (simp add: fresh_session_def probe_locals_def)
  then show "session_ok probe_locals" by (rule world_empty)
  show "owned probe_locals = {}"
    by (rule set_eqI, rename_tac x, case_tac x) (simp_all add: owns_iff probe_locals_def)
qed

lemma probe_setup_wp:
  assumes "setup_to {} {} m probe_held"
    and "\<And>t. idle (owned t) t \<Longrightarrow> writes (log t) = [] \<Longrightarrow> Q False t"
    and "\<And>t. idle probe_held t \<Longrightarrow> writes (log t) = [] \<Longrightarrow> Q True t"
  shows "wp m Q probe_locals"
proof -
  have "wp m (\<lambda>b t. session_ok t \<and> session.more t = session.more probe_locals \<and>
       writes (log t) = writes (log probe_locals) \<and> exit_success t = exit_success probe_locals \<and>
       (b \<longrightarrow> owned t = probe_held)) probe_locals"
    using probe_locals_ok by (intro setup_toD[OF assms(1)]) simp_all
  then show ?thesis
  proof (rule wp_mono)
    fix b t
    assume t: "session_ok t \<and> session.more t = session.more probe_locals \<and>
       writes (log t) = writes (log probe_locals) \<and> exit_success t = exit_success probe_locals \<and>
       (b \<longrightarrow> owned t = probe_held)"
    then have w: "writes (log t) = []" by (simp add: probe_locals_def)
    with t have "idle (owned t) t" using engines_off_unwritten by (simp add: idle_def session_ok_inside)
    then show "Q b t" using assms(2,3) w t by (cases b) simp_all
  qed
qed

definition rc_final :: "vfio_env \<Rightarrow> string list \<Rightarrow> bool option \<times> session" where
  "rc_final e argv = run_state (rc_main e argv) probe_locals"

lemma rc_main_outcome: "rc_outcome argv (fst (rc_final e argv)) (snd (rc_final e argv))"
proof -
  have "wp (rc_main e argv) (rc_outcome argv) probe_locals"
  proof (cases "rc_target argv")
    case None
    have "always vfio_safe []" using world_start by (simp add: session_world_def)
    then show ?thesis
      using None by (simp add: rc_main_def wp_return rc_outcome_def probe_locals_def released_def)
  next
    case (Some p)
    obtain target label where p: "p = (target, label)" by (cases p)
    note a = Some[unfolded p]
    have "wp (do { ok \<leftarrow> rc_setup e;
               if ok then rc_run e target label else State_Monad.return None }) (rc_outcome argv)
        probe_locals"
      unfolding wp_bind
    proof (rule probe_setup_wp[OF rc_setup_to])
      fix t :: session
      assume t: "idle (owned t) t" "writes (log t) = []"
      show "wp (if False then rc_run e target label else State_Monad.return None) (rc_outcome argv) t"
        using idle_safe[OF t(1)] t(2) a by (simp add: wp_return rc_outcome_def)
    next
      fix t :: session
      assume "idle probe_held t" "writes (log t) = []"
      then show "wp (if True then rc_run e target label else State_Monad.return None) (rc_outcome argv) t"
        unfolding if_True by (rule rc_run_wp[OF a])
    qed
    then show ?thesis by (simp add: rc_main_def a)
  qed
  then show ?thesis by (simp add: rc_final_def wp_run)
qed

end
