(* ===== verification/Reset_Recovery.thy ===== *)
theory Reset_Recovery
  imports Probe_Session
begin

text \<open>
  \<^verbatim>\<open>tools/vfio_reset_recovery.c\<close> (experiment 003): check the cold baseline, reset the device once,
  and poll until the baseline is back or ten seconds have passed. The program maps BAR0
  read-only. The clock is a parameter; the polling loop carries fuel, and \<open>Unfinished\<close> is the
  result when it runs out, which the termination theorem excludes for 100 turns.
\<close>

section \<open>Snapshots\<close>

record snapshot =
  fpga_revision :: u32
  capabilities :: u32
  dma_control :: u32
  dsp_status :: "u32 list"
  zero_ring_words :: nat

record recovery = session +
  attempts :: u32
  recovered :: bool
  elapsed :: u64
  after :: snapshot

definition rr_locals :: recovery where
  "rr_locals = \<lparr>log = [], container_fd = -1, group_fd = -1, device_fd = -1,
     container_set = False, dma_mapped = False, memory_ok = False, bar_ok = False,
     ram = (\<lambda>_. 0), exit_success = False, stdout = [], attempts = 0, recovered = False, elapsed = 0,
     after = \<lparr>fpga_revision = 0, capabilities = 0, dma_control = 0, dsp_status = [],
       zero_ring_words = 0\<rparr>\<rparr>"

definition rr_mmio_read32 :: "vfio_env \<Rightarrow> u32 \<Rightarrow> (recovery, u32) state" where
  "rr_mmio_read32 e offset = bus_read (answer e) offset"

definition count_zero :: "vfio_env \<Rightarrow> nat \<Rightarrow> nat \<Rightarrow> (recovery, nat) state" where
  "count_zero e dsp zero =
     fold_m (\<lambda>ring. fold_m (\<lambda>field zero.
       do { v \<leftarrow> rr_mmio_read32 e (ring_base dsp ring + of_nat field * 4);
            State_Monad.return (if v = 0 then zero + 1 else zero) }) [0..<11]) [0..<2] zero"

definition take_snapshot :: "vfio_env \<Rightarrow> (recovery, snapshot) state" where
  "take_snapshot e =
     do { revision \<leftarrow> rr_mmio_read32 e FPGA_REVISION;
          caps \<leftarrow> rr_mmio_read32 e EXTENDED_CAPABILITIES;
          control \<leftarrow> rr_mmio_read32 e DMA_CONTROL;
          (status, zero) \<leftarrow> fold_m (\<lambda>dsp (status, zero). do {
            v \<leftarrow> rr_mmio_read32 e (boot_offsets ! dsp);
            zero \<leftarrow> count_zero e dsp zero;
            State_Monad.return (status @ [v], zero) }) [0..<8] ([], 0);
          State_Monad.return \<lparr>fpga_revision = revision, capabilities = caps, dma_control = control,
            dsp_status = status, zero_ring_words = zero\<rparr> }"

definition snapshot_matches_cold :: "snapshot \<Rightarrow> bool" where
  "snapshot_matches_cold sn \<longleftrightarrow>
     fpga_revision sn = EXPECTED_FPGA_REVISION \<and> capabilities sn = EXPECTED_CAPABILITIES \<and>
     dma_control sn = DMA_COLD_RESET \<and> zero_ring_words sn = 176 \<and>
     (\<forall>i<8. dsp_status sn ! i AND 1 \<noteq> 0)"

section \<open>The clock and the polling loop\<close>

type_synonym clock = "history \<Rightarrow> (u64 \<times> u64) option"

definition clock_ms :: "clock \<Rightarrow> history \<Rightarrow> u64 option" where
  "clock_ms clk h = map_option (\<lambda>(sec, nsec). sec * 1000 + nsec div 1000000) (clk h)"

definition monotonic_ms :: "clock \<Rightarrow> (recovery, u64 option) state" where
  "monotonic_ms clk =
     do { now \<leftarrow> gets (\<lambda>s. clock_ms clk (log s));
          case now of
            None \<Rightarrow> State_Monad.return None
          | Some t \<Rightarrow> do { emit (Clock t); State_Monad.return (Some t) } }"

datatype outcome = Died | Returned bool | Unfinished

definition RECOVERY_TIMEOUT_MS :: u64 where "RECOVERY_TIMEOUT_MS = 10000"

fun poll :: "clock \<Rightarrow> nat \<Rightarrow> vfio_env \<Rightarrow> u64 \<Rightarrow> (recovery, outcome) state" where
  "poll clk 0 e started = State_Monad.return Unfinished"
| "poll clk (Suc fuel) e started =
     do { modify (\<lambda>s. s\<lparr>attempts := attempts s + 1\<rparr>);
          sn \<leftarrow> take_snapshot e;
          modify (\<lambda>s. s\<lparr>after := sn\<rparr>);
          if snapshot_matches_cold sn then
            do { modify (\<lambda>s. s\<lparr>recovered := True\<rparr>); State_Monad.return (Returned True) }
          else do {
            nanosleep 100000000;
            now \<leftarrow> monotonic_ms clk;
            case now of
              None \<Rightarrow> State_Monad.return Died
            | Some t \<Rightarrow>
                do { modify (\<lambda>s. s\<lparr>elapsed := t - started\<rparr>);
                     if t - started < RECOVERY_TIMEOUT_MS then poll clk fuel e started
                     else State_Monad.return (Returned False) } } }"

section \<open>The program\<close>

definition rr_device_valid :: "vfio_env \<Rightarrow> bool" where
  "rr_device_valid e \<longleftrightarrow>
     \<not> device_info e < 0 \<and> device_is_pci e \<and> device_resets e \<and> \<not> region_info e < 0 \<and>
     region_size e = BAR0_SIZE \<and> region_read e \<and> region_mmap e"

definition rr_setup :: "vfio_env \<Rightarrow> (recovery, bool) state" where
  "rr_setup e =
     and_m (open_container e)
    (and_m (open_group e)
    (and_m (attach_group e)
    (and_m (attach_iommu e)
    (and_m (open_device e (rr_device_valid e))
           (map_bar e)))))"

definition rr_dsp_line :: "snapshot \<Rightarrow> nat \<Rightarrow> string" where
  "rr_dsp_line sn i =
     ''      {\"index\": '' @ dec i @ '', \"status\": \"0x'' @ hex 8 (unat (dsp_status sn ! i)) @ ''\", '' @
     ''\"ready\": '' @ (if dsp_status sn ! i AND 1 \<noteq> 0 then ''true'' else ''false'') @ ''}'' @
     (if i = 7 then '''' else '','')"

definition rr_report_lines :: "recovery \<Rightarrow> string list" where
  "rr_report_lines s =
     [''{'',
      ''  \"experiment\": \"003-reset-recovery\",'',
      json_number ''vfio_device_reset_calls'' 1,
      json_number ''dma_mappings'' 0,
      json_number ''mmio_writes'' 0,
      json_flag ''before_cold_baseline'' True,
      json_flag ''recovered'' (recovered s),
      json_number ''recovery_attempts'' (unat (attempts s)),
      json_number ''recovery_elapsed_ms'' (unat (elapsed s)),
      ''  \"after\": {'',
      ''  '' @ json_word ''fpga_revision'' (fpga_revision (after s)),
      ''  '' @ json_word ''capabilities'' (capabilities (after s)),
      ''  '' @ json_word ''dma_control'' (dma_control (after s)),
      ''  '' @ json_number ''zero_ring_words'' (zero_ring_words (after s)),
      ''    \"dsps\": [''] @ map (rr_dsp_line (after s)) [0..<8] @
     [''    ]'', ''  },'',
      ''  \"success\": '' @ (if recovered s then ''true'' else ''false''), ''}'']"

definition rr_finish :: "clock \<Rightarrow> u64 \<Rightarrow> (recovery, outcome) state" where
  "rr_finish clk started =
     do { now \<leftarrow> monotonic_ms clk;
          case now of
            None \<Rightarrow> State_Monad.return Died
          | Some t \<Rightarrow>
              do { modify (\<lambda>s. s\<lparr>elapsed := t - started\<rparr>);
                   modify (\<lambda>s. s\<lparr>stdout := stdout s @ rr_report_lines s\<rparr>);
                   close_probe;
                   b \<leftarrow> gets recovered;
                   State_Monad.return (Returned b) } }"

definition rr_recover :: "clock \<Rightarrow> nat \<Rightarrow> vfio_env \<Rightarrow> (recovery, outcome) state" where
  "rr_recover clk fuel e =
     do { emit DeviceReset;
          if device_reset e < 0 then State_Monad.return Died
          else do {
            now \<leftarrow> monotonic_ms clk;
            case now of
              None \<Rightarrow> State_Monad.return Died
            | Some started \<Rightarrow>
                do { r \<leftarrow> poll clk fuel e started;
                     case r of
                       Returned _ \<Rightarrow> rr_finish clk started
                     | _ \<Rightarrow> State_Monad.return r } } }"

definition rr_main :: "clock \<Rightarrow> nat \<Rightarrow> vfio_env \<Rightarrow> (recovery, outcome) state" where
  "rr_main clk fuel e =
     do { ok \<leftarrow> rr_setup e;
          if \<not> ok then State_Monad.return Died
          else do {
            before \<leftarrow> take_snapshot e;
            if \<not> snapshot_matches_cold before then State_Monad.return Died
            else rr_recover clk fuel e } }"

definition rr_final :: "clock \<Rightarrow> nat \<Rightarrow> vfio_env \<Rightarrow> outcome \<times> recovery" where
  "rr_final clk fuel e = run_state (rr_main clk fuel e) rr_locals"

section \<open>What a snapshot has seen\<close>

definition cold_snapshot_seen :: "(u32 \<times> (u32 \<Rightarrow> bool)) set" where
  "cold_snapshot_seen =
     {(FPGA_REVISION, \<lambda>v. v = EXPECTED_FPGA_REVISION), (EXTENDED_CAPABILITIES, \<lambda>v. v = EXPECTED_CAPABILITIES),
      (DMA_CONTROL, \<lambda>v. v = DMA_COLD_RESET)} \<union>
     {(boot_offsets ! d, \<lambda>v. v AND 1 \<noteq> 0) | d. d < 8} \<union>
     {(ring_reg d r w, \<lambda>v. v = 0) | d r w. d < 8 \<and> r < 2 \<and> w < 11}"

text \<open>The words of the rings below \<open>d\<close>, and those of ring \<open>r\<close> and word \<open>w\<close> before a position.\<close>

definition zero_row :: "nat \<Rightarrow> nat \<Rightarrow> nat \<Rightarrow> (u32 \<times> (u32 \<Rightarrow> bool)) set" where
  "zero_row d r n = {(ring_reg d r w, \<lambda>v. v = 0) | w. w < n}"

definition zeroes :: "recovery \<Rightarrow> nat \<Rightarrow> (u32 \<times> (u32 \<Rightarrow> bool)) set \<Rightarrow> nat \<Rightarrow> nat \<Rightarrow> recovery \<Rightarrow> bool" where
  "zeroes s z0 E n z t \<longleftrightarrow> (\<exists>rs. t = s\<lparr>log := rs @ log s\<rparr> \<and> reads rs \<and> z \<le> z0 + n \<and>
     (z = z0 + n \<longrightarrow> seen E rs))"

lemma zeroes_start: "zeroes s z {} 0 z s"
  unfolding zeroes_def by (rule exI[of _ "[]"]) (simp add: seen_def)

lemma zeroes_trans:
  assumes "zeroes s z0 A n z1 t" "zeroes t z1 B m z2 u"
  shows "zeroes s z0 (A \<union> B) (n + m) z2 u"
proof -
  obtain rs where rs: "t = s\<lparr>log := rs @ log s\<rparr>" "reads rs" "z1 \<le> z0 + n" "z1 = z0 + n \<longrightarrow> seen A rs"
    using assms(1) by (auto simp: zeroes_def)
  obtain qs where qs: "u = t\<lparr>log := qs @ log t\<rparr>" "reads qs" "z2 \<le> z1 + m" "z2 = z1 + m \<longrightarrow> seen B qs"
    using assms(2) by (auto simp: zeroes_def)
  have "z2 = z0 + (n + m) \<Longrightarrow> seen (A \<union> B) (qs @ rs)"
    using rs qs seen_mono[of A rs "qs @ rs"] seen_mono[of B qs "qs @ rs"] by (auto simp: seen_union)
  then show ?thesis
    unfolding zeroes_def using rs qs by (intro exI[of _ "qs @ rs"]) auto
qed

lemma count_step:
  assumes "d < 8"
  shows "wp (do { v \<leftarrow> rr_mmio_read32 e (ring_base d r + of_nat w * 4);
       State_Monad.return (if v = 0 then z + 1 else z) })
     (zeroes s z {(ring_reg d r w, \<lambda>v. v = 0)} 1) s"
  unfolding ring_base_word[OF assms] rr_mmio_read32_def
  by (simp add: wp_simps zeroes_def) (intro conjI impI exI[of _ "[Rd a v]" for a v]; simp add: seen_def)

lemma count_row:
  assumes "d < 8"
  shows "wp (fold_m (\<lambda>w z. do { v \<leftarrow> rr_mmio_read32 e (ring_base d r + of_nat w * 4);
       State_Monad.return (if v = 0 then z + 1 else z) }) [0..<n] z0)
     (zeroes s z0 (zero_row d r n) n) s"
proof (rule wp_fold_upt[where I = "\<lambda>i. zeroes s z0 (zero_row d r i) i"])
  show "zeroes s z0 (zero_row d r 0) 0 z0 s" using zeroes_start by (simp add: zero_row_def)
next
  fix i z t
  assume t: "zeroes s z0 (zero_row d r i) i z t"
  have row: "zero_row d r (Suc i) = zero_row d r i \<union> {(ring_reg d r i, \<lambda>v. v = 0)}"
    by (auto simp: zero_row_def less_Suc_eq)
  show "wp (do { v \<leftarrow> rr_mmio_read32 e (ring_base d r + of_nat i * 4);
       State_Monad.return (if v = 0 then z + 1 else z) }) (zeroes s z0 (zero_row d r (Suc i)) (Suc i)) t"
  proof (rule wp_mono[OF count_step[OF assms]])
    fix y u
    assume "zeroes t z {(ring_reg d r i, \<lambda>v. v = 0)} 1 y u"
    from zeroes_trans[OF t this] show "zeroes s z0 (zero_row d r (Suc i)) (Suc i) y u"
      by (simp add: row)
  qed
qed simp

lemma count_zero_wp:
  assumes "d < 8"
  shows "wp (count_zero e d z) (zeroes s z (zero_row d 0 11 \<union> zero_row d 1 11) 22) s"
proof -
  have "wp (fold_m (\<lambda>w z. do { v \<leftarrow> rr_mmio_read32 e (ring_base d 0 + of_nat w * 4);
       State_Monad.return (if v = 0 then z + 1 else z) }) [0..<11] z) (\<lambda>z'. wp (fold_m (\<lambda>w z. do {
         v \<leftarrow> rr_mmio_read32 e (ring_base d 1 + of_nat w * 4);
         State_Monad.return (if v = 0 then z + 1 else z) }) [0..<11] z')
       (zeroes s z (zero_row d 0 11 \<union> zero_row d 1 11) (11 + 11))) s"
    by (rule wp_mono[OF count_row[OF assms]], rule wp_mono[OF count_row[OF assms]])
      (rule zeroes_trans)
  then show ?thesis
    by (simp add: count_zero_def upt_2 wp_simps)
qed

definition dsp_rows :: "nat \<Rightarrow> (u32 \<times> (u32 \<Rightarrow> bool)) set" where
  "dsp_rows n = {(ring_reg d r w, \<lambda>v. v = 0) | d r w. d < n \<and> r < 2 \<and> w < 11}"

lemma dsp_rows_Suc: "dsp_rows (Suc n) = dsp_rows n \<union> (zero_row n 0 11 \<union> zero_row n 1 11)"
  by (auto simp: dsp_rows_def zero_row_def less_Suc_eq less_2_cases_iff)

lemma snapshot_loop:
  "wp (fold_m (\<lambda>dsp (status, zero). do {
        v \<leftarrow> rr_mmio_read32 e (boot_offsets ! dsp);
        zero \<leftarrow> count_zero e dsp zero;
        State_Monad.return (status @ [v], zero) }) [0..<8] ([], 0))
     (\<lambda>p t. \<exists>rs. t = s\<lparr>log := rs @ log s\<rparr> \<and> reads rs \<and> snd p \<le> 176 \<and> (snd p = 176 \<longrightarrow> seen (dsp_rows 8) rs) \<and>
        (\<forall>d<8. Rd (boot_offsets ! d) (fst p ! d) \<in> set rs)) s"
proof -
  define good where "good n p t \<longleftrightarrow> (\<exists>rs. t = s\<lparr>log := rs @ log s\<rparr> \<and> reads rs \<and> snd p \<le> 22 * n \<and>
    (snd p = 22 * n \<longrightarrow> seen (dsp_rows n) rs) \<and> length (fst p) = n \<and>
    (\<forall>d<n. Rd (boot_offsets ! d) (fst p ! d) \<in> set rs))" for n and p :: "u32 list \<times> nat" and t
  show ?thesis
  proof (rule wp_fold_upt[where I = good])
    show "good 0 ([], 0) s"
      unfolding good_def by (rule exI[of _ "[]"]) (simp add: seen_def dsp_rows_def)
  next
    fix n and p :: "u32 list \<times> nat" and t
    assume n: "n < 8" and t: "good n p t"
    obtain st z where p: "p = (st, z)" by (cases p)
    obtain rs where rs: "t = s\<lparr>log := rs @ log s\<rparr>" "reads rs" "z \<le> 22 * n"
      "z = 22 * n \<longrightarrow> seen (dsp_rows n) rs" "length st = n"
      "\<forall>d<n. Rd (boot_offsets ! d) (st ! d) \<in> set rs"
      using t by (auto simp: good_def p)
    let ?v = "answer e (log t) (boot_offsets ! n)"
    let ?t = "t\<lparr>log := Rd (boot_offsets ! n) ?v # log t\<rparr>"
    have step: "good (Suc n) (st @ [?v], z') u"
      if u: "zeroes ?t z (zero_row n 0 11 \<union> zero_row n 1 11) 22 z' u" for z' u
    proof -
      obtain qs where qs: "u = ?t\<lparr>log := qs @ log ?t\<rparr>" "reads qs" "z' \<le> z + 22"
        "z' = z + 22 \<longrightarrow> seen (zero_row n 0 11 \<union> zero_row n 1 11) qs"
        using u by (auto simp: zeroes_def)
      let ?rs = "qs @ Rd (boot_offsets ! n) ?v # rs"
      have "seen (dsp_rows (Suc n)) ?rs" if "z' = 22 * Suc n"
      proof -
        have "seen (zero_row n 0 11 \<union> zero_row n 1 11) qs" "seen (dsp_rows n) rs"
          using that qs(3,4) rs(3,4) by simp_all
        then show ?thesis
          unfolding dsp_rows_Suc seen_union[of "dsp_rows n"] by (auto elim: seen_mono)
      qed
      moreover have "\<forall>d<Suc n. Rd (boot_offsets ! d) ((st @ [?v]) ! d) \<in> set ?rs"
        using rs(5,6) by (auto simp: nth_append less_Suc_eq)
      ultimately show ?thesis
        unfolding good_def using qs(1-3) rs(1-3,5) by (intro exI[of _ ?rs]) simp
    qed
    show "wp (case p of (status, zero) \<Rightarrow> do {
        v \<leftarrow> rr_mmio_read32 e (boot_offsets ! n);
        zero \<leftarrow> count_zero e n zero;
        State_Monad.return (status @ [v], zero) }) (good (Suc n)) t"
      unfolding p prod.case wp_bind rr_mmio_read32_def wp_bus_read wp_return
      by (rule wp_mono[OF count_zero_wp[OF n]]) (rule step)
  next
    fix p t
    assume "good 8 p t"
    then show "\<exists>rs. t = s\<lparr>log := rs @ log s\<rparr> \<and> reads rs \<and> snd p \<le> 176 \<and> (snd p = 176 \<longrightarrow> seen (dsp_rows 8) rs) \<and>
        (\<forall>d<8. Rd (boot_offsets ! d) (fst p ! d) \<in> set rs)"
      by (auto simp: good_def)
  qed
qed

lemma take_snapshot_wp:
  assumes "\<And>sn rs. reads rs \<Longrightarrow> zero_ring_words sn \<le> 176 \<Longrightarrow>
      (snapshot_matches_cold sn \<Longrightarrow> seen cold_snapshot_seen rs) \<Longrightarrow> Q sn (s\<lparr>log := rs @ log s\<rparr>)"
  shows "wp (take_snapshot e) Q s"
proof -
  define f c d where "f = answer e (log s) FPGA_REVISION"
    and "c = answer e (Rd FPGA_REVISION f # log s) EXTENDED_CAPABILITIES"
    and "d = answer e (Rd EXTENDED_CAPABILITIES c # Rd FPGA_REVISION f # log s) DMA_CONTROL"
  let ?rs = "[Rd DMA_CONTROL d, Rd EXTENDED_CAPABILITIES c, Rd FPGA_REVISION f]"
  let ?s = "s\<lparr>log := ?rs @ log s\<rparr>"
  have fin: "Q \<lparr>fpga_revision = f, capabilities = c, dma_control = d, dsp_status = st, zero_ring_words = z\<rparr> t"
    if t: "t = ?s\<lparr>log := qs @ log ?s\<rparr>" "reads qs" "z \<le> 176" "z = 176 \<longrightarrow> seen (dsp_rows 8) qs"
      "\<forall>d<8. Rd (boot_offsets ! d) (st ! d) \<in> set qs" for st z t qs
  proof -
    let ?sn = "\<lparr>fpga_revision = f, capabilities = c, dma_control = d, dsp_status = st, zero_ring_words = z\<rparr>"
    have "seen cold_snapshot_seen (qs @ ?rs)" if "snapshot_matches_cold ?sn"
    proof -
      have m: "f = EXPECTED_FPGA_REVISION" "c = EXPECTED_CAPABILITIES" "d = DMA_COLD_RESET" "z = 176"
        "\<forall>i<8. st ! i AND 1 \<noteq> 0"
        using that unfolding snapshot_matches_cold_def by simp_all
      have "seen (dsp_rows 8) (qs @ ?rs)" using t(4) m(4) by (auto elim: seen_mono)
      moreover have "seen {(boot_offsets ! d, \<lambda>v. v AND 1 \<noteq> 0) | d. d < 8} (qs @ ?rs)"
        using t(5) m(5) by (fastforce simp: seen_def)
      moreover have "seen {(FPGA_REVISION, \<lambda>v. v = EXPECTED_FPGA_REVISION),
          (EXTENDED_CAPABILITIES, \<lambda>v. v = EXPECTED_CAPABILITIES), (DMA_CONTROL, \<lambda>v. v = DMA_COLD_RESET)} (qs @ ?rs)"
        unfolding m by (simp add: seen_def)
      ultimately show ?thesis
        unfolding cold_snapshot_seen_def dsp_rows_def[symmetric] seen_union by blast
    qed
    then have "Q ?sn (s\<lparr>log := (qs @ ?rs) @ log s\<rparr>)"
      using t(2,3) by (intro assms) simp_all
    then show ?thesis using t(1) by simp
  qed
  have "wp (fold_m (\<lambda>dsp (status, zero). do {
        v \<leftarrow> rr_mmio_read32 e (boot_offsets ! dsp);
        zero \<leftarrow> count_zero e dsp zero;
        State_Monad.return (status @ [v], zero) }) [0..<8] ([], 0))
      (\<lambda>p. case p of (st, z) \<Rightarrow> Q \<lparr>fpga_revision = f, capabilities = c, dma_control = d, dsp_status = st,
         zero_ring_words = z\<rparr>) ?s"
    by (rule wp_mono[OF snapshot_loop]) (auto intro: fin)
  then have "wp (fold_m (\<lambda>dsp (status, zero). do {
        v \<leftarrow> rr_mmio_read32 e (boot_offsets ! dsp);
        zero \<leftarrow> count_zero e dsp zero;
        State_Monad.return (status @ [v], zero) }) [0..<8] ([], 0))
      (\<lambda>p. wp (case p of (st, z) \<Rightarrow> State_Monad.return \<lparr>fpga_revision = f, capabilities = c,
         dma_control = d, dsp_status = st, zero_ring_words = z\<rparr>) Q) ?s"
    by (rule wp_mono) (auto simp: wp_return)
  then show ?thesis
    by (simp add: take_snapshot_def wp_bind rr_mmio_read32_def wp_bus_read f_def c_def d_def)
qed

end
