(* ===== verification/Reset_Recovery_Results.thy ===== *)
theory Reset_Recovery_Results
  imports Reset_Recovery
begin

text \<open>
  \<^verbatim>\<open>tools/vfio_reset_recovery.c\<close> stores nothing, releases what it holds when it returns, returns
  success only after a cold snapshot on both sides of the reset, and, on a clock that does not
  go backwards and counts the time slept, polls at most 100 times.
\<close>

section \<open>Safety and evidence\<close>

lemma rr_idle_rd: "keeps_rd (idle probe_held) (rr_mmio_read32 e)"
  unfolding keeps_rd_def rr_mmio_read32_def by (intro allI impI idle_read) simp_all

lemma ring_base_rows: "d < 8 \<Longrightarrow> r < 2 \<Longrightarrow> w < 11 \<Longrightarrow> in_bar (ring_base d r + of_nat w * 4)"
  by (simp add: ring_base_word)

lemma take_snapshot_keeps: "preserves (idle probe_held) (take_snapshot e)"
proof -
  have count: "d < 8 \<Longrightarrow> preserves (idle probe_held) (count_zero e d z)" for d z
    unfolding count_zero_def
    by (intro preserves_intros keeps_rdD[OF rr_idle_rd]) (simp_all add: ring_base_rows)
  show ?thesis
    unfolding take_snapshot_def
    by (auto intro!: preserves_intros keeps_rdD[OF rr_idle_rd] count simp: boot_offset_in_bar)
qed

lemma idle_clock: "preserves (idle S) (emit (Clock v))"
  by (auto simp: preserves_def wp_simps idle_def inside_def owned_update intro!: world_same)

lemma monotonic_keeps: "preserves (idle S) (monotonic_ms clk)"
  unfolding monotonic_ms_def by (intro preserves_intros idle_clock)

lemma poll_keeps: "preserves (idle probe_held) (poll clk fuel e started)"
proof (induction fuel)
  case (Suc fuel)
  show ?case
    unfolding poll.simps
    by (intro preserves_intros take_snapshot_keeps monotonic_keeps idle_local inside_local Suc.IH) simp_all
qed (simp add: preserves_def wp_return)

text \<open>What the loop reports.\<close>

definition polled :: "history \<Rightarrow> outcome \<Rightarrow> recovery \<Rightarrow> bool" where
  "polled k r t \<longleftrightarrow> (\<exists>evs. log t = evs @ k \<and> writes evs = [] \<and> (recovered t \<longrightarrow> seen cold_snapshot_seen evs))"

lemma polled_later:
  assumes "polled (evs @ k) r t" "writes evs = []"
  shows "polled k r t"
proof -
  obtain qs where "log t = qs @ evs @ k" "writes qs = []" "recovered t \<longrightarrow> seen cold_snapshot_seen qs"
    using assms(1) by (auto simp: polled_def)
  then show ?thesis
    unfolding polled_def using assms(2)
    by (intro exI[of _ "qs @ evs"]) (auto simp: writes_append elim: seen_mono)
qed

lemma monotonic_wp:
  "wp (monotonic_ms clk) Q s = (case clock_ms clk (log s) of None \<Rightarrow> Q None s
     | Some v \<Rightarrow> Q (Some v) (s\<lparr>log := Clock v # log s\<rparr>))"
  by (simp add: monotonic_ms_def wp_simps split: option.split)

lemma poll_polled:
  assumes "\<not> recovered s"
  shows "wp (poll clk fuel e started) (polled (log s)) s"
  using assms
proof (induction fuel arbitrary: s)
  case 0
  then show ?case by (simp add: wp_return polled_def)
next
  case (Suc fuel)
  show ?case
    unfolding poll.simps wp_bind wp_modify
  proof (rule take_snapshot_wp)
    fix sn and rs :: history
    let ?s = "s\<lparr>attempts := attempts s + 1\<rparr>"
    let ?t = "?s\<lparr>log := rs @ log ?s, after := sn\<rparr>"
    assume rs: "reads rs" "snapshot_matches_cold sn \<Longrightarrow> seen cold_snapshot_seen rs"
    show "wp (if snapshot_matches_cold sn then
            do { modify (\<lambda>s. s\<lparr>recovered := True\<rparr>); State_Monad.return (Returned True) }
          else do {
            nanosleep 100000000;
            now \<leftarrow> monotonic_ms clk;
            case now of
              None \<Rightarrow> State_Monad.return Died
            | Some t \<Rightarrow>
                do { modify (\<lambda>s. s\<lparr>elapsed := t - started\<rparr>);
                     if t - started < RECOVERY_TIMEOUT_MS then poll clk fuel e started
                     else State_Monad.return (Returned False) } }) (polled (log s)) ?t"
    proof (cases "snapshot_matches_cold sn")
      case True
      then show ?thesis using rs by (auto simp: wp_bind wp_modify wp_return polled_def)
    next
      case False
      let ?u = "\<lambda>v. ?t\<lparr>log := Clock v # Delay 100000000 # log ?t, elapsed := v - started\<rparr>"
      have again: "wp (poll clk fuel e started) (polled (log s)) (?u v)" for v
      proof (rule wp_mono[OF Suc.IH])
        show "\<not> recovered (?u v)" using Suc.prems by simp
        fix r t
        assume p: "polled (log (?u v)) r t"
        show "polled (log s) r t"
        proof (rule polled_later)
          show "polled ((Clock v # Delay 100000000 # rs) @ log s) r t" using p by simp
        qed (use rs in simp)
      qed
      have stop: "polled (log s) r (?u v)" "polled (log s) r (?t\<lparr>log := Delay 100000000 # log ?t\<rparr>)" for r v
        using rs(1) Suc.prems by (auto simp: polled_def)
      show ?thesis
        unfolding if_not_P[OF False] wp_bind nanosleep_def wp_emit monotonic_wp
        using again stop by (auto simp: wp_bind wp_modify wp_return split: option.split)
    qed
  qed
qed

definition rr_evidence :: "history \<Rightarrow> bool" where
  "rr_evidence h \<longleftrightarrow> (\<exists>later before. h = later @ DeviceReset # before \<and>
     seen cold_snapshot_seen before \<and> seen cold_snapshot_seen later)"

definition rr_outcome :: "outcome \<Rightarrow> recovery \<Rightarrow> bool" where
  "rr_outcome r t \<longleftrightarrow> always vfio_safe (log t) \<and> \<not> engines_on (log t) \<and> writes (log t) = [] \<and>
     (\<forall>b. r = Returned b \<longrightarrow> released True False (log t) \<and> b = recovered t) \<and>
     (r = Returned True \<longrightarrow> rr_evidence (log t))"

lemma rr_idle_died:
  assumes "idle S t" "writes (log t) = []" "\<forall>b. r \<noteq> Returned b"
  shows "rr_outcome r t"
  using assms by (simp add: rr_outcome_def idle_def inside_def session_world_def)

lemma idle_fields:
  fixes t :: recovery
  shows "idle S (t\<lparr>elapsed := x\<rparr>) = idle S t" "idle S (t\<lparr>stdout := out\<rparr>) = idle S t"
proof -
  have "owned (t\<lparr>elapsed := x\<rparr>) = owned t" "owned (t\<lparr>stdout := out\<rparr>) = owned t"
    by (rule owned_cong; simp)+
  then show "idle S (t\<lparr>elapsed := x\<rparr>) = idle S t" "idle S (t\<lparr>stdout := out\<rparr>) = idle S t"
    by (simp_all add: idle_def inside_def)
qed

lemma rr_finish_wp:
  assumes "idle probe_held s" "writes (log s) = []" "recovered s \<Longrightarrow> rr_evidence (log s)"
  shows "wp (rr_finish clk started) rr_outcome s"
proof -
  have close: "wp close_probe (\<lambda>_ t. rr_outcome (Returned (recovered t)) t)
      (s\<lparr>log := Clock v # log s, elapsed := d, stdout := out\<rparr>)" (is "wp _ _ ?s") for v d out
  proof (rule close_probe_wp)
    have "idle probe_held (s\<lparr>log := Clock v # log s\<rparr>)"
      using preservesD[OF idle_clock assms(1), of v] by (simp add: wp_emit)
    then show "idle probe_held ?s" by (simp add: idle_fields)
  next
    fix t evs
    assume t: "t = ?s\<lparr>log := evs @ log ?s\<rparr>" "writes evs = []" "released True False (log t)"
    have l: "log t = (evs @ [Clock v]) @ log s" using t(1) by simp
    have w: "writes (log t) = []" unfolding l using t(2) assms(2) by (simp add: writes_append)
    have "rr_evidence (log t)" if r: "recovered t"
    proof -
      have "recovered s" using t(1) r by simp
      from assms(3)[OF this] obtain later before where e: "log s = later @ DeviceReset # before"
        "seen cold_snapshot_seen before" "seen cold_snapshot_seen later"
        unfolding rr_evidence_def by blast
      have "seen cold_snapshot_seen (evs @ [Clock v] @ later)" by (rule seen_mono[OF e(3)]) auto
      then show ?thesis
        unfolding rr_evidence_def l e(1) using e(2)
        by (intro exI[of _ "evs @ [Clock v] @ later"] exI[of _ before]) simp
    qed
    then show "rr_outcome (Returned (recovered t)) t"
      using t(3) w by (simp add: rr_outcome_def released_def)
  qed
  show ?thesis
  proof (cases "clock_ms clk (log s)")
    case None
    then show ?thesis
      using rr_idle_died[OF assms(1,2)] by (simp add: rr_finish_def wp_bind monotonic_wp wp_return)
  next
    case (Some v)
    then show ?thesis
      using close by (simp add: rr_finish_def wp_bind monotonic_wp wp_return wp_modify wp_gets)
  qed
qed

lemma rr_recover_wp:
  assumes "idle probe_held s" "writes (log s) = []" "seen cold_snapshot_seen (log s)" "\<not> recovered s"
  shows "wp (rr_recover clk fuel e) rr_outcome s"
proof -
  let ?s = "s\<lparr>log := DeviceReset # log s\<rparr>"
  have i: "idle probe_held ?s"
    using assms(1) by (auto simp: idle_def inside_def owned_update intro!: world_same)
  have loop: "wp (poll clk fuel e v) (\<lambda>r. wp (case r of Returned _ \<Rightarrow> rr_finish clk v
      | _ \<Rightarrow> State_Monad.return r) rr_outcome) (?s\<lparr>log := Clock v # log ?s\<rparr>)" (is "wp _ _ ?t") for v
  proof (rule wp_mono[OF wp_conjI[OF preservesD[OF poll_keeps] poll_polled]])
    show "idle probe_held ?t" using preservesD[OF idle_clock i, of v] by (simp add: wp_emit)
    show "\<not> recovered ?t" using assms(4) by simp
  next
    fix r u
    assume "idle probe_held u \<and> polled (log ?t) r u"
    then obtain evs where u: "idle probe_held u" "log u = evs @ log ?t" "writes evs = []"
      "recovered u \<longrightarrow> seen cold_snapshot_seen evs" by (auto simp: polled_def)
    have w: "writes (log u) = []" using u(2,3) assms(2) by (simp add: writes_append)
    have "rr_evidence (log u)" if "recovered u"
    proof -
      have "seen cold_snapshot_seen (evs @ [Clock v])" using u(4) that by (auto elim: seen_mono)
      then show ?thesis
        unfolding rr_evidence_def using assms(3) u(2)
        by (intro exI[of _ "evs @ [Clock v]"] exI[of _ "log s"]) simp
    qed
    then show "wp (case r of Returned _ \<Rightarrow> rr_finish clk v | _ \<Rightarrow> State_Monad.return r) rr_outcome u"
      using rr_finish_wp[OF u(1) w] rr_idle_died[OF u(1) w] by (cases r) (simp_all add: wp_return)
  qed
  show ?thesis
    using loop rr_idle_died[OF i] assms(2)
    by (auto simp: rr_recover_def wp_bind wp_emit wp_return monotonic_wp split: option.split)
qed

lemma rr_setup_to: "setup_to {} {} (rr_setup e) probe_held"
  unfolding rr_setup_def probe_held_def by (rule setup_intros | simp)+

lemma rr_locals_ok: "session_ok rr_locals" "owned rr_locals = {}"
proof -
  have "fresh_session rr_locals" by (simp add: fresh_session_def rr_locals_def)
  then show "session_ok rr_locals" by (rule world_empty)
  show "owned rr_locals = {}"
    by (rule set_eqI, rename_tac x, case_tac x) (simp_all add: owns_iff rr_locals_def)
qed

lemma rr_more: fixes s t :: recovery shows "session.more t = session.more s \<Longrightarrow> recovered t = recovered s"
  by (cases s; cases t; simp)

lemma rr_setup_wp:
  "wp (rr_setup e) (\<lambda>ok t. idle (owned t) t \<and> writes (log t) = [] \<and> \<not> recovered t \<and>
     (ok \<longrightarrow> owned t = probe_held)) rr_locals"
proof -
  have "wp (rr_setup e) (\<lambda>b t. session_ok t \<and> session.more t = session.more rr_locals \<and>
       writes (log t) = writes (log rr_locals) \<and> exit_success t = exit_success rr_locals \<and>
       (b \<longrightarrow> owned t = probe_held)) rr_locals"
    using rr_locals_ok by (intro setup_toD[OF rr_setup_to]) simp_all
  then show ?thesis
  proof (rule wp_mono)
    fix b t
    assume t: "session_ok t \<and> session.more t = session.more rr_locals \<and>
       writes (log t) = writes (log rr_locals) \<and> exit_success t = exit_success rr_locals \<and>
       (b \<longrightarrow> owned t = probe_held)"
    then have w: "writes (log t) = []" and r: "recovered t = recovered rr_locals"
      using rr_more[of t rr_locals] by (simp_all add: rr_locals_def)
    with t show "idle (owned t) t \<and> writes (log t) = [] \<and> \<not> recovered t \<and> (b \<longrightarrow> owned t = probe_held)"
      using engines_off_unwritten by (simp add: idle_def session_ok_inside rr_locals_def)
  qed
qed

lemma rr_main_outcome: "rr_outcome (fst (rr_final clk fuel e)) (snd (rr_final clk fuel e))"
proof -
  have run: "wp (take_snapshot e) (\<lambda>before. wp (if \<not> snapshot_matches_cold before
      then State_Monad.return Died else rr_recover clk fuel e) rr_outcome) t"
    if t: "idle probe_held t" "writes (log t) = []" "\<not> recovered t" for t
  proof (rule wp_keeping[OF take_snapshot_keeps t(1)], rule take_snapshot_wp, rule impI)
    fix sn and rs :: history
    let ?t = "t\<lparr>log := rs @ log t\<rparr>"
    assume rs: "reads rs" "snapshot_matches_cold sn \<Longrightarrow> seen cold_snapshot_seen rs" and i: "idle probe_held ?t"
    have w: "writes (log ?t) = []" using rs(1) t(2) by simp
    show "wp (if \<not> snapshot_matches_cold sn then State_Monad.return Died
        else rr_recover clk fuel e) rr_outcome ?t"
    proof (cases "snapshot_matches_cold sn")
      case True
      have "seen cold_snapshot_seen (log ?t)" using rs(2)[OF True] by (auto elim: seen_mono)
      then show ?thesis using rr_recover_wp[OF i w] t(3) True by simp
    next
      case False
      then show ?thesis using rr_idle_died[OF i w] by (simp add: wp_return)
    qed
  qed
  have "wp (rr_main clk fuel e) rr_outcome rr_locals"
    unfolding rr_main_def wp_bind
  proof (rule wp_mono[OF rr_setup_wp])
    fix ok and t :: recovery
    assume t: "idle (owned t) t \<and> writes (log t) = [] \<and> \<not> recovered t \<and> (ok \<longrightarrow> owned t = probe_held)"
    show "wp (if \<not> ok then State_Monad.return Died
          else do {
            before \<leftarrow> take_snapshot e;
            if \<not> snapshot_matches_cold before then State_Monad.return Died
            else rr_recover clk fuel e }) rr_outcome t"
    proof (cases ok)
      case True
      have "idle probe_held t" "writes (log t) = []" "\<not> recovered t" using t True by auto
      from run[OF this] show ?thesis using True by (simp add: wp_bind)
    next
      case False
      then show ?thesis using rr_idle_died[of "owned t" t Died] t by (simp add: wp_return)
    qed
  qed
  then show ?thesis by (simp add: rr_final_def wp_run)
qed

section \<open>Termination\<close>

text \<open>
  The documented behaviour of \<^verbatim>\<open>CLOCK_MONOTONIC\<close>: reading it does not fail, and between two
  readings it advances by at least the time slept between them. (A 64-bit count cannot do so
  for ever, so this is asked only of histories with less than 36 years of sleep, \<open>2 ^ 60\<close> ns.)
\<close>

definition now_ms :: "clock \<Rightarrow> history \<Rightarrow> nat" where
  "now_ms clk h = (case clock_ms clk h of None \<Rightarrow> 0 | Some t \<Rightarrow> unat t)"

definition clock_advances :: "clock \<Rightarrow> bool" where
  "clock_advances clk \<longleftrightarrow> (\<forall>h. clk h \<noteq> None) \<and>
     (\<forall>evs h. slept (evs @ h) \<le> 2 ^ 60 \<longrightarrow>
        now_ms clk h + slept evs div 1000000 \<le> now_ms clk (evs @ h))"

text \<open>A clock that has the behaviour: it shows the time slept.\<close>

definition demo_clock :: clock where
  "demo_clock h = Some (of_nat (slept h div 1000000000), of_nat (slept h mod 1000000000))"

lemma demo_clock_now:
  assumes "slept h \<le> 2 ^ 60"
  shows "now_ms demo_clock h = slept h div 1000000"
proof -
  let ?s = "slept h div 1000000000" and ?n = "slept h mod 1000000000"
  have "?s \<le> 2 ^ 60 div 1000000000" using assms by (rule div_le_mono)
  then have s: "?s < 2000000000" by simp
  have n: "?n < 1000000000" by simp
  have "unat (of_nat ?s * 1000 + of_nat ?n div 1000000 :: u64) = ?s * 1000 + ?n div 1000000"
  proof -
    have q: "of_nat ?n div 1000000 = (of_nat (?n div 1000000) :: u64)"
      by (rule unsigned_word_eqI[where ?'a = nat]) (use n in \<open>simp add: unat_div_distrib unat_of_nat take_bit_nat_eq_self\<close>)
    have "of_nat ?s * 1000 + of_nat ?n div 1000000 = (of_nat (?s * 1000 + ?n div 1000000) :: u64)"
      unfolding q by simp
    moreover have "?s * 1000 + ?n div 1000000 < 2 ^ 64" using s n by simp
    ultimately show ?thesis by (simp only: unat_of_nat) (simp add: take_bit_nat_eq_self)
  qed
  moreover have "?s * 1000 + ?n div 1000000 = slept h div 1000000"
  proof -
    have "slept h = ?n + ?s * 1000 * 1000000" by simp
    moreover have "(?n + ?s * 1000 * 1000000) div 1000000 = ?s * 1000 + ?n div 1000000"
      by (rule div_mult_self1) simp
    ultimately show ?thesis by argo
  qed
  ultimately show ?thesis by (simp add: now_ms_def clock_ms_def demo_clock_def)
qed

lemma demo_clock_advances: "clock_advances demo_clock"
proof -
  have "now_ms demo_clock h + slept evs div 1000000 \<le> now_ms demo_clock (evs @ h)"
    if "slept (evs @ h) \<le> 2 ^ 60" for evs h
  proof -
    have h: "slept h \<le> 2 ^ 60" using that by (simp add: slept_append)
    have "slept h div 1000000 + slept evs div 1000000 \<le> (slept evs + slept h) div 1000000"
      by (simp only: div_add1_eq[of "slept evs" "slept h"])
    then show ?thesis
      using demo_clock_now[OF h] demo_clock_now[OF that] by (simp add: slept_append)
  qed
  then show ?thesis by (simp add: clock_advances_def demo_clock_def)
qed

lemma clock_reading:
  assumes "clock_advances clk"
  obtains t where "clock_ms clk h = Some t" "now_ms clk h = unat t"
proof -
  have "clk h \<noteq> None" using assms unfolding clock_advances_def by blast
  then obtain p where "clk h = Some p" by blast
  then have "clock_ms clk h = Some (case p of (sec, nsec) \<Rightarrow> sec * 1000 + nsec div 1000000)"
    by (simp add: clock_ms_def)
  then show thesis using that by (simp add: now_ms_def)
qed

text \<open>\<open>k\<close> turns of the loop are done: 100 ms have been slept in each.\<close>

definition turns :: "clock \<Rightarrow> u64 \<Rightarrow> nat \<Rightarrow> recovery \<Rightarrow> bool" where
  "turns clk started k s \<longleftrightarrow> k \<le> 99 \<and> attempts s = of_nat k \<and>
     (\<exists>evs h. log s = evs @ h \<and> slept evs = k * 100000000 \<and> slept h = 0 \<and> now_ms clk h = unat started)"

definition poll_done :: "outcome \<Rightarrow> recovery \<Rightarrow> bool" where
  "poll_done r t \<longleftrightarrow> (\<exists>b. r = Returned b) \<and> unat (attempts t) \<le> 100"

lemma poll_done_within:
  assumes "clock_advances clk" "turns clk started k s" "100 \<le> k + fuel"
  shows "wp (poll clk fuel e started) poll_done s"
  using assms(2,3)
proof (induction fuel arbitrary: k s)
  case 0
  then show ?case by (simp add: turns_def)
next
  case (Suc fuel)
  obtain evs h where k: "k \<le> 99" "attempts s = of_nat k" "log s = evs @ h"
    "slept evs = k * 100000000" "now_ms clk h = unat started" "slept h = 0"
    using Suc.prems(1) by (auto simp: turns_def)
  have count: "unat (of_nat k + 1 :: u32) = k + 1"
    using k(1) by (simp add: unat_word_ariths(1) unat_of_nat)
  show ?case
    unfolding poll.simps wp_bind wp_modify
  proof (rule take_snapshot_wp)
    fix sn and rs :: history
    let ?s = "s\<lparr>attempts := attempts s + 1\<rparr>"
    let ?t = "?s\<lparr>log := rs @ log ?s, after := sn\<rparr>"
    assume rs: "reads rs"
    let ?h = "Delay 100000000 # rs @ evs @ h"
    obtain now where now: "clock_ms clk ?h = Some now" "now_ms clk ?h = unat now"
      using clock_reading[OF assms(1)] by blast
    have "slept ((Delay 100000000 # rs @ evs) @ h) \<le> 2 ^ 60"
      using k(1,4,6) rs by (simp add: slept_append)
    then have "now_ms clk h + slept (Delay 100000000 # rs @ evs) div 1000000 \<le>
        now_ms clk ((Delay 100000000 # rs @ evs) @ h)"
      using assms(1) unfolding clock_advances_def by blast
    then have late: "unat started + (k + 1) * 100 \<le> unat now"
      using k(4,5) rs now(2) by (simp add: slept_append)
    then have diff: "(k + 1) * 100 \<le> unat (now - started)"
      by (simp add: unat_sub word_le_nat_alt)
    let ?u = "?t\<lparr>log := Clock now # Delay 100000000 # log ?t, elapsed := now - started\<rparr>"
    have next_turn: "wp (poll clk fuel e started) poll_done ?u" if "now - started < RECOVERY_TIMEOUT_MS"
    proof (rule Suc.IH)
      have "unat (now - started) < 10000"
        using that by (simp add: RECOVERY_TIMEOUT_MS_def word_less_nat_alt)
      then have "k + 1 \<le> 99" using diff by simp
      moreover have "slept (Clock now # Delay 100000000 # rs @ evs) = (k + 1) * 100000000"
        using k(4) rs by (simp add: slept_append)
      ultimately show "turns clk started (k + 1) ?u"
        unfolding turns_def using k(2,3,5,6)
        by (intro conjI exI[of _ "Clock now # Delay 100000000 # rs @ evs"] exI[of _ h]) simp_all
      show "100 \<le> k + 1 + fuel" using Suc.prems(2) by simp
    qed
    have stop: "poll_done (Returned b) t" if "attempts t = attempts s + 1" for b and t :: recovery
      using that k(1,2) count by (simp add: poll_done_def)
    show "wp (if snapshot_matches_cold sn then
            do { modify (\<lambda>s. s\<lparr>recovered := True\<rparr>); State_Monad.return (Returned True) }
          else do {
            nanosleep 100000000;
            now \<leftarrow> monotonic_ms clk;
            case now of
              None \<Rightarrow> State_Monad.return Died
            | Some t \<Rightarrow>
                do { modify (\<lambda>s. s\<lparr>elapsed := t - started\<rparr>);
                     if t - started < RECOVERY_TIMEOUT_MS then poll clk fuel e started
                     else State_Monad.return (Returned False) } }) poll_done ?t"
      using next_turn stop k(3) now(1)
      by (auto simp: wp_bind wp_modify wp_return nanosleep_def wp_emit monotonic_wp)
  qed
qed

lemma rr_finish_done:
  assumes "clock_advances clk"
  shows "wp (rr_finish clk started) (\<lambda>r t. (\<exists>b. r = Returned b) \<and> attempts t = attempts s) s"
proof -
  obtain v where "clock_ms clk (log s) = Some v" using clock_reading[OF assms] by blast
  then show ?thesis
    by (simp add: rr_finish_def close_probe_def detach_group_def wp_simps monotonic_wp)
qed

definition rr_terminated :: "outcome \<Rightarrow> recovery \<Rightarrow> bool" where
  "rr_terminated r t \<longleftrightarrow> r \<noteq> Unfinished \<and> unat (attempts t) \<le> 100"

lemma rr_recover_done:
  assumes "clock_advances clk" "100 \<le> fuel" "attempts s = 0" "slept (log s) = 0"
  shows "wp (rr_recover clk fuel e) rr_terminated s"
proof (cases "device_reset e < 0")
  case True
  then show ?thesis using assms(3) by (simp add: rr_recover_def wp_simps rr_terminated_def)
next
  case False
  let ?s = "s\<lparr>log := DeviceReset # log s\<rparr>"
  obtain v where v: "clock_ms clk (log ?s) = Some v" "now_ms clk (log ?s) = unat v"
    using clock_reading[OF assms(1)] by blast
  have "turns clk v 0 (?s\<lparr>log := Clock v # log ?s\<rparr>)"
    unfolding turns_def using assms(3,4) v(2)
    by (intro conjI exI[of _ "[Clock v]"] exI[of _ "log ?s"]) simp_all
  then have "wp (poll clk fuel e v) poll_done (?s\<lparr>log := Clock v # log ?s\<rparr>)"
    by (rule poll_done_within[OF assms(1)]) (use assms(2) in simp)
  then have "wp (poll clk fuel e v) (\<lambda>r. wp (case r of Returned _ \<Rightarrow> rr_finish clk v
      | _ \<Rightarrow> State_Monad.return r) rr_terminated) (?s\<lparr>log := Clock v # log ?s\<rparr>)"
  proof (rule wp_mono)
    fix r t
    assume "poll_done r t"
    then obtain b where b: "r = Returned b" "unat (attempts t) \<le> 100" by (auto simp: poll_done_def)
    show "wp (case r of Returned _ \<Rightarrow> rr_finish clk v | _ \<Rightarrow> State_Monad.return r) rr_terminated t"
      unfolding b(1) outcome.case
      by (rule wp_mono[OF rr_finish_done[OF assms(1)]]) (use b(2) in \<open>auto simp: rr_terminated_def\<close>)
  qed
  then show ?thesis
    using False v(1) by (simp add: rr_recover_def wp_bind wp_emit monotonic_wp)
qed

lemma rr_more_attempts: fixes s t :: recovery shows "session.more t = session.more s \<Longrightarrow> attempts t = attempts s"
  by (cases s; cases t; simp)

lemma rr_main_done:
  assumes "clock_advances clk" "100 \<le> fuel"
  shows "rr_terminated (fst (rr_final clk fuel e)) (snd (rr_final clk fuel e))"
proof -
  have set: "wp (rr_setup e) (\<lambda>ok t. attempts t = 0 \<and> slept (log t) = 0) rr_locals"
  proof (rule wp_conjI)
    show "wp (rr_setup e) (\<lambda>ok t. slept (log t) = 0) rr_locals"
      by (simp add: rr_setup_def open_container_def open_group_def attach_group_def attach_iommu_def
          open_device_def map_bar_def check_def wp_simps rr_locals_def)
  next
    have "wp (rr_setup e) (\<lambda>b t. session_ok t \<and> session.more t = session.more rr_locals \<and>
       writes (log t) = writes (log rr_locals) \<and> exit_success t = exit_success rr_locals \<and>
       (b \<longrightarrow> owned t = probe_held)) rr_locals"
      using rr_locals_ok by (intro setup_toD[OF rr_setup_to]) simp_all
    then show "wp (rr_setup e) (\<lambda>ok t. attempts t = 0) rr_locals"
    proof (rule wp_mono)
      fix b and t :: recovery
      assume t: "session_ok t \<and> session.more t = session.more rr_locals \<and>
       writes (log t) = writes (log rr_locals) \<and> exit_success t = exit_success rr_locals \<and>
       (b \<longrightarrow> owned t = probe_held)"
      then have "attempts t = attempts rr_locals" using rr_more_attempts by blast
      then show "attempts t = 0" by (simp add: rr_locals_def)
    qed
  qed
  have "wp (rr_main clk fuel e) rr_terminated rr_locals"
    unfolding rr_main_def wp_bind
  proof (rule wp_mono[OF set])
    fix ok and t :: recovery
    assume t: "attempts t = 0 \<and> slept (log t) = 0"
    have died: "rr_terminated Died u" if "attempts u = 0" for u
      using that by (simp add: rr_terminated_def)
    have "wp (take_snapshot e) (\<lambda>before. wp (if \<not> snapshot_matches_cold before
        then State_Monad.return Died else rr_recover clk fuel e) rr_terminated) t"
      by (rule take_snapshot_wp) (use t died rr_recover_done[OF assms] in \<open>simp add: wp_return slept_append\<close>)
    then show "wp (if \<not> ok then State_Monad.return Died
          else do {
            before \<leftarrow> take_snapshot e;
            if \<not> snapshot_matches_cold before then State_Monad.return Died
            else rr_recover clk fuel e }) rr_terminated t"
      using died t by (simp add: wp_bind wp_return)
  qed
  then show ?thesis by (simp add: rr_final_def wp_run)
qed

end
