(* ===== verification/Probe_Live.thy ===== *)
theory Probe_Live
  imports Ring_Control Reset_Recovery_Results Card_Session
begin

text \<open>
  The register probes succeed on a card that behaves as documented: \<^verbatim>\<open>vfio_ring_control.c\<close>
  reports success for both of its target words, and \<^verbatim>\<open>vfio_reset_recovery.c\<close> at its first
  poll.
\<close>

section \<open>Counting on a card with known words\<close>

lemma fold_known_wp:
  assumes "\<And>h off. shadow h = shadow (log s) \<Longrightarrow> off \<in> set offs \<Longrightarrow> hw h off = f off"
    and "\<And>rs. reads rs \<Longrightarrow> Q (fold (tally target) (map (\<lambda>off. (off, f off)) offs) a) (s\<lparr>log := rs @ log s\<rparr>)"
  shows "wp (fold_m (\<lambda>off acc. do { v \<leftarrow> bus_read hw off; State_Monad.return (tally target (off, v) acc) })
    offs a) Q s"
  using assms
proof (induction offs arbitrary: a s)
  case Nil
  then show ?case using Nil.prems(2)[of "[]"] by (simp add: wp_simps)
next
  case (Cons off offs)
  let ?v = "hw (log s) off"
  have v: "?v = f off" using Cons.prems(1)[of "log s" off] by simp
  have "wp (fold_m (\<lambda>off acc. do { v \<leftarrow> bus_read hw off; State_Monad.return (tally target (off, v) acc) })
    offs (tally target (off, ?v) a)) Q (s\<lparr>log := Rd off ?v # log s\<rparr>)"
  proof (rule Cons.IH)
    show "hw h o' = f o'" if "shadow h = shadow (log (s\<lparr>log := Rd off ?v # log s\<rparr>))" "o' \<in> set offs" for h o'
      using that Cons.prems(1) by simp
    fix rs :: history
    assume "reads rs"
    then show "Q (fold (tally target) (map (\<lambda>off. (off, f off)) offs) (tally target (off, ?v) a))
        (s\<lparr>log := Rd off ?v # log s, log := rs @ log (s\<lparr>log := Rd off ?v # log s\<rparr>)\<rparr>)"
      using Cons.prems(2)[of "rs @ [Rd off ?v]"] v by simp
  qed
  then show ?case by (simp add: wp_simps)
qed

lemma tally_zero: "(\<And>off. off \<in> set offs \<Longrightarrow> f off = 0) \<Longrightarrow>
    fold (tally target) (map (\<lambda>off. (off, f off)) offs) a = a"
  by (induction offs arbitrary: a) (auto simp: split_paired_all)

lemma tally_one:
  assumes "distinct offs" "target \<in> set offs" "f target \<noteq> 0" "\<And>off. off \<in> set offs \<Longrightarrow> off \<noteq> target \<Longrightarrow> f off = 0"
  shows "fold (tally target) (map (\<lambda>off. (off, f off)) offs) (n, u) = (n + 1, u)"
proof -
  obtain xs ys where o: "offs = xs @ target # ys" using assms(2) by (meson split_list)
  have "fold (tally target) (map (\<lambda>off. (off, f off)) zs) a = a" if "set zs \<subseteq> set offs - {target}" for zs a
    by (rule tally_zero) (use that assms(4) in auto)
  moreover have "set xs \<subseteq> set offs - {target}" "set ys \<subseteq> set offs - {target}" using assms(1) o by auto
  ultimately show ?thesis using assms(3) by (simp add: o)
qed

lemma in_ring_offsets: "d < 8 \<Longrightarrow> r < 2 \<Longrightarrow> w < 16 \<Longrightarrow> ring_reg d r w \<in> set all_ring_offsets"
  by (auto simp: set_all_ring_offsets)

lemma target_offset:
  "target = ring_reg 0 0 8 \<or> target = ring_reg 0 0 9 \<Longrightarrow> target \<in> set all_ring_offsets"
  by (auto intro: in_ring_offsets)

definition zero_but :: "u32 \<Rightarrow> u32 \<Rightarrow> (u32 \<Rightarrow> u32 option) \<Rightarrow> bool" where
  "zero_but target x k \<longleftrightarrow> stored_at k DMA_CONTROL DMA_COLD_RESET = DMA_COLD_RESET \<and>
     stored_at k target 0 = x \<and>
     (\<forall>d<8. \<forall>r<2. \<forall>w<10. ring_reg d r w \<noteq> target \<longrightarrow> stored_at k (ring_reg d r w) 0 = 0)"

lemma known_word:
  assumes "octo_hw hw" "zero_but target x (shadow h)" "off \<in> set all_ring_offsets"
    "target = ring_reg 0 0 8 \<or> target = ring_reg 0 0 9"
  shows "hw h off = (if off = target then x else 0)"
proof -
  obtain d r w where o: "d < 8" "r < 2" "w < 16" "off = ring_reg d r w"
    using assms(3) by (auto simp: set_all_ring_offsets)
  show ?thesis
  proof (cases "off = target")
    case True
    then have "w < 10" using assms(4) o by (auto simp: ring_reg_eq_iff)
    then show ?thesis
      using card_reads(6)[OF assms(1) o(1-3), of h] assms(2) True o(4) by (simp add: ring_word_def zero_but_def)
  next
    case False
    then show ?thesis
      using card_reads(6)[OF assms(1) o(1-3), of h] assms(2) o by (simp add: ring_word_def zero_but_def)
  qed
qed

lemma count_live:
  assumes "octo_hw hw" "zero_but target x (shadow (log s))" "target = ring_reg 0 0 8 \<or> target = ring_reg 0 0 9"
    and "\<And>rs. reads rs \<Longrightarrow> Q (if x = 0 then 0 else 1, 0) (s\<lparr>log := rs @ log s\<rparr>)"
  shows "wp (count_ring_words (bus_read hw) target) Q s"
  unfolding count_as_fold
proof (rule fold_known_wp[where f = "\<lambda>off. if off = target then x else 0"])
  show "hw h off = (if off = target then x else 0)"
    if "shadow h = shadow (log s)" "off \<in> set all_ring_offsets" for h off
    by (rule known_word[OF assms(1) _ that(2) assms(3)]) (use that(1) assms(2) in simp)
next
  fix rs :: history
  assume rs: "reads rs"
  have t: "target \<in> set all_ring_offsets" using assms(3) by (rule target_offset)
  have "fold (tally target) (map (\<lambda>off. (off, if off = target then x else 0)) all_ring_offsets) (0, 0) =
      (if x = 0 then 0 else 1, 0)"
  proof (cases "x = 0")
    case True
    then show ?thesis using tally_zero[of all_ring_offsets "\<lambda>off. if off = target then x else 0"] by simp
  next
    case False
    then show ?thesis
      using tally_one[OF distinct_ring_offsets t, of "\<lambda>off. if off = target then x else 0" 0 0] by simp
  qed
  then show "Q (fold (tally target) (map (\<lambda>off. (off, if off = target then x else 0)) all_ring_offsets) (0, 0))
      (s\<lparr>log := rs @ log s\<rparr>)" using assms(4)[OF rs] by simp
qed

section \<open>Ring control\<close>

lemma identity_live:
  assumes "octo_hw (answer e)" "stored_at (shadow (log s)) DMA_CONTROL DMA_COLD_RESET = DMA_COLD_RESET"
    and "\<And>rs. reads rs \<Longrightarrow> Q True (s\<lparr>log := rs @ log s\<rparr>)"
  shows "wp (and_m (check True) (identity_and_dsps_match e)) Q s"
  unfolding identity_and_dsps_match_def rc_reads
  by (rule meets_wp[OF meets_and_m[OF meets_check meets_and_m[OF meets_identity(1)[OF assms(1)]
        meets_and_m[OF meets_identity(2)[OF assms(1)] meets_and_m[OF meets_dma[OF assms(1)]
        meets_ready[OF assms(1)]]]]]]) (use assms(2,3) in simp_all)

lemma rc_target_ring: "rc_target argv = Some (target, label) \<Longrightarrow> target = ring_reg 0 0 8 \<or> target = ring_reg 0 0 9"
  by (rule rc_target_cases)

lemma rc_baseline_live:
  assumes "octo_hw (answer e)" "zero_but target 0 (shadow (log s))" "target = ring_reg 0 0 8 \<or> target = ring_reg 0 0 9"
    and "\<And>n rs. reads rs \<Longrightarrow> Q (n, True) (s\<lparr>log := rs @ log s\<rparr>)"
  shows "wp (rc_baseline e target) Q s"
  unfolding rc_baseline_def count_nonzero_ring_words_def rc_reads wp_bind
proof (rule count_live[OF assms(1-3)], simp only: prod.case if_True simp_thms wp_bind wp_return)
  fix rs :: history
  assume rs: "reads rs"
  show "wp (and_m (check True) (identity_and_dsps_match e)) (\<lambda>ok. Q (0, ok)) (s\<lparr>log := rs @ log s\<rparr>)"
  proof (rule identity_live[OF assms(1)])
    show "stored_at (shadow (log (s\<lparr>log := rs @ log s\<rparr>))) DMA_CONTROL DMA_COLD_RESET = DMA_COLD_RESET"
      using assms(2) rs by (simp add: zero_but_def)
    fix qs :: history
    assume "reads qs"
    then show "Q (0, True) (s\<lparr>log := rs @ log s, log := qs @ log (s\<lparr>log := rs @ log s\<rparr>)\<rparr>)"
      using assms(4)[of "qs @ rs" 0] rs by simp
  qed
qed

lemma rc_checks_live:
  assumes "octo_hw (answer e)" "zero_but target x (shadow (log s))" "target = ring_reg 0 0 8 \<or> target = ring_reg 0 0 9"
    and "\<And>v n rs. reads rs \<Longrightarrow> Q (v, n, True) (s\<lparr>log := rs @ log s\<rparr>)"
  shows "x = 1 \<Longrightarrow> wp (rc_check_one e target) Q s" "x = 0 \<Longrightarrow> wp (rc_check_restored e target) Q s"
proof -
  have v: "answer e (log s) target = x"
    using known_word[OF assms(1,2) target_offset[OF assms(3)] assms(3)] by simp
  let ?s = "s\<lparr>log := Rd target x # log s\<rparr>"
  have z: "zero_but target x (shadow (log ?s))" using assms(2) by simp
  have fin: "wp (and_m (check True) (identity_and_dsps_match e)) (\<lambda>ok. Q (x, n, ok)) (?s\<lparr>log := rs @ log ?s\<rparr>)"
    if rs: "reads rs" for rs n
  proof (rule identity_live[OF assms(1)])
    show "stored_at (shadow (log (?s\<lparr>log := rs @ log ?s\<rparr>))) DMA_CONTROL DMA_COLD_RESET = DMA_COLD_RESET"
      using assms(2) rs by (simp add: zero_but_def)
    fix qs :: history
    assume "reads qs"
    then show "Q (x, n, True) (?s\<lparr>log := rs @ log ?s, log := qs @ log (?s\<lparr>log := rs @ log ?s\<rparr>)\<rparr>)"
      using assms(4)[of "qs @ rs @ [Rd target x]" x n] rs by simp
  qed
  show "wp (rc_check_one e target) Q s" if "x = 1"
    unfolding rc_check_one_def count_nonzero_ring_words_def rc_reads wp_bind wp_bus_read v
    by (rule count_live[OF assms(1) z assms(3)])
      (use fin that in \<open>simp add: wp_bind wp_return\<close>)
  show "wp (rc_check_restored e target) Q s" if "x = 0"
    unfolding rc_check_restored_def count_nonzero_ring_words_def rc_reads wp_bind wp_bus_read v
    by (rule count_live[OF assms(1) z assms(3)])
      (use fin that in \<open>simp add: wp_bind wp_return\<close>)
qed

lemma zero_but_store:
  assumes "zero_but target x (shadow h)" "target = ring_reg 0 0 8 \<or> target = ring_reg 0 0 9"
  shows "zero_but target y (shadow (Wr target y # h))"
  using assms ring_reg_not_global(1)[of 0 0 _ "0x2200"]
  by (auto simp: zero_but_def stored_at_def)

lemma rc_run_live:
  assumes "good_env e" "target = ring_reg 0 0 8 \<or> target = ring_reg 0 0 9" "writes (log s) = []"
  shows "wp (rc_run e target label) (\<lambda>r _. r = Some True) s"
proof -
  have card: "octo_hw (answer e)" and r: "\<not> device_reset e < 0" using assms(1) by (simp_all add: good_env_def)
  have z: "zero_but target 0 (shadow (log s))"
    using assms(3) by (simp add: zero_but_def stored_at_def shadow_map_of)
  have close: "wp close_probe (\<lambda>_. Q) t" if "\<And>l. Q (t\<lparr>log := l\<rparr>)" for Q and t :: session
    using that that[of "log t"] by (auto simp: close_probe_def detach_group_def wp_simps)
  have finish: "wp (rc_finish e target label nb (v, n, True) (v', n', True) (v'', n'', True)) (\<lambda>r _. r = Some True) t"
    if "zero_but target 0 (shadow (log t))" for nb v n v' n' v'' n'' and t :: session
    unfolding rc_finish_def wp_bind wp_emit if_not_P[OF r] wp_modify
    by (rule rc_baseline_live[OF card _ assms(2)]) (use that in \<open>simp_all add: wp_return close\<close>)
  let ?R = "\<lambda>r (_ :: session). r = Some True"
  have restored: "wp (rc_check_restored e target) (\<lambda>restored. wp (rc_finish e target label nb
      (v, n, True) (v', n', True) restored) ?R) t"
    if t: "zero_but target 0 (shadow (log t))" for nb v n v' n' and t :: session
    by (rule rc_checks_live(2)[OF card t assms(2)], rule finish) (use t in simp_all)
  have waited: "wp (rc_check_one e target) (\<lambda>waited. wp (rc_mmio_write32 target 0) (\<lambda>_.
      wp (rc_check_restored e target) (\<lambda>restored. wp (rc_finish e target label nb
      (v, n, True) waited restored) ?R))) t"
    if t: "zero_but target 1 (shadow (log t))" for nb v n and t :: session
  proof (rule rc_checks_live(1)[OF card t assms(2)], unfold rc_mmio_write32_def wp_bus_write, rule restored)
    fix rs :: history
    assume "reads rs"
    then have "zero_but target 1 (shadow (rs @ log t))" using t by simp
    from zero_but_store[OF this assms(2), of 0]
    show "zero_but target 0 (shadow (log (t\<lparr>log := rs @ log t, log := Wr target 0 # log (t\<lparr>log := rs @ log t\<rparr>)\<rparr>)))"
      by simp
  qed simp
  have exercise: "wp (rc_exercise e target label nb) ?R t"
    if t: "zero_but target 0 (shadow (log t))" for nb and t :: session
  proof -
    let ?t = "t\<lparr>log := Wr target 1 # log t\<rparr>"
    have z1: "zero_but target 1 (shadow (log ?t))"
      using zero_but_store[OF t assms(2), of 1] by simp
    have "wp (rc_check_one e target) (\<lambda>written. wp (nanosleep 250000000) (\<lambda>_. wp (rc_check_one e target)
      (\<lambda>waited. wp (rc_mmio_write32 target 0) (\<lambda>_. wp (rc_check_restored e target) (\<lambda>restored.
        wp (rc_finish e target label nb written waited restored) ?R))))) ?t"
      by (rule rc_checks_live(1)[OF card z1 assms(2)], unfold nanosleep_def wp_emit, rule waited)
        (use z1 in simp_all)
    then show ?thesis
      unfolding rc_exercise_def wp_bind by (simp only: rc_mmio_write32_def[of target 1] wp_bus_write)
  qed
  show ?thesis
    unfolding rc_run_def wp_bind
    by (rule rc_baseline_live[OF card z assms(2)]) (use exercise z in simp)
qed

lemma rc_setup_live:
  "good_env e \<Longrightarrow> wp (rc_setup e) (\<lambda>ok t. ok \<and> writes (log t) = writes (log s)) s"
  by (simp add: good_env_def rc_setup_def open_container_def open_group_def attach_group_def
      attach_iommu_def open_device_def map_bar_def check_def rc_device_valid_def wp_simps)

lemma rc_live:
  assumes "good_env e" "rc_target argv \<noteq> None"
  shows "fst (rc_final e argv) = Some True"
proof -
  obtain target label where a: "rc_target argv = Some (target, label)" using assms(2) by auto
  have "wp (rc_setup e) (\<lambda>ok. wp (if ok then rc_run e target label else State_Monad.return None)
      (\<lambda>r _. r = Some True)) probe_locals"
    by (rule wp_mono[OF rc_setup_live[OF assms(1)]])
      (use rc_run_live[OF assms(1) rc_target_ring[OF a]] in \<open>simp add: probe_locals_def\<close>)
  then have "wp (rc_main e argv) (\<lambda>r _. r = Some True) probe_locals"
    by (simp add: rc_main_def a wp_bind)
  then show ?thesis by (simp add: rc_final_def wp_run)
qed

section \<open>Reset recovery\<close>

definition later_reads :: "recovery \<Rightarrow> recovery \<Rightarrow> bool" where
  "later_reads s t \<longleftrightarrow> (\<exists>rs. reads rs \<and> t = s\<lparr>log := rs @ log s\<rparr>)"

lemma later_reads_step: "later_reads s t \<Longrightarrow> later_reads s (t\<lparr>log := Rd a v # log t\<rparr>)"
  unfolding later_reads_def by (elim exE, rule_tac x = "Rd a v # rs" in exI) simp

lemma later_reads_shadow: "later_reads s t \<Longrightarrow> shadow (log t) = shadow (log s)"
  by (auto simp: later_reads_def)

lemma later_reads_refl: "later_reads s s"
  unfolding later_reads_def by (rule exI[of _ "[]"]) simp

lemma count_zero_live:
  assumes "octo_hw (answer e)" "shadow (log s) = Map.empty" "d < 8" "later_reads s t"
  shows "wp (count_zero e d z) (\<lambda>y u. y = z + 22 \<and> later_reads s u) t"
  unfolding count_zero_def
proof (rule wp_fold_upt[where I = "\<lambda>i y u. y = z + 11 * i \<and> later_reads s u"])
  fix r y u
  assume r: "r < 2" and u: "y = z + 11 * r \<and> later_reads s u"
  show "wp (fold_m (\<lambda>field zero.
       do { v \<leftarrow> rr_mmio_read32 e (ring_base d r + of_nat field * 4);
            State_Monad.return (if v = 0 then zero + 1 else zero) }) [0..<11] y)
      (\<lambda>y u. y = z + 11 * Suc r \<and> later_reads s u) u"
  proof (rule wp_fold_upt[where I = "\<lambda>i x v. x = y + i \<and> later_reads s v"])
    fix w x v
    assume w: "w < 11" and v: "x = y + w \<and> later_reads s v"
    have "answer e (log v) (ring_reg d r w) = 0"
      using card_reads(6)[OF assms(1,3) r, of w "log v"] w later_reads_shadow[of s v] v assms(2)
      by (simp add: ring_word_def stored_at_def)
    then show "wp (do { v \<leftarrow> rr_mmio_read32 e (ring_base d r + of_nat w * 4);
            State_Monad.return (if v = 0 then x + 1 else x) }) (\<lambda>x v. x = y + Suc w \<and> later_reads s v) v"
      using v later_reads_step by (simp add: rr_mmio_read32_def wp_simps ring_base_word[OF assms(3)])
  qed (use u in auto)
qed (use assms(4) in auto)

lemma take_snapshot_live:
  assumes "octo_hw (answer e)" "shadow (log s) = Map.empty"
  shows "wp (take_snapshot e) (\<lambda>sn t. snapshot_matches_cold sn \<and> later_reads s t) s"
proof -
  define good where "good n p t \<longleftrightarrow> snd p = 22 * n \<and> length (fst p) = n \<and>
    (\<forall>d<n. fst p ! d AND 1 \<noteq> 0) \<and> later_reads s t" for n and p :: "u32 list \<times> nat" and t
  have loop: "wp (fold_m (\<lambda>dsp (status, zero). do {
        v \<leftarrow> rr_mmio_read32 e (boot_offsets ! dsp);
        zero \<leftarrow> count_zero e dsp zero;
        State_Monad.return (status @ [v], zero) }) [0..<8] ([], 0)) (good 8) t" if "later_reads s t" for t
  proof (rule wp_fold_upt[where I = good])
    show "good 0 ([], 0) t" using that by (simp add: good_def)
  next
    fix n and p :: "u32 list \<times> nat" and u
    assume n: "n < 8" and u: "good n p u"
    obtain st z where p: "p = (st, z)" by (cases p)
    let ?v = "answer e (log u) (boot_offsets ! n)"
    let ?u = "u\<lparr>log := Rd (boot_offsets ! n) ?v # log u\<rparr>"
    have v: "?v AND 1 \<noteq> 0" by (rule card_reads(5)[OF assms(1) n])
    have l: "later_reads s ?u" using u by (intro later_reads_step) (simp add: good_def)
    show "wp (case p of (status, zero) \<Rightarrow> do {
        v \<leftarrow> rr_mmio_read32 e (boot_offsets ! n);
        zero \<leftarrow> count_zero e n zero;
        State_Monad.return (status @ [v], zero) }) (good (Suc n)) u"
      unfolding p prod.case wp_bind rr_mmio_read32_def wp_bus_read wp_return
      by (rule wp_mono[OF count_zero_live[OF assms n l]])
        (use u p v in \<open>auto simp: good_def nth_append less_Suc_eq\<close>)
  qed
  have fin: "wp (fold_m (\<lambda>dsp (status, zero). do {
        v \<leftarrow> rr_mmio_read32 e (boot_offsets ! dsp);
        zero \<leftarrow> count_zero e dsp zero;
        State_Monad.return (status @ [v], zero) }) [0..<8] ([], 0))
     (\<lambda>p. wp (case p of (st, z) \<Rightarrow> State_Monad.return \<lparr>fpga_revision = EXPECTED_FPGA_REVISION,
        capabilities = EXPECTED_CAPABILITIES, dma_control = DMA_COLD_RESET, dsp_status = st,
        zero_ring_words = z\<rparr>) (\<lambda>sn t. snapshot_matches_cold sn \<and> later_reads s t)) t"
    if "later_reads s t" for t
    by (rule wp_mono[OF loop[OF that]]) (auto simp: good_def wp_return snapshot_matches_cold_def)
  have dma: "answer e h DMA_CONTROL = DMA_COLD_RESET" if "shadow h = Map.empty" for h
    using card_reads(1)[OF assms(1), of h] that by (simp add: stored_at_def)
  let ?a = "Rd FPGA_REVISION EXPECTED_FPGA_REVISION"
  let ?b = "Rd EXTENDED_CAPABILITIES EXPECTED_CAPABILITIES"
  have "wp (take_snapshot e) Q s \<longleftrightarrow> wp (fold_m (\<lambda>dsp (status, zero). do {
        v \<leftarrow> rr_mmio_read32 e (boot_offsets ! dsp);
        zero \<leftarrow> count_zero e dsp zero;
        State_Monad.return (status @ [v], zero) }) [0..<8] ([], 0))
     (\<lambda>p. wp (case p of (st, z) \<Rightarrow> State_Monad.return \<lparr>fpga_revision = EXPECTED_FPGA_REVISION,
        capabilities = EXPECTED_CAPABILITIES, dma_control = DMA_COLD_RESET, dsp_status = st,
        zero_ring_words = z\<rparr>) Q) (s\<lparr>log := Rd DMA_CONTROL DMA_COLD_RESET # ?b # ?a # log s\<rparr>)" for Q
    unfolding take_snapshot_def wp_bind rr_mmio_read32_def[of e FPGA_REVISION]
      rr_mmio_read32_def[of e EXTENDED_CAPABILITIES] rr_mmio_read32_def[of e DMA_CONTROL] wp_bus_read
    using dma[of "?b # ?a # log s"] assms(2)
    by (simp add: card_reads(3,4)[OF assms(1), unfolded FPGA_REVISION_def EXTENDED_CAPABILITIES_def])
  moreover have "later_reads s (s\<lparr>log := Rd DMA_CONTROL DMA_COLD_RESET # ?b # ?a # log s\<rparr>)"
    unfolding later_reads_def by (rule exI[of _ "[Rd DMA_CONTROL DMA_COLD_RESET, ?b, ?a]"]) simp
  ultimately show ?thesis using fin by blast
qed

lemma rr_setup_live:
  "good_env e \<Longrightarrow> wp (rr_setup e) (\<lambda>ok t. ok \<and> writes (log t) = writes (log s)) s"
  by (simp add: good_env_def rr_setup_def open_container_def open_group_def attach_group_def
      attach_iommu_def open_device_def map_bar_def check_def rr_device_valid_def wp_simps)

lemma rr_live:
  assumes "good_env e" "\<forall>h. clk h \<noteq> None" "0 < fuel"
  shows "fst (rr_final clk fuel e) = Returned True"
proof -
  have card: "octo_hw (answer e)" and r: "\<not> device_reset e < 0" using assms(1) by (simp_all add: good_env_def)
  obtain n where n: "fuel = Suc n" using assms(3) by (cases fuel) auto
  have clock: "\<exists>v. clock_ms clk h = Some v" for h
    using assms(2) by (auto simp: clock_ms_def)
  let ?R = "\<lambda>r (_ :: recovery). r = Returned True"
  have finish: "wp (rr_finish clk v) ?R t" if "recovered t" for v t
    using clock[of "log t"] that
    by (auto simp: rr_finish_def close_probe_def detach_group_def wp_simps monotonic_wp)
  have poll: "wp (poll clk fuel e v) (\<lambda>r. wp (case r of Returned _ \<Rightarrow> rr_finish clk v
      | _ \<Rightarrow> State_Monad.return r) ?R) t" if t: "shadow (log t) = Map.empty" for v and t :: recovery
    unfolding n poll.simps wp_bind wp_modify
    by (rule wp_mono[OF take_snapshot_live[OF card]]) (use t finish in \<open>simp_all add: wp_bind wp_modify wp_return\<close>)
  have recover: "wp (rr_recover clk fuel e) ?R t" if t: "shadow (log t) = Map.empty" for t
    using clock[of "DeviceReset # log t"] poll r t
    by (auto simp: rr_recover_def wp_bind wp_emit monotonic_wp)
  have "wp (rr_main clk fuel e) ?R rr_locals"
    unfolding rr_main_def wp_bind
  proof (rule wp_mono[OF rr_setup_live[OF assms(1)]])
    fix ok and t :: recovery
    assume t: "ok \<and> writes (log t) = writes (log rr_locals)"
    then have "shadow (log t) = Map.empty" by (simp add: shadow_map_of rr_locals_def)
    then have "wp (take_snapshot e) (\<lambda>before. wp (if \<not> snapshot_matches_cold before
        then State_Monad.return Died else rr_recover clk fuel e) ?R) t"
      by (intro wp_mono[OF take_snapshot_live[OF card]]) (use recover later_reads_shadow in auto)
    then show "wp (if \<not> ok then State_Monad.return Died
          else do {
            before \<leftarrow> take_snapshot e;
            if \<not> snapshot_matches_cold before then State_Monad.return Died
            else rr_recover clk fuel e }) ?R t"
      using t by (simp add: wp_bind)
  qed
  then show ?thesis by (simp add: rr_final_def wp_run)
qed

end
