(* ===== verification/Tool_Properties.thy ===== *)
theory Tool_Properties
  imports Kernel_Properties Full_Octo_Live Official_Ring_Live Probe_Live
begin

text \<open>
  The properties of the bring-up tools under \<^verbatim>\<open>tools/\<close>, and the equivalence of the start
  sequence of \<^verbatim>\<open>tools/vfio_full_octo_start.c\<close> with that of the kernel driver.
\<close>

section \<open>vfio_full_octo_start\<close>

text \<open>
  C24. The stores of any run of \<^verbatim>\<open>vfio_full_octo_start\<close> are none at all, or the startup sequence
  with ring indexes below 1024, a prefix of the per-DSP reset schedule (empty unless resets were
  asked for, and never ending between the store that raises a reset bit and the one that lowers
  it), and the whole restore sequence: once it has begun it always puts the card back.
\<close>

theorem full_octo_stores: "fos_store_shape argv (writes (log (fos_final e argv)))"
  by (rule fos_run_shape)

text \<open>
  C25. Exit status 0 of \<^verbatim>\<open>vfio_full_octo_start\<close> is backed by loads the run has made: before its
  first store it read every ring word zero, every DSP ready, the cold DMA control, interrupts off
  and both identity words; then it stored exactly the startup sequence and, when asked, the whole
  reset schedule, read back every published word, all engines enabled, every DSP ready,
  interrupts off, and all 64 canary pages unchanged after the wait; then it stored exactly the
  restore sequence and read the rings zero and the cold DMA control; and after the device reset
  it read them and every DSP ready again, without a further store.
\<close>

theorem full_octo_success:
  assumes "exit_success (fos_final e argv)"
  shows "fos_evidence e (fos_wants_resets argv) (log (fos_final e argv))"
  using assms by (rule fos_evidence_final)

theorem full_octo_success_witness:
  "fos_evidence (demo_env (64 * 4096)) True
     (log (fos_final (demo_env (64 * 4096)) [''vfio_full_octo_start'', ''--exercise-dsp-resets'']))"
proof -
  let ?argv = "[''vfio_full_octo_start'', ''--exercise-dsp-resets'']"
  have w: "fos_wants_resets ?argv" by (simp add: fos_wants_resets_def)
  then have "exit_success (fos_final (demo_env (64 * 4096)) ?argv)"
    by (intro fos_live demo_env_good) (simp add: fos_valid_arguments_def)
  from full_octo_success[OF this] w show ?thesis by simp
qed

text \<open>
  C26. On a host on which every call succeeds, with no signal, and a card that answers as
  documented and leaves the canary pages alone, every run of \<^verbatim>\<open>vfio_full_octo_start\<close> with a
  valid command line ends with exit status 0, with and without the reset loop.
\<close>

theorem full_octo_succeeds:
  assumes "good_env e" "unmap_ok e (64 * 4096)" "fos_valid_arguments argv"
  shows "exit_success (fos_final e argv)"
  using assms by (rule fos_live)

theorem full_octo_succeeds_witness:
  "exit_success (fos_final (demo_env (64 * 4096)) [''vfio_full_octo_start''])"
  by (rule full_octo_succeeds[OF demo_env_good]) (simp add: fos_valid_arguments_def)

text \<open>
  The store counter \<^verbatim>\<open>mmio_write_count\<close> that \<^verbatim>\<open>vfio_full_octo_start\<close> reports is the number of
  stores the run has made (modulo the width of the C counter), cleanup included.
\<close>

theorem full_octo_counts:
  "mmio_write_count (fos_final e argv) = of_nat (length (writes (log (fos_final e argv))))"
  by (rule fos_run_counted)





section \<open>vfio_official_ring_init\<close>

text \<open>
  C28. The stores of any run of \<^verbatim>\<open>vfio_official_ring_init\<close> are none, or the publication of the two
  rings of DSP 0 in the vendor's order with indexes below 1024 followed by the whole clearing
  sequence: it never stores to DMA control or to an interrupt register, which its report claims.
\<close>

theorem official_ring_stores: "ori_store_shape (writes (log (ori_final e argv)))"
  by (rule ori_run_shape)

text \<open>
  C29. Exit status 0 of \<^verbatim>\<open>vfio_official_ring_init\<close> is backed by loads: the cold card before the first
  store; after the publication every ring word of the card as expected, every DSP ready, DMA
  control still cold and the eight canary pages unchanged; all ring words zero after the
  clearing; and the cold card after the device reset.
\<close>

theorem official_ring_success:
  assumes "exit_success (ori_final e argv)"
  shows "ori_evidence e (log (ori_final e argv))"
  using assms ori_final_cleaned by (simp add: ori_cleaned_def)

theorem official_ring_success_witness:
  "ori_evidence (demo_env (8 * 4096)) (log (ori_final (demo_env (8 * 4096)) [''vfio_official_ring_init'']))"
  by (rule official_ring_success, rule ori_live[OF demo_env_good]) simp

section \<open>vfio_ring_control and vfio_reset_recovery\<close>

text \<open>
  C30. \<^verbatim>\<open>vfio_ring_control\<close> stores nothing or exactly 1 and then 0 to the one control word its command
  line names (also when the device reset fails and it dies), keeps every access inside the
  mapped BAR0 with all engines off, releases everything when it returns from \<^verbatim>\<open>main\<close>, and returns
  success only when its loads showed: the cold card, then the target word 1 and every other
  ring word zero, twice, then the cold card after the restore and again after the reset.
\<close>

theorem ring_control_outcome: "rc_outcome argv (fst (rc_final e argv)) (snd (rc_final e argv))"
  by (rule rc_main_outcome)

text \<open>
  On a host on which every call succeeds and a card that answers as documented,
  \<^verbatim>\<open>vfio_ring_control\<close> returns success for both of its command lines.
\<close>

theorem ring_control_succeeds:
  assumes "good_env e" "rc_target argv \<noteq> None"
  shows "fst (rc_final e argv) = Some True"
  using assms by (rule rc_live)

theorem ring_control_succeeds_witness:
  "fst (rc_final (demo_env 0) [''vfio_ring_control'', ''--experiment-006'']) = Some True"
  by (rule ring_control_succeeds[OF demo_env_good(1)]) (simp add: rc_target_def)

text \<open>
  C31. \<^verbatim>\<open>vfio_reset_recovery\<close>, with any clock, stores nothing, keeps every access inside the mapped
  BAR0, releases everything when it returns, and returns success only when it loaded a cold
  snapshot (identity, DMA control, eight ready DSPs, 176 zero ring words) both before and after
  the reset.
\<close>

theorem reset_recovery_outcome:
  "rr_outcome (fst (rr_final clk fuel e)) (snd (rr_final clk fuel e))"
  by (rule rr_main_outcome)

text \<open>
  C32. \<^verbatim>\<open>vfio_reset_recovery\<close> terminates: with a clock that counts at least the time slept, the polling
  loop ends within 100 turns on every card, also one that never recovers.
\<close>

theorem reset_recovery_terminates:
  assumes "clock_advances clk" "100 \<le> fuel"
  shows "fst (rr_final clk fuel e) \<noteq> Unfinished \<and> unat (attempts (snd (rr_final clk fuel e))) \<le> 100"
  using rr_main_done[OF assms] by (simp add: rr_terminated_def)

theorem reset_recovery_terminates_witness:
  "fst (rr_final demo_clock 100 (demo_env 0)) \<noteq> Unfinished \<and>
     unat (attempts (snd (rr_final demo_clock 100 (demo_env 0)))) \<le> 100"
  by (rule reset_recovery_terminates[OF demo_clock_advances]) simp

end
