(* ===== verification/Command_Session.thy ===== *)
theory Command_Session
  imports Ring_Layout
begin

text \<open>
  What the three tools that submit commands to the firmware have in common
  (\<^verbatim>\<open>tools/vfio_full_query.c\<close>, \<^verbatim>\<open>tools/vfio_loader_rejection.c\<close>, \<^verbatim>\<open>tools/vfio_runtime_load.c\<close>): a VFIO
  session that may also hold an input file and a heap copy of the memory, ring entries and
  buffers in the locked memory, the start of all rings, the connect commands, the doorbells,
  bounded polling, the restore and reset, and the teardown. Each C file holds its own copy of
  these routines; they are mapped to \<^verbatim>\<open>tools/vfio_loader_rejection.c\<close>.
\<close>

section \<open>The host and the state\<close>

text \<open>
  Beside the VFIO host: the wall clock, whether \<^verbatim>\<open>malloc\<close> succeeds, and the input file. A read at
  an offset fails (\<open>None\<close>) or delivers bytes, of which the call takes at most as many as asked for.
\<close>

record command_env =
  host :: vfio_env
  wall_clock :: "history \<Rightarrow> u64"
  malloc_ok :: bool
  input_open :: int
  input_stat :: int
  input_regular :: bool
  input_size :: int
  input_read :: "nat \<Rightarrow> nat \<Rightarrow> u8 list option"

record command_session = session +
  file_fd :: int
  heap_copy :: "(nat \<Rightarrow> u8) option"
  startup :: bool
  connects_consumed :: bool
  command_consumed :: bool
  response_consumed :: bool
  response_written :: bool
  header_matches :: bool
  memory_bounded :: bool
  ready_after :: bool
  restored :: bool
  reset_recovered :: bool
  response :: "u32 list"
  polls :: nat

text \<open>The locals as every tool initialises them; the response buffer has \<open>n\<close> words.\<close>

definition fresh_command :: "nat \<Rightarrow> 'a command_session_scheme \<Rightarrow> bool" where
  "fresh_command n s \<longleftrightarrow> fresh_session s \<and> file_fd s = -1 \<and> heap_copy s = None \<and> \<not> startup s \<and>
     \<not> connects_consumed s \<and> \<not> command_consumed s \<and> \<not> response_consumed s \<and>
     \<not> response_written s \<and> \<not> header_matches s \<and> \<not> memory_bounded s \<and> \<not> ready_after s \<and>
     \<not> restored s \<and> \<not> reset_recovered s \<and> response s = replicate n 0 \<and> polls s = 0"

definition RESPONSE_PAGE :: nat where [simp]: "RESPONSE_PAGE = 64"
definition HEADER_PAGE :: nat where [simp]: "HEADER_PAGE = 65"
definition PAYLOAD_PAGE :: nat where [simp]: "PAYLOAD_PAGE = 66"
definition CALLBACK_SHADOW :: u32 where "CALLBACK_SHADOW = 0xcccccccc"
definition CANARY_BYTE :: u8 where "CANARY_BYTE = 0xa5"
definition CANARY_WORD :: u32 where "CANARY_WORD = 0xa5a5a5a5"
definition CONNECT_COMMAND :: u32 where "CONNECT_COMMAND = 0x00230002"
definition CLOCK_COMMAND :: u32 where "CLOCK_COMMAND = 0x00100002"
definition LOADER_COMMAND_BASE :: u32 where "LOADER_COMMAND_BASE = 0x00120000"
definition LOADER_RESPONSE_CLASS :: u32 where "LOADER_RESPONSE_CLASS = 0x80040000"

definition read32 :: "vfio_env \<Rightarrow> u32 \<Rightarrow> ('a command_session_scheme, u32) state" where
  "read32 e offset = bus_read (answer e) offset"

definition write32 :: "u32 \<Rightarrow> u32 \<Rightarrow> ('a command_session_scheme, unit) state" where
  "write32 offset v = bus_write offset v"

definition all_ready :: "vfio_env \<Rightarrow> ('a command_session_scheme, bool) state" where
  "all_ready e = scan_ready (read32 e)"

definition all_rings_zero :: "vfio_env \<Rightarrow> ('a command_session_scheme, bool) state" where
  "all_rings_zero e = scan_rings_zero (read32 e)"

interpretation cmd_port: mmio_port "read32 e" write32 log
    "\<lambda>s :: 'a command_session_scheme. s\<lparr>log := []\<rparr>" "answer e" for e
  by unfold_locales (simp_all add: read32_def write32_def)

section \<open>The input file and the heap copy\<close>

definition open_input :: "command_env \<Rightarrow> ('a command_session_scheme, bool) state" where
  "open_input c =
     do { modify (\<lambda>s. s\<lparr>file_fd := input_open c\<rparr>);
          if input_open c < 0 then State_Monad.return False
          else do {
            emit (Acquire InputFile);
            State_Monad.return (\<not> input_stat c < 0) } }"

definition close_input :: "('a command_session_scheme, unit) state" where
  "close_input = when_m (\<lambda>s. \<not> file_fd s < 0)
     (do { emit (Release InputFile); modify (\<lambda>s. s\<lparr>file_fd := -1\<rparr>) })"

definition store_bytes :: "nat \<Rightarrow> u8 list \<Rightarrow> (nat \<Rightarrow> u8) \<Rightarrow> nat \<Rightarrow> u8" where
  "store_bytes a bs m = (\<lambda>i. if a \<le> i \<and> i < a + length bs then bs ! (i - a) else m i)"

text \<open>
  The read loop: it stops at an error or at the end of the file, and every turn that goes on has
  read at least one byte.
\<close>

function load_input ::
  "command_env \<Rightarrow> nat \<Rightarrow> nat \<Rightarrow> nat \<Rightarrow> ('a command_session_scheme, bool) state" where
  "load_input c base bytes got =
     (if bytes \<le> got then State_Monad.return True
      else case input_read c got (bytes - got) of
        None \<Rightarrow> State_Monad.return False
      | Some data \<Rightarrow>
          (let chunk = take (bytes - got) data in
           if chunk = [] then State_Monad.return False
           else do { store_ram (store_bytes (base + got) chunk);
                     load_input c base bytes (got + length chunk) }))"
  by pat_completeness auto
termination
  by (relation "measure (\<lambda>(c, base, bytes, got). bytes - got)")
    (auto simp: min_def simp flip: length_greater_0_conv)

declare load_input.simps [simp del]

definition take_snapshot :: "command_env \<Rightarrow> ('a command_session_scheme, bool) state" where
  "take_snapshot c =
     (if \<not> malloc_ok c then State_Monad.return False
      else do {
        emit (Acquire Snapshot);
        modify (\<lambda>s. s\<lparr>heap_copy := Some (ram_view (host c) (log s) (ram s))\<rparr>);
        State_Monad.return True })"

definition free_snapshot :: "('a command_session_scheme, unit) state" where
  "free_snapshot = when_m (\<lambda>s. heap_copy s \<noteq> None) (emit (Release Snapshot))"

text \<open>The resources of a session: the VFIO part and the frame.\<close>

definition frame :: "'a command_session_scheme \<Rightarrow> resource set" where
  "frame s = (if file_fd s < 0 then {} else {InputFile}) \<union>
     (if heap_copy s = None then {} else {Snapshot})"

definition tool_ok :: "'a command_session_scheme \<Rightarrow> bool" where
  "tool_ok s \<longleftrightarrow> framed (frame s) s"

definition holding :: "'a command_session_scheme \<Rightarrow> resource set" where
  "holding s = owned s \<union> frame s"

lemma frame_subset: "frame s \<subseteq> {InputFile, Snapshot}"
  by (auto simp: frame_def)

lemma owned_subset: "owned s \<subseteq> whole"
  by (rule subsetI, rename_tac x, case_tac x) (simp_all add: owns_iff whole_def)

text \<open>The two parts of a set of resources held, the VFIO part and the frame.\<close>

definition vfio_part :: "resource set \<Rightarrow> resource set" where
  "vfio_part A = A - {InputFile, Snapshot}"

definition frame_part :: "resource set \<Rightarrow> resource set" where
  "frame_part A = A \<inter> {InputFile, Snapshot}"

lemma vfio_part_iff: "x \<in> vfio_part A \<longleftrightarrow> x \<in> A \<and> x \<noteq> InputFile \<and> x \<noteq> Snapshot"
  by (auto simp: vfio_part_def)

lemma parts_insert:
  "x \<noteq> InputFile \<Longrightarrow> x \<noteq> Snapshot \<Longrightarrow> insert x (vfio_part A) \<union> frame_part A = insert x A"
  "vfio_part A \<union> frame_part A = A"
  unfolding vfio_part_def frame_part_def by blast+

lemma holding_parts: "owned s = vfio_part (holding s)" "frame s = frame_part (holding s)"
proof -
  have "InputFile \<notin> owned s" "Snapshot \<notin> owned s" using owned_subset[of s] by (auto simp: whole_def)
  then show "owned s = vfio_part (holding s)" "frame s = frame_part (holding s)"
    using frame_subset[of s] unfolding holding_def vfio_part_def frame_part_def by blast+
qed

lemma tool_ok_world: "tool_ok s \<longleftrightarrow> session_world (holding s) (log s)"
  using frame_subset[of s] by (simp only: tool_ok_def framed_def holding_def simp_thms)

lemma frame_more:
  fixes s t :: "'a command_session_scheme"
  assumes "session.more t = session.more s"
  shows "frame t = frame s" "startup t = startup s"
proof -
  have "file_fd t = file_fd s" "heap_copy t = heap_copy s" "startup t = startup s"
    using assms by (cases s; cases t; simp)+
  then show "frame t = frame s" "startup t = startup s" by (simp_all add: frame_def)
qed

section \<open>Preparing a session\<close>

text \<open>
  \<open>prepares A m B\<close>: from a session that holds \<open>A\<close>, the step ends in one that holds \<open>B\<close> or reports
  failure; either way the log agrees with what is held and nothing was stored to the card.
\<close>

definition prepares :: "resource set \<Rightarrow> ('a command_session_scheme, bool) state \<Rightarrow> resource set \<Rightarrow> bool" where
  "prepares A m B \<longleftrightarrow> (\<forall>s. tool_ok s \<longrightarrow> holding s = A \<longrightarrow>
     wp m (\<lambda>b t. tool_ok t \<and> writes (log t) = writes (log s) \<and> exit_success t = exit_success s \<and>
       startup t = startup s \<and> (b \<longrightarrow> holding t = B)) s)"

named_theorems prepares_intros \<open>the steps that prepare a session\<close>

lemma prepares_and_m [prepares_intros]:
  assumes "prepares A a B" "prepares B b C"
  shows "prepares A (and_m a b) C"
  unfolding prepares_def wp_and_m
proof (intro allI impI)
  fix s :: "'a command_session_scheme"
  assume s: "tool_ok s" "holding s = A"
  let ?P = "\<lambda>s B b t. tool_ok t \<and> writes (log t) = writes (log s) \<and> exit_success t = exit_success s \<and>
       startup t = startup s \<and> (b \<longrightarrow> holding t = B)"
  have "wp a (?P s B) s" using assms(1) s by (simp add: prepares_def)
  then show "wp a (\<lambda>x. if x then wp b (?P s C) else ?P s C False) s"
  proof (rule wp_mono)
    fix x and t :: "'a command_session_scheme"
    assume t: "?P s B x t"
    have "wp b (?P t C) t" if x
      using assms(2) t that unfolding prepares_def by blast
    then have "wp b (?P s C) t" if x
      using that t by (auto elim: wp_mono)
    then show "(if x then wp b (?P s C) else ?P s C False) t" using t by simp
  qed
qed

lemma prepares_setup:
  fixes m :: "('a command_session_scheme, bool) state"
  assumes "setup_to (frame_part A) (vfio_part A) m Y" "Y \<union> frame_part A = B"
  shows "prepares A m B"
  unfolding prepares_def
proof (intro allI impI)
  fix s :: "'a command_session_scheme"
  assume s: "tool_ok s" "holding s = A"
  have parts: "owned s = vfio_part A" "frame s = frame_part A"
    using holding_parts[of s] s(2) by simp_all
  have "framed (frame_part A) s" using s(1) parts(2) by (simp only: tool_ok_def)
  with assms(1) parts(1)
  have "wp m (\<lambda>b t. framed (frame_part A) t \<and> session.more t = session.more s \<and>
       writes (log t) = writes (log s) \<and> exit_success t = exit_success s \<and> (b \<longrightarrow> owned t = Y)) s"
    unfolding setup_to_def by blast
  then show "wp m (\<lambda>b t. tool_ok t \<and> writes (log t) = writes (log s) \<and>
       exit_success t = exit_success s \<and> startup t = startup s \<and> (b \<longrightarrow> holding t = B)) s"
  proof (rule wp_mono)
    fix b and t :: "'a command_session_scheme"
    assume t: "framed (frame_part A) t \<and> session.more t = session.more s \<and>
       writes (log t) = writes (log s) \<and> exit_success t = exit_success s \<and> (b \<longrightarrow> owned t = Y)"
    then have "session.more t = session.more s" by (simp only: simp_thms)
    note more = frame_more[OF this]
    have "framed (frame t) t" "b \<Longrightarrow> owned t \<union> frame t = B"
      using t assms(2) more(1) parts(2) by (simp_all only: simp_thms)
    then show "tool_ok t \<and> writes (log t) = writes (log s) \<and>
       exit_success t = exit_success s \<and> startup t = startup s \<and> (b \<longrightarrow> holding t = B)"
      using t more(2) unfolding tool_ok_def holding_def by blast
  qed
qed

lemma prepares_acquire:
  assumes "setup_to (frame_part A) (vfio_part A) m (insert x (vfio_part A))" "x \<noteq> InputFile" "x \<noteq> Snapshot"
  shows "prepares A m (insert x A)"
  using assms(1) parts_insert(1)[OF assms(2,3)] by (rule prepares_setup)

lemma prepares_steps [prepares_intros]:
  "VfioContainer \<notin> A \<Longrightarrow> prepares A (open_container e) (insert VfioContainer A)"
  "VfioGroup \<notin> A \<Longrightarrow> VfioContainer \<in> A \<Longrightarrow> prepares A (open_group e) (insert VfioGroup A)"
  "VfioAttached \<notin> A \<Longrightarrow> VfioGroup \<in> A \<Longrightarrow> prepares A (attach_group e) (insert VfioAttached A)"
  "VfioMemory \<notin> A \<Longrightarrow> prepares A (allocate_memory e) (insert VfioMemory A)"
  "VfioMapping \<notin> A \<Longrightarrow> VfioMemory \<in> A \<Longrightarrow> VfioAttached \<in> A \<Longrightarrow> prepares A (map_iova e) (insert VfioMapping A)"
  "VfioDevice \<notin> A \<Longrightarrow> VfioAttached \<in> A \<Longrightarrow> prepares A (open_device e v) (insert VfioDevice A)"
  "BarMap \<notin> A \<Longrightarrow> VfioDevice \<in> A \<Longrightarrow> prepares A (map_bar e) (insert BarMap A)"
  by (rule prepares_acquire, rule setup_intros; simp add: vfio_part_iff)+

lemma prepares_checks [prepares_intros]:
  "prepares A (configure_iommu e p) A" "prepares A (check b) A"
  by (rule prepares_setup[OF _ parts_insert(2)], rule setup_intros)+

text \<open>Steps that change only the tool's own variables or the memory.\<close>

definition same_holdings :: "'a command_session_scheme \<Rightarrow> 'a command_session_scheme \<Rightarrow> bool" where
  "same_holdings s t \<longleftrightarrow> same_handles s t \<and> file_fd t = file_fd s \<and>
     (heap_copy t = None \<longleftrightarrow> heap_copy s = None)"

lemma holding_same: "same_holdings s t \<Longrightarrow> holding t = holding s"
proof -
  assume a: "same_holdings s t"
  then have "owned t = owned s"
    by (intro owned_cong) (simp_all only: same_holdings_def same_handles_def)
  moreover have "frame t = frame s" using a by (simp only: frame_def same_holdings_def)
  ultimately show ?thesis by (simp only: holding_def)
qed

definition local_step :: "('a command_session_scheme, 'b) state \<Rightarrow> bool" where
  "local_step m \<longleftrightarrow> (\<forall>s. wp m (\<lambda>_ t. same_holdings s t \<and> log t = log s \<and>
     exit_success t = exit_success s \<and> startup t = startup s) s)"

lemma prepares_local:
  assumes "local_step m"
  shows "prepares A m A"
  unfolding prepares_def
proof (intro allI impI)
  fix s :: "'a command_session_scheme"
  assume s: "tool_ok s" "holding s = A"
  have "wp m (\<lambda>_ t. same_holdings s t \<and> log t = log s \<and>
     exit_success t = exit_success s \<and> startup t = startup s) s"
    using assms by (simp add: local_step_def)
  then show "wp m (\<lambda>b t. tool_ok t \<and> writes (log t) = writes (log s) \<and>
       exit_success t = exit_success s \<and> startup t = startup s \<and> (b \<longrightarrow> holding t = A)) s"
    by (rule wp_mono) (use s holding_same[of s] in \<open>simp add: tool_ok_world\<close>)
qed

lemma local_steps:
  "local_step (State_Monad.return a)" "local_step (store_ram f)" "local_step (gets g)"
  "local_step m \<Longrightarrow> (\<And>a. local_step (n a)) \<Longrightarrow> local_step (State_Monad.bind m n)"
proof -
  show "local_step (State_Monad.return a)" "local_step (store_ram f)" "local_step (gets g)"
    by (simp_all add: local_step_def store_ram_def wp_simps same_holdings_def same_handles_def)
next
  assume m: "local_step m" and n: "\<And>a. local_step (n a)"
  show "local_step (State_Monad.bind m n)"
    unfolding local_step_def wp_bind
  proof
    fix s
    have "wp m (\<lambda>_ t. same_holdings s t \<and> log t = log s \<and>
       exit_success t = exit_success s \<and> startup t = startup s) s"
      using m by (simp add: local_step_def)
    then show "wp m (\<lambda>a. wp (n a) (\<lambda>_ t. same_holdings s t \<and> log t = log s \<and>
       exit_success t = exit_success s \<and> startup t = startup s)) s"
    proof (rule wp_mono)
      fix a t
      assume t: "same_holdings s t \<and> log t = log s \<and> exit_success t = exit_success s \<and> startup t = startup s"
      have "wp (n a) (\<lambda>_ u. same_holdings t u \<and> log u = log t \<and>
         exit_success u = exit_success t \<and> startup u = startup t) t"
        using n by (simp add: local_step_def)
      then show "wp (n a) (\<lambda>_ u. same_holdings s u \<and> log u = log s \<and>
         exit_success u = exit_success s \<and> startup u = startup s) t"
        by (rule wp_mono) (use t in \<open>simp add: same_holdings_def same_handles_def\<close>)
    qed
  qed
qed

lemma local_if: "local_step m \<Longrightarrow> local_step n \<Longrightarrow> local_step (if b then m else n)"
  by simp

lemma local_and_m: "local_step a \<Longrightarrow> local_step b \<Longrightarrow> local_step (and_m a b)"
  unfolding and_m_def by (intro local_steps local_if)

lemma local_all_m: "(\<And>x. x \<in> set xs \<Longrightarrow> local_step (f x)) \<Longrightarrow> local_step (all_m xs f)"
  by (induction xs) (auto intro!: local_steps)

lemma local_check: "local_step (check b)"
  unfolding check_def by (rule local_steps)

lemmas local_intros = local_steps local_if local_and_m local_all_m local_check

lemma local_load: "local_step (load_input c base bytes got :: ('a command_session_scheme, bool) state)"
proof (induction c base bytes got rule: load_input.induct)
  case (1 c base bytes got)
  show ?case
  proof (cases "bytes \<le> got")
    case True
    then show ?thesis by (subst load_input.simps) (simp add: local_steps)
  next
    case False
    have "local_step (let chunk = take (bytes - got) data in
         if chunk = [] then State_Monad.return False
         else do { store_ram (store_bytes (base + got) chunk);
                   load_input c base bytes (got + length chunk) :: ('a command_session_scheme, bool) state })"
      if "input_read c got (bytes - got) = Some data" for data
      unfolding Let_def if_split[where P = local_step]
      by (intro conjI impI local_steps(1) local_steps(4)[OF local_steps(2)]) (rule 1[OF False that refl])
    with False show ?thesis
      by (subst load_input.simps) (simp add: local_steps split: option.split)
  qed
qed

lemma closed_frame_insert [simp]:
  "closed (insert InputFile S) = closed S" "closed (insert Snapshot S) = closed S"
  "closed (S - {InputFile}) = closed S" "closed (S - {Snapshot}) = closed S"
  by (simp_all add: closed_def)

lemma holding_updates:
  fixes s :: "'a command_session_scheme"
  shows "holding (s\<lparr>log := h\<rparr>) = holding s"
    "0 \<le> x \<Longrightarrow> holding (s\<lparr>file_fd := x\<rparr>) = insert InputFile (holding s)"
    "x < 0 \<Longrightarrow> holding (s\<lparr>file_fd := x\<rparr>) = holding s - {InputFile}"
    "holding (s\<lparr>heap_copy := Some m\<rparr>) = insert Snapshot (holding s)"
proof -
  have o: "owned (s\<lparr>log := h\<rparr>) = owned s" "owned (s\<lparr>file_fd := x\<rparr>) = owned s"
    "owned (s\<lparr>heap_copy := Some m\<rparr>) = owned s"
    by (rule owned_cong; simp)+
  have "InputFile \<notin> owned s" using owned_subset[of s] by (auto simp: whole_def)
  then show "holding (s\<lparr>log := h\<rparr>) = holding s"
    "0 \<le> x \<Longrightarrow> holding (s\<lparr>file_fd := x\<rparr>) = insert InputFile (holding s)"
    "x < 0 \<Longrightarrow> holding (s\<lparr>file_fd := x\<rparr>) = holding s - {InputFile}"
    "holding (s\<lparr>heap_copy := Some m\<rparr>) = insert Snapshot (holding s)"
    by (auto simp: holding_def o frame_def)
qed

lemma world_closed: "session_world S h \<Longrightarrow> closed S"
  by (simp add: session_world_def)

lemma prepares_open_input [prepares_intros]:
  "InputFile \<notin> A \<Longrightarrow> prepares A (open_input c) (insert InputFile A)"
  unfolding prepares_def open_input_def
  by (auto simp: wp_simps tool_ok_world holding_updates world_closed intro!: session_acquire)

lemma prepares_close_input [prepares_intros]:
  "prepares A (do { close_input; check True }) (A - {InputFile})"
proof -
  have held: "InputFile \<in> holding s \<longleftrightarrow> \<not> file_fd s < 0" for s :: "'a command_session_scheme"
    using owned_subset[of s] by (auto simp: holding_def frame_def whole_def)
  show ?thesis
    unfolding prepares_def close_input_def check_def
    using held by (auto simp: wp_simps tool_ok_world holding_updates world_closed intro!: session_release)
qed

lemma prepares_snapshot [prepares_intros]:
  "Snapshot \<notin> A \<Longrightarrow> prepares A (take_snapshot c) (insert Snapshot A)"
  unfolding prepares_def take_snapshot_def
  by (auto simp: wp_simps tool_ok_world holding_updates world_closed intro!: session_acquire)

section \<open>Running inside a session\<close>

definition carries :: "resource set \<Rightarrow> 'a command_session_scheme \<Rightarrow> bool" where
  "carries S s \<longleftrightarrow> session_world S (log s) \<and> holding s = S"

lemma tool_ok_carries: "tool_ok s \<longleftrightarrow> carries (holding s) s"
  by (simp add: tool_ok_world carries_def)

lemma carries_local:
  assumes "\<And>s. same_holdings s (f s)" "\<And>s. log (f s) = log s"
  shows "preserves (carries S) (modify f)"
  using holding_same[OF assms(1)] assms(2) by (simp add: preserves_def wp_modify carries_def)

lemma carries_events [preserves_intros]:
  "in_bar a \<Longrightarrow> BarMap \<in> S \<Longrightarrow> preserves (carries S) (bus_read hw a)"
  "in_bar a \<Longrightarrow> BarMap \<in> S \<Longrightarrow> VfioMapping \<in> S \<Longrightarrow> preserves (carries S) (bus_write a v)"
  "preserves (carries S) (nanosleep n)"
  "preserves (carries S) (reset_device e)"
  "preserves (carries S) (interrupted e)"
  "preserves (carries S) fail"
  by (auto simp: preserves_def wp_simps carries_def holding_updates nanosleep_def reset_device_def
      interrupted_def intro: world_read world_write)
    (auto simp: fail_def wp_simps carries_def same_holdings_def same_handles_def
      intro!: world_same holding_same)

lemma carries_rd: "BarMap \<in> S \<Longrightarrow> keeps_rd (carries S) (read32 e)"
  by (simp add: keeps_rd_def read32_def carries_events)

lemma carries_wr: "BarMap \<in> S \<Longrightarrow> VfioMapping \<in> S \<Longrightarrow> keeps_wr (carries S) write32"
  by (simp add: keeps_wr_def write32_def carries_events)

text \<open>The same with every engine off, where the mapping may be missing.\<close>

definition rests :: "resource set \<Rightarrow> 'a command_session_scheme \<Rightarrow> bool" where
  "rests S s \<longleftrightarrow> carries S s \<and> \<not> engines_on (log s)"

lemma rests_local:
  assumes "\<And>s. same_holdings s (f s)" "\<And>s. log (f s) = log s"
  shows "preserves (rests S) (modify f)"
  using carries_local[OF assms, of S] assms(2) by (simp add: preserves_def wp_modify rests_def)

lemma rests_events [preserves_intros]:
  "in_bar a \<Longrightarrow> BarMap \<in> S \<Longrightarrow> preserves (rests S) (bus_read hw a)"
  "preserves (rests S) (reset_device e)"
  "preserves (rests S) fail"
proof -
  show "in_bar a \<Longrightarrow> BarMap \<in> S \<Longrightarrow> preserves (rests S) (bus_read hw a)"
    by (auto simp: preserves_def wp_simps rests_def carries_def holding_updates intro: world_read)
  show "preserves (rests S) (reset_device e)"
    by (auto simp: preserves_def wp_simps rests_def carries_def holding_updates reset_device_def
        intro!: world_same)
  show "preserves (rests S) fail"
    unfolding fail_def by (rule rests_local) (simp_all add: same_holdings_def same_handles_def)
qed

lemma rests_rd: "BarMap \<in> S \<Longrightarrow> keeps_rd (rests S) (read32 e)"
  by (simp add: keeps_rd_def read32_def rests_events)

text \<open>A scan of the card prepares nothing.\<close>

lemma prepares_scan:
  assumes "checks log (\<lambda>s. s\<lparr>log := []\<rparr>) m E" "preserves (carries A) m"
  shows "prepares A m A"
  unfolding prepares_def
proof (intro allI impI)
  fix s :: "'a command_session_scheme"
  assume s: "tool_ok s" "holding s = A"
  then have c: "carries A s" by (simp add: tool_ok_carries)
  show "wp m (\<lambda>b t. tool_ok t \<and> writes (log t) = writes (log s) \<and> exit_success t = exit_success s \<and>
       startup t = startup s \<and> (b \<longrightarrow> holding t = A)) s"
    by (rule scan_wp[OF assms c]) (auto simp: tool_ok_world carries_def)
qed

end
