(* ===== verification/Command_Routines.thy ===== *)
theory Command_Routines
  imports Command_Session
begin

text \<open>
  The routines of the tools that submit commands: the ring entries and buffers in memory, the
  start of all rings, the connect commands and doorbells, bounded polling, the checks of the
  answer, restore, reset and teardown; with the exact stores of each, the time each may sleep,
  and the invariants each keeps.
\<close>

section \<open>Opening the session\<close>

definition attach_host :: "vfio_env \<Rightarrow> ('a command_session_scheme, bool) state" where
  "attach_host e =
     and_m (open_container e)
    (and_m (open_group e)
    (and_m (attach_group e)
           (configure_iommu e 4096)))"

definition cmd_device_valid :: "vfio_env \<Rightarrow> bool" where
  "cmd_device_valid e \<longleftrightarrow>
     \<not> device_info e < 0 \<and> device_resets e \<and> \<not> region_info e < 0 \<and> region_size e = BAR0_SIZE \<and>
     region_write e \<and> region_mmap e"

definition map_card :: "vfio_env \<Rightarrow> ('a command_session_scheme, bool) state" where
  "map_card e =
     and_m (map_iova e)
    (and_m (open_device e (cmd_device_valid e))
           (map_bar e))"

definition cold_card :: "vfio_env \<Rightarrow> ('a command_session_scheme, bool) state" where
  "cold_card e =
     and_m (all_rings_zero e)
    (and_m (all_ready e)
    (and_m (read_is (read32 e) DMA_CONTROL DMA_COLD_RESET)
           (read_is (read32 e) INTERRUPT_ENABLE 0)))"

section \<open>Entries in the locked memory\<close>

definition load_word :: "vfio_env \<Rightarrow> nat \<Rightarrow> ('a command_session_scheme, u32) state" where
  "load_word e a = gets (\<lambda>s. get32 (ram_view e (log s) (ram s)) a)"

definition day_and_time :: "u64 \<Rightarrow> u32" where
  "day_and_time seconds =
     push_bit 12 (ucast (seconds div 86400)) + ucast (seconds mod 86400 div 60)"

definition connect_entry :: "nat \<Rightarrow> (nat \<Rightarrow> u8) \<Rightarrow> nat \<Rightarrow> u8" where
  "connect_entry dsp m =
     put32 (ring_entry dsp 0 0 + 4) 1 (put32 (ring_entry dsp 0 0) CONNECT_COMMAND m)"

definition clock_entry :: "u64 \<Rightarrow> (nat \<Rightarrow> u8) \<Rightarrow> nat \<Rightarrow> u8" where
  "clock_entry now m =
     put32 (ring_entry 0 0 1 + 4) (day_and_time now) (put32 (ring_entry 0 0 1) CLOCK_COMMAND m)"

section \<open>Starting the rings and submitting\<close>

definition start_rings :: "(nat \<Rightarrow> nat \<Rightarrow> u32) \<Rightarrow> ('a command_session_scheme, unit) state" where
  "start_rings ix =
     do { modify (\<lambda>s. s\<lparr>startup := True\<rparr>);
          quiesce_card write32;
          for_each [0..<8] (\<lambda>dsp. do {
            for_each [0..<2] (\<lambda>ring.
              publish_ring write32 (ring_base dsp ring) (first_iova dsp ring) (ix dsp ring));
            write32 DMA_CONTROL (push_bit (dsp + 2) 1 - 1) }) }"

text \<open>One connect command per DSP and the clock command; the value is the interrupt shadow.\<close>

definition connect_dsps :: "u32 \<Rightarrow> ('a command_session_scheme, u32) state" where
  "connect_dsps interrupt_shadow =
     do { interrupt_shadow \<leftarrow> fold_m (\<lambda>dsp shadow. do {
            write32 (dsp_banks ! dsp + 0x24) 1;
            write32 (dsp_banks ! dsp + 0x20) 1;
            write32 INTERRUPT_ENABLE (shadow OR push_bit (dsp * 4) 1);
            State_Monad.return (shadow OR push_bit (dsp * 4) 1) }) [0..<8] interrupt_shadow;
          write32 (dsp_banks ! 0 + 0x24) 2;
          write32 (dsp_banks ! 0 + 0x20) 2;
          State_Monad.return interrupt_shadow }"

text \<open>
  A polling loop: \<open>left\<close> turns are left, \<open>poll\<close> have been made; the body says whether to break. The
  value is the C loop variable after the loop.
\<close>

fun poll_until ::
  "vfio_env \<Rightarrow> nat \<Rightarrow> nat \<Rightarrow> (nat \<Rightarrow> ('a command_session_scheme, bool) state) \<Rightarrow>
     ('a command_session_scheme, nat) state" where
  "poll_until e 0 poll body = State_Monad.return poll"
| "poll_until e (Suc left) poll body =
     do { stop \<leftarrow> interrupted e;
          if stop then State_Monad.return poll
          else do {
            leave \<leftarrow> body poll;
            if leave then State_Monad.return poll
            else do { nanosleep 1000000; poll_until e left (poll + 1) body } } }"

definition connects_turn :: "vfio_env \<Rightarrow> ('a command_session_scheme, bool) state" where
  "connects_turn e =
     do { b \<leftarrow> fold_m (\<lambda>dsp ok. do {
            v \<leftarrow> read32 e (dsp_banks ! dsp + 0x28);
            State_Monad.return (ok \<and> v = (if dsp = 0 then 2 else 1)) }) [0..<8] True;
          modify (\<lambda>s. s\<lparr>connects_consumed := b\<rparr>);
          State_Monad.return b }"

definition await_connects :: "vfio_env \<Rightarrow> nat \<Rightarrow> ('a command_session_scheme, nat) state" where
  "await_connects e limit = poll_until e limit 0 (\<lambda>_. connects_turn e)"

text \<open>
  The doorbells of the response ring and of the command ring of DSP 0; \<open>response_word\<close> and
  \<open>command_word\<close> are what is stored to the interrupt enable register for the shadow value.
\<close>

definition submit ::
  "u32 \<Rightarrow> u32 \<Rightarrow> (u32 \<Rightarrow> u32) \<Rightarrow> (u32 \<Rightarrow> u32) \<Rightarrow> u32 \<Rightarrow> ('a command_session_scheme, unit) state" where
  "submit response_position command_position response_word command_word interrupt_shadow =
     do { write32 (dsp_banks ! 0 + 0x40 + 0x24) response_position;
          write32 (dsp_banks ! 0 + 0x40 + 0x20) response_position;
          write32 INTERRUPT_ENABLE (response_word (interrupt_shadow OR 2));
          write32 (dsp_banks ! 0 + 0x24) command_position;
          write32 (dsp_banks ! 0 + 0x20) command_position;
          write32 INTERRUPT_ENABLE (command_word (interrupt_shadow OR 2 OR 1)) }"

definition answer_turn :: "vfio_env \<Rightarrow> u32 \<Rightarrow> u32 \<Rightarrow> ('a command_session_scheme, bool) state" where
  "answer_turn e command_position response_position =
     do { command_read \<leftarrow> read32 e (dsp_banks ! 0 + 0x28);
          response_read \<leftarrow> read32 e (dsp_banks ! 0 + 0x40 + 0x28);
          first \<leftarrow> load_word e (RESPONSE_PAGE * 4096);
          State_Monad.return (command_read = command_position \<and> response_read = response_position \<and>
            first \<noteq> CANARY_WORD) }"

definition await_answer :: "vfio_env \<Rightarrow> nat \<Rightarrow> u32 \<Rightarrow> u32 \<Rightarrow> ('a command_session_scheme, unit) state" where
  "await_answer e limit command_position response_position =
     do { n \<leftarrow> poll_until e limit 0 (\<lambda>_. answer_turn e command_position response_position);
          modify (\<lambda>s. s\<lparr>polls := n\<rparr>) }"

section \<open>Checking the answer\<close>

definition load_response :: "vfio_env \<Rightarrow> nat \<Rightarrow> ('a command_session_scheme, unit) state" where
  "load_response e words = modify (\<lambda>s. s\<lparr>response :=
     map (\<lambda>w. get32 (ram_view e (log s) (ram s)) (RESPONSE_PAGE * 4096 + w * 4)) [0..<words] @
     drop words (response s)\<rparr>)"

definition check_positions :: "vfio_env \<Rightarrow> u32 \<Rightarrow> u32 \<Rightarrow> ('a command_session_scheme, unit) state" where
  "check_positions e command_position response_position =
     do { b \<leftarrow> read_is (read32 e) (dsp_banks ! 0 + 0x28) command_position;
          modify (\<lambda>s. s\<lparr>command_consumed := b\<rparr>);
          b \<leftarrow> read_is (read32 e) (dsp_banks ! 0 + 0x40 + 0x28) response_position;
          modify (\<lambda>s. s\<lparr>response_consumed := b\<rparr>) }"

text \<open>\<^verbatim>\<open>memcmp\<close> of the memory with the heap copy, for each region of an offset and a length.\<close>

definition same_bytes :: "(nat \<times> nat) list \<Rightarrow> (nat \<Rightarrow> u8) \<Rightarrow> (nat \<Rightarrow> u8) \<Rightarrow> bool" where
  "same_bytes regions m n \<longleftrightarrow> list_all (\<lambda>(a, len). list_all (\<lambda>i. m i = n i) [a..<a + len]) regions"

definition check_memory :: "vfio_env \<Rightarrow> (nat \<times> nat) list \<Rightarrow> ('a command_session_scheme, unit) state" where
  "check_memory e regions =
     do { b \<leftarrow> all_ready e;
          modify (\<lambda>s. s\<lparr>ready_after := b\<rparr>);
          modify (\<lambda>s. s\<lparr>memory_bounded :=
            same_bytes regions (ram_view e (log s) (ram s)) (the (heap_copy s))\<rparr>) }"

section \<open>Cleanup and teardown\<close>

definition cmd_restore :: "vfio_env \<Rightarrow> ('a command_session_scheme, unit) state" where
  "cmd_restore e = when_m (\<lambda>s. startup s \<and> bar_ok s)
     (do { restore_card write32;
           b \<leftarrow> and_m (all_rings_zero e) (read_is (read32 e) DMA_CONTROL DMA_COLD_RESET);
           modify (\<lambda>s. s\<lparr>restored := b\<rparr>);
           if b then State_Monad.return () else fail })"

definition cmd_reset :: "vfio_env \<Rightarrow> ('a command_session_scheme, unit) state" where
  "cmd_reset e = when_m (\<lambda>s. \<not> device_fd s < 0 \<and> bar_ok s)
     (do { ok \<leftarrow> reset_device e;
           b \<leftarrow> and_m (check ok)
               (and_m (all_rings_zero e)
               (and_m (read_is (read32 e) DMA_CONTROL DMA_COLD_RESET) (all_ready e)));
           modify (\<lambda>s. s\<lparr>reset_recovered := b\<rparr>);
           if b then State_Monad.return () else fail })"

definition cmd_cleanup :: "vfio_env \<Rightarrow> ('a command_session_scheme, unit) state" where
  "cmd_cleanup e = do { cmd_restore e; cmd_reset e }"

text \<open>
  The teardown; \<open>unmapped\<close> says whether the mapping could be removed, and \<open>middle\<close> is what a tool
  does between that and the release of the memory.
\<close>

definition close_card :: "bool \<Rightarrow> ('a command_session_scheme, unit) state" where
  "close_card unmapped =
     do { release_bar;
          release_device;
          when_m dma_mapped (if unmapped then emit (Release VfioMapping) else fail) }"

definition close_host :: "('a command_session_scheme, unit) state" where
  "close_host =
     do { release_memory;
          free_snapshot;
          detach_group;
          release_group;
          release_container }"

definition json_last :: "string \<Rightarrow> bool \<Rightarrow> string" where
  "json_last key b = ''  \"'' @ key @ ''\": '' @ (if b then ''true'' else ''false'')"

definition json_words :: "string \<Rightarrow> u32 list \<Rightarrow> string" where
  "json_words key ws = ''  \"'' @ key @ ''\": ['' @
     concat (map (\<lambda>i. ''\"0x'' @ hex 8 (unat (ws ! i)) @ ''\"'' @ (if i + 1 = length ws then '''' else '', ''))
       [0..<length ws]) @ ''],''"

definition report_lines ::
  "('a command_session_scheme \<Rightarrow> string list) \<Rightarrow> ('a command_session_scheme, unit) state" where
  "report_lines f = modify (\<lambda>s. s\<lparr>stdout := stdout s @ f s\<rparr>)"

end
