(* ===== verification/Command_Contract.thy ===== *)
theory Command_Contract
  imports Command_Routines
begin

text \<open>
  What the routines of \<^verbatim>\<open>Command_Routines\<close> do: their exact stores, the invariant they keep, how
  long they can sleep, what polling and the checks have seen; and the contract \<open>command_tool\<close>
  from which every tool that submits commands has its release, store and evidence theorems.
\<close>

section \<open>Exact stores\<close>

definition after :: "(u32 \<times> u32) list \<Rightarrow> 'a bus_scheme \<Rightarrow> 'a bus_scheme" where
  "after ws s = s\<lparr>log := rev (map (\<lambda>(a, v). Wr a v) ws) @ log s\<rparr>"

lemma after_after: "after ys (after xs s) = after (xs @ ys) s"
  by (simp add: after_def)

lemma writes_after [simp]: "writes (log (after ws s)) = writes (log s) @ ws"
  by (simp add: after_def writes_rev_stores)

lemma writes_of_stores [simp]: "writes (rev (map (\<lambda>(a, v). Wr a v) ws)) = ws"
  using writes_rev_stores[of ws "[]"] by simp

lemma extends_after: "extends (log s) (after ws s)"
  by (simp add: extends_def after_def)

lemma stores_after:
  fixes m :: "('a bus_scheme, unit) state"
  assumes "stores log (\<lambda>s. s\<lparr>log := []\<rparr>) m ws"
  shows "wp m Q s \<longleftrightarrow> Q () (after ws s)"
proof -
  obtain t where m: "run_state m s = ((), t)" by (cases "run_state m s") auto
  have "log t = rev (map (\<lambda>(a, v). Wr a v) ws) @ log s" "t\<lparr>log := []\<rparr> = s\<lparr>log := []\<rparr>"
    using assms m unfolding stores_def by (metis snd_conv)+
  then have "t = after ws s" by (cases s; cases t) (simp add: after_def)
  then show ?thesis by (simp add: wp_def m)
qed

lemma wp_write32: "wp (write32 a v) Q s \<longleftrightarrow> Q () (after [(a, v)] s)"
  by (rule stores_after[OF cmd_port.stores_wr])

lemma command_regs:
  assumes "d < 8"
  shows "dsp_banks ! d + 0x20 = ring_reg d 0 8" "dsp_banks ! d + 0x24 = ring_reg d 0 9"
    "dsp_banks ! d + 0x28 = ring_reg d 0 10"
proof -
  have "dsp_banks ! d = ring_reg d 0 0" using ring_base_reg[OF assms, of 0] by (simp add: ring_base_def)
  then show "dsp_banks ! d + 0x20 = ring_reg d 0 8" "dsp_banks ! d + 0x24 = ring_reg d 0 9"
    "dsp_banks ! d + 0x28 = ring_reg d 0 10"
    by (simp_all add: ring_reg_words)
qed

lemma response_regs:
  "dsp_banks ! 0 + 0x40 + 0x20 = ring_reg 0 1 8" "dsp_banks ! 0 + 0x40 + 0x24 = ring_reg 0 1 9"
  "dsp_banks ! 0 + 0x40 + 0x28 = ring_reg 0 1 10"
  by (simp_all add: dsp_banks_def ring_reg_def ring_addr_def)

lemmas command_regs0 = command_regs[of 0, simplified]

lemma start_rings_wp:
  "wp (start_rings ix) Q s \<longleftrightarrow> Q () (after (startup_stores ix) (s\<lparr>startup := True\<rparr>))"
proof -
  let ?rest = "\<lambda>s :: 'a command_session_scheme. s\<lparr>log := []\<rparr>"
  have ring: "stores log ?rest (publish_ring write32 (ring_base d r) (first_iova d r) i)
      (publish_stores d r i (page_iova d r))" if "d < 8" for d r i
    using cmd_port.stores_publish[OF that, where first = "first_iova d r"] by (simp add: page_iova_fun)
  have dsp: "stores log ?rest (do {
      for_each [0..<2] (\<lambda>r. publish_ring write32 (ring_base d r) (first_iova d r) (ix d r));
      write32 DMA_CONTROL (push_bit (d + 2) 1 - 1) }) (dsp_stores d (ix d))" if "d < 8" for d
  proof -
    have "stores log ?rest (do {
        for_each [0..<2] (\<lambda>r. publish_ring write32 (ring_base d r) (first_iova d r) (ix d r));
        write32 DMA_CONTROL (push_bit (d + 2) 1 - 1) })
      (concat (map (\<lambda>r. publish_stores d r (ix d r) (page_iova d r)) [0..<2]) @ [(DMA_CONTROL, mask (d + 2))])"
      unfolding shift_mask by (intro stores_bind stores_for_each ring[OF that] cmd_port.stores_wr)
    then show ?thesis by (simp add: dsp_stores_def upt_2)
  qed
  have "stores log ?rest (do { quiesce_card write32;
      for_each [0..<8] (\<lambda>d. do {
        for_each [0..<2] (\<lambda>r. publish_ring write32 (ring_base d r) (first_iova d r) (ix d r));
        write32 DMA_CONTROL (push_bit (d + 2) 1 - 1) }) }) (startup_stores ix)"
    unfolding startup_stores_def
    by (intro stores_bind cmd_port.stores_quiesce stores_for_each dsp) simp
  from stores_after[OF this, of Q] show ?thesis
    by (simp only: start_rings_def wp_bind wp_modify)
qed

text \<open>The interrupt shadow after the connect commands of the first \<open>n\<close> DSPs.\<close>

definition connect_shadow :: "nat \<Rightarrow> u32" where
  "connect_shadow n = fold (\<lambda>d shadow. shadow OR push_bit (d * 4) 1) [0..<n] CALLBACK_SHADOW"

definition connect_stores :: "(u32 \<times> u32) list" where
  "connect_stores = concat (map (\<lambda>d. [(ring_reg d 0 9, 1), (ring_reg d 0 8, 1),
     (INTERRUPT_ENABLE, connect_shadow (Suc d))]) [0..<8]) @ [(ring_reg 0 0 9, 2), (ring_reg 0 0 8, 2)]"

lemma connect_shadow_all: "connect_shadow 8 = 0xdddddddd"
  by (simp add: connect_shadow_def CALLBACK_SHADOW_def upt_rec)

lemma connect_wp:
  "wp (connect_dsps CALLBACK_SHADOW) Q s \<longleftrightarrow> Q 0xdddddddd (after connect_stores s)"
proof -
  let ?dsp = "\<lambda>d. [(ring_reg d 0 9, 1), (ring_reg d 0 8, 1), (INTERRUPT_ENABLE, connect_shadow (Suc d))]"
  define R where "R a t \<longleftrightarrow> a = connect_shadow 8 \<and> t = after (concat (map ?dsp [0..<8])) s"
    for a and t :: "'a command_session_scheme"
  let ?loop = "fold_m (\<lambda>dsp shadow. do {
            write32 (dsp_banks ! dsp + 0x24) 1;
            write32 (dsp_banks ! dsp + 0x20) 1;
            write32 INTERRUPT_ENABLE (shadow OR push_bit (dsp * 4) 1);
            State_Monad.return (shadow OR push_bit (dsp * 4) 1) }) [0..<8] CALLBACK_SHADOW"
  have "wp ?loop R s"
  proof (rule wp_fold_upt[where I = "\<lambda>n a t. a = connect_shadow n \<and> t = after (concat (map ?dsp [0..<n])) s"])
    show "CALLBACK_SHADOW = connect_shadow 0 \<and> s = after (concat (map ?dsp [0..<0])) s"
      by (simp add: connect_shadow_def after_def)
  next
    fix i b and t :: "'a command_session_scheme"
    assume "i < 8" and t: "b = connect_shadow i \<and> t = after (concat (map ?dsp [0..<i])) s"
    moreover have "connect_shadow (Suc i) = connect_shadow i OR push_bit (i * 4) 1"
      by (simp add: connect_shadow_def)
    ultimately show "wp (do {
            write32 (dsp_banks ! i + 0x24) 1;
            write32 (dsp_banks ! i + 0x20) 1;
            write32 INTERRUPT_ENABLE (b OR push_bit (i * 4) 1);
            State_Monad.return (b OR push_bit (i * 4) 1) })
        (\<lambda>a t. a = connect_shadow (Suc i) \<and> t = after (concat (map ?dsp [0..<Suc i])) s) t"
      by (simp add: wp_bind wp_return wp_write32 command_regs after_after)
  qed (simp add: R_def)
  then show ?thesis
    unfolding connect_dsps_def wp_bind command_regs0 wp_write32 wp_return after_after
    by (simp add: wp_run R_def connect_shadow_all after_after connect_stores_def)
qed

definition submit_stores :: "u32 \<Rightarrow> u32 \<Rightarrow> u32 \<Rightarrow> u32 \<Rightarrow> (u32 \<times> u32) list" where
  "submit_stores rp cp rw cw =
     [(ring_reg 0 1 9, rp), (ring_reg 0 1 8, rp), (INTERRUPT_ENABLE, rw),
      (ring_reg 0 0 9, cp), (ring_reg 0 0 8, cp), (INTERRUPT_ENABLE, cw)]"

lemma submit_wp: "wp (submit rp cp f g sh) Q s \<longleftrightarrow>
     Q () (after (submit_stores rp cp (f (sh OR 2)) (g (sh OR 2 OR 1))) s)"
  unfolding submit_def wp_bind response_regs command_regs0 wp_write32
  by (simp add: after_after submit_stores_def)

section \<open>The invariant of a running session\<close>

definition armed_set :: "resource set" where
  "armed_set = insert Snapshot whole"

lemma armed_simps [simp]: "BarMap \<in> armed_set" "VfioMapping \<in> armed_set"
  by (simp_all add: armed_set_def)

abbreviation armed :: "'a command_session_scheme \<Rightarrow> bool" where
  "armed \<equiv> carries armed_set"

lemma carries_updates:
  "preserves (carries S) (modify (\<lambda>s. s\<lparr>startup := b\<rparr>))"
  "preserves (carries S) (modify (\<lambda>s. s\<lparr>connects_consumed := b\<rparr>))"
  "preserves (carries S) (modify (\<lambda>s. s\<lparr>command_consumed := b\<rparr>))"
  "preserves (carries S) (modify (\<lambda>s. s\<lparr>response_consumed := b\<rparr>))"
  "preserves (carries S) (modify (\<lambda>s. s\<lparr>ready_after := b\<rparr>))"
  "preserves (carries S) (modify (\<lambda>s. s\<lparr>memory_bounded := f s\<rparr>))"
  "preserves (carries S) (modify (\<lambda>s. s\<lparr>response_written := b\<rparr>))"
  "preserves (carries S) (modify (\<lambda>s. s\<lparr>header_matches := f s\<rparr>))"
  "preserves (carries S) (modify (\<lambda>s. s\<lparr>response := g s\<rparr>))"
  "preserves (carries S) (modify (\<lambda>s. s\<lparr>polls := n\<rparr>))"
  "preserves (carries S) (modify (\<lambda>s. s\<lparr>exit_success := True\<rparr>))"
  by (rule carries_local; simp add: same_holdings_def same_handles_def)+

named_theorems armed_intros \<open>routines that run in an armed session\<close>

lemmas armed_rd = carries_rd[OF armed_simps(1)]
lemmas armed_wr = carries_wr[OF armed_simps]

lemmas [armed_intros] = carries_updates carries_events(3,5)
  preserves_read_is[OF armed_rd] preserves_scan_ready[OF armed_rd] preserves_scan_rings[OF armed_rd]
  keeps_rdD[OF armed_rd] armed_wr[unfolded keeps_wr_def, rule_format]
  preserves_publish[OF keeps_wr_ring[OF armed_wr]] preserves_quiesce[OF armed_wr]
  preserves_restore[OF armed_wr]

lemma banks_in_bar:
  assumes "d < 8"
  shows "in_bar (dsp_banks ! d + 0x20)" "in_bar (dsp_banks ! d + 0x24)" "in_bar (dsp_banks ! d + 0x28)"
  using assms by (simp_all add: command_regs)

lemma response_in_bar:
  "in_bar (dsp_banks ! 0 + 0x40 + 0x20)" "in_bar (dsp_banks ! 0 + 0x40 + 0x24)" "in_bar (dsp_banks ! 0 + 0x40 + 0x28)"
  unfolding response_regs by simp_all

lemmas regs_in_bar = banks_in_bar response_in_bar banks_in_bar[of 0, simplified]

lemma armed_start [armed_intros]: "preserves armed (start_rings ix)"
  unfolding start_rings_def by (intro preserves_intros armed_intros) simp_all

lemma armed_connect [armed_intros]: "preserves armed (connect_dsps sh)"
  unfolding connect_dsps_def by (intro preserves_intros armed_intros regs_in_bar) simp_all

lemma preserves_poll:
  assumes "\<And>n. preserves I (body n)" "preserves I (interrupted e)" "preserves I (nanosleep 1000000)"
  shows "preserves I (poll_until e k n body)"
proof (induction k arbitrary: n)
  case 0
  show ?case unfolding poll_until.simps by (rule preserves_return)
next
  case (Suc k)
  show ?case unfolding poll_until.simps by (intro preserves_intros assms Suc)
qed

lemma armed_poll [armed_intros]: "(\<And>n. preserves armed (body n)) \<Longrightarrow> preserves armed (poll_until e k n body)"
  by (intro preserves_poll armed_intros)

lemma armed_awaits [armed_intros]: "preserves armed (await_connects e k)" "preserves armed (await_answer e k cp rp)"
  unfolding await_connects_def connects_turn_def await_answer_def answer_turn_def load_word_def
  by (intro preserves_intros armed_intros regs_in_bar; simp)+

lemma armed_submit [armed_intros]: "preserves armed (submit rp cp f g sh)"
  unfolding submit_def by (intro preserves_intros armed_intros regs_in_bar) simp_all

lemma armed_checks [armed_intros]: "preserves armed (load_response e n)" "preserves armed (check_positions e cp rp)"
  "preserves armed (check_memory e regions)"
  unfolding load_response_def check_positions_def check_memory_def all_ready_def
  by (intro preserves_intros armed_intros regs_in_bar)+

section \<open>Time slept\<close>

text \<open>\<open>sleeps n m\<close>: the program sleeps at most \<open>n\<close> nanoseconds.\<close>

definition sleeps :: "nat \<Rightarrow> ('a bus_scheme, 'b) state \<Rightarrow> bool" where
  "sleeps n m \<longleftrightarrow> (\<forall>s. wp m (\<lambda>_ t. slept (log t) \<le> slept (log s) + n) s)"

fun is_delay :: "event \<Rightarrow> bool" where
  "is_delay (Delay _) = True"
| "is_delay _ = False"

lemma slept_awake: "list_all (\<lambda>e. \<not> is_delay e) xs \<Longrightarrow> slept xs = 0"
proof (induction xs)
  case (Cons e xs) then show ?case by (cases e) simp_all
qed simp

lemma sleeps_emits: "emits (\<lambda>e. \<not> is_delay e) m \<Longrightarrow> sleeps n m"
  unfolding sleeps_def by (intro allI, erule emits_wp) (simp add: slept_append slept_awake)

lemma sleeps_bind:
  assumes "sleeps a m" "\<And>x. sleeps b (f x)" "a + b \<le> n"
  shows "sleeps n (State_Monad.bind m f)"
  unfolding sleeps_def wp_bind
proof
  fix s :: "'a bus_scheme"
  have "wp m (\<lambda>_ t. slept (log t) \<le> slept (log s) + a) s" using assms(1) by (simp add: sleeps_def)
  then show "wp m (\<lambda>x. wp (f x) (\<lambda>_ u. slept (log u) \<le> slept (log s) + n)) s"
  proof (rule wp_mono)
    fix x and t :: "'a bus_scheme"
    assume t: "slept (log t) \<le> slept (log s) + a"
    have "wp (f x) (\<lambda>_ u. slept (log u) \<le> slept (log t) + b) t" using assms(2) by (simp add: sleeps_def)
    then show "wp (f x) (\<lambda>_ u. slept (log u) \<le> slept (log s) + n) t"
      by (rule wp_mono) (use t assms(3) in simp)
  qed
qed

lemma sleeps_if: "(b \<Longrightarrow> sleeps n m) \<Longrightarrow> (\<not> b \<Longrightarrow> sleeps n k) \<Longrightarrow> sleeps n (if b then m else k)"
  by simp

lemma sleeps_return: "sleeps n (State_Monad.return a)"
  by (simp add: sleeps_def wp_return)

lemma sleeps_poll:
  assumes "\<And>n. emits (\<lambda>e. \<not> is_delay e) (body n)"
  shows "sleeps (k * 1000000) (poll_until e k n body)"
proof (induction k arbitrary: n)
  case 0
  show ?case unfolding poll_until.simps by (rule sleeps_return)
next
  case (Suc k)
  have pause: "sleeps 1000000 (nanosleep 1000000 :: ('a command_session_scheme, unit) state)"
    by (simp add: sleeps_def nanosleep_def wp_emit)
  have awake: "sleeps 0 (interrupted e :: ('a command_session_scheme, bool) state)"
    unfolding interrupted_def by (rule sleeps_emits) (intro emits_intros)
  show ?case
    unfolding poll_until.simps
    by (rule sleeps_bind[OF awake, where b = "Suc k * 1000000"], rule sleeps_if, rule sleeps_return,
        rule sleeps_bind[OF sleeps_emits[OF assms, of 0], where b = "Suc k * 1000000"],
        rule sleeps_if, rule sleeps_return, rule sleeps_bind[OF pause Suc.IH]) simp_all
qed

named_theorems awake_intros \<open>routines that do not sleep\<close>

lemma awake_rd [awake_intros]: "emits (\<lambda>e. \<not> is_delay e) (read32 e a)"
  unfolding read32_def by (intro emits_intros) simp

lemma awake_wr [awake_intros]: "emits (\<lambda>e. \<not> is_delay e) (write32 a v)"
  unfolding write32_def by (intro emits_intros) simp

lemma emits_fold_m [emits_intros]:
  "(\<And>x a. x \<in> set xs \<Longrightarrow> emits P (f x a)) \<Longrightarrow> emits P (fold_m f xs a)"
  by (induction xs arbitrary: a) (auto intro!: emits_intros)

lemma emits_when_m [emits_intros]: "emits P m \<Longrightarrow> emits P (when_m c m)"
  unfolding when_m_def by (intro emits_intros)

lemma awake_scans [awake_intros]: "emits (\<lambda>e. \<not> is_delay e) (scan_ready (read32 e))"
  "emits (\<lambda>e. \<not> is_delay e) (scan_rings (read32 e) p)" "emits (\<lambda>e. \<not> is_delay e) (read_is (read32 e) a v)"
  unfolding scan_ready_def scan_rings_def read_is_def by (intro emits_intros awake_intros)+

lemma awake_restore [awake_intros]: "emits (\<lambda>e. \<not> is_delay e) (restore_card write32)"
  "emits (\<lambda>e. \<not> is_delay e) (quiesce_card write32)"
  "emits (\<lambda>e. \<not> is_delay e) (publish_ring write32 base first index)"
  unfolding restore_card_def clear_rings_def quiesce_card_def publish_ring_def store_address_def
  by (intro emits_intros awake_intros)+

lemma awake_routines [awake_intros]:
  "emits (\<lambda>e. \<not> is_delay e) (start_rings ix)" "emits (\<lambda>e. \<not> is_delay e) (connect_dsps sh)"
  "emits (\<lambda>e. \<not> is_delay e) (submit rp cp f g sh)" "emits (\<lambda>e. \<not> is_delay e) (connects_turn e)"
  "emits (\<lambda>e. \<not> is_delay e) (answer_turn e cp rp)" "emits (\<lambda>e. \<not> is_delay e) (load_response e n)"
  "emits (\<lambda>e. \<not> is_delay e) (check_positions e cp rp)" "emits (\<lambda>e. \<not> is_delay e) (check_memory e regions)"
  "emits (\<lambda>e. \<not> is_delay e) (cmd_cleanup e)" "emits (\<lambda>e. \<not> is_delay e) (close_card unmapped)"
  "emits (\<lambda>e. \<not> is_delay e) close_host" "emits (\<lambda>e. \<not> is_delay e) close_input"
  "emits (\<lambda>e. \<not> is_delay e) (report_lines lines)"
  unfolding start_rings_def connect_dsps_def submit_def connects_turn_def answer_turn_def load_word_def
    load_response_def check_positions_def check_memory_def all_ready_def all_rings_zero_def
    cmd_cleanup_def cmd_restore_def cmd_reset_def check_def fail_def reset_device_def close_card_def close_host_def
    close_input_def release_bar_def release_device_def release_memory_def free_snapshot_def
    detach_group_def release_group_def release_container_def report_lines_def
  by (intro emits_intros awake_intros; simp)+

lemma sleeps_awaits:
  "sleeps (k * 1000000) (await_connects e k)" "sleeps (k * 1000000) (await_answer e k cp rp)"
proof -
  show "sleeps (k * 1000000) (await_connects e k)"
    unfolding await_connects_def by (rule sleeps_poll) (intro awake_intros)
  have "sleeps 0 (modify (\<lambda>s. s\<lparr>polls := n\<rparr>))" for n
    by (rule sleeps_emits) (intro emits_intros, simp)
  then show "sleeps (k * 1000000) (await_answer e k cp rp)"
    unfolding await_answer_def by (intro sleeps_bind[OF sleeps_poll]) (auto intro: awake_intros)
qed

section \<open>What polling and the checks have seen\<close>

text \<open>An invariant of a polling loop may speak of the number of turns made.\<close>

lemma poll_at_wp:
  fixes s :: "'a command_session_scheme"
  assumes "I n s"
    and "\<And>m t. m < n + k \<Longrightarrow> I m t \<Longrightarrow>
      wp (body m) (\<lambda>b u. if b then Q m u else I (Suc m) (u\<lparr>log := Delay 1000000 # log u\<rparr>)) t"
    and "\<And>m t. m \<le> n + k \<Longrightarrow> I m t \<Longrightarrow> Q m t"
  shows "wp (poll_until e k n body) Q s"
  using assms
proof (induction k arbitrary: n s)
  case 0
  then show ?case by (simp add: wp_simps)
next
  case (Suc k)
  have next_turn: "wp (poll_until e k (n + 1) body) Q t" if "I (Suc n) t" for t
    by (rule Suc.IH) (use that Suc.prems in simp_all)
  show ?case
  proof (cases "ever (signalled e) (log s)")
    case True
    then show ?thesis using Suc.prems by (simp add: interrupted_def wp_simps)
  next
    case False
    have "wp (body n) (\<lambda>leave. wp (if leave then State_Monad.return n
        else do { nanosleep 1000000; poll_until e k (n + 1) body }) Q) s"
      by (rule wp_mono[OF Suc.prems(2)])
        (use next_turn Suc.prems(1) in \<open>auto simp: wp_return wp_bind nanosleep_def wp_emit split: if_splits\<close>)
    then show ?thesis
      using False by (simp only: poll_until.simps wp_bind interrupted_def wp_gets if_False)
  qed
qed

text \<open>A loop that leaves with \<open>R\<close> when its body says so, and keeps \<open>I\<close> otherwise.\<close>

lemma poll_wp:
  fixes s :: "'a command_session_scheme"
  assumes "I s"
    and body: "\<And>n t. I t \<Longrightarrow> wp (body n) (\<lambda>b u. if b then R u else I u) t"
    and pause: "\<And>t. I t \<Longrightarrow> I (t\<lparr>log := Delay 1000000 # log t\<rparr>)"
  shows "wp (poll_until e k n body) (\<lambda>m t. n \<le> m \<and> m \<le> n + k \<and> (I t \<or> R t)) s"
proof (rule poll_at_wp[where I = "\<lambda>m t. n \<le> m \<and> I t"])
  fix m t
  assume "m < n + k" "n \<le> m \<and> I t"
  then show "wp (body m) (\<lambda>b u. if b then n \<le> m \<and> m \<le> n + k \<and> (I u \<or> R u)
      else n \<le> Suc m \<and> I (u\<lparr>log := Delay 1000000 # log u\<rparr>)) t"
    using pause by (intro wp_mono[OF body]) (auto split: if_splits)
qed (use assms(1) in auto)

lemma checks_all_of:
  "checks log (\<lambda>s :: 'a command_session_scheme. s\<lparr>log := []\<rparr>)
     (fold_m (\<lambda>d ok. do { v \<leftarrow> read32 e (reg d); State_Monad.return (ok \<and> v = x d) }) ds True)
     (\<Union>d\<in>set ds. {(reg d, \<lambda>v. v = x d)})"
proof -
  have general: "checks log (\<lambda>s :: 'a command_session_scheme. s\<lparr>log := []\<rparr>)
     (fold_m (\<lambda>d ok. do { v \<leftarrow> read32 e (reg d); State_Monad.return (ok \<and> v = x d) }) ds b)
     (if b then \<Union>d\<in>set ds. {(reg d, \<lambda>v. v = x d)} else {(0, \<lambda>_. False)})" for b
  proof (induction ds arbitrary: b)
    case Nil
    then show ?case by (cases b) (simp_all add: checks_def seen_def)
  next
    case (Cons d ds)
    let ?rest = "\<lambda>s :: 'a command_session_scheme. s\<lparr>log := []\<rparr>"
    let ?tail = "\<lambda>b. fold_m (\<lambda>d ok. do { v \<leftarrow> read32 e (reg d); State_Monad.return (ok \<and> v = x d) }) ds b"
    show ?case
      unfolding checks_def
    proof
      fix s :: "'a command_session_scheme"
      let ?v = "answer e (log s) (reg d)"
      let ?t = "s\<lparr>log := Rd (reg d) ?v # log s\<rparr>"
      have run: "run_state (fold_m (\<lambda>d ok. do { v \<leftarrow> read32 e (reg d);
          State_Monad.return (ok \<and> v = x d) }) (d # ds) b) s = run_state (?tail (b \<and> ?v = x d)) ?t"
        by (simp add: read32_def)
      obtain c u where u: "run_state (?tail (b \<and> ?v = x d)) ?t = (c, u)" by fastforce
      obtain rs where rs: "log u = rs @ log ?t" "reads rs" "?rest u = ?rest ?t"
        "c \<longrightarrow> seen (if b \<and> ?v = x d then \<Union>d\<in>set ds. {(reg d, \<lambda>v. v = x d)} else {(0, \<lambda>_. False)}) rs"
        by (rule checksD[OF Cons.IH u])
      have "c \<Longrightarrow> b \<and> ?v = x d" using rs(4) by (auto simp: seen_def split: if_splits)
      then have "c \<Longrightarrow> seen (if b then \<Union>d\<in>set (d # ds). {(reg d, \<lambda>v. v = x d)} else {(0, \<lambda>_. False)})
          (rs @ [Rd (reg d) ?v])"
        using rs(4) by (auto simp: seen_def)
      then show "\<exists>rs. log (snd (run_state (fold_m (\<lambda>d ok. do { v \<leftarrow> read32 e (reg d);
          State_Monad.return (ok \<and> v = x d) }) (d # ds) b) s)) = rs @ log s \<and> reads rs \<and>
          ?rest (snd (run_state (fold_m (\<lambda>d ok. do { v \<leftarrow> read32 e (reg d);
          State_Monad.return (ok \<and> v = x d) }) (d # ds) b) s)) = ?rest s \<and>
          (fst (run_state (fold_m (\<lambda>d ok. do { v \<leftarrow> read32 e (reg d);
          State_Monad.return (ok \<and> v = x d) }) (d # ds) b) s) \<longrightarrow>
            seen (if b then \<Union>d\<in>set (d # ds). {(reg d, \<lambda>v. v = x d)} else {(0, \<lambda>_. False)}) rs)"
        unfolding run u using rs(1-3) by (intro exI[of _ "rs @ [Rd (reg d) ?v]"]) simp
    qed
  qed
  from general[of True] show ?thesis by simp
qed

end
