(* ===== verification/Command_Tool.thy ===== *)
theory Command_Tool
  imports Command_Contract
begin

text \<open>
  What the phases of a command tool leave behind: the answer a successful run has seen, the
  card after restore and reset, everything released after the teardown; and the interface
  \<open>command_tool\<close>, whose three results (released, stores, evidence) each tool inherits.
\<close>

section \<open>Opening the session\<close>

lemma prepares_host:
  assumes "VfioContainer \<notin> A" "VfioGroup \<notin> A" "VfioAttached \<notin> A"
  shows "prepares A (attach_host e) (insert VfioAttached (insert VfioGroup (insert VfioContainer A)))"
  unfolding attach_host_def by (rule prepares_intros | use assms in simp)+

lemma prepares_card:
  assumes "VfioMapping \<notin> A" "VfioDevice \<notin> A" "BarMap \<notin> A" "VfioMemory \<in> A" "VfioAttached \<in> A"
  shows "prepares A (map_card e) (insert BarMap (insert VfioDevice (insert VfioMapping A)))"
  unfolding map_card_def by (rule prepares_intros | use assms in simp)+

definition cold_gate_seen :: "(u32 \<times> (u32 \<Rightarrow> bool)) set" where
  "cold_gate_seen = rings_seen (\<lambda>_ _ _ v. v = 0) \<union> (ready_seen \<union>
     ({(DMA_CONTROL, \<lambda>v. v = DMA_COLD_RESET)} \<union> {(INTERRUPT_ENABLE, \<lambda>v. v = 0)}))"

lemma cold_card_checks:
  "checks log (\<lambda>s :: 'a command_session_scheme. s\<lparr>log := []\<rparr>) (cold_card e) cold_gate_seen"
  unfolding cold_card_def all_rings_zero_def all_ready_def cold_gate_seen_def
  by (intro checks_and_m cmd_port.checks_rings cmd_port.checks_ready cmd_port.checks_read_is)

lemma prepares_cold [prepares_intros]: "BarMap \<in> A \<Longrightarrow> prepares A (cold_card e) A"
proof (rule prepares_scan[OF cold_card_checks])
  assume "BarMap \<in> A"
  note rd = carries_rd[OF this]
  show "preserves (carries A) (cold_card e)"
    unfolding cold_card_def all_rings_zero_def all_ready_def
    by (intro preserves_intros preserves_scan_rings[OF rd] preserves_scan_ready[OF rd] preserves_read_is[OF rd])
      simp_all
qed

lemma prepares_read:
  assumes "in_bar a" "BarMap \<in> A" "\<And>v. prepares A (f v) B"
  shows "prepares A (do { v \<leftarrow> read32 e a; f v }) B"
  unfolding prepares_def read32_def
proof (intro allI impI)
  fix s :: "'a command_session_scheme"
  assume s: "tool_ok s" "holding s = A"
  let ?v = "answer e (log s) a"
  let ?s = "s\<lparr>log := Rd a ?v # log s\<rparr>"
  have "tool_ok ?s" "holding ?s = A"
    using s assms(1,2) by (simp_all add: tool_ok_world holding_updates world_read)
  then have "wp (f ?v) (\<lambda>b t. tool_ok t \<and> writes (log t) = writes (log ?s) \<and>
      exit_success t = exit_success ?s \<and> startup t = startup ?s \<and> (b \<longrightarrow> holding t = B)) ?s"
    using assms(3) unfolding prepares_def by blast
  then show "wp (do { v \<leftarrow> bus_read (answer e) a; f v }) (\<lambda>b t. tool_ok t \<and> writes (log t) = writes (log s) \<and>
      exit_success t = exit_success s \<and> startup t = startup s \<and> (b \<longrightarrow> holding t = B)) s"
    by (simp add: wp_simps)
qed

lemma prepares_locally [prepares_intros]:
  "local_step m \<Longrightarrow> prepares A (do { m; check True }) A"
  by (intro prepares_local local_steps) (simp_all add: check_def local_steps)

lemma prepares_all_m [prepares_intros]:
  "(\<And>x. x \<in> set xs \<Longrightarrow> prepares A (f x) A) \<Longrightarrow> prepares A (all_m xs f) A"
proof (induction xs)
  case Nil
  then show ?case by (simp add: prepares_local local_steps)
next
  case (Cons x xs)
  have "prepares A (and_m (f x) (all_m xs f)) A"
    by (rule prepares_and_m[of _ _ A]) (simp_all add: Cons)
  then show ?case by (simp add: and_m_def)
qed

text \<open>Without an input file open.\<close>

lemma holding_no_input: "file_fd s < 0 \<Longrightarrow> holding s \<subseteq> - {InputFile}"
  using owned_subset[of s] by (auto simp: holding_def frame_def whole_def)

section \<open>The phases of a run\<close>

text \<open>What a phase that stores \<open>ws\<close> leaves alone.\<close>

definition moved ::
  "(u32 \<times> u32) list \<Rightarrow> 'a command_session_scheme \<Rightarrow> 'a command_session_scheme \<Rightarrow> bool" where
  "moved ws s t \<longleftrightarrow> ram t = ram s \<and> heap_copy t = heap_copy s \<and> exit_success t = exit_success s \<and>
     writes (log t) = writes (log s) @ ws \<and> extends (log s) t"

lemma moved_refl: "moved [] s s"
  by (simp add: moved_def extends_refl)

lemma moved_trans: "moved xs s t \<Longrightarrow> moved ys t u \<Longrightarrow> moved (xs @ ys) s u"
  unfolding moved_def using extends_trans by auto

lemma moved_after:
  "ram t = ram s \<Longrightarrow> heap_copy t = heap_copy s \<Longrightarrow> exit_success t = exit_success s \<Longrightarrow> log t = log s \<Longrightarrow>
     moved ws s (after ws t)"
  by (simp add: moved_def after_def writes_rev_stores extends_def)

lemma moved_reads: "reads rs \<Longrightarrow> moved [] s (s\<lparr>log := rs @ log s\<rparr>)"
  by (simp add: moved_def extends_def)

lemma moved_local:
  "moved ws s t \<Longrightarrow> ram u = ram t \<Longrightarrow> heap_copy u = heap_copy t \<Longrightarrow> exit_success u = exit_success t \<Longrightarrow>
     log u = log t \<Longrightarrow> moved ws s u"
  by (simp add: moved_def extends_def)

definition connects_seen :: "(u32 \<times> (u32 \<Rightarrow> bool)) set" where
  "connects_seen = (\<Union>d\<in>set [0..<8]. {(ring_reg d 0 10, \<lambda>v. v = (if d = 0 then 2 else 1))})"

lemma connects_checks:
  "checks log (\<lambda>s :: 'a command_session_scheme. s\<lparr>log := []\<rparr>)
     (fold_m (\<lambda>dsp ok. do { v \<leftarrow> read32 e (dsp_banks ! dsp + 0x28);
        State_Monad.return (ok \<and> v = (if dsp = 0 then 2 else 1)) }) [0..<8] True) connects_seen"
proof -
  have eq: "connects_seen = (\<Union>d\<in>set [0..<8]. {(dsp_banks ! d + 0x28, \<lambda>v. v = (if d = 0 then 2 else 1))})"
    unfolding connects_seen_def by (rule SUP_cong) (simp_all add: command_regs)
  show ?thesis unfolding eq by (rule checks_all_of)
qed

text \<open>A state reached by loads and sleeps alone.\<close>

definition waited :: "'a command_session_scheme \<Rightarrow> 'a command_session_scheme \<Rightarrow> bool" where
  "waited s t \<longleftrightarrow> (\<exists>xs. t = s\<lparr>log := xs @ log s\<rparr> \<and> writes xs = [])"

lemma waited_refl: "waited s s"
  unfolding waited_def by (intro exI[of _ "[]"]) simp

lemma waited_more: "waited s t \<Longrightarrow> writes xs = [] \<Longrightarrow> waited s (t\<lparr>log := xs @ log t\<rparr>)"
proof -
  assume "waited s t" "writes xs = []"
  then obtain ys where "t = s\<lparr>log := ys @ log s\<rparr>" "writes ys = []" by (auto simp: waited_def)
  then show ?thesis
    using \<open>writes xs = []\<close> unfolding waited_def by (intro exI[of _ "xs @ ys"]) (simp add: writes_append)
qed

lemma waited_pause: "waited s t \<Longrightarrow> waited s (t\<lparr>log := Delay n # log t\<rparr>)"
  using waited_more[of s t "[Delay n]"] by simp

lemma await_connects_wp:
  fixes s :: "'a command_session_scheme"
  assumes "\<not> connects_consumed s"
    and "\<And>n b xs. n \<le> k \<Longrightarrow> writes xs = [] \<Longrightarrow> (b \<Longrightarrow> seen connects_seen xs) \<Longrightarrow>
      Q n (s\<lparr>log := xs @ log s, connects_consumed := b\<rparr>)"
  shows "wp (await_connects e k) Q s"
proof -
  define I where "I t \<longleftrightarrow> waited s t" for t
  define R where "R t \<longleftrightarrow> (\<exists>xs. t = s\<lparr>log := xs @ log s, connects_consumed := True\<rparr> \<and> writes xs = [] \<and>
      seen connects_seen xs)" for t
  have same: "t\<lparr>connects_consumed := False\<rparr> = t" if "\<not> connects_consumed t"
    for t :: "'a command_session_scheme"
    using that by (cases t) simp
  have "wp (await_connects e k) (\<lambda>n t. 0 \<le> n \<and> n \<le> 0 + k \<and> (I t \<or> R t)) s"
    unfolding await_connects_def
  proof (rule poll_wp)
    show "I s" by (simp add: I_def waited_refl)
    show "I (t\<lparr>log := Delay 1000000 # log t\<rparr>)" if "I t" for t
      using that by (simp add: I_def waited_pause)
  next
    fix n and t :: "'a command_session_scheme"
    assume "I t"
    then obtain xs where t: "t = s\<lparr>log := xs @ log s\<rparr>" "writes xs = []" by (auto simp: I_def waited_def)
    show "wp (connects_turn e) (\<lambda>b u. if b then R u else I u) t"
      unfolding connects_turn_def wp_bind wp_modify wp_return
    proof (rule read_only_wp[OF connects_checks])
      fix b rs
      let ?u = "t\<lparr>log := rs @ log t\<rparr>"
      assume rs: "reads rs" "b \<Longrightarrow> seen connects_seen rs"
      show "if b then R (?u\<lparr>connects_consumed := b\<rparr>) else I (?u\<lparr>connects_consumed := b\<rparr>)"
      proof (cases b)
        case True
        then have "seen connects_seen (rs @ xs)" using rs(2) by (auto intro: seen_mono)
        then show ?thesis
          using t rs(1) True unfolding R_def
          by simp (intro exI[of _ "rs @ xs"], simp add: writes_append)
      next
        case False
        have "I ?u" using waited_more[of s t rs] t rs(1) by (auto simp: I_def waited_def)
        moreover have "\<not> connects_consumed ?u" using t assms(1) by simp
        moreover have "b = False" using False by simp
        ultimately show ?thesis by (simp only: if_False same not_False_eq_True)
      qed
    qed
  qed
  then show ?thesis
  proof (rule wp_mono)
    fix n t
    assume a: "0 \<le> n \<and> n \<le> 0 + k \<and> (I t \<or> R t)"
    then consider xs where "t = s\<lparr>log := xs @ log s\<rparr>" "writes xs = []"
      | xs where "t = s\<lparr>log := xs @ log s, connects_consumed := True\<rparr>" "writes xs = []" "seen connects_seen xs"
      by (auto simp: I_def R_def waited_def)
    then show "Q n t"
    proof cases
      case 1
      moreover have "s\<lparr>log := xs @ log s, connects_consumed := False\<rparr> = t"
        using 1(1) same[of t] assms(1) by simp
      ultimately show ?thesis using assms(2)[of n xs False] a by simp
    next
      case 2
      then show ?thesis using assms(2)[of n xs True] a by simp
    qed
  qed
qed

lemma await_answer_wp:
  fixes s :: "'a command_session_scheme"
  assumes "\<And>n xs. n \<le> k \<Longrightarrow> writes xs = [] \<Longrightarrow> Q () (s\<lparr>log := xs @ log s, polls := n\<rparr>)"
  shows "wp (await_answer e k cp rp) Q s"
proof -
  have "wp (poll_until e k 0 (\<lambda>_. answer_turn e cp rp)) (\<lambda>m t. 0 \<le> m \<and> m \<le> 0 + k \<and> (waited s t \<or> waited s t)) s"
  proof (rule poll_wp)
    show "waited s s" by (rule waited_refl)
    show "waited s (t\<lparr>log := Delay 1000000 # log t\<rparr>)" if "waited s t" for t
      using that by (rule waited_pause)
    show "wp (answer_turn e cp rp) (\<lambda>b u. if b then waited s u else waited s u) t" if "waited s t" for n t
      using waited_more[OF that, of "[Rd a x, Rd b y]" for a x b y]
      by (simp add: answer_turn_def load_word_def read32_def wp_simps)
  qed
  then show ?thesis
    unfolding await_answer_def wp_bind wp_modify
    by (rule wp_mono) (use assms in \<open>auto simp: waited_def\<close>)
qed

section \<open>The checks of the answer\<close>

definition answered_seen :: "u32 \<Rightarrow> u32 \<Rightarrow> (u32 \<times> (u32 \<Rightarrow> bool)) set" where
  "answered_seen cp rp = {(ring_reg 0 0 10, \<lambda>v. v = cp), (ring_reg 0 1 10, \<lambda>v. v = rp)} \<union> ready_seen"

definition response_words :: "vfio_env \<Rightarrow> history \<Rightarrow> (nat \<Rightarrow> u8) \<Rightarrow> nat \<Rightarrow> u32 list" where
  "response_words e h m n = map (\<lambda>w. get32 (ram_view e h m) (RESPONSE_PAGE * 4096 + w * 4)) [0..<n]"

text \<open>
  An answer: at some instant the response buffer held words the tool accepts, afterwards both
  positions were read as submitted and every DSP ready, no signal had arrived, and outside the
  response the memory was as in the heap copy.
\<close>

definition answered :: "vfio_env \<Rightarrow> nat \<Rightarrow> (u32 list \<Rightarrow> bool) \<Rightarrow> (nat \<times> nat) list \<Rightarrow> u32 \<Rightarrow> u32 \<Rightarrow>
    history \<Rightarrow> (nat \<Rightarrow> u8) \<Rightarrow> (nat \<Rightarrow> u8) option \<Rightarrow> bool" where
  "answered e n accept regions cp rp h m copy \<longleftrightarrow> (\<exists>qs g. h = qs @ g \<and> reads qs \<and>
     seen (answered_seen cp rp) qs \<and> accept (response_words e g m n) \<and>
     same_bytes regions (ram_view e h m) (the copy) \<and> \<not> ever (signalled e) h)"

text \<open>The heap copy is what the memory held at some instant before the first store.\<close>

definition copied :: "vfio_env \<Rightarrow> history \<Rightarrow> (nat \<Rightarrow> u8) \<Rightarrow> (nat \<Rightarrow> u8) option \<Rightarrow> bool" where
  "copied e k m copy \<longleftrightarrow> (\<exists>xs j. k = xs @ j \<and> copy = Some (ram_view e j m))"

lemma check_positions_wp:
  fixes s :: "'a command_session_scheme"
  assumes "\<And>b d rs. reads rs \<Longrightarrow>
      (b \<Longrightarrow> d \<Longrightarrow> seen {(ring_reg 0 0 10, \<lambda>v. v = cp), (ring_reg 0 1 10, \<lambda>v. v = rp)} rs) \<Longrightarrow>
      Q () (s\<lparr>log := rs @ log s, command_consumed := b, response_consumed := d\<rparr>)"
  shows "wp (check_positions e cp rp) Q s"
proof -
  define c where "c = answer e (log s) (ring_reg 0 0 10)"
  define r where "r = answer e (Rd (ring_reg 0 0 10) c # log s) (ring_reg 0 1 10)"
  have "Q () (s\<lparr>log := [Rd (ring_reg 0 1 10) r, Rd (ring_reg 0 0 10) c] @ log s, command_consumed := (c = cp),
      response_consumed := (r = rp)\<rparr>)"
    by (rule assms[of "[Rd (ring_reg 0 1 10) r, Rd (ring_reg 0 0 10) c]"]) (simp_all add: seen_def)
  moreover have "s\<lparr>log := l, command_consumed := b\<rparr> = s\<lparr>command_consumed := b, log := l\<rparr>" for l b
    by (cases s) simp
  ultimately show ?thesis
    by (simp add: check_positions_def read_is_def read32_def command_regs0 response_regs wp_simps c_def r_def)
qed

lemma check_memory_wp:
  fixes s :: "'a command_session_scheme"
  assumes "\<And>b rs. reads rs \<Longrightarrow> (b \<Longrightarrow> seen ready_seen rs) \<Longrightarrow>
      Q () (s\<lparr>log := rs @ log s, ready_after := b, memory_bounded :=
        same_bytes regions (ram_view e (rs @ log s) (ram s)) (the (heap_copy s))\<rparr>)"
  shows "wp (check_memory e regions) Q s"
  unfolding check_memory_def all_ready_def wp_bind wp_modify
  by (rule read_only_wp[OF cmd_port.checks_ready]) (use assms in simp)

section \<open>Restore and reset\<close>

lemma cmd_restored_checks:
  "checks log (\<lambda>s :: 'a command_session_scheme. s\<lparr>log := []\<rparr>)
     (and_m (all_rings_zero e) (read_is (read32 e) DMA_CONTROL DMA_COLD_RESET)) restored_seen"
  unfolding restored_seen_def all_rings_zero_def
  by (intro checks_and_m cmd_port.checks_rings cmd_port.checks_read_is)

lemma cmd_recovered_checks:
  "checks log (\<lambda>s :: 'a command_session_scheme. s\<lparr>log := []\<rparr>)
     (and_m (check ok) (and_m (all_rings_zero e)
       (and_m (read_is (read32 e) DMA_CONTROL DMA_COLD_RESET) (all_ready e)))) ({} \<union> recovered_seen)"
  unfolding recovered_seen_def all_rings_zero_def all_ready_def
  by (rule checks_and_m, simp add: checks_def check_def seen_def)
    (intro checks_and_m cmd_port.checks_rings cmd_port.checks_read_is cmd_port.checks_ready)

definition landed :: "'a command_session_scheme \<Rightarrow> bool" where
  "landed s \<longleftrightarrow> (if startup s then armed s else tool_ok s \<and> \<not> engines_on (log s))"

lemma holding_owns: "x \<in> whole \<Longrightarrow> x \<in> holding s \<longleftrightarrow> owns s x"
  using frame_subset[of s] by (auto simp: holding_def owns_iff whole_def)

lemma armed_handles: "armed s \<Longrightarrow> bar_ok s \<and> \<not> device_fd s < 0"
  using holding_owns[of BarMap s] holding_owns[of VfioDevice s]
  by (simp add: carries_def armed_set_def whole_def)

lemma rests_updates:
  "preserves (rests S) (modify (\<lambda>s. s\<lparr>restored := b\<rparr>))"
  "preserves (rests S) (modify (\<lambda>s. s\<lparr>reset_recovered := b\<rparr>))"
  by (rule rests_local; simp add: same_holdings_def same_handles_def)+

lemma cmd_restore_rests:
  assumes "landed s"
  shows "wp (cmd_restore e) (\<lambda>_. rests (holding s)) s"
proof (cases "startup s")
  case True
  then have a: "armed s" and S: "holding s = armed_set" using assms by (simp_all add: landed_def carries_def)
  note rd = rests_rd[OF armed_simps(1)]
  have tail: "preserves (rests armed_set) (do {
           b \<leftarrow> and_m (all_rings_zero e) (read_is (read32 e) DMA_CONTROL DMA_COLD_RESET);
           modify (\<lambda>s. s\<lparr>restored := b\<rparr>);
           if b then State_Monad.return () else fail })"
    unfolding all_rings_zero_def
    by (intro preserves_intros preserves_scan_rings[OF rd] preserves_read_is[OF rd] rests_updates) simp_all
  have "wp (restore_card write32) (\<lambda>_. armed) s"
    by (rule preservesD[where I = armed, OF _ a]) (rule armed_intros)
  moreover have "wp (restore_card write32) (\<lambda>_ t. \<not> engines_on (log t)) s"
    by (rule stores_wp[OF cmd_port.stores_restore]) simp
  ultimately have "wp (restore_card write32) (\<lambda>_. rests armed_set) s"
    unfolding rests_def by (simp only: wp_conj simp_thms)
  then show ?thesis
    unfolding cmd_restore_def S wp_when_m if_P[OF conjI[OF True conjunct1[OF armed_handles[OF a]]]] wp_bind
    by (rule wp_mono) (use preservesD[OF tail] in \<open>simp add: wp_bind\<close>)
next
  case False
  then show ?thesis
    using assms by (simp add: cmd_restore_def wp_simps landed_def rests_def tool_ok_carries)
qed

lemma cmd_reset_rests:
  assumes "rests S s"
  shows "wp (cmd_reset e) (\<lambda>_. rests S) s"
proof (cases "BarMap \<in> S")
  case True
  note rd = rests_rd[OF True]
  have "preserves (rests S) (cmd_reset e)"
    unfolding cmd_reset_def when_m_def all_rings_zero_def all_ready_def check_def
    by (intro preserves_intros preserves_scan_rings[OF rd] preserves_scan_ready[OF rd]
        preserves_read_is[OF rd] rests_updates) simp_all
  then show ?thesis using assms by (rule preservesD)
next
  case False
  then have "\<not> bar_ok s"
    using assms holding_owns[of BarMap s] by (auto simp: rests_def carries_def)
  then show ?thesis using assms by (simp add: cmd_reset_def wp_simps)
qed

lemma cmd_cleanup_rests: "landed s \<Longrightarrow> wp (cmd_cleanup e) (\<lambda>_. rests (holding s)) s"
  unfolding cmd_cleanup_def wp_bind
  by (rule wp_mono[OF cmd_restore_rests], assumption, rule cmd_reset_rests)

text \<open>What the cleanup stores and, if the exit status stays 0, has seen.\<close>

definition cleaned :: "history \<Rightarrow> history \<Rightarrow> bool" where
  "cleaned k h \<longleftrightarrow> (\<exists>recovery restore. h = recovery @ DeviceReset # restore @ k \<and>
     writes restore = restore_stores \<and> seen restored_seen restore \<and>
     reads recovery \<and> seen recovered_seen recovery)"

definition restore_result :: "'a command_session_scheme \<Rightarrow> 'a command_session_scheme \<Rightarrow> bool" where
  "restore_result s t \<longleftrightarrow> (\<exists>evs. log t = evs @ log s \<and>
     writes evs = (if startup s then restore_stores else []) \<and>
     (startup s \<longrightarrow> exit_success t \<longrightarrow> seen restored_seen evs)) \<and>
     (exit_success t \<longrightarrow> exit_success s) \<and> ram t = ram s \<and> heap_copy t = heap_copy s \<and>
     bar_ok t = bar_ok s \<and> device_fd t = device_fd s"

lemma cmd_restore_wp:
  fixes s :: "'a command_session_scheme"
  assumes "startup s \<Longrightarrow> bar_ok s"
  shows "wp (cmd_restore e) (\<lambda>_. restore_result s) s"
proof (cases "startup s")
  case True
  let ?evs = "rev (map (\<lambda>(a, v). Wr a v) restore_stores)"
  have w: "writes ?evs = restore_stores" using writes_rev_stores[of restore_stores "[]"] by simp
  have all: "writes (rs @ ?evs) = restore_stores" if "reads rs" for rs using that w by simp
  show ?thesis
    unfolding cmd_restore_def wp_when_m if_P[OF conjI[OF True assms[OF True]]] wp_bind[of "restore_card _"]
      stores_after[OF cmd_port.stores_restore]
    unfolding wp_bind
  proof (rule read_only_wp[OF cmd_restored_checks])
    fix b rs
    assume rs: "reads rs" "b \<Longrightarrow> seen restored_seen rs"
    then have "b \<Longrightarrow> seen restored_seen (rs @ ?evs)" by (auto elim: seen_mono)
    with all[OF rs(1)] True
    show "wp (modify (restored_update (\<lambda>_. b))) (\<lambda>_. wp (if b then State_Monad.return () else fail)
        (\<lambda>_. restore_result s)) (after restore_stores s\<lparr>log := rs @ log (after restore_stores s)\<rparr>)"
      unfolding restore_result_def
      by (cases b; simp add: wp_simps fail_def after_def; intro exI[of _ "rs @ ?evs"]; simp)
  qed
next
  case False
  then show ?thesis by (simp add: cmd_restore_def wp_simps restore_result_def)
qed

definition reset_result :: "'a command_session_scheme \<Rightarrow> 'a command_session_scheme \<Rightarrow> bool" where
  "reset_result s t \<longleftrightarrow> writes (log t) = writes (log s) \<and>
     (exit_success t \<longrightarrow> exit_success s \<and> (bar_ok s \<longrightarrow> \<not> device_fd s < 0 \<longrightarrow>
       (\<exists>rs. log t = rs @ DeviceReset # log s \<and> reads rs \<and> seen recovered_seen rs))) \<and>
     ram t = ram s \<and> heap_copy t = heap_copy s"

lemma cmd_reset_wp:
  fixes s :: "'a command_session_scheme"
  shows "wp (cmd_reset e) (\<lambda>_. reset_result s) s"
proof (cases "\<not> device_fd s < 0 \<and> bar_ok s")
  case True
  show ?thesis
    unfolding cmd_reset_def wp_when_m if_P[OF True] reset_device_def wp_bind wp_emit wp_return
  proof (rule read_only_wp[OF cmd_recovered_checks])
    fix b rs
    let ?s = "s\<lparr>log := DeviceReset # log s\<rparr>"
    assume "reads rs" "b \<Longrightarrow> seen ({} \<union> recovered_seen) rs"
    then show "wp (modify (\<lambda>s. s\<lparr>reset_recovered := b\<rparr>)) (\<lambda>_. wp (if b then State_Monad.return () else fail)
        (\<lambda>_. reset_result s)) (?s\<lparr>log := rs @ log ?s\<rparr>)"
      by (cases b) (auto simp: wp_simps fail_def reset_result_def)
  qed
next
  case False
  then show ?thesis unfolding cmd_reset_def wp_when_m if_not_P[OF False] reset_result_def by auto
qed

definition cleanup_result :: "'a command_session_scheme \<Rightarrow> 'a command_session_scheme \<Rightarrow> bool" where
  "cleanup_result s t \<longleftrightarrow> rests (holding s) t \<and> ram t = ram s \<and> heap_copy t = heap_copy s \<and>
     writes (log t) = writes (log s) @ (if startup s then restore_stores else []) \<and>
     (exit_success t \<longrightarrow> exit_success s \<and> (startup s \<longrightarrow> cleaned (log s) (log t)))"

lemma cmd_cleanup_wp:
  assumes "landed s"
  shows "wp (cmd_cleanup e) (\<lambda>_. cleanup_result s) s"
proof -
  have h: "startup s \<Longrightarrow> bar_ok s \<and> \<not> device_fd s < 0"
    using armed_handles[of s] assms by (simp add: landed_def)
  have "wp (cmd_cleanup e) (\<lambda>_ t. \<exists>u. restore_result s u \<and> reset_result u t) s"
    unfolding cmd_cleanup_def wp_bind
    by (rule wp_mono[OF cmd_restore_wp]) (use h in \<open>auto intro: wp_mono[OF cmd_reset_wp]\<close>)
  then have "wp (cmd_cleanup e) (\<lambda>_ t. rests (holding s) t \<and> (\<exists>u. restore_result s u \<and> reset_result u t)) s"
    using cmd_cleanup_rests[OF assms] by (simp only: wp_conj simp_thms)
  then show ?thesis
  proof (rule wp_mono)
    fix t
    assume "rests (holding s) t \<and> (\<exists>u. restore_result s u \<and> reset_result u t)"
    then obtain u evs where r: "rests (holding s) t" and u: "log u = evs @ log s"
      "writes evs = (if startup s then restore_stores else [])"
      "startup s \<Longrightarrow> exit_success u \<Longrightarrow> seen restored_seen evs" "exit_success u \<Longrightarrow> exit_success s"
      "ram u = ram s" "heap_copy u = heap_copy s" "bar_ok u = bar_ok s" "device_fd u = device_fd s"
      and ut: "reset_result u t"
      by (auto simp: restore_result_def)
    have "cleaned (log s) (log t)" if t: "exit_success t" and s: "startup s"
    proof -
      obtain rs where rs: "log t = rs @ DeviceReset # log u" "reads rs" "seen recovered_seen rs"
        using ut t h[OF s] u(7,8) by (auto simp: reset_result_def)
      have "exit_success u" using ut t by (simp add: reset_result_def)
      then show ?thesis
        unfolding cleaned_def using rs u(1,2) u(3)[OF s] s by (intro exI[of _ rs] exI[of _ evs]) simp
    qed
    then show "cleanup_result s t"
      using r u ut by (auto simp: cleanup_result_def reset_result_def writes_append)
  qed
qed

section \<open>Teardown\<close>

definition closing :: "'a command_session_scheme \<Rightarrow> 'a command_session_scheme \<Rightarrow> bool" where
  "closing s t \<longleftrightarrow> heap_copy t = heap_copy s \<and> ram t = ram s \<and> (exit_success t \<longrightarrow> exit_success s) \<and>
     (\<exists>xs. log t = xs @ log s \<and> writes xs = [])"

lemma closing_refl: "closing s s"
  by (simp add: closing_def)

lemma closing_steps:
  "preserves (closing s) (close_card u)" "preserves (closing s) close_host"
  "preserves (closing s) close_input" "preserves (closing s) (report_lines f)"
  "preserves (\<lambda>t. file_fd t = x) (close_card u)" "preserves (\<lambda>t. file_fd t = x) close_host"
  "preserves (\<lambda>t. file_fd t = x) (report_lines f)"
  unfolding close_card_def close_host_def close_input_def report_lines_def release_bar_def release_device_def
    release_memory_def free_snapshot_def detach_group_def release_group_def release_container_def fail_def
    closing_def
  by (intro preserves_intros preserves_modify; auto simp: preserves_def wp_simps)+

definition card_set :: "bool \<Rightarrow> resource set" where
  "card_set good = (if good then {VfioMapping, VfioDevice, BarMap} else {VfioDevice, BarMap})"

definition host_set :: "bool \<Rightarrow> resource set" where
  "host_set good = insert VfioContainer (insert VfioGroup (insert VfioAttached (insert Snapshot
     (insert VfioMemory (card_set good)))))"

lemma close_card_tears:
  assumes "tearing good H s {} t" "good \<longleftrightarrow> unmapped \<or> \<not> dma_mapped s"
  shows "wp (close_card unmapped) (\<lambda>_. tearing good H s (card_set good)) t"
proof -
  have "wp (close_card unmapped) (\<lambda>_. tearing good H s
      (if good then insert VfioMapping {VfioDevice, BarMap} else {VfioDevice, BarMap})) t"
    unfolding close_card_def wp_bind
    by (rule wp_mono[OF tear_handle(1)[OF assms(1)]], simp, simp add: torn_def,
        erule tear_handle(2)[THEN wp_mono], simp, simp add: torn_def,
        erule tear_mapping_if, simp, rule assms(2), simp add: torn_def)
  then show ?thesis by (simp only: card_set_def)
qed

lemma close_host_tears:
  assumes "tearing good H s (card_set good) t" "heap_copy t \<noteq> None \<longleftrightarrow> Snapshot \<in> H"
  shows "wp close_host (\<lambda>_. tearing good H s (host_set good)) t"
proof -
  let ?c = "\<lambda>u. heap_copy u \<noteq> None \<longleftrightarrow> Snapshot \<in> H"
  have "preserves ?c release_memory"
    unfolding release_memory_def by (intro preserves_intros) (simp add: preserves_def wp_simps)
  then have c: "wp release_memory (\<lambda>_. ?c) t" using assms(2) by (rule preservesD)
  have m: "wp release_memory (\<lambda>_. tearing good H s (insert VfioMemory (card_set good))) t"
    by (rule tear_handle(3)[OF assms(1)]) (simp_all add: card_set_def torn_def)
  have f: "wp free_snapshot (\<lambda>_. tearing good H s (insert Snapshot (insert VfioMemory (card_set good)))) u"
    if "tearing good H s (insert VfioMemory (card_set good)) u" "?c u" for u
    unfolding free_snapshot_def
    by (rule tearing_step[OF that(1)]) (use that(2) in \<open>simp_all add: card_set_def torn_def\<close>)
  show ?thesis
    unfolding close_host_def wp_bind host_set_def
    by (rule wp_mono[OF wp_conjI[OF m c]], elim conjE, rule f[THEN wp_mono], assumption+,
        erule tear_handle(4)[THEN wp_mono], simp add: card_set_def, simp add: card_set_def torn_def,
        erule tear_handle(5)[THEN wp_mono], simp add: card_set_def, simp add: card_set_def torn_def,
        erule tear_handle(6)[THEN wp_mono], simp add: card_set_def, simp add: card_set_def torn_def)
qed

lemma close_input_tears:
  assumes "tearing good H s X t" "InputFile \<notin> X" "good \<Longrightarrow> torn X" "\<not> file_fd t < 0 \<longleftrightarrow> InputFile \<in> H"
  shows "wp close_input (\<lambda>_. tearing good H s (insert InputFile X)) t"
proof -
  have "wp (when_m (\<lambda>s. \<not> file_fd s < 0) (emit (Release InputFile)))
      (\<lambda>_. tearing good H s (insert InputFile X)) t"
    by (rule tearing_step[where c = "\<lambda>s. \<not> file_fd s < 0", OF assms(1,2,4)]) (use assms(3) in \<open>simp_all add: torn_def\<close>)
  then show ?thesis
    by (auto simp: close_input_def wp_simps elim!: tearing_local split: if_splits)
      (simp_all add: same_handles_def)
qed

text \<open>The common part of the three teardowns; \<open>before\<close> and \<open>middle\<close> only change variables.\<close>

definition torn_down ::
  "bool \<Rightarrow> resource set \<Rightarrow> 'a command_session_scheme \<Rightarrow> 'a command_session_scheme \<Rightarrow> bool" where
  "torn_down good X s t \<longleftrightarrow> tearing good (holding s) s X t \<and> closing s t \<and> file_fd t = file_fd s"

lemma wp_torn_down:
  "wp m (\<lambda>_. torn_down good X s) t \<longleftrightarrow> wp m (\<lambda>_. tearing good (holding s) s X) t \<and>
     wp m (\<lambda>_. closing s) t \<and> wp m (\<lambda>_ u. file_fd u = file_fd s) t"
  by (simp add: wp_run torn_down_def)

lemma close_session_wp:
  fixes s :: "'a command_session_scheme" and before middle :: "('a command_session_scheme, unit) state"
  assumes s: "tool_ok s" "\<not> engines_on (log s)" and good: "good \<longleftrightarrow> unmapped \<or> \<not> dma_mapped s"
    and before: "\<forall>t. wp before (\<lambda>_ u. same_holdings t u \<and> log u = log t) t" "preserves (closing s) before"
      "preserves (\<lambda>t. file_fd t = file_fd s) before"
    and middle: "\<forall>t. wp middle (\<lambda>_ u. same_holdings t u \<and> log u = log t) t" "preserves (closing s) middle"
      "preserves (\<lambda>t. file_fd t = file_fd s) middle"
  shows "wp (do { before; close_card unmapped; middle; close_host }) (\<lambda>_. torn_down good (host_set good) s) s"
proof -
  have start: "tearing good (holding s) s {} s"
    using tearing_start[of s "frame s" good] s frame_subset[of s] by (simp add: tool_ok_world holding_def)
  have sn: "heap_copy s \<noteq> None \<longleftrightarrow> Snapshot \<in> holding s"
    using owned_subset[of s] by (auto simp: holding_def frame_def whole_def)
  have local_tears: "wp m (\<lambda>_. torn_down good X s) t"
    if "\<forall>t. wp m (\<lambda>_ u. same_holdings t u \<and> log u = log t) t" "preserves (closing s) m"
      "preserves (\<lambda>t. file_fd t = file_fd s) m" "torn_down good X s t"
    for m :: "('a command_session_scheme, unit) state" and X t
  proof -
    have "wp m (\<lambda>_ u. (same_holdings t u \<and> log u = log t) \<and> closing s u \<and> file_fd u = file_fd s) t"
      using that(1) preservesD[OF that(2)] preservesD[OF that(3)] that(4)
      by (simp only: wp_conj torn_down_def simp_thms)
    then show ?thesis
      by (rule wp_mono)
        (use that(4) in \<open>auto simp: torn_down_def same_holdings_def elim!: tearing_local\<close>)
  qed
  have card: "wp (close_card unmapped) (\<lambda>_. torn_down good (card_set good) s) t" if "torn_down good {} s t" for t
    unfolding wp_torn_down
    by (intro conjI close_card_tears[OF _ good] preservesD[OF closing_steps(1)] preservesD[OF closing_steps(5)])
      (use that in \<open>simp_all only: torn_down_def\<close>)
  have host: "wp close_host (\<lambda>_. torn_down good (host_set good) s) t" if "torn_down good (card_set good) s t" for t
  proof -
    have "heap_copy t \<noteq> None \<longleftrightarrow> Snapshot \<in> holding s" using that sn by (simp add: torn_down_def closing_def)
    with that show ?thesis
      unfolding wp_torn_down
      by (intro conjI close_host_tears preservesD[OF closing_steps(2)] preservesD[OF closing_steps(6)])
        (simp_all only: torn_down_def)
  qed
  have first: "torn_down good {} s s" using start by (simp add: torn_down_def closing_refl)
  show ?thesis
    unfolding wp_bind
    by (rule wp_mono[OF local_tears[OF before first]], erule card[THEN wp_mono],
        erule local_tears[OF middle, THEN wp_mono], erule host)
qed

text \<open>How a command tool ends.\<close>

definition ends :: "bool \<Rightarrow> 'a command_session_scheme \<Rightarrow> 'a command_session_scheme \<Rightarrow> bool" where
  "ends unmapped s t \<longleftrightarrow> released (unmapped \<or> \<not> dma_mapped t) (dma_mapped t) (log t) \<and> closing s t"

lemma torn_down_ends:
  assumes "torn_down good (host_set good) s t" "good \<longleftrightarrow> unmapped \<or> \<not> dma_mapped s" "InputFile \<notin> holding s"
  shows "ends unmapped s t"
proof -
  have t: "tearing good (owned s \<union> frame s) s (host_set good) t"
    using assms(1) by (simp add: torn_down_def holding_def)
  have "frame s \<subseteq> {Snapshot}" using assms(3) frame_subset[of s] by (auto simp: holding_def)
  then have sub: "whole - {VfioMapping} \<union> frame s \<subseteq> host_set good"
    by (auto simp: whole_def host_set_def card_set_def)
  have "released good (dma_mapped s) (log t)"
    by (rule tearing_released[OF t assms(2) sub]) (simp add: host_set_def card_set_def)
  moreover have "dma_mapped t = dma_mapped s" using t by (simp add: tearing_def same_handles_def)
  ultimately show ?thesis using assms(1,2) by (simp add: ends_def torn_down_def)
qed

lemma close_input_ends:
  assumes "torn_down good (host_set good) s t" "good \<longleftrightarrow> unmapped \<or> \<not> dma_mapped s"
  shows "wp close_input (\<lambda>_. ends unmapped s) t"
proof -
  have f: "\<not> file_fd t < 0 \<longleftrightarrow> InputFile \<in> holding s"
    using assms(1) owned_subset[of s] by (auto simp: torn_down_def holding_def frame_def whole_def)
  have "wp close_input (\<lambda>_. tearing good (holding s) s (insert InputFile (host_set good))) t"
    by (rule close_input_tears[OF _ _ _ f])
      (use assms(1) in \<open>auto simp: torn_down_def host_set_def card_set_def torn_def\<close>)
  moreover have "wp close_input (\<lambda>_. closing s) t"
    by (rule preservesD[OF closing_steps(3)]) (use assms(1) in \<open>simp add: torn_down_def\<close>)
  ultimately have "wp close_input (\<lambda>_ u. tearing good (holding s) s (insert InputFile (host_set good)) u \<and>
      closing s u) t"
    by (simp only: wp_conj simp_thms)
  then show ?thesis
  proof (rule wp_mono)
    fix u
    assume u: "tearing good (holding s) s (insert InputFile (host_set good)) u \<and> closing s u"
    then have t: "tearing good (owned s \<union> frame s) s (insert InputFile (host_set good)) u"
      by (simp add: holding_def)
    have sub: "whole - {VfioMapping} \<union> frame s \<subseteq> insert InputFile (host_set good)"
      using frame_subset[of s] by (auto simp: whole_def host_set_def card_set_def)
    have "released good (dma_mapped s) (log u)"
      by (rule tearing_released[OF t assms(2) sub]) (simp add: host_set_def card_set_def)
    moreover have "dma_mapped u = dma_mapped s" using t by (simp add: tearing_def same_handles_def)
    ultimately show "ends unmapped s u" using u assms(2) by (simp add: ends_def)
  qed
qed

text \<open>The teardowns of the tools: a report before it, or in its middle.\<close>

lemma report_quiet: "wp (report_lines f) (\<lambda>_ u. same_holdings t u \<and> log u = log t) t"
  by (simp add: report_lines_def wp_modify same_holdings_def same_handles_def)

lemma return_quiet: "wp (State_Monad.return ()) (\<lambda>_ u. same_holdings t u \<and> log u = log t) t"
  by (simp add: wp_return same_holdings_def same_handles_def)

lemma report_first_wp:
  fixes s :: "'a command_session_scheme"
  assumes "tool_ok s" "\<not> engines_on (log s)"
  shows "wp (do { report_lines f; close_card unmapped; close_host })
     (\<lambda>_. torn_down (unmapped \<or> \<not> dma_mapped s) (host_set (unmapped \<or> \<not> dma_mapped s)) s) s"
proof -
  have "wp (do { report_lines f; close_card unmapped; State_Monad.return (); close_host })
     (\<lambda>_. torn_down (unmapped \<or> \<not> dma_mapped s) (host_set (unmapped \<or> \<not> dma_mapped s)) s) s"
    by (rule close_session_wp[OF assms refl])
      (auto intro: report_quiet return_quiet closing_steps preserves_return)
  then show ?thesis by simp
qed

lemma fresh_commandD:
  assumes "fresh_command n s"
  shows "tool_ok s" "holding s = {}" "writes (log s) = []" "\<not> startup s" "\<not> exit_success s"
    "\<not> connects_consumed s"
proof -
  have f: "fresh_session s" "file_fd s = -1" "heap_copy s = None"
    using assms by (simp_all add: fresh_command_def)
  have "owned s = {}"
    by (rule set_eqI, rename_tac x, case_tac x) (use f(1) in \<open>simp_all add: owns_iff fresh_session_def\<close>)
  then show "holding s = {}" using f by (simp add: holding_def frame_def)
  then show "tool_ok s" using f(1) world_start by (simp add: tool_ok_world fresh_session_def)
qed (use assms in \<open>simp_all add: fresh_command_def fresh_session_def\<close>)

text \<open>
  The two promises of a finished run: its stores are none, or a list of the tool's \<open>shape\<close> followed by the
  whole restore sequence; and exit status 0 is \<open>backed\<close> by the \<open>work\<close> a prefix of the history shows,
  after which the card was restored, reset and found cold, and nothing more was stored.
\<close>

definition put_back :: "((u32 \<times> u32) list \<Rightarrow> bool) \<Rightarrow> (u32 \<times> u32) list \<Rightarrow> bool" where
  "put_back shape ws \<longleftrightarrow> ws = [] \<or> (\<exists>us. shape us \<and> ws = us @ restore_stores)"

definition backed :: "(history \<Rightarrow> history \<Rightarrow> (nat \<Rightarrow> u8) \<Rightarrow> (nat \<Rightarrow> u8) option \<Rightarrow> bool) \<Rightarrow>
    'a command_session_scheme \<Rightarrow> bool" where
  "backed work t \<longleftrightarrow> (\<exists>closing h run k. log t = closing @ h \<and> writes closing = [] \<and> cleaned run h \<and>
     writes k = [] \<and> work k run (ram t) (heap_copy t))"

section \<open>The contract of a command tool\<close>

text \<open>
  A command tool prepares its session (storing nothing to the card), runs if that succeeded,
  restores and resets the card, reports and tears down. It promises that the preparation ends with
  everything held or with a failure; that the run keeps the session whole, starts the rings and
  stores a list of the given \<open>shape\<close>; that exit status 0 after the run means the \<open>work\<close> was seen done;
  and that the rest ends the session.
\<close>

locale command_tool =
  fixes e :: vfio_env
    and prepare :: "('a command_session_scheme, bool) state"
    and run rest :: "('a command_session_scheme, unit) state"
    and start :: "'a command_session_scheme"
    and words :: nat
    and unmapped :: bool
    and usable :: "resource set"
    and prepared :: "'a command_session_scheme \<Rightarrow> bool"
    and shape :: "(u32 \<times> u32) list \<Rightarrow> bool"
    and work :: "history \<Rightarrow> history \<Rightarrow> (nat \<Rightarrow> u8) \<Rightarrow> (nat \<Rightarrow> u8) option \<Rightarrow> bool"
  assumes start_fresh: "fresh_command words start"
    and prepare_arms: "prepares {} prepare armed_set"
    and prepare_done: "wp prepare (\<lambda>ok t. holding t \<subseteq> usable \<and> (ok \<longrightarrow> prepared t)) start"
    and run_armed: "preserves armed run"
    and run_spec: "prepared s \<Longrightarrow> \<not> exit_success s \<Longrightarrow> writes (log s) = [] \<Longrightarrow>
      wp run (\<lambda>_ t. startup t \<and> shape (writes (log t)) \<and>
        (exit_success t \<longrightarrow> work (log s) (log t) (ram t) (heap_copy t))) s"
    and rest_ends: "tool_ok s \<Longrightarrow> \<not> engines_on (log s) \<Longrightarrow> holding s \<subseteq> usable \<Longrightarrow>
      wp rest (\<lambda>_. ends unmapped s) s"
begin

definition attempted :: "'a command_session_scheme \<Rightarrow> bool" where
  "attempted t \<longleftrightarrow> landed t \<and> holding t \<subseteq> usable \<and>
     (if startup t then shape (writes (log t)) \<and>
        (exit_success t \<longrightarrow> (\<exists>k. writes k = [] \<and> work k (log t) (ram t) (heap_copy t)))
      else writes (log t) = [] \<and> \<not> exit_success t)"

lemma attempt_spec:
  "wp (do { ok \<leftarrow> prepare; if ok then run else State_Monad.return () }) (\<lambda>_. attempted) start"
proof -
  note s = fresh_commandD[OF start_fresh]
  have "wp prepare (\<lambda>b t. tool_ok t \<and> writes (log t) = writes (log start) \<and>
      exit_success t = exit_success start \<and> startup t = startup start \<and> (b \<longrightarrow> holding t = armed_set)) start"
    using prepare_arms s(1,2) unfolding prepares_def by blast
  then have "wp prepare (\<lambda>b t. (tool_ok t \<and> writes (log t) = [] \<and> \<not> exit_success t \<and> \<not> startup t \<and>
      (b \<longrightarrow> holding t = armed_set)) \<and> (holding t \<subseteq> usable \<and> (b \<longrightarrow> prepared t))) start"
    using prepare_done s by (simp only: wp_conj simp_thms)
  then show ?thesis
    unfolding wp_bind
  proof (rule wp_mono)
    fix b t
    assume t: "(tool_ok t \<and> writes (log t) = [] \<and> \<not> exit_success t \<and> \<not> startup t \<and>
      (b \<longrightarrow> holding t = armed_set)) \<and> (holding t \<subseteq> usable \<and> (b \<longrightarrow> prepared t))"
    show "wp (if b then run else State_Monad.return ()) (\<lambda>_. attempted) t"
    proof (cases b)
      case True
      then have "armed t" using t tool_ok_carries[of t] by auto
      then have "wp run (\<lambda>_ u. armed u \<and> startup u \<and> shape (writes (log u)) \<and>
        (exit_success u \<longrightarrow> work (log t) (log u) (ram u) (heap_copy u))) t"
        using preservesD[OF run_armed] run_spec[of t] t True by (simp only: wp_conj simp_thms)
      then show ?thesis unfolding if_P[OF True]
        by (rule wp_mono) (use t True in \<open>auto simp: attempted_def landed_def carries_def\<close>)
    next
      case False
      then show ?thesis
        using t engines_off_unwritten by (simp add: wp_return attempted_def landed_def)
    qed
  qed
qed

definition finished :: "'a command_session_scheme \<Rightarrow> bool" where
  "finished t \<longleftrightarrow> released (unmapped \<or> \<not> dma_mapped t) (dma_mapped t) (log t) \<and>
     put_back shape (writes (log t)) \<and> (exit_success t \<longrightarrow> backed work t)"

lemma program_spec:
  "wp (do { ok \<leftarrow> prepare;
     (if ok then run else State_Monad.return ());
     cmd_cleanup e;
     rest }) (\<lambda>_. finished) start"
proof -
  have rest: "wp rest (\<lambda>_. finished) u" if s: "attempted s" and u: "cleanup_result s u" for s u
  proof -
    have "rests (holding s) u" using u by (simp add: cleanup_result_def)
    then have "tool_ok u" "\<not> engines_on (log u)" "holding u \<subseteq> usable"
      using s by (auto simp: rests_def carries_def tool_ok_world attempted_def)
    then have "wp rest (\<lambda>_. ends unmapped u) u" by (rule rest_ends)
    then show ?thesis
    proof (rule wp_mono)
      fix t
      assume "ends unmapped u t"
      then obtain xs where t: "released (unmapped \<or> \<not> dma_mapped t) (dma_mapped t) (log t)"
        "log t = xs @ log u" "writes xs = []" "exit_success t \<Longrightarrow> exit_success u"
        "ram t = ram u" "heap_copy t = heap_copy u"
        by (auto simp: ends_def closing_def)
      have w: "put_back shape (writes (log t))"
        using s u t(2,3) by (auto simp: put_back_def attempted_def cleanup_result_def writes_append split: if_splits)
      have "backed work t" if "exit_success t"
      proof -
        have su: "exit_success u" using t(4) that .
        then have ss: "exit_success s" using u by (simp add: cleanup_result_def)
        then have "startup s" using s by (auto simp: attempted_def split: if_splits)
        then obtain k where "writes k = []" "work k (log s) (ram s) (heap_copy s)"
          using s ss by (auto simp: attempted_def)
        moreover have "cleaned (log s) (log u)" using u su \<open>startup s\<close> by (simp add: cleanup_result_def)
        ultimately show ?thesis unfolding backed_def using t(2,3,5,6) u
          by (intro exI[of _ xs] exI[of _ "log u"] exI[of _ "log s"] exI[of _ k])
            (simp add: cleanup_result_def)
      qed
      with t(1) w show "finished t" by (simp add: finished_def)
    qed
  qed
  have clean: "wp (do { cmd_cleanup e; rest }) (\<lambda>_. finished) s" if "attempted s" for s
    unfolding wp_bind
    by (rule wp_mono[OF cmd_cleanup_wp]) (use that rest in \<open>auto simp: attempted_def\<close>)
  have "wp (do { ok \<leftarrow> prepare; if ok then run else State_Monad.return () })
      (\<lambda>_. wp (do { cmd_cleanup e; rest }) (\<lambda>_. finished)) start"
    by (rule wp_mono[OF attempt_spec clean])
  then show ?thesis by (simp only: wp_bind)
qed

end

end
