(* ===== verification/Loader_Answer.thy ===== *)
theory Loader_Answer
  imports Command_Tool
begin

text \<open>
  What the two tools that send loader commands share: the payload read from a file into the locked
  memory, and the check of the firmware's answer. The loop that reads the file accepts short reads
  and stores exactly the bytes the host delivers, in order.
\<close>

section \<open>Reading the payload\<close>

text \<open>\<open>delivers c content\<close>: a read at an offset fails or delivers a prefix of what \<open>content\<close> holds there.\<close>

definition delivers :: "command_env \<Rightarrow> u8 list \<Rightarrow> bool" where
  "delivers c content \<longleftrightarrow> (\<forall>got n. case input_read c got n of
     None \<Rightarrow> True | Some data \<Rightarrow> (\<exists>k. data = take k (drop got content)))"

text \<open>\<open>progresses c content\<close>: before the end of \<open>content\<close> no read fails or comes back empty.\<close>

definition progresses :: "command_env \<Rightarrow> u8 list \<Rightarrow> bool" where
  "progresses c content \<longleftrightarrow> (\<forall>got n. got < length content \<longrightarrow> 0 < n \<longrightarrow>
     (\<exists>data. input_read c got n = Some data \<and> data \<noteq> []))"

lemma store_bytes_append:
  "store_bytes (a + length xs) ys (store_bytes a xs m) = store_bytes a (xs @ ys) m"
  by (auto simp: store_bytes_def fun_eq_iff nth_append)

lemma store_bytes_nil: "store_bytes a [] m = m"
  by (auto simp: store_bytes_def fun_eq_iff)

lemma take_eq_conv_min: "take (min k (min n (length xs))) xs = take (min k n) xs"
  by (simp add: min_def)

lemma delivered_chunk:
  assumes "delivers c content" "input_read c got (bytes - got) = Some some" "got \<le> length content"
    and n: "n = length (take (bytes - got) some)"
    and rest: "got + n \<le> length content \<Longrightarrow> data = take (bytes - (got + n)) (drop (got + n) content)"
  shows "take (bytes - got) some @ data = take (bytes - got) (drop got content)"
proof -
  have "case input_read c got (bytes - got) of None \<Rightarrow> True
      | Some data \<Rightarrow> \<exists>k. data = take k (drop got content)"
    using assms(1) unfolding delivers_def by blast
  then obtain k where k: "some = take k (drop got content)" using assms(2) by auto
  have m: "n = min (min (length content - got) k) (bytes - got)" unfolding n k by simp
  have "take (bytes - got) some = take (min k (bytes - got)) (drop got content)" by (simp add: k min.commute)
  also have "\<dots> = take n (drop got content)"
    unfolding m using take_eq_conv_min[of k "bytes - got" "drop got content"]
    by (simp add: min.commute min.left_commute)
  finally have chunk: "take (bytes - got) some = take n (drop got content)" .
  have le: "n \<le> bytes - got" "got + n \<le> length content" using assms(3) unfolding m by simp_all
  have "take (bytes - got) some @ data =
      take n (drop got content) @ take (bytes - got - n) (drop n (drop got content))"
    using rest[OF le(2)] by (simp add: chunk add.commute)
  also have "\<dots> = take (n + (bytes - got - n)) (drop got content)" by (rule take_add[symmetric])
  finally show ?thesis using le(1) by (simp only: le_add_diff_inverse)
qed

text \<open>What the loop stores, and from where it can have got it.\<close>

lemma load_input_wp:
  assumes "\<And>t. Q False t"
    and "\<And>data. length data = bytes - got \<Longrightarrow>
      (\<And>content. delivers c content \<Longrightarrow> got \<le> length content \<Longrightarrow> data = take (bytes - got) (drop got content)) \<Longrightarrow>
      Q True (s\<lparr>ram := store_bytes (base + got) data (ram s)\<rparr>)"
  shows "wp (load_input c base bytes got) Q s"
  using assms
proof (induction c base bytes got arbitrary: s Q rule: load_input.induct)
  case (1 c base bytes got)
  show ?case
  proof (cases "bytes \<le> got")
    case True
    then show ?thesis
      using 1(3)[of "[]"] by (subst load_input.simps) (simp add: wp_return store_bytes_nil)
  next
    case False
    show ?thesis
    proof (cases "input_read c got (bytes - got)")
      case None
      then show ?thesis using False 1(2) by (subst load_input.simps) (simp add: wp_return)
    next
      case (Some got_data)
      let ?chunk = "take (bytes - got) got_data"
      show ?thesis
      proof (cases "?chunk = []")
        case True
        then show ?thesis using False Some 1(2) by (subst load_input.simps) (simp add: wp_return)
      next
        case chunk: False
        let ?s = "s\<lparr>ram := store_bytes (base + got) ?chunk (ram s)\<rparr>"
        have "wp (load_input c base bytes (got + length ?chunk)) Q ?s"
        proof (rule 1(1)[OF False Some refl chunk])
          show "Q False t" for t by (rule 1(2))
        next
          fix data
          assume data: "length data = bytes - (got + length ?chunk)"
            "\<And>content. delivers c content \<Longrightarrow> got + length ?chunk \<le> length content \<Longrightarrow>
               data = take (bytes - (got + length ?chunk)) (drop (got + length ?chunk) content)"
          have "Q True (s\<lparr>ram := store_bytes (base + got) (?chunk @ data) (ram s)\<rparr>)"
          proof (rule 1(3))
            show "length (?chunk @ data) = bytes - got" using data(1) by simp
          next
            fix content
            assume content: "delivers c content" "got \<le> length content"
            define n where "n = length ?chunk"
            have "data = take (bytes - (got + n)) (drop (got + n) content)" if "got + n \<le> length content"
              using data(2)[OF content(1)] that by (simp add: n_def)
            then show "?chunk @ data = take (bytes - got) (drop got content)"
              by (rule delivered_chunk[OF content(1) Some content(2) n_def])
          qed
          then show "Q True (?s\<lparr>ram := store_bytes (base + (got + length ?chunk)) data (ram ?s)\<rparr>)"
            using store_bytes_append[of "base + got" ?chunk data "ram s"] by (simp add: add.assoc)
        qed
        then show ?thesis
          using False Some chunk by (subst load_input.simps) (simp add: store_ram_def wp_simps Let_def)
      qed
    qed
  qed
qed

text \<open>With a host that makes progress the loop succeeds exactly when the file is long enough.\<close>

lemma load_input_succeeds:
  assumes "delivers c content" "progresses c content" "bytes \<le> length content"
  shows "wp (load_input c base bytes got) (\<lambda>ok _. ok) s"
  using assms
proof (induction c base bytes got arbitrary: s rule: load_input.induct)
  case (1 c base bytes got)
  show ?case
  proof (cases "bytes \<le> got")
    case True
    then show ?thesis by (subst load_input.simps) (simp add: wp_return)
  next
    case False
    then obtain data where data: "input_read c got (bytes - got) = Some data" "data \<noteq> []"
      using 1(3,4) unfolding progresses_def by (meson diff_is_0_eq' less_le_trans not_le zero_less_diff)
    then have chunk: "take (bytes - got) data \<noteq> []" using False by simp
    show ?thesis
      using 1(1)[OF False data(1) refl chunk 1(2-4)] False data chunk
      by (subst load_input.simps) (simp add: store_ram_def wp_simps Let_def)
  qed
qed

section \<open>The firmware's answer\<close>

definition loader_regions :: "nat \<Rightarrow> (nat \<times> nat) list" where
  "loader_regions pages = [(0, RESPONSE_PAGE * 4096), (RESPONSE_PAGE * 4096 + 16, 4096 - 16),
     (HEADER_PAGE * 4096, (pages - HEADER_PAGE) * 4096)]"

definition loader_collect ::
  "vfio_env \<Rightarrow> nat \<Rightarrow> u32 \<Rightarrow> u32 \<Rightarrow> ('a command_session_scheme, unit) state" where
  "loader_collect e pages command_position response_position =
     do { load_response e 4;
          check_positions e command_position response_position;
          first \<leftarrow> load_word e (RESPONSE_PAGE * 4096);
          modify (\<lambda>s. s\<lparr>response_written := (first \<noteq> CANARY_WORD)\<rparr>);
          modify (\<lambda>s. s\<lparr>header_matches :=
            (response s ! 0 AND 0xffff0000 = LOADER_RESPONSE_CLASS)\<rparr>);
          check_memory e (loader_regions pages);
          stop \<leftarrow> interrupted e;
          when_m (\<lambda>s. \<not> stop \<and> connects_consumed s \<and> command_consumed s \<and> response_consumed s \<and>
              response_written s \<and> header_matches s \<and> ready_after s \<and> memory_bounded s)
            (modify (\<lambda>s. s\<lparr>exit_success := True\<rparr>)) }"

definition loader_reply :: "u32 list \<Rightarrow> bool" where
  "loader_reply ws \<longleftrightarrow> ws ! 0 AND 0xffff0000 = LOADER_RESPONSE_CLASS"

lemma loader_collect_wp:
  fixes s :: "'a command_session_scheme"
  assumes "\<not> exit_success s"
  shows "wp (loader_collect e pages cp rp) (\<lambda>_ t. startup t = startup s \<and> ram t = ram s \<and>
     heap_copy t = heap_copy s \<and> writes (log t) = writes (log s) \<and> extends (log s) t \<and>
     (exit_success t \<longrightarrow> answered e 4 loader_reply (loader_regions pages) cp rp (log t) (ram t) (heap_copy t))) s"
  unfolding loader_collect_def wp_bind load_response_def wp_modify
proof (rule check_positions_wp, unfold load_word_def wp_gets wp_modify wp_bind, rule check_memory_wp,
    unfold interrupted_def wp_gets wp_when_m, goal_cases)
  case (1 b d rs r qs)
  have first: "(map f [0..<4] @ xs) ! 0 = f 0" for f :: "nat \<Rightarrow> u32" and xs
    by (simp add: upt_rec)
  have ans: "answered e 4 loader_reply (loader_regions pages) cp rp (qs @ rs @ log s)
      (ram s) (heap_copy s)"
    if "b" "d" "r" "get32 (ram_view e (log s) (ram s)) (RESPONSE_PAGE * 4096) AND 0xffff0000 = LOADER_RESPONSE_CLASS"
      "same_bytes (loader_regions pages) (ram_view e (qs @ rs @ log s) (ram s)) (the (heap_copy s))"
      "\<not> ever (signalled e) (qs @ rs @ log s)"
    unfolding answered_def answered_seen_def
  proof (rule exI[of _ "qs @ rs"], rule exI[of _ "log s"], intro conjI)
    have "seen {(ring_reg 0 0 10, \<lambda>v. v = cp), (ring_reg 0 1 10, \<lambda>v. v = rp)} rs" "seen ready_seen qs"
      using 1 that by simp_all
    then show "seen ({(ring_reg 0 0 10, \<lambda>v. v = cp), (ring_reg 0 1 10, \<lambda>v. v = rp)} \<union> ready_seen) (qs @ rs)"
      unfolding seen_union by (intro conjI) (erule seen_mono, simp)+
    show "loader_reply (response_words e (log s) (ram s) 4)"
      using that(4) by (simp add: loader_reply_def response_words_def)
  qed (use 1 that in simp_all)
  show ?case
    using 1 assms ans by (auto simp: wp_simps extends_def first)
qed

section \<open>Connecting first\<close>

text \<open>
  What a phase that stores \<open>ws\<close> leaves: the memory and its copy, and with exit status 0 an answer
  \<open>A\<close>. A loader tool waits for the connect commands and then sends, or sends nothing.
\<close>

definition sent :: "(u32 \<times> u32) list \<Rightarrow> (history \<Rightarrow> (nat \<Rightarrow> u8) \<Rightarrow> (nat \<Rightarrow> u8) option \<Rightarrow> bool) \<Rightarrow>
    'a command_session_scheme \<Rightarrow> 'a command_session_scheme \<Rightarrow> bool" where
  "sent ws A s t \<longleftrightarrow> startup t = startup s \<and> ram t = ram s \<and> heap_copy t = heap_copy s \<and>
     extends (log s) t \<and> writes (log t) = writes (log s) @ ws \<and>
     (exit_success t \<longrightarrow> A (log t) (ram t) (heap_copy t))"

lemma connect_then_send:
  fixes s :: "'a command_session_scheme"
  assumes s: "\<not> connects_consumed s" "\<not> exit_success s"
    and send: "\<And>n xs. wp m (\<lambda>_. sent ws A (s\<lparr>log := xs @ log s, connects_consumed := True, polls := n\<rparr>))
      (s\<lparr>log := xs @ log s, connects_consumed := True, polls := n\<rparr>)"
  shows "wp (do { n \<leftarrow> await_connects e k; modify (\<lambda>s. s\<lparr>polls := n\<rparr>); go \<leftarrow> gets connects_consumed;
      if go then m else State_Monad.return () })
    (\<lambda>_ t. sent [] (\<lambda>_ _ _. False) s t \<or> sent ws A s t \<and> since (log s) connects_seen t) s"
  unfolding wp_bind[of "await_connects _ _"]
proof (rule await_connects_wp[OF s(1)])
  fix n b xs
  let ?u = "s\<lparr>log := xs @ log s, connects_consumed := b, polls := n\<rparr>"
  assume xs: "writes xs = []" "b \<Longrightarrow> seen connects_seen xs"
  have u: "startup ?u = startup s" "ram ?u = ram s" "heap_copy ?u = heap_copy s" "\<not> exit_success ?u"
    "writes (log ?u) = writes (log s)" "extends (log s) ?u"
    using s(2) xs(1) by (simp_all add: writes_append extends_def)
  have "wp (if b then m else State_Monad.return ())
    (\<lambda>_ t. sent [] (\<lambda>_ _ _. False) s t \<or> sent ws A s t \<and> since (log s) connects_seen t) ?u"
  proof (cases b)
    case False
    then show ?thesis using u by (simp add: wp_return sent_def)
  next
    case True
    have si: "since (log s) connects_seen ?u" using xs(2)[OF True] by (auto simp: since_def)
    have "wp m (\<lambda>_. sent ws A ?u) ?u" using send True by simp
    then have "wp m (\<lambda>_ t. sent [] (\<lambda>_ _ _. False) s t \<or> sent ws A s t \<and> since (log s) connects_seen t) ?u"
    proof (rule wp_mono)
      fix t
      assume t: "sent ws A ?u t"
      then have "extends (log ?u) t" by (simp add: sent_def)
      then have "extends (log s) t" "since (log s) connects_seen t"
        using u(6) si extends_trans since_mono by blast+
      then show "sent [] (\<lambda>_ _ _. False) s t \<or> sent ws A s t \<and> since (log s) connects_seen t"
        using t u(1-3,5) unfolding sent_def by auto
    qed
    then show ?thesis using True by simp
  qed
  then show "wp (do { modify (\<lambda>s. s\<lparr>polls := n\<rparr>); go \<leftarrow> gets connects_consumed;
      if go then m else State_Monad.return () })
    (\<lambda>_ t. sent [] (\<lambda>_ _ _. False) s t \<or> sent ws A s t \<and> since (log s) connects_seen t)
    (s\<lparr>log := xs @ log s, connects_consumed := b\<rparr>)"
    by (simp add: wp_bind wp_modify wp_gets)
qed

end
