(* ===== verification/Loader_Rejection.thy ===== *)
theory Loader_Rejection
  imports Loader_Answer
begin

text \<open>
  \<^verbatim>\<open>tools/vfio_loader_rejection.c\<close> (experiment 018): connect every DSP, then send a loader command
  with a payload of one word or a small file, in two chained buffers or in a single one, and
  check that the firmware answers in the loader's response class. A wrong command line jumps to the
  cleanup label, so it still prints the report.
\<close>

section \<open>State and program\<close>

record loader_session = command_session +
  single_buffer :: bool
  payload_path :: "string option"
  payload_size :: nat
  payload_mapped :: bool
  loader_command :: u32

definition lr_locals :: loader_session where
  "lr_locals = \<lparr>log = [], container_fd = -1, group_fd = -1, device_fd = -1,
     container_set = False, dma_mapped = False, memory_ok = False, bar_ok = False,
     ram = (\<lambda>_. 0), exit_success = False, stdout = [],
     file_fd = -1, heap_copy = None, startup = False, connects_consumed = False,
     command_consumed = False, response_consumed = False, response_written = False,
     header_matches = False, memory_bounded = False, ready_after = False, restored = False,
     reset_recovered = False, response = replicate 4 0, polls = 0,
     single_buffer = False, payload_path = None, payload_size = 4, payload_mapped = False,
     loader_command = 0\<rparr>"

definition lr_arguments :: "string list \<Rightarrow> (loader_session, bool) state" where
  "lr_arguments argv =
     (if 2 \<le> length argv \<and> argv ! 1 = ''--single-buffer'' then
        do { modify (\<lambda>s. s\<lparr>single_buffer := True\<rparr>);
             if length argv = 3 then
               do { modify (\<lambda>s. s\<lparr>payload_path := Some (argv ! 2)\<rparr>); State_Monad.return True }
             else State_Monad.return (\<not> 3 < length argv) }
      else if length argv = 2 then
        do { modify (\<lambda>s. s\<lparr>payload_path := Some (argv ! 1)\<rparr>); State_Monad.return True }
      else State_Monad.return (\<not> 2 < length argv))"

definition lr_open_payload :: "command_env \<Rightarrow> (loader_session, bool) state" where
  "lr_open_payload c =
     do { path \<leftarrow> gets payload_path;
          case path of
            None \<Rightarrow> State_Monad.return True
          | Some _ \<Rightarrow>
              and_m (open_input c)
             (and_m (check (\<not> input_size c < 4 \<and> \<not> 4096 < input_size c \<and> input_size c mod 4 = 0))
                    (do { modify (\<lambda>s. s\<lparr>payload_size := nat (input_size c)\<rparr>);
                          State_Monad.return True })) }"

definition loader_word :: "nat \<Rightarrow> u32" where
  "loader_word bytes = LOADER_COMMAND_BASE OR (of_nat bytes div 4 + 1)"

definition lr_fill :: "u32 \<Rightarrow> (nat \<Rightarrow> u8) \<Rightarrow> nat \<Rightarrow> u8" where
  "lr_fill command m =
     put32 (PAYLOAD_PAGE * 4096) 0
       (put32 (HEADER_PAGE * 4096) command
         (memset (RESPONSE_PAGE * 4096) CANARY_BYTE (3 * 4096) (memset 0 0 (64 * 4096) m)))"

definition lr_load :: "command_env \<Rightarrow> (loader_session, bool) state" where
  "lr_load c =
     do { fd \<leftarrow> gets file_fd;
          bytes \<leftarrow> gets payload_size;
          if fd < 0 then State_Monad.return True else load_input c (PAYLOAD_PAGE * 4096) bytes 0 }"

text \<open>\<^verbatim>\<open>memcpy\<close> within the locked memory, before the card can reach it.\<close>

definition copy_ram :: "nat \<Rightarrow> nat \<Rightarrow> nat \<Rightarrow> (nat \<Rightarrow> u8) \<Rightarrow> nat \<Rightarrow> u8" where
  "copy_ram to source bytes m =
     (\<lambda>i. if to \<le> i \<and> i < to + bytes then m (source + (i - to)) else m i)"

definition lr_join :: "(loader_session, bool) state" where
  "lr_join =
     do { single \<leftarrow> gets single_buffer;
          bytes \<leftarrow> gets payload_size;
          if single then
            (if 4096 - 8 < bytes then State_Monad.return False
             else do { store_ram (put32 (HEADER_PAGE * 4096 + 4) LOADER_RESPONSE_CLASS);
                       store_ram (copy_ram (HEADER_PAGE * 4096 + 8) (PAYLOAD_PAGE * 4096) bytes);
                       State_Monad.return True })
          else State_Monad.return True }"

definition lr_connect_entries :: "vfio_env \<Rightarrow> (loader_session, bool) state" where
  "lr_connect_entries e = all_m [0..<8] (\<lambda>dsp.
     and_m (all_m [0..<2] (\<lambda>ring. do {
              raw \<leftarrow> read32 e (ring_base dsp ring + 0x28);
              State_Monad.return ((if raw < 1024 then raw else 0) = 0) }))
           (do { store_ram (connect_entry dsp); check True }))"

definition loader_entries :: "bool \<Rightarrow> nat \<Rightarrow> (nat \<Rightarrow> u8) \<Rightarrow> nat \<Rightarrow> u8" where
  "loader_entries single bytes m =
     (let answer = set_descriptor (ring_entry 0 1 0) 4 (TEST_IOVA + of_nat RESPONSE_PAGE * 4096) m;
          header = set_descriptor (ring_entry 0 0 2) (if single then of_nat bytes div 4 + 2 else 1)
            (TEST_IOVA + of_nat HEADER_PAGE * 4096) answer in
      if single then header
      else set_descriptor (ring_entry 0 0 3) (of_nat bytes div 4)
        (TEST_IOVA + of_nat PAYLOAD_PAGE * 4096) header)"

definition lr_entries :: "command_env \<Rightarrow> (loader_session, unit) state" where
  "lr_entries c =
     do { now \<leftarrow> gets (\<lambda>s. wall_clock c (log s));
          store_ram (clock_entry now);
          single \<leftarrow> gets single_buffer;
          bytes \<leftarrow> gets payload_size;
          store_ram (loader_entries single bytes) }"

definition lr_buffers :: "command_env \<Rightarrow> (loader_session, bool) state" where
  "lr_buffers c =
     and_m (allocate_memory (host c))
    (and_m (do { command \<leftarrow> gets loader_command;
                 store_ram (lr_fill command);
                 modify (\<lambda>s. s\<lparr>payload_mapped := True\<rparr>);
                 check True })
    (and_m (lr_load c)
    (and_m (do { close_input; check True })
           lr_join)))"

definition lr_prepare :: "command_env \<Rightarrow> string list \<Rightarrow> (loader_session, bool) state" where
  "lr_prepare c argv =
     and_m (lr_arguments argv)
    (and_m (lr_open_payload c)
    (and_m (do { modify (\<lambda>s. s\<lparr>loader_command := loader_word (payload_size s)\<rparr>);
                 check (sys_page_size (host c) = 4096) })
    (and_m (attach_host (host c))
    (and_m (lr_buffers c)
    (and_m (map_card (host c))
    (and_m (cold_card (host c))
    (and_m (lr_connect_entries (host c))
    (and_m (do { lr_entries c; check True })
           (take_snapshot c)))))))))"

definition lr_send :: "vfio_env \<Rightarrow> u32 \<Rightarrow> (loader_session, unit) state" where
  "lr_send e interrupt_shadow =
     do { single \<leftarrow> gets single_buffer;
          let response_position = 1;
          let command_position = (if single then 3 else 4);
          submit response_position command_position (\<lambda>v. v) (\<lambda>v. v) interrupt_shadow;
          await_answer e 3000 command_position response_position;
          loader_collect e 67 command_position response_position }"

definition lr_run :: "vfio_env \<Rightarrow> (loader_session, unit) state" where
  "lr_run e =
     do { start_rings (\<lambda>_ _. 0);
          interrupt_shadow \<leftarrow> connect_dsps CALLBACK_SHADOW;
          write32 INTERRUPT_ENABLE interrupt_shadow;
          n \<leftarrow> await_connects e 3000;
          modify (\<lambda>s. s\<lparr>polls := n\<rparr>);
          go \<leftarrow> gets connects_consumed;
          if go then lr_send e interrupt_shadow else State_Monad.return () }"

definition lr_report_lines :: "vfio_env \<Rightarrow> loader_session \<Rightarrow> string list" where
  "lr_report_lines e s =
     [''{'',
      ''  \"experiment\": \"018-loader-response-probe\",'',
      ''  \"framing\": \"'' @ (if single_buffer s then ''alternate-single-buffer-with-response-class''
         else ''official-chained-send-block'') @ ''\",'',
      json_number ''payload_bytes'' (payload_size s),
      json_word ''payload_first_word''
        (if payload_mapped s then get32 (ram_view e (log s) (ram s)) (PAYLOAD_PAGE * 4096) else 0),
      json_word ''loader_command'' (loader_command s),
      json_word ''expected_response_class'' LOADER_RESPONSE_CLASS,
      json_flag ''connect_commands_consumed'' (connects_consumed s),
      json_flag ''loader_descriptors_consumed'' (command_consumed s),
      json_flag ''response_descriptor_consumed'' (response_consumed s),
      json_flag ''response_written'' (response_written s),
      json_words ''response_words'' (response s),
      json_flag ''response_class_matches'' (header_matches s),
      json_flag ''writes_confined_to_response_prefix'' (memory_bounded s),
      json_flag ''all_dsps_ready_after_probe'' (ready_after s),
      json_flag ''explicit_restore_succeeded'' (restored s),
      json_flag ''vfio_reset_recovered'' (reset_recovered s),
      json_number ''polls_ms'' (min (polls s) 3000),
      json_last ''success'' (exit_success s),
      ''}'']"

definition lr_bytes :: nat where "lr_bytes = 67 * 4096"

definition lr_close :: "vfio_env \<Rightarrow> (loader_session, unit) state" where
  "lr_close e =
     do { report_lines (lr_report_lines e);
          close_card (unmap_ok e lr_bytes);
          close_host;
          close_input }"

definition lr_main :: "command_env \<Rightarrow> string list \<Rightarrow> (loader_session, bool) state" where
  "lr_main c argv =
     do { ok \<leftarrow> lr_prepare c argv;
          (if ok then lr_run (host c) else State_Monad.return ());
          cmd_cleanup (host c);
          lr_close (host c);
          gets exit_success }"

end
