(* ===== verification/Loader_Rejection_Results.thy ===== *)
theory Loader_Rejection_Results
  imports Loader_Rejection
begin

text \<open>
  \<^verbatim>\<open>tools/vfio_loader_rejection.c\<close> meets the contract of a command tool. What it offers to the card
  is stated byte by byte: the connect and clock entries, one response descriptor, and the payload
  framed in two chained buffers or in one.
\<close>

section \<open>What a run stores and what it offers\<close>

definition lr_stores :: "bool \<Rightarrow> (u32 \<times> u32) list" where
  "lr_stores single = startup_stores (\<lambda>_ _. 0) @ connect_stores @ [(INTERRUPT_ENABLE, 0xdddddddd)] @
     submit_stores 1 (if single then 3 else 4) 0xdddddddf 0xdddddddf"

definition lr_shape :: "bool \<Rightarrow> (u32 \<times> u32) list \<Rightarrow> bool" where
  "lr_shape single ws \<longleftrightarrow> ws = lr_stores single \<or>
     ws = startup_stores (\<lambda>_ _. 0) @ connect_stores @ [(INTERRUPT_ENABLE, 0xdddddddd)]"

text \<open>The buffers for a payload, and the whole memory with the ring entries.\<close>

definition lr_image :: "bool \<Rightarrow> u8 list \<Rightarrow> nat \<Rightarrow> u8" where
  "lr_image single data =
     (let m = store_bytes (PAYLOAD_PAGE * 4096) data (lr_fill (loader_word (length data)) (\<lambda>_. 0)) in
      if single then store_bytes (HEADER_PAGE * 4096 + 8) data (put32 (HEADER_PAGE * 4096 + 4) LOADER_RESPONSE_CLASS m)
      else m)"

definition lr_memory :: "bool \<Rightarrow> u8 list \<Rightarrow> u64 \<Rightarrow> nat \<Rightarrow> u8" where
  "lr_memory single data now = loader_entries single (length data)
     (clock_entry now (fold connect_entry [0..<8] (lr_image single data)))"

definition lr_payload :: "bool \<Rightarrow> nat \<Rightarrow> bool" where
  "lr_payload single n \<longleftrightarrow> 4 \<le> n \<and> n \<le> (if single then 4088 else 4096) \<and> n mod 4 = 0"

definition lr_single :: "string list \<Rightarrow> bool" where
  "lr_single argv \<longleftrightarrow> 2 \<le> length argv \<and> argv ! 1 = ''--single-buffer''"

definition lr_work :: "vfio_env \<Rightarrow> bool \<Rightarrow> history \<Rightarrow> history \<Rightarrow> (nat \<Rightarrow> u8) \<Rightarrow> (nat \<Rightarrow> u8) option \<Rightarrow> bool" where
  "lr_work e single k h m copy \<longleftrightarrow> seen cold_gate_seen k \<and> copied e k m copy \<and>
     (\<exists>data now. lr_payload single (length data) \<and> m = lr_memory single data now) \<and>
     writes h = lr_stores single \<and>
     answered e 4 loader_reply (loader_regions 67) (if single then 3 else 4) 1 h m copy \<and>
     (\<exists>evs. h = evs @ k \<and> seen connects_seen evs)"

definition lr_prepared :: "vfio_env \<Rightarrow> bool \<Rightarrow> loader_session \<Rightarrow> bool" where
  "lr_prepared e single s \<longleftrightarrow> single_buffer s = single \<and> \<not> connects_consumed s \<and>
     seen cold_gate_seen (log s) \<and> copied e (log s) (ram s) (heap_copy s) \<and>
     (\<exists>data now. lr_payload single (length data) \<and> ram s = lr_memory single data now)"

section \<open>Preparation: what is held\<close>

lemma lr_local_updates:
  "local_step (modify (\<lambda>s :: loader_session. s\<lparr>single_buffer := b\<rparr>))"
  "local_step (modify (\<lambda>s :: loader_session. s\<lparr>payload_path := p\<rparr>))"
  "local_step (modify (\<lambda>s :: loader_session. s\<lparr>payload_size := n\<rparr>))"
  "local_step (modify (\<lambda>s :: loader_session. s\<lparr>payload_mapped := b\<rparr>))"
  "local_step (modify (\<lambda>s :: loader_session. s\<lparr>loader_command := f s\<rparr>))"
  by (simp_all add: local_step_def wp_modify same_holdings_def same_handles_def)

lemma lr_ring_entries: "BarMap \<in> A \<Longrightarrow> prepares A (lr_connect_entries e) A"
proof -
  assume A: "BarMap \<in> A"
  have ring: "prepares A (do {
      raw \<leftarrow> read32 e (ring_base d r + 0x28);
      State_Monad.return ((if raw < 1024 then raw else 0) = 0) }) A" if "d < 8" "r < 2" for d r
    by (rule prepares_read[OF ring_base_in_bar(3)[OF that] A prepares_local[OF local_steps(1)]])
  show ?thesis
    unfolding lr_connect_entries_def
    by (intro prepares_all_m prepares_and_m[of _ _ A] prepares_locally local_steps(2) ring) simp_all
qed

lemma lr_prepares_rest:
  assumes "A = {} \<or> A = {InputFile}"
  shows "prepares A (and_m (do { modify (\<lambda>s. s\<lparr>loader_command := loader_word (payload_size s)\<rparr>);
                 check (sys_page_size (host c) = 4096) })
    (and_m (attach_host (host c))
    (and_m (lr_buffers c)
    (and_m (map_card (host c))
    (and_m (cold_card (host c))
    (and_m (lr_connect_entries (host c))
    (and_m (do { lr_entries c; check True })
           (take_snapshot c)))))))) armed_set"
proof -
  let ?host = "\<lambda>A. insert VfioAttached (insert VfioGroup (insert VfioContainer A))"
  let ?mem = "insert VfioMemory (?host {})"
  let ?card = "insert BarMap (insert VfioDevice (insert VfioMapping ?mem))"
  have first: "prepares A (do { modify (\<lambda>s :: loader_session. s\<lparr>loader_command := loader_word (payload_size s)\<rparr>);
                 check (sys_page_size (host c) = 4096) }) A"
    by (intro prepares_local local_intros lr_local_updates)
  have host: "prepares A (attach_host (host c)) (?host A)"
    by (rule prepares_host) (use assms in auto)
  have load: "prepares B (lr_load c) B" and join: "prepares B lr_join B" for B
    unfolding lr_load_def lr_join_def
    by (intro prepares_local local_intros local_load)+
  have fill: "prepares B (do { command \<leftarrow> gets loader_command;
      store_ram (lr_fill command);
      modify (\<lambda>s :: loader_session. s\<lparr>payload_mapped := True\<rparr>);
      check True }) B" for B
    by (intro prepares_local local_intros lr_local_updates)
  have new: "VfioMemory \<notin> ?host A" using assms by auto
  have "insert VfioMemory (?host A) - {InputFile} = ?mem" using assms by auto
  then have buffers: "prepares (?host A) (lr_buffers c) ?mem"
    unfolding lr_buffers_def
    using prepares_and_m[OF prepares_steps(4)[OF new] prepares_and_m[OF fill prepares_and_m[OF load
      prepares_and_m[OF prepares_close_input join]]]] by simp
  have card: "prepares ?mem (map_card (host c)) ?card"
    by (rule prepares_card) simp_all
  have entries: "prepares ?card (do { lr_entries c; check True }) ?card"
    unfolding lr_entries_def by (intro prepares_locally local_intros)
  have "insert Snapshot ?card = armed_set" unfolding armed_set_def whole_def by blast
  moreover have "Snapshot \<notin> ?card" "BarMap \<in> ?card" by simp_all
  note last = prepares_and_m[OF prepares_cold[OF this(2)] prepares_and_m[OF lr_ring_entries[OF this(2)]
      prepares_and_m[OF entries prepares_snapshot[OF this(1)]]]]
  ultimately show ?thesis
    using prepares_and_m[OF first prepares_and_m[OF host prepares_and_m[OF buffers prepares_and_m[OF card last]]]]
    by simp
qed

lemma and_m_gets: "and_m (do { x \<leftarrow> gets g; f x }) m = do { x \<leftarrow> gets g; and_m (f x) m }"
  by (simp add: and_m_def)

lemma prepares_gets: "(\<And>x. prepares A (f x) B) \<Longrightarrow> prepares A (do { x \<leftarrow> gets g; f x }) B"
  by (simp add: prepares_def wp_bind wp_gets)

lemma lr_prepares: "prepares {} (lr_prepare c argv) armed_set"
proof -
  have args: "prepares {} (lr_arguments argv) {}"
    unfolding lr_arguments_def by (intro prepares_local local_intros lr_local_updates)
  have whole_file: "prepares {} (and_m (open_input c)
             (and_m (check (\<not> input_size c < 4 \<and> \<not> 4096 < input_size c \<and> input_size c mod 4 = 0))
                    (do { modify (\<lambda>s :: loader_session. s\<lparr>payload_size := nat (input_size c)\<rparr>);
                          State_Monad.return True }))) {InputFile}"
    by (rule prepares_and_m[OF prepares_open_input prepares_and_m[OF prepares_checks(2)]])
      (simp, intro prepares_local local_intros lr_local_updates)
  show ?thesis
    unfolding lr_prepare_def lr_open_payload_def and_m_gets
    apply (rule prepares_and_m[OF args prepares_gets])
    subgoal for path
      by (cases path)
        (simp_all add: prepares_and_m[OF whole_file lr_prepares_rest] prepares_and_m[OF prepares_local[OF local_steps(1)] lr_prepares_rest])
    done
qed

section \<open>Preparation: what the memory holds\<close>

definition lr_stage :: "bool \<Rightarrow> nat \<Rightarrow> (nat \<Rightarrow> u8) \<Rightarrow> loader_session \<Rightarrow> bool" where
  "lr_stage single n m s \<longleftrightarrow> single_buffer s = single \<and> payload_size s = n \<and>
     \<not> connects_consumed s \<and> ram s = m"

lemma lr_stage_updates [simp]:
  "lr_stage single n m (s\<lparr>log := h\<rparr>) = lr_stage single n m s"
  "lr_stage single n m (s\<lparr>loader_command := w\<rparr>) = lr_stage single n m s"
  "lr_stage single n m (s\<lparr>heap_copy := copy\<rparr>) = lr_stage single n m s"
  by (simp_all add: lr_stage_def)

lemma lr_arguments_wp:
  "wp (lr_arguments argv) (\<lambda>ok t. ok \<longrightarrow> lr_stage (lr_single argv) 4 (\<lambda>_. 0) t \<and> file_fd t < 0) lr_locals"
  by (simp add: lr_arguments_def lr_single_def lr_locals_def lr_stage_def wp_simps)

definition lr_sized :: "bool \<Rightarrow> nat \<Rightarrow> (nat \<Rightarrow> u8) \<Rightarrow> loader_session \<Rightarrow> bool" where
  "lr_sized single n m s \<longleftrightarrow> lr_stage single n m s \<and> 4 \<le> n \<and> n \<le> 4096 \<and> n mod 4 = 0 \<and>
     (file_fd s < 0 \<longrightarrow> n = 4)"

lemma four_dvd_nat: "4 dvd x \<Longrightarrow> 4 dvd nat x"
  using int_dvd_int_iff[of 4 "nat x"] by (cases "0 \<le> x") auto

lemma lr_open_payload_wp:
  assumes "lr_stage single 4 m s \<and> file_fd s < 0"
  shows "wp (lr_open_payload c) (\<lambda>ok t. ok \<longrightarrow> (\<exists>n. lr_sized single n m t)) s"
  using assms
  by (auto simp: lr_open_payload_def open_input_def check_def wp_simps lr_sized_def lr_stage_def
      four_dvd_nat le_nat_iff nat_le_iff simp flip: dvd_eq_mod_eq_0 split: option.splits)

lemma lr_host_steps:
  "preserves (\<lambda>t. lr_sized single n m t \<and> loader_command t = w) (attach_host e)"
  "preserves (lr_stage single n m) (map_card e)"
  unfolding attach_host_def map_card_def open_container_def open_group_def attach_group_def
    configure_iommu_def map_iova_def open_device_def map_bar_def check_def
  by (intro preserves_intros preserves_modify; simp add: preserves_def wp_simps lr_sized_def lr_stage_def)+

lemma image_no_file:
  "store_bytes (PAYLOAD_PAGE * 4096) (replicate 4 0) (lr_fill w m) = lr_fill w m"
  by (auto simp: store_bytes_def lr_fill_def put32_def fun_eq_iff)

lemma image_joined:
  assumes "length data = n" "n \<le> 4088"
  shows "copy_ram (HEADER_PAGE * 4096 + 8) (PAYLOAD_PAGE * 4096) n
      (put32 (HEADER_PAGE * 4096 + 4) w (store_bytes (PAYLOAD_PAGE * 4096) data m)) =
    store_bytes (HEADER_PAGE * 4096 + 8) data
      (put32 (HEADER_PAGE * 4096 + 4) w (store_bytes (PAYLOAD_PAGE * 4096) data m))"
  using assms by (auto simp: copy_ram_def store_bytes_def put32_def fun_eq_iff)

lemma lr_buffers_wp:
  assumes s: "lr_sized single n (\<lambda>_. 0) s \<and> loader_command s = loader_word n"
  shows "wp (lr_buffers c) (\<lambda>ok t. ok \<longrightarrow> (\<exists>data. length data = n \<and> lr_payload single n \<and>
     lr_stage single n (lr_image single data) t)) s"
proof -
  let ?m = "\<lambda>data. store_bytes (PAYLOAD_PAGE * 4096) data (lr_fill (loader_word n) (\<lambda>_. 0))"
  have a: "wp (allocate_memory (host c)) (\<lambda>ok t. ok \<longrightarrow> lr_sized single n (\<lambda>_. 0) t \<and> loader_command t = loader_word n) s"
    using s by (simp add: allocate_memory_def wp_simps lr_sized_def lr_stage_def)
  have f: "wp (do { command \<leftarrow> gets loader_command; store_ram (lr_fill command);
      modify (\<lambda>s. s\<lparr>payload_mapped := True\<rparr>); check True })
      (\<lambda>ok t. ok \<longrightarrow> lr_sized single n (lr_fill (loader_word n) (\<lambda>_. 0)) t) t"
    if "lr_sized single n (\<lambda>_. 0) t \<and> loader_command t = loader_word n" for t :: loader_session
    using that by (simp add: check_def store_ram_def wp_simps lr_sized_def lr_stage_def)
  have l: "wp (lr_load c) (\<lambda>ok t. ok \<longrightarrow> (\<exists>data. length data = n \<and> lr_sized single n (?m data) t)) t"
    if t: "lr_sized single n (lr_fill (loader_word n) (\<lambda>_. 0)) t" for t
  proof (cases "file_fd t < 0")
    case True
    then have "n = 4" using t by (simp add: lr_sized_def)
    then show ?thesis
      using t True image_no_file[of "loader_word n" "\<lambda>_. 0"]
      by (auto simp: lr_load_def wp_simps intro!: exI[of _ "replicate 4 0"])
  next
    case False
    have "wp (load_input c (PAYLOAD_PAGE * 4096) n 0)
        (\<lambda>ok t. ok \<longrightarrow> (\<exists>data. length data = n \<and> lr_sized single n (?m data) t)) t"
      by (rule load_input_wp) (use t in \<open>auto simp: lr_sized_def lr_stage_def\<close>)
    then show ?thesis using False t by (simp add: lr_load_def wp_simps lr_sized_def lr_stage_def)
  qed
  have c: "wp (do { close_input; check True }) (\<lambda>ok t. ok \<longrightarrow>
      (\<exists>data. length data = n \<and> 4 \<le> n \<and> n \<le> 4096 \<and> n mod 4 = 0 \<and> lr_stage single n (?m data) t)) t"
    if "\<exists>data. length data = n \<and> lr_sized single n (?m data) t" for t
    using that by (auto simp: close_input_def check_def wp_simps lr_sized_def lr_stage_def)
  have j: "wp lr_join (\<lambda>ok t. ok \<longrightarrow> (\<exists>data. length data = n \<and> lr_payload single n \<and>
     lr_stage single n (lr_image single data) t)) t"
    if t: "length data = n" "4 \<le> n" "n \<le> 4096" "n mod 4 = 0" "lr_stage single n (?m data) t" for t data
  proof -
    show ?thesis
    proof (cases "single \<and> n \<le> 4088")
      case True
      then show ?thesis
        using t image_joined[of data n LOADER_RESPONSE_CLASS "lr_fill (loader_word n) (\<lambda>_. 0)"]
        by (auto simp: lr_join_def store_ram_def wp_simps lr_stage_def lr_image_def lr_payload_def Let_def
            intro!: exI[of _ data])
    next
      case False
      then show ?thesis
        using t by (auto simp: lr_join_def wp_simps lr_stage_def lr_image_def lr_payload_def
            intro!: exI[of _ data])
    qed
  qed
  have "wp lr_join (\<lambda>ok t. ok \<longrightarrow> (\<exists>data. length data = n \<and> lr_payload single n \<and>
     lr_stage single n (lr_image single data) t)) t"
    if "\<exists>data. length data = n \<and> 4 \<le> n \<and> n \<le> 4096 \<and> n mod 4 = 0 \<and> lr_stage single n (?m data) t" for t
    using that by (elim exE conjE) (rule j)
  then show ?thesis unfolding lr_buffers_def
    by (intro wp_and_then[OF a wp_and_then[OF f wp_and_then[OF l wp_and_then[OF c]]]])
qed

text \<open>From the buffers to a session ready to run.\<close>

definition lr_gated :: "bool \<Rightarrow> nat \<Rightarrow> (nat \<Rightarrow> u8) \<Rightarrow> loader_session \<Rightarrow> bool" where
  "lr_gated single n m s \<longleftrightarrow> lr_stage single n m s \<and> seen cold_gate_seen (log s)"

lemma lr_gated_read: "lr_gated single n m s \<Longrightarrow> lr_gated single n m (s\<lparr>log := Rd a v # log s\<rparr>)"
  by (auto simp: lr_gated_def intro: seen_mono)

lemma lr_cold_wp:
  assumes "lr_stage single n m s"
  shows "wp (cold_card e) (\<lambda>ok t. ok \<longrightarrow> lr_gated single n m t) s"
  by (rule read_only_wp[OF cold_card_checks]) (use assms in \<open>auto simp: lr_gated_def intro: seen_mono\<close>)

lemma lr_connect_entries_wp:
  assumes "lr_gated single n m s"
  shows "wp (lr_connect_entries e) (\<lambda>ok t. ok \<longrightarrow> lr_gated single n (fold connect_entry [0..<8] m) t) s"
proof -
  let ?I = "\<lambda>k. lr_gated single n (fold connect_entry [0..<k] m)"
  have rings: "preserves (?I k) (all_m [0..<2] (\<lambda>ring. do {
      raw \<leftarrow> read32 e (ring_base d ring + 0x28);
      State_Monad.return ((if raw < 1024 then raw else 0) = 0) }))" for k d
    unfolding read32_def by (intro preserves_intros) (simp add: preserves_def wp_simps lr_gated_read)
  have step: "wp (and_m (all_m [0..<2] (\<lambda>ring. do {
              raw \<leftarrow> read32 e (ring_base d ring + 0x28);
              State_Monad.return ((if raw < 1024 then raw else 0) = 0) }))
           (do { store_ram (connect_entry d); check True }))
      (\<lambda>ok t. ok \<longrightarrow> ?I (Suc d) t) t" if "?I d t" for d t
    by (rule wp_and_then[where R = "?I d"], rule wp_mono[OF preservesD[OF rings that]], simp)
      (simp add: check_def store_ram_def wp_simps lr_gated_def lr_stage_def)
  have "wp (lr_connect_entries e) (\<lambda>ok t. if ok then ?I 8 t else True) s"
    unfolding lr_connect_entries_def
  proof (rule wp_all_upt[where I = ?I])
    show "?I 0 s" using assms by simp
    fix d t
    assume "?I d t"
    then show "wp (and_m (all_m [0..<2] (\<lambda>ring. do {
              raw \<leftarrow> read32 e (ring_base d ring + 0x28);
              State_Monad.return ((if raw < 1024 then raw else 0) = 0) }))
           (do { store_ram (connect_entry d); check True }))
      (\<lambda>b u. if b then ?I (Suc d) u else if False then ?I 8 u else True) t"
      by (rule wp_mono[OF step]) simp
  qed simp
  then show ?thesis by (rule wp_mono) (simp split: if_splits)
qed

lemma lr_entries_wp:
  assumes "lr_gated single (length data) (fold connect_entry [0..<8] (lr_image single data)) s"
  shows "wp (do { lr_entries c; check True }) (\<lambda>ok t. ok \<longrightarrow>
     lr_gated single (length data) (lr_memory single data (wall_clock c (log s))) t) s"
  using assms
  by (simp add: lr_entries_def check_def store_ram_def wp_simps lr_gated_def lr_stage_def lr_memory_def)

lemma lr_prepare_wp: "wp (lr_prepare c argv) (\<lambda>ok t. ok \<longrightarrow> lr_prepared (host c) (lr_single argv) t) lr_locals"
proof -
  let ?single = "lr_single argv"
  have p: "wp (lr_open_payload c) (\<lambda>ok t. ok \<longrightarrow> (\<exists>n. lr_sized ?single n (\<lambda>_. 0) t)) t"
    if "lr_stage ?single 4 (\<lambda>_. 0) t \<and> file_fd t < 0" for t
    by (rule lr_open_payload_wp[OF that])
  have w: "wp (do { modify (\<lambda>s. s\<lparr>loader_command := loader_word (payload_size s)\<rparr>);
                 check (sys_page_size (host c) = 4096) })
      (\<lambda>ok t. ok \<longrightarrow> (\<exists>n. lr_sized ?single n (\<lambda>_. 0) t \<and> loader_command t = loader_word n)) t"
    if "\<exists>n. lr_sized ?single n (\<lambda>_. 0) t" for t
    using that by (auto simp: check_def wp_simps lr_sized_def lr_stage_def)
  have h: "wp (attach_host (host c))
      (\<lambda>ok t. ok \<longrightarrow> (\<exists>n. lr_sized ?single n (\<lambda>_. 0) t \<and> loader_command t = loader_word n)) t"
    if "\<exists>n. lr_sized ?single n (\<lambda>_. 0) t \<and> loader_command t = loader_word n" for t
    using that by (elim exE) (rule wp_mono[OF preservesD[OF lr_host_steps(1)]], assumption, blast)
  let ?ready = "\<lambda>data. lr_payload ?single (length data)"
  have b: "wp (lr_buffers c) (\<lambda>ok t. ok \<longrightarrow> (\<exists>data. ?ready data \<and> lr_stage ?single (length data) (lr_image ?single data) t)) t"
    if "\<exists>n. lr_sized ?single n (\<lambda>_. 0) t \<and> loader_command t = loader_word n" for t
    using that by (elim exE) (rule wp_mono[OF lr_buffers_wp], assumption, blast)
  have m: "wp (map_card (host c)) (\<lambda>ok t. ok \<longrightarrow> (\<exists>data. ?ready data \<and> lr_stage ?single (length data) (lr_image ?single data) t)) t"
    if "\<exists>data. ?ready data \<and> lr_stage ?single (length data) (lr_image ?single data) t" for t
    using that by (elim exE conjE) (rule wp_mono[OF preservesD[OF lr_host_steps(2)]], assumption, blast)
  have g: "wp (cold_card (host c)) (\<lambda>ok t. ok \<longrightarrow> (\<exists>data. ?ready data \<and> lr_gated ?single (length data) (lr_image ?single data) t)) t"
    if "\<exists>data. ?ready data \<and> lr_stage ?single (length data) (lr_image ?single data) t" for t
    using that by (elim exE conjE) (rule wp_mono[OF lr_cold_wp], assumption, blast)
  have e: "wp (lr_connect_entries (host c)) (\<lambda>ok t. ok \<longrightarrow> (\<exists>data. ?ready data \<and>
      lr_gated ?single (length data) (fold connect_entry [0..<8] (lr_image ?single data)) t)) t"
    if "\<exists>data. ?ready data \<and> lr_gated ?single (length data) (lr_image ?single data) t" for t
    using that by (elim exE conjE) (rule wp_mono[OF lr_connect_entries_wp], assumption, blast)
  have l: "wp (do { lr_entries c; check True }) (\<lambda>ok t. ok \<longrightarrow> (\<exists>data now. ?ready data \<and>
      lr_gated ?single (length data) (lr_memory ?single data now) t)) t"
    if "\<exists>data. ?ready data \<and> lr_gated ?single (length data) (fold connect_entry [0..<8] (lr_image ?single data)) t" for t
    using that by (elim exE conjE) (rule wp_mono[OF lr_entries_wp], assumption, blast)
  have s: "wp (take_snapshot c) (\<lambda>ok t. ok \<longrightarrow> lr_prepared (host c) ?single t) t"
    if "\<exists>data now. ?ready data \<and> lr_gated ?single (length data) (lr_memory ?single data now) t" for t
    using that unfolding lr_prepared_def take_snapshot_def copied_def
    by (auto simp: wp_simps lr_gated_def lr_stage_def intro: seen_mono)
  show ?thesis unfolding lr_prepare_def
    by (intro wp_and_then[OF lr_arguments_wp wp_and_then[OF p wp_and_then[OF w wp_and_then[OF h wp_and_then[OF b
      wp_and_then[OF m wp_and_then[OF g wp_and_then[OF e wp_and_then[OF l s]]]]]]]]])
qed

section \<open>The run\<close>

lemma lr_run_armed: "preserves armed (lr_run e)"
  unfolding lr_run_def lr_send_def loader_collect_def load_word_def when_m_def Let_def
  by (intro preserves_intros armed_intros) simp_all

lemma lr_send_wp:
  assumes "\<not> exit_success s" "single_buffer s = single"
  shows "wp (lr_send e sh) (\<lambda>_. sent (submit_stores 1 (if single then 3 else 4) (sh OR 2) (sh OR 2 OR 1))
     (answered e 4 loader_reply (loader_regions 67) (if single then 3 else 4) 1) s) s"
  unfolding sent_def lr_send_def Let_def wp_bind wp_gets submit_wp assms(2)
proof (rule await_answer_wp, goal_cases)
  case (1 n xs)
  let ?ws = "submit_stores 1 (if single then 3 else 4) (sh OR 2) (sh OR 2 OR 1)"
  let ?t = "after ?ws s\<lparr>log := xs @ log (after ?ws s), polls := n\<rparr>"
  have f: "\<not> exit_success ?t" using assms(1) by (simp add: after_def)
  have same: "startup ?t = startup s" "ram ?t = ram s" "heap_copy ?t = heap_copy s"
    "writes (log ?t) = writes (log s) @ ?ws" "extends (log s) ?t"
    using 1 by (simp_all add: after_def writes_append writes_rev_stores extends_def)
  show ?case
    by (rule wp_mono[OF loader_collect_wp[OF f]], unfold same) (use same(5) extends_trans in blast)
qed

lemma lr_run_spec:
  assumes p: "lr_prepared e single s" and s: "\<not> exit_success s" "writes (log s) = []"
  shows "wp (lr_run e) (\<lambda>_ t. startup t \<and> lr_shape single (writes (log t)) \<and>
     (exit_success t \<longrightarrow> lr_work e single (log s) (log t) (ram t) (heap_copy t))) s"
proof -
  let ?first = "startup_stores (\<lambda>_ _. 0) @ connect_stores @ [(INTERRUPT_ENABLE, 0xdddddddd)]"
  let ?start = "after ?first (s\<lparr>startup := True\<rparr>)"
  have start: "\<not> connects_consumed ?start" "\<not> exit_success ?start" "startup ?start" "ram ?start = ram s"
      "heap_copy ?start = heap_copy s" "writes (log ?start) = ?first" "extends (log s) ?start"
    using p s by (simp_all add: lr_prepared_def after_def writes_append extends_def)
  let ?ws = "submit_stores 1 (if single then 3 else 4) (0xdddddddd OR 2) (0xdddddddd OR 2 OR 1)"
  let ?A = "answered e 4 loader_reply (loader_regions 67) (if single then 3 else 4) 1"
  have send: "wp (lr_send e 0xdddddddd)
      (\<lambda>_. sent ?ws ?A (?start\<lparr>log := xs @ log ?start, connects_consumed := True, polls := n\<rparr>))
      (?start\<lparr>log := xs @ log ?start, connects_consumed := True, polls := n\<rparr>)" for n xs
    by (rule lr_send_wp) (use p s in \<open>simp_all add: lr_prepared_def after_def\<close>)
  have "lr_shape single (writes (log t)) \<and> startup t \<and>
      (exit_success t \<longrightarrow> lr_work e single (log s) (log t) (ram t) (heap_copy t))"
    if "sent [] (\<lambda>_ _ _. False) ?start t \<or> sent ?ws ?A ?start t \<and> since (log ?start) connects_seen t" for t
  proof -
    have ready: "lr_work e single (log s) (log t) (ram t) (heap_copy t)"
      if "?A (log t) (ram t) (heap_copy t)" "ram t = ram s" "heap_copy t = heap_copy s"
        "writes (log t) = ?first @ ?ws" "since (log s) connects_seen t"
      using p that unfolding lr_work_def lr_prepared_def since_def lr_stores_def by simp
    have "since (log s) connects_seen t" if "since (log ?start) connects_seen t"
      using that start(7) since_later by blast
    with that show ?thesis
      using start(3-6) ready unfolding sent_def lr_shape_def lr_stores_def by auto
  qed
  then show ?thesis
    unfolding lr_run_def wp_bind[of "start_rings _"] wp_bind[of "connect_dsps _"] wp_bind[of "write32 _ _"]
      start_rings_wp connect_wp wp_write32 after_after append_assoc
    by (intro wp_mono[OF connect_then_send[OF start(1,2) send]]) blast
qed

section \<open>The contract, and the whole program\<close>

lemma lr_fresh: "fresh_command 4 lr_locals"
  by (simp add: lr_locals_def fresh_command_def fresh_session_def)

lemma lr_close_ends:
  assumes "tool_ok s" "\<not> engines_on (log s)"
  shows "wp (lr_close e) (\<lambda>_. ends (unmap_ok e lr_bytes) s) s"
proof -
  have "wp (do { report_lines (lr_report_lines e); close_card (unmap_ok e lr_bytes); close_host })
      (\<lambda>_ t. wp close_input (\<lambda>_. ends (unmap_ok e lr_bytes) s) t) s"
    by (rule wp_mono[OF report_first_wp[OF assms]], erule close_input_ends) simp
  then show ?thesis by (simp add: lr_close_def wp_bind)
qed

interpretation lr_tool: command_tool "host c" "lr_prepare c argv" "lr_run (host c)" "lr_close (host c)"
    lr_locals 4 "unmap_ok (host c) lr_bytes" UNIV
    "lr_prepared (host c) (lr_single argv)" "lr_shape (lr_single argv)"
    "lr_work (host c) (lr_single argv)" for c argv
proof unfold_locales
  show "wp (lr_prepare c argv) (\<lambda>ok t. holding t \<subseteq> UNIV \<and>
      (ok \<longrightarrow> lr_prepared (host c) (lr_single argv) t)) lr_locals"
    using lr_prepare_wp[of c argv] by simp
qed (rule lr_fresh lr_prepares lr_run_armed lr_run_spec lr_close_ends; assumption)+

definition lr_final :: "command_env \<Rightarrow> string list \<Rightarrow> loader_session" where
  "lr_final c argv = snd (run_state (lr_main c argv) lr_locals)"

lemma lr_finished: "lr_tool.finished c argv (lr_final c argv)"
proof -
  have "wp (lr_main c argv) (\<lambda>_. lr_tool.finished c argv) lr_locals"
    using lr_tool.program_spec[of c argv] by (simp add: lr_main_def wp_bind wp_gets)
  then show ?thesis by (simp add: lr_final_def wp_run)
qed

end
