(* ===== verification/Runtime_Load.thy ===== *)
theory Runtime_Load
  imports Loader_Rejection_Results
begin

text \<open>
  \<^verbatim>\<open>tools/vfio_runtime_load.c\<close> (experiment 021): submit one exact firmware image as a chain of
  625 payload descriptors behind a two-word loader command. The file is read, checked and copied
  before VFIO is opened; the card must have the expected FPGA revision; the wait ends early when
  the card makes no progress; and the IOVA range is unmapped before the report is printed.
\<close>

section \<open>State and program\<close>

record runtime_session = command_session +
  exact_file :: bool
  live_compatible :: bool
  command_progress_seen :: bool
  final_command_read :: u32
  final_response_read :: u32
  iommu_unmapped :: bool

definition EXPECTED_FILE_SIZE :: nat where [simp]: "EXPECTED_FILE_SIZE = 2558096"
definition EXPECTED_PAYLOAD_DWORDS :: u32 where "EXPECTED_PAYLOAD_DWORDS = 0x0009c214"
definition HBUT_MAGIC :: u32 where "HBUT_MAGIC = 0x54554248"
definition LOADER_EXTENDED_FLAG :: u32 where "LOADER_EXTENDED_FLAG = 0x40000000"
definition PAYLOAD_PAGE_COUNT :: nat where "PAYLOAD_PAGE_COUNT = (EXPECTED_FILE_SIZE + 4096 - 1) div 4096"
definition PAGE_COUNT :: nat where "PAGE_COUNT = PAYLOAD_PAGE + PAYLOAD_PAGE_COUNT"
definition RING_CAPACITY :: nat where "RING_CAPACITY = 1024"
definition POLL_LIMIT_MS :: nat where "POLL_LIMIT_MS = 150000"
definition NO_PROGRESS_LIMIT_MS :: nat where "NO_PROGRESS_LIMIT_MS = 5000"

lemma page_counts [simp]: "PAYLOAD_PAGE_COUNT = 625" "PAGE_COUNT = 691"
  by (simp_all add: PAYLOAD_PAGE_COUNT_def PAGE_COUNT_def)

definition rt_locals :: runtime_session where
  "rt_locals = \<lparr>log = [], container_fd = -1, group_fd = -1, device_fd = -1,
     container_set = False, dma_mapped = False, memory_ok = False, bar_ok = False,
     ram = (\<lambda>_. 0), exit_success = False, stdout = [],
     file_fd = -1, heap_copy = None, startup = False, connects_consumed = False,
     command_consumed = False, response_consumed = False, response_written = False,
     header_matches = False, memory_bounded = False, ready_after = False, restored = False,
     reset_recovered = False, response = replicate 4 0, polls = 0,
     exact_file = False, live_compatible = False, command_progress_seen = False,
     final_command_read = 0, final_response_read = 0, iommu_unmapped = False\<rparr>"

definition rt_loader_command :: "nat \<Rightarrow> u32" where
  "rt_loader_command i = (if i = 0 then LOADER_COMMAND_BASE OR LOADER_EXTENDED_FLAG
     else of_nat EXPECTED_FILE_SIZE div 4 + 2)"

definition exact_hbut :: "(nat \<Rightarrow> u8) \<Rightarrow> nat \<Rightarrow> nat \<Rightarrow> bool" where
  "exact_hbut m words bytes \<longleftrightarrow> bytes = EXPECTED_FILE_SIZE \<and> get32 m words = HBUT_MAGIC \<and>
     get32 m (words + 3 * 4) = EXPECTED_FPGA_REVISION \<and>
     get32 m (words + 6 * 4) = EXPECTED_PAYLOAD_DWORDS \<and>
     (ucast (get32 m (words + 6 * 4)) + 16) * 4 = (of_nat bytes :: u64)"

definition rt_open_firmware :: "command_env \<Rightarrow> (runtime_session, bool) state" where
  "rt_open_firmware c =
     and_m (open_input c)
    (and_m (check (input_regular c \<and> input_size c = int EXPECTED_FILE_SIZE))
           (check (\<not> RING_CAPACITY \<le> PAYLOAD_PAGE_COUNT + 3)))"

definition rt_fill :: "(nat \<Rightarrow> u8) \<Rightarrow> nat \<Rightarrow> u8" where
  "rt_fill m = memset (PAYLOAD_PAGE * 4096) 0 (PAYLOAD_PAGE_COUNT * 4096)
     (memset (RESPONSE_PAGE * 4096) CANARY_BYTE (2 * 4096) (memset 0 0 (64 * 4096) m))"

definition rt_load :: "command_env \<Rightarrow> (runtime_session, bool) state" where
  "rt_load c =
     and_m (allocate_memory (host c))
    (and_m (do { store_ram rt_fill; check True })
    (and_m (load_input c (PAYLOAD_PAGE * 4096) EXPECTED_FILE_SIZE 0)
    (and_m (do { close_input; check True })
           (do { b \<leftarrow> gets (\<lambda>s. exact_hbut (ram s) (PAYLOAD_PAGE * 4096) EXPECTED_FILE_SIZE);
                 modify (\<lambda>s. s\<lparr>exact_file := b\<rparr>);
                 State_Monad.return b }))))"

definition payload_bytes :: "nat \<Rightarrow> nat" where
  "payload_bytes page =
     (let remaining = EXPECTED_FILE_SIZE - page * 4096 in if 4096 < remaining then 4096 else remaining)"

definition payload_entry :: "nat \<Rightarrow> (nat \<Rightarrow> u8) \<Rightarrow> nat \<Rightarrow> u8" where
  "payload_entry page = set_descriptor (ring_entry 0 0 (3 + of_nat page))
     (of_nat (payload_bytes page) div 4) (TEST_IOVA + of_nat (PAYLOAD_PAGE + page) * 4096)"

definition rt_entries :: "u64 \<Rightarrow> (nat \<Rightarrow> u8) \<Rightarrow> nat \<Rightarrow> u8" where
  "rt_entries now m =
     (let header = put32 (HEADER_PAGE * 4096 + 4) (rt_loader_command 1)
            (put32 (HEADER_PAGE * 4096) (rt_loader_command 0) m);
          connects = clock_entry now (fold connect_entry [0..<8] header);
          answer = set_descriptor (ring_entry 0 1 0) 4 (TEST_IOVA + of_nat RESPONSE_PAGE * 4096) connects;
          command = set_descriptor (ring_entry 0 0 2) 2 (TEST_IOVA + of_nat HEADER_PAGE * 4096) answer in
      fold payload_entry [0..<PAYLOAD_PAGE_COUNT] command)"

definition rt_offer :: "command_env \<Rightarrow> (runtime_session, bool) state" where
  "rt_offer c =
     and_m (do { now \<leftarrow> gets (\<lambda>s. wall_clock c (log s));
                 store_ram (rt_entries now);
                 check True })
           (take_snapshot c)"

definition rt_gate :: "vfio_env \<Rightarrow> (runtime_session, bool) state" where
  "rt_gate e =
     and_m (do { v \<leftarrow> read32 e FPGA_REVISION;
                 modify (\<lambda>s. s\<lparr>live_compatible := (v = EXPECTED_FPGA_REVISION)\<rparr>);
                 State_Monad.return (v = EXPECTED_FPGA_REVISION) })
           (cold_card e)"

definition rt_prepare :: "command_env \<Rightarrow> string list \<Rightarrow> (runtime_session, bool) state" where
  "rt_prepare c argv =
     and_m (check (length argv = 2))
    (and_m (check (sys_page_size (host c) = 4096))
    (and_m (rt_open_firmware c)
    (and_m (rt_load c)
    (and_m (rt_offer c)
    (and_m (attach_host (host c))
    (and_m (map_card (host c))
           (rt_gate (host c))))))))"

text \<open>One turn of the wait for the answer, which also gives up when nothing moves.\<close>

definition rt_turn :: "vfio_env \<Rightarrow> u32 \<Rightarrow> u32 \<Rightarrow> nat \<Rightarrow> (runtime_session, bool) state" where
  "rt_turn e command_position response_position poll =
     do { command_read \<leftarrow> read32 e (dsp_banks ! 0 + 0x28);
          response_read \<leftarrow> read32 e (dsp_banks ! 0 + 0x40 + 0x28);
          modify (\<lambda>s. s\<lparr>final_command_read := command_read, final_response_read := response_read\<rparr>);
          (if command_read \<noteq> 2 then modify (\<lambda>s. s\<lparr>command_progress_seen := True\<rparr>)
           else State_Monad.return ());
          first \<leftarrow> load_word e (RESPONSE_PAGE * 4096);
          progress \<leftarrow> gets command_progress_seen;
          State_Monad.return (command_read = command_position \<and> response_read = response_position \<and>
              first \<noteq> CANARY_WORD \<or>
            \<not> progress \<and> NO_PROGRESS_LIMIT_MS \<le> poll + 1) }"

definition rt_send :: "vfio_env \<Rightarrow> u32 \<Rightarrow> (runtime_session, unit) state" where
  "rt_send e interrupt_shadow =
     do { let command_position = 3 + of_nat PAYLOAD_PAGE_COUNT;
          let response_position = 1;
          submit response_position command_position (\<lambda>v. v) (\<lambda>v. v) interrupt_shadow;
          n \<leftarrow> poll_until e POLL_LIMIT_MS 0 (rt_turn e command_position response_position);
          modify (\<lambda>s. s\<lparr>polls := n\<rparr>);
          v \<leftarrow> read32 e (dsp_banks ! 0 + 0x28);
          modify (\<lambda>s. s\<lparr>final_command_read := v\<rparr>);
          v \<leftarrow> read32 e (dsp_banks ! 0 + 0x40 + 0x28);
          modify (\<lambda>s. s\<lparr>final_response_read := v\<rparr>);
          loader_collect e PAGE_COUNT command_position response_position }"

definition rt_run :: "vfio_env \<Rightarrow> (runtime_session, unit) state" where
  "rt_run e =
     do { start_rings (\<lambda>_ _. 0);
          interrupt_shadow \<leftarrow> connect_dsps CALLBACK_SHADOW;
          n \<leftarrow> await_connects e 3000;
          modify (\<lambda>s. s\<lparr>polls := n\<rparr>);
          go \<leftarrow> gets connects_consumed;
          if go then rt_send e interrupt_shadow else State_Monad.return () }"

definition rt_bytes :: nat where "rt_bytes = PAGE_COUNT * 4096"

definition rt_report_lines :: "runtime_session \<Rightarrow> string list" where
  "rt_report_lines s =
     [''{'',
      ''  \"experiment\": \"021-exact-octo-hbut-chain\",'',
      json_number ''expected_file_size'' EXPECTED_FILE_SIZE,
      json_flag ''exact_sha256_required_by_wrapper'' True,
      json_flag ''hbut_structure_matches'' (exact_file s),
      json_flag ''live_fpga_compatible'' (live_compatible s),
      json_words ''loader_command_words'' [rt_loader_command 0, rt_loader_command 1],
      json_number ''payload_descriptors'' PAYLOAD_PAGE_COUNT,
      json_number ''mapped_pages'' PAGE_COUNT,
      json_number ''mapped_bytes'' rt_bytes,
      json_flag ''connect_commands_consumed'' (connects_consumed s),
      json_flag ''loader_descriptors_consumed'' (command_consumed s),
      json_flag ''command_progress_seen'' (command_progress_seen s),
      json_number ''final_command_read_index'' (unat (final_command_read s)),
      json_flag ''response_descriptor_consumed'' (response_consumed s),
      json_number ''final_response_read_index'' (unat (final_response_read s)),
      json_flag ''response_written'' (response_written s),
      json_words ''response_words'' (response s),
      json_flag ''response_class_matches'' (header_matches s),
      json_flag ''writes_confined_to_response_prefix'' (memory_bounded s),
      json_flag ''all_dsps_ready_after_load'' (ready_after s),
      json_flag ''explicit_restore_succeeded'' (restored s),
      json_flag ''vfio_reset_recovered'' (reset_recovered s),
      json_flag ''iommu_unmapped'' (iommu_unmapped s),
      json_number ''polls_ms'' (min (polls s) POLL_LIMIT_MS),
      json_last ''success'' (exit_success s),
      ''}'']"

definition rt_unmapped :: "vfio_env \<Rightarrow> bool" where
  "rt_unmapped e \<longleftrightarrow> unmap_dma e = 0 \<and> unmap_size e = rt_bytes"

definition rt_close :: "vfio_env \<Rightarrow> (runtime_session, unit) state" where
  "rt_close e =
     do { close_card (rt_unmapped e);
          modify (\<lambda>s. s\<lparr>iommu_unmapped := (dma_mapped s \<and> rt_unmapped e)\<rparr>);
          report_lines rt_report_lines;
          close_host;
          close_input }"

definition rt_main :: "command_env \<Rightarrow> string list \<Rightarrow> (runtime_session, bool) state" where
  "rt_main c argv =
     do { ok \<leftarrow> rt_prepare c argv;
          (if ok then rt_run (host c) else State_Monad.return ());
          cmd_cleanup (host c);
          rt_close (host c);
          gets exit_success }"

end
