(* ===== verification/Runtime_Load_Results.thy ===== *)
theory Runtime_Load_Results
  imports Runtime_Load
begin

text \<open>
  \<^verbatim>\<open>tools/vfio_runtime_load.c\<close> meets the contract of a command tool: it submits only an exact image,
  to a card with the expected FPGA revision found cold, and its exit status 0 is backed by the
  firmware's answer. The wait for the answer is bounded, and shorter when nothing moves.
\<close>

section \<open>What a run stores and what it offers\<close>

definition rt_stores :: "(u32 \<times> u32) list" where
  "rt_stores = startup_stores (\<lambda>_ _. 0) @ connect_stores @ submit_stores 1 628 0xdddddddf 0xdddddddf"

definition rt_shape :: "(u32 \<times> u32) list \<Rightarrow> bool" where
  "rt_shape ws \<longleftrightarrow> ws = rt_stores \<or> ws = startup_stores (\<lambda>_ _. 0) @ connect_stores"

text \<open>An exact image: its size and the checked words of its header.\<close>

definition rt_hbut :: "u8 list \<Rightarrow> bool" where
  "rt_hbut data \<longleftrightarrow> length data = EXPECTED_FILE_SIZE \<and> exact_hbut ((!) data) 0 EXPECTED_FILE_SIZE"

definition rt_image :: "u8 list \<Rightarrow> nat \<Rightarrow> u8" where
  "rt_image data = store_bytes (PAYLOAD_PAGE * 4096) data (rt_fill (\<lambda>_. 0))"

definition rt_memory :: "u8 list \<Rightarrow> u64 \<Rightarrow> nat \<Rightarrow> u8" where
  "rt_memory data now = rt_entries now (rt_image data)"

definition rt_gate_seen :: "(u32 \<times> (u32 \<Rightarrow> bool)) set" where
  "rt_gate_seen = {(FPGA_REVISION, \<lambda>v. v = EXPECTED_FPGA_REVISION)} \<union> cold_gate_seen"

definition rt_work :: "vfio_env \<Rightarrow> history \<Rightarrow> history \<Rightarrow> (nat \<Rightarrow> u8) \<Rightarrow> (nat \<Rightarrow> u8) option \<Rightarrow> bool" where
  "rt_work e k h m copy \<longleftrightarrow> seen rt_gate_seen k \<and> copied e k m copy \<and>
     (\<exists>data now. rt_hbut data \<and> m = rt_memory data now) \<and> writes h = rt_stores \<and>
     answered e 4 loader_reply (loader_regions 691) 628 1 h m copy \<and>
     (\<exists>evs. h = evs @ k \<and> seen connects_seen evs)"

definition rt_offered :: "vfio_env \<Rightarrow> runtime_session \<Rightarrow> bool" where
  "rt_offered e s \<longleftrightarrow> \<not> connects_consumed s \<and> copied e (log s) (ram s) (heap_copy s) \<and>
     (\<exists>data now. rt_hbut data \<and> ram s = rt_memory data now)"

definition rt_prepared :: "vfio_env \<Rightarrow> runtime_session \<Rightarrow> bool" where
  "rt_prepared e s \<longleftrightarrow> rt_offered e s \<and> seen rt_gate_seen (log s)"

section \<open>Preparation: what is held\<close>

lemma rt_local_updates:
  "local_step (modify (\<lambda>s :: runtime_session. s\<lparr>exact_file := b\<rparr>))"
  "local_step (modify (\<lambda>s :: runtime_session. s\<lparr>live_compatible := b\<rparr>))"
  by (simp_all add: local_step_def wp_modify same_holdings_def same_handles_def)

lemma rt_prepares: "prepares {} (rt_prepare c argv) armed_set"
proof -
  let ?mem = "{VfioMemory}"
  let ?off = "insert Snapshot ?mem"
  let ?host = "insert VfioAttached (insert VfioGroup (insert VfioContainer ?off))"
  let ?card = "insert BarMap (insert VfioDevice (insert VfioMapping ?host))"
  have firmware: "prepares {} (rt_open_firmware c) {InputFile}"
    unfolding rt_open_firmware_def by (rule prepares_intros | simp)+
  have exact: "prepares A (do { b \<leftarrow> gets (\<lambda>s. exact_hbut (ram s) (PAYLOAD_PAGE * 4096) EXPECTED_FILE_SIZE);
                 modify (\<lambda>s :: runtime_session. s\<lparr>exact_file := b\<rparr>);
                 State_Monad.return b }) A" for A
    by (intro prepares_local local_intros rt_local_updates)
  have fill: "prepares A (do { store_ram rt_fill; check True }) A" for A
    by (intro prepares_locally local_intros)
  have read: "prepares A (load_input c (PAYLOAD_PAGE * 4096) EXPECTED_FILE_SIZE 0) A" for A
    by (intro prepares_local local_load)
  have "prepares {InputFile} (rt_load c) (insert VfioMemory {InputFile} - {InputFile})"
    unfolding rt_load_def
    by (rule prepares_and_m[OF prepares_steps(4) prepares_and_m[OF fill prepares_and_m[OF read
      prepares_and_m[OF prepares_close_input exact]]]]) simp
  moreover have "insert VfioMemory {InputFile} - {InputFile} = ?mem" by auto
  ultimately have load: "prepares {InputFile} (rt_load c) ?mem" by simp
  have entries: "prepares A (do { now \<leftarrow> gets (\<lambda>s. wall_clock c (log s)); store_ram (rt_entries now); check True }) A" for A
    by (intro prepares_local local_intros)
  have offer: "prepares ?mem (rt_offer c) ?off"
    unfolding rt_offer_def by (rule prepares_and_m[OF entries prepares_snapshot]) simp
  have host: "prepares ?off (attach_host (host c)) ?host" by (rule prepares_host) simp_all
  have card: "prepares ?host (map_card (host c)) ?card" by (rule prepares_card) simp_all
  have revision: "prepares ?card (do { v \<leftarrow> read32 (host c) FPGA_REVISION;
                 modify (\<lambda>s :: runtime_session. s\<lparr>live_compatible := (v = EXPECTED_FPGA_REVISION)\<rparr>);
                 State_Monad.return (v = EXPECTED_FPGA_REVISION) }) ?card"
    by (rule prepares_read) (simp_all add: in_bar_def prepares_local local_intros rt_local_updates)
  have gate: "prepares ?card (rt_gate (host c)) ?card"
    unfolding rt_gate_def by (rule prepares_and_m[OF revision prepares_cold]) simp
  have "?card = armed_set" unfolding armed_set_def whole_def by blast
  then show ?thesis
    unfolding rt_prepare_def
    using prepares_and_m[OF prepares_checks(2) prepares_and_m[OF prepares_checks(2) prepares_and_m[OF firmware
      prepares_and_m[OF load prepares_and_m[OF offer prepares_and_m[OF host prepares_and_m[OF card gate]]]]]]]
    by simp
qed

section \<open>Preparation: what is offered\<close>

lemma get32_store_bytes:
  "b + 4 \<le> length data \<Longrightarrow> get32 (store_bytes a data m) (a + b) = get32 ((!) data) b"
  by (simp add: get32_def store_bytes_def)

lemma exact_hbut_stored:
  assumes "length data = EXPECTED_FILE_SIZE"
  shows "exact_hbut (store_bytes (PAYLOAD_PAGE * 4096) data m) (PAYLOAD_PAGE * 4096) EXPECTED_FILE_SIZE \<longleftrightarrow> rt_hbut data"
  unfolding rt_hbut_def exact_hbut_def
  using get32_store_bytes[of 0 data "PAYLOAD_PAGE * 4096"] get32_store_bytes[of "3 * 4" data "PAYLOAD_PAGE * 4096"]
    get32_store_bytes[of "6 * 4" data "PAYLOAD_PAGE * 4096"] assms
  by simp

lemma copied_more: "copied e k m copy \<Longrightarrow> copied e (x # k) m copy"
  unfolding copied_def by (metis append_Cons)

lemma rt_load_wp:
  assumes "\<not> connects_consumed s" "ram s = (\<lambda>_. 0)"
  shows "wp (rt_load c) (\<lambda>ok t. ok \<longrightarrow> (\<exists>data. rt_hbut data \<and> ram t = rt_image data \<and> \<not> connects_consumed t)) s"
proof -
  let ?R = "\<lambda>t :: runtime_session. \<exists>data. length data = EXPECTED_FILE_SIZE \<and> ram t = rt_image data \<and> \<not> connects_consumed t"
  have a: "wp (allocate_memory (host c)) (\<lambda>ok t. ok \<longrightarrow> \<not> connects_consumed t \<and> ram t = (\<lambda>_. 0)) s"
    using assms by (simp add: allocate_memory_def wp_simps)
  have f: "wp (do { store_ram rt_fill; check True }) (\<lambda>ok t. ok \<longrightarrow> \<not> connects_consumed t \<and> ram t = rt_fill (\<lambda>_. 0)) t"
    if "\<not> connects_consumed t \<and> ram t = (\<lambda>_. 0)" for t :: runtime_session
    using that by (simp add: check_def store_ram_def wp_simps)
  have l: "wp (load_input c (PAYLOAD_PAGE * 4096) EXPECTED_FILE_SIZE 0) (\<lambda>ok t. ok \<longrightarrow> ?R t) t"
    if t: "\<not> connects_consumed t \<and> ram t = rt_fill (\<lambda>_. 0)" for t :: runtime_session
    by (rule load_input_wp) (use t in \<open>auto simp: rt_image_def\<close>)
  have c: "wp (do { close_input; check True }) (\<lambda>ok t. ok \<longrightarrow> ?R t) t" if "?R t" for t
    using that by (auto simp: close_input_def check_def wp_simps)
  have e: "wp (do { b \<leftarrow> gets (\<lambda>s. exact_hbut (ram s) (PAYLOAD_PAGE * 4096) EXPECTED_FILE_SIZE);
      modify (\<lambda>s. s\<lparr>exact_file := b\<rparr>); State_Monad.return b })
      (\<lambda>ok t. ok \<longrightarrow> (\<exists>data. rt_hbut data \<and> ram t = rt_image data \<and> \<not> connects_consumed t)) t" if R: "?R t" for t
  proof -
    obtain data where t: "length data = EXPECTED_FILE_SIZE" "ram t = rt_image data" "\<not> connects_consumed t"
      using R by blast
    then show ?thesis unfolding rt_image_def using exact_hbut_stored[OF t(1), of "rt_fill (\<lambda>_. 0)"] by (auto simp: wp_simps)
  qed
  show ?thesis unfolding rt_load_def
    by (rule wp_and_then[OF a wp_and_then[OF f wp_and_then[OF l wp_and_then[OF c e]]]])
qed

lemma rt_offer_wp:
  assumes "\<exists>data. rt_hbut data \<and> ram s = rt_image data \<and> \<not> connects_consumed s"
  shows "wp (rt_offer c) (\<lambda>ok t. ok \<longrightarrow> rt_offered (host c) t) s"
proof -
  obtain data where s: "rt_hbut data" "ram s = rt_image data" "\<not> connects_consumed s" using assms by blast
  then have "ram (s\<lparr>ram := rt_entries (wall_clock c (log s)) (ram s)\<rparr>) = rt_memory data (wall_clock c (log s))"
    by (simp add: rt_memory_def)
  with s show ?thesis
    by (auto simp: rt_offer_def take_snapshot_def check_def store_ram_def wp_simps rt_offered_def copied_def)
qed

lemma rt_host_steps: "preserves (rt_offered e) (attach_host f)" "preserves (rt_offered e) (map_card f)"
  unfolding attach_host_def map_card_def open_container_def open_group_def attach_group_def
    configure_iommu_def map_iova_def open_device_def map_bar_def check_def
  by (intro preserves_intros preserves_modify; simp add: preserves_def wp_simps rt_offered_def copied_more)+

lemma rt_gate_wp:
  assumes "rt_offered e s"
  shows "wp (rt_gate e) (\<lambda>ok t. ok \<longrightarrow> rt_prepared e t) s"
proof -
  let ?rev = "{(FPGA_REVISION, \<lambda>v. v = EXPECTED_FPGA_REVISION)}"
  have r: "wp (do { v \<leftarrow> read32 e FPGA_REVISION;
                 modify (\<lambda>s. s\<lparr>live_compatible := (v = EXPECTED_FPGA_REVISION)\<rparr>);
                 State_Monad.return (v = EXPECTED_FPGA_REVISION) })
      (\<lambda>ok t. ok \<longrightarrow> rt_offered e t \<and> seen ?rev (log t)) s"
    using assms by (simp add: read32_def wp_simps rt_offered_def copied_more seen_def)
  have c: "wp (cold_card e) (\<lambda>ok t. ok \<longrightarrow> rt_prepared e t) t" if t: "rt_offered e t \<and> seen ?rev (log t)" for t
  proof (rule read_only_wp[OF cold_card_checks])
    fix b rs
    assume rs: "reads rs" "b \<Longrightarrow> seen cold_gate_seen rs"
    have "copied e (rs @ log t) (ram t) (heap_copy t)"
      using t unfolding rt_offered_def copied_def by (metis append_assoc)
    moreover have "seen ?rev (rs @ log t)" using t by (auto intro: seen_mono)
    moreover have "b \<Longrightarrow> seen cold_gate_seen (rs @ log t)" using rs(2) by (auto intro: seen_mono)
    ultimately show "b \<longrightarrow> rt_prepared e (t\<lparr>log := rs @ log t\<rparr>)"
      using t unfolding rt_prepared_def rt_offered_def rt_gate_seen_def seen_union by simp
  qed
  show ?thesis unfolding rt_gate_def by (rule wp_and_then[OF r c])
qed

lemma rt_prepare_wp: "wp (rt_prepare c argv) (\<lambda>ok t. ok \<longrightarrow> rt_prepared (host c) t) rt_locals"
proof -
  let ?P = "\<lambda>t :: runtime_session. \<not> connects_consumed t \<and> ram t = (\<lambda>_. 0)"
  have c: "wp (check b) (\<lambda>ok t. ok \<longrightarrow> ?P t) t" if "?P t" for b t
    using that by (simp add: check_def wp_simps)
  have o: "wp (rt_open_firmware c) (\<lambda>ok t. ok \<longrightarrow> ?P t) t" if "?P t" for t
    using that by (simp add: rt_open_firmware_def open_input_def check_def wp_simps)
  have start: "?P rt_locals" by (simp add: rt_locals_def)
  show ?thesis unfolding rt_prepare_def
    by (intro wp_and_then[OF c[OF start] wp_and_then[OF c wp_and_then[OF o wp_and_then[OF rt_load_wp
      wp_and_then[OF rt_offer_wp wp_and_then[OF _ wp_and_then[OF _ rt_gate_wp]]]]]]])
      (auto intro: wp_mono[OF preservesD[OF rt_host_steps(1)]] wp_mono[OF preservesD[OF rt_host_steps(2)]])
qed

section \<open>The wait and the run\<close>

lemma rt_updates:
  "preserves armed (modify (\<lambda>s. s\<lparr>final_command_read := a, final_response_read := b\<rparr>))"
  "preserves armed (modify (\<lambda>s. s\<lparr>final_command_read := a\<rparr>))"
  "preserves armed (modify (\<lambda>s. s\<lparr>final_response_read := b\<rparr>))"
  "preserves armed (modify (\<lambda>s. s\<lparr>command_progress_seen := d\<rparr>))"
  by (rule carries_local; simp add: same_holdings_def same_handles_def)+

lemma rt_run_armed: "preserves armed (rt_run e)"
  unfolding rt_run_def rt_send_def rt_turn_def loader_collect_def load_word_def when_m_def Let_def
  by (intro preserves_intros armed_intros rt_updates regs_in_bar) simp_all

text \<open>The wait changes nothing; it ends within five seconds unless the card has moved.\<close>

definition rt_waited :: "runtime_session \<Rightarrow> nat \<Rightarrow> runtime_session \<Rightarrow> bool" where
  "rt_waited s n t \<longleftrightarrow> moved [] s t \<and> startup t = startup s \<and>
     (command_progress_seen t \<or> n < NO_PROGRESS_LIMIT_MS)"

lemma moved_event: "moved ws s t \<Longrightarrow> writes [e] = [] \<Longrightarrow> moved ws s (t\<lparr>log := e # log t\<rparr>)"
  using writes_append[of "[e]" "log t"] by (auto simp: moved_def extends_def)

lemma rt_turn_moves: "preserves (\<lambda>u. moved [] s u \<and> startup u = startup s) (rt_turn e cp rp n)"
  unfolding rt_turn_def read32_def load_word_def
  by (intro preserves_intros preserves_modify) (auto simp: preserves_def wp_simps moved_event elim: moved_local)

lemma rt_wait_wp:
  "wp (poll_until e k 0 (rt_turn e cp rp)) (\<lambda>n t. n \<le> k \<and> rt_waited s n t) s"
proof (rule poll_at_wp[where I = "rt_waited s"])
  show "rt_waited s 0 s" by (simp add: rt_waited_def moved_refl NO_PROGRESS_LIMIT_MS_def)
next
  fix m t
  assume m: "m < 0 + k" and t: "rt_waited s m t"
  have "wp (rt_turn e cp rp m) (\<lambda>_ u. moved [] s u \<and> startup u = startup s) t"
    using t unfolding rt_waited_def by (intro preservesD[OF rt_turn_moves]) simp
  moreover have "wp (rt_turn e cp rp m) (\<lambda>b u. (command_progress_seen t \<longrightarrow> command_progress_seen u) \<and>
      (\<not> b \<longrightarrow> command_progress_seen u \<or> \<not> NO_PROGRESS_LIMIT_MS \<le> m + 1)) t"
    by (simp add: rt_turn_def read32_def load_word_def wp_simps)
  ultimately show "wp (rt_turn e cp rp m) (\<lambda>b u. if b then m \<le> k \<and> rt_waited s m u
      else rt_waited s (Suc m) (u\<lparr>log := Delay 1000000 # log u\<rparr>)) t"
  proof (rule wp_conjI[THEN wp_mono])
    fix b u
    assume "(moved [] s u \<and> startup u = startup s) \<and>
      (command_progress_seen t \<longrightarrow> command_progress_seen u) \<and>
      (\<not> b \<longrightarrow> command_progress_seen u \<or> \<not> NO_PROGRESS_LIMIT_MS \<le> m + 1)"
    then show "if b then m \<le> k \<and> rt_waited s m u
        else rt_waited s (Suc m) (u\<lparr>log := Delay 1000000 # log u\<rparr>)"
      using m t moved_event[of "[]" s u "Delay 1000000"] by (auto simp: rt_waited_def)
  qed
qed simp

text \<open>The submission, the wait and the checks.\<close>

lemma rt_send_wp:
  assumes "\<not> exit_success s"
  shows "wp (rt_send e 0xdddddddd) (\<lambda>_. sent (submit_stores 1 628 0xdddddddf 0xdddddddf)
     (answered e 4 loader_reply (loader_regions 691) 628 1) s) s"
proof -
  let ?ws = "submit_stores 1 628 0xdddddddf 0xdddddddf"
  let ?s = "after ?ws s"
  let ?J = "\<lambda>t. moved [] ?s t \<and> startup t = startup ?s"
  let ?Q = "\<lambda>t. startup t = startup s \<and> ram t = ram s \<and> heap_copy t = heap_copy s \<and>
     extends (log s) t \<and> writes (log t) = writes (log s) @ ?ws \<and>
     (exit_success t \<longrightarrow> answered e 4 loader_reply (loader_regions 691) 628 1
       (log t) (ram t) (heap_copy t))"
  have "wp (poll_until e POLL_LIMIT_MS 0 (rt_turn e 628 1)) (\<lambda>_. ?J) ?s"
    by (rule wp_mono[OF rt_wait_wp]) (simp add: rt_waited_def)
  moreover have rest: "preserves ?J (do { modify (\<lambda>s. s\<lparr>polls := n\<rparr>);
      v \<leftarrow> read32 e (dsp_banks ! 0 + 0x28);
      modify (\<lambda>s. s\<lparr>final_command_read := v\<rparr>);
      v \<leftarrow> read32 e (dsp_banks ! 0 + 0x40 + 0x28);
      modify (\<lambda>s. s\<lparr>final_response_read := v\<rparr>) })" for n
    unfolding read32_def
    by (intro preserves_intros preserves_modify) (auto simp: preserves_def wp_simps moved_event elim: moved_local)
  have collect: "wp (loader_collect e PAGE_COUNT 628 1) (\<lambda>_. ?Q) t" if t: "?J t" for t
  proof -
    have f: "\<not> exit_success t" using t assms by (simp add: moved_def after_def)
    have same: "ram t = ram s" "heap_copy t = heap_copy s" "startup t = startup s"
      "writes (log t) = writes (log s) @ ?ws" "extends (log s) t"
      using t extends_trans[OF extends_after] by (auto simp: moved_def after_def writes_rev_stores)
    show ?thesis
      by (rule wp_mono[OF loader_collect_wp[OF f]], unfold same page_counts) (use same(5) extends_trans in blast)
  qed
  ultimately have "wp (poll_until e POLL_LIMIT_MS 0 (rt_turn e 628 1)) (\<lambda>n. wp (do {
      do { modify (\<lambda>s. s\<lparr>polls := n\<rparr>);
      v \<leftarrow> read32 e (dsp_banks ! 0 + 0x28);
      modify (\<lambda>s. s\<lparr>final_command_read := v\<rparr>);
      v \<leftarrow> read32 e (dsp_banks ! 0 + 0x40 + 0x28);
      modify (\<lambda>s. s\<lparr>final_response_read := v\<rparr>) };
      loader_collect e PAGE_COUNT 628 1 }) (\<lambda>_. ?Q)) ?s"
    unfolding wp_bind[of _ "\<lambda>_. loader_collect e PAGE_COUNT 628 1"]
    by (elim wp_mono) (rule wp_mono[OF preservesD[OF rest] collect])
  then show ?thesis
    by (simp add: rt_send_def Let_def wp_bind submit_wp sent_def[abs_def])
qed

lemma rt_run_spec:
  assumes p: "rt_prepared e s" and s: "\<not> exit_success s" "writes (log s) = []"
  shows "wp (rt_run e) (\<lambda>_ t. startup t \<and> rt_shape (writes (log t)) \<and>
     (exit_success t \<longrightarrow> rt_work e (log s) (log t) (ram t) (heap_copy t))) s"
proof -
  let ?first = "startup_stores (\<lambda>_ _. 0) @ connect_stores"
  let ?start = "after ?first (s\<lparr>startup := True\<rparr>)"
  have start: "\<not> connects_consumed ?start" "\<not> exit_success ?start" "startup ?start" "ram ?start = ram s"
      "heap_copy ?start = heap_copy s" "writes (log ?start) = ?first" "extends (log s) ?start"
    using p s by (simp_all add: rt_prepared_def rt_offered_def after_def writes_append extends_def)
  let ?ws = "submit_stores 1 628 0xdddddddf 0xdddddddf"
  let ?A = "answered e 4 loader_reply (loader_regions 691) 628 1"
  have send: "wp (rt_send e 0xdddddddd)
      (\<lambda>_. sent ?ws ?A (?start\<lparr>log := xs @ log ?start, connects_consumed := True, polls := n\<rparr>))
      (?start\<lparr>log := xs @ log ?start, connects_consumed := True, polls := n\<rparr>)" for n xs
    by (rule rt_send_wp) (use s in \<open>simp add: after_def\<close>)
  have "rt_shape (writes (log t)) \<and> startup t \<and>
      (exit_success t \<longrightarrow> rt_work e (log s) (log t) (ram t) (heap_copy t))"
    if "sent [] (\<lambda>_ _ _. False) ?start t \<or> sent ?ws ?A ?start t \<and> since (log ?start) connects_seen t" for t
  proof -
    have ready: "rt_work e (log s) (log t) (ram t) (heap_copy t)"
      if "?A (log t) (ram t) (heap_copy t)" "ram t = ram s" "heap_copy t = heap_copy s"
        "writes (log t) = ?first @ ?ws" "since (log s) connects_seen t"
      using p that unfolding rt_work_def rt_prepared_def rt_offered_def since_def rt_stores_def by simp
    have "since (log s) connects_seen t" if "since (log ?start) connects_seen t"
      using that start(7) since_later by blast
    with that show ?thesis
      using start(3-6) ready unfolding sent_def rt_shape_def rt_stores_def by auto
  qed
  then show ?thesis
    unfolding rt_run_def wp_bind[of "start_rings _"] wp_bind[of "connect_dsps _"]
      start_rings_wp connect_wp after_after
    by (intro wp_mono[OF connect_then_send[OF start(1,2) send]]) blast
qed

section \<open>The contract, and the whole program\<close>

lemma rt_fresh: "fresh_command 4 rt_locals"
  by (simp add: rt_locals_def fresh_command_def fresh_session_def)

lemma rt_close_ends:
  assumes "tool_ok s" "\<not> engines_on (log s)"
  shows "wp (rt_close e) (\<lambda>_. ends (rt_unmapped e) s) s"
proof -
  let ?report = "do { modify (\<lambda>s. s\<lparr>iommu_unmapped := (dma_mapped s \<and> rt_unmapped e)\<rparr>); report_lines rt_report_lines }"
  let ?good = "rt_unmapped e \<or> \<not> dma_mapped s"
  have quiet: "\<forall>t. wp ?report (\<lambda>_ u. same_holdings t u \<and> log u = log t) t"
    by (simp add: report_lines_def wp_simps same_holdings_def same_handles_def)
  have keeps: "preserves (closing s) ?report" "preserves (\<lambda>t. file_fd t = file_fd s) ?report"
    by (intro preserves_intros preserves_modify closing_steps; simp add: closing_def)+
  have "wp (do { State_Monad.return (); close_card (rt_unmapped e); ?report; close_host })
     (\<lambda>_. torn_down ?good (host_set ?good) s) s"
    by (rule close_session_wp[OF assms refl _ _ _ quiet keeps]) (auto intro: return_quiet preserves_return)
  then have "wp (do { close_card (rt_unmapped e); ?report; close_host })
      (\<lambda>_ t. wp close_input (\<lambda>_. ends (rt_unmapped e) s) t) s"
    by (simp only: State_Monad.bind_left_identity) (erule wp_mono, erule close_input_ends, simp)
  then show ?thesis by (simp add: rt_close_def wp_bind)
qed

interpretation rt_tool: command_tool "host c" "rt_prepare c argv" "rt_run (host c)" "rt_close (host c)"
    rt_locals 4 "rt_unmapped (host c)" UNIV "rt_prepared (host c)" rt_shape "rt_work (host c)" for c argv
proof unfold_locales
  show "wp (rt_prepare c argv) (\<lambda>ok t. holding t \<subseteq> UNIV \<and> (ok \<longrightarrow> rt_prepared (host c) t)) rt_locals"
    using rt_prepare_wp[of c argv] by simp
qed (rule rt_fresh rt_prepares rt_run_armed rt_run_spec rt_close_ends; assumption)+

definition rt_final :: "command_env \<Rightarrow> string list \<Rightarrow> runtime_session" where
  "rt_final c argv = snd (run_state (rt_main c argv) rt_locals)"

lemma rt_finished: "rt_tool.finished c (rt_final c argv)"
proof -
  have "wp (rt_main c argv) (\<lambda>_. rt_tool.finished c) rt_locals"
    using rt_tool.program_spec[of c argv] by (simp add: rt_main_def wp_bind wp_gets)
  then show ?thesis by (simp add: rt_final_def wp_run)
qed

end
