(* ===== verification/Loader_Chain.thy ===== *)
theory Loader_Chain
  imports Runtime_Load_Results
begin

text \<open>
  What the loader tools offer to the card, read the way the card reads it: the descriptors of the
  command ring in order, each naming a buffer by its IOVA address and its length in words. For both
  tools the concatenation of the buffers is the loader command followed by exactly the payload.
\<close>

section \<open>Reading a chain of descriptors\<close>

text \<open>The buffer that entry \<open>i\<close> of the command ring of DSP 0 describes.\<close>

definition described :: "(nat \<Rightarrow> u8) \<Rightarrow> nat \<Rightarrow> u8 list" where
  "described m i =
     (let entry = ring_entry 0 0 (of_nat i);
          start = unat (join_64 (get32 m (entry + 8)) (get32 m (entry + 12)) - TEST_IOVA);
          words = unat (get32 m entry AND 0x7fffffff) in
      map m [start..<start + 4 * words])"

definition offered :: "(nat \<Rightarrow> u8) \<Rightarrow> nat \<Rightarrow> nat \<Rightarrow> u8 list" where
  "offered m i j = concat (map (described m) [i..<j])"

definition word_bytes :: "u32 \<Rightarrow> u8 list" where
  "word_bytes v = [ucast v, ucast (drop_bit 8 v), ucast (drop_bit 16 v), ucast (drop_bit 24 v)]"

lemma concat_chunks: "concat (map (\<lambda>p. take k (drop (p * k) xs)) [0..<n]) = take (n * k) xs"
proof (induction n)
  case (Suc n)
  then show ?case by (simp add: take_add[of "n * k" k xs, symmetric] add.commute)
qed simp

lemma map_nth_slice: "a + n \<le> length xs \<Longrightarrow> map (\<lambda>i. xs ! i) [a..<a + n] = take n (drop a xs)"
  by (rule nth_equalityI) auto

lemma descriptor_length:
  fixes n :: u32
  assumes "n < 0x80000000"
  shows "unat ((0x80000000 OR n) AND 0x7fffffff) = unat n"
proof -
  have "(0x80000000 OR n) AND 0x7fffffff = n AND 0x7fffffff"
    by (simp add: bit.conj_disj_distrib2)
  also have "\<dots> = take_bit 31 n" by (simp add: take_bit_eq_mask mask_eq_exp_minus_1)
  finally have "unat ((0x80000000 OR n) AND 0x7fffffff) = take_bit 31 (unat n)"
    by (simp add: unsigned_take_bit_eq)
  then show ?thesis using assms by (simp add: word_less_nat_alt take_bit_nat_eq_self)
qed

text \<open>A buffer described by a descriptor that is still in place.\<close>

lemma described_by:
  assumes "get32 m (ring_entry 0 0 (of_nat i)) = 0x80000000 OR n"
    "join_64 (get32 m (ring_entry 0 0 (of_nat i) + 8)) (get32 m (ring_entry 0 0 (of_nat i) + 12)) =
      TEST_IOVA + of_nat a"
    "a < 2 ^ 32" "n < 0x80000000"
  shows "described m i = map m [a..<a + 4 * unat n]"
proof -
  have "unat (of_nat a :: u64) = a" using assms(3) by (simp add: unat_of_nat take_bit_nat_eq_self)
  then show ?thesis
    by (simp add: described_def Let_def assms(1,2) descriptor_length[OF assms(4)])
qed

section \<open>Which stores leave an entry or a buffer alone\<close>

text \<open>\<open>clear_of a n f\<close>: the store \<open>f\<close> changes none of the \<open>n\<close> bytes at \<open>a\<close>.\<close>

definition clear_of :: "nat \<Rightarrow> nat \<Rightarrow> ((nat \<Rightarrow> u8) \<Rightarrow> nat \<Rightarrow> u8) \<Rightarrow> bool" where
  "clear_of a n f \<longleftrightarrow> (\<forall>m i. a \<le> i \<longrightarrow> i < a + n \<longrightarrow> f m i = m i)"

lemma clear_ofD: "clear_of a n f \<Longrightarrow> a \<le> i \<Longrightarrow> i < a + n \<Longrightarrow> f m i = m i"
  by (simp add: clear_of_def)

lemma get32_clear: "clear_of a n f \<Longrightarrow> a \<le> b \<Longrightarrow> b + 4 \<le> a + n \<Longrightarrow> get32 (f m) b = get32 m b"
  by (simp add: get32_def clear_of_def)

lemma map_clear: "clear_of a n f \<Longrightarrow> map (f m) [a..<a + n] = map m [a..<a + n]"
  by (simp add: clear_of_def)

lemma clear_fold: "(\<And>x. x \<in> set xs \<Longrightarrow> clear_of a n (f x)) \<Longrightarrow> clear_of a n (fold f xs)"
  by (induction xs) (simp_all add: clear_of_def)

text \<open>An entry \<open>i\<close> of the command ring of DSP 0 is changed only by stores to it.\<close>

lemma clear_entry:
  assumes "i < 1024" "j < 1024" "r < 2" "(d, r, j) \<noteq> (0, 0, i)"
  shows "clear_of (ring_entry 0 0 (of_nat i)) 16 (set_descriptor (ring_entry d r (of_nat j)) n x)"
    "clear_of (ring_entry 0 0 (of_nat i)) 16 (put32 (ring_entry d r (of_nat j)) v)"
    "clear_of (ring_entry 0 0 (of_nat i)) 16 (put32 (ring_entry d r (of_nat j) + 4) v)"
proof -
  have "ring_entry d r (of_nat j) + 16 \<le> ring_entry 0 0 (of_nat i) \<or>
      ring_entry 0 0 (of_nat i) + 16 \<le> ring_entry d r (of_nat j)"
    by (rule entries_apart) (use assms in auto)
  then show "clear_of (ring_entry 0 0 (of_nat i)) 16 (set_descriptor (ring_entry d r (of_nat j)) n x)"
    "clear_of (ring_entry 0 0 (of_nat i)) 16 (put32 (ring_entry d r (of_nat j)) v)"
    "clear_of (ring_entry 0 0 (of_nat i)) 16 (put32 (ring_entry d r (of_nat j) + 4) v)"
    by (auto simp: clear_of_def set_descriptor_other put32_other)
qed

text \<open>The buffers behind the rings are changed by no store to a ring entry.\<close>

lemma clear_buffer:
  assumes "64 * 4096 \<le> a" "j < 1024" "r < 2" "d < 8"
  shows "clear_of a n (set_descriptor (ring_entry d r (of_nat j)) k x)"
    "clear_of a n (put32 (ring_entry d r (of_nat j)) v)"
    "clear_of a n (put32 (ring_entry d r (of_nat j) + 4) v)"
  using entry_in_ring[OF assms(2,4,3)] assms(1)
  by (auto simp: clear_of_def set_descriptor_other put32_other)

lemma clear_comp: "clear_of a n f \<Longrightarrow> clear_of a n g \<Longrightarrow> clear_of a n (\<lambda>m. f (g m))"
  by (simp add: clear_of_def)

text \<open>The connect and clock entries, and the answer's descriptor, leave all of these alone.\<close>

lemma clear_connect:
  assumes "d < 8"
  shows "2 \<le> i \<Longrightarrow> i < 1024 \<Longrightarrow> clear_of (ring_entry 0 0 (of_nat i)) 16 (connect_entry d)"
    "64 * 4096 \<le> a \<Longrightarrow> clear_of a n (connect_entry d)"
proof -
  show "clear_of (ring_entry 0 0 (of_nat i)) 16 (connect_entry d)" if "2 \<le> i" "i < 1024"
    unfolding connect_entry_def[abs_def]
    by (rule clear_comp[OF clear_entry(3)[where j = 0, simplified] clear_entry(2)[where j = 0, simplified]]) (use that in auto)
  show "clear_of a n (connect_entry d)" if "64 * 4096 \<le> a"
    unfolding connect_entry_def[abs_def]
    by (rule clear_comp[OF clear_buffer(3)[where j = 0, simplified] clear_buffer(2)[where j = 0, simplified]]) (use that assms in auto)
qed

lemma clear_clock:
  "2 \<le> i \<Longrightarrow> i < 1024 \<Longrightarrow> clear_of (ring_entry 0 0 (of_nat i)) 16 (clock_entry now)"
  "64 * 4096 \<le> a \<Longrightarrow> clear_of a n (clock_entry now)"
proof -
  show "clear_of (ring_entry 0 0 (of_nat i)) 16 (clock_entry now)" if "2 \<le> i" "i < 1024"
    unfolding clock_entry_def[abs_def]
    by (rule clear_comp[OF clear_entry(3)[where j = 1, simplified] clear_entry(2)[where j = 1, simplified]]) (use that in auto)
  show "clear_of a n (clock_entry now)" if "64 * 4096 \<le> a"
    unfolding clock_entry_def[abs_def]
    by (rule clear_comp[OF clear_buffer(3)[where j = 1, simplified] clear_buffer(2)[where j = 1, simplified]]) (use that in auto)
qed

section \<open>The chain of vfio_runtime_load\<close>

lemma payload_entry_at:
  "payload_entry p = set_descriptor (ring_entry 0 0 (of_nat (3 + p))) (of_nat (payload_bytes p) div 4)
     (TEST_IOVA + of_nat ((PAYLOAD_PAGE + p) * 4096))"
  by (simp add: payload_entry_def add.commute distrib_right)

lemma payload_entries:
  assumes "p < n" "n \<le> 1021"
  shows "get32 (fold payload_entry [0..<n] m) (ring_entry 0 0 (of_nat (3 + p))) =
      0x80000000 OR of_nat (payload_bytes p) div 4"
    "join_64 (get32 (fold payload_entry [0..<n] m) (ring_entry 0 0 (of_nat (3 + p)) + 8))
      (get32 (fold payload_entry [0..<n] m) (ring_entry 0 0 (of_nat (3 + p)) + 12)) =
      TEST_IOVA + of_nat ((PAYLOAD_PAGE + p) * 4096)"
proof -
  let ?E = "ring_entry 0 0 (of_nat (3 + p))"
  have rest: "get32 (fold payload_entry [0..<n] m) (?E + k) = get32 (payload_entry p (fold payload_entry [0..<p] m)) (?E + k)"
    if "k + 4 \<le> 16" for k
    using assms
  proof (induction n)
    case (Suc n)
    show ?case
    proof (cases "p = n")
      case False
      then have "clear_of ?E 16 (payload_entry n)"
        unfolding payload_entry_at by (intro clear_entry(1)) (use Suc.prems in auto)
      then have "get32 (payload_entry n (fold payload_entry [0..<n] m)) (?E + k) =
          get32 (fold payload_entry [0..<n] m) (?E + k)"
        by (rule get32_clear) (use that in auto)
      then show ?thesis using Suc False by simp
    qed simp
  qed simp
  from rest[of 0] rest[of 8] rest[of 12] show "get32 (fold payload_entry [0..<n] m) ?E = 0x80000000 OR of_nat (payload_bytes p) div 4"
    "join_64 (get32 (fold payload_entry [0..<n] m) (?E + 8)) (get32 (fold payload_entry [0..<n] m) (?E + 12)) =
      TEST_IOVA + of_nat ((PAYLOAD_PAGE + p) * 4096)"
    unfolding payload_entry_at by (simp_all only: add_0_right descriptor_words)
qed

lemma payload_clear:
  assumes "n \<le> 1021"
  shows "clear_of (ring_entry 0 0 (of_nat 2)) 16 (fold payload_entry [0..<n])"
    "64 * 4096 \<le> a \<Longrightarrow> clear_of a k (fold payload_entry [0..<n])"
proof -
  show "clear_of (ring_entry 0 0 (of_nat 2)) 16 (fold payload_entry [0..<n])"
    by (rule clear_fold, unfold payload_entry_at, rule clear_entry(1)) (use assms in auto)
  show "clear_of a k (fold payload_entry [0..<n])" if "64 * 4096 \<le> a"
    by (rule clear_fold, unfold payload_entry_at, rule clear_buffer(1)) (use that assms in auto)
qed

text \<open>The buffers of the chain hold the two command words and the image.\<close>

lemma runtime_buffers:
  assumes "65 * 4096 \<le> a"
  shows "map (rt_memory data now) [a..<a + n] =
    map (put32 (HEADER_PAGE * 4096 + 4) (rt_loader_command 1)
      (put32 (HEADER_PAGE * 4096) (rt_loader_command 0) (rt_image data))) [a..<a + n]"
proof -
  have a: "64 * 4096 \<le> a" using assms by simp
  have connects: "clear_of a n (fold connect_entry [0..<8])"
    by (rule clear_fold, rule clear_connect(2)) (use a in simp_all)
  have payload: "clear_of a n (fold payload_entry [0..<625])"
    by (rule payload_clear(2)[OF _ a]) simp
  have entries: "clear_of a n (set_descriptor (ring_entry 0 0 2) w x)"
    "clear_of a n (set_descriptor (ring_entry 0 1 0) w x)" for w x
    using clear_buffer(1)[OF a, where d = 0 and r = 0 and j = 2] clear_buffer(1)[OF a, where d = 0 and r = 1 and j = 0]
    by simp_all
  show ?thesis
    unfolding rt_memory_def rt_entries_def Let_def
    by (simp only: page_counts map_clear[OF payload] map_clear[OF entries(1)] map_clear[OF entries(2)]
        map_clear[OF clear_clock(2)[OF a]] map_clear[OF connects])
qed

lemma put32_bytes: "map (put32 a v m) [a..<a + 4] = word_bytes v"
  by (rule nth_equalityI) (auto simp: word_bytes_def put32_def less_Suc_eq numeral_eq_Suc)

lemma put32_clear: "b + 4 \<le> a \<or> a + n \<le> b \<Longrightarrow> clear_of a n (put32 b v)"
  by (auto simp: clear_of_def put32_other)

lemma store_bytes_slice:
  "q + n \<le> length data \<Longrightarrow> map (store_bytes b data m) [b + q..<b + q + n] = take n (drop q data)"
  by (rule nth_equalityI) (auto simp: store_bytes_def)

lemma runtime_header:
  "described (rt_memory data now) 2 = word_bytes (rt_loader_command 0) @ word_bytes (rt_loader_command 1)"
proof -
  let ?E = "ring_entry 0 0 (of_nat 2)"
  let ?m = "set_descriptor ?E 2 (TEST_IOVA + of_nat HEADER_PAGE * 4096)
    (set_descriptor (ring_entry 0 1 0) 4 (TEST_IOVA + of_nat RESPONSE_PAGE * 4096)
      (clock_entry now (fold connect_entry [0..<8] (put32 (HEADER_PAGE * 4096 + 4) (rt_loader_command 1)
        (put32 (HEADER_PAGE * 4096) (rt_loader_command 0) (rt_image data))))))"
  have mem: "rt_memory data now = fold payload_entry [0..<625] ?m"
    unfolding rt_memory_def rt_entries_def Let_def page_counts by simp
  have c: "clear_of ?E 16 (fold payload_entry [0..<625])" by (rule payload_clear(1)) simp
  have w: "get32 (rt_memory data now) (?E + k) = get32 ?m (?E + k)" if "k + 4 \<le> 16" for k
    unfolding mem by (rule get32_clear[OF c]) (use that in auto)
  have "described (rt_memory data now) 2 =
      map (rt_memory data now) [HEADER_PAGE * 4096..<HEADER_PAGE * 4096 + 4 * unat (2 :: u32)]"
    by (rule described_by)
      (use w[of 0] w[of 8] w[of 12] in \<open>simp_all only: add_0_right descriptor_words\<close>, simp_all)
  also have "\<dots> = map (put32 (HEADER_PAGE * 4096 + 4) (rt_loader_command 1)
      (put32 (HEADER_PAGE * 4096) (rt_loader_command 0) (rt_image data)))
      ([HEADER_PAGE * 4096..<HEADER_PAGE * 4096 + 4] @ [HEADER_PAGE * 4096 + 4..<HEADER_PAGE * 4096 + 4 + 4])"
    using runtime_buffers[of "HEADER_PAGE * 4096" data now 8]
      upt_add_eq_append[of "HEADER_PAGE * 4096" "HEADER_PAGE * 4096 + 4" 4] by simp
  also have "\<dots> = word_bytes (rt_loader_command 0) @ word_bytes (rt_loader_command 1)"
    unfolding map_append put32_bytes
    by (subst map_clear[OF put32_clear]) (simp_all only: put32_bytes, simp)
  finally show ?thesis .
qed

lemma runtime_page:
  assumes "p < 625" "length data = EXPECTED_FILE_SIZE"
  shows "described (rt_memory data now) (3 + p) = take 4096 (drop (p * 4096) data)"
proof -
  let ?a = "(PAYLOAD_PAGE + p) * 4096"
  let ?n = "of_nat (payload_bytes p) div 4 :: u32"
  have b: "payload_bytes p \<le> 4096" "payload_bytes p = min 4096 (EXPECTED_FILE_SIZE - p * 4096)"
    by (simp_all add: payload_bytes_def Let_def)
  obtain q where q: "payload_bytes p = 4 * q" "q \<le> 1024"
  proof (cases "4096 < EXPECTED_FILE_SIZE - p * 4096")
    case True
    then show ?thesis using that[of 1024] by (simp add: payload_bytes_def)
  next
    case False
    then show ?thesis using that[of "639524 - p * 1024"] by (simp add: payload_bytes_def)
  qed
  have n: "unat ?n = q"
    using q by (simp add: unat_div unat_of_nat take_bit_nat_eq_self del: of_nat_mult)
  have "get32 (rt_memory data now) (ring_entry 0 0 (of_nat (3 + p))) = 0x80000000 OR ?n"
    "join_64 (get32 (rt_memory data now) (ring_entry 0 0 (of_nat (3 + p)) + 8))
      (get32 (rt_memory data now) (ring_entry 0 0 (of_nat (3 + p)) + 12)) = TEST_IOVA + of_nat ?a"
    unfolding rt_memory_def rt_entries_def Let_def page_counts
    by (rule payload_entries; use assms(1) in simp)+
  then have "described (rt_memory data now) (3 + p) = map (rt_memory data now) [?a..<?a + 4 * unat ?n]"
    by (rule described_by) (use assms(1) n q(2) in \<open>simp_all add: word_less_nat_alt\<close>)
  also have "\<dots> = map (rt_image data) [?a..<?a + payload_bytes p]"
  proof -
    have "clear_of ?a (payload_bytes p) (put32 (HEADER_PAGE * 4096 + 4) v)"
      "clear_of ?a (payload_bytes p) (put32 (HEADER_PAGE * 4096) v)" for v
      by (rule put32_clear; simp)+
    then show ?thesis
      unfolding n q(1)[symmetric] by (subst runtime_buffers) (simp_all only: map_clear, simp)
  qed
  also have "\<dots> = take (payload_bytes p) (drop (p * 4096) data)"
    using store_bytes_slice[of "p * 4096" "payload_bytes p" data "PAYLOAD_PAGE * 4096"] b(2) assms
    by (simp add: rt_image_def distrib_right)
  also have "\<dots> = take 4096 (drop (p * 4096) data)"
    using assms(2) by (simp add: b(2) min_def)
  finally show ?thesis .
qed

lemma runtime_chain:
  assumes "length data = EXPECTED_FILE_SIZE"
  shows "offered (rt_memory data now) 2 628 =
    word_bytes (rt_loader_command 0) @ word_bytes (rt_loader_command 1) @ data"
proof -
  have "[2..<628] = 2 # map (\<lambda>p. 3 + p) [0..<625]"
    using upt_conv_Cons[of 2 628] map_add_upt[of 3 625] by (simp add: add.commute)
  then have "offered (rt_memory data now) 2 628 = described (rt_memory data now) 2 @
      concat (map (\<lambda>p. described (rt_memory data now) (3 + p)) [0..<625])"
    by (simp add: offered_def comp_def)
  also have "map (\<lambda>p. described (rt_memory data now) (3 + p)) [0..<625] =
      map (\<lambda>p. take 4096 (drop (p * 4096) data)) [0..<625]"
    by (rule map_cong[OF refl]) (use runtime_page assms in simp)
  also have "concat \<dots> = data" unfolding concat_chunks using assms by simp
  finally show ?thesis by (simp add: runtime_header)
qed

section \<open>The chain of vfio_loader_rejection\<close>

lemma store_bytes_clear: "b + length data \<le> a \<or> a + n \<le> b \<Longrightarrow> clear_of a n (store_bytes b data)"
  by (auto simp: clear_of_def store_bytes_def)

lemma loader_buffers:
  assumes "64 * 4096 \<le> a"
  shows "map (lr_memory single data now) [a..<a + n] = map (lr_image single data) [a..<a + n]"
proof -
  have connects: "clear_of a n (fold connect_entry [0..<8])"
    by (rule clear_fold, rule clear_connect(2)) (use assms in simp_all)
  have entries: "clear_of a n (set_descriptor (ring_entry 0 0 2) w x)"
    "clear_of a n (set_descriptor (ring_entry 0 0 3) w x)"
    "clear_of a n (set_descriptor (ring_entry 0 1 0) w x)" for w x
    using clear_buffer(1)[OF assms, where d = 0 and r = 0 and j = 2] clear_buffer(1)[OF assms, where d = 0 and r = 0 and j = 3]
      clear_buffer(1)[OF assms, where d = 0 and r = 1 and j = 0]
    by simp_all
  show ?thesis
    unfolding lr_memory_def loader_entries_def Let_def
    by (cases single) (simp_all only: if_True if_False simp_thms map_clear[OF entries(1)] map_clear[OF entries(2)]
        map_clear[OF entries(3)] map_clear[OF clear_clock(2)[OF assms]] map_clear[OF connects])
qed

lemma loader_payload_words:
  assumes "lr_payload single n"
  obtains q where "n = 4 * q" "q \<le> 1024" "single \<Longrightarrow> q \<le> 1022" "unat (of_nat n div 4 :: u32) = q"
proof -
  obtain q where q: "n = 4 * q" using assms by (auto simp: lr_payload_def)
  then have "q \<le> 1024" "single \<Longrightarrow> q \<le> 1022" using assms by (auto simp: lr_payload_def split: if_splits)
  moreover from this have "unat (of_nat n div 4 :: u32) = q"
    using q by (simp add: unat_div unat_of_nat take_bit_nat_eq_self del: of_nat_mult)
  ultimately show thesis using that q by blast
qed

lemma loader_header_word:
  "map (lr_image single data) [HEADER_PAGE * 4096..<HEADER_PAGE * 4096 + 4] = word_bytes (loader_word (length data))"
proof -
  let ?a = "HEADER_PAGE * 4096"
  have "clear_of ?a 4 (put32 (PAYLOAD_PAGE * 4096) v)" "clear_of ?a 4 (put32 (?a + 4) v)"
    "clear_of ?a 4 (store_bytes (PAYLOAD_PAGE * 4096) data)" "clear_of ?a 4 (store_bytes (?a + 8) data)" for v
    by (rule put32_clear store_bytes_clear; simp)+
  note c = this[THEN map_clear]
  show ?thesis
    unfolding lr_image_def lr_fill_def Let_def
    by (cases single) (simp_all only: if_True if_False c put32_bytes)
qed

lemma loader_chain:
  assumes "lr_payload single (length data)"
  shows "offered (lr_memory single data now) 2 (if single then 3 else 4) =
    word_bytes (loader_word (length data)) @ (if single then word_bytes LOADER_RESPONSE_CLASS else []) @ data"
proof -
  let ?m = "lr_memory single data now"
  let ?a = "HEADER_PAGE * 4096"
  let ?p = "PAYLOAD_PAGE * 4096"
  obtain q where q: "length data = 4 * q" "q \<le> 1024" "single \<Longrightarrow> q \<le> 1022"
    "unat (of_nat (length data) div 4 :: u32) = q"
    using loader_payload_words[OF assms] by blast
  show ?thesis
  proof (cases single)
    case True
    let ?n = "of_nat (length data) div 4 + 2 :: u32"
    have n: "unat ?n = q + 2" using q True by (simp add: unat_word_ariths)
    have "described ?m 2 = map ?m [?a..<?a + 4 * unat ?n]"
      by (rule described_by) (use True q n in \<open>simp_all add: lr_memory_def loader_entries_def Let_def descriptor_words
        word_less_nat_alt\<close>)
    also have "\<dots> = map (lr_image True data) [?a..<?a + 4 * unat ?n]"
      using loader_buffers[of ?a] True by simp
    also have "[?a..<?a + 4 * unat ?n] = [?a..<?a + 4] @ [?a + 4..<?a + 4 + 4] @ [?a + 8..<?a + 8 + 4 * q]"
      using n upt_add_eq_append[of ?a "?a + 4" "4 * q + 4"] upt_add_eq_append[of "?a + 4" "?a + 8" "4 * q"] by simp
    also have "map (lr_image True data) \<dots> = word_bytes (loader_word (length data)) @
        word_bytes LOADER_RESPONSE_CLASS @ data"
    proof -
      have c: "clear_of (?a + 4) 4 (store_bytes (?a + 8) data)" by (rule store_bytes_clear) simp
      have "map (lr_image True data) [?a + 4..<?a + 4 + 4] = word_bytes LOADER_RESPONSE_CLASS"
        unfolding lr_image_def Let_def if_True map_clear[OF c] put32_bytes by simp
      moreover have "map (lr_image True data) [?a + 8..<?a + 8 + 4 * q] = data"
        using store_bytes_slice[of 0 "length data" data "?a + 8"] q(1)
        by (simp add: lr_image_def Let_def)
      ultimately show ?thesis by (simp only: map_append loader_header_word)
    qed
    finally show ?thesis using True by (simp add: offered_def upt_rec)
  next
    case False
    let ?n = "of_nat (length data) div 4 :: u32"
    have other: "get32 (set_descriptor (ring_entry 0 0 3) w x m) (ring_entry 0 0 2 + k) = get32 m (ring_entry 0 0 2 + k)"
      if "k + 4 \<le> 16" for k w x m
      by (rule get32_descriptor_other) (use that in \<open>simp add: ring_entry_def\<close>)
    have "described ?m 2 = map ?m [?a..<?a + 4 * unat (1 :: u32)]"
      by (rule described_by)
        (use False other[of 0] other[of 8] other[of 12] in
          \<open>simp_all add: lr_memory_def loader_entries_def Let_def descriptor_words word_less_nat_alt\<close>)
    also have "\<dots> = word_bytes (loader_word (length data))"
      using loader_buffers[of ?a single data now 4] loader_header_word[of single data] by simp
    finally have two: "described ?m 2 = word_bytes (loader_word (length data))" .
    have "described ?m 3 = map ?m [?p..<?p + 4 * unat ?n]"
      by (rule described_by) (use False q in \<open>simp_all add: lr_memory_def loader_entries_def Let_def descriptor_words
        word_less_nat_alt\<close>)
    also have "\<dots> = map (lr_image single data) [?p..<?p + length data]"
      unfolding q(4) q(1)[symmetric] by (rule loader_buffers) simp
    also have "\<dots> = data"
      using store_bytes_slice[of 0 "length data" data ?p] False by (simp add: lr_image_def Let_def)
    finally show ?thesis using False two by (simp add: offered_def upt_rec)
  qed
qed

end
