(* ===== verification/Command_Live.thy ===== *)
theory Command_Live
  imports Command_Tool Card_Session
begin

text \<open>
  The command tools on a card that serves its rings: as documented for the idle card, and a ring
  whose index is stored is consumed up to it, with a reply in the response buffer once the
  response ring is offered. With a host on which every call succeeds each phase then succeeds.
\<close>

section \<open>A card that serves its rings\<close>

definition serving_word :: "(u32 \<Rightarrow> u32 option) \<Rightarrow> nat \<Rightarrow> nat \<Rightarrow> nat \<Rightarrow> u32" where
  "serving_word k d r w =
     (if w = 10 then stored_at k (ring_reg d r 8) 0 else ring_word k d r w)"

definition serving_hw :: "hw \<Rightarrow> bool" where
  "serving_hw hw \<longleftrightarrow> (\<forall>h.
     hw h DMA_CONTROL = stored_at (shadow h) DMA_CONTROL DMA_COLD_RESET \<and>
     hw h INTERRUPT_ENABLE = stored_at (shadow h) INTERRUPT_ENABLE 0 \<and>
     hw h FPGA_REVISION = EXPECTED_FPGA_REVISION \<and>
     (\<forall>d<8. hw h (boot_offsets ! d) AND 1 \<noteq> 0) \<and>
     (\<forall>d<8. \<forall>r<2. \<forall>w<16. hw h (ring_reg d r w) = serving_word (shadow h) d r w))"

text \<open>The host of a serving card; the reply is the first word of the response.\<close>

definition serving_env :: "vfio_env \<Rightarrow> u32 \<Rightarrow> bool" where
  "serving_env e reply \<longleftrightarrow>
     good_env (e\<lparr>answer := octo_card, ram_view := \<lambda>_ m. m\<rparr>) \<and> serving_hw (answer e) \<and>
     (\<forall>h m. ram_view e h m =
       (if shadow h (ring_reg 0 1 8) \<in> {None, Some 0} then m else put32 (RESPONSE_PAGE * 4096) reply m))"

definition serving_card :: hw where
  "serving_card h off =
     (if off \<in> set (map (\<lambda>(d, r). ring_reg d r 10) (List.product [0..<8] [0..<2]))
      then stored_at (shadow h) (off - 8) 0 else octo_card h off)"

definition serving_demo :: "nat \<Rightarrow> u32 \<Rightarrow> vfio_env" where
  "serving_demo bytes reply = (demo_env bytes)\<lparr>answer := serving_card, ram_view := \<lambda>h m.
     if shadow h (ring_reg 0 1 8) \<in> {None, Some 0} then m else put32 (RESPONSE_PAGE * 4096) reply m\<rparr>"

lemma position_reg:
  assumes "d < 8" "r < 2" "w < 16"
  shows "ring_reg d r w \<in> set (map (\<lambda>(d, r). ring_reg d r 10) (List.product [0..<8] [0..<2])) \<longleftrightarrow> w = 10"
  using assms by (auto simp: ring_reg_eq_iff image_iff)

lemma serving_card_serves: "serving_hw serving_card"
proof -
  have eight: "ring_reg d r 10 - 8 = ring_reg d r 8" for d r by (simp flip: ring_reg_words(1,3))
  have ring: "serving_card h (ring_reg d r w) = serving_word (shadow h) d r w" if "d < 8" "r < 2" "w < 16" for h d r w
    using position_reg[OF that] card_reads(6)[OF octo_card_octo that, of h]
    by (simp add: serving_card_def serving_word_def eight del: set_map)
  have other: "serving_card h a = octo_card h a" if "\<And>d r. d < 8 \<Longrightarrow> r < 2 \<Longrightarrow> a \<noteq> ring_reg d r 10" for h a
  proof -
    have "a \<notin> set (map (\<lambda>(d, r). ring_reg d r 10) (List.product [0..<8] [0..<2]))"
      using that by fastforce
    then show ?thesis by (simp only: serving_card_def if_False)
  qed
  have ready: "boot_offsets ! d \<noteq> ring_reg c r 10" if "d < 8" "c < 8" "r < 2" for d c r
    using ring_reg_not_ready[OF that(2,3), of 10] nth_mem[of d boot_offsets] that(1)
    by (auto simp: boot_offsets_ready uad2_ready_offsets_def)
  have globals: "serving_card h a = octo_card h a" if "0x2200 \<le> unat a" "unat a < 0x6000" for h a
    by (rule other) (use ring_reg_not_global(2) that in simp)
  have "serving_card h (boot_offsets ! d) = octo_card h (boot_offsets ! d)" if "d < 8" for h d
    by (rule other) (use ready that in simp)
  then show ?thesis
    unfolding serving_hw_def using ring globals card_reads[OF octo_card_octo] by simp
qed

lemma serving_demo_serves: "serving_env (serving_demo bytes reply) reply" "unmap_ok (serving_demo bytes reply) bytes"
  using demo_env_good[of bytes] serving_card_serves
  by (simp_all add: serving_env_def serving_demo_def good_env_def unmap_ok_def demo_env_def)

section \<open>Scans of a serving card\<close>

lemma serving_reads:
  assumes "serving_hw hw"
  shows "hw h DMA_CONTROL = stored_at (shadow h) DMA_CONTROL DMA_COLD_RESET"
    "hw h INTERRUPT_ENABLE = stored_at (shadow h) INTERRUPT_ENABLE 0"
    "hw h FPGA_REVISION = EXPECTED_FPGA_REVISION"
    "d < 8 \<Longrightarrow> hw h (boot_offsets ! d) AND 1 \<noteq> 0"
    "d < 8 \<Longrightarrow> r < 2 \<Longrightarrow> w < 16 \<Longrightarrow> hw h (ring_reg d r w) = serving_word (shadow h) d r w"
    "d < 8 \<Longrightarrow> r < 2 \<Longrightarrow> hw h (ring_reg d r 10) = stored_at (shadow h) (ring_reg d r 8) 0"
  using assms by (simp_all add: serving_hw_def serving_word_def)

definition rings_cold :: "(u32 \<Rightarrow> u32 option) \<Rightarrow> bool" where
  "rings_cold k \<longleftrightarrow> (\<forall>d<8. \<forall>r<2. \<forall>w<10. stored_at k (ring_reg d r w) 0 = 0) \<and>
     stored_at k DMA_CONTROL DMA_COLD_RESET = DMA_COLD_RESET"

lemma rings_cold_start: "rings_cold Map.empty"
  by (simp add: rings_cold_def stored_at_def)

lemma meets_serving:
  assumes "serving_hw (answer e)"
  shows "meets (all_ready e) (\<lambda>_. True)" "meets (all_rings_zero e) rings_cold"
    "meets (read_is (read32 e) DMA_CONTROL DMA_COLD_RESET) rings_cold"
    "meets (read_is (read32 e) INTERRUPT_ENABLE 0) (\<lambda>k. k = Map.empty)"
proof -
  have rd: "read32 e = bus_read (answer e)" by (simp add: read32_def fun_eq_iff)
  note s = serving_reads[OF assms]
  show "meets (all_ready e) (\<lambda>_. True)"
    unfolding all_ready_def scan_ready_def rd
    by (rule meets_mono[OF meets_upt[OF meets_bus_read[where R = "\<lambda>_. True"]]]) (simp_all add: s(4))
  show "meets (all_rings_zero e) rings_cold"
    unfolding all_rings_zero_def scan_rings_def rd
    by (rule meets_mono[OF meets_upt[OF meets_upt[OF meets_upt[OF meets_bus_read[where R = rings_cold]]]]])
      (simp_all add: ring_base_word s(5) serving_word_def ring_word_def rings_cold_def)
  show "meets (read_is (read32 e) DMA_CONTROL DMA_COLD_RESET) rings_cold"
    unfolding rd by (rule meets_read_is) (simp only: s rings_cold_def simp_thms)
  show "meets (read_is (read32 e) INTERRUPT_ENABLE 0) (\<lambda>k. k = Map.empty)"
    unfolding rd by (rule meets_read_is) (simp only: s stored_at_def option.case)
qed

lemma meets_cold_card:
  assumes "serving_hw (answer e)"
  shows "meets (cold_card e) (\<lambda>k. k = Map.empty)"
  unfolding cold_card_def
  by (rule meets_mono[OF meets_and_m[OF meets_serving(2)[OF assms] meets_and_m[OF meets_serving(1)[OF assms]
      meets_and_m[OF meets_serving(3)[OF assms] meets_serving(4)[OF assms]]]]])
    (simp add: rings_cold_start)

lemma meets_fold:
  assumes "\<And>d h. d \<in> set ds \<Longrightarrow> R (shadow h) \<Longrightarrow> answer e h (reg d) = x d"
  shows "meets (fold_m (\<lambda>d ok. do { v \<leftarrow> (read32 e (reg d) :: ('a command_session_scheme, u32) state);
     State_Monad.return (ok \<and> v = x d) }) ds True) R"
  using assms
proof (induction ds)
  case Nil
  then show ?case using meets_mono[OF meets_true, of R] by simp
next
  case (Cons d ds)
  show ?case
  proof (rule meetsI)
    fix s :: "'a command_session_scheme"
    assume s: "R (shadow (log s))"
    let ?tail = "fold_m (\<lambda>d ok. do { v \<leftarrow> (read32 e (reg d) :: ('a command_session_scheme, u32) state); State_Monad.return (ok \<and> v = x d) }) ds True"
    let ?t = "s\<lparr>log := Rd (reg d) (x d) # log s\<rparr>"
    have tail: "meets ?tail R" by (rule Cons.IH) (use Cons.prems in simp)
    have "wp ?tail (\<lambda>b t. b \<and> (\<exists>rs. reads rs \<and> t = s\<lparr>log := rs @ log s\<rparr>)) ?t"
    proof (rule meets_wp[OF tail])
      fix rs :: history
      assume "reads rs"
      then show "True \<and> (\<exists>qs. reads qs \<and> ?t\<lparr>log := rs @ log ?t\<rparr> = s\<lparr>log := qs @ log s\<rparr>)"
        by (intro conjI TrueI exI[of _ "rs @ [Rd (reg d) (x d)]"]) simp_all
    qed (use s in simp)
    then show "wp (fold_m (\<lambda>d ok. do { v \<leftarrow> read32 e (reg d); State_Monad.return (ok \<and> v = x d) }) (d # ds) True)
        (\<lambda>b t. b \<and> (\<exists>rs. reads rs \<and> t = s\<lparr>log := rs @ log s\<rparr>)) s"
      using Cons.prems[of d "log s"] s by (simp add: read32_def wp_bind wp_bus_read wp_return)
  qed
qed

section \<open>The phases on a serving card\<close>

lemma serving_quiet:
  assumes "serving_env e reply"
  shows "\<not> ever (signalled e) h"
  using never_interrupted[of "e\<lparr>answer := octo_card, ram_view := \<lambda>_ m. m\<rparr>" h] assms
  by (simp add: serving_env_def)

text \<open>A polling loop that leaves in its first turn.\<close>

lemma poll_once_wp:
  assumes "serving_env e reply" "0 < k" "wp (body n) (\<lambda>b u. b \<and> Q n u) s"
  shows "wp (poll_until e k n body) Q s"
proof -
  obtain l where k: "k = Suc l" using assms(2) by (cases k) auto
  have "wp (body n) (\<lambda>leave. wp (if leave then State_Monad.return n
      else do { nanosleep 1000000; poll_until e l (n + 1) body }) Q) s"
    by (rule wp_mono[OF assms(3)]) (simp add: wp_return)
  then show ?thesis
    using serving_quiet[OF assms(1), of "log s"]
    by (simp only: k poll_until.simps wp_bind interrupted_def wp_gets if_False)
qed

text \<open>The positions as stored, and the words of the last stores.\<close>

definition offering :: "u32 \<Rightarrow> u32 \<Rightarrow> history \<Rightarrow> bool" where
  "offering cp rp h \<longleftrightarrow> shadow h (ring_reg 0 0 8) = Some cp \<and> shadow h (ring_reg 0 1 8) = Some rp"

lemma offering_reads [simp]: "reads rs \<Longrightarrow> offering cp rp (rs @ h) = offering cp rp h"
  by (simp add: offering_def)

lemma offering_read [simp]: "offering cp rp (Rd a v # h) = offering cp rp h"
  by (simp add: offering_def)

lemma offering_submit: "offering cp rp (log (after (submit_stores rp cp x y) s))"
  unfolding offering_def after_def submit_stores_def
  by (simp add: ring_reg_def ring_addr_def)

lemma positions_read:
  assumes "serving_env e reply" "offering cp rp h"
  shows "answer e h (ring_reg 0 0 10) = cp" "answer e h (ring_reg 0 1 10) = rp"
  using serving_reads(6)[of "answer e" 0 _ h] assms
  by (simp_all add: serving_env_def offering_def stored_at_def)

lemma reply_read:
  assumes "serving_env e reply" "offering cp rp h" "rp \<noteq> 0"
  shows "ram_view e h m = put32 (RESPONSE_PAGE * 4096) reply m"
  using assms by (simp add: serving_env_def offering_def)

lemma connects_live:
  assumes "serving_env e reply"
  shows "meets (fold_m (\<lambda>dsp ok. do { v \<leftarrow> read32 e (dsp_banks ! dsp + 0x28);
        State_Monad.return (ok \<and> v = (if dsp = 0 then 2 else 1)) }) [0..<8] True)
      (\<lambda>k. \<forall>d<8. k (ring_reg d 0 8) = Some (if d = 0 then 2 else 1))"
  by (rule meets_fold)
    (use assms in \<open>simp add: command_regs serving_reads(6) serving_env_def stored_at_def\<close>)

lemma connect_last:
  assumes "d < 8"
  shows "map_of (rev connect_stores) (ring_reg d 0 8) = Some (if d = 0 then 2 else 1)"
proof (cases "d = 0")
  case True
  then show ?thesis by (simp add: connect_stores_def)
next
  case False
  have n: "INTERRUPT_ENABLE \<noteq> ring_reg d 0 8" by (rule ring_reg_not_global(2)) (use assms in simp_all)
  have "map_of (rev connect_stores) (ring_reg d 0 8) = Some 1"
  proof (rule last_store)
    show "(ring_reg d 0 8, 1) \<in> set connect_stores" using assms by (auto simp: connect_stores_def)
  next
    fix x
    assume "(ring_reg d 0 8, x) \<in> set connect_stores"
    then show "x = 1"
      using assms False n by (auto simp: connect_stores_def ring_reg_eq_iff)
  qed
  then show ?thesis using False by simp
qed

lemma await_connects_live:
  assumes "serving_env e reply" "0 < k" "\<forall>d<8. shadow (log s) (ring_reg d 0 8) = Some (if d = 0 then 2 else 1)"
    and "\<And>rs. reads rs \<Longrightarrow> Q 0 (s\<lparr>log := rs @ log s, connects_consumed := True\<rparr>)"
  shows "wp (await_connects e k) Q s"
  unfolding await_connects_def
proof (rule poll_once_wp[OF assms(1,2)])
  show "wp (connects_turn e) (\<lambda>b u. b \<and> Q 0 u) s"
    unfolding connects_turn_def wp_bind
    by (rule meets_wp[OF connects_live[OF assms(1)]]) (use assms(3,4) in \<open>simp_all add: wp_simps\<close>)
qed

lemma await_answer_live:
  assumes "serving_env e reply" "0 < k" "offering cp rp (log s)" "rp \<noteq> 0" "reply \<noteq> CANARY_WORD"
    and "\<And>rs. reads rs \<Longrightarrow> Q () (s\<lparr>log := rs @ log s, polls := 0\<rparr>)"
  shows "wp (await_answer e k cp rp) Q s"
  unfolding await_answer_def wp_bind
proof (rule poll_once_wp[OF assms(1,2)])
  let ?xs = "[Rd (ring_reg 0 1 10) rp, Rd (ring_reg 0 0 10) cp]"
  show "wp (answer_turn e cp rp) (\<lambda>b u. b \<and> wp (modify (\<lambda>s. s\<lparr>polls := 0\<rparr>)) Q u) s"
    using assms(6)[of ?xs] assms(3-5) positions_read[OF assms(1)] reply_read[OF assms(1)]
    by (simp add: answer_turn_def read32_def load_word_def command_regs0 response_regs wp_simps get32_put32)
qed

lemma check_positions_live:
  assumes "serving_env e reply" "offering cp rp (log s)"
    and "\<And>rs. reads rs \<Longrightarrow> Q () (s\<lparr>log := rs @ log s, command_consumed := True, response_consumed := True\<rparr>)"
  shows "wp (check_positions e cp rp) Q s"
proof -
  let ?xs = "[Rd (ring_reg 0 1 10) rp, Rd (ring_reg 0 0 10) cp]"
  have swap_update: "s\<lparr>log := l, command_consumed := b\<rparr> = s\<lparr>command_consumed := b, log := l\<rparr>" for l b
    by (cases s) simp
  show ?thesis
    using assms(3)[of ?xs, unfolded swap_update] positions_read[OF assms(1)] assms(2)
    by (simp add: check_positions_def read_is_def read32_def command_regs0 response_regs wp_simps)
qed

lemma check_memory_live:
  assumes "serving_env e reply"
    and "\<And>rs. reads rs \<Longrightarrow> Q () (s\<lparr>log := rs @ log s, ready_after := True, memory_bounded :=
        same_bytes regions (ram_view e (rs @ log s) (ram s)) (the (heap_copy s))\<rparr>)"
  shows "wp (check_memory e regions) Q s"
  unfolding check_memory_def wp_bind wp_modify
  by (rule meets_wp[OF meets_serving(1)]) (use assms in \<open>simp_all add: serving_env_def\<close>)

section \<open>Restore, reset and the whole program\<close>

lemma cold_after_restore: "rings_cold (shadow (log (after restore_stores s)))"
proof -
  have "shadow (log (after restore_stores s)) = shadow (log s) ++ map_of (rev restore_stores)"
    by (rule shadow_after) simp
  then show ?thesis
    using restore_dma by (simp add: rings_cold_def stored_at_def map_add_find_right restore_ring)
qed

definition live_cold :: "'a command_session_scheme \<Rightarrow> bool" where
  "live_cold s \<longleftrightarrow> exit_success s \<and> rings_cold (shadow (log s)) \<and> bar_ok s \<and> \<not> device_fd s < 0"

lemma cmd_restore_live:
  assumes "serving_env e reply" "exit_success s" "startup s" "armed s"
  shows "wp (cmd_restore e) (\<lambda>_. live_cold) s"
proof -
  have hw: "serving_hw (answer e)" using assms(1) by (simp add: serving_env_def)
  have h: "bar_ok s" "\<not> device_fd s < 0" using armed_handles[OF assms(4)] by simp_all
  let ?t = "after restore_stores s"
  have t: "exit_success ?t" "bar_ok ?t" "\<not> device_fd ?t < 0" using assms(2) h by (simp_all add: after_def)
  show ?thesis
    unfolding cmd_restore_def wp_when_m if_P[OF conjI[OF assms(3) h(1)]] wp_bind[of "restore_card _"]
      stores_after[OF cmd_port.stores_restore] unfolding wp_bind
    by (rule meets_wp[OF meets_and_m[OF meets_serving(2)[OF hw] meets_serving(3)[OF hw]]])
      (use t cold_after_restore[of s] in \<open>simp_all add: wp_simps live_cold_def\<close>)
qed

lemma cmd_reset_live:
  assumes "serving_env e reply" "live_cold s"
  shows "wp (cmd_reset e) (\<lambda>_. exit_success) s"
proof -
  have hw: "serving_hw (answer e)" using assms(1) by (simp add: serving_env_def)
  have r: "device_reset e = 0" using assms(1) by (simp add: serving_env_def good_env_def)
  have s: "\<not> device_fd s < 0 \<and> bar_ok s" using assms(2) by (simp add: live_cold_def)
  show ?thesis
    unfolding cmd_reset_def wp_when_m if_P[OF s] reset_device_def wp_bind wp_emit wp_return r
    by (rule meets_wp[OF meets_and_m[OF meets_check meets_and_m[OF meets_serving(2)[OF hw]
            meets_and_m[OF meets_serving(3)[OF hw] meets_serving(1)[OF hw]]]]])
      (use assms(2) in \<open>simp_all add: live_cold_def wp_simps\<close>)
qed

lemma close_live:
  "unmapped \<Longrightarrow> preserves exit_success (close_card unmapped)" "preserves exit_success close_host"
  "preserves exit_success close_input" "preserves exit_success (report_lines f)"
  unfolding close_card_def close_host_def close_input_def report_lines_def release_bar_def release_device_def
    release_memory_def free_snapshot_def detach_group_def release_group_def release_container_def
  by (intro preserves_intros preserves_modify; auto simp: preserves_def wp_simps)+

context command_tool
begin

text \<open>A tool whose preparation and run succeed, on a serving card, exits with status 0.\<close>

lemma succeeds:
  assumes "serving_env e reply"
    and prep: "wp prepare (\<lambda>ok t. ok \<and> ready t) start"
    and runs: "\<And>s. ready s \<Longrightarrow> prepared s \<Longrightarrow> \<not> exit_success s \<Longrightarrow> writes (log s) = [] \<Longrightarrow> wp run (\<lambda>_. exit_success) s"
    and rest: "preserves exit_success rest"
  shows "wp (do { ok \<leftarrow> prepare;
     (if ok then run else State_Monad.return ());
     cmd_cleanup e;
     rest }) (\<lambda>_. exit_success) start"
proof -
  note s = fresh_commandD[OF start_fresh]
  have "wp prepare (\<lambda>b t. tool_ok t \<and> writes (log t) = writes (log start) \<and>
      exit_success t = exit_success start \<and> startup t = startup start \<and> (b \<longrightarrow> holding t = armed_set)) start"
    using prepare_arms s(1,2) unfolding prepares_def by blast
  with prep prepare_done have "wp prepare (\<lambda>b t. (b \<and> ready t) \<and> (tool_ok t \<and> writes (log t) = writes (log start) \<and>
      exit_success t = exit_success start \<and> startup t = startup start \<and> (b \<longrightarrow> holding t = armed_set)) \<and>
      (holding t \<subseteq> usable \<and> (b \<longrightarrow> prepared t))) start"
    by (simp only: wp_conj simp_thms)
  then show ?thesis
    unfolding wp_bind
  proof (rule wp_mono)
    fix b and t :: "'a command_session_scheme"
    assume "(b \<and> ready t) \<and> (tool_ok t \<and> writes (log t) = writes (log start) \<and>
      exit_success t = exit_success start \<and> startup t = startup start \<and> (b \<longrightarrow> holding t = armed_set)) \<and>
      (holding t \<subseteq> usable \<and> (b \<longrightarrow> prepared t))"
    then have t: "b" "armed t" "prepared t" "\<not> exit_success t" "writes (log t) = []" "ready t"
      using s tool_ok_carries[of t] by auto
    have "wp run (\<lambda>_ u. armed u \<and> exit_success u \<and> startup u \<and> shape (writes (log u)) \<and>
        (exit_success u \<longrightarrow> work (log t) (log u) (ram u) (heap_copy u))) t"
      using preservesD[OF run_armed t(2)] runs[OF t(6,3-5)] run_spec[OF t(3-5)] by (simp only: wp_conj simp_thms)
    then have "wp run (\<lambda>_. wp (cmd_cleanup e) (\<lambda>_. wp rest (\<lambda>_. exit_success))) t"
    proof (rule wp_mono)
      fix u :: "'a command_session_scheme"
      assume u: "armed u \<and> exit_success u \<and> startup u \<and> shape (writes (log u)) \<and>
        (exit_success u \<longrightarrow> work (log t) (log u) (ram u) (heap_copy u))"
      show "wp (cmd_cleanup e) (\<lambda>_. wp rest (\<lambda>_. exit_success)) u"
        unfolding cmd_cleanup_def wp_bind
        by (rule wp_mono[OF cmd_restore_live[OF assms(1)]], use u in simp_all,
            erule wp_mono[OF cmd_reset_live[OF assms(1)]], rule preservesD[OF rest])
    qed
    then show "wp (if b then run else State_Monad.return ())
        (\<lambda>_. wp (cmd_cleanup e) (\<lambda>_. wp rest (\<lambda>_. exit_success))) t"
      using t(1) by simp
  qed
qed

end

text \<open>The steps that open a session, on a host where each succeeds.\<close>

lemma wp_and_ok:
  assumes "wp a (\<lambda>ok t. ok \<and> R t) s" "\<And>t. R t \<Longrightarrow> wp b (\<lambda>ok t. ok \<and> P t) t"
  shows "wp (and_m a b) (\<lambda>ok t. ok \<and> P t) s"
  unfolding wp_and_m by (rule wp_mono[OF assms(1)]) (use assms(2) in auto)

lemma opening_live:
  assumes "serving_env e reply"
  shows "wp (attach_host e) (\<lambda>ok _. ok) s" "wp (allocate_memory e) (\<lambda>ok _. ok) s" "wp (map_card e) (\<lambda>ok _. ok) s"
  using assms
  by (simp_all add: serving_env_def good_env_def attach_host_def map_card_def open_container_def open_group_def
      attach_group_def configure_iommu_def allocate_memory_def map_iova_def open_device_def map_bar_def
      cmd_device_valid_def check_def wp_simps)

lemma ok_keeping:
  assumes "preserves I m" "I s" "wp m (\<lambda>ok _. ok) s"
  shows "wp m (\<lambda>ok t. ok \<and> I t) s"
  using preservesD[OF assms(1,2)] assms(3) by (simp add: wp_conj)

text \<open>The heap copy of a session that has stored nothing.\<close>

lemma copied_unwritten:
  assumes "serving_env e reply" "copied e k m copy" "writes k = []"
  shows "copy = Some m"
proof -
  obtain xs j where j: "k = xs @ j" "copy = Some (ram_view e j m)" using assms(2) by (auto simp: copied_def)
  then have "shadow j = Map.empty" using assms(3) by (simp add: shadow_map_of writes_append)
  then show ?thesis using assms(1) j(2) by (simp add: serving_env_def)
qed

end
