(* ===== verification/Loader_Live.thy ===== *)
theory Loader_Live
  imports Command_Live Runtime_Load_Results
begin

text \<open>
  The two loader tools succeed: on a host on which every call succeeds, with a readable payload, and
  a serving card whose reply is in the loader's response class.
\<close>

section \<open>The answer\<close>

lemma reply_confined: "same_bytes (loader_regions n) (put32 (RESPONSE_PAGE * 4096) v m) m"
  by (auto simp: same_bytes_def loader_regions_def list_all_iff put32_other)

lemma reply_not_canary: "loader_reply [reply] \<Longrightarrow> reply \<noteq> CANARY_WORD"
  by (auto simp: loader_reply_def CANARY_WORD_def LOADER_RESPONSE_CLASS_def)

lemma loader_collect_live:
  fixes s :: "'a command_session_scheme"
  assumes e: "serving_env e reply" "loader_reply [reply]" and o: "offering cp rp (log s)" "rp \<noteq> 0"
    and s: "connects_consumed s" "heap_copy s = Some (ram s)"
  shows "wp (loader_collect e n cp rp) (\<lambda>_. exit_success) s"
  unfolding loader_collect_def wp_bind load_response_def wp_modify
proof (rule check_positions_live[OF e(1)], simp add: o, unfold load_word_def wp_gets wp_modify wp_bind,
    rule check_memory_live[OF e(1)], unfold interrupted_def wp_gets wp_when_m, goal_cases)
  case (1 rs qs)
  have first: "(map f [0..<4] @ xs) ! 0 = f 0" for f :: "nat \<Rightarrow> u32" and xs
    by (simp add: upt_rec)
  show ?case
    using 1 o s e(2) reply_not_canary[OF e(2)] reply_confined[of n reply "ram s"] serving_quiet[OF e(1)]
    by (simp add: wp_modify first reply_read[OF e(1)] get32_put32 loader_reply_def)
qed

section \<open>vfio_loader_rejection\<close>

lemma lr_run_live:
  assumes e: "serving_env e reply" "loader_reply [reply]"
    and s: "lr_prepared e single s" "writes (log s) = []"
  shows "wp (lr_run e) (\<lambda>_. exit_success) s"
proof -
  let ?ws = "startup_stores (\<lambda>_ _. 0) @ connect_stores @ [(INTERRUPT_ENABLE, 0xdddddddd)]"
  let ?s = "after ?ws (s\<lparr>startup := True\<rparr>)"
  have copy: "heap_copy s = Some (ram s)" and single: "single_buffer s = single"
    using copied_unwritten[OF e(1), of "log s" "ram s" "heap_copy s"] s by (simp_all add: lr_prepared_def)
  have "shadow (log ?s) = shadow (log s) ++ map_of (rev ?ws)"
    by (rule shadow_after) simp
  then have sh: "\<forall>d<8. shadow (log ?s) (ring_reg d 0 8) = Some (if d = 0 then 2 else 1)"
    using connect_last ring_reg_not_global(1)[of _ 0 8 "0x2204"]
    by (simp add: map_add_find_right map_add_def split: option.splits)
  have send: "wp (lr_send e 0xdddddddd) (\<lambda>_. exit_success) t"
    if t: "connects_consumed t" "heap_copy t = Some (ram t)" for t
  proof -
    let ?cp = "if single_buffer t then 3 else 4 :: u32"
    let ?u = "after (submit_stores 1 ?cp (0xdddddddd OR 2) (0xdddddddd OR 2 OR 1)) t"
    show ?thesis
      unfolding lr_send_def Let_def wp_bind wp_gets submit_wp
    proof (rule await_answer_live[OF e(1) _ offering_submit _ reply_not_canary[OF e(2)]])
    fix rs :: history
    assume "reads rs"
    then show "wp (loader_collect e 67 (if single_buffer t then 3 else 4) 1) (\<lambda>_. exit_success)
        (?u\<lparr>log := rs @ log ?u, polls := 0\<rparr>)"
      by (intro loader_collect_live[OF e])
        (use t in \<open>simp_all add: after_def offering_submit[unfolded after_def, simplified]\<close>)
  qed simp_all
  qed
  show ?thesis
    unfolding lr_run_def wp_bind start_rings_wp connect_wp wp_write32 after_after append_assoc
    by (rule await_connects_live[OF e(1) _ sh], simp)
      (use copy in \<open>auto simp: wp_simps after_def intro!: send\<close>)
qed

text \<open>A readable input file with \<open>n\<close> bytes to load, and a command line the tool accepts.\<close>

definition good_input :: "command_env \<Rightarrow> u8 list \<Rightarrow> bool" where
  "good_input c content \<longleftrightarrow> 0 \<le> input_open c \<and> 0 \<le> input_stat c \<and> input_regular c \<and>
     input_size c = int (length content) \<and> delivers c content \<and> progresses c content \<and> malloc_ok c"

definition lr_valid :: "string list \<Rightarrow> bool" where
  "lr_valid argv \<longleftrightarrow> (if lr_single argv then length argv \<le> 3 else length argv \<le> 2)"

definition lr_ready :: "bool \<Rightarrow> command_env \<Rightarrow> u8 list \<Rightarrow> loader_session \<Rightarrow> bool" where
  "lr_ready single c content s \<longleftrightarrow> writes (log s) = [] \<and> single_buffer s = single \<and>
     (payload_size s = 4 \<or> payload_size s = length content)"

lemma lr_ready_read [simp]: "lr_ready single c content (s\<lparr>log := Rd a v # log s\<rparr>) = lr_ready single c content s"
  by (simp add: lr_ready_def)

lemma lr_opening_live:
  assumes "good_input c content" "lr_payload (lr_single argv) (length content)" "lr_valid argv"
  shows "wp (and_m (lr_arguments argv) (lr_open_payload c)) (\<lambda>ok t. ok \<and> lr_ready (lr_single argv) c content t) lr_locals"
proof -
  have args: "wp (lr_arguments argv) (\<lambda>ok t. ok \<and> writes (log t) = [] \<and> single_buffer t = lr_single argv \<and>
      payload_size t = 4) lr_locals"
    using assms(3) by (auto simp: lr_arguments_def lr_valid_def lr_single_def lr_locals_def wp_simps split: if_splits)
  have "wp (lr_open_payload c) (\<lambda>ok t. ok \<and> lr_ready (lr_single argv) c content t) t"
    if "writes (log t) = [] \<and> single_buffer t = lr_single argv \<and> payload_size t = 4" for t
    using that assms(1,2)
    by (auto simp: lr_open_payload_def open_input_def check_def wp_simps lr_ready_def good_input_def lr_payload_def
        split: option.splits if_splits)
  then show ?thesis by (rule wp_and_ok[OF args])
qed

lemma lr_load_live:
  assumes "good_input c content" "payload_size s \<le> length content"
  shows "wp (lr_load c) (\<lambda>ok _. ok) s"
proof -
  have "wp (load_input c (PAYLOAD_PAGE * 4096) (payload_size s) 0) (\<lambda>ok _. ok) s"
    by (rule load_input_succeeds) (use assms in \<open>simp_all add: good_input_def\<close>)
  then show ?thesis by (simp add: lr_load_def wp_simps)
qed

lemma load_input_keeps:
  assumes "\<And>s f. I (s\<lparr>ram := f\<rparr>) = I s"
  shows "preserves I (load_input c base bytes got)"
proof (induction c base bytes got rule: load_input.induct)
  case (1 c base bytes got)
  show ?case
  proof (cases "bytes \<le> got")
    case True
    then show ?thesis by (subst load_input.simps) (simp add: preserves_return)
  next
    case False
    have step: "preserves I (let chunk = take (bytes - got) data in
         if chunk = [] then State_Monad.return False
         else do { store_ram (store_bytes (base + got) chunk);
                   load_input c base bytes (got + length chunk) })"
      if "input_read c got (bytes - got) = Some data" for data
      unfolding Let_def store_ram_def
      by (intro preserves_if preserves_bind preserves_return preserves_modify 1[OF False that refl]) (simp_all add: assms)
    show ?thesis
      unfolding load_input.simps[of c base bytes got]
      by (intro preserves_if preserves_return preserves_case_option step)
  qed
qed

lemma lr_steps_keep:
  "preserves (lr_ready single c content) (attach_host e)" "preserves (lr_ready single c content) (map_card e)"
  "preserves (lr_ready single c content) (lr_buffers f)"
  unfolding attach_host_def map_card_def open_container_def open_group_def attach_group_def
    configure_iommu_def map_iova_def open_device_def map_bar_def check_def lr_buffers_def allocate_memory_def
    lr_load_def lr_join_def close_input_def store_ram_def
  by (intro preserves_intros preserves_modify load_input_keeps; simp add: preserves_def wp_simps lr_ready_def)+

lemma lr_buffers_live:
  assumes "serving_env (host c) reply" "good_input c content" "lr_payload single (length content)"
    "lr_ready single c content s"
  shows "wp (lr_buffers c) (\<lambda>ok t. ok \<and> lr_ready single c content t) s"
proof (rule ok_keeping[OF lr_steps_keep(3) assms(4)])
  let ?R = "lr_ready single c content"
  have keep: "preserves ?R (allocate_memory (host c))" "preserves ?R (lr_load c)"
    unfolding allocate_memory_def lr_load_def
    by (intro preserves_intros preserves_modify load_input_keeps; simp add: preserves_def wp_simps lr_ready_def)+
  have l: "wp (lr_load c) (\<lambda>ok t. ok \<and> ?R t) t" if "?R t" for t
    by (rule ok_keeping[OF keep(2) that lr_load_live[OF assms(2)]])
      (use that assms(3) in \<open>auto simp: lr_ready_def lr_payload_def\<close>)
  have j: "wp lr_join (\<lambda>ok t. ok \<and> True) t" if "?R t" for t
    using that assms(3) by (auto simp: lr_join_def lr_ready_def lr_payload_def store_ram_def wp_simps split: if_splits)
  have "wp (lr_buffers c) (\<lambda>ok t. ok \<and> True) s"
    unfolding lr_buffers_def
    by (rule wp_and_ok[OF ok_keeping[OF keep(1) assms(4) opening_live(2)[OF assms(1)]]], rule wp_and_ok[where R = ?R],
        simp add: check_def store_ram_def wp_simps lr_ready_def, rule wp_and_ok[OF l], assumption,
        rule wp_and_ok[where R = ?R], simp add: close_input_def check_def wp_simps lr_ready_def, rule j)
  then show "wp (lr_buffers c) (\<lambda>ok _. ok) s" by simp
qed

lemma meets_index:
  fixes d :: nat
  assumes "serving_hw (answer e)" "d < 8"
  shows "meets (all_m [0..<2] (\<lambda>ring. do {
      raw \<leftarrow> read32 e (ring_base d ring + 0x28);
      State_Monad.return ((if raw < 1024 then raw else 0) = 0) })) (\<lambda>k. k = Map.empty)"
  unfolding read32_def
  by (rule meets_mono[OF meets_upt[OF meets_bus_read[where R = "\<lambda>k. k = Map.empty"]]])
    (use assms in \<open>simp_all add: ring_base_reg ring_reg_words serving_reads(6) stored_at_def\<close>)

lemma lr_connect_entries_live:
  assumes "serving_hw (answer e)" "lr_ready single c content s"
  shows "wp (lr_connect_entries e) (\<lambda>ok t. ok \<and> lr_ready single c content t) s"
  unfolding lr_connect_entries_def
proof (rule wp_all_upt[where I = "\<lambda>_. lr_ready single c content"])
  fix d :: nat and t
  assume d: "d < 8" and t: "lr_ready single c content t"
  show "wp (and_m (all_m [0..<2] (\<lambda>ring. do {
              raw \<leftarrow> read32 e (ring_base d ring + 0x28);
              State_Monad.return ((if raw < 1024 then raw else 0) = 0) }))
           (do { store_ram (connect_entry d); check True }))
     (\<lambda>b u. if b then lr_ready single c content u else False \<and> lr_ready single c content u) t"
    unfolding wp_and_m
    by (rule meets_wp[OF meets_index[OF assms(1) d]])
      (use t in \<open>simp_all add: lr_ready_def shadow_map_of check_def store_ram_def wp_simps writes_append\<close>)
qed (use assms(2) in simp_all)

lemma and_m_assoc: "and_m (and_m a b) c = and_m a (and_m b c)"
  unfolding and_m_def by (simp add: if_distrib[of "\<lambda>m. State_Monad.bind m f" for f] cong: if_cong)

lemma lr_prepare_live:
  assumes e: "serving_env (host c) reply" and i: "good_input c content"
    "lr_payload (lr_single argv) (length content)" "lr_valid argv"
  shows "wp (lr_prepare c argv) (\<lambda>ok _. ok) lr_locals"
proof -
  let ?R = "lr_ready (lr_single argv) c content"
  have hw: "serving_hw (answer (host c))" using e by (simp add: serving_env_def)
  have p: "wp (do { modify (\<lambda>s. s\<lparr>loader_command := loader_word (payload_size s)\<rparr>);
      check (sys_page_size (host c) = 4096) }) (\<lambda>ok t. ok \<and> ?R t) t" if "?R t" for t
    using that e by (simp add: check_def wp_simps lr_ready_def serving_env_def good_env_def)
  have a: "wp (attach_host (host c)) (\<lambda>ok t. ok \<and> ?R t) t" if "?R t" for t
    by (rule ok_keeping[OF lr_steps_keep(1) that opening_live(1)[OF e]])
  have m: "wp (map_card (host c)) (\<lambda>ok t. ok \<and> ?R t) t" if "?R t" for t
    by (rule ok_keeping[OF lr_steps_keep(2) that opening_live(3)[OF e]])
  have g: "wp (cold_card (host c)) (\<lambda>ok t. ok \<and> ?R t) t" if "?R t" for t
    by (rule meets_wp[OF meets_cold_card[OF hw]])
      (use that in \<open>simp_all add: lr_ready_def shadow_map_of writes_append\<close>)
  have l: "wp (do { lr_entries c; check True }) (\<lambda>ok t. ok \<and> True) t" for t
    by (simp add: lr_entries_def check_def store_ram_def wp_simps)
  have s: "wp (take_snapshot c) (\<lambda>ok t. ok \<and> True) t" for t :: loader_session
    using i by (simp add: take_snapshot_def wp_simps good_input_def)
  note rest = wp_and_ok[OF p wp_and_ok[OF a wp_and_ok[OF lr_buffers_live[OF e i(1,2)] wp_and_ok[OF m
      wp_and_ok[OF g wp_and_ok[OF lr_connect_entries_live[OF hw] wp_and_ok[OF l s]]]]]]]
  have "wp (and_m (and_m (lr_arguments argv) (lr_open_payload c)) (and_m (do {
      modify (\<lambda>s. s\<lparr>loader_command := loader_word (payload_size s)\<rparr>);
      check (sys_page_size (host c) = 4096) })
    (and_m (attach_host (host c)) (and_m (lr_buffers c) (and_m (map_card (host c))
    (and_m (cold_card (host c)) (and_m (lr_connect_entries (host c))
    (and_m (do { lr_entries c; check True }) (take_snapshot c))))))))) (\<lambda>ok t. ok \<and> True) lr_locals"
    by (rule wp_and_ok[OF lr_opening_live[OF i] rest])
  then show ?thesis by (simp add: lr_prepare_def and_m_assoc)
qed

lemma lr_live:
  assumes "serving_env (host c) reply" "loader_reply [reply]" "unmap_ok (host c) lr_bytes"
    "good_input c content" "lr_payload (lr_single argv) (length content)" "lr_valid argv"
  shows "exit_success (lr_final c argv)"
proof -
  have close: "preserves exit_success (lr_close (host c))"
    unfolding lr_close_def by (intro preserves_intros close_live assms(3))
  have "wp (lr_main c argv) (\<lambda>_. exit_success) lr_locals"
    using command_tool.succeeds[OF lr_tool.command_tool_axioms assms(1), where ready = "\<lambda>_. True"]
      lr_prepare_live[OF assms(1,4-6)] lr_run_live[OF assms(1,2)] close
    by (simp add: lr_main_def wp_bind wp_gets)
  then show ?thesis by (simp add: lr_final_def wp_run)
qed

section \<open>vfio_runtime_load\<close>

lemma rt_turn_live:
  assumes "serving_env e reply" "offering cp rp (log s)" "rp \<noteq> 0" "reply \<noteq> CANARY_WORD"
    and "\<And>a b d h. offering cp rp h \<Longrightarrow> Q (s\<lparr>log := h, final_command_read := a, final_response_read := b,
      command_progress_seen := d\<rparr>)"
  shows "wp (rt_turn e cp rp n) (\<lambda>b u. b \<and> Q u) s"
proof -
  have keep: "s\<lparr>log := h, final_command_read := a, final_response_read := b\<rparr> =
      s\<lparr>log := h, final_command_read := a, final_response_read := b, command_progress_seen := command_progress_seen s\<rparr>"
    for a b h by (cases s) simp
  let ?h = "[Rd (ring_reg 0 1 10) rp, Rd (ring_reg 0 0 10) cp] @ log s"
  have "offering cp rp ?h" using assms(2) by simp
  then show ?thesis
    using assms(5)[where h = ?h and a = cp and b = rp and d = True]
      assms(5)[where h = ?h and a = cp and b = rp and d = "command_progress_seen s"] assms(2-4)
      positions_read[OF assms(1)] reply_read[OF assms(1)] keep
    by (cases "cp = 2") (simp_all add: rt_turn_def read32_def load_word_def command_regs0 response_regs wp_simps get32_put32)
qed

lemma rt_send_live:
  fixes s :: runtime_session
  assumes e: "serving_env e reply" "loader_reply [reply]" and s: "connects_consumed s" "heap_copy s = Some (ram s)"
  shows "wp (rt_send e 0xdddddddd) (\<lambda>_. exit_success) s"
proof -
  let ?cp = "3 + of_nat PAYLOAD_PAGE_COUNT :: u32"
  let ?s = "after (submit_stores 1 ?cp (0xdddddddd OR 2) (0xdddddddd OR 2 OR 1)) s"
  define I where "I t \<longleftrightarrow> offering ?cp 1 (log t) \<and> connects_consumed t \<and> heap_copy t = Some (ram t)"
    for t :: runtime_session
  have start: "offering ?cp 1 (log ?s)" by (rule offering_submit)
  have poll: "wp (poll_until e POLL_LIMIT_MS 0 (rt_turn e ?cp 1)) (\<lambda>_. I) ?s"
    by (rule poll_once_wp[OF e(1)], simp add: POLL_LIMIT_MS_def,
        rule rt_turn_live[OF e(1) start _ reply_not_canary[OF e(2)]])
      (use s in \<open>simp_all add: I_def after_def\<close>)
  have rest: "preserves I (do { modify (\<lambda>s. s\<lparr>polls := n\<rparr>);
      v \<leftarrow> read32 e (dsp_banks ! 0 + 0x28);
      modify (\<lambda>s. s\<lparr>final_command_read := v\<rparr>);
      v \<leftarrow> read32 e (dsp_banks ! 0 + 0x40 + 0x28);
      modify (\<lambda>s. s\<lparr>final_response_read := v\<rparr>) })" for n
    unfolding read32_def
    by (intro preserves_intros preserves_modify) (simp_all add: preserves_def wp_simps I_def)
  have collect: "wp (loader_collect e PAGE_COUNT ?cp 1) (\<lambda>_. exit_success) t" if "I t" for t
    by (rule loader_collect_live[OF e]) (use that in \<open>simp_all add: I_def\<close>)
  have "wp (poll_until e POLL_LIMIT_MS 0 (rt_turn e ?cp 1)) (\<lambda>n. wp (do {
      do { modify (\<lambda>s. s\<lparr>polls := n\<rparr>);
      v \<leftarrow> read32 e (dsp_banks ! 0 + 0x28);
      modify (\<lambda>s. s\<lparr>final_command_read := v\<rparr>);
      v \<leftarrow> read32 e (dsp_banks ! 0 + 0x40 + 0x28);
      modify (\<lambda>s. s\<lparr>final_response_read := v\<rparr>) };
      loader_collect e PAGE_COUNT ?cp 1 }) (\<lambda>_. exit_success)) ?s"
    unfolding wp_bind[of _ "\<lambda>_. loader_collect e PAGE_COUNT ?cp 1"]
    by (rule wp_mono[OF poll]) (rule wp_mono[OF preservesD[OF rest] collect])
  then show ?thesis by (simp add: rt_send_def Let_def wp_bind submit_wp)
qed

lemma rt_run_live:
  assumes e: "serving_env e reply" "loader_reply [reply]"
    and s: "rt_prepared e s" "writes (log s) = []"
  shows "wp (rt_run e) (\<lambda>_. exit_success) s"
proof -
  let ?ws = "startup_stores (\<lambda>_ _. 0) @ connect_stores"
  let ?s = "after ?ws (s\<lparr>startup := True\<rparr>)"
  have copy: "heap_copy s = Some (ram s)"
    using copied_unwritten[OF e(1), of "log s" "ram s" "heap_copy s"] s by (simp add: rt_prepared_def rt_offered_def)
  have "shadow (log ?s) = shadow (log s) ++ map_of (rev ?ws)"
    by (rule shadow_after) simp
  then have sh: "\<forall>d<8. shadow (log ?s) (ring_reg d 0 8) = Some (if d = 0 then 2 else 1)"
    using connect_last by (simp add: map_add_find_right map_add_def split: option.splits)
  show ?thesis
    unfolding rt_run_def wp_bind start_rings_wp connect_wp after_after
    by (rule await_connects_live[OF e(1) _ sh], simp)
      (use copy in \<open>auto simp: wp_simps after_def intro!: rt_send_live[OF e]\<close>)
qed

lemma rt_load_live:
  assumes "serving_env (host c) reply" "good_input c content" "rt_hbut content" "writes (log s) = []"
  shows "wp (rt_load c) (\<lambda>ok t. ok \<and> writes (log t) = []) s"
proof -
  let ?W = "\<lambda>t :: runtime_session. writes (log t) = []"
  have n: "length content = EXPECTED_FILE_SIZE" using assms(3) by (simp add: rt_hbut_def)
  have "preserves ?W (allocate_memory (host c))"
    unfolding allocate_memory_def
    by (intro preserves_intros preserves_modify; simp add: preserves_def wp_simps)
  then have a: "wp (allocate_memory (host c)) (\<lambda>ok t. ok \<and> ?W t) s"
    using assms(4) opening_live(2)[OF assms(1)] by (rule ok_keeping[where I = ?W])
  have f: "wp (do { store_ram rt_fill; check True }) (\<lambda>ok t. ok \<and> ?W t) t" if "?W t" for t
    using that by (simp add: check_def store_ram_def wp_simps)
  let ?L = "\<lambda>t. ?W t \<and> exact_hbut (ram t) (PAYLOAD_PAGE * 4096) EXPECTED_FILE_SIZE"
  have l: "wp (load_input c (PAYLOAD_PAGE * 4096) EXPECTED_FILE_SIZE 0) (\<lambda>ok t. ok \<and> ?L t) t" if t: "?W t" for t
  proof -
    have "wp (load_input c (PAYLOAD_PAGE * 4096) EXPECTED_FILE_SIZE 0) (\<lambda>ok _. ok) t"
      by (rule load_input_succeeds[where content = content]) (use assms(2) n in \<open>simp_all add: good_input_def\<close>)
    moreover have "wp (load_input c (PAYLOAD_PAGE * 4096) EXPECTED_FILE_SIZE 0) (\<lambda>ok t. ok \<longrightarrow> ?L t) t"
    proof (rule load_input_wp, simp)
      fix data
      assume "\<And>content. delivers c content \<Longrightarrow> 0 \<le> length content \<Longrightarrow>
        data = take (EXPECTED_FILE_SIZE - 0) (drop 0 content)"
      from this[of content] have "data = content" using assms(2) n by (simp add: good_input_def)
      then have "exact_hbut (store_bytes (PAYLOAD_PAGE * 4096) data (ram t)) (PAYLOAD_PAGE * 4096) EXPECTED_FILE_SIZE"
        using exact_hbut_stored[of data] assms(3) n by simp
      then show "True \<longrightarrow> ?L (t\<lparr>ram := store_bytes (PAYLOAD_PAGE * 4096 + 0) data (ram t)\<rparr>)"
        using t by simp
    qed
    ultimately have "wp (load_input c (PAYLOAD_PAGE * 4096) EXPECTED_FILE_SIZE 0) (\<lambda>ok t. ok \<and> (ok \<longrightarrow> ?L t)) t"
      by (simp only: wp_conj simp_thms)
    then show ?thesis by (rule wp_mono) simp
  qed
  have c: "wp (do { close_input; check True }) (\<lambda>ok t. ok \<and> ?L t) t" if "?L t" for t
    using that by (simp add: close_input_def check_def wp_simps)
  have x: "wp (do { b \<leftarrow> gets (\<lambda>s. exact_hbut (ram s) (PAYLOAD_PAGE * 4096) EXPECTED_FILE_SIZE);
      modify (\<lambda>s. s\<lparr>exact_file := b\<rparr>); State_Monad.return b }) (\<lambda>ok t. ok \<and> ?W t) t" if "?L t" for t
    using that by (simp add: wp_simps)
  show ?thesis unfolding rt_load_def
    by (rule wp_and_ok[OF a wp_and_ok[OF f wp_and_ok[OF l wp_and_ok[OF c x]]]])
qed

lemma rt_prepare_live:
  assumes e: "serving_env (host c) reply" and i: "good_input c content" "rt_hbut content" "length argv = 2"
  shows "wp (rt_prepare c argv) (\<lambda>ok _. ok) rt_locals"
proof -
  let ?W = "\<lambda>t :: runtime_session. writes (log t) = []"
  have hw: "serving_hw (answer (host c))" and page: "sys_page_size (host c) = 4096"
    using e by (simp_all add: serving_env_def good_env_def)
  have n: "length content = EXPECTED_FILE_SIZE" using i(2) by (simp add: rt_hbut_def)
  have k: "wp (check b) (\<lambda>ok t. ok \<and> ?W t) t" if "b" "?W t" for b t
    using that by (simp add: check_def wp_simps)
  have o: "wp (rt_open_firmware c) (\<lambda>ok t. ok \<and> ?W t) t" if "?W t" for t
    using that i(1) n by (simp add: rt_open_firmware_def open_input_def check_def wp_simps good_input_def RING_CAPACITY_def)
  have f: "wp (rt_offer c) (\<lambda>ok t. ok \<and> ?W t) t" if "?W t" for t
    using that i(1) by (simp add: rt_offer_def take_snapshot_def check_def store_ram_def wp_simps good_input_def)
  have keep: "preserves ?W (attach_host (host c))" "preserves ?W (map_card (host c))"
    unfolding attach_host_def map_card_def open_container_def open_group_def attach_group_def
      configure_iommu_def map_iova_def open_device_def map_bar_def check_def
    by (intro preserves_intros preserves_modify; simp add: preserves_def wp_simps)+
  have g: "wp (rt_gate (host c)) (\<lambda>ok t. ok \<and> True) t" if "?W t" for t
    unfolding rt_gate_def
  proof (rule wp_and_ok[where R = ?W])
    show "wp (do { v \<leftarrow> read32 (host c) FPGA_REVISION;
        modify (\<lambda>s. s\<lparr>live_compatible := (v = EXPECTED_FPGA_REVISION)\<rparr>);
        State_Monad.return (v = EXPECTED_FPGA_REVISION) }) (\<lambda>ok t. ok \<and> ?W t) t"
      using that serving_reads(3)[OF hw, of "log t"] by (simp add: read32_def wp_simps)
  next
    fix u :: runtime_session
    assume "?W u"
    then show "wp (cold_card (host c)) (\<lambda>ok t. ok \<and> True) u"
      by (intro meets_wp[OF meets_cold_card[OF hw]]) (simp_all add: shadow_map_of)
  qed
  have start: "?W rt_locals" by (simp add: rt_locals_def)
  have "wp (rt_prepare c argv) (\<lambda>ok t. ok \<and> True) rt_locals"
    unfolding rt_prepare_def
    by (rule wp_and_ok[OF k[OF i(3) start] wp_and_ok[OF k[OF page] wp_and_ok[OF o wp_and_ok[OF rt_load_live[OF e i(1,2)]
      wp_and_ok[OF f wp_and_ok[OF ok_keeping[OF keep(1) _ opening_live(1)[OF e]]
      wp_and_ok[OF ok_keeping[OF keep(2) _ opening_live(3)[OF e]] g]]]]]]])
  then show ?thesis by simp
qed

lemma rt_live:
  assumes "serving_env (host c) reply" "loader_reply [reply]" "rt_unmapped (host c)"
    "good_input c content" "rt_hbut content" "length argv = 2"
  shows "exit_success (rt_final c argv)"
proof -
  have close: "preserves exit_success (rt_close (host c))"
    unfolding rt_close_def
    by (intro preserves_intros close_live assms(3) preserves_modify) simp
  have "wp (rt_main c argv) (\<lambda>_. exit_success) rt_locals"
    using command_tool.succeeds[OF rt_tool.command_tool_axioms assms(1), where ready = "\<lambda>_. True"]
      rt_prepare_live[OF assms(1,4-6)] rt_run_live[OF assms(1,2)] close
    by (simp add: rt_main_def wp_bind wp_gets)
  then show ?thesis by (simp add: rt_final_def wp_run)
qed

end
