(* ===== verification/Full_Query.thy ===== *)
theory Full_Query
  imports Command_Tool
begin

text \<open>
  \<^verbatim>\<open>tools/vfio_full_query.c\<close> (experiments 014 to 016): start all rings, optionally connect every
  DSP and set the clock, submit one query command with a response buffer, and check the answer.
  A wrong command line returns before anything is opened.
\<close>

section \<open>State and program\<close>

record query_session = command_session +
  connect_first :: bool
  selected_command :: u32
  selected_header :: u32
  selected_response_words :: nat
  indexes :: "nat \<Rightarrow> nat \<Rightarrow> u32"
  connect_polls :: nat

definition RESPONSE_SHADOW :: u32 where "RESPONSE_SHADOW = 0xccccccce"
definition QUERY_SHADOW :: u32 where "QUERY_SHADOW = 0xcccccccf"
definition QUERY_COMMAND :: u32 where "QUERY_COMMAND = 0x00260001"
definition QUERY_RESPONSE_HEADER :: u32 where "QUERY_RESPONSE_HEADER = 0x800c0005"
definition QUERY_RESPONSE_WORDS :: nat where "QUERY_RESPONSE_WORDS = 5"
definition SEQUENCE_COMMAND :: u32 where "SEQUENCE_COMMAND = 0x00270001"
definition SEQUENCE_RESPONSE_HEADER :: u32 where "SEQUENCE_RESPONSE_HEADER = 0x800d0002"

definition fq_locals :: query_session where
  "fq_locals = \<lparr>log = [], container_fd = -1, group_fd = -1, device_fd = -1,
     container_set = False, dma_mapped = False, memory_ok = False, bar_ok = False,
     ram = (\<lambda>_. 0), exit_success = False, stdout = [],
     file_fd = -1, heap_copy = None, startup = False, connects_consumed = False,
     command_consumed = False, response_consumed = False, response_written = False,
     header_matches = False, memory_bounded = False, ready_after = False, restored = False,
     reset_recovered = False, response = replicate QUERY_RESPONSE_WORDS 0, polls = 0,
     connect_first = False, selected_command = QUERY_COMMAND,
     selected_header = QUERY_RESPONSE_HEADER, selected_response_words = QUERY_RESPONSE_WORDS,
     indexes = (\<lambda>_ _. 0), connect_polls = 0\<rparr>"

text \<open>The command line; \<open>None\<close> prints the usage.\<close>

definition fq_arguments :: "string list \<Rightarrow> (query_session \<Rightarrow> query_session) option" where
  "fq_arguments argv =
     (if length argv = 2 \<and> argv ! 1 = ''--connect'' then
        Some (\<lambda>s. s\<lparr>connect_first := True\<rparr>)
      else if length argv = 2 \<and> argv ! 1 = ''--connect-query-027'' then
        Some (\<lambda>s. s\<lparr>connect_first := True, selected_command := SEQUENCE_COMMAND,
                     selected_header := SEQUENCE_RESPONSE_HEADER, selected_response_words := 2\<rparr>)
      else if length argv \<noteq> 1 then None
      else Some (\<lambda>s. s))"

definition fq_fill :: "(nat \<Rightarrow> u8) \<Rightarrow> nat \<Rightarrow> u8" where
  "fq_fill m = memset (RESPONSE_PAGE * 4096) CANARY_BYTE 4096 (memset 0 0 (64 * 4096) m)"

definition fq_read_indexes :: "vfio_env \<Rightarrow> (query_session, unit) state" where
  "fq_read_indexes e = for_each [0..<8] (\<lambda>dsp. for_each [0..<2] (\<lambda>ring. do {
     raw \<leftarrow> read32 e (ring_base dsp ring + 0x28);
     modify (\<lambda>s. s\<lparr>indexes := (indexes s)(dsp := (indexes s dsp)(ring :=
       if raw < 1024 then raw else 0))\<rparr>) }))"

definition fq_connect_entries :: "command_env \<Rightarrow> (query_session, bool) state" where
  "fq_connect_entries c =
     and_m (all_m [0..<8] (\<lambda>dsp. do {
              ix \<leftarrow> gets indexes;
              if ix dsp 0 \<noteq> 0 \<or> ix dsp 1 \<noteq> 0 then State_Monad.return False
              else do { store_ram (connect_entry dsp); State_Monad.return True } }))
           (do { now \<leftarrow> gets (\<lambda>s. wall_clock c (log s));
                 store_ram (clock_entry now);
                 State_Monad.return True })"

definition query_command_index :: "query_session \<Rightarrow> u32" where
  "query_command_index s = (if connect_first s then 2 else indexes s 0 0)"

definition query_response_index :: "query_session \<Rightarrow> u32" where
  "query_response_index s = indexes s 0 1"

definition query_entries :: "u32 \<Rightarrow> nat \<Rightarrow> u32 \<Rightarrow> u32 \<Rightarrow> (nat \<Rightarrow> u8) \<Rightarrow> nat \<Rightarrow> u8" where
  "query_entries command words command_index response_index m =
     (let entry = ring_entry 0 1 response_index;
          address = TEST_IOVA + of_nat RESPONSE_PAGE * 4096 in
      put32 (entry + 12) (upper_32_bits address)
        (put32 (entry + 8) (lower_32_bits address)
          (put32 entry (0x80000000 OR of_nat words)
            (put32 (ring_entry 0 0 command_index) command m))))"

definition fq_entries :: "command_env \<Rightarrow> (query_session, bool) state" where
  "fq_entries c =
     and_m (do { connect \<leftarrow> gets connect_first;
                 if connect then fq_connect_entries c else State_Monad.return True })
           (do { s \<leftarrow> gets (\<lambda>s. s);
                 store_ram (query_entries (selected_command s) (selected_response_words s)
                   (query_command_index s) (query_response_index s));
                 State_Monad.return True })"

definition fq_open :: "vfio_env \<Rightarrow> (query_session, bool) state" where
  "fq_open e =
     and_m (check (sys_page_size e = 4096))
    (and_m (attach_host e)
    (and_m (allocate_memory e)
    (and_m (do { store_ram fq_fill; check True })
           (map_card e))))"

definition fq_prepare :: "command_env \<Rightarrow> (query_session, bool) state" where
  "fq_prepare c =
     and_m (fq_open (host c))
    (and_m (cold_card (host c))
    (and_m (do { fq_read_indexes (host c); check True })
    (and_m (fq_entries c)
           (take_snapshot c))))"

definition fq_connect :: "vfio_env \<Rightarrow> (query_session, u32 \<times> bool) state" where
  "fq_connect e =
     do { interrupt_shadow \<leftarrow> connect_dsps CALLBACK_SHADOW;
          write32 INTERRUPT_ENABLE interrupt_shadow;
          n \<leftarrow> await_connects e 2000;
          modify (\<lambda>s. s\<lparr>connect_polls := n\<rparr>);
          go \<leftarrow> gets connects_consumed;
          State_Monad.return (interrupt_shadow, go) }"

definition fq_regions :: "nat \<Rightarrow> (nat \<times> nat) list" where
  "fq_regions words = [(0, RESPONSE_PAGE * 4096), (RESPONSE_PAGE * 4096 + words * 4, 4096 - words * 4)]"

definition fq_collect :: "vfio_env \<Rightarrow> u32 \<Rightarrow> u32 \<Rightarrow> (query_session, unit) state" where
  "fq_collect e command_position response_position =
     do { words \<leftarrow> gets selected_response_words;
          load_response e words;
          check_positions e command_position response_position;
          modify (\<lambda>s. s\<lparr>header_matches := (response s ! 0 = selected_header s)\<rparr>);
          check_memory e (fq_regions words);
          stop \<leftarrow> interrupted e;
          when_m (\<lambda>s. \<not> stop \<and> command_consumed s \<and> response_consumed s \<and> header_matches s \<and>
              ready_after s \<and> memory_bounded s)
            (modify (\<lambda>s. s\<lparr>exit_success := True\<rparr>)) }"

definition fq_query :: "vfio_env \<Rightarrow> u32 \<Rightarrow> (query_session, unit) state" where
  "fq_query e interrupt_shadow =
     do { connect \<leftarrow> gets connect_first;
          response_index \<leftarrow> gets query_response_index;
          command_index \<leftarrow> gets query_command_index;
          let response_position = (response_index + 1) mod 1024;
          let command_position = (command_index + 1) mod 1024;
          submit response_position command_position
            (\<lambda>v. if connect then v else RESPONSE_SHADOW) (\<lambda>v. if connect then v else QUERY_SHADOW)
            interrupt_shadow;
          await_answer e 2000 command_position response_position;
          fq_collect e command_position response_position }"

definition fq_run :: "vfio_env \<Rightarrow> (query_session, unit) state" where
  "fq_run e =
     do { ix \<leftarrow> gets indexes;
          start_rings ix;
          connect \<leftarrow> gets connect_first;
          (interrupt_shadow, go) \<leftarrow>
            (if connect then fq_connect e else State_Monad.return (CALLBACK_SHADOW, True));
          if go then fq_query e interrupt_shadow else State_Monad.return () }"

definition fq_report_lines :: "query_session \<Rightarrow> string list" where
  "fq_report_lines s =
     [''{'',
      ''  \"experiment\": \"'' @ (if selected_command s = SEQUENCE_COMMAND then ''016-connect-then-query-027''
         else if connect_first s then ''015-connect-then-query-026'' else ''014-full-start-query-026'') @ ''\",'',
      json_word ''command'' (selected_command s),
      json_word ''expected_response_header'' (selected_header s),
      json_word ''callback_shadow'' CALLBACK_SHADOW,
      json_word ''query_shadow'' QUERY_SHADOW,
      json_flag ''connect_sequence_requested'' (connect_first s),
      json_flag ''connect_commands_consumed'' (connects_consumed s),
      json_number ''connect_polls_ms'' (connect_polls s),
      json_number ''polls_ms'' (min (polls s) 2000),
      json_flag ''command_consumed'' (command_consumed s),
      json_flag ''response_consumed'' (response_consumed s),
      json_words ''response_words'' (take (selected_response_words s) (response s)),
      json_flag ''reply_header_matches'' (header_matches s),
      json_flag ''writes_confined_to_response_prefix'' (memory_bounded s),
      json_flag ''all_dsps_ready'' (ready_after s),
      json_flag ''explicit_restore_succeeded'' (restored s),
      json_flag ''vfio_reset_recovered'' (reset_recovered s),
      json_last ''success'' (exit_success s),
      ''}'']"

definition fq_bytes :: nat where "fq_bytes = 65 * 4096"

definition fq_close :: "vfio_env \<Rightarrow> (query_session, unit) state" where
  "fq_close e =
     do { report_lines fq_report_lines;
          close_card (unmap_ok e fq_bytes);
          close_host }"

definition fq_main :: "command_env \<Rightarrow> string list \<Rightarrow> (query_session, bool) state" where
  "fq_main c argv =
     (case fq_arguments argv of
        None \<Rightarrow> State_Monad.return False
      | Some select \<Rightarrow>
          do { modify select;
               ok \<leftarrow> fq_prepare c;
               (if ok then fq_run (host c) else State_Monad.return ());
               cmd_cleanup (host c);
               fq_close (host c);
               gets exit_success })"

end
