(* ===== verification/Full_Query_Results.thy ===== *)
theory Full_Query_Results
  imports Full_Query
begin

text \<open>
  \<^verbatim>\<open>tools/vfio_full_query.c\<close> meets the contract of a command tool: its sessions end released, its
  stores are the startup sequence, the connect commands if asked for, and one submission, always
  followed by the restore sequence, and exit status 0 is backed by the answer the run has seen.
\<close>

section \<open>What a run stores and what it works on\<close>

definition fq_stores :: "bool \<Rightarrow> (nat \<Rightarrow> nat \<Rightarrow> u32) \<Rightarrow> (u32 \<times> u32) list" where
  "fq_stores connect ix = startup_stores ix @
     (if connect then connect_stores @ [(INTERRUPT_ENABLE, 0xdddddddd)] @
        submit_stores 1 3 0xdddddddf 0xdddddddf
      else submit_stores ((ix 0 1 + 1) mod 1024) ((ix 0 0 + 1) mod 1024) RESPONSE_SHADOW QUERY_SHADOW)"

definition fq_indexes :: "bool \<Rightarrow> (nat \<Rightarrow> nat \<Rightarrow> u32) \<Rightarrow> bool" where
  "fq_indexes connect ix \<longleftrightarrow> (\<forall>d r. ix d r < 1024) \<and> (connect \<longrightarrow> (\<forall>d<8. ix d 0 = 0 \<and> ix d 1 = 0))"

text \<open>A run that gives up waiting for the connect commands submits nothing.\<close>

definition fq_shape :: "bool \<Rightarrow> (u32 \<times> u32) list \<Rightarrow> bool" where
  "fq_shape connect ws \<longleftrightarrow> (\<exists>ix. fq_indexes connect ix \<and> (ws = fq_stores connect ix \<or>
     connect \<and> ws = startup_stores ix @ connect_stores @ [(INTERRUPT_ENABLE, 0xdddddddd)]))"

text \<open>The memory when the rings are started.\<close>

definition fq_memory :: "bool \<Rightarrow> u32 \<Rightarrow> nat \<Rightarrow> (nat \<Rightarrow> nat \<Rightarrow> u32) \<Rightarrow> u64 \<Rightarrow> nat \<Rightarrow> u8" where
  "fq_memory connect command words ix now =
     query_entries command words (if connect then 2 else ix 0 0) (ix 0 1)
       (if connect then clock_entry now (fold connect_entry [0..<8] (fq_fill (\<lambda>_. 0)))
        else fq_fill (\<lambda>_. 0))"

definition fq_work :: "vfio_env \<Rightarrow> query_session \<Rightarrow> history \<Rightarrow> history \<Rightarrow> (nat \<Rightarrow> u8) \<Rightarrow> (nat \<Rightarrow> u8) option \<Rightarrow> bool" where
  "fq_work e mode k h m copy \<longleftrightarrow> seen cold_gate_seen k \<and> copied e k m copy \<and>
     (\<exists>ix now. fq_indexes (connect_first mode) ix \<and>
        m = fq_memory (connect_first mode) (selected_command mode) (selected_response_words mode) ix now \<and>
        writes h = fq_stores (connect_first mode) ix \<and>
        answered e (selected_response_words mode) (\<lambda>ws. ws ! 0 = selected_header mode)
          (fq_regions (selected_response_words mode))
          (if connect_first mode then 3 else (ix 0 0 + 1) mod 1024)
          (if connect_first mode then 1 else (ix 0 1 + 1) mod 1024) h m copy) \<and>
     (connect_first mode \<longrightarrow> (\<exists>evs. h = evs @ k \<and> seen connects_seen evs))"

definition same_mode :: "query_session \<Rightarrow> query_session \<Rightarrow> bool" where
  "same_mode s t \<longleftrightarrow> connect_first t = connect_first s \<and> selected_command t = selected_command s \<and>
     selected_header t = selected_header s \<and> selected_response_words t = selected_response_words s"

definition fq_prepared :: "command_env \<Rightarrow> query_session \<Rightarrow> query_session \<Rightarrow> bool" where
  "fq_prepared c mode s \<longleftrightarrow> same_mode mode s \<and> \<not> connects_consumed s \<and>
     fq_indexes (connect_first mode) (indexes s) \<and> seen cold_gate_seen (log s) \<and>
     copied (host c) (log s) (ram s) (heap_copy s) \<and>
     (\<exists>now. ram s = fq_memory (connect_first mode) (selected_command mode) (selected_response_words mode)
        (indexes s) now)"

section \<open>Preparation\<close>

lemma fq_index_step: "preserves (carries S) (modify (\<lambda>s. s\<lparr>indexes := f s\<rparr>))"
  by (rule carries_local) (simp_all add: same_holdings_def same_handles_def)

lemma fq_prepares: "prepares {} (fq_prepare c) armed_set"
proof -
  have ix: "prepares A (do { fq_read_indexes (host c); check True }) A" if "BarMap \<in> A" for A
  proof -
    note rd = carries_rd[OF that, THEN keeps_rdD]
    have keep: "preserves (carries A) (fq_read_indexes (host c))"
      unfolding fq_read_indexes_def by (intro preserves_intros rd fq_index_step) (simp add: ring_base_in_bar)
    have quiet: "preserves (\<lambda>t. writes (log t) = w \<and> exit_success t = b \<and> startup t = d) (fq_read_indexes (host c))"
      for w b d
      unfolding fq_read_indexes_def read32_def by (intro preserves_intros) (auto simp: preserves_def wp_simps)
    show ?thesis
      unfolding prepares_def wp_bind check_def wp_return
      by (intro allI impI, rule wp_mono[OF wp_conjI[OF preservesD[OF keep] preservesD[OF quiet]]])
        (auto simp: tool_ok_carries carries_def)
  qed
  have en: "prepares A (fq_entries c) A" for A
    unfolding fq_entries_def fq_connect_entries_def by (intro prepares_local local_intros)
  have "prepares {} (fq_prepare c) (insert Snapshot (insert BarMap (insert VfioDevice (insert VfioMapping
      (insert VfioMemory (insert VfioAttached (insert VfioGroup {VfioContainer})))))))"
    unfolding fq_prepare_def fq_open_def
    by (rule prepares_host prepares_card prepares_intros ix en local_intros | simp)+
  moreover have "insert Snapshot (insert BarMap (insert VfioDevice (insert VfioMapping
      (insert VfioMemory (insert VfioAttached (insert VfioGroup {VfioContainer})))))) = armed_set"
    unfolding armed_set_def whole_def by blast
  ultimately show ?thesis by simp
qed

text \<open>What the preparation leaves: the indexes, the memory, its copy, and a cold card seen.\<close>

lemma fq_open_wp:
  "wp (fq_open e) (\<lambda>ok t. ok \<longrightarrow> session.more t = session.more s \<and> ram t = fq_fill (ram s)) s"
  by (simp add: fq_open_def attach_host_def map_card_def open_container_def open_group_def attach_group_def
      configure_iommu_def allocate_memory_def store_ram_def map_iova_def open_device_def map_bar_def
      check_def wp_simps)

lemma fq_read_indexes_wp:
  assumes "\<forall>d r. indexes s d r < 1024"
    and "\<And>rs ix. reads rs \<Longrightarrow> \<forall>d r. ix d r < 1024 \<Longrightarrow> Q () (s\<lparr>log := rs @ log s, indexes := ix\<rparr>)"
  shows "wp (fq_read_indexes e) Q s"
proof -
  define I where "I t \<longleftrightarrow> (\<exists>rs ix. reads rs \<and> (\<forall>d r. ix d r < 1024) \<and>
      t = s\<lparr>log := rs @ log s, indexes := ix\<rparr>)" for t
  have step: "preserves I (do {
     raw \<leftarrow> read32 e (ring_base d r + 0x28);
     modify (\<lambda>s. s\<lparr>indexes := (indexes s)(d := (indexes s d)(r :=
       if raw < 1024 then raw else 0))\<rparr>) })" for d r
    unfolding preserves_def
  proof (intro allI impI)
    fix t
    assume "I t"
    then obtain rs ix where t: "reads rs" "\<forall>d r. ix d r < 1024" "t = s\<lparr>log := rs @ log s, indexes := ix\<rparr>"
      by (auto simp: I_def)
    let ?a = "ring_base d r + 0x28"
    let ?ix = "\<lambda>v. ix(d := (ix d)(r := if v < 1024 then v else 0))"
    have inv: "I (s\<lparr>log := (Rd ?a v # rs) @ log s, indexes := ?ix v\<rparr>)" for v
      unfolding I_def by (intro exI[of _ "Rd ?a v # rs"] exI[of _ "?ix v"]) (use t(1,2) in simp)
    show "wp (do { raw \<leftarrow> read32 e ?a;
       modify (\<lambda>s. s\<lparr>indexes := (indexes s)(d := (indexes s d)(r :=
         if raw < 1024 then raw else 0))\<rparr>) }) (\<lambda>_. I) t"
      using t(3) inv[of "answer e (rs @ log s) ?a"]
      by (cases "answer e (rs @ log s) ?a < 1024") (simp_all add: read32_def wp_simps)
  qed
  have "I s" unfolding I_def by (intro exI[of _ "[]"] exI[of _ "indexes s"]) (use assms(1) in simp)
  moreover have "preserves I (fq_read_indexes e)" unfolding fq_read_indexes_def by (intro preserves_for_each step)
  ultimately have "wp (fq_read_indexes e) (\<lambda>_. I) s" by (intro preservesD)
  then show ?thesis by (rule wp_mono) (use assms(2) in \<open>auto simp: I_def\<close>)
qed

lemma fq_connect_entries_wp:
  assumes "\<And>t. Q False t"
    and "\<And>now. \<forall>d<8. indexes s d 0 = 0 \<and> indexes s d 1 = 0 \<Longrightarrow>
      Q True (s\<lparr>ram := clock_entry now (fold connect_entry [0..<8] (ram s))\<rparr>)"
  shows "wp (fq_connect_entries c) Q s"
proof -
  define I where "I k t \<longleftrightarrow> (\<forall>d<k. indexes s d 0 = 0 \<and> indexes s d 1 = 0) \<and>
      t = s\<lparr>ram := fold connect_entry [0..<k] (ram s)\<rparr>" for k t
  have "wp (all_m [0..<8] (\<lambda>dsp. do {
              ix \<leftarrow> gets indexes;
              if ix dsp 0 \<noteq> 0 \<or> ix dsp 1 \<noteq> 0 then State_Monad.return False
              else do { store_ram (connect_entry dsp); State_Monad.return True } }))
      (\<lambda>b. if b then I 8 else (\<lambda>_. True)) s"
    by (rule wp_all_upt[where I = I])
      (auto simp: I_def wp_simps store_ram_def less_Suc_eq)
  then show "wp (fq_connect_entries c) Q s"
    unfolding fq_connect_entries_def wp_and_m
    by (rule wp_mono)
      (use assms in \<open>auto simp: I_def wp_simps store_ram_def split: if_splits\<close>)
qed

lemma fq_entries_wp:
  assumes "\<And>t. Q False t"
    and "\<And>now. (connect_first s \<longrightarrow> (\<forall>d<8. indexes s d 0 = 0 \<and> indexes s d 1 = 0)) \<Longrightarrow>
      Q True (s\<lparr>ram := query_entries (selected_command s) (selected_response_words s)
        (if connect_first s then 2 else indexes s 0 0) (indexes s 0 1)
        (if connect_first s then clock_entry now (fold connect_entry [0..<8] (ram s)) else ram s)\<rparr>)"
  shows "wp (fq_entries c) Q s"
proof (cases "connect_first s")
  case True
  have "wp (fq_connect_entries c) (\<lambda>x. if x then wp (do { s \<leftarrow> gets (\<lambda>s. s);
       store_ram (query_entries (selected_command s) (selected_response_words s)
         (query_command_index s) (query_response_index s)); State_Monad.return True }) Q else Q False) s"
    by (rule fq_connect_entries_wp)
      (use assms True in \<open>auto simp: wp_simps store_ram_def query_command_index_def query_response_index_def\<close>)
  then show ?thesis using True by (simp add: fq_entries_def wp_simps)
next
  case False
  then show ?thesis using assms
    by (simp add: fq_entries_def wp_simps store_ram_def query_command_index_def query_response_index_def)
qed

lemma fq_more:
  fixes s t :: query_session
  assumes "session.more t = session.more s"
  shows "same_mode s t" "indexes t = indexes s" "connects_consumed t = connects_consumed s"
  using assms by (cases s; cases t; simp add: same_mode_def)+

lemma fq_prepare_wp:
  assumes "\<forall>d r. indexes s d r < 1024" "\<not> connects_consumed s" "ram s = (\<lambda>_. 0)"
  shows "wp (fq_prepare c) (\<lambda>ok t. ok \<longrightarrow> fq_prepared c s t) s"
  unfolding fq_prepare_def wp_and_m[of "fq_open _"]
proof (rule wp_mono[OF fq_open_wp], goal_cases)
  case (1 opened t)
  show ?case
  proof (cases opened)
    case False
    then show ?thesis by simp
  next
    case True
    then have t: "session.more t = session.more s" "ram t = fq_fill (\<lambda>_. 0)" using 1 assms(3) by simp_all
    note m = fq_more[OF t(1)]
    have "wp (and_m (cold_card (host c)) (and_m (do { fq_read_indexes (host c); check True })
        (and_m (fq_entries c) (take_snapshot c)))) (\<lambda>ok t. ok \<longrightarrow> fq_prepared c s t) t"
      unfolding wp_and_m[of "cold_card _"]
    proof (rule read_only_wp[OF cold_card_checks], goal_cases)
      case (1 cold rs)
      have "wp (and_m (do { fq_read_indexes (host c); check True }) (and_m (fq_entries c) (take_snapshot c)))
          (\<lambda>ok t. ok \<longrightarrow> fq_prepared c s t) (t\<lparr>log := rs @ log t\<rparr>)" if cold
        unfolding wp_and_m wp_bind check_def wp_return if_True
      proof (rule fq_read_indexes_wp, goal_cases)
        case 1
        then show ?case using assms(1) m by simp
      next
        case (2 qs ix)
        let ?u = "t\<lparr>log := qs @ rs @ log t, indexes := ix\<rparr>"
        have fin: "fq_prepared c s (?u\<lparr>ram := query_entries (selected_command s) (selected_response_words s)
            (if connect_first s then 2 else ix 0 0) (ix 0 1)
            (if connect_first s then clock_entry now (fold connect_entry [0..<8] (fq_fill (\<lambda>_. 0)))
             else fq_fill (\<lambda>_. 0)), log := Acquire Snapshot # qs @ rs @ log t,
            heap_copy := Some (ram_view (host c) (Acquire Snapshot # qs @ rs @ log t)
              (query_entries (selected_command s) (selected_response_words s)
                (if connect_first s then 2 else ix 0 0) (ix 0 1)
                (if connect_first s then clock_entry now (fold connect_entry [0..<8] (fq_fill (\<lambda>_. 0)))
                 else fq_fill (\<lambda>_. 0))))\<rparr>)"
          if z: "connect_first s \<longrightarrow> (\<forall>d<8. ix d 0 = 0 \<and> ix d 1 = 0)" for now
        proof -
          have "seen cold_gate_seen (Acquire Snapshot # qs @ rs @ log t)"
            using \<open>reads rs\<close> \<open>cold \<Longrightarrow> seen cold_gate_seen rs\<close> \<open>cold\<close> by (auto intro: seen_mono)
          then show ?thesis
            unfolding fq_prepared_def
            using m assms(2) 2(2) z
            by (auto simp: same_mode_def fq_indexes_def copied_def fq_memory_def)
        qed
        show ?case
          by (rule fq_entries_wp)
            (use m t(2) fin in \<open>auto simp: take_snapshot_def wp_simps same_mode_def\<close>)
      qed
      then show ?case by simp
    qed
    then show ?thesis using True by simp
  qed
qed

lemma fq_prepare_no_input: "preserves (\<lambda>s. file_fd s < 0) (fq_prepare c)"
  unfolding fq_prepare_def fq_open_def attach_host_def map_card_def open_container_def open_group_def
    attach_group_def configure_iommu_def allocate_memory_def store_ram_def map_iova_def open_device_def
    map_bar_def check_def cold_card_def all_rings_zero_def all_ready_def scan_ready_def scan_rings_def
    read_is_def read32_def fq_read_indexes_def fq_entries_def fq_connect_entries_def take_snapshot_def
  by (intro preserves_intros preserves_modify) (simp_all add: preserves_def wp_simps)

section \<open>The run\<close>

lemma fq_updates:
  "preserves (carries S) (modify (\<lambda>s. s\<lparr>connect_polls := n\<rparr>))"
  by (rule carries_local; simp add: same_holdings_def same_handles_def)

lemma fq_run_armed: "preserves armed (fq_run e)"
  unfolding fq_run_def fq_connect_def fq_query_def fq_collect_def when_m_def Let_def
  by (intro preserves_intros armed_intros fq_updates) simp_all

text \<open>What the checks at the end of a run conclude.\<close>

lemma fq_collect_wp:
  assumes "\<not> exit_success s" "0 < selected_response_words s"
  shows "wp (fq_collect e cp rp) (\<lambda>_ t. startup t = startup s \<and> ram t = ram s \<and> heap_copy t = heap_copy s \<and>
     writes (log t) = writes (log s) \<and> extends (log s) t \<and>
     (exit_success t \<longrightarrow> answered e (selected_response_words s) (\<lambda>ws. ws ! 0 = selected_header s)
       (fq_regions (selected_response_words s)) cp rp (log t) (ram t) (heap_copy t))) s"
  unfolding fq_collect_def wp_bind wp_gets load_response_def wp_modify
proof (rule check_positions_wp, rule check_memory_wp, unfold interrupted_def wp_gets wp_when_m, goal_cases)
  case (1 b d rs r qs)
  let ?n = "selected_response_words s"
  have first: "(map f [0..<?n] @ xs) ! 0 = f 0" for f :: "nat \<Rightarrow> u32" and xs
    using assms(2) by (simp add: nth_append)
  have ans: "answered e ?n (\<lambda>ws. ws ! 0 = selected_header s) (fq_regions ?n) cp rp (qs @ rs @ log s)
      (ram s) (heap_copy s)"
    if "b" "d" "r" "get32 (ram_view e (log s) (ram s)) (RESPONSE_PAGE * 4096) = selected_header s"
      "same_bytes (fq_regions ?n) (ram_view e (qs @ rs @ log s) (ram s)) (the (heap_copy s))"
      "\<not> ever (signalled e) (qs @ rs @ log s)"
    unfolding answered_def answered_seen_def
  proof (rule exI[of _ "qs @ rs"], rule exI[of _ "log s"], intro conjI)
    have "seen {(ring_reg 0 0 10, \<lambda>v. v = cp), (ring_reg 0 1 10, \<lambda>v. v = rp)} rs" "seen ready_seen qs"
      using 1 that by simp_all
    then show "seen ({(ring_reg 0 0 10, \<lambda>v. v = cp), (ring_reg 0 1 10, \<lambda>v. v = rp)} \<union> ready_seen) (qs @ rs)"
      unfolding seen_union by (intro conjI) (erule seen_mono, simp)+
    show "response_words e (log s) (ram s) ?n ! 0 = selected_header s"
      using that(4) assms(2) by (simp add: response_words_def)
  qed (use 1 that in simp_all)
  show ?case
    using 1 assms ans by (auto simp: wp_simps extends_def first)
qed

lemma writes_suffix: "log t = xs @ log s \<Longrightarrow> writes (log t) = writes (log s) @ writes xs"
  by (simp add: writes_append)

text \<open>The submission and its answer.\<close>

lemma fq_query_wp:
  assumes "\<not> exit_success s" "0 < selected_response_words s"
  shows "wp (fq_query e sh) (\<lambda>_ t. startup t = startup s \<and> ram t = ram s \<and> heap_copy t = heap_copy s \<and>
     extends (log s) t \<and> writes (log t) = writes (log s) @
       submit_stores ((query_response_index s + 1) mod 1024) ((query_command_index s + 1) mod 1024)
         (if connect_first s then sh OR 2 else RESPONSE_SHADOW)
         (if connect_first s then sh OR 2 OR 1 else QUERY_SHADOW) \<and>
     (exit_success t \<longrightarrow> answered e (selected_response_words s) (\<lambda>ws. ws ! 0 = selected_header s)
       (fq_regions (selected_response_words s)) ((query_command_index s + 1) mod 1024)
       ((query_response_index s + 1) mod 1024) (log t) (ram t) (heap_copy t))) s"
  unfolding fq_query_def Let_def wp_bind wp_gets submit_wp
proof (rule await_answer_wp, goal_cases)
  case (1 n xs)
  let ?ws = "submit_stores ((query_response_index s + 1) mod 1024) ((query_command_index s + 1) mod 1024)
         (if connect_first s then sh OR 2 else RESPONSE_SHADOW)
         (if connect_first s then sh OR 2 OR 1 else QUERY_SHADOW)"
  let ?t = "after ?ws s\<lparr>log := xs @ log (after ?ws s), polls := n\<rparr>"
  have f: "\<not> exit_success ?t" "0 < selected_response_words ?t" using assms by (simp_all add: after_def)
  have same: "startup ?t = startup s" "ram ?t = ram s" "heap_copy ?t = heap_copy s"
    "selected_response_words ?t = selected_response_words s" "selected_header ?t = selected_header s"
    "writes (log ?t) = writes (log s) @ ?ws" "extends (log s) ?t"
    using 1 by (simp_all add: after_def writes_append writes_rev_stores extends_def)
  show ?case
    by (rule wp_mono[OF fq_collect_wp[OF f]], unfold same) (use same(7) extends_trans in blast)
qed

section \<open>The whole run\<close>

lemma fq_connect_wp:
  assumes "\<not> connects_consumed s"
    and "\<And>b n xs. writes xs = [] \<Longrightarrow> (b \<Longrightarrow> seen connects_seen xs) \<Longrightarrow>
      Q (0xdddddddd, b) (after (connect_stores @ [(INTERRUPT_ENABLE, 0xdddddddd)]) s
        \<lparr>log := xs @ log (after (connect_stores @ [(INTERRUPT_ENABLE, 0xdddddddd)]) s),
         connects_consumed := b, connect_polls := n\<rparr>)"
  shows "wp (fq_connect e) Q s"
  unfolding fq_connect_def wp_bind wp_write32 connect_wp after_after
  by (rule await_connects_wp) (use assms in \<open>simp_all add: wp_simps after_def\<close>)

lemma fq_run_spec:
  assumes p: "fq_prepared c mode s" and s: "\<not> exit_success s" "writes (log s) = []"
    and n: "0 < selected_response_words mode"
  shows "wp (fq_run (host c)) (\<lambda>_ t. startup t \<and> fq_shape (connect_first mode) (writes (log t)) \<and>
     (exit_success t \<longrightarrow> fq_work (host c) mode (log s) (log t) (ram t) (heap_copy t))) s"
proof -
  let ?ix = "indexes s"
  let ?con = "connect_first mode"
  let ?start = "after (startup_stores ?ix) (s\<lparr>startup := True\<rparr>)"
  obtain now where mode: "same_mode mode s" and nc: "\<not> connects_consumed s" and ix: "fq_indexes ?con ?ix"
    and cold: "seen cold_gate_seen (log s)" and copy: "copied (host c) (log s) (ram s) (heap_copy s)"
    and mem: "ram s = fq_memory ?con (selected_command mode) (selected_response_words mode) ?ix now"
    using p by (auto simp: fq_prepared_def)
  note m = mode[unfolded same_mode_def]
  have q: "wp (fq_query (host c) sh) (\<lambda>_ t. startup t \<and> fq_shape ?con (writes (log t)) \<and>
      (exit_success t \<longrightarrow> fq_work (host c) mode (log s) (log t) (ram t) (heap_copy t))) u"
    if u: "startup u" "ram u = ram s" "heap_copy u = heap_copy s" "exit_success u = exit_success s"
        "same_mode s u" "indexes u = ?ix"
      and w: "writes (log u) @ submit_stores ((query_response_index u + 1) mod 1024)
          ((query_command_index u + 1) mod 1024) (if ?con then sh OR 2 else RESPONSE_SHADOW)
          (if ?con then sh OR 2 OR 1 else QUERY_SHADOW) = fq_stores ?con ?ix"
      and k: "extends (log s) u" "?con \<Longrightarrow> since (log s) connects_seen u" for u sh
  proof -
    note um = u(5)[unfolded same_mode_def] m
    have pos: "(query_command_index u + 1) mod 1024 = (if ?con then 3 else (?ix 0 0 + 1) mod 1024)"
      "(query_response_index u + 1) mod 1024 = (if ?con then 1 else (?ix 0 1 + 1) mod 1024)"
      using um u(6) ix by (auto simp: query_command_index_def query_response_index_def fq_indexes_def)
    have e: "selected_response_words u = selected_response_words mode" "selected_header u = selected_header mode"
      using um by simp_all
    have f: "\<not> exit_success u" "0 < selected_response_words u" using s(1) u(4) e n by simp_all
    show ?thesis
    proof (rule wp_mono[OF fq_query_wp[OF f]])
      fix t
      assume t: "startup t = startup u \<and> ram t = ram u \<and> heap_copy t = heap_copy u \<and> extends (log u) t \<and>
        writes (log t) = writes (log u) @
        submit_stores ((query_response_index u + 1) mod 1024) ((query_command_index u + 1) mod 1024)
          (if connect_first u then sh OR 2 else RESPONSE_SHADOW)
          (if connect_first u then sh OR 2 OR 1 else QUERY_SHADOW) \<and>
        (exit_success t \<longrightarrow> answered (host c) (selected_response_words u) (\<lambda>ws. ws ! 0 = selected_header u)
          (fq_regions (selected_response_words u)) ((query_command_index u + 1) mod 1024)
          ((query_response_index u + 1) mod 1024) (log t) (ram t) (heap_copy t))"
      have con: "connect_first u = ?con" using um by simp
      have ws: "writes (log t) = fq_stores ?con ?ix" using t w con by simp
      have since: "?con \<Longrightarrow> since (log s) connects_seen t"
        using k(2) t since_mono by blast
      have "fq_work (host c) mode (log s) (log t) (ram t) (heap_copy t)" if "exit_success t"
      proof -
        have "answered (host c) (selected_response_words mode) (\<lambda>ws. ws ! 0 = selected_header mode)
          (fq_regions (selected_response_words mode)) (if ?con then 3 else (?ix 0 0 + 1) mod 1024)
          (if ?con then 1 else (?ix 0 1 + 1) mod 1024) (log t) (ram t) (heap_copy t)"
          using t that unfolding pos e by blast
        moreover have "ram t = ram s" "heap_copy t = heap_copy s" using t u by simp_all
        ultimately show ?thesis
          unfolding fq_work_def using cold copy ix mem ws since
          by (auto simp: since_def intro!: exI[of _ ?ix] exI[of _ now])
      qed
      then show "startup t \<and> fq_shape ?con (writes (log t)) \<and>
        (exit_success t \<longrightarrow> fq_work (host c) mode (log s) (log t) (ram t) (heap_copy t))"
        using t u(1) ws ix by (auto simp: fq_shape_def)
    qed
  qed
  have start: "startup ?start" "ram ?start = ram s" "heap_copy ?start = heap_copy s"
    "exit_success ?start = exit_success s" "same_mode s ?start" "indexes ?start = ?ix"
    "writes (log ?start) = startup_stores ?ix" "extends (log s) ?start" "\<not> connects_consumed ?start"
    using s(2) nc by (simp_all add: after_def same_mode_def writes_append extends_def)
  show ?thesis
  proof (cases ?con)
    case False
    have "wp (fq_query (host c) CALLBACK_SHADOW) (\<lambda>_ t. startup t \<and> fq_shape ?con (writes (log t)) \<and>
        (exit_success t \<longrightarrow> fq_work (host c) mode (log s) (log t) (ram t) (heap_copy t))) ?start"
      by (rule q[OF start(1-6) _ start(8)])
        (use False start(5-7) m in \<open>simp_all add: fq_stores_def query_command_index_def
          query_response_index_def same_mode_def\<close>)
    then show ?thesis
      using False start(5) m by (simp add: fq_run_def wp_bind wp_gets start_rings_wp wp_return same_mode_def)
  next
    case True
    let ?ws = "connect_stores @ [(INTERRUPT_ENABLE, 0xdddddddd)]"
    have "wp (fq_connect (host c)) (\<lambda>a. wp (case a of (sh, go) \<Rightarrow> if go then fq_query (host c) sh
        else State_Monad.return ()) (\<lambda>_ t. startup t \<and> fq_shape ?con (writes (log t)) \<and>
        (exit_success t \<longrightarrow> fq_work (host c) mode (log s) (log t) (ram t) (heap_copy t)))) ?start"
    proof (rule fq_connect_wp[OF start(9)])
      fix b n xs
      let ?u = "after ?ws ?start\<lparr>log := xs @ log (after ?ws ?start), connects_consumed := b, connect_polls := n\<rparr>"
      assume xs: "writes xs = []" "b \<Longrightarrow> seen connects_seen xs"
      have u: "startup ?u" "ram ?u = ram s" "heap_copy ?u = heap_copy s" "exit_success ?u = exit_success s"
        "same_mode s ?u" "indexes ?u = ?ix" "writes (log ?u) = startup_stores ?ix @ ?ws" "extends (log s) ?u"
        using s(2) xs(1) by (simp_all add: after_def same_mode_def writes_append extends_def)
      have si: "since (log s) connects_seen ?u" if b
      proof -
        have "seen connects_seen (xs @ rev (map (\<lambda>(a, v). Wr a v) (startup_stores ?ix @ ?ws)))"
          using xs(2)[OF that] by (auto intro: seen_mono)
        then show ?thesis unfolding since_def by (auto simp: after_def)
      qed
      show "wp (case (0xdddddddd, b) of (sh, go) \<Rightarrow> if go then fq_query (host c) sh
        else State_Monad.return ()) (\<lambda>_ t. startup t \<and> fq_shape ?con (writes (log t)) \<and>
        (exit_success t \<longrightarrow> fq_work (host c) mode (log s) (log t) (ram t) (heap_copy t))) ?u"
      proof (cases b)
        case b: True
        have con: "connect_first ?u" using u(5) True m by (simp add: same_mode_def)
        have z: "?ix 0 1 = 0" using ix True by (simp add: fq_indexes_def)
        have "wp (fq_query (host c) 0xdddddddd) (\<lambda>_ t. startup t \<and> fq_shape ?con (writes (log t)) \<and>
            (exit_success t \<longrightarrow> fq_work (host c) mode (log s) (log t) (ram t) (heap_copy t))) ?u"
          by (rule q[OF u(1-6) _ u(8) si[OF b]])
            (use True u(6,7) con z in \<open>simp add: fq_stores_def query_command_index_def query_response_index_def\<close>)
        then show ?thesis using b by simp
      next
        case False
        have "fq_shape ?con (writes (log ?u))" unfolding u(7) fq_shape_def using ix True by auto
        then show ?thesis using False u(1,4) s(1) by (simp add: wp_return)
      qed
    qed
    then show ?thesis
      using True start(5) m by (simp add: fq_run_def wp_bind wp_gets start_rings_wp same_mode_def)
  qed
qed

section \<open>The contract, and the whole program\<close>

text \<open>The locals after the command line has been read.\<close>

definition fq_start :: "string list \<Rightarrow> query_session" where
  "fq_start argv = (case fq_arguments argv of None \<Rightarrow> fq_locals | Some select \<Rightarrow> select fq_locals)"

lemma fq_start_facts:
  "fresh_command QUERY_RESPONSE_WORDS (fq_start argv)" "0 < selected_response_words (fq_start argv)"
  "indexes (fq_start argv) = (\<lambda>_ _. 0)" "ram (fq_start argv) = (\<lambda>_. 0)" "file_fd (fq_start argv) < 0"
  by (auto simp: fq_start_def fq_arguments_def fq_locals_def fresh_command_def fresh_session_def
      QUERY_RESPONSE_WORDS_def)

lemma fq_close_ends:
  assumes "tool_ok s" "\<not> engines_on (log s)" "holding s \<subseteq> - {InputFile}"
  shows "wp (fq_close e) (\<lambda>_. ends (unmap_ok e fq_bytes) s) s"
  unfolding fq_close_def
  by (rule wp_mono[OF report_first_wp[OF assms(1,2)]], erule torn_down_ends) (use assms(3) in auto)

interpretation fq_tool: command_tool "host c" "fq_prepare c" "fq_run (host c)" "fq_close (host c)"
    "fq_start argv" QUERY_RESPONSE_WORDS "unmap_ok (host c) fq_bytes" "- {InputFile}"
    "fq_prepared c (fq_start argv)" "fq_shape (connect_first (fq_start argv))"
    "fq_work (host c) (fq_start argv)" for c argv
proof unfold_locales
  note s = fq_start_facts[of argv]
  show "fresh_command QUERY_RESPONSE_WORDS (fq_start argv)" by (rule s)
  show "prepares {} (fq_prepare c) armed_set" by (rule fq_prepares)
  have "wp (fq_prepare c) (\<lambda>ok t. file_fd t < 0 \<and> (ok \<longrightarrow> fq_prepared c (fq_start argv) t)) (fq_start argv)"
    by (rule wp_conjI[OF preservesD[OF fq_prepare_no_input] fq_prepare_wp])
      (use s fresh_commandD(6)[OF s(1)] in simp_all)
  then show "wp (fq_prepare c) (\<lambda>ok t. holding t \<subseteq> - {InputFile} \<and>
      (ok \<longrightarrow> fq_prepared c (fq_start argv) t)) (fq_start argv)"
    by (rule wp_mono) (use holding_no_input in blast)
  show "preserves armed (fq_run (host c))" by (rule fq_run_armed)
qed (rule fq_run_spec fq_close_ends; use fq_start_facts in simp)+

definition fq_final :: "command_env \<Rightarrow> string list \<Rightarrow> query_session" where
  "fq_final c argv = snd (run_state (fq_main c argv) fq_locals)"

lemma fq_finished: "fq_tool.finished c argv (fq_final c argv)"
proof (cases "fq_arguments argv")
  case None
  then show ?thesis
    by (simp add: fq_final_def fq_main_def fq_tool.finished_def put_back_def released_def) (simp add: fq_locals_def vfio_safe_def vfio_nested_def confined_def)
next
  case (Some select)
  then have "wp (fq_main c argv) (\<lambda>_. fq_tool.finished c argv) fq_locals"
    using fq_tool.program_spec[of c argv] by (simp add: fq_main_def fq_start_def wp_bind wp_modify wp_gets)
  then show ?thesis by (simp add: fq_final_def wp_run)
qed

end
