(* ===== verification/Full_Query_Live.thy ===== *)
theory Full_Query_Live
  imports Command_Live Full_Query_Results
begin

text \<open>
  \<^verbatim>\<open>tools/vfio_full_query.c\<close> succeeds with each of its command lines, on a host on which every call
  succeeds and a serving card that replies with the expected header.
\<close>

section \<open>Preparation\<close>

definition fq_ready :: "query_session \<Rightarrow> query_session \<Rightarrow> bool" where
  "fq_ready mode s \<longleftrightarrow> writes (log s) = [] \<and> same_mode mode s \<and> indexes s = (\<lambda>_ _. 0)"

lemma fq_read_indexes_live:
  assumes "serving_hw (answer e)" "fq_ready mode s"
  shows "wp (fq_read_indexes e) (\<lambda>_. fq_ready mode) s"
  unfolding fq_read_indexes_def
proof (rule wp_for_upt[where I = "\<lambda>_. fq_ready mode"], rule assms(2))
  fix d :: nat and t
  assume d: "d < 8" and t: "fq_ready mode t"
  show "wp (for_each [0..<2] (\<lambda>ring. do {
     raw \<leftarrow> read32 e (ring_base d ring + 0x28);
     modify (\<lambda>s. s\<lparr>indexes := (indexes s)(d := (indexes s d)(ring :=
       if raw < 1024 then raw else 0))\<rparr>) })) (\<lambda>_. fq_ready mode) t"
  proof (rule wp_for_upt[where I = "\<lambda>_. fq_ready mode"], rule t)
    fix r :: nat and u
    assume r: "r < 2" and u: "fq_ready mode u"
    then have "shadow (log u) = Map.empty" by (simp add: fq_ready_def shadow_map_of)
    then have "answer e (log u) (ring_base d r + 0x28) = 0"
      using serving_reads(6)[OF assms(1) d r, of "log u"] d r
      by (simp add: ring_base_reg ring_reg_words stored_at_def)
    moreover have "(\<lambda>_ _. 0 :: u32)(d := (\<lambda>_. 0)(r := 0)) = (\<lambda>_ _. 0)" by (simp add: fun_eq_iff)
    ultimately show "wp (do { raw \<leftarrow> read32 e (ring_base d r + 0x28);
       modify (\<lambda>s. s\<lparr>indexes := (indexes s)(d := (indexes s d)(r :=
         if raw < 1024 then raw else 0))\<rparr>) }) (\<lambda>_. fq_ready mode) u"
      using u by (simp add: read32_def wp_simps fq_ready_def same_mode_def)
  qed
qed

lemma fq_prepare_live:
  assumes e: "serving_env (host c) reply" "malloc_ok c" and s: "fq_ready mode s"
  shows "wp (fq_prepare c) (\<lambda>ok t. ok \<and> fq_ready mode t) s"
proof -
  let ?R = "fq_ready mode"
  have hw: "serving_hw (answer (host c))" and page: "sys_page_size (host c) = 4096"
    using e(1) by (simp_all add: serving_env_def good_env_def)
  have keep: "preserves ?R (attach_host (host c))" "preserves ?R (allocate_memory (host c))"
    "preserves ?R (map_card (host c))"
    unfolding attach_host_def allocate_memory_def map_card_def open_container_def open_group_def attach_group_def
      configure_iommu_def map_iova_def open_device_def map_bar_def check_def
    by (intro preserves_intros preserves_modify; simp add: preserves_def wp_simps fq_ready_def same_mode_def)+
  have k: "wp (check (sys_page_size (host c) = 4096)) (\<lambda>ok t. ok \<and> ?R t) t" if "?R t" for t
    using that page by (simp add: check_def wp_simps)
  have f: "wp (do { store_ram fq_fill; check True }) (\<lambda>ok t. ok \<and> ?R t) t" if "?R t" for t
    using that by (simp add: check_def store_ram_def wp_simps fq_ready_def same_mode_def)
  have a: "wp (attach_host (host c)) (\<lambda>ok t. ok \<and> ?R t) t" if "?R t" for t
    by (rule ok_keeping[OF keep(1) that opening_live(1)[OF e(1)]])
  have l: "wp (allocate_memory (host c)) (\<lambda>ok t. ok \<and> ?R t) t" if "?R t" for t
    by (rule ok_keeping[OF keep(2) that opening_live(2)[OF e(1)]])
  have m: "wp (map_card (host c)) (\<lambda>ok t. ok \<and> ?R t) t" if "?R t" for t
    by (rule ok_keeping[OF keep(3) that opening_live(3)[OF e(1)]])
  have o: "wp (fq_open (host c)) (\<lambda>ok t. ok \<and> ?R t) t" if "?R t" for t
    unfolding fq_open_def
    by (rule wp_and_ok[OF k[OF that] wp_and_ok[OF a wp_and_ok[OF l wp_and_ok[OF f m]]]])
  have g: "wp (cold_card (host c)) (\<lambda>ok t. ok \<and> ?R t) t" if "?R t" for t
    by (rule meets_wp[OF meets_cold_card[OF hw]])
      (use that in \<open>simp_all add: fq_ready_def same_mode_def shadow_map_of writes_append\<close>)
  have i: "wp (do { fq_read_indexes (host c); check True }) (\<lambda>ok t. ok \<and> ?R t) t" if "?R t" for t
    unfolding wp_bind by (rule wp_mono[OF fq_read_indexes_live[OF hw that]]) (simp add: check_def wp_return)
  have stay: "preserves ?R (fq_entries c)" "preserves ?R (take_snapshot c)"
    unfolding fq_entries_def fq_connect_entries_def take_snapshot_def store_ram_def
    by (intro preserves_intros preserves_modify; simp add: preserves_def wp_simps fq_ready_def same_mode_def)+
  have n: "wp (fq_entries c) (\<lambda>ok t. ok \<and> ?R t) t" if "?R t" for t
  proof (rule ok_keeping[OF stay(1) that])
    have z: "indexes t = (\<lambda>_ _. 0)" using that by (simp add: fq_ready_def)
    have "wp (all_m [0..<8] (\<lambda>dsp. do {
              ix \<leftarrow> gets indexes;
              if ix dsp 0 \<noteq> 0 \<or> ix dsp 1 \<noteq> 0 then State_Monad.return False
              else do { store_ram (connect_entry dsp); State_Monad.return True } })) (\<lambda>ok t. ok) t"
      by (rule wp_all_upt[where I = "\<lambda>_ t. indexes t = (\<lambda>_ _. 0)"]) (simp_all add: z wp_simps store_ram_def)
    then have "wp (fq_connect_entries c) (\<lambda>ok t. ok) t"
      unfolding fq_connect_entries_def wp_and_m
      by (rule wp_mono) (simp add: wp_simps store_ram_def)
    moreover have last: "wp (do { s \<leftarrow> gets (\<lambda>s. s);
         store_ram (query_entries (selected_command s) (selected_response_words s)
           (query_command_index s) (query_response_index s)); State_Monad.return True }) (\<lambda>ok _. ok) u" for u
      by (simp add: store_ram_def wp_simps)
    ultimately have "wp (do { connect \<leftarrow> gets connect_first;
        if connect then fq_connect_entries c else State_Monad.return True }) (\<lambda>ok t. ok \<and> True) t"
      by (simp add: wp_simps)
    then have "wp (fq_entries c) (\<lambda>ok t. ok \<and> True) t"
      unfolding fq_entries_def by (rule wp_and_ok) (simp only: simp_thms last)
    then show "wp (fq_entries c) (\<lambda>ok _. ok) t" by simp
  qed
  have c: "wp (take_snapshot c) (\<lambda>ok t. ok \<and> ?R t) t" if "?R t" for t
    by (rule ok_keeping[OF stay(2) that]) (use e(2) in \<open>simp add: take_snapshot_def wp_simps\<close>)
  show ?thesis
    unfolding fq_prepare_def
    by (rule wp_and_ok[OF o[OF s] wp_and_ok[OF g wp_and_ok[OF i wp_and_ok[OF n c]]]])
qed

section \<open>The run\<close>

lemma fq_collect_live:
  assumes e: "serving_env e (selected_header s)" and o: "offering cp rp (log s)" "rp \<noteq> 0"
    and s: "heap_copy s = Some (ram s)" "0 < selected_response_words s"
  shows "wp (fq_collect e cp rp) (\<lambda>_. exit_success) s"
  unfolding fq_collect_def wp_bind load_response_def wp_modify wp_gets
proof (rule check_positions_live[OF e], simp add: o, rule check_memory_live[OF e],
    unfold interrupted_def wp_gets wp_when_m, goal_cases)
  case (1 rs qs)
  have first: "(map f [0..<selected_response_words s] @ xs) ! 0 = f 0" for f :: "nat \<Rightarrow> u32" and xs
    using s(2) by (simp add: nth_append)
  have same: "same_bytes (fq_regions (selected_response_words s)) (put32 (RESPONSE_PAGE * 4096) v m) m" for v m
    using s(2) by (auto simp: same_bytes_def fq_regions_def list_all_iff put32_other)
  show ?case
    using 1 o s same serving_quiet[OF e]
    by (simp add: wp_modify first reply_read[OF e] get32_put32)
qed

lemma fq_query_live:
  assumes e: "serving_env e (selected_header s)" "selected_header s \<noteq> CANARY_WORD"
    and s: "heap_copy s = Some (ram s)" "0 < selected_response_words s" "indexes s = (\<lambda>_ _. 0)"
  shows "wp (fq_query e sh) (\<lambda>_. exit_success) s"
  unfolding fq_query_def Let_def wp_bind wp_gets submit_wp
proof (rule await_answer_live[OF e(1) _ offering_submit _ e(2)])
  fix rs :: history
  let ?cp = "(query_command_index s + 1) mod 1024" and ?rp = "(query_response_index s + 1) mod 1024"
  let ?u = "after (submit_stores ?rp ?cp (if connect_first s then sh OR 2 else RESPONSE_SHADOW)
      (if connect_first s then sh OR 2 OR 1 else QUERY_SHADOW)) s"
  assume "reads rs"
  then show "wp (fq_collect e ?cp ?rp) (\<lambda>_. exit_success) (?u\<lparr>log := rs @ log ?u, polls := 0\<rparr>)"
    by (intro fq_collect_live)
      (use e s in \<open>simp_all add: after_def offering_submit[unfolded after_def, simplified] query_response_index_def\<close>)
qed (use s in \<open>simp_all add: query_response_index_def\<close>)

lemma fq_run_live:
  assumes e: "serving_env e (selected_header mode)" "selected_header mode \<noteq> CANARY_WORD"
    and s: "fq_ready mode s" "heap_copy s = Some (ram s)" "\<not> connects_consumed s" "0 < selected_response_words mode"
  shows "wp (fq_run e) (\<lambda>_. exit_success) s"
proof -
  have m: "same_mode mode s" "indexes s = (\<lambda>_ _. 0)" using s(1) by (simp_all add: fq_ready_def)
  have q: "wp (fq_query e sh) (\<lambda>_. exit_success) t"
    if "heap_copy t = Some (ram t)" "same_mode mode t" "indexes t = (\<lambda>_ _. 0)" for t sh
    by (rule fq_query_live) (use that e s(4) in \<open>simp_all add: same_mode_def\<close>)
  let ?s = "after (startup_stores (\<lambda>_ _. 0)) (s\<lparr>startup := True\<rparr>)"
  show ?thesis
  proof (cases "connect_first s")
    case False
    have "wp (fq_query e CALLBACK_SHADOW) (\<lambda>_. exit_success) ?s"
      by (rule q) (use s(2) m in \<open>simp_all add: after_def same_mode_def\<close>)
    then show ?thesis
      using False m(2) by (simp add: fq_run_def wp_bind wp_gets start_rings_wp wp_return after_def)
  next
    case True
    let ?ws = "startup_stores (\<lambda>_ _. 0) @ connect_stores @ [(INTERRUPT_ENABLE, 0xdddddddd)]"
    have "shadow (log (after ?ws (s\<lparr>startup := True\<rparr>))) = shadow (log s) ++ map_of (rev ?ws)"
      by (rule shadow_after) simp
    then have sh: "\<forall>d<8. shadow (log (after ?ws (s\<lparr>startup := True\<rparr>))) (ring_reg d 0 8) = Some (if d = 0 then 2 else 1)"
      using connect_last ring_reg_not_global(1)[of _ 0 8 "0x2204"]
      by (simp add: map_add_find_right map_add_def split: option.splits)
    have "wp (fq_connect e) (\<lambda>a. wp (case a of (sh, go) \<Rightarrow> if go then fq_query e sh
        else State_Monad.return ()) (\<lambda>_. exit_success)) ?s"
      unfolding fq_connect_def wp_bind connect_wp wp_write32 after_after append_assoc
      by (rule await_connects_live[OF e(1) _ sh], simp)
        (use s(2) m in \<open>auto simp: wp_simps after_def same_mode_def intro!: q\<close>)
    then show ?thesis
      using True m(2) by (simp add: fq_run_def wp_bind wp_gets start_rings_wp after_def)
  qed
qed

section \<open>The whole program\<close>

text \<open>The command lines that are not refused, and the reply each expects.\<close>

lemma fq_start_ready:
  "fq_ready (fq_start argv) (fq_start argv)" "selected_header (fq_start argv) \<noteq> CANARY_WORD"
  by (auto simp: fq_ready_def same_mode_def fq_start_def fq_arguments_def fq_locals_def CANARY_WORD_def
      QUERY_RESPONSE_HEADER_def SEQUENCE_RESPONSE_HEADER_def)

lemma fq_live:
  assumes "serving_env (host c) (selected_header (fq_start argv))" "malloc_ok c" "unmap_ok (host c) fq_bytes"
    and argv: "fq_arguments argv \<noteq> None"
  shows "exit_success (fq_final c argv)"
proof -
  obtain select where select: "fq_arguments argv = Some select" using argv by auto
  have close: "preserves exit_success (fq_close (host c))"
    unfolding fq_close_def by (intro preserves_intros close_live assms(3))
  have run: "wp (fq_run (host c)) (\<lambda>_. exit_success) s"
    if "fq_ready (fq_start argv) s" "fq_prepared c (fq_start argv) s" "writes (log s) = []" for s
  proof (rule fq_run_live[OF assms(1) fq_start_ready(2) that(1)])
    show "heap_copy s = Some (ram s)"
      using copied_unwritten[OF assms(1), of "log s" "ram s" "heap_copy s"] that by (simp add: fq_prepared_def)
  qed (use that fq_start_facts(2) in \<open>simp_all add: fq_prepared_def\<close>)
  have "wp (do { ok \<leftarrow> fq_prepare c; (if ok then fq_run (host c) else State_Monad.return ());
      cmd_cleanup (host c); fq_close (host c) }) (\<lambda>_. exit_success) (fq_start argv)"
    by (rule command_tool.succeeds[OF fq_tool.command_tool_axioms assms(1)
          fq_prepare_live[OF assms(1,2) fq_start_ready(1)] run close])
  then have "wp (fq_main c argv) (\<lambda>_. exit_success) fq_locals"
    using select by (simp add: fq_main_def fq_start_def wp_bind wp_modify wp_gets)
  then show ?thesis by (simp add: fq_final_def wp_run)
qed

end
