(* ===== verification/Command_Time.thy ===== *)
theory Command_Time
  imports Full_Query_Results Runtime_Load_Results
begin

text \<open>
  How long the command tools can sleep: only their polling loops do, a millisecond a turn, and each
  loop has a constant limit. The bounds hold for every card, host and command line.
\<close>

section \<open>Everything but the polling loops\<close>

lemma awake_open [awake_intros]:
  "emits (\<lambda>e. \<not> is_delay e) (attach_host e)" "emits (\<lambda>e. \<not> is_delay e) (map_card e)"
  "emits (\<lambda>e. \<not> is_delay e) (allocate_memory e)" "emits (\<lambda>e. \<not> is_delay e) (cold_card e)"
  "emits (\<lambda>e. \<not> is_delay e) (take_snapshot c)" "emits (\<lambda>e. \<not> is_delay e) (open_input c)"
  "emits (\<lambda>e. \<not> is_delay e) (check b)" "emits (\<lambda>e. \<not> is_delay e) (store_ram f)"
  unfolding attach_host_def map_card_def open_container_def open_group_def attach_group_def configure_iommu_def
    map_iova_def open_device_def map_bar_def check_def allocate_memory_def cold_card_def all_ready_def
    all_rings_zero_def take_snapshot_def open_input_def store_ram_def
  by (intro emits_intros awake_intros; simp)+

lemma awake_load_input [awake_intros]:
  "emits (\<lambda>e. \<not> is_delay e) (load_input c base bytes got :: ('a command_session_scheme, bool) state)"
proof (induction c base bytes got rule: load_input.induct)
  case (1 c base bytes got)
  have step: "emits (\<lambda>e. \<not> is_delay e) (let chunk = take (bytes - got) data in
       if chunk = [] then State_Monad.return False
       else do { store_ram (store_bytes (base + got) chunk);
                 (load_input c base bytes (got + length chunk) :: ('a command_session_scheme, bool) state) })"
    if "\<not> bytes \<le> got" "input_read c got (bytes - got) = Some data" for data
    unfolding Let_def by (intro emits_intros awake_intros 1[OF that refl])
  show ?case
    unfolding load_input.simps[of c base bytes got]
    by (intro emits_if emits_return emits_case_option step)
qed

lemma awake_prepare:
  "emits (\<lambda>e. \<not> is_delay e) (fq_prepare c)" "emits (\<lambda>e. \<not> is_delay e) (lr_prepare c argv)"
  "emits (\<lambda>e. \<not> is_delay e) (rt_prepare c argv)"
  unfolding fq_prepare_def fq_open_def fq_read_indexes_def fq_entries_def fq_connect_entries_def
    lr_prepare_def lr_arguments_def lr_open_payload_def lr_buffers_def lr_load_def lr_join_def
    lr_connect_entries_def lr_entries_def
    rt_prepare_def rt_open_firmware_def rt_load_def rt_offer_def rt_gate_def
  by (intro emits_intros awake_intros; simp)+

lemma awake_answer [awake_intros]:
  "emits (\<lambda>e. \<not> is_delay e) (loader_collect e pages cp rp)" "emits (\<lambda>e. \<not> is_delay e) (fq_collect e cp rp)"
  "emits (\<lambda>e. \<not> is_delay e) (rt_turn e cp rp n)"
  unfolding loader_collect_def load_word_def interrupted_def fq_collect_def rt_turn_def
  by (intro emits_intros awake_intros; simp)+

lemma awake_close:
  "emits (\<lambda>e. \<not> is_delay e) (fq_close e)" "emits (\<lambda>e. \<not> is_delay e) (lr_close e)"
  "emits (\<lambda>e. \<not> is_delay e) (rt_close e)"
  unfolding fq_close_def lr_close_def rt_close_def
  by (intro emits_intros awake_intros; simp)+

section \<open>The polling loops\<close>

lemma sleeps_gets: "sleeps n (gets f)"
  by (simp add: sleeps_def wp_gets)

lemma sleeps_modify: "(\<And>s. log (f s) = log s) \<Longrightarrow> sleeps n (modify f)"
  by (simp add: sleeps_def wp_modify)

lemma sleeps_awake_first:
  "emits (\<lambda>e. \<not> is_delay e) m \<Longrightarrow> (\<And>x. sleeps n (f x)) \<Longrightarrow> sleeps n (State_Monad.bind m f)"
  by (rule sleeps_bind[of 0 m n f n, OF sleeps_emits]) simp_all

lemma sleeps_then_awake:
  "sleeps n m \<Longrightarrow> (\<And>x. emits (\<lambda>e. \<not> is_delay e) (f x)) \<Longrightarrow> sleeps n (State_Monad.bind m f)"
  by (rule sleeps_bind[of n m 0 f, OF _ sleeps_emits]) simp_all

lemma fq_query_sleeps: "sleeps 2000000000 (fq_query e sh)"
proof -
  have w: "sleeps 2000000000 (await_answer e 2000 cp rp :: (query_session, unit) state)" for cp rp
    using sleeps_awaits(2)[of 2000 e cp rp] by simp
  show ?thesis
    unfolding fq_query_def Let_def
    by (intro sleeps_awake_first emits_intros awake_intros sleeps_then_awake[OF w])
qed

lemma fq_connect_sleeps: "sleeps 2000000000 (fq_connect e)"
proof -
  have w: "sleeps 2000000000 (await_connects e 2000 :: (query_session, nat) state)"
    using sleeps_awaits(1)[of 2000 e] by simp
  show ?thesis
    unfolding fq_connect_def
    by (intro sleeps_awake_first emits_intros awake_intros sleeps_then_awake[OF w]) simp
qed

lemma fq_run_sleeps: "sleeps 4000000000 (fq_run e)"
proof -
  have r: "sleeps 2000000000 (case a of (sh, go) \<Rightarrow> if go then fq_query e sh else State_Monad.return ())" for a
    by (cases a) (simp add: fq_query_sleeps sleeps_return)
  have f: "sleeps 2000000000 (if b then fq_connect e else State_Monad.return (CALLBACK_SHADOW, True))" for b
    by (simp add: fq_connect_sleeps sleeps_return)
  show ?thesis
    unfolding fq_run_def
    by (intro sleeps_awake_first emits_intros awake_intros sleeps_bind[OF f r]) simp
qed

lemma lr_run_sleeps: "sleeps 6000000000 (lr_run e)"
proof -
  have c: "sleeps 3000000000 (await_connects e 3000 :: (loader_session, nat) state)"
    using sleeps_awaits(1)[of 3000 e] by simp
  have w: "sleeps 3000000000 (await_answer e 3000 cp rp :: (loader_session, unit) state)" for cp rp
    using sleeps_awaits(2)[of 3000 e cp rp] by simp
  have s: "sleeps 3000000000 (lr_send e sh)" for sh
    unfolding lr_send_def Let_def
    by (intro sleeps_awake_first emits_intros awake_intros sleeps_then_awake[OF w])
  show ?thesis
    unfolding lr_run_def
    by (intro sleeps_awake_first[OF awake_routines(1)] sleeps_awake_first[OF awake_routines(2)]
        sleeps_awake_first[OF awake_wr] sleeps_bind[OF c, where b = 3000000000]
        sleeps_awake_first[OF emits_modify] sleeps_awake_first[OF emits_gets] sleeps_if s sleeps_return) simp_all
qed

lemma rt_run_sleeps: "sleeps 153000000000 (rt_run e)"
proof -
  have c: "sleeps 3000000000 (await_connects e 3000 :: (runtime_session, nat) state)"
    using sleeps_awaits(1)[of 3000 e] by simp
  have w: "sleeps 150000000000 (poll_until e POLL_LIMIT_MS 0 (rt_turn e cp rp))" for cp rp
    using sleeps_poll[of "rt_turn e cp rp" POLL_LIMIT_MS e 0] awake_answer(3) by (simp add: POLL_LIMIT_MS_def)
  have s: "sleeps 150000000000 (rt_send e sh)" for sh
    unfolding rt_send_def Let_def
    by (intro sleeps_awake_first emits_intros awake_intros sleeps_then_awake[OF w]) simp_all
  show ?thesis
    unfolding rt_run_def
    by (intro sleeps_awake_first[OF awake_routines(1)] sleeps_awake_first[OF awake_routines(2)]
        sleeps_bind[OF c, where b = 150000000000]
        sleeps_awake_first[OF emits_modify] sleeps_awake_first[OF emits_gets] sleeps_if s sleeps_return) simp_all
qed

section \<open>The programs\<close>

lemma sleeps_log: "sleeps n m \<Longrightarrow> log s = [] \<Longrightarrow> slept (log (snd (run_state m s))) \<le> n"
  unfolding sleeps_def wp_run by (drule spec[of _ s]) simp

lemma sleeps_program:
  assumes "emits (\<lambda>e. \<not> is_delay e) prepare" "sleeps n run" "emits (\<lambda>e. \<not> is_delay e) rest"
  shows "sleeps n (do { ok \<leftarrow> prepare; (if ok then run else State_Monad.return ()); cmd_cleanup e; rest; gets f })"
  by (intro sleeps_awake_first[OF assms(1)] sleeps_then_awake sleeps_if assms(2) sleeps_return emits_intros
      awake_intros assms(3))

lemma command_tools_sleep_bounds:
  "slept (log (fq_final c argv)) \<le> 4000000000" "slept (log (lr_final c argv)) \<le> 6000000000"
  "slept (log (rt_final c argv)) \<le> 153000000000"
proof -
  have "sleeps 4000000000 (fq_main c argv)"
    unfolding fq_main_def
  proof (cases "fq_arguments argv")
    case (Some select)
    have "log (select s) = log s" for s
      using Some by (auto simp: fq_arguments_def split: if_splits)
    then show "sleeps 4000000000 (case fq_arguments argv of None \<Rightarrow> State_Monad.return False
      | Some select \<Rightarrow> do { modify select; ok \<leftarrow> fq_prepare c;
          (if ok then fq_run (host c) else State_Monad.return ()); cmd_cleanup (host c);
          fq_close (host c); gets exit_success })"
      unfolding Some option.case
      by (intro sleeps_awake_first emits_intros sleeps_program awake_prepare fq_run_sleeps awake_close)
  qed (simp add: sleeps_return)
  then show "slept (log (fq_final c argv)) \<le> 4000000000"
    unfolding fq_final_def by (rule sleeps_log) (simp add: fq_locals_def)
  have "sleeps 6000000000 (lr_main c argv)"
    unfolding lr_main_def by (rule sleeps_program[OF awake_prepare(2) lr_run_sleeps awake_close(2)])
  then show "slept (log (lr_final c argv)) \<le> 6000000000"
    unfolding lr_final_def by (rule sleeps_log) (simp add: lr_locals_def)
  have "sleeps 153000000000 (rt_main c argv)"
    unfolding rt_main_def by (rule sleeps_program[OF awake_prepare(3) rt_run_sleeps awake_close(3)])
  then show "slept (log (rt_final c argv)) \<le> 153000000000"
    unfolding rt_final_def by (rule sleeps_log) (simp add: rt_locals_def)
qed

end
