(* ===== verification/Command_Properties.thy ===== *)
theory Command_Properties
  imports Tool_Properties Loader_Chain Loader_Live Full_Query_Live Command_Time
begin

text \<open>
  The properties of the tools that submit commands to the firmware:
  \<^verbatim>\<open>tools/vfio_full_query.c\<close>, \<^verbatim>\<open>tools/vfio_loader_rejection.c\<close> and \<^verbatim>\<open>tools/vfio_runtime_load.c\<close>.
  A host with a serving card and an input file shows that their hypotheses can hold.
\<close>

section \<open>A concrete host\<close>

definition demo_command :: "nat \<Rightarrow> u32 \<Rightarrow> u8 list \<Rightarrow> command_env" where
  "demo_command bytes reply content = \<lparr>host = serving_demo bytes reply, wall_clock = (\<lambda>_. 0), malloc_ok = True,
     input_open = 7, input_stat = 0, input_regular = True, input_size = int (length content),
     input_read = (\<lambda>got n. Some (take n (drop got content)))\<rparr>"

lemma demo_command_good:
  "serving_env (host (demo_command bytes reply content)) reply"
  "unmap_ok (host (demo_command bytes reply content)) bytes"
  "malloc_ok (demo_command bytes reply content)"
  "good_input (demo_command bytes reply content) content"
  using serving_demo_serves[of bytes reply]
  by (auto simp: demo_command_def good_input_def delivers_def progresses_def)

lemma demo_command_unmapped: "rt_unmapped (host (demo_command rt_bytes reply content))"
  by (simp add: rt_unmapped_def demo_command_def serving_demo_def demo_env_def)

text \<open>An image of \<open>n\<close> bytes with the expected header words and zeros otherwise.\<close>

definition image_with :: "nat \<Rightarrow> u8 list" where
  "image_with n = map (put32 0 HBUT_MAGIC (put32 12 EXPECTED_FPGA_REVISION
     (put32 24 EXPECTED_PAYLOAD_DWORDS (\<lambda>_. 0)))) [0..<n]"

lemma image_words:
  assumes "28 \<le> n"
  shows "get32 ((!) (image_with n)) 0 = HBUT_MAGIC" "get32 ((!) (image_with n)) 12 = EXPECTED_FPGA_REVISION"
    "get32 ((!) (image_with n)) 24 = EXPECTED_PAYLOAD_DWORDS"
proof -
  let ?m = "put32 0 HBUT_MAGIC (put32 12 EXPECTED_FPGA_REVISION (put32 24 EXPECTED_PAYLOAD_DWORDS (\<lambda>_. 0)))"
  have "get32 ((!) (image_with n)) a = get32 ?m a" if "a + 4 \<le> n" for a
    using that by (simp add: get32_def image_with_def)
  then show "get32 ((!) (image_with n)) 0 = HBUT_MAGIC" "get32 ((!) (image_with n)) 12 = EXPECTED_FPGA_REVISION"
    "get32 ((!) (image_with n)) 24 = EXPECTED_PAYLOAD_DWORDS"
    using assms get32_put32 get32_put32_other by simp_all
qed

lemma image_exact: "n = EXPECTED_FILE_SIZE \<Longrightarrow> rt_hbut (image_with n)"
  unfolding rt_hbut_def exact_hbut_def
  using image_words[of n] by (simp add: image_with_def EXPECTED_PAYLOAD_DWORDS_def)

section \<open>The session\<close>

text \<open>The mapping of \<^verbatim>\<open>vfio_runtime_load\<close> was removed, or there was none.\<close>

definition rt_clean :: "vfio_env \<Rightarrow> runtime_session \<Rightarrow> bool" where
  "rt_clean e s \<longleftrightarrow> rt_unmapped e \<or> \<not> dma_mapped s"

text \<open>
  C23. Whatever system call fails, whatever the card answers, whatever a file holds and whenever a
  signal arrives, every run of the five tools that map memory for the card ends with every resource
  released exactly once (only an IOVA mapping whose removal failed stays, and is then unsafe to
  reuse) and no engine enabled; and when the mapping could be removed, then at every instant of the
  run no resource was held without the ones it rests on, every register access fell in the mapped
  BAR0, and no engine was enabled without the IOVA mapping and the locked memory behind it.
\<close>

theorem sessions_released:
  "released (clean_unmap e (64 * 4096) (fos_final e argv)) (dma_mapped (fos_final e argv)) (log (fos_final e argv)) \<and>
   released (clean_unmap e (8 * 4096) (ori_final e argv)) (dma_mapped (ori_final e argv)) (log (ori_final e argv)) \<and>
   released (clean_unmap (host c) fq_bytes (fq_final c argv)) (dma_mapped (fq_final c argv)) (log (fq_final c argv)) \<and>
   released (clean_unmap (host c) lr_bytes (lr_final c argv)) (dma_mapped (lr_final c argv)) (log (lr_final c argv)) \<and>
   released (rt_clean (host c) (rt_final c argv)) (dma_mapped (rt_final c argv)) (log (rt_final c argv))"
  using fos_run_released ori_run_released fq_finished lr_finished rt_finished
  by (simp add: clean_unmap_def rt_clean_def fq_tool.finished_def lr_tool.finished_def rt_tool.finished_def)

text \<open>
  C33. The stores of every run of the three command tools are none, or a list of the tool's shape and
  then the whole restore sequence: once a tool has started the rings it always puts the card back.
  The shape is the startup of all rings, then the connect commands when the tool sends them, and
  then, unless the connects were not consumed, the two doorbells of DSP 0 at the positions behind
  the offered descriptors (3 or 4 for the loader probe, 628 for the exact image).
\<close>

theorem command_tools_stores:
  "put_back (fq_shape (connect_first (fq_start argv))) (writes (log (fq_final c argv))) \<and>
   put_back (lr_shape (lr_single argv)) (writes (log (lr_final c argv))) \<and>
   put_back rt_shape (writes (log (rt_final c argv)))"
  using fq_finished lr_finished rt_finished
  by (simp add: fq_tool.finished_def lr_tool.finished_def rt_tool.finished_def)

section \<open>Success\<close>

text \<open>
  C34. Exit status 0 of a command tool is backed by what the run has seen: before its first store it
  read the cold card (and \<^verbatim>\<open>vfio_runtime_load\<close> the expected FPGA revision, in a file whose header
  matches); the memory the card was offered is exactly the tool's ring entries and buffers; then
  every connect command was read as consumed; after the doorbells both positions were read as
  submitted, the response words are the expected reply, every DSP was ready, and outside the
  response buffer the memory was as in the copy; then the restore sequence was stored and read
  back cold, and again after the device reset, without a further store.
\<close>

theorem command_tools_success:
  "(exit_success (fq_final c argv) \<longrightarrow> backed (fq_work (host c) (fq_start argv)) (fq_final c argv)) \<and>
   (exit_success (lr_final c argv) \<longrightarrow> backed (lr_work (host c) (lr_single argv)) (lr_final c argv)) \<and>
   (exit_success (rt_final c argv) \<longrightarrow> backed (rt_work (host c)) (rt_final c argv))"
  using fq_finished lr_finished rt_finished
  by (simp add: fq_tool.finished_def lr_tool.finished_def rt_tool.finished_def)

text \<open>The three concrete runs.\<close>

definition demo_query :: command_env where
  "demo_query = demo_command fq_bytes QUERY_RESPONSE_HEADER []"

definition demo_loader :: command_env where
  "demo_loader = demo_command lr_bytes 0x80040001 [1, 2, 3, 4]"

definition demo_runtime :: command_env where
  "demo_runtime = demo_command rt_bytes 0x80040001 (image_with EXPECTED_FILE_SIZE)"

lemma fq_demo_live: "exit_success (fq_final demo_query [''vfio_full_query'', ''--connect''])"
proof -
  let ?argv = "[''vfio_full_query'', ''--connect'']"
  have "selected_header (fq_start ?argv) = QUERY_RESPONSE_HEADER" "fq_arguments ?argv \<noteq> None"
    by (simp_all add: fq_start_def fq_arguments_def fq_locals_def)
  then show ?thesis
    using demo_command_good[of fq_bytes QUERY_RESPONSE_HEADER "[]"]
    by (intro fq_live) (simp_all add: demo_query_def)
qed

lemma lr_demo_live: "exit_success (lr_final demo_loader [''vfio_loader_rejection'', ''payload''])"
  by (rule lr_live[of _ "0x80040001" "[1, 2, 3, 4]"])
    (use demo_command_good[of lr_bytes "0x80040001" "[1, 2, 3, 4]"] in
      \<open>simp_all add: demo_loader_def loader_reply_def LOADER_RESPONSE_CLASS_def lr_payload_def lr_single_def lr_valid_def\<close>)

lemma loader_reply_demo: "loader_reply [0x80040001]"
  by (simp add: loader_reply_def LOADER_RESPONSE_CLASS_def)

lemma rt_demo_live: "exit_success (rt_final demo_runtime [''vfio_runtime_load'', ''image''])"
  unfolding demo_runtime_def
  by (rule rt_live[OF demo_command_good(1) loader_reply_demo demo_command_unmapped demo_command_good(4) image_exact[OF refl]]) simp

theorem command_tools_success_witness:
  "backed (fq_work (host demo_query) (fq_start [''vfio_full_query'', ''--connect'']))
     (fq_final demo_query [''vfio_full_query'', ''--connect'']) \<and>
   backed (lr_work (host demo_loader) False) (lr_final demo_loader [''vfio_loader_rejection'', ''payload'']) \<and>
   backed (rt_work (host demo_runtime)) (rt_final demo_runtime [''vfio_runtime_load'', ''image''])"
proof -
  have "\<not> lr_single [''vfio_loader_rejection'', ''payload'']" by (simp add: lr_single_def)
  then show ?thesis
    using command_tools_success[of demo_query "[''vfio_full_query'', ''--connect'']"] fq_demo_live
      command_tools_success[of demo_loader "[''vfio_loader_rejection'', ''payload'']"] lr_demo_live
      command_tools_success[of demo_runtime "[''vfio_runtime_load'', ''image'']"] rt_demo_live
    by simp
qed



section \<open>What the card is offered\<close>



section \<open>Time\<close>

text \<open>
  C37. However the card behaves, the command tools ask for a bounded sleep: at most 4 s in
  \<^verbatim>\<open>vfio_full_query\<close>, 6 s in \<^verbatim>\<open>vfio_loader_rejection\<close> and 153 s in \<^verbatim>\<open>vfio_runtime_load\<close>, in nanoseconds.
\<close>

theorem command_tools_sleep:
  "slept (log (fq_final c argv)) \<le> 4000000000 \<and> slept (log (lr_final c argv)) \<le> 6000000000 \<and>
   slept (log (rt_final c argv)) \<le> 153000000000"
  by (intro conjI command_tools_sleep_bounds)

end
