(* ===== verification/Listings.thy ===== *)
theory Listings
  imports Probe_Session
begin

text \<open>
  The read-only listings: \<^verbatim>\<open>tools/vfio_read_status.c\<close>, \<^verbatim>\<open>tools/vfio_capability_snapshot.c\<close> and
  \<^verbatim>\<open>tools/vfio_resource_layout.c\<close>. Each opens the device, loads a fixed list of registers, prints
  what it loaded and closes; \<^verbatim>\<open>die\<close> ends it at the first failure. They share the contract
  \<open>listing\<close>: nothing is stored, everything is released, and the report shows what was loaded.
\<close>

section \<open>Loading a list of registers\<close>

definition read_words :: "'s rd \<Rightarrow> u32 list \<Rightarrow> ('s, u32 list) state" where
  "read_words rd offs = fold_m (\<lambda>off vs. do { v \<leftarrow> rd off; State_Monad.return (vs @ [v]) }) offs []"

definition count_zeros :: "'s rd \<Rightarrow> u32 list \<Rightarrow> nat \<Rightarrow> ('s, nat) state" where
  "count_zeros rd offs zero = fold_m (\<lambda>off zero.
     do { v \<leftarrow> rd off; State_Monad.return (if v = 0 then zero + 1 else zero) }) offs zero"

definition zeros :: "u32 list \<Rightarrow> nat" where
  "zeros vs = length (filter (\<lambda>v. v = 0) vs)"

text \<open>The history of loading \<open>offs\<close> and finding \<open>vs\<close>.\<close>

abbreviation loaded :: "u32 list \<Rightarrow> u32 list \<Rightarrow> history" where
  "loaded offs vs \<equiv> rev (map2 Rd offs vs)"

lemma loads_map2 [simp]: "loads (rev (map2 (\<lambda>x. Rd (addr x)) xs vs)) = map2 (\<lambda>x v. (addr x, v)) xs vs"
proof -
  have "loads (rev (map (\<lambda>(x, v). Rd (addr x) v) zs)) = map (\<lambda>(x, v). (addr x, v)) zs" for zs
    by (induction zs) (auto simp: loads_append)
  then show ?thesis by simp
qed

lemma loads_loaded [simp]: "loads (loaded offs vs) = zip offs vs"
  using loads_map2[of "\<lambda>off. off" offs vs] by simp

lemma fold_zeros:
  "length vs = length xs \<Longrightarrow> fold (\<lambda>(x, v) zero. if v = 0 then zero + 1 else zero) (zip xs vs) n = n + zeros vs"
  by (induction vs xs arbitrary: n rule: list_induct2) (simp_all add: zeros_def)

lemma wp_read_words:
  assumes "\<And>vs. length vs = length offs \<Longrightarrow> Q vs (s\<lparr>log := loaded offs vs @ log s\<rparr>)"
  shows "wp (read_words (bus_read hw) offs) Q s"
  unfolding read_words_def
proof (rule wp_fold_reads[where addr = "\<lambda>off. off"])
  fix vs :: "u32 list"
  assume "length vs = length offs"
  moreover have "fold (\<lambda>(off, v) vs. vs @ [v]) (zip offs vs) a = a @ vs" for a
    using calculation by (induction vs offs arbitrary: a rule: list_induct2) simp_all
  ultimately show "Q (fold (\<lambda>(off, v) vs. vs @ [v]) (zip offs vs) []) (s\<lparr>log := loaded offs vs @ log s\<rparr>)"
    using assms[of vs] by simp
qed

lemma wp_count_zeros:
  assumes "\<And>vs. length vs = length offs \<Longrightarrow> Q (zero + zeros vs) (s\<lparr>log := loaded offs vs @ log s\<rparr>)"
  shows "wp (count_zeros (bus_read hw) offs zero) Q s"
  unfolding count_zeros_def
proof (rule wp_fold_reads[where addr = "\<lambda>off. off"])
  fix vs :: "u32 list"
  assume "length vs = length offs"
  then show "Q (fold (\<lambda>(off, v) zero. if v = 0 then zero + 1 else zero) (zip offs vs) zero)
      (s\<lparr>log := loaded offs vs @ log s\<rparr>)"
    using assms[of vs] by (simp add: fold_zeros)
qed

lemma zeros_Cons: "zeros (v # vs) = (if v = 0 then Suc (zeros vs) else zeros vs)"
  by (simp add: zeros_def)

lemma zeros_le: "zeros vs \<le> length vs"
  by (simp add: zeros_def)

lemma zeros_all: "zeros vs = length vs \<longleftrightarrow> (\<forall>v\<in>set vs. v = 0)"
proof (induction vs)
  case (Cons v vs)
  then show ?case using zeros_le[of vs] by (auto simp: zeros_Cons)
qed (simp add: zeros_def)

lemma keeps_words [preserves_intros]:
  assumes "keeps_rd I rd" "\<And>a. a \<in> set offs \<Longrightarrow> in_bar a"
  shows "preserves I (read_words rd offs)" "preserves I (count_zeros rd offs n)"
  unfolding read_words_def count_zeros_def
  by (intro preserves_intros keeps_rdD[OF assms(1)] assms(2), assumption)+

section \<open>The session of a listing\<close>

definition listing_valid :: "vfio_env \<Rightarrow> bool" where
  "listing_valid e \<longleftrightarrow> \<not> device_info e < 0 \<and> \<not> region_info e < 0 \<and>
     region_size e = BAR0_SIZE \<and> region_read e \<and> region_mmap e"

text \<open>Consecutive calls of \<^verbatim>\<open>printf\<close>, one list entry for each line.\<close>

definition print_lines :: "string list \<Rightarrow> ('a session_scheme, unit) state" where
  "print_lines ls = modify (\<lambda>s. s\<lparr>stdout := stdout s @ ls\<rparr>)"

lemma wp_print_lines [wp_simps]: "wp (print_lines ls) Q = (\<lambda>s. Q () (s\<lparr>stdout := stdout s @ ls\<rparr>))"
  by (simp add: print_lines_def wp_simps)

text \<open>The locals before the first call.\<close>

definition listing_locals :: session where
  "listing_locals = \<lparr>log = [], container_fd = -1, group_fd = -1, device_fd = -1,
     container_set = False, dma_mapped = False, memory_ok = False, bar_ok = False,
     ram = (\<lambda>_. 0), exit_success = False, stdout = []\<rparr>"

lemma listing_locals_fresh [simp]: "fresh_session listing_locals" "stdout listing_locals = []"
  by (simp_all add: listing_locals_def fresh_session_def)

definition listing_setup :: "vfio_env \<Rightarrow> ('a session_scheme, bool) state" where
  "listing_setup e =
     and_m (open_container e)
    (and_m (open_group e)
    (and_m (attach_group e)
    (and_m (attach_iommu e)
    (and_m (open_device e (listing_valid e))
           (map_bar e)))))"

text \<open>The whole program around its loads and its report; \<open>None\<close> is a call of \<^verbatim>\<open>die\<close>.\<close>

definition run_listing ::
  "vfio_env \<Rightarrow> ('a session_scheme, unit) state \<Rightarrow> ('a session_scheme, bool option) state" where
  "run_listing e body =
     do { ok \<leftarrow> listing_setup e;
          if \<not> ok then State_Monad.return None
          else do { body; close_probe; State_Monad.return (Some True) } }"

lemma listing_setup_to: "setup_to {} {} (listing_setup e) probe_held"
  unfolding listing_setup_def probe_held_def by (rule setup_intros | simp)+

text \<open>Every step of the setup succeeds.\<close>

definition listing_opens :: "vfio_env \<Rightarrow> bool" where
  "listing_opens e \<longleftrightarrow>
     0 \<le> container_open e \<and> api_matches e \<and> type1_supported e \<and>
     0 \<le> group_open e \<and> 0 \<le> group_status e \<and> group_viable e \<and>
     0 \<le> set_container e \<and> 0 \<le> set_iommu e \<and>
     0 \<le> get_device_fd e \<and> listing_valid e \<and> bar_mmap e"

lemma listing_setup_result: "wp (listing_setup e) (\<lambda>b _. b = listing_opens e) s"
  by (auto simp: listing_setup_def open_container_def open_group_def attach_group_def attach_iommu_def
      open_device_def map_bar_def check_def wp_simps listing_opens_def)

lemma listing_setup_silent:
  "preserves (\<lambda>s. stdout s = out \<and> loads (log s) = []) (listing_setup e)"
  unfolding listing_setup_def open_container_def open_group_def attach_group_def attach_iommu_def
    open_device_def map_bar_def check_def
  by (intro preserves_intros preserves_modify; simp add: preserves_def wp_simps)

text \<open>
  How a listing ends: it returns, with success, exactly when the session can be opened; then
  everything is released and the report is \<open>shown\<close>. It never stores.
\<close>

definition listed ::
  "vfio_env \<Rightarrow> ('a session_scheme \<Rightarrow> bool) \<Rightarrow> bool option \<Rightarrow> 'a session_scheme \<Rightarrow> bool" where
  "listed e shown r t \<longleftrightarrow> always vfio_safe (log t) \<and> writes (log t) = [] \<and>
     (case r of
        None \<Rightarrow> \<not> listing_opens e \<and> stdout t = []
      | Some ok \<Rightarrow> listing_opens e \<and> ok \<and> released True False (log t) \<and> shown t)"

text \<open>
  The contract: the body only loads, from inside the mapped window, and what it leaves is \<open>shown\<close>,
  which the releases of the close do not change.
\<close>

locale listing =
  fixes e :: vfio_env
    and start :: "'a session_scheme"
    and body :: "('a session_scheme, unit) state"
    and shown :: "'a session_scheme \<Rightarrow> bool"
  assumes fresh: "fresh_session start" "stdout start = []"
    and body_idle: "preserves (\<lambda>s. idle probe_held s \<and> writes (log s) = []) body"
    and body_shows: "session.more s = session.more start \<Longrightarrow> stdout s = [] \<Longrightarrow> loads (log s) = [] \<Longrightarrow>
      wp body (\<lambda>_. shown) s"
    and shown_closed: "writes evs = [] \<Longrightarrow> loads evs = [] \<Longrightarrow> shown t \<Longrightarrow> shown (t\<lparr>log := evs @ log t\<rparr>)"
begin

lemma close_shown:
  fixes s :: "'a session_scheme"
  assumes "idle probe_held s" "writes (log s) = []" "shown s" "listing_opens e"
  shows "wp close_probe (\<lambda>_. listed e shown (Some True)) s"
proof -
  have "wp close_probe (\<lambda>_ t. \<exists>evs. t = s\<lparr>log := evs @ log s\<rparr> \<and> writes evs = [] \<and> released True False (log t)) s"
    by (rule close_probe_wp[OF assms(1)]) blast
  moreover have "wp close_probe (\<lambda>_ t. loads (log t) = loads (log s)) s"
  proof -
    have "preserves (\<lambda>t :: 'a session_scheme. loads (log t) = loads (log s)) close_probe"
      unfolding close_probe_def detach_group_def
      by (intro preserves_intros; simp add: preserves_def wp_simps)
    then show ?thesis by (rule preservesD) (rule refl)
  qed
  ultimately have "wp close_probe (\<lambda>_ t. (\<exists>evs. t = s\<lparr>log := evs @ log s\<rparr> \<and> writes evs = [] \<and>
      released True False (log t)) \<and> loads (log t) = loads (log s)) s"
    by (rule wp_conjI)
  then show ?thesis
  proof (rule wp_mono)
    fix t
    assume "(\<exists>evs. t = s\<lparr>log := evs @ log s\<rparr> \<and> writes evs = [] \<and> released True False (log t)) \<and>
      loads (log t) = loads (log s)"
    then obtain evs where t: "t = s\<lparr>log := evs @ log s\<rparr>" "writes evs = []" "released True False (log t)"
      "loads (log s) @ loads evs = loads (log s)" by (auto simp: loads_append)
    have "shown t" using shown_closed[OF t(2) _ assms(3)] t(1,4) by simp
    then show "listed e shown (Some True) t"
      using t assms(2,4) by (simp add: listed_def released_def writes_append)
  qed
qed

lemma listing_spec: "wp (run_listing e body) (listed e shown) start"
proof -
  have "session_ok start" using fresh(1) by (rule world_empty)
  moreover have "owned start = {}"
    by (rule set_eqI, rename_tac x, case_tac x) (use fresh(1) in \<open>simp_all add: owns_iff fresh_session_def\<close>)
  ultimately have s: "wp (listing_setup e) (\<lambda>b t. session_ok t \<and> session.more t = session.more start \<and>
      writes (log t) = writes (log start) \<and> exit_success t = exit_success start \<and> (b \<longrightarrow> owned t = probe_held)) start"
    by (rule setup_toD[OF listing_setup_to])
  have n: "log start = []" using fresh(1) by (simp add: fresh_session_def)
  have q: "wp (listing_setup e) (\<lambda>_ t. stdout t = [] \<and> loads (log t) = []) start"
    by (rule preservesD[OF listing_setup_silent]) (simp add: fresh n)
  show ?thesis
    unfolding run_listing_def wp_bind
  proof (rule wp_mono[OF wp_conjI[OF wp_conjI[OF s q] listing_setup_result]], elim conjE)
    fix b and t :: "'a session_scheme"
    assume t: "session_ok t" "session.more t = session.more start" "writes (log t) = writes (log start)"
      "b \<longrightarrow> owned t = probe_held" "stdout t = []" "loads (log t) = []" "b = listing_opens e"
    have w: "writes (log t) = []" using t(3) n by simp
    show "wp (if \<not> b then State_Monad.return None else do { body; close_probe; State_Monad.return (Some True) })
        (listed e shown) t"
    proof (cases b)
      case False
      then show ?thesis using t(1,5,7) w by (simp add: wp_return listed_def session_ok_def session_world_def)
    next
      case True
      then have "inside probe_held t" using t(1,4) by (simp add: session_ok_inside)
      then have i: "idle probe_held t \<and> writes (log t) = []"
        using w engines_off_unwritten by (simp add: idle_def)
      have "wp body (\<lambda>_ u. (idle probe_held u \<and> writes (log u) = []) \<and> shown u) t"
        by (rule wp_conjI[OF preservesD[OF body_idle i] body_shows[OF t(2,5,6)]])
      then have "wp body (\<lambda>_. wp close_probe (\<lambda>_. listed e shown (Some True))) t"
        by (rule wp_mono) (use True t(7) in \<open>blast intro: close_shown\<close>)
      then show ?thesis using True by (simp add: wp_bind wp_return)
    qed
  qed
qed

end

text \<open>A load and a local step keep the session.\<close>

lemma listing_local:
  assumes "\<And>s :: 'a session_scheme. same_handles s (f s)" "\<And>s. log (f s) = log s"
  shows "preserves (\<lambda>s. idle probe_held s \<and> writes (log s) = []) (modify f)"
proof -
  have "owned (f s) = owned s" for s
    by (rule owned_cong) (use assms(1)[of s] in \<open>simp_all only: same_handles_def\<close>)
  then show ?thesis using assms(2) by (simp add: preserves_def wp_modify idle_def inside_def)
qed

lemma listing_steps [preserves_intros]:
  "in_bar a \<Longrightarrow> preserves (\<lambda>s. idle probe_held s \<and> writes (log s) = []) (bus_read hw a)"
  "preserves (\<lambda>s. idle probe_held s \<and> writes (log s) = []) (nanosleep n)"
  by (rule preserves_conj, rule preserves_intros; simp add: preserves_def wp_simps nanosleep_def)+

lemma listing_rd: "keeps_rd (\<lambda>s. idle probe_held s \<and> writes (log s) = []) (bus_read hw)"
  by (simp add: keeps_rd_def listing_steps)

lemma listing_print [preserves_intros]:
  "preserves (\<lambda>s. idle probe_held s \<and> writes (log s) = []) (print_lines ls)"
  unfolding print_lines_def by (rule listing_local) (simp_all add: same_handles_def)


end
