(* ===== verification/Capability_Snapshot.thy ===== *)
theory Capability_Snapshot
  imports Listings
begin

text \<open>
  \<^verbatim>\<open>tools/vfio_capability_snapshot.c\<close> (experiment 012): load nineteen named registers and the 4096
  words of the shared scatter-gather tables, and report the values, and how many words are zero.
\<close>

definition cs_registers :: "(u32 \<times> string) list" where
  "cs_registers =
     [(0x0030, ''firmware_base_low''),
      (0x0034, ''firmware_base_high''),
      (0x2200, ''dma_control''),
      (0x2204, ''interrupt_enable_low''),
      (0x2218, ''fpga_revision''),
      (0x2220, ''notification_control''),
      (0x2234, ''extended_capabilities''),
      (0x2240, ''audio_buffer_frames_minus_one''),
      (0x2244, ''audio_dma_position''),
      (0x2248, ''audio_transport_control''),
      (0x2250, ''audio_playback_channels''),
      (0x2258, ''audio_irq_period''),
      (0x225c, ''audio_record_channels''),
      (0x2260, ''audio_stream_enable''),
      (0x2268, ''interrupt_enable_high''),
      (0x226c, ''audio_buffer_size_kib''),
      (0x2270, ''audio_periodic_timer''),
      (0x22c0, ''unknown_22c0''),
      (0x22c4, ''unknown_22c4'')]"

definition cs_mmio_read32 :: "vfio_env \<Rightarrow> u32 \<Rightarrow> (session, u32) state" where
  "cs_mmio_read32 e offset = bus_read (answer e) offset"

text \<open>The offsets \<^verbatim>\<open>for (i = 0x8000; i < 0xc000; i += 4)\<close> takes.\<close>

definition sg_table :: "u32 list" where
  "sg_table = map (\<lambda>k. 0x8000 + of_nat k * 4) [0..<4096]"

definition cs_register_line :: "u32 list \<Rightarrow> nat \<Rightarrow> string" where
  "cs_register_line values i =
     ''    \"'' @ snd (cs_registers ! i) @ ''\": {\"offset\": \"0x'' @ hex 4 (unat (fst (cs_registers ! i))) @
     ''\", \"value\": \"0x'' @ hex 8 (unat (values ! i)) @ ''\"}'' @
     (if i + 1 = length cs_registers then '''' else '','')"

definition cs_report :: "u32 list \<Rightarrow> nat \<Rightarrow> string list" where
  "cs_report values sg_zero_words =
     [''{'',
      ''  \"experiment\": \"012-capability-and-audio-path-snapshot\",'',
      ''  \"transport\": \"vfio-pci\",'',
      json_number ''dma_mappings'' 0,
      json_number ''mmio_writes'' 0,
      ''  \"registers\": {''] @ map (cs_register_line values) [0..<length cs_registers] @
     [''  },'',
      json_number ''shared_sg_table_words_read'' 4096,
      json_number ''shared_sg_table_zero_words'' sg_zero_words,
      ''  \"shared_sg_tables_all_zero\": '' @ (if sg_zero_words = 4096 then ''true'' else ''false''),
      ''}'']"

definition cs_body :: "vfio_env \<Rightarrow> (session, unit) state" where
  "cs_body e =
     do { values \<leftarrow> read_words (cs_mmio_read32 e) (map fst cs_registers);
          sg_zero_words \<leftarrow> count_zeros (cs_mmio_read32 e) sg_table 0;
          print_lines (cs_report values sg_zero_words) }"

definition cs_main :: "vfio_env \<Rightarrow> (session, bool option) state" where
  "cs_main e = run_listing e (cs_body e)"

section \<open>What a run shows\<close>

text \<open>
  The report is that of nineteen values and a number of zero words, and the loads are these
  values at the named registers and then as many words of the tables, of which that number is
  zero.
\<close>

definition cs_shown :: "session \<Rightarrow> bool" where
  "cs_shown t \<longleftrightarrow> (\<exists>values words. length values = length cs_registers \<and> length words = 4096 \<and>
     loads (log t) = zip (map fst cs_registers) values @ zip sg_table words \<and>
     stdout t = cs_report values (zeros words))"

lemma sg_table_length: "length sg_table = 4096"
  by (simp only: sg_table_def length_map length_upt diff_zero)

lemma sg_table_in_bar: "a \<in> set sg_table \<Longrightarrow> in_bar a"
proof -
  assume "a \<in> set sg_table"
  then obtain k :: nat where k: "k < 4096" "a = 0x8000 + of_nat k * 4" by (auto simp: sg_table_def)
  have "unat a = 0x8000 + k * 4"
    using k by (simp add: unat_word_ariths unat_of_nat)
  then show ?thesis using k(1) by (simp add: in_bar_def)
qed

lemma cs_registers_in_bar: "a \<in> set (map fst cs_registers) \<Longrightarrow> in_bar a"
  by (auto simp: cs_registers_def in_bar_def)

lemma cs_reads: "cs_mmio_read32 e = bus_read (answer e)"
  by (simp add: fun_eq_iff cs_mmio_read32_def)

interpretation cs_tool: listing e listing_locals "cs_body e" cs_shown for e
proof
  show "preserves (\<lambda>s. idle probe_held s \<and> writes (log s) = []) (cs_body e)"
    unfolding cs_body_def cs_reads
    by (intro preserves_intros listing_rd cs_registers_in_bar sg_table_in_bar)
  show "wp (cs_body e) (\<lambda>_. cs_shown) s" if "stdout s = []" "loads (log s) = []" for s
    unfolding cs_body_def cs_reads wp_bind
    by (rule wp_read_words, rule wp_count_zeros)
      (auto simp: wp_simps cs_shown_def loads_append that sg_table_length)
qed (auto simp: cs_shown_def loads_append)

text \<open>The flag of the report is true exactly when every word of the tables was zero.\<close>

lemma cs_all_zero: "length words = 4096 \<Longrightarrow> zeros words = 4096 \<longleftrightarrow> (\<forall>v\<in>set words. v = 0)"
  using zeros_all[of words] by simp

end
