(* ===== verification/Resource_Layout.thy ===== *)
theory Resource_Layout
  imports Listings
begin

text \<open>
  \<^verbatim>\<open>tools/vfio_resource_layout.c\<close> (experiment 020): load base, size and scratch registers of the four
  resource pools of every DSP into an array of structures and print it. The first pool has no
  scratch register; its entry stays zero.
\<close>

record resource_layout =
  pool_base :: "nat \<Rightarrow> u32"
  pool_size :: "nat \<Rightarrow> u32"
  pool_scratch :: "nat \<Rightarrow> u32"

type_synonym layouts = "nat \<Rightarrow> resource_layout"

definition DSP_COUNT :: nat where "DSP_COUNT = 8"

definition base_offsets :: "u32 list" where
  "base_offsets = [0x10, 0x18, 0x14, 0x1c]"

definition size_offsets :: "u32 list" where
  "size_offsets = [0x184, 0x18c, 0x188, 0x190]"

definition scratch_offsets :: "u32 list" where
  "scratch_offsets = [0, 0x198, 0x194, 0x19c]"

definition dsp_base :: "nat \<Rightarrow> u32" where
  "dsp_base dsp = (if dsp > 3 then 0x2000 else 0) + of_nat dsp * 0x800"

definition rl_mmio_read32 :: "vfio_env \<Rightarrow> u32 \<Rightarrow> (session, u32) state" where
  "rl_mmio_read32 e offset = bus_read (answer e) offset"

definition no_layouts :: layouts where
  "no_layouts = (\<lambda>_. \<lparr>pool_base = (\<lambda>_. 0), pool_size = (\<lambda>_. 0), pool_scratch = (\<lambda>_. 0)\<rparr>)"

definition set_base :: "nat \<Rightarrow> nat \<Rightarrow> u32 \<Rightarrow> layouts \<Rightarrow> layouts" where
  "set_base dsp pool v ls =
     ls(dsp := (ls dsp)\<lparr>pool_base := (pool_base (ls dsp))(pool := v)\<rparr>)"

definition set_size :: "nat \<Rightarrow> nat \<Rightarrow> u32 \<Rightarrow> layouts \<Rightarrow> layouts" where
  "set_size dsp pool v ls =
     ls(dsp := (ls dsp)\<lparr>pool_size := (pool_size (ls dsp))(pool := v)\<rparr>)"

definition set_scratch :: "nat \<Rightarrow> nat \<Rightarrow> u32 \<Rightarrow> layouts \<Rightarrow> layouts" where
  "set_scratch dsp pool v ls =
     ls(dsp := (ls dsp)\<lparr>pool_scratch := (pool_scratch (ls dsp))(pool := v)\<rparr>)"

definition load_pool :: "vfio_env \<Rightarrow> nat \<Rightarrow> nat \<Rightarrow> layouts \<Rightarrow> (session, layouts) state" where
  "load_pool e dsp pool ls =
     do { b \<leftarrow> rl_mmio_read32 e (dsp_base dsp + base_offsets ! pool);
          n \<leftarrow> rl_mmio_read32 e (dsp_base dsp + size_offsets ! pool);
          scratch \<leftarrow> (if scratch_offsets ! pool \<noteq> 0
            then rl_mmio_read32 e (dsp_base dsp + scratch_offsets ! pool) else State_Monad.return 0);
          State_Monad.return (set_scratch dsp pool scratch (set_size dsp pool n (set_base dsp pool b ls))) }"

definition load_layouts :: "vfio_env \<Rightarrow> (session, layouts) state" where
  "load_layouts e =
     fold_m (\<lambda>dsp. fold_m (\<lambda>pool. load_pool e dsp pool) [0..<4]) [0..<DSP_COUNT] no_layouts"

definition rl_pool_line :: "resource_layout \<Rightarrow> nat \<Rightarrow> string" where
  "rl_pool_line l pool =
     ''      {\"type\": '' @ dec pool @ '', \"base\": \"0x'' @ hex 8 (unat (pool_base l pool)) @
     ''\", \"size\": \"0x'' @ hex 8 (unat (pool_size l pool)) @
     ''\", \"scratch\": \"0x'' @ hex 8 (unat (pool_scratch l pool)) @ ''\"}'' @
     (if pool = 3 then '''' else '','')"

definition rl_dsp_lines :: "layouts \<Rightarrow> nat \<Rightarrow> string list" where
  "rl_dsp_lines ls dsp =
     [''    {\"dsp\": '' @ dec dsp @ '', \"register_base\": \"0x'' @ hex 4 (unat (dsp_base dsp)) @
      ''\", \"pools\": [''] @ map (rl_pool_line (ls dsp)) [0..<4] @
     [''    ]}'' @ (if dsp = DSP_COUNT - 1 then '''' else '','')]"

definition rl_report :: "layouts \<Rightarrow> string list" where
  "rl_report ls =
     [''{'',
      ''  \"experiment\": \"020-resource-layout-snapshot\",'',
      ''  \"transport\": \"vfio-pci\",'',
      json_number ''dma_mappings'' 0,
      json_number ''mmio_writes'' 0,
      ''  \"dsps\": [''] @ concat (map (rl_dsp_lines ls) [0..<DSP_COUNT]) @ [''  ]'', ''}'']"

definition rl_body :: "vfio_env \<Rightarrow> (session, unit) state" where
  "rl_body e = do { ls \<leftarrow> load_layouts e; print_lines (rl_report ls) }"

definition rl_main :: "vfio_env \<Rightarrow> (session, bool option) state" where
  "rl_main e = run_listing e (rl_body e)"

section \<open>What a run shows\<close>

text \<open>The registers of one pool, with the entries of the array that shows them.\<close>

definition pool_loads :: "layouts \<Rightarrow> nat \<times> nat \<Rightarrow> (u32 \<times> u32) list" where
  "pool_loads ls = (\<lambda>(dsp, pool).
     [(dsp_base dsp + base_offsets ! pool, pool_base (ls dsp) pool),
      (dsp_base dsp + size_offsets ! pool, pool_size (ls dsp) pool)] @
     (if scratch_offsets ! pool \<noteq> 0
      then [(dsp_base dsp + scratch_offsets ! pool, pool_scratch (ls dsp) pool)] else []))"

definition all_pools :: "(nat \<times> nat) list" where
  "all_pools = List.product [0..<DSP_COUNT] [0..<4]"

definition rl_shown :: "session \<Rightarrow> bool" where
  "rl_shown t \<longleftrightarrow> (\<exists>ls. loads (log t) = concat (map (pool_loads ls) all_pools) \<and>
     (\<forall>dsp. pool_scratch (ls dsp) 0 = 0) \<and> stdout t = rl_report ls)"

lemma rl_reads: "rl_mmio_read32 e = bus_read (answer e)"
  by (simp add: fun_eq_iff rl_mmio_read32_def)

lemma load_layouts_pools:
  "load_layouts e = fold_m (\<lambda>(dsp, pool). load_pool e dsp pool) all_pools no_layouts"
  unfolding load_layouts_def all_pools_def by (simp only: fold_m_product)

lemma set_all_pools: "(d, p) \<in> set all_pools \<longleftrightarrow> d < 8 \<and> p < 4"
  by (auto simp: all_pools_def DSP_COUNT_def)

lemma pool_loads_other:
  "q \<noteq> (dsp, pool) \<Longrightarrow> pool_loads (set_scratch dsp pool x (set_size dsp pool n (set_base dsp pool b ls))) q =
     pool_loads ls q"
  by (cases q) (auto simp: pool_loads_def set_scratch_def set_size_def set_base_def)

lemma load_pool_wp:
  assumes "\<And>b n x rs. loads rs = pool_loads (set_scratch dsp pool x (set_size dsp pool n (set_base dsp pool b ls))) (dsp, pool) \<Longrightarrow>
      (pool = 0 \<Longrightarrow> x = 0) \<Longrightarrow>
      Q (set_scratch dsp pool x (set_size dsp pool n (set_base dsp pool b ls))) (s\<lparr>log := rs @ log s\<rparr>)"
  shows "wp (load_pool e dsp pool ls) Q s"
proof -
  let ?off = "\<lambda>offs. dsp_base dsp + offs ! pool"
  define b where "b = answer e (log s) (?off base_offsets)"
  define n where "n = answer e (Rd (?off base_offsets) b # log s) (?off size_offsets)"
  define x where "x = answer e (Rd (?off size_offsets) n # Rd (?off base_offsets) b # log s) (?off scratch_offsets)"
  show ?thesis
  proof (cases "scratch_offsets ! pool = 0")
    case True
    then have "Q (set_scratch dsp pool 0 (set_size dsp pool n (set_base dsp pool b ls)))
        (s\<lparr>log := [Rd (?off size_offsets) n, Rd (?off base_offsets) b] @ log s\<rparr>)"
      by (intro assms) (simp_all add: pool_loads_def set_scratch_def set_size_def set_base_def)
    then show ?thesis by (simp add: load_pool_def rl_reads wp_simps True b_def n_def)
  next
    case False
    then have "Q (set_scratch dsp pool x (set_size dsp pool n (set_base dsp pool b ls)))
        (s\<lparr>log := [Rd (?off scratch_offsets) x, Rd (?off size_offsets) n, Rd (?off base_offsets) b] @ log s\<rparr>)"
      by (intro assms)
        (auto simp: pool_loads_def set_scratch_def set_size_def set_base_def scratch_offsets_def)
    then show ?thesis by (simp add: load_pool_def rl_reads wp_simps False b_def n_def x_def)
  qed
qed

lemma load_pools:
  assumes "distinct (ps @ qs)" "loads (log s) = concat (map (pool_loads ls) ps)"
    "\<forall>dsp. pool_scratch (ls dsp) 0 = 0"
  shows "wp (fold_m (\<lambda>(dsp, pool). load_pool e dsp pool) qs ls)
    (\<lambda>ls t. loads (log t) = concat (map (pool_loads ls) (ps @ qs)) \<and>
       (\<forall>dsp. pool_scratch (ls dsp) 0 = 0) \<and> stdout t = stdout s) s"
  using assms
proof (induction qs arbitrary: ps ls s)
  case Nil
  then show ?case by (simp add: wp_return)
next
  case (Cons q qs)
  obtain dsp pool where q: "q = (dsp, pool)" by (cases q)
  let ?stop = "\<lambda>ls t. loads (log t) = concat (map (pool_loads ls) (ps @ q # qs)) \<and>
     (\<forall>dsp. pool_scratch (ls dsp) 0 = 0) \<and> stdout t = stdout s"
  show ?case
    unfolding q fold_m.simps prod.case wp_bind
  proof (rule load_pool_wp)
    fix b n x and rs :: history
    let ?ls = "set_scratch dsp pool x (set_size dsp pool n (set_base dsp pool b ls))"
    assume r: "loads rs = pool_loads ?ls (dsp, pool)" "pool = 0 \<Longrightarrow> x = 0"
    have "map (pool_loads ?ls) ps = map (pool_loads ls) ps"
      using Cons.prems(1) by (auto simp: q intro!: pool_loads_other)
    then have "loads (rs @ log s) = concat (map (pool_loads ?ls) (ps @ [q]))"
      using r(1) Cons.prems(2) by (simp add: q loads_append del: map_eq_conv)
    moreover have "\<forall>dsp. pool_scratch (?ls dsp) 0 = 0"
      using Cons.prems(3) r(2) by (auto simp: set_scratch_def set_size_def set_base_def)
    ultimately show "wp (fold_m (\<lambda>(dsp, pool). load_pool e dsp pool) qs ?ls)
        (\<lambda>ls t. loads (log t) = concat (map (pool_loads ls) (ps @ (dsp, pool) # qs)) \<and>
           (\<forall>dsp. pool_scratch (ls dsp) 0 = 0) \<and> stdout t = stdout s) (s\<lparr>log := rs @ log s\<rparr>)"
      using Cons.IH[of "ps @ [q]" "s\<lparr>log := rs @ log s\<rparr>" ?ls] Cons.prems(1) by (simp add: q)
  qed
qed

lemma pool_in_bar:
  assumes "d < 8" "p < 4"
  shows "in_bar (dsp_base d + base_offsets ! p)" "in_bar (dsp_base d + size_offsets ! p)"
    "in_bar (dsp_base d + scratch_offsets ! p)"
proof -
  have "d \<in> {0, 1, 2, 3, 4, 5, 6, 7}" "p \<in> {0, 1, 2, 3}" using assms by auto
  then have "in_bar (dsp_base d + base_offsets ! p) \<and> in_bar (dsp_base d + size_offsets ! p) \<and>
      in_bar (dsp_base d + scratch_offsets ! p)"
    by (elim insertE emptyE)
      (simp_all add: dsp_base_def base_offsets_def size_offsets_def scratch_offsets_def in_bar_def)
  then show "in_bar (dsp_base d + base_offsets ! p)" "in_bar (dsp_base d + size_offsets ! p)"
    "in_bar (dsp_base d + scratch_offsets ! p)" by simp_all
qed

interpretation rl_tool: listing e listing_locals "rl_body e" rl_shown for e
proof
  show "preserves (\<lambda>s. idle probe_held s \<and> writes (log s) = []) (rl_body e)"
    unfolding rl_body_def load_layouts_def load_pool_def rl_reads DSP_COUNT_def
    by (intro preserves_intros; simp add: pool_in_bar)
  show "wp (rl_body e) (\<lambda>_. rl_shown) s" if "stdout s = []" "loads (log s) = []" for s
    unfolding rl_body_def load_layouts_pools wp_bind
  proof (rule wp_mono[OF load_pools[where ps = "[]"]])
    show "distinct ([] @ all_pools)" by (simp add: all_pools_def distinct_product)
    show "loads (log s) = concat (map (pool_loads no_layouts) [])" by (simp add: that)
    show "\<forall>dsp. pool_scratch (no_layouts dsp) 0 = 0" by (simp add: no_layouts_def)
  qed (auto simp: wp_simps rl_shown_def that)
qed (auto simp: rl_shown_def loads_append)

end
