(* ===== verification/Read_Status.thy ===== *)
theory Read_Status
  imports Listings
begin

text \<open>
  \<^verbatim>\<open>tools/vfio_read_status.c\<close>: load the boot word of every DSP twice, a quarter of a second apart,
  count the zero words of the sixteen rings and, with \<^verbatim>\<open>--extended-rings\<close>, show their five
  further words. \<open>flags\<close> is the field \<^verbatim>\<open>device_info.flags\<close> the kernel filled in.
\<close>

definition rs_mmio_read32 :: "vfio_env \<Rightarrow> u32 \<Rightarrow> (session, u32) state" where
  "rs_mmio_read32 e offset = bus_read (answer e) offset"

definition rs_arguments :: "string list \<Rightarrow> bool option" where
  "rs_arguments argv =
     (if length argv = 2 \<and> argv ! 1 = ''--extended-rings'' then Some True
      else if length argv \<noteq> 1 then None
      else Some False)"

text \<open>The array \<^verbatim>\<open>extended_ring_words\<close>, and the locals of the loop over the rings.\<close>

type_synonym ring_table = "nat \<Rightarrow> nat \<Rightarrow> nat \<Rightarrow> u32"

definition set_word :: "nat \<Rightarrow> nat \<Rightarrow> nat \<Rightarrow> u32 \<Rightarrow> ring_table \<Rightarrow> ring_table" where
  "set_word dsp ring field v ext =
     ext(dsp := (ext dsp)(ring := (ext dsp ring)(field := v)))"

definition tally_extended :: "nat \<Rightarrow> nat \<Rightarrow> nat \<Rightarrow> u32 \<Rightarrow> ring_table \<times> nat \<Rightarrow> ring_table \<times> nat" where
  "tally_extended dsp ring field v = (\<lambda>(ext, zero).
     (set_word dsp ring field v ext, if v = 0 then zero + 1 else zero))"

definition scan_ring ::
  "vfio_env \<Rightarrow> bool \<Rightarrow> nat \<Rightarrow> nat \<Rightarrow> nat \<times> ring_table \<times> nat \<Rightarrow> (session, nat \<times> ring_table \<times> nat) state" where
  "scan_ring e extended_rings dsp ring = (\<lambda>(zero_ring_words, ext, zero_extended).
     let base = ring_base dsp ring in
     do { zero_ring_words \<leftarrow> fold_m (\<lambda>field zero.
            do { v \<leftarrow> rs_mmio_read32 e (base + of_nat field * 4);
                 State_Monad.return (if v = 0 then zero + 1 else zero) }) [0..<11] zero_ring_words;
          (ext, zero_extended) \<leftarrow>
            (if extended_rings then
               fold_m (\<lambda>field acc.
                 do { v \<leftarrow> rs_mmio_read32 e (base + 0x2c + of_nat field * 4);
                      State_Monad.return (tally_extended dsp ring field v acc) }) [0..<5] (ext, zero_extended)
             else State_Monad.return (ext, zero_extended));
          State_Monad.return (zero_ring_words, ext, zero_extended) })"

definition scan_all_rings :: "vfio_env \<Rightarrow> bool \<Rightarrow> (session, nat \<times> ring_table \<times> nat) state" where
  "scan_all_rings e extended_rings =
     fold_m (\<lambda>i. fold_m (\<lambda>ring. scan_ring e extended_rings i ring) [0..<2]) [0..<8] (0, \<lambda>_ _ _. 0, 0)"

section \<open>The report\<close>

definition rs_heading :: "u64 \<Rightarrow> u32 \<Rightarrow> string list" where
  "rs_heading bar0_size flags =
     [''{'',
      ''  \"transport\": \"vfio-pci\",'',
      ''  \"iommu_type\": \"VFIO_TYPE1_IOMMU\",'',
      json_number ''dma_mappings'' 0,
      json_number ''mmio_writes'' 0,
      json_number ''bar0_size'' (unat bar0_size),
      json_number ''device_flags'' (unat flags)]"

definition rs_ring_text :: "ring_table \<Rightarrow> nat \<Rightarrow> nat \<Rightarrow> string" where
  "rs_ring_text ext i ring =
     ''['' @ concat (map (\<lambda>field. ''\"0x'' @ hex 8 (unat (ext i ring field)) @ ''\"'' @
       (if field = 4 then '''' else '', '')) [0..<5]) @ '']'' @ (if ring = 1 then '''' else '', '')"

definition rs_ring_line :: "ring_table \<Rightarrow> nat \<Rightarrow> string" where
  "rs_ring_line ext i =
     ''    {\"dsp\": '' @ dec i @ '', \"rings\": ['' @ concat (map (rs_ring_text ext i) [0..<2]) @
     '']}'' @ (if i = 7 then '''' else '','')"

definition rs_extended_lines :: "ring_table \<Rightarrow> nat \<Rightarrow> string list" where
  "rs_extended_lines ext zero_extended =
     [json_number ''extended_ring_words_read'' 80,
      json_number ''zero_extended_ring_words'' zero_extended,
      ''  \"extended_ring_words\": [''] @ map (rs_ring_line ext) [0..<8] @ [''  ],'']"

definition rs_dsp_line :: "u32 list \<Rightarrow> u32 list \<Rightarrow> nat \<Rightarrow> string" where
  "rs_dsp_line first second i =
     ''    {\"index\": '' @ dec i @ '', \"offset\": \"0x'' @ hex 4 (unat (boot_offsets ! i)) @ ''\", '' @
     ''\"first\": \"0x'' @ hex 8 (unat (first ! i)) @ ''\", \"second\": \"0x'' @ hex 8 (unat (second ! i)) @
     ''\", \"ready\": '' @ (if second ! i AND 1 \<noteq> 0 then ''true'' else ''false'') @ ''}'' @
     (if i = 7 then '''' else '','')"

definition rs_rest :: "bool \<Rightarrow> u32 \<Rightarrow> nat \<times> ring_table \<times> nat \<Rightarrow> u32 list \<Rightarrow> u32 list \<Rightarrow> string list" where
  "rs_rest extended_rings control scan first second =
     (let (zero_ring_words, ext, zero_extended) = scan in
      [json_word ''dma_control'' control,
       json_number ''ring_words_read'' 176,
       json_number ''zero_ring_words'' zero_ring_words] @
      (if extended_rings then rs_extended_lines ext zero_extended else []) @
      [''  \"dsps\": [''] @ map (rs_dsp_line first second) [0..<8] @ [''  ]'', ''}''])"

section \<open>The program\<close>

definition rs_body :: "vfio_env \<Rightarrow> u32 \<Rightarrow> bool \<Rightarrow> (session, unit) state" where
  "rs_body e flags extended_rings =
     do { first \<leftarrow> read_words (rs_mmio_read32 e) boot_offsets;
          nanosleep 250000000;
          second \<leftarrow> read_words (rs_mmio_read32 e) boot_offsets;
          scan \<leftarrow> scan_all_rings e extended_rings;
          print_lines (rs_heading (region_size e) flags);
          control \<leftarrow> rs_mmio_read32 e DMA_CONTROL;
          print_lines (rs_rest extended_rings control scan first second) }"

definition rs_main :: "vfio_env \<Rightarrow> u32 \<Rightarrow> string list \<Rightarrow> (session, bool option) state" where
  "rs_main e flags argv =
     (case rs_arguments argv of
        None \<Rightarrow> State_Monad.return (Some False)
      | Some extended_rings \<Rightarrow> run_listing e (rs_body e flags extended_rings))"

section \<open>What a run shows\<close>

definition ring_loads :: "bool \<Rightarrow> ring_table \<Rightarrow> ring_table \<Rightarrow> nat \<times> nat \<Rightarrow> (u32 \<times> u32) list" where
  "ring_loads extended_rings words ext = (\<lambda>(d, r).
     map (\<lambda>w. (ring_reg d r w, words d r w)) [0..<11] @
     (if extended_rings then map (\<lambda>w. (ring_reg d r (11 + w), ext d r w)) [0..<5] else []))"

definition all_rings :: "(nat \<times> nat) list" where
  "all_rings = List.product [0..<8] [0..<2]"

definition zero_words :: "nat \<Rightarrow> ring_table \<Rightarrow> (nat \<times> nat) list \<Rightarrow> nat" where
  "zero_words n words rings = (\<Sum>(d, r)\<leftarrow>rings. zeros (map (words d r) [0..<n]))"

definition scanned :: "bool \<Rightarrow> (nat \<times> nat) list \<Rightarrow> history \<Rightarrow> nat \<times> ring_table \<times> nat \<Rightarrow> bool" where
  "scanned extended_rings rings h = (\<lambda>(zero_ring_words, ext, zero_extended).
     \<exists>words. loads h = concat (map (ring_loads extended_rings words ext) rings) \<and>
       zero_ring_words = zero_words 11 words rings \<and>
       zero_extended = (if extended_rings then zero_words 5 ext rings else 0))"

text \<open>
  The boot words before and after a wait of a quarter of a second, the rings, then the control
  word; the report is made of exactly these values.
\<close>

definition rs_shown :: "vfio_env \<Rightarrow> u32 \<Rightarrow> bool \<Rightarrow> session \<Rightarrow> bool" where
  "rs_shown e flags extended_rings t \<longleftrightarrow>
     (\<exists>first second rings scan control later earlier.
        length first = 8 \<and> length second = 8 \<and> log t = later @ Delay 250000000 # earlier \<and>
        loads earlier = zip boot_offsets first \<and> scanned extended_rings all_rings rings scan \<and>
        loads later = zip boot_offsets second @ loads rings @ [(DMA_CONTROL, control)] \<and>
        stdout t = rs_heading (region_size e) flags @ rs_rest extended_rings control scan first second)"

lemma rs_reads: "rs_mmio_read32 e = bus_read (answer e)"
  by (simp add: fun_eq_iff rs_mmio_read32_def)

lemma tally_fold:
  assumes "fold (\<lambda>(f, v). tally_extended d r f v) (zip [k..<k + length ws] ws) (ext, z) = (ext', z')"
  shows "z' = z + zeros ws \<and> (\<forall>w<length ws. ext' d r (k + w) = ws ! w) \<and>
    (\<forall>w<k. ext' d r w = ext d r w) \<and> (\<forall>d' r'. (d', r') \<noteq> (d, r) \<longrightarrow> ext' d' r' = ext d' r')"
  using assms
proof (induction ws arbitrary: k ext z)
  case Nil
  then show ?case by (simp add: zeros_def)
next
  case (Cons v ws)
  let ?ext = "set_word d r k v ext" and ?z = "if v = 0 then z + 1 else z"
  have "[k..<k + length (v # ws)] = k # [Suc k..<Suc k + length ws]" by (simp add: upt_rec)
  then have "fold (\<lambda>(f, v). tally_extended d r f v) (zip [Suc k..<Suc k + length ws] ws) (?ext, ?z) = (ext', z')"
    using Cons.prems by (simp add: tally_extended_def)
  note ih = Cons.IH[OF this]
  then have "ext' d r k = v" by (simp add: set_word_def)
  then have "\<forall>w<length (v # ws). ext' d r (k + w) = (v # ws) ! w"
    using ih by (auto simp: nth_Cons split: nat.split)
  then show ?case using ih by (auto simp: zeros_Cons set_word_def)
qed

lemma ring_rows:
  "length vs = n \<Longrightarrow> map2 (\<lambda>f v. (a f, v)) [0..<n] vs = map (\<lambda>w. (a w, vs ! w)) [0..<n]"
  by (rule nth_equalityI) simp_all

lemma extended_word: "d < 8 \<Longrightarrow> ring_base d r + 0x2c + of_nat w * 4 = ring_reg d r (11 + w)"
  using ring_base_word[of d r "11 + w"] by (simp add: algebra_simps)

lemma scan_extended_wp:
  assumes "d < 8"
    and Q: "\<And>h ext' z'. loads h = map (\<lambda>w. (ring_reg d r (11 + w), ext' d r w)) [0..<5] \<Longrightarrow>
      \<forall>d' r'. (d', r') \<noteq> (d, r) \<longrightarrow> ext' d' r' = ext d' r' \<Longrightarrow>
      z' = z + zeros (map (ext' d r) [0..<5]) \<Longrightarrow> Q (ext', z') (s\<lparr>log := h @ log s\<rparr>)"
  shows "wp (fold_m (\<lambda>f acc. do { v \<leftarrow> bus_read (answer e) (ring_base d r + 0x2c + of_nat f * 4);
    State_Monad.return (tally_extended d r f v acc) }) [0..<5] (ext, z)) Q s"
proof (rule wp_fold_reads)
  fix ws :: "u32 list"
  let ?h = "rev (map2 (\<lambda>f. Rd (ring_base d r + 0x2c + of_nat f * 4)) [0..<5] ws)"
  assume "length ws = length [0..<5]"
  then have ws: "length ws = 5" by simp
  obtain ext' z' where f: "fold (\<lambda>(f, v). tally_extended d r f v) (zip [0..<5] ws) (ext, z) = (ext', z')"
    by fastforce
  have t: "z' = z + zeros ws" "\<forall>w<5. ext' d r w = ws ! w"
      "\<forall>d' r'. (d', r') \<noteq> (d, r) \<longrightarrow> ext' d' r' = ext d' r'"
    using tally_fold[of d r 0 ws ext z ext' z'] f ws by simp_all
  have m: "map (ext' d r) [0..<5] = ws" by (rule nth_equalityI) (simp_all add: ws t(2))
  have "loads ?h = map (\<lambda>w. (ring_reg d r (11 + w), ws ! w)) [0..<5]"
    by (simp only: loads_map2 extended_word[OF assms(1)] ring_rows[OF ws])
  also have "\<dots> = map (\<lambda>w. (ring_reg d r (11 + w), ext' d r w)) [0..<5]"
    by (rule map_cong) (simp_all add: t(2))
  finally have "Q (ext', z') (s\<lparr>log := ?h @ log s\<rparr>)"
    by (intro Q[OF _ t(3)]) (simp_all only: t(1) m)
  then show "Q (fold (\<lambda>(f, v). tally_extended d r f v) (zip [0..<5] ws) (ext, z)) (s\<lparr>log := ?h @ log s\<rparr>)"
    unfolding f .
qed

lemma scan_ring_wp:
  assumes d: "d < 8"
    and Q: "\<And>h vs ext' z'. length vs = 11 \<Longrightarrow>
      loads h = map (\<lambda>w. (ring_reg d r w, vs ! w)) [0..<11] @
        (if x then map (\<lambda>w. (ring_reg d r (11 + w), ext' d r w)) [0..<5] else []) \<Longrightarrow>
      \<forall>d' r'. (d', r') \<noteq> (d, r) \<longrightarrow> ext' d' r' = ext d' r' \<Longrightarrow>
      z' = (if x then z + zeros (map (ext' d r) [0..<5]) else z) \<Longrightarrow>
      Q (zero + zeros vs, ext', z') (s\<lparr>log := h @ log s\<rparr>)"
  shows "wp (scan_ring e x d r (zero, ext, z)) Q s"
  unfolding scan_ring_def rs_reads Let_def prod.case wp_bind
proof (rule wp_fold_reads)
  fix vs :: "u32 list"
  let ?h = "rev (map2 (\<lambda>f. Rd (ring_base d r + of_nat f * 4)) [0..<11] vs)"
  let ?zero = "fold (\<lambda>(f, v) zero. if v = 0 then zero + 1 else zero) (zip [0..<11] vs) zero"
  assume len: "length vs = length [0..<11]"
  then have vs: "length vs = 11" by simp
  have zero: "?zero = zero + zeros vs" by (rule fold_zeros[OF len])
  have h: "loads ?h = map (\<lambda>w. (ring_reg d r w, vs ! w)) [0..<11]"
    by (simp only: loads_map2 ring_base_word[OF d] ring_rows[OF vs])
  show "wp (if x then fold_m (\<lambda>f acc. do { v \<leftarrow> bus_read (answer e) (ring_base d r + 0x2c + of_nat f * 4);
        State_Monad.return (tally_extended d r f v acc) }) [0..<5] (ext, z)
      else State_Monad.return (ext, z))
    (\<lambda>a. wp (case a of (ext, z') \<Rightarrow> State_Monad.return (?zero, ext, z')) Q) (s\<lparr>log := ?h @ log s\<rparr>)"
  proof (cases x)
    case False
    then show ?thesis using Q[OF vs, of ?h ext z] h by (simp add: wp_return zero)
  next
    case True
    show ?thesis
      unfolding if_P[OF True] zero
      by (rule scan_extended_wp[OF d])
        (use Q[OF vs] h in \<open>auto simp: True wp_return loads_append append_assoc[symmetric] simp del: append_assoc\<close>)
  qed
qed

lemma ring_loads_cong:
  "W d r = W' d r \<Longrightarrow> E d r = E' d r \<Longrightarrow> ring_loads x W E (d, r) = ring_loads x W' E' (d, r)"
  by (simp add: ring_loads_def)

lemma zero_words_cong:
  "(\<And>d r. (d, r) \<in> set rings \<Longrightarrow> W d r = W' d r) \<Longrightarrow> zero_words n W rings = zero_words n W' rings"
  unfolding zero_words_def by (rule arg_cong[where f = sum_list], rule map_cong) auto

text \<open>One ring more.\<close>

lemma scanned_step:
  assumes "scanned x ps g (zero, ext, z)" "(d, r) \<notin> set ps" "length vs = 11"
    and "loads h = map (\<lambda>w. (ring_reg d r w, vs ! w)) [0..<11] @
      (if x then map (\<lambda>w. (ring_reg d r (11 + w), ext' d r w)) [0..<5] else [])"
    and "\<forall>d' r'. (d', r') \<noteq> (d, r) \<longrightarrow> ext' d' r' = ext d' r'"
    and "z' = (if x then z + zeros (map (ext' d r) [0..<5]) else z)"
  shows "scanned x (ps @ [(d, r)]) (h @ g) (zero + zeros vs, ext', z')"
proof -
  obtain words where w: "loads g = concat (map (ring_loads x words ext) ps)"
    "zero = zero_words 11 words ps" "z = (if x then zero_words 5 ext ps else 0)"
    using assms(1) by (auto simp: scanned_def)
  let ?words = "words(d := (words d)(r := \<lambda>f. vs ! f))"
  have old: "?words d' r' = words d' r'" "ext' d' r' = ext d' r'" if "(d', r') \<in> set ps" for d' r'
    using that assms(2,5) by auto
  have "map (ring_loads x ?words ext') ps = map (ring_loads x words ext) ps"
    by (rule map_cong[OF refl], clarify, rule ring_loads_cong) (rule old, assumption)+
  moreover have "zero_words 11 ?words ps = zero_words 11 words ps" "zero_words 5 ext' ps = zero_words 5 ext ps"
    by (rule zero_words_cong, rule old, assumption)+
  moreover have "map (\<lambda>w. vs ! w) [0..<11] = vs" using map_nth[of vs] by (simp only: assms(3))
  ultimately have "loads (h @ g) = concat (map (ring_loads x ?words ext') (ps @ [(d, r)])) \<and>
      zero + zeros vs = zero_words 11 ?words (ps @ [(d, r)]) \<and>
      z' = (if x then zero_words 5 ext' (ps @ [(d, r)]) else 0)"
    using w assms(4,6) by (simp add: loads_append zero_words_def ring_loads_def del: map_eq_conv)
  then show ?thesis unfolding scanned_def prod.case by blast
qed

lemma scan_rings:
  assumes "distinct (ps @ qs)" "\<forall>q\<in>set qs. fst q < 8" "log s = g @ base" "scanned x ps g acc"
  shows "wp (fold_m (\<lambda>(d, r). scan_ring e x d r) qs acc)
    (\<lambda>acc t. stdout t = stdout s \<and> (\<exists>h. log t = h @ base \<and> scanned x (ps @ qs) h acc)) s"
  using assms
proof (induction qs arbitrary: ps acc s g)
  case Nil
  then show ?case by (auto simp: wp_return)
next
  case (Cons q qs)
  obtain d r where q: "q = (d, r)" by (cases q)
  obtain zero ext z where acc: "acc = (zero, ext, z)" by (metis prod_cases3)
  show ?case
    unfolding q acc fold_m.simps prod.case wp_bind
  proof (rule scan_ring_wp)
    show "d < 8" using Cons.prems(2) by (simp add: q)
    fix h vs ext' z'
    assume h: "length vs = 11"
      "loads h = map (\<lambda>w. (ring_reg d r w, vs ! w)) [0..<11] @
        (if x then map (\<lambda>w. (ring_reg d r (11 + w), ext' d r w)) [0..<5] else [])"
      "\<forall>d' r'. (d', r') \<noteq> (d, r) \<longrightarrow> ext' d' r' = ext d' r'"
      "z' = (if x then z + zeros (map (ext' d r) [0..<5]) else z)"
    have "scanned x (ps @ [(d, r)]) (h @ g) (zero + zeros vs, ext', z')"
      by (rule scanned_step[OF _ _ h]) (use Cons.prems(1,4) in \<open>simp_all add: q acc\<close>)
    then show "wp (fold_m (\<lambda>(d, r). scan_ring e x d r) qs (zero + zeros vs, ext', z'))
        (\<lambda>acc t. stdout t = stdout s \<and> (\<exists>h. log t = h @ base \<and> scanned x (ps @ (d, r) # qs) h acc))
        (s\<lparr>log := h @ log s\<rparr>)"
      using Cons.IH[of "ps @ [(d, r)]" "s\<lparr>log := h @ log s\<rparr>" "h @ g" "(zero + zeros vs, ext', z')"]
        Cons.prems by (simp add: q)
  qed
qed

lemma scan_all_rings_wp:
  assumes "\<And>scan t h. stdout t = stdout s \<Longrightarrow> log t = h @ log s \<Longrightarrow> scanned x all_rings h scan \<Longrightarrow> Q scan t"
  shows "wp (scan_all_rings e x) Q s"
proof -
  have "wp (fold_m (\<lambda>(d, r). scan_ring e x d r) all_rings (0, \<lambda>_ _ _. 0, 0))
    (\<lambda>acc t. stdout t = stdout s \<and> (\<exists>h. log t = h @ log s \<and> scanned x ([] @ all_rings) h acc)) s"
    by (rule scan_rings[where g = "[]"])
      (auto simp: all_rings_def distinct_product scanned_def zero_words_def)
  then show ?thesis
    unfolding scan_all_rings_def fold_m_product all_rings_def[symmetric]
    by (rule wp_mono) (auto intro: assms)
qed

lemma rs_shownI:
  assumes "length first = 8" "length second = 8" "log t = later @ Delay 250000000 # earlier"
    and "loads earlier = zip boot_offsets first" "scanned x all_rings rings scan"
    and "loads later = zip boot_offsets second @ loads rings @ [(DMA_CONTROL, control)]"
    and "stdout t = rs_heading (region_size e) flags @ rs_rest x control scan first second"
  shows "rs_shown e flags x t"
  unfolding rs_shown_def
  by (rule exI[of _ first], rule exI[of _ second], rule exI[of _ rings], rule exI[of _ scan],
      rule exI[of _ control], rule exI[of _ later], rule exI[of _ earlier]) (intro conjI assms)

lemma rs_report_wp:
  assumes "length first = length boot_offsets" "length second = length boot_offsets"
    and "log t = h @ log u" "scanned x all_rings h scan"
    and "log u = loaded boot_offsets second @ Delay 250000000 # loaded boot_offsets first @ before"
    and "loads before = []" "stdout t = []"
  shows "wp (print_lines (rs_heading (region_size e) flags))
    (\<lambda>_. wp (bus_read hw DMA_CONTROL)
      (\<lambda>control. wp (print_lines (rs_rest x control scan first second)) (\<lambda>_. rs_shown e flags x))) t"
proof -
  let ?control = "hw (log t) DMA_CONTROL"
  have "rs_shown e flags x (t\<lparr>log := Rd DMA_CONTROL ?control # log t,
      stdout := rs_heading (region_size e) flags @ rs_rest x ?control scan first second\<rparr>)"
    by (rule rs_shownI[of first second _ "Rd DMA_CONTROL ?control # h @ loaded boot_offsets second"
          "loaded boot_offsets first @ before" x h scan ?control])
      (use assms in \<open>simp_all add: loads_append boot_offsets_def\<close>)
  then show ?thesis using assms(7) by (simp add: wp_simps)
qed

lemma rs_shown_close:
  assumes "loads evs = []" "rs_shown e flags x t"
  shows "rs_shown e flags x (t\<lparr>log := evs @ log t\<rparr>)"
proof -
  obtain first second rings scan control later earlier where t: "length first = 8" "length second = 8"
    "log t = later @ Delay 250000000 # earlier" "loads earlier = zip boot_offsets first"
    "scanned x all_rings rings scan"
    "loads later = zip boot_offsets second @ loads rings @ [(DMA_CONTROL, control)]"
    "stdout t = rs_heading (region_size e) flags @ rs_rest x control scan first second"
    using assms(2) unfolding rs_shown_def by (elim exE conjE)
  show ?thesis
    by (rule rs_shownI[of first second _ "evs @ later" earlier x rings scan control])
      (simp_all add: t loads_append assms(1))
qed

lemma boot_in_bar: "a \<in> set boot_offsets \<Longrightarrow> in_bar a"
  by (auto simp: boot_offsets_def in_bar_def)

interpretation rs_tool: listing e listing_locals "rs_body e flags x" "rs_shown e flags x" for e flags x
proof
  show "preserves (\<lambda>s. idle probe_held s \<and> writes (log s) = []) (rs_body e flags x)"
    unfolding rs_body_def scan_all_rings_def scan_ring_def rs_reads Let_def
    by (intro preserves_intros listing_rd; simp add: boot_in_bar ring_base_word extended_word)
  show "wp (rs_body e flags x) (\<lambda>_. rs_shown e flags x) s" if "stdout s = []" "loads (log s) = []" for s
    unfolding rs_body_def rs_reads wp_bind nanosleep_def
    by (rule wp_read_words, simp only: wp_emit, rule wp_read_words, rule scan_all_rings_wp,
        rule rs_report_wp, assumption, assumption, assumption, assumption)
      (simp_all add: that, rule that(2))
  show "rs_shown e flags x (t\<lparr>log := evs @ log t\<rparr>)" if "loads evs = []" "rs_shown e flags x t" for evs t
    by (rule rs_shown_close) (use that in simp_all)
qed simp_all

end
