(* ===== verification/Dma_Map.thy ===== *)
theory Dma_Map
  imports Listings "HOL-Library.Sublist"
begin

text \<open>
  \<^verbatim>\<open>tools/vfio_dma_map.c\<close>: fill one locked page with a canary, map it for DMA without ever opening
  the device, wait, check that no byte changed, and unmap it. \<open>None\<close> is a call of \<^verbatim>\<open>fail\<close>, which
  exits at once.
\<close>

definition CANARY_IOVA :: u64 where "CANARY_IOVA = 0x100000000"
definition DM_CANARY :: u8 where "DM_CANARY = 0x5a"

definition dm_page_size_ok :: "vfio_env \<Rightarrow> bool" where
  "dm_page_size_ok e \<longleftrightarrow>
     \<not> (sys_page_size e \<le> 0 \<or> CANARY_IOVA mod word_of_int (sys_page_size e) \<noteq> 0)"

definition dm_allocate :: "vfio_env \<Rightarrow> (session, bool) state" where
  "dm_allocate e =
     (if \<not> memory_mmap e then State_Monad.return False
      else do {
        emit (Acquire VfioMemory);
        modify (\<lambda>s. s\<lparr>memory_ok := True\<rparr>);
        store_ram (memset 0 DM_CANARY (nat (sys_page_size e)));
        State_Monad.return (\<not> memory_mlock e < 0) })"

definition dm_setup :: "vfio_env \<Rightarrow> (session, bool) state" where
  "dm_setup e =
     and_m (check (dm_page_size_ok e))
    (and_m (open_container e)
    (and_m (open_group e)
    (and_m (attach_group e)
    (and_m (configure_iommu e (word_of_int (sys_page_size e)))
    (and_m (dm_allocate e)
           (map_iova e))))))"

definition dm_unchanged :: "vfio_env \<Rightarrow> (session, bool) state" where
  "dm_unchanged e =
     all_m [0..<nat (sys_page_size e)] (\<lambda>i. do { b \<leftarrow> load_byte e i; State_Monad.return (b = DM_CANARY) })"

definition dm_report :: "vfio_env \<Rightarrow> string list" where
  "dm_report e =
     [''{'',
      ''  \"transport\": \"vfio-pci\",'',
      ''  \"iommu_type\": \"VFIO_TYPE1_IOMMU\",'',
      ''  \"iova_page_sizes\": \"0x'' @ hex 16 (unat (iova_pgsizes e)) @ ''\",'',
      ''  \"mapped_iova\": \"0x'' @ hex 16 (unat CANARY_IOVA) @ ''\",'',
      json_number ''mapped_bytes'' (nat (sys_page_size e)),
      json_flag ''published_to_device'' False,
      json_flag ''canary_unchanged'' True,
      ''  \"unmapped_bytes\": '' @ dec (unmap_size e),
      ''}'']"

definition dm_close :: "(session, unit) state" where
  "dm_close =
     do { emit (Release VfioMemory);
          emit (Release VfioAttached);
          emit (Release VfioGroup);
          emit (Release VfioContainer) }"

definition dm_main :: "vfio_env \<Rightarrow> (session, bool option) state" where
  "dm_main e =
     do { mapped \<leftarrow> dm_setup e;
          if \<not> mapped then State_Monad.return None
          else do {
            nanosleep 250000000;
            unchanged \<leftarrow> dm_unchanged e;
            if \<not> unchanged \<or> \<not> unmap_ok e (nat (sys_page_size e)) then State_Monad.return None
            else do {
              emit (Release VfioMapping);
              print_lines (dm_report e);
              dm_close;
              State_Monad.return (Some True) } } }"

section \<open>The whole history of a run\<close>

definition dm_held :: history where
  "dm_held = [Acquire VfioMapping, Acquire VfioMemory, Acquire VfioAttached, Acquire VfioGroup,
     Acquire VfioContainer]"

definition dm_trace :: history where
  "dm_trace = [Release VfioContainer, Release VfioGroup, Release VfioAttached, Release VfioMemory,
     Release VfioMapping, Delay 250000000] @ dm_held"

text \<open>What the program asks of the host, and of the card: no byte of the page may change.\<close>

definition dm_page :: "vfio_env \<Rightarrow> nat \<Rightarrow> u8" where
  "dm_page e = memset 0 DM_CANARY (nat (sys_page_size e)) (\<lambda>_. 0)"

definition dm_opens :: "vfio_env \<Rightarrow> bool" where
  "dm_opens e \<longleftrightarrow>
     dm_page_size_ok e \<and> 0 \<le> container_open e \<and> api_matches e \<and> type1_supported e \<and>
     0 \<le> group_open e \<and> 0 \<le> group_status e \<and> group_viable e \<and> 0 \<le> set_container e \<and>
     0 \<le> set_iommu e \<and> 0 \<le> iommu_info e \<and> iova_pgsizes e AND word_of_int (sys_page_size e) \<noteq> 0 \<and>
     memory_mmap e \<and> 0 \<le> memory_mlock e \<and> 0 \<le> map_dma e"

definition dm_works :: "vfio_env \<Rightarrow> bool" where
  "dm_works e \<longleftrightarrow> dm_opens e \<and> unmap_ok e (nat (sys_page_size e)) \<and>
     (\<forall>i<nat (sys_page_size e). ram_view e (Delay 250000000 # dm_held) (dm_page e) i = DM_CANARY)"

text \<open>
  A run that returns has this history and found every byte of the page as it was written, after
  the wait and with the mapping in place; one that fails stopped somewhere on the way to it,
  silently.
\<close>

definition dm_outcome :: "vfio_env \<Rightarrow> bool option \<Rightarrow> session \<Rightarrow> bool" where
  "dm_outcome e r t \<longleftrightarrow>
     (case r of
        None \<Rightarrow> \<not> dm_works e \<and> stdout t = [] \<and> suffix (log t) dm_trace
      | Some ok \<Rightarrow> dm_works e \<and> ok \<and> stdout t = dm_report e \<and> log t = dm_trace)"

lemma dm_unchanged_wp:
  "wp (dm_unchanged e) (\<lambda>b t. t = s \<and> (b \<longleftrightarrow>
     (\<forall>i<nat (sys_page_size e). ram_view e (log s) (ram s) i = DM_CANARY))) s"
proof -
  have "wp (all_m xs (\<lambda>i. do { b \<leftarrow> load_byte e i; State_Monad.return (b = DM_CANARY) }))
      (\<lambda>b t. t = s \<and> (b \<longleftrightarrow> (\<forall>i\<in>set xs. ram_view e (log s) (ram s) i = DM_CANARY))) s" for xs
  proof (induction xs)
    case (Cons x xs)
    then show ?case by (auto simp: wp_simps load_byte_def)
  qed (simp add: wp_return)
  from this[of "[0..<nat (sys_page_size e)]"] show ?thesis by (simp add: dm_unchanged_def Ball_def)
qed

lemma dm_setup_wp:
  "wp (dm_setup e) (\<lambda>b t. stdout t = [] \<and> suffix (log t) dm_held \<and> b = dm_opens e \<and>
     (b \<longrightarrow> log t = dm_held \<and> ram t = dm_page e)) listing_locals"
  by (auto simp: wp_simps dm_setup_def check_def open_container_def open_group_def attach_group_def
      configure_iommu_def dm_allocate_def map_iova_def store_ram_def listing_locals_def
      dm_held_def suffix_Cons dm_opens_def dm_page_def)

lemma dm_run: "wp (dm_main e) (dm_outcome e) listing_locals"
  unfolding dm_main_def wp_bind
proof (rule wp_mono[OF dm_setup_wp], elim conjE)
  fix b and s :: session
  assume s: "stdout s = []" "suffix (log s) dm_held" "b = dm_opens e"
    "b \<longrightarrow> log s = dm_held \<and> ram s = dm_page e"
  show "wp (if \<not> b then State_Monad.return None
      else do {
        nanosleep 250000000;
        unchanged \<leftarrow> dm_unchanged e;
        if \<not> unchanged \<or> \<not> unmap_ok e (nat (sys_page_size e)) then State_Monad.return None
        else do {
          emit (Release VfioMapping);
          print_lines (dm_report e);
          dm_close;
          State_Monad.return (Some True) } }) (dm_outcome e) s"
  proof (cases b)
    case False
    then show ?thesis
      using s by (simp add: wp_return dm_outcome_def dm_trace_def suffix_Cons dm_works_def)
  next
    case True
    have "wp (dm_unchanged e) (\<lambda>u. wp (if \<not> u \<or> \<not> unmap_ok e (nat (sys_page_size e)) then State_Monad.return None
        else do {
          emit (Release VfioMapping);
          print_lines (dm_report e);
          dm_close;
          State_Monad.return (Some True) }) (dm_outcome e)) (s\<lparr>log := Delay 250000000 # log s\<rparr>)"
      by (rule wp_mono[OF dm_unchanged_wp])
        (use s True in \<open>auto simp: wp_simps dm_outcome_def dm_close_def dm_trace_def suffix_Cons dm_works_def\<close>)
    then show ?thesis using True by (simp add: wp_simps nanosleep_def)
  qed
qed

text \<open>The history is that of a safe session that touches no register.\<close>

lemma dm_trace_safe:
  "always vfio_safe dm_trace" "released True True dm_trace" "writes dm_trace = []" "loads dm_trace = []"
proof -
  show "always vfio_safe dm_trace"
    by (simp add: dm_trace_def dm_held_def vfio_safe_def vfio_nested_def confined_def engines_on_def)
  then show "released True True dm_trace"
    by (simp add: released_def dm_trace_def dm_held_def engines_on_def)
qed (simp_all add: dm_trace_def dm_held_def)

end
