(* ===== verification/Listing_Properties.thy ===== *)
theory Listing_Properties
  imports Capability_Snapshot Resource_Layout Read_Status Dma_Map
begin

text \<open>
  The properties of the tools that store nothing in the card: the three read-only listings and
  the canary page.
\<close>

definition rs_listed :: "vfio_env \<Rightarrow> u32 \<Rightarrow> string list \<Rightarrow> bool option \<Rightarrow> session \<Rightarrow> bool" where
  "rs_listed e flags argv r t \<longleftrightarrow>
     (case rs_arguments argv of
        None \<Rightarrow> r = Some False \<and> t = listing_locals
      | Some extended_rings \<Rightarrow> listed e (rs_shown e flags extended_rings) r t)"

text \<open>
  C38. The three listings, on every host and whatever the card answers: they return, with
  success, exactly when the session can be opened (\<^verbatim>\<open>vfio_read_status\<close> fails at once on a wrong
  command line); they store nothing, stay inside the mapped BAR0 and leave everything
  released. Their reports are made of exactly the values the loads of the history returned:
  every named register with its value and the number of zero words of the scatter-gather
  tables; base, size and scratch register of every pool of every DSP under their own entries;
  the boot words before and after the wait, the zero words of the sixteen rings, the extended
  words and the DMA control.
\<close>

theorem listings_report:
  "wp (cs_main e) (listed e cs_shown) listing_locals \<and>
   wp (rl_main e) (listed e rl_shown) listing_locals \<and>
   wp (rs_main e flags argv) (rs_listed e flags argv) listing_locals"
proof (intro conjI)
  show "wp (rs_main e flags argv) (rs_listed e flags argv) listing_locals"
    using rs_tool.listing_spec
    by (cases "rs_arguments argv") (simp_all add: rs_main_def rs_listed_def wp_return wp_def)
qed (simp_all only: cs_main_def rl_main_def cs_tool.listing_spec rl_tool.listing_spec)

text \<open>
  C39. The canary page: a run returns, with success, exactly when the host lets it map and
  unmap the page and no byte of it changed while it was mapped; its history is then one fixed
  list, with everything acquired and released once, a wait of a quarter of a second while the
  page was mapped, and no register access; a run that fails stopped on the way through that
  history and printed nothing.
\<close>

theorem canary_page:
  "wp (dm_main e) (dm_outcome e) listing_locals \<and> always vfio_safe dm_trace \<and>
   released True True dm_trace \<and> writes dm_trace = [] \<and> loads dm_trace = []"
  by (intro conjI dm_run dm_trace_safe)

end
