(* ===== verification/Ring_Descriptors.thy ===== *)
theory Ring_Descriptors
  imports Vfio_Session
begin

text \<open>
  \<^verbatim>\<open>tools/vfio_ring_descriptors.c\<close>: publish five pages in the two rings of DSP 0, of any page size the
  host has, and look whether anything moves (experiment 001); with the DMA engine of DSP 0 enabled
  (002); with an empty ring (007); with one zero entry offered to the card (008).
\<close>

section \<open>State and register access\<close>

datatype ring_experiment = Exp001 | Exp002 | Exp007 | Exp008

record desc_session = session +
  descriptors_published :: bool
  readback_ok :: bool
  ready_ok :: bool
  canary_ok :: bool
  ring_state_ok :: bool
  restore_ok :: bool
  dma_modified :: bool
  dma_restore_ok :: bool
  dma_readbacks :: "u32 list"
  dma_write_count :: nat
  ring_pointer_writes :: nat
  doorbell_writes :: nat
  pointer_readback :: u32
  doorbell_readback :: u32
  pointer_after_wait :: u32
  doorbell_after_wait :: u32
  position_before :: u32
  position_after :: u32
  controls_modified :: bool
  reset_called :: bool
  reset_recovered :: bool

definition rd_locals :: desc_session where
  "rd_locals = \<lparr>log = [], container_fd = -1, group_fd = -1, device_fd = -1,
     container_set = False, dma_mapped = False, memory_ok = False, bar_ok = False,
     ram = (\<lambda>_. 0), exit_success = False, stdout = [],
     descriptors_published = False, readback_ok = False, ready_ok = False, canary_ok = False,
     ring_state_ok = False, restore_ok = False, dma_modified = False, dma_restore_ok = False,
     dma_readbacks = [0, 0, 0], dma_write_count = 0, ring_pointer_writes = 0, doorbell_writes = 0,
     pointer_readback = 0, doorbell_readback = 0, pointer_after_wait = 0, doorbell_after_wait = 0,
     position_before = 0, position_after = 0, controls_modified = False, reset_called = False,
     reset_recovered = False\<rparr>"

definition DMA_GLOBAL_DSP0 :: u32 where "DMA_GLOBAL_DSP0 = 3"
definition RESPONSE_CANARY :: u8 where "RESPONSE_CANARY = 0x5a"

definition rd_mmio_read32 :: "vfio_env \<Rightarrow> u32 \<Rightarrow> (desc_session, u32) state" where
  "rd_mmio_read32 e offset = bus_read (answer e) offset"

definition rd_mmio_write32 :: "u32 \<Rightarrow> u32 \<Rightarrow> (desc_session, unit) state" where
  "rd_mmio_write32 offset v = bus_write offset v"

definition rd_all_ring_words_zero :: "vfio_env \<Rightarrow> (desc_session, bool) state" where
  "rd_all_ring_words_zero e = scan_rings_zero (rd_mmio_read32 e)"

definition rd_all_dsps_ready :: "vfio_env \<Rightarrow> (desc_session, bool) state" where
  "rd_all_dsps_ready e = scan_ready (rd_mmio_read32 e)"

definition rd_write_descriptor :: "u32 \<Rightarrow> u64 \<Rightarrow> (desc_session, unit) state" where
  "rd_write_descriptor offset iova = store_address rd_mmio_write32 offset iova"

definition descriptor_matches :: "vfio_env \<Rightarrow> u32 \<Rightarrow> u64 \<Rightarrow> (desc_session, bool) state" where
  "descriptor_matches e offset iova =
     do { lo \<leftarrow> rd_mmio_read32 e offset;
          hi \<leftarrow> rd_mmio_read32 e (offset + 4);
          State_Monad.return (join_64 lo hi = iova) }"

definition rd_pages_unchanged :: "vfio_env \<Rightarrow> nat \<Rightarrow> (desc_session, bool) state" where
  "rd_pages_unchanged e page_size =
     and_m (all_m [0..<4] (\<lambda>page. all_m [0..<page_size] (\<lambda>byte. do {
              b \<leftarrow> load_byte e (page * page_size + byte);
              State_Monad.return (b = 0) })))
           (all_m [0..<page_size] (\<lambda>byte. do {
              b \<leftarrow> load_byte e (4 * page_size + byte);
              State_Monad.return (b = RESPONSE_CANARY) }))"

text \<open>The address of a page, and the word a field of a ring should hold.\<close>

definition desc_iova :: "nat \<Rightarrow> nat \<Rightarrow> u64" where
  "desc_iova page_size page = TEST_IOVA + of_nat page * of_nat page_size"

definition rd_expected :: "nat \<Rightarrow> nat \<Rightarrow> nat \<Rightarrow> nat \<Rightarrow> u32" where
  "rd_expected page_size dsp ring field =
     (if dsp = 0 \<and> ring = 0 \<and> field < 8 then
        (let iova = desc_iova page_size (field div 2) in
         if field mod 2 \<noteq> 0 then upper_32_bits iova else lower_32_bits iova)
      else if dsp = 0 \<and> ring = 1 \<and> field < 2 then
        (let iova = desc_iova page_size 4 in
         if field \<noteq> 0 then upper_32_bits iova else lower_32_bits iova)
      else 0)"

definition published_ring_state_matches :: "vfio_env \<Rightarrow> nat \<Rightarrow> (desc_session, bool) state" where
  "published_ring_state_matches e page_size =
     all_m [0..<8] (\<lambda>dsp. all_m [0..<2] (\<lambda>ring. all_m [0..<16] (\<lambda>field.
       read_is (rd_mmio_read32 e) (ring_base dsp ring + of_nat field * 4)
         (rd_expected page_size dsp ring field))))"

definition triggered_ring_state_matches :: "vfio_env \<Rightarrow> nat \<Rightarrow> (desc_session, bool) state" where
  "triggered_ring_state_matches e page_size =
     all_m [0..<8] (\<lambda>dsp. all_m [0..<2] (\<lambda>ring. all_m [0..<16] (\<lambda>field.
       if dsp = 0 \<and> ring = 0 \<and> 8 \<le> field \<and> field \<le> 10 then State_Monad.return True
       else read_is (rd_mmio_read32 e) (ring_base dsp ring + of_nat field * 4)
         (rd_expected page_size dsp ring field))))"

section \<open>The attempt\<close>

definition rd_arguments :: "string list \<Rightarrow> ring_experiment option" where
  "rd_arguments argv =
     (if length argv > 2 then None
      else if length argv = 2 then
        (if argv ! 1 = ''--experiment-002'' then Some Exp002
         else if argv ! 1 = ''--experiment-007'' then Some Exp007
         else if argv ! 1 = ''--experiment-008'' then Some Exp008
         else None)
      else Some Exp001)"

definition dma_experiment :: "ring_experiment \<Rightarrow> bool" where
  "dma_experiment x \<longleftrightarrow> x = Exp002 \<or> x = Exp007 \<or> x = Exp008"

definition page_size_ok :: "int \<Rightarrow> bool" where
  "page_size_ok page_size \<longleftrightarrow> \<not> (page_size \<le> 0 \<or> TEST_IOVA mod word_of_int page_size \<noteq> 0)"

definition rd_device_valid :: "vfio_env \<Rightarrow> ring_experiment \<Rightarrow> bool" where
  "rd_device_valid e x \<longleftrightarrow>
     \<not> device_info e < 0 \<and> device_is_pci e \<and> \<not> (x = Exp008 \<and> \<not> device_resets e) \<and> \<not> region_info e < 0 \<and>
     region_size e = BAR0_SIZE \<and> region_read e \<and> region_write e \<and> region_mmap e"

definition rd_fill :: "nat \<Rightarrow> (nat \<Rightarrow> u8) \<Rightarrow> nat \<Rightarrow> u8" where
  "rd_fill page_size m =
     memset (4 * page_size) RESPONSE_CANARY page_size (memset 0 0 (4 * page_size) m)"

definition rd_setup :: "vfio_env \<Rightarrow> ring_experiment \<Rightarrow> (desc_session, bool) state" where
  "rd_setup e x =
     and_m (check (page_size_ok (sys_page_size e)))
    (and_m (open_container e)
    (and_m (open_group e)
    (and_m (attach_group e)
    (and_m (configure_iommu e (word_of_int (sys_page_size e)))
    (and_m (allocate_memory e)
    (and_m (do { store_ram (rd_fill (nat (sys_page_size e))); check True })
    (and_m (map_iova e)
    (and_m (open_device e (rd_device_valid e x))
           (map_bar e)))))))))"

definition rd_precondition :: "vfio_env \<Rightarrow> ring_experiment \<Rightarrow> (desc_session, bool) state" where
  "rd_precondition e x =
     and_m (rd_all_ring_words_zero e)
    (and_m (rd_all_dsps_ready e)
           (if dma_experiment x then read_is (rd_mmio_read32 e) DMA_CONTROL DMA_COLD_RESET
            else State_Monad.return True))"

text \<open>Five page addresses to the descriptor words, and the loop that reads them back to its end.\<close>

definition put_descriptors :: "(nat \<Rightarrow> u64) \<Rightarrow> (desc_session, unit) state" where
  "put_descriptors iova =
     do { for_each [0..<4] (\<lambda>page. rd_write_descriptor (DSP0_CMD_BASE + of_nat page * 8) (iova page));
          rd_write_descriptor DSP0_RESP_BASE (iova 4) }"

definition check_descriptors :: "vfio_env \<Rightarrow> (nat \<Rightarrow> u64) \<Rightarrow> (desc_session, bool) state" where
  "check_descriptors e iova =
     do { ok \<leftarrow> fold_m (\<lambda>page ok. do {
            b \<leftarrow> descriptor_matches e (DSP0_CMD_BASE + of_nat page * 8) (iova page);
            State_Monad.return (if \<not> b then False else ok) }) [0..<4] True;
          b \<leftarrow> descriptor_matches e DSP0_RESP_BASE (iova 4);
          State_Monad.return (if \<not> b then False else ok) }"

definition rd_publish :: "vfio_env \<Rightarrow> nat \<Rightarrow> (desc_session, bool) state" where
  "rd_publish e page_size =
     do { put_descriptors (desc_iova page_size);
          modify (\<lambda>s. s\<lparr>descriptors_published := True\<rparr>);
          b \<leftarrow> check_descriptors e (desc_iova page_size);
          modify (\<lambda>s. s\<lparr>readback_ok := b\<rparr>);
          if \<not> b then State_Monad.return False
          else do {
            b \<leftarrow> published_ring_state_matches e page_size;
            modify (\<lambda>s. s\<lparr>ring_state_ok := b\<rparr>);
            State_Monad.return b } }"

definition rd_dma_step :: "vfio_env \<Rightarrow> nat \<Rightarrow> u32 \<Rightarrow> (desc_session, bool) state" where
  "rd_dma_step e k v =
     do { rd_mmio_write32 DMA_CONTROL v;
          modify (\<lambda>s. s\<lparr>dma_modified := True, dma_write_count := dma_write_count s + 1\<rparr>);
          r \<leftarrow> rd_mmio_read32 e DMA_CONTROL;
          modify (\<lambda>s. s\<lparr>dma_readbacks := (dma_readbacks s)[k := r]\<rparr>);
          State_Monad.return (r = v) }"

definition rd_start_dma :: "vfio_env \<Rightarrow> (desc_session, bool) state" where
  "rd_start_dma e =
     and_m (rd_dma_step e 0 DMA_RESET_GLOBAL)
    (and_m (rd_dma_step e 1 DMA_GLOBAL_ONLY)
           (rd_dma_step e 2 DMA_GLOBAL_DSP0))"

definition rd_empty_ring :: "vfio_env \<Rightarrow> (desc_session, bool) state" where
  "rd_empty_ring e =
     and_m (do { rd_mmio_write32 (DSP0_CMD_BASE + 0x24) 0;
                 modify (\<lambda>s. s\<lparr>doorbell_writes := doorbell_writes s + 1\<rparr>);
                 read_is (rd_mmio_read32 e) (DSP0_CMD_BASE + 0x24) 0 })
           (do { rd_mmio_write32 (DSP0_CMD_BASE + 0x20) 0;
                 modify (\<lambda>s. s\<lparr>ring_pointer_writes := ring_pointer_writes s + 1\<rparr>);
                 read_is (rd_mmio_read32 e) (DSP0_CMD_BASE + 0x20) 0 })"

definition rd_zero_entry :: "vfio_env \<Rightarrow> (desc_session, bool) state" where
  "rd_zero_entry e =
     do { v \<leftarrow> rd_mmio_read32 e (DSP0_CMD_BASE + 0x28);
          modify (\<lambda>s. s\<lparr>position_before := v\<rparr>);
          rd_mmio_write32 (DSP0_CMD_BASE + 0x24) 1;
          modify (\<lambda>s. s\<lparr>controls_modified := True, doorbell_writes := doorbell_writes s + 1\<rparr>);
          v \<leftarrow> rd_mmio_read32 e (DSP0_CMD_BASE + 0x24);
          modify (\<lambda>s. s\<lparr>doorbell_readback := v\<rparr>);
          rd_mmio_write32 (DSP0_CMD_BASE + 0x20) 1;
          modify (\<lambda>s. s\<lparr>ring_pointer_writes := ring_pointer_writes s + 1\<rparr>);
          v \<leftarrow> rd_mmio_read32 e (DSP0_CMD_BASE + 0x20);
          modify (\<lambda>s. s\<lparr>pointer_readback := v\<rparr>);
          State_Monad.return True }"

definition rd_exercise :: "vfio_env \<Rightarrow> ring_experiment \<Rightarrow> (desc_session, bool) state" where
  "rd_exercise e x =
     and_m (if dma_experiment x then rd_start_dma e else State_Monad.return True)
    (and_m (if x = Exp007 then rd_empty_ring e else State_Monad.return True)
           (if x = Exp008 then rd_zero_entry e else State_Monad.return True))"

definition rd_look :: "vfio_env \<Rightarrow> ring_experiment \<Rightarrow> nat \<Rightarrow> (desc_session, bool) state" where
  "rd_look e x page_size =
     (if x = Exp008 then do {
        v \<leftarrow> rd_mmio_read32 e (DSP0_CMD_BASE + 0x20);
        modify (\<lambda>s. s\<lparr>pointer_after_wait := v\<rparr>);
        v \<leftarrow> rd_mmio_read32 e (DSP0_CMD_BASE + 0x24);
        modify (\<lambda>s. s\<lparr>doorbell_after_wait := v\<rparr>);
        v \<leftarrow> rd_mmio_read32 e (DSP0_CMD_BASE + 0x28);
        modify (\<lambda>s. s\<lparr>position_after := v\<rparr>);
        triggered_ring_state_matches e page_size }
      else published_ring_state_matches e page_size)"

definition rd_verify :: "vfio_env \<Rightarrow> ring_experiment \<Rightarrow> nat \<Rightarrow> (desc_session, unit) state" where
  "rd_verify e x page_size =
     do { nanosleep 250000000;
          b \<leftarrow> rd_all_dsps_ready e;
          modify (\<lambda>s. s\<lparr>ready_ok := b\<rparr>);
          b \<leftarrow> rd_pages_unchanged e page_size;
          modify (\<lambda>s. s\<lparr>canary_ok := b\<rparr>);
          b \<leftarrow> rd_look e x page_size;
          modify (\<lambda>s. s\<lparr>ring_state_ok := b\<rparr>);
          stop \<leftarrow> interrupted e;
          bad \<leftarrow> gets (\<lambda>s. stop \<or> \<not> ready_ok s \<or> \<not> canary_ok s \<or> \<not> ring_state_ok s);
          if bad then State_Monad.return () else modify (\<lambda>s. s\<lparr>exit_success := True\<rparr>) }"

definition rd_run :: "vfio_env \<Rightarrow> ring_experiment \<Rightarrow> nat \<Rightarrow> (desc_session, unit) state" where
  "rd_run e x page_size =
     do { ok \<leftarrow> and_m (rd_publish e page_size) (rd_exercise e x);
          if ok then rd_verify e x page_size else State_Monad.return () }"

definition rd_attempt :: "vfio_env \<Rightarrow> ring_experiment \<Rightarrow> (desc_session, unit) state" where
  "rd_attempt e x =
     do { ok \<leftarrow> and_m (rd_setup e x) (rd_precondition e x);
          if ok then rd_run e x (nat (sys_page_size e)) else State_Monad.return () }"

section \<open>The cleanup label\<close>

definition rd_restore_dma :: "vfio_env \<Rightarrow> (desc_session, unit) state" where
  "rd_restore_dma e = when_m (\<lambda>s. dma_modified s \<and> bar_ok s)
     (do { rd_mmio_write32 DMA_CONTROL DMA_COLD_RESET;
           modify (\<lambda>s. s\<lparr>dma_write_count := dma_write_count s + 1\<rparr>);
           b \<leftarrow> read_is (rd_mmio_read32 e) DMA_CONTROL DMA_COLD_RESET;
           modify (\<lambda>s. s\<lparr>dma_restore_ok := b\<rparr>);
           if b then State_Monad.return () else fail })"

definition rd_restore_controls :: "(desc_session, unit) state" where
  "rd_restore_controls = when_m (\<lambda>s. controls_modified s \<and> bar_ok s)
     (do { rd_mmio_write32 (DSP0_CMD_BASE + 0x24) 0;
           modify (\<lambda>s. s\<lparr>doorbell_writes := doorbell_writes s + 1\<rparr>);
           rd_mmio_write32 (DSP0_CMD_BASE + 0x20) 0;
           modify (\<lambda>s. s\<lparr>ring_pointer_writes := ring_pointer_writes s + 1\<rparr>) })"

definition rd_restore_descriptors :: "vfio_env \<Rightarrow> (desc_session, unit) state" where
  "rd_restore_descriptors e = when_m (\<lambda>s. descriptors_published s \<and> bar_ok s)
     (do { put_descriptors (\<lambda>_. 0);
           b \<leftarrow> check_descriptors e (\<lambda>_. 0);
           modify (\<lambda>s. s\<lparr>restore_ok := b\<rparr>);
           if b then State_Monad.return () else fail })"

definition rd_reset :: "vfio_env \<Rightarrow> ring_experiment \<Rightarrow> (desc_session, unit) state" where
  "rd_reset e x = when_m (\<lambda>s. x = Exp008 \<and> \<not> device_fd s < 0 \<and> bar_ok s)
     (do { modify (\<lambda>s. s\<lparr>reset_called := True\<rparr>);
           ok \<leftarrow> reset_device e;
           b \<leftarrow> and_m (check ok)
               (and_m (rd_all_ring_words_zero e)
               (and_m (read_is (rd_mmio_read32 e) DMA_CONTROL DMA_COLD_RESET)
                      (rd_all_dsps_ready e)));
           modify (\<lambda>s. s\<lparr>reset_recovered := b\<rparr>);
           if b then State_Monad.return () else fail })"

definition rd_cleanup :: "vfio_env \<Rightarrow> ring_experiment \<Rightarrow> (desc_session, unit) state" where
  "rd_cleanup e x =
     do { rd_restore_dma e;
          rd_restore_controls;
          rd_restore_descriptors e;
          rd_reset e x }"

section \<open>The report\<close>

definition rd_name :: "ring_experiment \<Rightarrow> string" where
  "rd_name x = (case x of Exp001 \<Rightarrow> ''001-ring-descriptors'' | Exp002 \<Rightarrow> ''002-dma-engine'' |
     Exp007 \<Rightarrow> ''007-empty-ring-activation'' | Exp008 \<Rightarrow> ''008-zero-entry-fetch'')"

definition json_optional :: "string \<Rightarrow> bool \<Rightarrow> bool \<Rightarrow> string" where
  "json_optional key applies b =
     (if applies then json_flag key b else ''  \"'' @ key @ ''\": null,'')"

definition rd_report_lines :: "ring_experiment \<Rightarrow> bool \<Rightarrow> desc_session \<Rightarrow> string list" where
  "rd_report_lines x stop s =
     [''{'',
      ''  \"experiment\": \"'' @ rd_name x @ ''\",'',
      json_number ''mapped_pages'' 5,
      json_flag ''descriptors_published'' (descriptors_published s),
      json_number ''descriptor_words_written'' (if descriptors_published s then 10 else 0),
      json_number ''ring_pointer_writes'' (ring_pointer_writes s),
      json_number ''doorbell_writes'' (doorbell_writes s),
      json_word ''pointer_readback'' (pointer_readback s),
      json_word ''doorbell_readback'' (doorbell_readback s),
      json_word ''pointer_after_wait'' (pointer_after_wait s),
      json_word ''doorbell_after_wait'' (doorbell_after_wait s),
      json_word ''position_before'' (position_before s),
      json_word ''position_after'' (position_after s),
      json_number ''dma_control_writes'' (dma_write_count s),
      json_word ''dma_readback_reset_global'' (dma_readbacks s ! 0),
      json_word ''dma_readback_global_only'' (dma_readbacks s ! 1),
      json_word ''dma_readback_global_dsp0'' (dma_readbacks s ! 2),
      json_optional ''dma_restored_to_cold_reset'' (dma_experiment x) (dma_restore_ok s),
      json_flag ''descriptor_readback_ok'' (readback_ok s),
      json_flag ''all_dsps_ready'' (ready_ok s),
      json_flag ''pages_unchanged'' (canary_ok s),
      json_flag ''published_ring_state_unchanged'' (ring_state_ok s),
      json_flag ''descriptors_restored_to_zero'' (restore_ok s),
      json_flag ''vfio_device_reset_called'' (reset_called s),
      json_optional ''reset_recovered'' (x = Exp008) (reset_recovered s),
      json_flag ''interrupted'' stop,
      ''  \"success\": '' @ (if exit_success s then ''true'' else ''false''),
      ''}'']"

definition rd_report :: "vfio_env \<Rightarrow> ring_experiment \<Rightarrow> (desc_session, unit) state" where
  "rd_report e x =
     do { stop \<leftarrow> interrupted e;
          modify (\<lambda>s. s\<lparr>stdout := stdout s @ rd_report_lines x stop s\<rparr>) }"

definition rd_main :: "vfio_env \<Rightarrow> string list \<Rightarrow> (desc_session, bool) state" where
  "rd_main e argv =
     (case rd_arguments argv of
        None \<Rightarrow> State_Monad.return False
      | Some x \<Rightarrow>
          do { rd_attempt e x;
               rd_cleanup e x;
               teardown e (5 * nat (sys_page_size e));
               rd_report e x;
               gets exit_success })"

definition rd_final :: "vfio_env \<Rightarrow> string list \<Rightarrow> desc_session" where
  "rd_final e argv = snd (run_state (rd_main e argv) rd_locals)"

end
