(* ===== verification/Dsp0_Stages.thy ===== *)
theory Dsp0_Stages
  imports Card_Session
begin

text \<open>
  What the two single-DSP experiments (\<^verbatim>\<open>tools/vfio_ring_descriptors.c\<close>,
  \<^verbatim>\<open>tools/vfio_query_command.c\<close>) share: the ten descriptor words of DSP 0 as data, scans that leave
  words out, and stages of a run, each with the stores it makes and the loads a success rests on.
\<close>

section \<open>The descriptor words of DSP 0\<close>

text \<open>Four pages of the command ring and one page of the response ring.\<close>

definition dsp0_words :: "(nat \<Rightarrow> u64) \<Rightarrow> (u32 \<times> u32) list" where
  "dsp0_words iova =
     concat (map (\<lambda>p. [(ring_reg 0 0 (2 * p), lower_32_bits (iova p)),
                       (ring_reg 0 0 (2 * p + 1), upper_32_bits (iova p))]) [0..<4]) @
     [(ring_reg 0 1 0, lower_32_bits (iova 4)), (ring_reg 0 1 1, upper_32_bits (iova 4))]"

definition words_seen :: "(u32 \<times> u32) list \<Rightarrow> (u32 \<times> (u32 \<Rightarrow> bool)) set" where
  "words_seen ws = (\<lambda>(a, x). (a, \<lambda>v. v = x)) ` set ws"

lemma words_seen_append: "words_seen (xs @ ys) = words_seen xs \<union> words_seen ys"
  by (simp add: words_seen_def image_Un)

lemma words_seen_two: "words_seen [(a, x), (b, y)] = {(a, \<lambda>v. v = x), (b, \<lambda>v. v = y)}"
  by (simp add: words_seen_def)

lemma words_seen_concat: "words_seen (concat (map f xs)) = (\<Union>x\<in>set xs. words_seen (f x))"
proof (induction xs)
  case Nil
  show ?case by (simp add: words_seen_def)
next
  case (Cons x xs)
  then show ?case by (simp add: words_seen_append)
qed

lemma dsp0_resp_regs:
  "DSP0_RESP_BASE = ring_reg 0 1 0" "DSP0_RESP_BASE + 4 = ring_reg 0 1 1"
  "DSP0_RESP_BASE + 0x20 = ring_reg 0 1 8" "DSP0_RESP_BASE + 0x24 = ring_reg 0 1 9"
  "DSP0_RESP_BASE + 0x28 = ring_reg 0 1 10"
  by (simp_all add: DSP0_RESP_BASE_def ring_reg_def ring_addr_def)

lemma resp_second: "ring_reg 0 1 0 + 4 = ring_reg 0 1 1"
  using dsp0_resp_regs(1,2) by simp

lemma dsp0_cmd_regs:
  "DSP0_CMD_BASE + of_nat p * 8 = ring_reg 0 0 (2 * p)"
  "DSP0_CMD_BASE + of_nat p * 8 + 4 = ring_reg 0 0 (2 * p + 1)"
  "DSP0_CMD_BASE + 0x20 = ring_reg 0 0 8" "DSP0_CMD_BASE + 0x24 = ring_reg 0 0 9"
  "DSP0_CMD_BASE + 0x28 = ring_reg 0 0 10"
  by (simp_all add: dsp0_bases ring_base_reg ring_reg_words)

lemma dsp0_words_regs:
  "(a, v) \<in> set (dsp0_words iova) \<Longrightarrow> (\<exists>w<8. a = ring_reg 0 0 w) \<or> (\<exists>w<2. a = ring_reg 0 1 w)"
  by (force simp: dsp0_words_def)

lemma dsp0_words_shadow: "map_of (rev (dsp0_words iova)) 0x2200 = None"
proof -
  have "a \<noteq> 0x2200" if "(a, v) \<in> set (dsp0_words iova)" for a v
    using dsp0_words_regs[OF that] ring_reg_not_global(1)[of 0 _ _ "0x2200"] by auto
  then show ?thesis by (force simp: map_of_eq_None_iff)
qed

section \<open>Scans\<close>

text \<open>Two scans that are both made, and a loop that goes on after a failure.\<close>

definition both_m :: "('s, bool) state \<Rightarrow> bool \<Rightarrow> ('s, bool) state" where
  "both_m m ok = do { b \<leftarrow> m; State_Monad.return (if \<not> b then False else ok) }"

lemma checks_fold:
  assumes "\<And>x. x \<in> set xs \<Longrightarrow> checks tr rest (f x) (E x)"
  shows "\<exists>rs. tr (snd (run_state (fold_m (\<lambda>x. both_m (f x)) xs ok) s)) = rs @ tr s \<and> reads rs \<and>
     rest (snd (run_state (fold_m (\<lambda>x. both_m (f x)) xs ok) s)) = rest s \<and>
     (fst (run_state (fold_m (\<lambda>x. both_m (f x)) xs ok) s) \<longrightarrow> ok \<and> seen (\<Union>x\<in>set xs. E x) rs)"
  using assms
proof (induction xs arbitrary: ok s)
  case Nil
  show ?case by (rule exI[of _ "[]"]) (simp add: seen_def)
next
  case (Cons x xs)
  obtain b t where f: "run_state (f x) s = (b, t)" by fastforce
  have "checks tr rest (f x) (E x)" by (rule Cons.prems) simp
  then obtain rs where rs: "tr t = rs @ tr s" "reads rs" "rest t = rest s" "b \<longrightarrow> seen (E x) rs"
    by (rule checksD[OF _ f])
  let ?m = "fold_m (\<lambda>x. both_m (f x)) xs (if \<not> b then False else ok)"
  obtain c u where m: "run_state ?m t = (c, u)" by fastforce
  have "\<exists>qs. tr u = qs @ tr t \<and> reads qs \<and> rest u = rest t \<and>
      (c \<longrightarrow> (if \<not> b then False else ok) \<and> seen (\<Union>x\<in>set xs. E x) qs)"
    using Cons.IH[of "if \<not> b then False else ok" t] Cons.prems m by simp
  then obtain qs where qs: "tr u = qs @ tr t" "reads qs" "rest u = rest t"
    "c \<longrightarrow> b \<and> ok \<and> seen (\<Union>x\<in>set xs. E x) qs" by (auto split: if_splits)
  have "run_state (fold_m (\<lambda>x. both_m (f x)) (x # xs) ok) s = (c, u)"
    using f m by (simp add: both_m_def)
  moreover have "c \<longrightarrow> ok \<and> seen (\<Union>x\<in>set (x # xs). E x) (qs @ rs)"
  proof
    assume c
    then have "ok" "seen (E x) (qs @ rs)" "seen (\<Union>x\<in>set xs. E x) (qs @ rs)"
      using rs(4) qs(4) by (auto elim!: seen_mono)
    then show "ok \<and> seen (\<Union>x\<in>set (x # xs). E x) (qs @ rs)" by (simp add: seen_union)
  qed
  ultimately show ?case using rs qs by (intro exI[of _ "qs @ rs"]) simp
qed

lemma checks_fold_both:
  assumes "\<And>x. x \<in> set xs \<Longrightarrow> checks tr rest (f x) (E x)" "checks tr rest m F"
  shows "checks tr rest (do { ok \<leftarrow> fold_m (\<lambda>x. both_m (f x)) xs True; both_m m ok }) ((\<Union>x\<in>set xs. E x) \<union> F)"
  unfolding checks_def
proof
  fix s
  obtain c t where f: "run_state (fold_m (\<lambda>x. both_m (f x)) xs True) s = (c, t)" by fastforce
  obtain rs where rs: "tr t = rs @ tr s" "reads rs" "rest t = rest s" "c \<longrightarrow> seen (\<Union>x\<in>set xs. E x) rs"
    using checks_fold[of xs tr rest f E True s] assms(1) f by auto
  obtain b u where m: "run_state m t = (b, u)" by fastforce
  obtain qs where qs: "tr u = qs @ tr t" "reads qs" "rest u = rest t" "b \<longrightarrow> seen F qs"
    by (rule checksD[OF assms(2) m])
  let ?p = "do { ok \<leftarrow> fold_m (\<lambda>x. both_m (f x)) xs True; both_m m ok }"
  have p: "run_state ?p s = (if \<not> b then False else c, u)" using f m by (simp add: both_m_def)
  have "b \<and> c \<longrightarrow> seen ((\<Union>x\<in>set xs. E x) \<union> F) (qs @ rs)"
    using rs(4) qs(4) by (auto simp: seen_union elim!: seen_mono)
  then show "\<exists>rs. tr (snd (run_state ?p s)) = rs @ tr s \<and> reads rs \<and> rest (snd (run_state ?p s)) = rest s \<and>
      (fst (run_state ?p s) \<longrightarrow> seen ((\<Union>x\<in>set xs. E x) \<union> F) rs)"
    using rs qs p by (intro exI[of _ "qs @ rs"]) simp
qed

context mmio_port
begin

lemma stores_dsp0:
  "stores tr rest (do {
     for_each [0..<4] (\<lambda>p. store_address wr (DSP0_CMD_BASE + of_nat p * 8) (iova p));
     store_address wr DSP0_RESP_BASE (iova 4) }) (dsp0_words iova)"
proof -
  have "stores tr rest (do {
     for_each [0..<4] (\<lambda>p. store_address wr (DSP0_CMD_BASE + of_nat p * 8) (iova p));
     store_address wr DSP0_RESP_BASE (iova 4) })
     (concat (map (\<lambda>p. [(DSP0_CMD_BASE + of_nat p * 8, lower_32_bits (iova p)),
        (DSP0_CMD_BASE + of_nat p * 8 + 4, upper_32_bits (iova p))]) [0..<4]) @
      [(DSP0_RESP_BASE, lower_32_bits (iova 4)), (DSP0_RESP_BASE + 4, upper_32_bits (iova 4))])"
    by (intro stores_intros stores_address)
  then show ?thesis by (simp only: dsp0_words_def dsp0_cmd_regs dsp0_resp_regs resp_second ring_reg_words(5))
qed

end

section \<open>Stages\<close>

text \<open>
  From \<open>s\<close> to \<open>t\<close> the run stored \<open>ws\<close> and kept its handles; if \<open>t\<close> stands for a success then \<open>s\<close> did,
  and what was loaded in between includes \<open>E\<close>.
\<close>

definition advanced :: "(u32 \<times> u32) list \<Rightarrow> (u32 \<times> (u32 \<Rightarrow> bool)) set \<Rightarrow>
    'a session_scheme \<Rightarrow> 'a session_scheme \<Rightarrow> bool" where
  "advanced ws E s t \<longleftrightarrow> (\<exists>evs. log t = evs @ log s \<and> writes evs = ws \<and>
     (exit_success t \<longrightarrow> exit_success s \<and> seen E evs)) \<and> same_handles s t"

lemma advanced_refl: "advanced [] {} s s"
  by (simp add: advanced_def same_handles_def seen_def)

lemma advancedI:
  "log t = evs @ log s \<Longrightarrow> writes evs = ws \<Longrightarrow> (exit_success t \<Longrightarrow> exit_success s \<and> seen E evs) \<Longrightarrow>
     same_handles s t \<Longrightarrow> advanced ws E s t"
  unfolding advanced_def by blast

lemma advanced_trans:
  assumes "advanced xs A s t" "advanced ys B t u"
  shows "advanced (xs @ ys) (A \<union> B) s u"
proof -
  obtain h where h: "log t = h @ log s" "writes h = xs" "exit_success t \<Longrightarrow> exit_success s \<and> seen A h"
    using assms(1) by (auto simp: advanced_def)
  obtain k where k: "log u = k @ log t" "writes k = ys" "exit_success u \<Longrightarrow> exit_success t \<and> seen B k"
    using assms(2) by (auto simp: advanced_def)
  show ?thesis
  proof (rule advancedI)
    show "log u = (k @ h) @ log s" using h(1) k(1) by simp
    show "writes (k @ h) = xs @ ys" using h(2) k(2) by (simp add: writes_append)
    show "same_handles s u" using assms by (simp add: advanced_def same_handles_def)
    assume "exit_success u"
    then show "exit_success s \<and> seen (A \<union> B) (k @ h)"
      using h(3) k(3) by (auto simp: seen_union elim!: seen_mono)
  qed
qed

lemma advanced_writes: "advanced ws E s t \<Longrightarrow> writes (log t) = writes (log s) @ ws"
  by (auto simp: advanced_def writes_append)

end
