(* ===== verification/Ring_Descriptors_Run.thy ===== *)
theory Ring_Descriptors_Run
  imports Ring_Descriptors Dsp0_Stages
begin

text \<open>
  What \<^verbatim>\<open>tools/vfio_ring_descriptors.c\<close> stores in each of its four experiments, what its exit status 0
  vouches for, and that every session ends with the engine off and everything released.
\<close>

abbreviation "rd_rest \<equiv> \<lambda>s :: desc_session. s\<lparr>log := []\<rparr>"

interpretation rd_port: mmio_port "rd_mmio_read32 e" rd_mmio_write32 log rd_rest "answer e" for e
  by unfold_locales (simp_all add: rd_mmio_read32_def rd_mmio_write32_def)

section \<open>The stores and the evidence, as data\<close>

definition dma_schedule :: "(u32 \<times> u32) list" where
  "dma_schedule =
     [(DMA_CONTROL, DMA_RESET_GLOBAL), (DMA_CONTROL, DMA_GLOBAL_ONLY), (DMA_CONTROL, DMA_GLOBAL_DSP0)]"

definition rd_schedule :: "ring_experiment \<Rightarrow> (u32 \<times> u32) list" where
  "rd_schedule x = (case x of Exp001 \<Rightarrow> []
     | Exp002 \<Rightarrow> dma_schedule
     | Exp007 \<Rightarrow> dma_schedule @ [(ring_reg 0 0 9, 0), (ring_reg 0 0 8, 0)]
     | Exp008 \<Rightarrow> dma_schedule @ [(ring_reg 0 0 9, 1), (ring_reg 0 0 8, 1)])"

text \<open>What the cleanup stores after \<open>k\<close> stores of the schedule.\<close>

definition rd_undo :: "ring_experiment \<Rightarrow> nat \<Rightarrow> (u32 \<times> u32) list" where
  "rd_undo x k =
     (if 0 < k then [(DMA_CONTROL, DMA_COLD_RESET)] else []) @
     (if x = Exp008 \<and> 3 < k then [(ring_reg 0 0 9, 0), (ring_reg 0 0 8, 0)] else []) @
     dsp0_words (\<lambda>_. 0)"

definition rd_rings_seen :: "ring_experiment \<Rightarrow> nat \<Rightarrow> (u32 \<times> (u32 \<Rightarrow> bool)) set" where
  "rd_rings_seen x n = {(ring_reg d r w, \<lambda>v. v = rd_expected n d r w) | d r w.
     d < 8 \<and> r < 2 \<and> w < 16 \<and> \<not> (x = Exp008 \<and> d = 0 \<and> r = 0 \<and> 8 \<le> w \<and> w \<le> 10)}"

definition rd_cold_seen :: "(u32 \<times> (u32 \<Rightarrow> bool)) set" where
  "rd_cold_seen = rings_seen (\<lambda>_ _ _ v. v = 0) \<union> ({(DMA_CONTROL, \<lambda>v. v = DMA_COLD_RESET)} \<union> ready_seen)"

lemma rd_published_checks: "checks log rd_rest (published_ring_state_matches e n) (rd_rings_seen Exp001 n)"
  using rd_port.checks_rings_but[where skip = "\<lambda>_ _ _. False" and x = "rd_expected n"]
  by (simp add: published_ring_state_matches_def rd_rings_seen_def)

lemma rd_triggered_checks: "checks log rd_rest (triggered_ring_state_matches e n) (rd_rings_seen Exp008 n)"
  using rd_port.checks_rings_but[where skip = "\<lambda>d r w. d = 0 \<and> r = 0 \<and> 8 \<le> w \<and> w \<le> 10" and x = "rd_expected n"]
  by (simp add: triggered_ring_state_matches_def rd_rings_seen_def)

lemma descriptor_checks:
  "checks log rd_rest (descriptor_matches e a x) {(a, \<lambda>v. v = lower_32_bits x), (a + 4, \<lambda>v. v = upper_32_bits x)}"
  unfolding descriptor_matches_def by (rule rd_port.checks_read_address)

lemma rd_descriptors_checks: "checks log rd_rest (check_descriptors e f) (words_seen (dsp0_words f))"
proof -
  have eq: "words_seen (dsp0_words f) =
      (\<Union>p\<in>set [0..<4]. {(DSP0_CMD_BASE + of_nat p * 8, \<lambda>v. v = lower_32_bits (f p)),
        (DSP0_CMD_BASE + of_nat p * 8 + 4, \<lambda>v. v = upper_32_bits (f p))}) \<union>
      {(DSP0_RESP_BASE, \<lambda>v. v = lower_32_bits (f 4)), (DSP0_RESP_BASE + 4, \<lambda>v. v = upper_32_bits (f 4))}"
    unfolding dsp0_words_def words_seen_append words_seen_concat words_seen_two dsp0_cmd_regs(1,2)
      dsp0_resp_regs(1,2) resp_second ring_reg_words(5) ..
  show ?thesis
    unfolding check_descriptors_def both_m_def[symmetric] eq
    by (rule checks_fold_both) (rule descriptor_checks)+
qed

lemma rd_stores_put: "stores log rd_rest (put_descriptors f) (dsp0_words f)"
  unfolding put_descriptors_def rd_write_descriptor_def by (rule rd_port.stores_dsp0)

section \<open>Stages of the schedule\<close>

text \<open>Inside the session, with the rings published and \<open>k\<close> stores of the schedule made.\<close>

definition rd_flags :: "ring_experiment \<Rightarrow> nat \<Rightarrow> desc_session \<Rightarrow> bool" where
  "rd_flags x k s \<longleftrightarrow> descriptors_published s \<and> (dma_modified s \<longleftrightarrow> 0 < k) \<and>
     (controls_modified s \<longleftrightarrow> x = Exp008 \<and> 3 < k)"

definition rd_stage :: "ring_experiment \<Rightarrow> nat \<Rightarrow> nat \<Rightarrow> desc_session \<Rightarrow> bool" where
  "rd_stage x n k s \<longleftrightarrow> inside whole s \<and> rd_flags x k s \<and> k \<le> length (rd_schedule x) \<and> \<not> (x = Exp008 \<and> k = 4) \<and>
     writes (log s) = dsp0_words (desc_iova n) @ take k (rd_schedule x)"

definition rd_same :: "desc_session \<Rightarrow> desc_session \<Rightarrow> bool" where
  "rd_same s t \<longleftrightarrow> same_handles s t \<and> descriptors_published t = descriptors_published s \<and>
     dma_modified t = dma_modified s \<and> controls_modified t = controls_modified s"

lemma inside_same: "same_handles s t \<Longrightarrow> inside S s \<Longrightarrow> session_world S (log t) \<Longrightarrow> inside S t"
proof -
  assume h: "same_handles s t" and "inside S s" "session_world S (log t)"
  moreover have "owned t = owned s" by (rule owned_cong) (use h in \<open>simp_all only: same_handles_def\<close>)
  ultimately show "inside S t" by (simp add: inside_def)
qed

lemma rd_stage_local:
  assumes "rd_stage x n k s" "rd_same s t" "log t = log s"
  shows "rd_stage x n k t"
  using assms inside_same[of s t whole] by (simp add: rd_stage_def rd_flags_def rd_same_def inside_def)

lemma rd_stage_modify:
  assumes "\<And>s. rd_same s (f s)" "\<And>s. log (f s) = log s"
  shows "preserves (rd_stage x n k) (modify f)"
  using rd_stage_local[OF _ assms] by (simp add: preserves_def wp_modify)

lemma rd_stage_event:
  assumes "rd_stage x n k s" "session_world whole (ev # log s)" "writes (ev # log s) = writes (log s)"
  shows "rd_stage x n k (s\<lparr>log := ev # log s\<rparr>)"
  using assms by (simp add: rd_stage_def rd_flags_def inside_def owned_update)

lemma rd_stage_steps [preserves_intros]:
  "in_bar a \<Longrightarrow> preserves (rd_stage x n k) (bus_read hw a)"
  "preserves (rd_stage x n k) (nanosleep m)"
  "preserves (rd_stage x n k) (interrupted e)"
  "preserves (rd_stage x n k) (load_byte e i)"
proof -
  have w: "session_world whole (log s)" if "rd_stage x n k s" for s
    using that by (simp add: rd_stage_def inside_def)
  have bar: "BarMap \<in> whole" by (simp add: whole_def)
  show "in_bar a \<Longrightarrow> preserves (rd_stage x n k) (bus_read hw a)"
    unfolding preserves_def wp_bus_read
    by (intro allI impI rd_stage_event) (simp_all add: w world_read bar)
  show "preserves (rd_stage x n k) (nanosleep m)"
    unfolding preserves_def nanosleep_def wp_emit
    by (intro allI impI rd_stage_event) (simp_all add: w world_same)
qed (simp_all add: preserves_def wp_simps interrupted_def load_byte_def)

lemma rd_stage_rd: "keeps_rd (rd_stage x n k) (rd_mmio_read32 e)"
  by (simp add: keeps_rd_def rd_mmio_read32_def rd_stage_steps)

lemmas rd_keeps = preserves_scan_rings[OF rd_stage_rd] preserves_scan_ready[OF rd_stage_rd]
  preserves_read_is[OF rd_stage_rd] keeps_rdD[OF rd_stage_rd]

lemma rd_stage_write:
  assumes "rd_stage x n k s" "k < length (rd_schedule x)" "rd_schedule x ! k = (a, v)" "in_bar a"
    and "same_handles s t" "rd_flags x (Suc k) t" "\<not> (x = Exp008 \<and> Suc k = 4)" "log t = Wr a v # log s"
  shows "rd_stage x n (Suc k) t"
proof -
  have "session_world whole (log t)"
    using assms(1,4,8) by (simp add: rd_stage_def inside_def world_write whole_def)
  moreover have "inside whole s" using assms(1) by (simp add: rd_stage_def)
  ultimately have "inside whole t" by (intro inside_same[OF assms(5)])
  then show ?thesis
    using assms by (simp add: rd_stage_def take_Suc_conv_app_nth)
qed

text \<open>Besides, no step before the verdict changes the exit status or the memory.\<close>

definition rd_kept :: "bool \<Rightarrow> (nat \<Rightarrow> u8) \<Rightarrow> history \<Rightarrow> desc_session \<Rightarrow> bool" where
  "rd_kept b m h s \<longleftrightarrow> exit_success s = b \<and> ram s = m \<and> extends h s"

lemma rd_kept_modify:
  "(\<And>s. exit_success (f s) = exit_success s) \<Longrightarrow> (\<And>s. ram (f s) = ram s) \<Longrightarrow>
     (\<And>s. log (f s) = log s) \<Longrightarrow> preserves (rd_kept b m h) (modify f)"
  by (simp add: preserves_def wp_modify rd_kept_def extends_def)

lemma rd_kept_steps [preserves_intros]:
  "preserves (rd_kept b m h) (bus_read hw a)" "preserves (rd_kept b m h) (bus_write a v)"
  by (auto simp: preserves_def wp_simps rd_kept_def extends_def)

lemma rd_kept_run:
  "preserves (rd_kept b m h) (rd_publish e n)" "preserves (rd_kept b m h) (rd_exercise e x)"
  unfolding rd_publish_def put_descriptors_def check_descriptors_def descriptor_matches_def
    rd_write_descriptor_def store_address_def published_ring_state_matches_def read_is_def rd_exercise_def
    rd_start_dma_def rd_dma_step_def rd_empty_ring_def rd_zero_entry_def rd_mmio_read32_def rd_mmio_write32_def
  by (intro preserves_intros rd_kept_modify; simp)+

section \<open>The attempt\<close>

lemma rd_setup_to: "setup_to {} {} (rd_setup e x) whole"
  unfolding rd_setup_def whole_def by (rule setup_intros | simp)+

lemma rd_precondition_keeps: "preserves (idle whole) (rd_precondition e x)"
proof -
  have rd: "keeps_rd (idle whole) (rd_mmio_read32 e)"
    unfolding keeps_rd_def rd_mmio_read32_def by (intro allI impI idle_read) simp_all
  show ?thesis
    unfolding rd_precondition_def rd_all_ring_words_zero_def rd_all_dsps_ready_def
    by (intro preserves_intros preserves_scan_rings[OF rd] preserves_scan_ready[OF rd]
        preserves_read_is[OF rd]) simp_all
qed

text \<open>What the baseline check of each experiment has seen.\<close>

definition rd_gate_seen :: "ring_experiment \<Rightarrow> (u32 \<times> (u32 \<Rightarrow> bool)) set" where
  "rd_gate_seen x = rings_seen (\<lambda>_ _ _ v. v = 0) \<union> (ready_seen \<union>
     (if dma_experiment x then {(DMA_CONTROL, \<lambda>v. v = DMA_COLD_RESET)} else {}))"

lemma rd_precondition_checks: "checks log rd_rest (rd_precondition e x) (rd_gate_seen x)"
  unfolding rd_precondition_def rd_all_ring_words_zero_def rd_all_dsps_ready_def rd_gate_seen_def
  by (intro checks_and_m rd_port.checks_rings rd_port.checks_ready)
    (auto intro: rd_port.checks_read_is checks_true)

text \<open>Before anything is published.\<close>

definition rd_unstarted :: "desc_session \<Rightarrow> bool" where
  "rd_unstarted s \<longleftrightarrow> session_ok s \<and> \<not> descriptors_published s \<and> \<not> dma_modified s \<and>
     \<not> controls_modified s \<and> writes (log s) = [] \<and> \<not> exit_success s"

lemma rd_locals_ok: "rd_unstarted rd_locals" "owned rd_locals = {}"
proof -
  have f: "fresh_session rd_locals" by (simp add: fresh_session_def rd_locals_def)
  show "rd_unstarted rd_locals"
    using world_empty[OF f] by (simp add: rd_unstarted_def) (simp add: rd_locals_def)
  show "owned rd_locals = {}"
    by (rule set_eqI, rename_tac x, case_tac x) (simp_all add: owns_iff rd_locals_def)
qed

lemma rd_more:
  fixes s t :: desc_session
  assumes "session.more t = session.more s"
  shows "descriptors_published t = descriptors_published s" "dma_modified t = dma_modified s"
    "controls_modified t = controls_modified s"
  using assms by (cases s; cases t; simp)+

lemma rd_setup_ram:
  "wp (rd_setup e x) (\<lambda>ok t. ok \<longrightarrow> ram t = rd_fill (nat (sys_page_size e)) (ram s)) s"
  by (simp add: rd_setup_def open_container_def open_group_def attach_group_def configure_iommu_def
      allocate_memory_def store_ram_def map_iova_def open_device_def map_bar_def check_def wp_simps)

lemma rd_gate:
  "wp (and_m (rd_setup e x) (rd_precondition e x)) (\<lambda>ok t. rd_unstarted t \<and> (ok \<longrightarrow> owned t = whole \<and>
     ram t = rd_fill (nat (sys_page_size e)) (\<lambda>_. 0) \<and> seen (rd_gate_seen x) (log t))) rd_locals"
    (is "wp _ ?Q _")
proof -
  have set: "wp (rd_setup e x) (\<lambda>ok t. session_ok t \<and> session.more t = session.more rd_locals \<and>
        writes (log t) = writes (log rd_locals) \<and> exit_success t = exit_success rd_locals \<and>
        (ok \<longrightarrow> owned t = whole)) rd_locals"
    using rd_locals_ok unfolding rd_unstarted_def by (intro setup_toD[OF rd_setup_to]) simp_all
  show ?thesis
  proof (rule wp_and_mI, rule wp_mono[OF wp_conjI[OF set rd_setup_ram]], elim conjE)
    fix ok t
    assume t: "session_ok t" "session.more t = session.more rd_locals"
        "writes (log t) = writes (log rd_locals)" "exit_success t = exit_success rd_locals"
        "ok \<longrightarrow> owned t = whole" "ok \<longrightarrow> ram t = rd_fill (nat (sys_page_size e)) (ram rd_locals)"
    have un: "rd_unstarted t"
      using t(1,3,4) rd_more[OF t(2)] by (simp add: rd_unstarted_def rd_locals_def)
    have "wp (rd_precondition e x) ?Q t" if ok
    proof (rule scan_wp[OF rd_precondition_checks rd_precondition_keeps])
      show "idle whole t"
        using t(5) that un engines_off_unwritten by (simp add: idle_def rd_unstarted_def session_ok_inside)
    next
      fix b rs
      assume "reads rs" "b \<Longrightarrow> seen (rd_gate_seen x) rs" "idle whole (t\<lparr>log := rs @ log t\<rparr>)"
      then show "?Q b (t\<lparr>log := rs @ log t\<rparr>)"
        using t(5,6) that un by (auto simp: rd_unstarted_def session_ok_inside owned_update idle_def
            rd_locals_def elim!: seen_mono)
    qed
    with un show "(ok \<longrightarrow> wp (rd_precondition e x) ?Q t) \<and> (\<not> ok \<longrightarrow> ?Q False t)" by simp
  qed
qed

lemma inside_write_reg: "in_bar a \<Longrightarrow> preserves (inside whole) (rd_mmio_write32 a v)"
  unfolding rd_mmio_write32_def by (rule inside_intros(2)) (simp_all add: whole_def)

lemma rd_put_inside: "preserves (inside whole) (put_descriptors f)"
  unfolding put_descriptors_def rd_write_descriptor_def store_address_def
  by (intro preserves_intros inside_write_reg)
    (simp_all add: dsp0_cmd_regs dsp0_resp_regs resp_second ring_reg_words(5) del: One_nat_def)

lemma rd_published_stage:
  assumes "inside whole s" "writes (log s) = []" "\<not> dma_modified s" "\<not> controls_modified s"
  shows "wp (put_descriptors (desc_iova n)) (\<lambda>_ t. rd_stage x n 0 (t\<lparr>descriptors_published := True\<rparr>)) s"
proof (rule wp_mono[OF wp_conjI[OF preservesD[OF rd_put_inside assms(1)]]])
  show "wp (put_descriptors (desc_iova n)) (\<lambda>_ t. writes (log t) = dsp0_words (desc_iova n) \<and> rd_rest t = rd_rest s) s"
    by (rule stores_wp[OF rd_stores_put]) (simp add: writes_rev_stores assms(2))
next
  fix t :: desc_session
  assume t: "inside whole t \<and> writes (log t) = dsp0_words (desc_iova n) \<and> rd_rest t = rd_rest s"
  have "dma_modified t = dma_modified s" "controls_modified t = controls_modified s"
    using t by (cases s; cases t; simp)+
  moreover have "inside whole (t\<lparr>descriptors_published := True\<rparr>)"
    using t inside_same[of t "t\<lparr>descriptors_published := True\<rparr>" whole]
    by (simp add: same_handles_def inside_def)
  ultimately show "rd_stage x n 0 (t\<lparr>descriptors_published := True\<rparr>)"
    using t assms(3,4) by (simp add: rd_stage_def rd_flags_def)
qed

lemma rd_publish_stage:
  assumes "inside whole s" "writes (log s) = []" "\<not> dma_modified s" "\<not> controls_modified s"
  shows "wp (rd_publish e n) (\<lambda>_. rd_stage x n 0) s"
  unfolding rd_publish_def wp_bind[of "put_descriptors _"]
proof (rule wp_mono[OF rd_published_stage[OF assms]])
  fix t :: desc_session
  assume t: "rd_stage x n 0 (t\<lparr>descriptors_published := True\<rparr>)"
  have "preserves (rd_stage x n 0) (do {
          b \<leftarrow> check_descriptors e (desc_iova n);
          modify (\<lambda>s. s\<lparr>readback_ok := b\<rparr>);
          if \<not> b then State_Monad.return False
          else do {
            b \<leftarrow> published_ring_state_matches e n;
            modify (\<lambda>s. s\<lparr>ring_state_ok := b\<rparr>);
            State_Monad.return b } })"
    unfolding check_descriptors_def descriptor_matches_def published_ring_state_matches_def
    by (intro preserves_intros rd_keeps rd_stage_modify)
      (simp_all add: rd_same_def same_handles_def ring_base_word dsp0_cmd_regs dsp0_resp_regs
        resp_second ring_reg_words(5) del: One_nat_def)
  from preservesD[OF this t] show "wp (do {
          modify (\<lambda>s. s\<lparr>descriptors_published := True\<rparr>);
          b \<leftarrow> check_descriptors e (desc_iova n);
          modify (\<lambda>s. s\<lparr>readback_ok := b\<rparr>);
          if \<not> b then State_Monad.return False
          else do {
            b \<leftarrow> published_ring_state_matches e n;
            modify (\<lambda>s. s\<lparr>ring_state_ok := b\<rparr>);
            State_Monad.return b } }) (\<lambda>_. rd_stage x n 0) t"
    by (simp add: wp_bind wp_modify)
qed

section \<open>The exercise and the verdict\<close>

lemma rd_handles: "rd_stage x n k s \<Longrightarrow> bar_ok s \<and> \<not> device_fd s < 0"
  using owns_iff[of BarMap s] owns_iff[of VfioDevice s] by (simp add: rd_stage_def inside_def whole_def)

lemma rd_dma_wp:
  assumes "rd_stage x n k s" "dma_experiment x" "k < 3" "v = snd (dma_schedule ! k)"
  shows "wp (rd_dma_step e k v) (\<lambda>_. rd_stage x n (Suc k)) s"
proof -
  have len: "k < length (rd_schedule x)" and nth: "rd_schedule x ! k = (DMA_CONTROL, v)"
  proof -
    have "k \<in> {0, 1, 2}" using assms(3) by auto
    then show "k < length (rd_schedule x)" "rd_schedule x ! k = (DMA_CONTROL, v)"
      using assms(2,4) by (auto simp: dma_experiment_def rd_schedule_def dma_schedule_def)
  qed
  let ?t = "s\<lparr>log := Wr DMA_CONTROL v # log s, dma_modified := True, dma_write_count := dma_write_count s + 1\<rparr>"
  have "rd_stage x n (Suc k) ?t"
    by (rule rd_stage_write[OF assms(1) len nth])
      (use assms(1,3) in \<open>simp_all add: same_handles_def rd_stage_def rd_flags_def\<close>)
  moreover have "preserves (rd_stage x n (Suc k)) (do {
          r \<leftarrow> rd_mmio_read32 e DMA_CONTROL;
          modify (\<lambda>s. s\<lparr>dma_readbacks := (dma_readbacks s)[k := r]\<rparr>);
          State_Monad.return (r = v) })"
    by (intro preserves_intros rd_keeps rd_stage_modify) (simp_all add: rd_same_def same_handles_def)
  ultimately have "wp (do {
          r \<leftarrow> rd_mmio_read32 e DMA_CONTROL;
          modify (\<lambda>s. s\<lparr>dma_readbacks := (dma_readbacks s)[k := r]\<rparr>);
          State_Monad.return (r = v) }) (\<lambda>_. rd_stage x n (Suc k)) ?t"
    by (intro preservesD)
  then show ?thesis
    by (simp add: rd_dma_step_def rd_mmio_write32_def wp_bind wp_modify wp_bus_write)
qed

text \<open>A program that stops somewhere in the schedule, and at \<open>K\<close> if it succeeds.\<close>

definition rd_upto :: "ring_experiment \<Rightarrow> nat \<Rightarrow> nat \<Rightarrow> bool \<Rightarrow> desc_session \<Rightarrow> bool" where
  "rd_upto x n K ok t \<longleftrightarrow> (\<exists>k. rd_stage x n k t \<and> (ok \<longrightarrow> k = K))"

lemma rd_upto_stage: "wp m (\<lambda>_. rd_stage x n K) s \<Longrightarrow> wp m (rd_upto x n K) s"
  by (erule wp_mono) (auto simp: rd_upto_def)

lemma rd_upto_and:
  assumes "wp a (rd_upto x n K) s" "\<And>t. rd_stage x n K t \<Longrightarrow> wp b (rd_upto x n L) t"
  shows "wp (and_m a b) (rd_upto x n L) s"
proof (rule wp_and_mI, rule wp_mono[OF assms(1)])
  fix ok t
  assume "rd_upto x n K ok t"
  then show "(ok \<longrightarrow> wp b (rd_upto x n L) t) \<and> (\<not> ok \<longrightarrow> rd_upto x n L False t)"
    using assms(2) by (auto simp: rd_upto_def)
qed

lemma rd_upto_if:
  "rd_stage x n K s \<Longrightarrow> (c \<Longrightarrow> wp m (rd_upto x n L) s) \<Longrightarrow> (\<not> c \<Longrightarrow> L = K) \<Longrightarrow>
     wp (if c then m else State_Monad.return True) (rd_upto x n L) s"
  by (auto simp: wp_return rd_upto_def)

lemma rd_start_dma_wp:
  assumes "rd_stage x n 0 s" "dma_experiment x"
  shows "wp (rd_start_dma e) (rd_upto x n 3) s"
proof -
  have v: "DMA_RESET_GLOBAL = snd (dma_schedule ! 0)" "DMA_GLOBAL_ONLY = snd (dma_schedule ! Suc 0)"
    "DMA_GLOBAL_DSP0 = snd (dma_schedule ! Suc (Suc 0))" by (simp_all add: dma_schedule_def)
  have 3: "3 = Suc (Suc (Suc 0))" by simp
  show ?thesis
    unfolding rd_start_dma_def 3 numeral_2_eq_2 One_nat_def
    by (rule rd_upto_and, rule rd_upto_stage, rule rd_dma_wp[OF assms(1,2) _ v(1)], simp,
        rule rd_upto_and, rule rd_upto_stage, erule rd_dma_wp[OF _ assms(2) _ v(2)], simp,
        rule rd_upto_stage, erule rd_dma_wp[OF _ assms(2) _ v(3)], simp)
qed

lemma rd_store_look:
  assumes "rd_stage x n k s" "k < length (rd_schedule x)" "rd_schedule x ! k = (a, v)" "in_bar a"
    and "rd_flags x (Suc k) s" "\<not> (x = Exp008 \<and> Suc k = 4)"
    and "\<And>t. rd_same t (f t)" "\<And>t. log (f t) = log t"
  shows "wp (do { rd_mmio_write32 a v; modify f; read_is (rd_mmio_read32 e) a w }) (rd_upto x n (Suc k)) s"
proof -
  let ?t = "s\<lparr>log := Wr a v # log s\<rparr>"
  have "rd_stage x n (Suc k) ?t"
    by (rule rd_stage_write[OF assms(1-4) _ _ assms(6)])
      (use assms(5) in \<open>simp_all add: same_handles_def rd_flags_def\<close>)
  then have "rd_stage x n (Suc k) (f ?t)"
    using rd_stage_local[OF _ assms(7,8)] by blast
  then have "wp (read_is (rd_mmio_read32 e) a w) (\<lambda>_. rd_stage x n (Suc k)) (f ?t)"
    using assms(4) by (intro preservesD[OF rd_keeps(3)])
  then have "wp (read_is (rd_mmio_read32 e) a w) (rd_upto x n (Suc k)) (f ?t)" by (rule rd_upto_stage)
  then show ?thesis by (simp add: rd_mmio_write32_def wp_bind wp_modify wp_bus_write)
qed

lemma rd_stage_flags: "rd_stage x n k s \<Longrightarrow> rd_flags x k s"
  by (simp add: rd_stage_def)

lemma rd_empty_wp:
  assumes "rd_stage Exp007 n 3 s"
  shows "wp (rd_empty_ring e) (rd_upto Exp007 n 5) s"
proof -
  have n: "5 = Suc 4" "4 = Suc 3" by simp_all
  have same: "rd_same t (t\<lparr>doorbell_writes := doorbell_writes t + 1\<rparr>)"
    "rd_same t (t\<lparr>ring_pointer_writes := ring_pointer_writes t + 1\<rparr>)" for t
    by (simp_all add: rd_same_def same_handles_def)
  have sched: "rd_schedule Exp007 ! 3 = (ring_reg 0 0 9, 0)" "rd_schedule Exp007 ! 4 = (ring_reg 0 0 8, 0)"
    "length (rd_schedule Exp007) = 5" by (simp_all add: rd_schedule_def dma_schedule_def)
  have flags: "rd_flags Exp007 k t = rd_flags Exp007 3 t" if "3 \<le> k" for k t
    using that by (auto simp: rd_flags_def)
  show ?thesis
    unfolding rd_empty_ring_def dsp0_cmd_regs(3,4)
  proof (rule rd_upto_and[where K = "Suc 3"])
    show "wp (do { rd_mmio_write32 (ring_reg 0 0 9) 0;
                 modify (\<lambda>s. s\<lparr>doorbell_writes := doorbell_writes s + 1\<rparr>);
                 read_is (rd_mmio_read32 e) (ring_reg 0 0 9) 0 }) (rd_upto Exp007 n (Suc 3)) s"
      using rd_stage_flags[OF assms]
      by (intro rd_store_look[OF assms] same) (simp_all add: sched flags[of 4])
    fix t
    assume "rd_stage Exp007 n (Suc 3) t"
    then have t: "rd_stage Exp007 n 4 t" by (simp only: n(2))
    show "wp (do { rd_mmio_write32 (ring_reg 0 0 8) 0;
                 modify (\<lambda>s. s\<lparr>ring_pointer_writes := ring_pointer_writes s + 1\<rparr>);
                 read_is (rd_mmio_read32 e) (ring_reg 0 0 8) 0 }) (rd_upto Exp007 n 5) t"
      using rd_stage_flags[OF t] unfolding n(1)
      by (intro rd_store_look[OF t] same) (simp_all add: sched flags[of 4] flags[of 5])
  qed
qed

lemma rd_zero_wp:
  assumes "rd_stage Exp008 n 3 s"
  shows "wp (rd_zero_entry e) (rd_upto Exp008 n 5) s"
proof -
  have bar: "BarMap \<in> whole" "VfioMapping \<in> whole" by (simp_all add: whole_def)
  have s: "inside whole s" "rd_flags Exp008 3 s"
    "writes (log s) = dsp0_words (desc_iova n) @ take 3 (rd_schedule Exp008)"
    using assms by (simp_all add: rd_stage_def)
  have stage: "rd_stage Exp008 n 5 t" if "same_handles s t" "descriptors_published t" "dma_modified t"
      "controls_modified t" "log t = Rd (ring_reg 0 0 8) v1 # Wr (ring_reg 0 0 8) 1 # Rd (ring_reg 0 0 9) v2 #
        Wr (ring_reg 0 0 9) 1 # Rd (ring_reg 0 0 10) v3 # log s" for t v1 v2 v3
  proof -
    have "session_world whole (log t)"
      using s(1) that(5) bar by (simp add: inside_def world_read world_write)
    then have "inside whole t" by (rule inside_same[OF that(1) s(1)])
    then show ?thesis
      using that(2-5) s(3) by (simp add: rd_stage_def rd_flags_def rd_schedule_def dma_schedule_def)
  qed
  show ?thesis
    unfolding rd_zero_entry_def rd_mmio_read32_def rd_mmio_write32_def dsp0_cmd_regs wp_bind wp_bus_read
      wp_modify wp_bus_write wp_return rd_upto_def
    by (rule exI[of _ 5], rule conjI[OF stage])
      (use s(2) in \<open>simp_all add: same_handles_def rd_flags_def\<close>)
qed

lemma rd_exercise_wp:
  assumes "rd_stage x n 0 s"
  shows "wp (rd_exercise e x) (rd_upto x n (length (rd_schedule x))) s"
proof (cases "dma_experiment x")
  case False
  then have "x = Exp001" by (cases x) (simp_all add: dma_experiment_def)
  then show ?thesis
    using assms by (auto simp: rd_exercise_def wp_simps dma_experiment_def rd_schedule_def rd_upto_def)
next
  case True
  show ?thesis
    unfolding rd_exercise_def if_P[OF True]
  proof (rule rd_upto_and[OF rd_start_dma_wp[OF assms True]])
    fix t
    assume t: "rd_stage x n 3 t"
    show "wp (and_m (if x = Exp007 then rd_empty_ring e else State_Monad.return True)
        (if x = Exp008 then rd_zero_entry e else State_Monad.return True))
        (rd_upto x n (length (rd_schedule x))) t"
    proof (rule rd_upto_and[where K = "if x = Exp007 then 5 else 3"])
      show "wp (if x = Exp007 then rd_empty_ring e else State_Monad.return True)
          (rd_upto x n (if x = Exp007 then 5 else 3)) t"
      proof (rule rd_upto_if[OF t])
        assume x: "x = Exp007"
        have "rd_stage Exp007 n 3 t" using t by (simp only: x)
        from rd_empty_wp[OF this] show "wp (rd_empty_ring e) (rd_upto x n (if x = Exp007 then 5 else 3)) t"
          by (simp only: x if_True simp_thms)
      qed simp
      fix u
      assume u: "rd_stage x n (if x = Exp007 then 5 else 3) u"
      show "wp (if x = Exp008 then rd_zero_entry e else State_Monad.return True)
          (rd_upto x n (length (rd_schedule x))) u"
      proof (rule rd_upto_if[OF u])
        assume x: "x = Exp008"
        have "rd_stage Exp008 n 3 u" "length (rd_schedule Exp008) = 5"
          using u by (simp_all add: x rd_schedule_def dma_schedule_def)
        from rd_zero_wp[OF this(1)] this(2) show "wp (rd_zero_entry e) (rd_upto x n (length (rd_schedule x))) u"
          by (simp only: x)
      next
        assume "x \<noteq> Exp008"
        then show "length (rd_schedule x) = (if x = Exp007 then 5 else 3)"
          using True by (cases x) (simp_all add: rd_schedule_def dma_schedule_def dma_experiment_def)
      qed
    qed
  qed
qed

text \<open>The five pages, as a scan of them finds them.\<close>

definition desc_pages_intact :: "nat \<Rightarrow> vfio_env \<Rightarrow> history \<Rightarrow> (nat \<Rightarrow> u8) \<Rightarrow> bool" where
  "desc_pages_intact n e h m \<longleftrightarrow>
     (\<forall>page<4. \<forall>byte<n. ram_view e h m (page * n + byte) = 0) \<and>
     (\<forall>byte<n. ram_view e h m (4 * n + byte) = RESPONSE_CANARY)"

lemma wp_rd_pages: "wp (rd_pages_unchanged e n) Q s = Q (desc_pages_intact n e (log s) (ram s)) s"
proof -
  define A B where "A \<longleftrightarrow> (\<forall>page\<in>set [0..<4]. \<forall>byte\<in>set [0..<n]. ram_view e (log s) (ram s) (page * n + byte) = 0)"
    and "B \<longleftrightarrow> (\<forall>byte\<in>set [0..<n]. ram_view e (log s) (ram s) (4 * n + byte) = RESPONSE_CANARY)"
  have "run_state (all_m [0..<4] (\<lambda>page. all_m [0..<n] (\<lambda>byte. do {
              b \<leftarrow> load_byte e (page * n + byte); State_Monad.return (b = 0) }))) s = (A, s)"
    unfolding A_def by (intro run_all_m_pure) (simp add: load_byte_def)
  moreover have "run_state (all_m [0..<n] (\<lambda>byte. do {
              b \<leftarrow> load_byte e (4 * n + byte); State_Monad.return (b = RESPONSE_CANARY) })) s = (B, s)"
    unfolding B_def by (intro run_all_m_pure) (simp add: load_byte_def)
  moreover have "A \<and> B \<longleftrightarrow> desc_pages_intact n e (log s) (ram s)"
    unfolding A_def B_def desc_pages_intact_def by (simp only: set_upt atLeastLessThan_iff le0 Ball_def simp_thms)
  ultimately show ?thesis
    unfolding rd_pages_unchanged_def wp_and_m by (cases A; cases B; simp add: wp_def)
qed

lemma rd_look_wp:
  assumes s: "rd_stage x n k s"
    and Q: "\<And>b rs t. reads rs \<Longrightarrow> (b \<Longrightarrow> seen (rd_rings_seen x n) rs) \<Longrightarrow> log t = rs @ log s \<Longrightarrow>
      rd_stage x n k t \<Longrightarrow> exit_success t = exit_success s \<Longrightarrow> ready_ok t = ready_ok s \<Longrightarrow>
      canary_ok t = canary_ok s \<Longrightarrow> Q b t"
  shows "wp (rd_look e x n) Q s"
proof (cases "x = Exp008")
  case True
  have keeps: "preserves (rd_stage x n k) (triggered_ring_state_matches e n)"
    unfolding triggered_ring_state_matches_def
    by (intro preserves_intros rd_keeps) (simp_all add: ring_base_word)
  have "rd_stage x n k t \<Longrightarrow> log t = rs @ log s \<Longrightarrow> reads rs \<Longrightarrow> exit_success t = exit_success s \<Longrightarrow>
      ready_ok t = ready_ok s \<Longrightarrow> canary_ok t = canary_ok s \<Longrightarrow>
      wp (triggered_ring_state_matches e n) Q t" for t rs
  proof (rule scan_wp[OF rd_triggered_checks keeps], assumption)
    fix b qs
    assume t: "log t = rs @ log s" "reads rs" "exit_success t = exit_success s"
      "ready_ok t = ready_ok s" "canary_ok t = canary_ok s"
      and q: "reads qs" "b \<Longrightarrow> seen (rd_rings_seen Exp008 n) qs" "rd_stage x n k (t\<lparr>log := qs @ log t\<rparr>)"
    show "Q b (t\<lparr>log := qs @ log t\<rparr>)"
      by (rule Q[where rs = "qs @ rs"]) (use t q True in \<open>auto elim: seen_mono\<close>)
  qed
  note fin = this
  have bars: "in_bar (ring_reg 0 0 8)" "in_bar (ring_reg 0 0 9)" "in_bar (ring_reg 0 0 10)"
    by simp_all
  have rd: "rd_stage x n k (t\<lparr>log := Rd a v # log t\<rparr>)" if "rd_stage x n k t" "in_bar a" for t a v
    using rd_stage_event[OF that(1)] that by (simp add: rd_stage_def inside_def world_read whole_def)
  have loc: "rd_stage x n k (t\<lparr>pointer_after_wait := v\<rparr>)" "rd_stage x n k (t\<lparr>doorbell_after_wait := v\<rparr>)"
    "rd_stage x n k (t\<lparr>position_after := v\<rparr>)" if "rd_stage x n k t" for t v
    by (rule rd_stage_local[OF that]; simp add: rd_same_def same_handles_def)+
  show ?thesis
    unfolding rd_look_def if_P[OF True] dsp0_cmd_regs(3-5) rd_mmio_read32_def wp_bind wp_bus_read wp_modify
    by (rule fin[where rs = "[Rd u1 v1, Rd u2 v2, Rd u3 v3]" for u1 v1 u2 v2 u3 v3],
        intro loc rd s bars) simp_all
next
  case False
  have keeps: "preserves (rd_stage x n k) (published_ring_state_matches e n)"
    unfolding published_ring_state_matches_def
    by (intro preserves_intros rd_keeps) (simp_all add: ring_base_word)
  have E: "rd_rings_seen x n = rd_rings_seen Exp001 n" using False by (simp add: rd_rings_seen_def)
  show ?thesis
    unfolding rd_look_def if_not_P[OF False]
    by (rule scan_wp[OF rd_published_checks keeps s], rule Q) (simp_all add: E)
qed

text \<open>What a run that sets the exit status has observed after the wait.\<close>

definition rd_observed :: "vfio_env \<Rightarrow> ring_experiment \<Rightarrow> nat \<Rightarrow> (nat \<Rightarrow> u8) \<Rightarrow> history \<Rightarrow> bool" where
  "rd_observed e x n m h \<longleftrightarrow> (\<exists>xs ys k. h = xs @ ys @ Delay 250000000 # k \<and> reads xs \<and> reads ys \<and>
     seen (rd_rings_seen x n) xs \<and> seen ready_seen ys \<and> desc_pages_intact n e (ys @ Delay 250000000 # k) m)"

lemma rd_verify_wp:
  assumes s: "rd_stage x n k s" "\<not> exit_success s"
  shows "wp (rd_verify e x n) (\<lambda>_ t. rd_stage x n k t \<and> extends (log s) t \<and>
     (exit_success t \<longrightarrow> rd_observed e x n (ram s) (log t))) s"
proof -
  let ?d = "s\<lparr>log := Delay 250000000 # log s\<rparr>"
  have d: "rd_stage x n k ?d"
    using preservesD[OF rd_stage_steps(2) s(1), of 250000000] by (simp add: nanosleep_def wp_emit)
  have ready: "preserves (rd_stage x n k) (scan_ready (rd_mmio_read32 e))" by (rule rd_keeps)
  have loc: "rd_stage x n k (t\<lparr>ready_ok := b\<rparr>)" "rd_stage x n k (t\<lparr>canary_ok := b\<rparr>)"
    "rd_stage x n k (t\<lparr>ring_state_ok := b\<rparr>)" "rd_stage x n k (t\<lparr>exit_success := b\<rparr>)"
    if "rd_stage x n k t" for t b
    by (rule rd_stage_local[OF that]; simp add: rd_same_def same_handles_def)+
  show ?thesis
    unfolding rd_verify_def rd_all_dsps_ready_def nanosleep_def wp_bind wp_emit
  proof (rule scan_wp[OF rd_port.checks_ready ready d], unfold wp_modify wp_rd_pages, rule rd_look_wp)
    fix b ys assume "rd_stage x n k (?d\<lparr>log := ys @ log ?d\<rparr>)"
    then show "rd_stage x n k (?d\<lparr>log := ys @ log ?d, ready_ok := b,
      canary_ok := desc_pages_intact n e (log (?d\<lparr>log := ys @ log ?d, ready_ok := b\<rparr>))
        (ram (?d\<lparr>log := ys @ log ?d, ready_ok := b\<rparr>))\<rparr>)"
      by (intro loc)
  next
    fix b ys c xs and t :: desc_session
    assume ys: "reads ys" "b \<Longrightarrow> seen ready_seen ys" and xs: "reads xs" "c \<Longrightarrow> seen (rd_rings_seen x n) xs"
    let ?u = "?d\<lparr>log := ys @ log ?d, ready_ok := b,
      canary_ok := desc_pages_intact n e (log (?d\<lparr>log := ys @ log ?d, ready_ok := b\<rparr>))
        (ram (?d\<lparr>log := ys @ log ?d, ready_ok := b\<rparr>))\<rparr>"
    assume t: "log t = xs @ log ?u" "rd_stage x n k t" "exit_success t = exit_success ?u"
      "ready_ok t = ready_ok ?u" "canary_ok t = canary_ok ?u"
    have ext: "extends (log s) t" using t(1) by (simp add: extends_def)
    have obs: "rd_observed e x n (ram s) (log t)" if "b" "c" "canary_ok t"
      unfolding rd_observed_def using that t(1,5) ys xs
      by (intro exI[of _ xs] exI[of _ ys] exI[of _ "log s"]) simp
    show "wp (interrupted e) (\<lambda>stop. wp (gets (\<lambda>s. stop \<or> \<not> ready_ok s \<or> \<not> canary_ok s \<or> \<not> ring_state_ok s))
          (\<lambda>bad. wp (if bad then State_Monad.return () else modify (\<lambda>s. s\<lparr>exit_success := True\<rparr>))
            (\<lambda>_ t. rd_stage x n k t \<and> extends (log s) t \<and>
              (exit_success t \<longrightarrow> rd_observed e x n (ram s) (log t))))) (t\<lparr>ring_state_ok := c\<rparr>)"
      using t(2-4) s(2) ext obs
      by (auto simp: interrupted_def wp_simps extends_def intro: loc)
  qed
qed

lemma rd_run_wp:
  assumes s: "inside whole s" "writes (log s) = []" "\<not> dma_modified s" "\<not> controls_modified s"
    and no: "\<not> exit_success s"
  shows "wp (rd_run e x n) (\<lambda>_ t. \<exists>k. rd_stage x n k t \<and> (exit_success t \<longrightarrow>
     k = length (rd_schedule x) \<and> extends (log s) t \<and> rd_observed e x n (ram s) (log t))) s" (is "wp _ ?Q s")
proof -
  have kept: "rd_kept False (ram s) (log s) s" using no by (simp add: rd_kept_def extends_refl)
  have pub: "wp (rd_publish e n) (\<lambda>_ t. rd_stage x n 0 t \<and> rd_kept False (ram s) (log s) t) s"
    by (rule wp_conjI[OF rd_publish_stage[OF s] preservesD[OF rd_kept_run(1) kept]])
  have ex: "wp (rd_exercise e x) (\<lambda>ok t. rd_upto x n (length (rd_schedule x)) ok t \<and>
      rd_kept False (ram s) (log s) t) t" if "rd_stage x n 0 t \<and> rd_kept False (ram s) (log s) t" for t
    using that by (intro wp_conjI rd_exercise_wp preservesD[OF rd_kept_run(2)]) simp_all
  have "wp (and_m (rd_publish e n) (rd_exercise e x)) (\<lambda>ok t. rd_upto x n (length (rd_schedule x)) ok t \<and>
      rd_kept False (ram s) (log s) t) s"
  proof (rule wp_and_mI, rule wp_mono[OF pub])
    fix ok t
    assume t: "rd_stage x n 0 t \<and> rd_kept False (ram s) (log s) t"
    then have "rd_upto x n (length (rd_schedule x)) False t" by (auto simp: rd_upto_def)
    with t ex[OF t] show "(ok \<longrightarrow> wp (rd_exercise e x) (\<lambda>ok t. rd_upto x n (length (rd_schedule x)) ok t \<and>
        rd_kept False (ram s) (log s) t) t) \<and>
      (\<not> ok \<longrightarrow> rd_upto x n (length (rd_schedule x)) False t \<and> rd_kept False (ram s) (log s) t)" by blast
  qed
  then show ?thesis
    unfolding rd_run_def wp_bind
  proof (rule wp_mono, elim conjE)
    fix ok t
    assume t: "rd_upto x n (length (rd_schedule x)) ok t" and k: "rd_kept False (ram s) (log s) t"
    show "wp (if ok then rd_verify e x n else State_Monad.return ()) ?Q t"
    proof (cases ok)
      case True
      then have "rd_stage x n (length (rd_schedule x)) t" using t by (auto simp: rd_upto_def)
      then have "wp (rd_verify e x n) (\<lambda>_ u. rd_stage x n (length (rd_schedule x)) u \<and> extends (log t) u \<and>
          (exit_success u \<longrightarrow> rd_observed e x n (ram s) (log u))) t"
        using rd_verify_wp[of x n _ t e] k by (simp add: rd_kept_def)
      then show ?thesis
        unfolding if_P[OF True] using k by (elim wp_mono) (auto simp: rd_kept_def intro: extends_trans)
    next
      case False
      then show ?thesis using t k by (auto simp: wp_return rd_upto_def rd_kept_def)
    qed
  qed
qed

text \<open>What stands behind a success when the cleanup label is reached.\<close>

definition rd_evident :: "vfio_env \<Rightarrow> ring_experiment \<Rightarrow> nat \<Rightarrow> history \<Rightarrow> bool" where
  "rd_evident e x n h \<longleftrightarrow> rd_observed e x n (rd_fill n (\<lambda>_. 0)) h \<and>
     (\<exists>evs cold. h = evs @ cold \<and> writes cold = [] \<and> seen (rd_gate_seen x) cold)"

definition rd_attempted :: "vfio_env \<Rightarrow> ring_experiment \<Rightarrow> desc_session \<Rightarrow> bool" where
  "rd_attempted e x s \<longleftrightarrow> rd_unstarted s \<or> (\<exists>k. rd_stage x (nat (sys_page_size e)) k s \<and>
     (exit_success s \<longrightarrow> k = length (rd_schedule x) \<and> rd_evident e x (nat (sys_page_size e)) (log s)))"

lemma rd_attempt_attempted: "wp (rd_attempt e x) (\<lambda>_. rd_attempted e x) rd_locals"
  unfolding rd_attempt_def wp_bind
proof (rule wp_mono[OF rd_gate])
  fix ok t
  let ?n = "nat (sys_page_size e)"
  assume t: "rd_unstarted t \<and> (ok \<longrightarrow> owned t = whole \<and> ram t = rd_fill ?n (\<lambda>_. 0) \<and>
     seen (rd_gate_seen x) (log t))"
  show "wp (if ok then rd_run e x ?n else State_Monad.return ()) (\<lambda>_. rd_attempted e x) t"
  proof (cases ok)
    case True
    then have own: "owned t = whole" and ram: "ram t = rd_fill ?n (\<lambda>_. 0)" and cold: "seen (rd_gate_seen x) (log t)"
      and un: "rd_unstarted t" using t by simp_all
    have "wp (rd_run e x ?n) (\<lambda>_ u. \<exists>k. rd_stage x ?n k u \<and> (exit_success u \<longrightarrow>
        k = length (rd_schedule x) \<and> extends (log t) u \<and> rd_observed e x ?n (ram t) (log u))) t"
      using un own by (intro rd_run_wp) (simp_all add: rd_unstarted_def session_ok_inside)
    then show ?thesis
      unfolding if_P[OF True] using un cold ram
      by (elim wp_mono) (auto simp: rd_attempted_def rd_evident_def extends_def rd_unstarted_def)
  next
    case False
    then show ?thesis using t by (simp add: wp_return rd_attempted_def)
  qed
qed

end
