(* ===== verification/Ring_Descriptors_Results.thy ===== *)
theory Ring_Descriptors_Results
  imports Ring_Descriptors_Run
begin

text \<open>
  The cleanup of \<^verbatim>\<open>tools/vfio_ring_descriptors.c\<close>, the contract of a tool, and what any run of the
  program stores and releases and what its exit status 0 vouches for.
\<close>

section \<open>The cleanup\<close>

definition rd_undo_seen :: "nat \<Rightarrow> (u32 \<times> (u32 \<Rightarrow> bool)) set" where
  "rd_undo_seen k = (if 0 < k then {(DMA_CONTROL, \<lambda>v. v = DMA_COLD_RESET)} else {}) \<union>
     words_seen (dsp0_words (\<lambda>_. 0))"

text \<open>From \<open>s\<close> to \<open>t\<close> the cleanup stored \<open>ws\<close>, and \<open>t\<close> has no engine enabled.\<close>

definition rd_undone :: "(u32 \<times> u32) list \<Rightarrow> (u32 \<times> (u32 \<Rightarrow> bool)) set \<Rightarrow> desc_session \<Rightarrow> desc_session \<Rightarrow> bool" where
  "rd_undone ws E s t \<longleftrightarrow> idle whole t \<and> rd_same s t \<and> advanced ws E s t"

lemma rd_undone_trans:
  assumes "rd_undone xs A s t" "rd_undone ys B t u"
  shows "rd_undone (xs @ ys) (A \<union> B) s u"
  using assms advanced_trans[of xs A s t ys B u] by (simp add: rd_undone_def rd_same_def same_handles_def)

lemma rd_undone_refl: "idle whole s \<Longrightarrow> rd_undone [] {} s s"
  by (simp add: rd_undone_def advanced_refl) (simp add: rd_same_def same_handles_def)

lemma rd_undone_local:
  assumes "rd_undone ws E s t" "rd_same t u" "log u = log t" "exit_success u \<Longrightarrow> exit_success t"
  shows "rd_undone ws E s u"
  using assms inside_same[of t u whole]
  by (auto simp: rd_undone_def idle_def inside_def rd_same_def same_handles_def advanced_def)

text \<open>A scan at the end, whose failure is a failure of the program.\<close>

lemma rd_undone_scan:
  assumes t: "rd_undone ws {} s t"
    and m: "checks log rd_rest m E" "preserves (idle whole) m"
    and f: "\<And>b t. rd_same t (f b t)" "\<And>b t. log (f b t) = log t" "\<And>b t. exit_success (f b t) = exit_success t"
  shows "wp (do { b \<leftarrow> m; modify (f b); if b then State_Monad.return () else fail }) (\<lambda>_. rd_undone ws E s) t"
  unfolding wp_bind wp_modify
proof (rule scan_wp[OF m])
  show "idle whole t" using t by (simp add: rd_undone_def)
next
  fix b rs
  let ?t = "t\<lparr>log := rs @ log t\<rparr>"
  assume rs: "reads rs" "b \<Longrightarrow> seen E rs" "idle whole ?t"
  have same: "rd_same s ?t" "same_handles s ?t"
    using t by (simp_all add: rd_undone_def rd_same_def same_handles_def)
  obtain evs where evs: "log t = evs @ log s" "writes evs = ws" "exit_success t \<Longrightarrow> exit_success s"
    using t by (auto simp: rd_undone_def advanced_def)
  show "wp (if b then State_Monad.return () else fail) (\<lambda>_. rd_undone ws E s) (f b ?t)"
  proof (cases b)
    case True
    have "advanced ws E s ?t"
      by (rule advancedI[where evs = "rs @ evs"])
        (use evs rs True same in \<open>auto simp: writes_append elim!: seen_mono\<close>)
    then have "rd_undone ws E s ?t" using rs(3) same by (simp add: rd_undone_def)
    then show ?thesis
      unfolding if_P[OF True] wp_return by (rule rd_undone_local) (use f in simp_all)
  next
    case False
    have "advanced ws E s (?t\<lparr>exit_success := False\<rparr>)"
      by (rule advancedI[where evs = "rs @ evs"])
        (use evs rs same in \<open>simp_all add: writes_append same_handles_def\<close>)
    moreover have "idle whole (?t\<lparr>exit_success := False\<rparr>)"
      using rs(3) inside_same[of ?t "?t\<lparr>exit_success := False\<rparr>" whole]
      by (simp add: idle_def inside_def same_handles_def)
    ultimately have "rd_undone ws E s (?t\<lparr>exit_success := False\<rparr>)"
      using same by (simp add: rd_undone_def rd_same_def same_handles_def)
    then have "rd_undone ws E s ((f b ?t)\<lparr>exit_success := False\<rparr>)"
      by (rule rd_undone_local) (use f(1)[of ?t b] f(2,3)[of b ?t] in \<open>simp_all add: rd_same_def same_handles_def\<close>)
    then show ?thesis unfolding if_not_P[OF False] by (simp add: fail_def wp_modify)
  qed
qed

lemma rd_stage_idle: "rd_stage x n 0 s \<Longrightarrow> idle whole s"
  using dsp0_words_shadow by (simp add: rd_stage_def idle_def engines_on_def shadow_map_of)

lemma rd_restore_dma_wp:
  assumes s: "rd_stage x n k s"
  shows "wp (rd_restore_dma e) (\<lambda>_. rd_undone (if 0 < k then [(DMA_CONTROL, DMA_COLD_RESET)] else [])
     (if 0 < k then {(DMA_CONTROL, \<lambda>v. v = DMA_COLD_RESET)} else {}) s) s"
proof (cases "0 < k")
  case True
  then have c: "dma_modified s \<and> bar_ok s"
    using rd_stage_flags[OF s] rd_handles[OF s] by (simp add: rd_flags_def)
  let ?t = "s\<lparr>log := Wr DMA_CONTROL DMA_COLD_RESET # log s, dma_write_count := dma_write_count s + 1\<rparr>"
  have i: "inside whole s" using s by (simp add: rd_stage_def)
  have "session_world whole (log ?t)" using i by (simp add: inside_def world_write whole_def)
  then have "inside whole ?t" by (intro inside_same[OF _ i]) (simp_all add: same_handles_def)
  moreover have "\<not> engines_on (log ?t)" by (simp add: engines_on_def)
  moreover have "advanced [(DMA_CONTROL, DMA_COLD_RESET)] {} s ?t"
    by (rule advancedI[where evs = "[Wr DMA_CONTROL DMA_COLD_RESET]"]) (simp_all add: same_handles_def seen_def)
  ultimately have t: "rd_undone [(DMA_CONTROL, DMA_COLD_RESET)] {} s ?t"
    by (simp add: rd_undone_def idle_def) (simp add: rd_same_def same_handles_def)
  have keeps: "preserves (idle whole) (read_is (rd_mmio_read32 e) DMA_CONTROL DMA_COLD_RESET)"
    unfolding rd_mmio_read32_def read_is_def by (intro preserves_intros idle_read) (simp_all add: whole_def)
  have "wp (do { b \<leftarrow> read_is (rd_mmio_read32 e) DMA_CONTROL DMA_COLD_RESET;
           modify (\<lambda>s. s\<lparr>dma_restore_ok := b\<rparr>);
           if b then State_Monad.return () else fail })
     (\<lambda>_. rd_undone [(DMA_CONTROL, DMA_COLD_RESET)] {(DMA_CONTROL, \<lambda>v. v = DMA_COLD_RESET)} s) ?t"
    by (rule rd_undone_scan[OF t rd_port.checks_read_is keeps]) (simp_all add: rd_same_def same_handles_def)
  then show ?thesis
    unfolding rd_restore_dma_def wp_when_m if_P[OF c] if_P[OF True]
    by (simp add: rd_mmio_write32_def wp_bind wp_modify wp_bus_write)
next
  case False
  then have "\<not> dma_modified s" "idle whole s"
    using rd_stage_flags[OF s] rd_stage_idle s by (simp_all add: rd_flags_def)
  then show ?thesis using False rd_undone_refl by (simp add: rd_restore_dma_def wp_when_m)
qed

lemma rd_idle_stores:
  assumes "idle whole s" "stores log rd_rest m ws" "preserves (idle whole) m"
  shows "wp m (\<lambda>_. rd_undone ws {} s) s"
proof (rule wp_mono[OF wp_conjI[OF preservesD[OF assms(3,1)]]])
  show "wp m (\<lambda>_ t. log t = rev (map (\<lambda>(a, v). Wr a v) ws) @ log s \<and> rd_rest t = rd_rest s) s"
    by (rule stores_wp[OF assms(2)]) simp
next
  fix t :: desc_session
  assume t: "idle whole t \<and> log t = rev (map (\<lambda>(a, v). Wr a v) ws) @ log s \<and> rd_rest t = rd_rest s"
  then have same: "rd_same s t" "exit_success t = exit_success s"
    by (cases s; cases t; simp add: rd_same_def same_handles_def)+
  have "advanced ws {} s t"
    by (rule advancedI[where evs = "rev (map (\<lambda>(a, v). Wr a v) ws)"])
      (use t same writes_rev_stores[of ws "[]"] in \<open>simp_all add: rd_same_def seen_def\<close>)
  then show "rd_undone ws {} s t" using t same by (simp add: rd_undone_def)
qed

lemma rd_idle_write: "in_bar a \<Longrightarrow> a \<noteq> 0x2200 \<Longrightarrow> preserves (idle whole) (rd_mmio_write32 a v)"
  unfolding rd_mmio_write32_def by (rule idle_write) (simp_all add: whole_def)

lemma rd_ring_writes: "w < 16 \<Longrightarrow> r < 2 \<Longrightarrow> preserves (idle whole) (rd_mmio_write32 (ring_reg 0 r w) v)"
  using ring_reg_not_global(1)[of 0 r w "0x2200"] by (intro rd_idle_write) simp_all

lemma rd_restore_controls_wp:
  assumes s: "idle whole s"
  shows "wp rd_restore_controls (\<lambda>_. rd_undone (if controls_modified s then [(ring_reg 0 0 9, 0), (ring_reg 0 0 8, 0)]
     else []) {} s) s"
proof (cases "controls_modified s")
  case True
  then have c: "controls_modified s \<and> bar_ok s"
    using s owns_iff[of BarMap s] by (simp add: idle_def inside_def whole_def)
  have one: "wp (rd_mmio_write32 (ring_reg 0 0 w) 0) (\<lambda>_. rd_undone [(ring_reg 0 0 w, 0)] {} t) t"
    if "idle whole t" "w < 16" for t w
    by (rule rd_idle_stores[OF that(1) rd_port.stores_wr]) (use that(2) in \<open>simp add: rd_ring_writes\<close>)
  have snd: "rd_undone [(ring_reg 0 0 8, 0)] {} t u \<Longrightarrow>
      rd_undone [(ring_reg 0 0 8, 0)] {} t (u\<lparr>ring_pointer_writes := ring_pointer_writes u + 1\<rparr>)" for t u
    by (erule rd_undone_local) (simp_all add: rd_same_def same_handles_def)
  have "wp (do { rd_mmio_write32 (ring_reg 0 0 9) 0;
           modify (\<lambda>s. s\<lparr>doorbell_writes := doorbell_writes s + 1\<rparr>);
           rd_mmio_write32 (ring_reg 0 0 8) 0;
           modify (\<lambda>s. s\<lparr>ring_pointer_writes := ring_pointer_writes s + 1\<rparr>) })
     (\<lambda>_. rd_undone [(ring_reg 0 0 9, 0), (ring_reg 0 0 8, 0)] {} s) s"
    unfolding wp_bind wp_modify
  proof (rule wp_mono[OF one[OF s]], simp)
    fix t
    assume "rd_undone [(ring_reg 0 0 9, 0)] {} s t"
    then have t: "rd_undone [(ring_reg 0 0 9, 0)] {} s (t\<lparr>doorbell_writes := doorbell_writes t + 1\<rparr>)" (is "rd_undone _ _ _ ?t")
      by (rule rd_undone_local) (simp_all add: rd_same_def same_handles_def)
    then have "idle whole ?t" by (simp add: rd_undone_def)
    then show "wp (rd_mmio_write32 (ring_reg 0 0 8) 0) (\<lambda>_ u. rd_undone [(ring_reg 0 0 9, 0), (ring_reg 0 0 8, 0)] {} s
        (u\<lparr>ring_pointer_writes := ring_pointer_writes u + 1\<rparr>)) ?t"
      using rd_undone_trans[OF t snd] by (intro wp_mono[OF one]) auto
  qed
  then show ?thesis
    unfolding rd_restore_controls_def wp_when_m if_P[OF c] if_P[OF True] dsp0_cmd_regs(3,4) .
next
  case False
  then show ?thesis using s rd_undone_refl by (simp add: rd_restore_controls_def wp_when_m)
qed

lemma rd_restore_descriptors_wp:
  assumes s: "idle whole s" "descriptors_published s"
  shows "wp (rd_restore_descriptors e)
     (\<lambda>_. rd_undone (dsp0_words (\<lambda>_. 0)) (words_seen (dsp0_words (\<lambda>_. 0))) s) s"
proof -
  have c: "descriptors_published s \<and> bar_ok s"
    using s owns_iff[of BarMap s] by (simp add: idle_def inside_def whole_def)
  have put: "preserves (idle whole) (put_descriptors (\<lambda>_. 0))"
    unfolding put_descriptors_def rd_write_descriptor_def store_address_def dsp0_cmd_regs dsp0_resp_regs
    by (intro preserves_intros)
      (simp_all add: rd_ring_writes ring_reg_words(5) resp_second dsp0_cmd_regs del: One_nat_def)
  have rd: "keeps_rd (idle whole) (rd_mmio_read32 e)"
    unfolding keeps_rd_def rd_mmio_read32_def by (intro allI impI idle_read) (simp_all add: whole_def)
  have check: "preserves (idle whole) (check_descriptors e (\<lambda>_. 0))"
    unfolding check_descriptors_def descriptor_matches_def
    by (intro preserves_intros keeps_rdD[OF rd])
      (simp_all add: ring_reg_words(5) resp_second dsp0_cmd_regs dsp0_resp_regs del: One_nat_def)
  have "wp (do { put_descriptors (\<lambda>_. 0); b \<leftarrow> check_descriptors e (\<lambda>_. 0);
      modify (\<lambda>s. s\<lparr>restore_ok := b\<rparr>); if b then State_Monad.return () else fail })
      (\<lambda>_. rd_undone (dsp0_words (\<lambda>_. 0)) (words_seen (dsp0_words (\<lambda>_. 0))) s) s"
    unfolding wp_bind[of "put_descriptors _"]
  proof (rule wp_mono[OF rd_idle_stores[OF s(1) rd_stores_put put]])
    fix t
    assume "rd_undone (dsp0_words (\<lambda>_. 0)) {} s t"
    then show "wp (do { b \<leftarrow> check_descriptors e (\<lambda>_. 0);
        modify (\<lambda>s. s\<lparr>restore_ok := b\<rparr>); if b then State_Monad.return () else fail })
        (\<lambda>_. rd_undone (dsp0_words (\<lambda>_. 0)) (words_seen (dsp0_words (\<lambda>_. 0))) s) t"
      by (rule rd_undone_scan[OF _ rd_descriptors_checks check]) (simp_all add: rd_same_def same_handles_def)
  qed
  then show ?thesis unfolding rd_restore_descriptors_def wp_when_m if_P[OF c] .
qed

lemma rd_restore_wp:
  assumes s: "rd_stage x n k s"
  shows "wp (do { rd_restore_dma e; rd_restore_controls; rd_restore_descriptors e })
     (\<lambda>_. rd_undone (rd_undo x k) (rd_undo_seen k) s) s"
  unfolding wp_bind
proof (rule wp_mono[OF rd_restore_dma_wp[OF s]])
  fix t
  assume t: "rd_undone (if 0 < k then [(DMA_CONTROL, DMA_COLD_RESET)] else [])
     (if 0 < k then {(DMA_CONTROL, \<lambda>v. v = DMA_COLD_RESET)} else {}) s t"
  have ctl: "controls_modified t \<longleftrightarrow> x = Exp008 \<and> 3 < k"
    using t rd_stage_flags[OF s] by (simp add: rd_undone_def rd_same_def rd_flags_def)
  have i: "idle whole t" using t by (simp add: rd_undone_def)
  show "wp rd_restore_controls (\<lambda>_. wp (rd_restore_descriptors e) (\<lambda>_. rd_undone (rd_undo x k) (rd_undo_seen k) s)) t"
  proof (rule wp_mono[OF rd_restore_controls_wp[OF i]])
    fix u
    assume u: "rd_undone (if controls_modified t then [(ring_reg 0 0 9, 0), (ring_reg 0 0 8, 0)] else []) {} t u"
    have pub: "idle whole u" "descriptors_published u"
      using u t rd_stage_flags[OF s] by (simp_all add: rd_undone_def rd_same_def rd_flags_def)
    show "wp (rd_restore_descriptors e) (\<lambda>_. rd_undone (rd_undo x k) (rd_undo_seen k) s) u"
    proof (rule wp_mono[OF rd_restore_descriptors_wp[OF pub]])
      fix v
      assume "rd_undone (dsp0_words (\<lambda>_. 0)) (words_seen (dsp0_words (\<lambda>_. 0))) u v"
      from rd_undone_trans[OF t rd_undone_trans[OF u this]]
      show "rd_undone (rd_undo x k) (rd_undo_seen k) s v"
        unfolding rd_undo_def rd_undo_seen_def ctl by simp
    qed
  qed
qed

section \<open>The device reset\<close>

lemma rd_reset_checks: "checks log rd_rest (and_m (check c) (and_m (rd_all_ring_words_zero e)
    (and_m (read_is (rd_mmio_read32 e) DMA_CONTROL DMA_COLD_RESET) (rd_all_dsps_ready e)))) rd_cold_seen"
proof -
  have "checks log rd_rest (and_m (check c) (and_m (rd_all_ring_words_zero e)
    (and_m (read_is (rd_mmio_read32 e) DMA_CONTROL DMA_COLD_RESET) (rd_all_dsps_ready e)))) ({} \<union> rd_cold_seen)"
    unfolding rd_cold_seen_def rd_all_ring_words_zero_def rd_all_dsps_ready_def
    by (rule checks_and_m, simp add: checks_def check_def seen_def)
      (intro checks_and_m rd_port.checks_rings rd_port.checks_read_is rd_port.checks_ready)
  then show ?thesis by simp
qed

lemma rd_reset_wp:
  assumes "\<And>t. writes (log t) = writes (log s) \<Longrightarrow>
      (exit_success t \<Longrightarrow> exit_success s \<and> (if x = Exp008 \<and> \<not> device_fd s < 0 \<and> bar_ok s
        then \<exists>rs. log t = rs @ DeviceReset # log s \<and> reads rs \<and> seen rd_cold_seen rs else log t = log s)) \<Longrightarrow> Q () t"
  shows "wp (rd_reset e x) Q s"
proof (cases "x = Exp008 \<and> \<not> device_fd s < 0 \<and> bar_ok s")
  case True
  show ?thesis
    unfolding rd_reset_def wp_when_m if_P[OF True] reset_device_def wp_bind wp_modify wp_emit wp_return
  proof (rule read_only_wp[OF rd_reset_checks])
    fix b rs
    let ?s = "s\<lparr>reset_called := True, log := DeviceReset # log (s\<lparr>reset_called := True\<rparr>)\<rparr>"
    assume "reads rs" "b \<Longrightarrow> seen rd_cold_seen rs"
    then show "wp (if b then State_Monad.return () else fail) Q (?s\<lparr>log := rs @ log ?s, reset_recovered := b\<rparr>)"
      using True by (cases b) (auto simp: wp_simps fail_def intro!: assms)
  qed
next
  case False
  show ?thesis
    unfolding rd_reset_def wp_when_m if_not_P[OF False]
    by (rule assms) (simp_all only: if_not_P[OF False] simp_thms)
qed

lemma rd_reset_idle:
  assumes "idle S s"
  shows "wp (rd_reset e x) (\<lambda>_. idle S) s"
proof (cases "BarMap \<in> S")
  case True
  have rd: "keeps_rd (idle S) (rd_mmio_read32 e)"
    unfolding keeps_rd_def rd_mmio_read32_def using True by (intro allI impI idle_read) simp_all
  have "preserves (idle S) (rd_reset e x)"
    unfolding rd_reset_def rd_all_ring_words_zero_def rd_all_dsps_ready_def check_def
    by (intro preserves_intros preserves_scan_rings[OF rd] preserves_scan_ready[OF rd]
        preserves_read_is[OF rd] idle_local inside_local) simp_all
  then show ?thesis using assms by (rule preservesD)
next
  case False
  then have "\<not> bar_ok s" using assms by (auto simp: idle_def inside_def owns_iff)
  then show ?thesis using assms by (simp add: rd_reset_def wp_simps)
qed

section \<open>The contract\<close>

lemma rd_nothing_restored:
  assumes "rd_unstarted s"
  shows "wp (rd_cleanup e x) Q s = wp (rd_reset e x) Q s"
  using assms by (simp add: rd_cleanup_def rd_restore_dma_def rd_restore_controls_def rd_restore_descriptors_def
      wp_bind wp_when_m rd_unstarted_def)

lemma rd_cleanup_stage:
  assumes "rd_stage x n k s"
    and "\<And>t. rd_undone (rd_undo x k) (rd_undo_seen k) s t \<Longrightarrow> wp (rd_reset e x) Q t"
  shows "wp (rd_cleanup e x) Q s"
  using wp_mono[OF rd_restore_wp[OF assms(1)] assms(2)] by (simp only: rd_cleanup_def wp_bind)

lemma rd_cleanup_ready:
  assumes "rd_attempted e x s"
  shows "wp (rd_cleanup e x) (\<lambda>_ t. session_ok t \<and> \<not> engines_on (log t)) s"
proof -
  have idle: "wp (rd_reset e x) (\<lambda>_ t. session_ok t \<and> \<not> engines_on (log t)) t" if "idle S t" for S t
    by (rule wp_mono[OF rd_reset_idle[OF that]]) (auto simp: idle_def inside_def session_ok_def)
  from assms consider "rd_unstarted s" | k where "rd_stage x (nat (sys_page_size e)) k s"
    by (auto simp: rd_attempted_def)
  then show ?thesis
  proof cases
    case 1
    then have "idle (owned s) s"
      using engines_off_unwritten by (simp add: rd_unstarted_def idle_def session_ok_inside)
    from idle[OF this] show ?thesis by (simp only: rd_nothing_restored[OF 1])
  next
    case 2
    then show ?thesis by (rule rd_cleanup_stage) (auto simp: rd_undone_def intro: idle)
  qed
qed

interpretation rd_tool: vfio_tool "rd_attempt e x" "rd_cleanup e x" "State_Monad.return ()" rd_locals
    "rd_attempted e x" for e x
proof unfold_locales
  have "r = r\<lparr>stdout := stdout r\<rparr>" for r :: desc_session by simp
  then show "\<exists>out. snd (run_state (State_Monad.return ()) r) = r\<lparr>stdout := out\<rparr>" for r :: desc_session
    by (metis run_state_return snd_conv)
qed (rule rd_attempt_attempted, erule rd_cleanup_ready)

section \<open>The whole run\<close>

lemma rd_main_effects:
  assumes "rd_arguments argv = Some x"
  shows "wp (do { rd_attempt e x; rd_cleanup e x; teardown e (5 * nat (sys_page_size e)); rd_report e x })
     (\<lambda>_. Q) rd_locals \<longleftrightarrow> Q (rd_final e argv)"
  using assms by (simp add: rd_final_def rd_main_def wp_def split_beta)

lemma rd_usage: "rd_arguments argv = None \<Longrightarrow> rd_final e argv = rd_locals"
  by (simp add: rd_final_def rd_main_def)

lemma rd_report_wp: "(\<And>out. Q () (s\<lparr>stdout := out\<rparr>)) \<Longrightarrow> wp (rd_report e x) Q s"
  by (simp add: rd_report_def interrupted_def wp_simps)

lemma rd_run_released:
  "released (clean_unmap e (5 * nat (sys_page_size e)) (rd_final e argv)) (dma_mapped (rd_final e argv))
     (log (rd_final e argv))"
proof (cases "rd_arguments argv")
  case None
  have "always vfio_safe []" using world_start by (simp add: session_world_def)
  then show ?thesis
    by (simp add: rd_usage[OF None] released_def) (simp add: rd_locals_def)
next
  case (Some x)
  let ?n = "5 * nat (sys_page_size e)"
  let ?Q = "\<lambda>t. released (clean_unmap e ?n t) (dma_mapped t) (log t)"
  have "wp (do { rd_attempt e x; rd_cleanup e x; State_Monad.return (); teardown e ?n }) (\<lambda>_. ?Q) rd_locals"
    by (rule rd_tool.run_released)
  then have "wp (do { rd_attempt e x; rd_cleanup e x; teardown e ?n; rd_report e x }) (\<lambda>_. ?Q) rd_locals"
    unfolding wp_bind wp_return by (elim wp_mono) (rule rd_report_wp, simp add: clean_unmap_def)
  then show ?thesis by (simp only: rd_main_effects[OF Some])
qed

definition rd_store_shape :: "ring_experiment \<Rightarrow> nat \<Rightarrow> (u32 \<times> u32) list \<Rightarrow> bool" where
  "rd_store_shape x n ws \<longleftrightarrow> ws = [] \<or>
     (\<exists>k\<le>length (rd_schedule x). \<not> (x = Exp008 \<and> k = 4) \<and>
        ws = dsp0_words (desc_iova n) @ take k (rd_schedule x) @ rd_undo x k)"

definition rd_evidence :: "vfio_env \<Rightarrow> ring_experiment \<Rightarrow> nat \<Rightarrow> history \<Rightarrow> bool" where
  "rd_evidence e x n h \<longleftrightarrow> (\<exists>closing recovery restore run. h = closing @ recovery @ restore @ run \<and>
     rd_evident e x n run \<and> writes run = dsp0_words (desc_iova n) @ rd_schedule x \<and>
     writes restore = rd_undo x (length (rd_schedule x)) \<and> seen (rd_undo_seen (length (rd_schedule x))) restore \<and>
     (if x = Exp008 then \<exists>rs. recovery = rs @ [DeviceReset] \<and> reads rs \<and> seen rd_cold_seen rs
      else recovery = []) \<and> writes closing = [])"

definition rd_cleaned :: "vfio_env \<Rightarrow> ring_experiment \<Rightarrow> history \<Rightarrow> bool \<Rightarrow> bool" where
  "rd_cleaned e x h ok \<longleftrightarrow> rd_store_shape x (nat (sys_page_size e)) (writes h) \<and>
     (ok \<longrightarrow> rd_evidence e x (nat (sys_page_size e)) h)"

lemma rd_cleaned_later:
  assumes "rd_cleaned e x h ok" "writes xs = []" "ok' \<longrightarrow> ok"
  shows "rd_cleaned e x (xs @ h) ok'"
proof -
  have "rd_evidence e x n (xs @ h)" if ev: "rd_evidence e x n h" for n
  proof -
    from ev obtain closing recovery restore run where *: "h = closing @ recovery @ restore @ run"
      "rd_evident e x n run \<and> writes run = dsp0_words (desc_iova n) @ rd_schedule x \<and>
       writes restore = rd_undo x (length (rd_schedule x)) \<and> seen (rd_undo_seen (length (rd_schedule x))) restore \<and>
       (if x = Exp008 then \<exists>rs. recovery = rs @ [DeviceReset] \<and> reads rs \<and> seen rd_cold_seen rs
        else recovery = [])" "writes closing = []"
      unfolding rd_evidence_def by blast
    have "xs @ h = (xs @ closing) @ recovery @ restore @ run" "writes (xs @ closing) = []"
      using *(1,3) assms(2) by (simp_all add: writes_append)
    with *(2) show ?thesis unfolding rd_evidence_def by blast
  qed
  then show ?thesis using assms by (simp add: rd_cleaned_def writes_append)
qed

lemma rd_cleanup_wp:
  assumes "rd_attempted e x s"
  shows "wp (rd_cleanup e x) (\<lambda>_ t. rd_cleaned e x (log t) (exit_success t)) s"
proof -
  let ?n = "nat (sys_page_size e)"
  from assms consider "rd_unstarted s"
    | k where "rd_stage x ?n k s" "exit_success s \<longrightarrow> k = length (rd_schedule x) \<and> rd_evident e x ?n (log s)"
    by (auto simp: rd_attempted_def)
  then show ?thesis
  proof cases
    case 1
    then show ?thesis
      unfolding rd_nothing_restored[OF 1]
      by (intro rd_reset_wp) (auto simp: rd_unstarted_def rd_cleaned_def rd_store_shape_def)
  next
    case 2
    show ?thesis
    proof (rule rd_cleanup_stage[OF 2(1)], rule rd_reset_wp)
      fix t u :: desc_session
      assume t: "rd_undone (rd_undo x k) (rd_undo_seen k) s t" and u: "writes (log u) = writes (log t)"
        "exit_success u \<Longrightarrow> exit_success t \<and> (if x = Exp008 \<and> \<not> device_fd t < 0 \<and> bar_ok t
          then \<exists>rs. log u = rs @ DeviceReset # log t \<and> reads rs \<and> seen rd_cold_seen rs else log u = log t)"
      have w: "writes (log s) = dsp0_words (desc_iova ?n) @ take k (rd_schedule x)" "k \<le> length (rd_schedule x)"
        "\<not> (x = Exp008 \<and> k = 4)" using 2(1) by (simp_all add: rd_stage_def)
      have shape: "rd_store_shape x ?n (writes (log u))"
        using u(1) t w advanced_writes[of "rd_undo x k" "rd_undo_seen k" s t]
        unfolding rd_store_shape_def rd_undone_def by (intro disjI2 exI[of _ k]) simp
      have "rd_evidence e x ?n (log u)" if ok: "exit_success u"
      proof -
        from t obtain restore where r: "log t = restore @ log s" "writes restore = rd_undo x k"
          "exit_success t \<longrightarrow> exit_success s \<and> seen (rd_undo_seen k) restore"
          by (auto simp: rd_undone_def advanced_def)
        have s: "exit_success s" "k = length (rd_schedule x)" "rd_evident e x ?n (log s)"
          "seen (rd_undo_seen k) restore" using r(3) u(2)[OF ok] 2(2) by auto
        have "bar_ok t" "\<not> device_fd t < 0"
          using t rd_handles[OF 2(1)] by (simp_all add: rd_undone_def rd_same_def same_handles_def)
        then obtain recovery where rec: "log u = recovery @ log t"
          "if x = Exp008 then \<exists>rs. recovery = rs @ [DeviceReset] \<and> reads rs \<and> seen rd_cold_seen rs
           else recovery = []"
          using u(2)[OF ok] by (cases "x = Exp008") auto
        have "log u = [] @ recovery @ restore @ log s" "writes [] = []" using rec(1) r(1) by simp_all
        then show ?thesis
          unfolding rd_evidence_def using rec(2) r(2) s w(1) by (metis order_refl take_all)
      qed
      with shape show "rd_cleaned e x (log u) (exit_success u)" by (simp add: rd_cleaned_def)
    qed
  qed
qed

lemma rd_final_cleaned:
  assumes "rd_arguments argv = Some x"
  shows "rd_cleaned e x (log (rd_final e argv)) (exit_success (rd_final e argv))"
proof -
  let ?Q = "\<lambda>t. rd_cleaned e x (log t) (exit_success t)"
  have "wp (rd_attempt e x) (\<lambda>_. wp (rd_cleanup e x) (\<lambda>_. wp (teardown e (5 * nat (sys_page_size e)))
      (\<lambda>_. wp (rd_report e x) (\<lambda>_. ?Q)))) rd_locals"
  proof (rule wp_mono[OF rd_attempt_attempted], rule wp_mono[OF rd_cleanup_wp], assumption)
    fix t :: desc_session
    assume t: "rd_cleaned e x (log t) (exit_success t)"
    have "wp (teardown e (5 * nat (sys_page_size e))) (\<lambda>_ v. (\<exists>xs. log v = xs @ log t \<and> writes xs = []) \<and>
       (exit_success v \<longrightarrow> exit_success t)) t"
      by (rule preservesD[OF preserves_extending]) simp
    then show "wp (teardown e (5 * nat (sys_page_size e))) (\<lambda>_. wp (rd_report e x) (\<lambda>_. ?Q)) t"
      by (rule wp_mono) (rule rd_report_wp, auto intro: rd_cleaned_later[OF t])
  qed
  then have "wp (do { rd_attempt e x; rd_cleanup e x; teardown e (5 * nat (sys_page_size e)); rd_report e x })
      (\<lambda>_. ?Q) rd_locals"
    by (simp only: wp_bind)
  then show ?thesis by (simp only: rd_main_effects[OF assms])
qed

text \<open>What any run of the program has done.\<close>

definition rd_outcome :: "vfio_env \<Rightarrow> string list \<Rightarrow> desc_session \<Rightarrow> bool" where
  "rd_outcome e argv s \<longleftrightarrow>
     released (clean_unmap e (5 * nat (sys_page_size e)) s) (dma_mapped s) (log s) \<and>
     (case rd_arguments argv of
        None \<Rightarrow> log s = [] \<and> \<not> exit_success s
      | Some x \<Rightarrow> rd_cleaned e x (log s) (exit_success s))"

lemma rd_run_outcome: "rd_outcome e argv (rd_final e argv)"
proof (cases "rd_arguments argv")
  case None
  then show ?thesis
    using rd_run_released[of e argv] by (simp add: rd_outcome_def rd_usage[OF None] rd_locals_def)
next
  case (Some x)
  then show ?thesis using rd_run_released rd_final_cleaned by (simp add: rd_outcome_def)
qed

end
