(* ===== verification/Ring_Descriptors_Live.thy ===== *)
theory Ring_Descriptors_Live
  imports Ring_Descriptors_Results
begin

text \<open>
  Every experiment of \<^verbatim>\<open>tools/vfio_ring_descriptors.c\<close> ends with exit status 0 on a card that behaves
  as documented and a host on which every call succeeds.
\<close>

section \<open>What the card holds\<close>

lemma rd_reads: "rd_mmio_read32 e = bus_read (answer e)"
  by (simp add: fun_eq_iff rd_mmio_read32_def)

lemma set_dsp0_words:
  "set (dsp0_words f) = (\<lambda>w. (ring_reg 0 0 w, if even w then lower_32_bits (f (w div 2)) else upper_32_bits (f (w div 2)))) ` {..<8} \<union>
     (\<lambda>w. (ring_reg 0 1 w, if even w then lower_32_bits (f 4) else upper_32_bits (f 4))) ` {..<2}"
proof -
  have n: "{..<8 :: nat} = {0, 1, 2, 3, 4, 5, 6, 7}" "{..<2 :: nat} = {0, 1}" by auto
  show ?thesis unfolding dsp0_words_def n by (auto simp: upt_4)
qed

lemma rd_expected_words:
  "w < 8 \<Longrightarrow> rd_expected n 0 0 w = (if even w then lower_32_bits (desc_iova n (w div 2)) else upper_32_bits (desc_iova n (w div 2)))"
  "w < 2 \<Longrightarrow> rd_expected n 0 1 w = (if even w then lower_32_bits (desc_iova n 4) else upper_32_bits (desc_iova n 4))"
  by (auto simp: rd_expected_def Let_def even_iff_mod_2_eq_zero less_2_cases_iff)

lemma rd_expected_zero: "\<not> (d = 0 \<and> w < (if r = 0 then 8 else 2)) \<Longrightarrow> r < 2 \<Longrightarrow> rd_expected n d r w = 0"
  by (auto simp: rd_expected_def)

lemma dsp0_word:
  assumes "d < 8" "r < 2" "w < 16"
  shows "(ring_reg d r w, v) \<in> set (dsp0_words (desc_iova n)) \<longleftrightarrow>
     d = 0 \<and> w < (if r = 0 then 8 else 2) \<and> v = rd_expected n d r w" (is "?L \<longleftrightarrow> ?R")
proof
  assume ?L
  then consider w' where "w' < 8" "ring_reg d r w = ring_reg 0 0 w'" "v = rd_expected n 0 0 w'"
    | w' where "w' < 2" "ring_reg d r w = ring_reg 0 1 w'" "v = rd_expected n 0 1 w'"
    unfolding set_dsp0_words by (auto simp: rd_expected_words rd_expected_words(2)[unfolded One_nat_def])
  then show ?R
  proof cases
    case 1
    then have "d = 0 \<and> r = 0 \<and> w = w'" using ring_reg_eq_iff[of d r w 0 0 w'] assms by simp
    with 1 show ?thesis by simp
  next
    case 2
    then have "d = 0 \<and> r = 1 \<and> w = w'" using ring_reg_eq_iff[of d r w 0 1 w'] assms by simp
    with 2 show ?thesis by simp
  qed
next
  assume R: ?R
  show ?L
  proof (cases "r = 0")
    case True
    then show ?thesis using R unfolding set_dsp0_words by (intro UnI1 image_eqI[of _ _ w]) (simp_all add: rd_expected_words)
  next
    case False
    then have "r = 1" using assms(2) by simp
    then show ?thesis using R unfolding set_dsp0_words
      by (intro UnI2 image_eqI[of _ _ w]) (simp_all add: rd_expected_words(2)[unfolded One_nat_def])
  qed
qed

text \<open>The descriptor words a map of last stored values holds.\<close>

definition holds_words :: "(nat \<Rightarrow> u64) \<Rightarrow> (u32 \<Rightarrow> u32 option) \<Rightarrow> bool" where
  "holds_words f k \<longleftrightarrow> (\<forall>w<8. k (ring_reg 0 0 w) = Some (if even w then lower_32_bits (f (w div 2)) else upper_32_bits (f (w div 2)))) \<and>
     (\<forall>w<2. k (ring_reg 0 1 w) = Some (if even w then lower_32_bits (f 4) else upper_32_bits (f 4)))"

lemma holds_dsp0_words: "holds_words f (k ++ map_of (rev (dsp0_words f)))"
proof -
  have "map_of (rev (dsp0_words f)) (ring_reg 0 0 w) =
      Some (if even w then lower_32_bits (f (w div 2)) else upper_32_bits (f (w div 2)))" if "w < 8" for w
    by (rule last_store; unfold set_dsp0_words) (use that in \<open>auto simp: ring_reg_eq_iff\<close>)
  moreover have "map_of (rev (dsp0_words f)) (ring_reg 0 1 w) =
      Some (if even w then lower_32_bits (f 4) else upper_32_bits (f 4))" if "w < 2" for w
    by (rule last_store; unfold set_dsp0_words) (use that in \<open>auto simp: ring_reg_eq_iff\<close>)
  ultimately show ?thesis by (simp add: holds_words_def)
qed

section \<open>The scans\<close>

lemma meets_fold_both:
  fixes m :: "('a bus_scheme, bool) state"
  assumes "\<And>x. x \<in> set xs \<Longrightarrow> meets (f x) R" "meets m R"
  shows "meets (do { ok \<leftarrow> fold_m (\<lambda>x. both_m (f x)) xs True; both_m m ok }) R"
proof (rule meetsI)
  fix s :: "'a bus_scheme"
  assume s: "R (shadow (log s))"
  have "wp (fold_m (\<lambda>x. both_m (f x)) xs True) (\<lambda>ok t. wp (both_m m ok)
      (\<lambda>b t. b \<and> (\<exists>rs. reads rs \<and> t = s\<lparr>log := rs @ log s\<rparr>)) t) (s\<lparr>log := rs @ log s\<rparr>)" if "reads rs" for rs
    using assms(1) that
  proof (induction xs arbitrary: rs)
    case Nil
    have "R (shadow (log (s\<lparr>log := rs @ log s\<rparr>)))" using s Nil.prems by simp
    from assms(2) this have "wp m (\<lambda>b t. (if \<not> b then False else True) \<and>
        (\<exists>rs. reads rs \<and> t = s\<lparr>log := rs @ log s\<rparr>)) (s\<lparr>log := rs @ log s\<rparr>)"
    proof (rule meets_wp)
      fix qs :: history
      assume "reads qs"
      then show "(if \<not> True then False else True) \<and> (\<exists>ps. reads ps \<and>
          s\<lparr>log := rs @ log s, log := qs @ log (s\<lparr>log := rs @ log s\<rparr>)\<rparr> = s\<lparr>log := ps @ log s\<rparr>)"
        using Nil.prems by (intro conjI exI[of _ "qs @ rs"]) simp_all
    qed
    then show ?case by (simp add: both_m_def wp_bind wp_return)
  next
    case (Cons x xs)
    have R: "R (shadow (log (s\<lparr>log := rs @ log s\<rparr>)))" using s Cons.prems by simp
    have "meets (f x) R" by (rule Cons.prems) simp
    then show ?case
      unfolding fold_m.simps both_m_def wp_bind wp_return
    proof (rule meets_wp[where s = "s\<lparr>log := rs @ log s\<rparr>" and R = R], use R in simp, goal_cases)
      case (1 qs)
      then have "reads (qs @ rs)" using Cons.prems by simp
      with Cons.IH[of "qs @ rs"] Cons.prems show ?case by (simp add: both_m_def wp_bind wp_return)
    qed
  qed
  from this[of "[]"] show "wp (do { ok \<leftarrow> fold_m (\<lambda>x. both_m (f x)) xs True; both_m m ok })
      (\<lambda>b t. b \<and> (\<exists>rs. reads rs \<and> t = s\<lparr>log := rs @ log s\<rparr>)) s"
    by (simp add: wp_bind)
qed

lemma meets_descriptors:
  assumes "octo_hw (answer e)"
  shows "meets (check_descriptors e f) (holds_words f)"
proof -
  have d: "(0 :: nat) < 8" by simp
  have val: "answer e h (ring_reg 0 r w) = v" if "shadow h (ring_reg 0 r w) = Some v" "r < 2" "w < 10" for h r w v
    using card_reads(6)[OF assms d that(2), of w h] that by (simp add: ring_word_def stored_at_def)
  have cmd: "meets (descriptor_matches e (DSP0_CMD_BASE + of_nat p * 8) (f p)) (holds_words f)" if p: "p < 4" for p
    unfolding descriptor_matches_def rd_reads dsp0_cmd_regs ring_reg_words(5)
  proof (rule meets_read_address)
    fix h
    assume h: "holds_words f (shadow h)"
    have "shadow h (ring_reg 0 0 (2 * p)) = Some (lower_32_bits (f p))"
      "shadow h (ring_reg 0 0 (2 * p + 1)) = Some (upper_32_bits (f p))"
      using h p unfolding holds_words_def by (auto dest!: spec[of _ "2 * p"] spec[of _ "2 * p + 1"])
    from this[THEN val] p show "answer e h (ring_reg 0 0 (2 * p)) = lower_32_bits (f p) \<and>
        answer e h (ring_reg 0 0 (2 * p + 1)) = upper_32_bits (f p)" by simp
  qed
  have resp: "meets (descriptor_matches e DSP0_RESP_BASE (f 4)) (holds_words f)"
    unfolding descriptor_matches_def rd_reads dsp0_resp_regs resp_second
  proof (rule meets_read_address)
    fix h
    assume h: "holds_words f (shadow h)"
    then have "shadow h (ring_reg 0 1 0) = Some (lower_32_bits (f 4))" "shadow h (ring_reg 0 1 1) = Some (upper_32_bits (f 4))"
      unfolding holds_words_def by (auto dest!: spec[of _ "0 :: nat"] spec[of _ "1 :: nat"])
    from this[THEN val] show "answer e h (ring_reg 0 1 0) = lower_32_bits (f 4) \<and>
        answer e h (ring_reg 0 1 1) = upper_32_bits (f 4)" by simp
  qed
  show ?thesis
    unfolding check_descriptors_def both_m_def[symmetric]
    by (rule meets_fold_both) (use cmd resp in simp_all)
qed

text \<open>The values a map of last stored values must have for a ring scan that skips some words.\<close>

definition rd_skips :: "ring_experiment \<Rightarrow> nat \<Rightarrow> nat \<Rightarrow> nat \<Rightarrow> bool" where
  "rd_skips x d r w \<longleftrightarrow> x = Exp008 \<and> d = 0 \<and> r = 0 \<and> 8 \<le> w \<and> w \<le> 10"

definition rd_rings_as :: "ring_experiment \<Rightarrow> nat \<Rightarrow> (u32 \<Rightarrow> u32 option) \<Rightarrow> bool" where
  "rd_rings_as x n k \<longleftrightarrow>
     (\<forall>d<8. \<forall>r<2. \<forall>w<16. \<not> rd_skips x d r w \<longrightarrow> ring_word k d r w = rd_expected n d r w)"

lemma meets_skipping:
  assumes "octo_hw (answer e)"
  shows "meets (all_m [0..<8] (\<lambda>dsp. all_m [0..<2] (\<lambda>ring. all_m [0..<16] (\<lambda>field.
       if rd_skips x dsp ring field then State_Monad.return True
       else read_is (bus_read (answer e)) (ring_base dsp ring + of_nat field * 4)
         (rd_expected n dsp ring field))))) (rd_rings_as x n)"
proof -
  have word: "meets (if rd_skips x d r w then State_Monad.return True
       else read_is (bus_read (answer e)) (ring_base d r + of_nat w * 4) (rd_expected n d r w))
      (rd_rings_as x n)" if "d < 8" "r < 2" "w < 16" for d r w
  proof (cases "rd_skips x d r w")
    case True
    then show ?thesis by (simp add: meets_mono[OF meets_true])
  next
    case False
    show ?thesis
      unfolding if_not_P[OF False] ring_base_word[OF that(1)]
      by (intro meets_read_is) (use that False in \<open>simp add: card_reads(6)[OF assms] rd_rings_as_def\<close>)
  qed
  show ?thesis by (rule meets_mono[OF meets_upt[OF meets_upt[OF meets_upt[OF word]]]]) simp_all
qed

lemma meets_published:
  assumes "octo_hw (answer e)" "x \<noteq> Exp008"
  shows "meets (published_ring_state_matches e n) (rd_rings_as x n)"
  using meets_skipping[OF assms(1), of x n] assms(2)
  by (simp add: published_ring_state_matches_def rd_reads rd_skips_def)

lemma meets_triggered:
  assumes "octo_hw (answer e)"
  shows "meets (triggered_ring_state_matches e n) (rd_rings_as Exp008 n)"
  using meets_skipping[OF assms, of Exp008 n]
  unfolding triggered_ring_state_matches_def rd_reads rd_skips_def simp_thms .

text \<open>After the publication and the whole schedule, the rings are as expected.\<close>

lemma schedule_other:
  assumes "d < 8" "r < 2" "w < 16" "\<not> (d = 0 \<and> r = 0 \<and> w \<in> {8, 9})"
  shows "map_of (rev (rd_schedule x)) (ring_reg d r w) = None"
proof -
  have "ring_reg d r w \<noteq> DMA_CONTROL" "ring_reg d r w \<noteq> ring_reg 0 0 8" "ring_reg d r w \<noteq> ring_reg 0 0 9"
    using assms ring_reg_not_global(1)[of d r w "0x2200"] by (auto simp: ring_reg_eq_iff)
  then show ?thesis by (cases x) (simp_all add: rd_schedule_def dma_schedule_def)
qed

lemma dsp0_words_map:
  assumes "d < 8" "r < 2" "w < 16"
  shows "map_of (rev (dsp0_words (desc_iova n))) (ring_reg d r w) =
     (if d = 0 \<and> w < (if r = 0 then 8 else 2) then Some (rd_expected n d r w) else None)"
proof (cases "d = 0 \<and> w < (if r = 0 then 8 else 2)")
  case True
  have "map_of (rev (dsp0_words (desc_iova n))) (ring_reg d r w) = Some (rd_expected n d r w)"
    by (rule last_store; unfold dsp0_word[OF assms]) (use True in blast)+
  then show ?thesis unfolding if_P[OF True] .
next
  case False
  then have "(ring_reg d r w, v) \<notin> set (dsp0_words (desc_iova n))" for v
    unfolding dsp0_word[OF assms] by blast
  then have "ring_reg d r w \<notin> fst ` set (rev (dsp0_words (desc_iova n)))" by auto
  then show ?thesis unfolding if_not_P[OF False] map_of_eq_None_iff .
qed

lemma rings_as_published:
  assumes "shadow h = map_of (rev (dsp0_words (desc_iova n) @ rd_schedule x))"
  shows "rd_rings_as x n (shadow h)"
  unfolding rd_rings_as_def
proof (intro allI impI)
  fix d r w :: nat
  assume b: "d < 8" "r < 2" "w < 16" and s: "\<not> rd_skips x d r w"
  show "ring_word (shadow h) d r w = rd_expected n d r w"
  proof (cases "d = 0 \<and> r = 0 \<and> w \<in> {8, 9}")
    case True
    then have "x \<noteq> Exp008" using s by (auto simp: rd_skips_def)
    moreover have "ring_reg 0 0 8 \<noteq> DMA_CONTROL" "ring_reg 0 0 9 \<noteq> DMA_CONTROL" "ring_reg 0 0 8 \<noteq> ring_reg 0 0 9"
      using ring_reg_not_global(1)[of 0 0 8 "0x2200"] ring_reg_not_global(1)[of 0 0 9 "0x2200"]
      by (simp_all add: ring_reg_eq_iff)
    moreover have "map_of (rev (dsp0_words (desc_iova n))) (ring_reg 0 0 8) = None"
      "map_of (rev (dsp0_words (desc_iova n))) (ring_reg 0 0 9) = None"
      by (simp_all add: dsp0_words_map)
    ultimately have "shadow h (ring_reg 0 0 w) \<in> {None, Some 0}"
      using True by (cases x) (auto simp: assms rd_schedule_def dma_schedule_def map_add_def)
    then show ?thesis
      using True by (auto simp: ring_word_def stored_at_def rd_expected_def)
  next
    case False
    then have "shadow h (ring_reg d r w) = map_of (rev (dsp0_words (desc_iova n))) (ring_reg d r w)"
      using schedule_other[OF b, of x] by (simp add: assms map_add_def)
    then show ?thesis
      using b rd_expected_zero[of d w r n]
      by (auto simp: dsp0_words_map ring_word_def stored_at_def split: if_splits)
  qed
qed

section \<open>The run\<close>

lemma rd_dma_live:
  assumes "octo_hw (answer e)"
  shows "wp (rd_dma_step e k v) (\<lambda>ok _. ok) s"
  by (simp add: rd_dma_step_def rd_reads rd_mmio_write32_def wp_simps card_reads(1)[OF assms, unfolded DMA_CONTROL_def] stored_at_def)

lemma rd_and_live: "wp a (\<lambda>ok _. ok) s \<Longrightarrow> (\<And>t. wp b (\<lambda>ok _. ok) t) \<Longrightarrow> wp (and_m a b) (\<lambda>ok _. ok) s"
  by (rule wp_and_mI, erule wp_mono) simp

lemma rd_exercise_live:
  assumes "octo_hw (answer e)"
  shows "wp (rd_exercise e x) (\<lambda>ok _. ok) s"
proof -
  have dma: "wp (rd_start_dma e) (\<lambda>ok _. ok) t" for t
    unfolding rd_start_dma_def by (intro rd_and_live rd_dma_live assms)
  have look: "wp (do { rd_mmio_write32 (ring_reg 0 0 w) 0; modify f; read_is (rd_mmio_read32 e) (ring_reg 0 0 w) 0 })
      (\<lambda>ok _. ok) t" if "w < 10" "\<And>s. log (f s) = log s" for t w f
    using that by (simp add: rd_reads rd_mmio_write32_def read_is_def wp_simps card_reads(6)[OF assms]
        ring_word_def stored_at_def)
  have empty: "wp (rd_empty_ring e) (\<lambda>ok _. ok) t" for t
    unfolding rd_empty_ring_def dsp0_cmd_regs by (intro rd_and_live look) simp_all
  have zero: "wp (rd_zero_entry e) (\<lambda>ok _. ok) t" for t
    by (simp add: rd_zero_entry_def rd_reads rd_mmio_write32_def wp_simps)
  show ?thesis
    unfolding rd_exercise_def using dma empty zero by (intro rd_and_live) (simp_all add: wp_return)
qed

lemma rd_publish_live:
  assumes "octo_hw (answer e)" "writes (log s) = []"
  shows "wp (rd_publish e n) (\<lambda>ok _. ok) s"
  unfolding rd_publish_def wp_bind wp_modify
proof (rule stores_wp[OF rd_stores_put], rule meets_wp[OF meets_descriptors[OF assms(1)]], goal_cases)
  case (1 a t)
  then have "shadow (log t) = shadow (log s) ++ map_of (rev (dsp0_words (desc_iova n)))"
    by (intro shadow_after) (simp add: writes_rev_stores)
  then show ?case by (simp add: holds_dsp0_words)
next
  case (2 a t rs)
  then have "shadow (log t) = map_of (rev (dsp0_words (desc_iova n) @ rd_schedule Exp001))"
    using assms(2) by (simp add: shadow_map_of writes_rev_stores rd_schedule_def)
  then have R: "rd_rings_as Exp001 n (shadow (log t))" by (rule rings_as_published)
  show ?case
    by (simp add: wp_bind wp_modify, rule meets_wp[OF meets_published[OF assms(1), of Exp001]])
      (use R 2 in \<open>simp_all add: wp_return\<close>)
qed

lemma fill_intact:
  assumes "good_env e"
  shows "desc_pages_intact n e h (rd_fill n m)"
proof -
  have "rd_fill n m (page * n + byte) = 0" if "page < 4" "byte < n" for page byte
  proof -
    have "page * n + byte < (page + 1) * n" using that by simp
    also have "\<dots> \<le> 4 * n" using that by (intro mult_le_mono1) simp
    finally have "page * n + byte < 4 * n" .
    then show ?thesis by (simp add: rd_fill_def memset_def)
  qed
  moreover have "rd_fill n m (4 * n + byte) = RESPONSE_CANARY" if "byte < n" for byte
    using that by (simp add: rd_fill_def memset_def)
  ultimately show ?thesis using assms by (simp add: desc_pages_intact_def good_env_def)
qed

lemma rd_look_live:
  assumes "octo_hw (answer e)" "shadow (log s) = map_of (rev (dsp0_words (desc_iova n) @ rd_schedule x))"
  shows "wp (rd_look e x n) (\<lambda>ok t. ok \<and> ready_ok t = ready_ok s \<and> canary_ok t = canary_ok s) s"
proof (cases "x = Exp008")
  case True
  have fin: "wp (triggered_ring_state_matches e n)
      (\<lambda>ok t. ok \<and> ready_ok t = ready_ok s \<and> canary_ok t = canary_ok s) t"
    if "shadow (log t) = shadow (log s)" "ready_ok t = ready_ok s" "canary_ok t = canary_ok s" for t
    by (rule meets_wp[OF meets_triggered[OF assms(1)]])
      (use that rings_as_published[OF assms(2)] True in simp_all)
  show ?thesis
    unfolding rd_look_def if_P[OF True] rd_reads wp_bind wp_bus_read wp_modify by (rule fin) simp_all
next
  case False
  show ?thesis
    unfolding rd_look_def if_not_P[OF False]
    by (rule meets_wp[OF meets_published[OF assms(1) False]]) (use rings_as_published[OF assms(2)] in simp_all)
qed

lemma rd_verify_live:
  assumes e: "good_env e" and s: "rd_stage x n (length (rd_schedule x)) s" and m: "ram s = rd_fill n m"
  shows "wp (rd_verify e x n) (\<lambda>_. exit_success) s"
proof -
  have card: "octo_hw (answer e)" using e by (simp add: good_env_def)
  have sh: "shadow (log s) = map_of (rev (dsp0_words (desc_iova n) @ rd_schedule x))"
    using s by (simp add: rd_stage_def shadow_map_of)
  show ?thesis
    unfolding rd_verify_def rd_all_dsps_ready_def nanosleep_def wp_bind wp_emit wp_modify wp_rd_pages rd_reads
    by (rule meets_wp[OF meets_ready[OF card]], rule TrueI, rule wp_mono[OF rd_look_live[OF card]])
      (use sh in \<open>auto simp: interrupted_def wp_simps never_interrupted[OF e] m fill_intact[OF e]\<close>)
qed

lemma rd_run_live:
  assumes e: "good_env e" and s: "inside whole s" "writes (log s) = []" "\<not> dma_modified s" "\<not> controls_modified s"
    and m: "ram s = rd_fill n m"
  shows "wp (rd_run e x n) (\<lambda>_. exit_success) s"
proof -
  have card: "octo_hw (answer e)" using e by (simp add: good_env_def)
  have kept: "rd_kept (exit_success s) (ram s) (log s) s" by (simp add: rd_kept_def extends_refl)
  have pub: "wp (rd_publish e n) (\<lambda>ok t. ok \<and> rd_stage x n 0 t \<and> rd_kept (exit_success s) (ram s) (log s) t) s"
    by (intro wp_conjI rd_publish_live card s rd_publish_stage preservesD[OF rd_kept_run(1) kept])
  show ?thesis
    unfolding rd_run_def wp_bind
  proof (rule wp_and_mI, rule wp_mono[OF pub])
    fix ok t
    assume t: "ok \<and> rd_stage x n 0 t \<and> rd_kept (exit_success s) (ram s) (log s) t"
    then have "wp (rd_exercise e x) (\<lambda>ok u. ok \<and> rd_upto x n (length (rd_schedule x)) ok u \<and>
        rd_kept (exit_success s) (ram s) (log s) u) t"
      by (intro wp_conjI rd_exercise_live card rd_exercise_wp preservesD[OF rd_kept_run(2)]) simp_all
    then have "wp (rd_exercise e x) (\<lambda>ok. wp (if ok then rd_verify e x n else State_Monad.return ())
        (\<lambda>_. exit_success)) t"
      by (rule wp_mono) (auto simp: rd_upto_def rd_kept_def m intro: rd_verify_live[OF e])
    with t show "(ok \<longrightarrow> wp (rd_exercise e x) (\<lambda>ok. wp (if ok then rd_verify e x n
          else State_Monad.return ()) (\<lambda>_. exit_success)) t) \<and>
        (\<not> ok \<longrightarrow> wp (if False then rd_verify e x n else State_Monad.return ()) (\<lambda>_. exit_success) t)" by simp
  qed
qed

lemma rd_setup_live:
  assumes "good_env e"
  shows "wp (rd_setup e x) (\<lambda>ok _. ok) s"
  using assms by (simp add: good_env_def rd_setup_def open_container_def open_group_def
      attach_group_def configure_iommu_def allocate_memory_def store_ram_def map_iova_def
      open_device_def map_bar_def check_def rd_device_valid_def page_size_ok_def TEST_IOVA_def wp_simps)

lemma meets_rd_precondition:
  assumes "octo_hw (answer e)"
  shows "meets (rd_precondition e x) (\<lambda>k. k = Map.empty)"
proof -
  have "meets (if dma_experiment x then read_is (rd_mmio_read32 e) DMA_CONTROL DMA_COLD_RESET
      else State_Monad.return True) (\<lambda>k. k = Map.empty)"
  proof (cases "dma_experiment x")
    case True
    show ?thesis
      unfolding if_P[OF True] rd_reads by (rule meets_mono[OF meets_dma[OF assms]]) (simp add: stored_at_def)
  next
    case False
    show ?thesis unfolding if_not_P[OF False] by (rule meets_mono[OF meets_true]) simp
  qed
  note dma = this[unfolded rd_reads]
  show ?thesis
    unfolding rd_precondition_def rd_all_ring_words_zero_def rd_all_dsps_ready_def rd_reads
    by (rule meets_mono[OF meets_and_m[OF meets_rings[OF assms] meets_and_m[OF meets_ready[OF assms] dma]]])
      (simp add: ring_word_def stored_at_def)
qed

lemma rd_gate_live:
  assumes e: "good_env e"
  shows "wp (and_m (rd_setup e x) (rd_precondition e x)) (\<lambda>ok _. ok) rd_locals"
proof -
  have card: "octo_hw (answer e)" using e by (simp add: good_env_def)
  have "wp (rd_setup e x) (\<lambda>ok t. (session_ok t \<and> session.more t = session.more rd_locals \<and>
        writes (log t) = writes (log rd_locals) \<and> exit_success t = exit_success rd_locals \<and>
        (ok \<longrightarrow> owned t = whole)) \<and> ok) rd_locals"
    using rd_locals_ok unfolding rd_unstarted_def
    by (intro wp_conjI[OF setup_toD[OF rd_setup_to]] rd_setup_live[OF e]) simp_all
  then show ?thesis
  proof (intro wp_and_mI, elim wp_mono, elim conjE)
    fix ok and t :: desc_session
    assume ok: ok and t: "writes (log t) = writes (log rd_locals)"
    have "wp (rd_precondition e x) (\<lambda>ok _. ok) t"
      by (rule meets_wp[OF meets_rd_precondition[OF card]]) (simp_all add: shadow_map_of t rd_locals_def)
    then show "(ok \<longrightarrow> wp (rd_precondition e x) (\<lambda>ok _. ok) t) \<and> (\<not> ok \<longrightarrow> False)" using ok by simp
  qed
qed

lemma rd_attempt_live:
  assumes e: "good_env e"
  shows "wp (rd_attempt e x) (\<lambda>_. exit_success) rd_locals"
  unfolding rd_attempt_def wp_bind
proof (rule wp_mono[OF wp_conjI[OF rd_gate_live[OF e] rd_gate]], elim conjE)
  fix ok t
  assume ok: ok and t: "rd_unstarted t"
    "ok \<longrightarrow> owned t = whole \<and> ram t = rd_fill (nat (sys_page_size e)) (\<lambda>_. 0) \<and> seen (rd_gate_seen x) (log t)"
  have "wp (rd_run e x (nat (sys_page_size e))) (\<lambda>_. exit_success) t"
    by (rule rd_run_live[OF e, where m = "\<lambda>_. 0"])
      (use t ok in \<open>simp_all add: rd_unstarted_def session_ok_inside\<close>)
  then show "wp (if ok then rd_run e x (nat (sys_page_size e)) else State_Monad.return ()) (\<lambda>_. exit_success) t"
    using ok by simp
qed

section \<open>The cleanup\<close>

lemma rd_restore_live:
  assumes "octo_hw (answer e)" "exit_success s"
  shows "wp (do { rd_restore_dma e; rd_restore_controls; rd_restore_descriptors e }) (\<lambda>_. exit_success) s"
proof -
  have descs: "wp (rd_restore_descriptors e) (\<lambda>_. exit_success) t" if t: "exit_success t" for t
  proof (cases "descriptors_published t \<and> bar_ok t")
    case True
    show ?thesis
      unfolding rd_restore_descriptors_def wp_when_m if_P[OF True] wp_bind wp_modify
    proof (rule stores_wp[OF rd_stores_put], rule meets_wp[OF meets_descriptors[OF assms(1)]], goal_cases)
      case (1 a u)
      then have "shadow (log u) = shadow (log t) ++ map_of (rev (dsp0_words (\<lambda>_. 0)))"
        by (intro shadow_after) (simp add: writes_rev_stores)
      then show ?case by (simp add: holds_dsp0_words)
    next
      case (2 a u rs)
      have "exit_success u" using 2(2) t by (cases u; cases t; simp)
      then show ?case by (simp add: wp_return)
    qed
  next
    case False
    show ?thesis unfolding rd_restore_descriptors_def wp_when_m if_not_P[OF False] by (rule t)
  qed
  have ctl: "wp rd_restore_controls (\<lambda>_. exit_success) t" if "exit_success t" for t
    using that by (simp add: rd_restore_controls_def rd_mmio_write32_def wp_simps)
  have dma: "wp (rd_restore_dma e) (\<lambda>_. exit_success) s"
    using assms(2) by (simp add: rd_restore_dma_def rd_reads rd_mmio_write32_def read_is_def wp_simps
        card_reads(1)[OF assms(1), unfolded DMA_CONTROL_def] stored_at_def)
  show ?thesis
    unfolding wp_bind
    by (rule wp_mono[OF dma], rule wp_mono[OF ctl], assumption, erule descs)
qed

text \<open>What the card holds when it is reset.\<close>

lemma not_dsp0_word:
  assumes "d < 8" "r < 2" "w < 16" "\<not> (d = 0 \<and> w < (if r = 0 then 8 else 2))"
  shows "map_of (rev (dsp0_words f)) (ring_reg d r w) = None"
proof -
  have "(ring_reg d r w, v) \<notin> set (dsp0_words f)" for v
    unfolding set_dsp0_words using assms by (auto simp: ring_reg_eq_iff split: if_splits)
  then have "ring_reg d r w \<notin> fst ` set (rev (dsp0_words f))" by auto
  then show ?thesis unfolding map_of_eq_None_iff .
qed

lemma rd_undone_words:
  assumes "d < 8" "r < 2" "w < 10"
  shows "map_of (rev (dsp0_words (desc_iova n) @ rd_schedule Exp008 @ rd_undo Exp008 5)) (ring_reg d r w) \<in> {None, Some 0}"
proof -
  define mid where "mid = rd_schedule Exp008 @ [(DMA_CONTROL, DMA_COLD_RESET), (ring_reg 0 0 9, 0), (ring_reg 0 0 8, 0)]"
  let ?k = "map_of (rev (dsp0_words (desc_iova n) @ mid))"
  have eq: "map_of (rev (dsp0_words (desc_iova n) @ rd_schedule Exp008 @ rd_undo Exp008 5)) =
      ?k ++ map_of (rev (dsp0_words (\<lambda>_. 0)))" by (simp add: rd_undo_def mid_def)
  show ?thesis
  proof (cases "d = 0 \<and> w < (if r = 0 then 8 else 2)")
    case True
    have "holds_words (\<lambda>_. 0) (?k ++ map_of (rev (dsp0_words (\<lambda>_. 0))))" by (rule holds_dsp0_words)
    moreover have "r = 0 \<or> r = 1" using assms(2) by auto
    ultimately have "(?k ++ map_of (rev (dsp0_words (\<lambda>_. 0)))) (ring_reg d r w) = Some 0"
      using True unfolding holds_words_def by (auto simp: lower_32_bits_def upper_32_bits_def)
    then show ?thesis unfolding eq by blast
  next
    case False
    have none: "map_of (rev (dsp0_words f)) (ring_reg d r w) = None" for f
      by (rule not_dsp0_word) (use assms False in simp_all)
    have "ring_reg d r w \<noteq> DMA_CONTROL" using assms ring_reg_not_global(1)[of d r w "0x2200"] by simp
    then have "map_of (rev mid) (ring_reg d r w) \<in> {None, Some 0}"
      by (simp add: mid_def rd_schedule_def dma_schedule_def)
    then show ?thesis unfolding eq using none by (auto simp: map_add_def split: option.split)
  qed
qed

lemma rd_undone_dma:
  "map_of (rev (dsp0_words (desc_iova n) @ rd_schedule Exp008 @ rd_undo Exp008 5)) DMA_CONTROL = Some DMA_COLD_RESET"
proof -
  have "ring_reg 0 0 8 \<noteq> DMA_CONTROL" "ring_reg 0 0 9 \<noteq> DMA_CONTROL"
    using ring_reg_not_global(1)[of 0 0 8 "0x2200"] ring_reg_not_global(1)[of 0 0 9 "0x2200"] by simp_all
  then show ?thesis
    using dsp0_words_shadow by (simp add: rd_undo_def map_add_def)
qed

lemma rd_reset_live:
  assumes e: "good_env e" and ok: "exit_success s"
    and w: "x = Exp008 \<Longrightarrow> writes (log s) = dsp0_words (desc_iova n) @ rd_schedule Exp008 @ rd_undo Exp008 5"
  shows "wp (rd_reset e x) (\<lambda>_. exit_success) s"
proof (cases "x = Exp008 \<and> \<not> device_fd s < 0 \<and> bar_ok s")
  case True
  have card: "octo_hw (answer e)" and r: "device_reset e = 0" using e by (simp_all add: good_env_def)
  have sh: "shadow (log s) = map_of (rev (dsp0_words (desc_iova n) @ rd_schedule Exp008 @ rd_undo Exp008 5))"
    using w True by (simp add: shadow_map_of)
  have rings: "\<forall>d<8. \<forall>r<2. \<forall>w<16. ring_word (shadow (log s)) d r w = 0"
    unfolding sh ring_word_def stored_at_def using rd_undone_words[of _ _ _ n] by (fastforce split: option.split)
  show ?thesis
    unfolding rd_reset_def wp_when_m if_P[OF True] reset_device_def wp_bind wp_modify wp_emit wp_return
      rd_all_dsps_ready_def rd_all_ring_words_zero_def rd_reads r
    by (rule meets_wp[OF meets_and_m[OF meets_check meets_and_m[OF meets_rings[OF card]
            meets_and_m[OF meets_dma[OF card] meets_ready[OF card]]]]])
      (use rings rd_undone_dma[of n] ok in \<open>simp_all add: sh stored_at_def wp_simps\<close>)
next
  case False
  show ?thesis unfolding rd_reset_def wp_when_m if_not_P[OF False] by (rule ok)
qed

lemma rd_cleanup_live:
  assumes e: "good_env e" and s: "rd_attempted e x s" "exit_success s"
  shows "wp (rd_cleanup e x) (\<lambda>_. exit_success) s"
proof -
  let ?n = "nat (sys_page_size e)"
  have card: "octo_hw (answer e)" using e by (simp add: good_env_def)
  have stage: "rd_stage x ?n (length (rd_schedule x)) s"
    using s by (auto simp: rd_attempted_def rd_unstarted_def)
  have "wp (do { rd_restore_dma e; rd_restore_controls; rd_restore_descriptors e })
      (\<lambda>_ t. rd_undone (rd_undo x (length (rd_schedule x))) (rd_undo_seen (length (rd_schedule x))) s t \<and> exit_success t) s"
    by (rule wp_conjI[OF rd_restore_wp[OF stage] rd_restore_live[OF card s(2)]])
  then have "wp (do { rd_restore_dma e; rd_restore_controls; rd_restore_descriptors e })
      (\<lambda>_. wp (rd_reset e x) (\<lambda>_. exit_success)) s"
  proof (rule wp_mono, elim conjE)
    fix t
    assume t: "rd_undone (rd_undo x (length (rd_schedule x))) (rd_undo_seen (length (rd_schedule x))) s t" "exit_success t"
    have "writes (log t) = dsp0_words (desc_iova ?n) @ rd_schedule x @ rd_undo x (length (rd_schedule x))"
      using t(1) stage by (auto simp: rd_undone_def rd_stage_def dest!: advanced_writes)
    moreover have "length (rd_schedule Exp008) = 5" by (simp add: rd_schedule_def dma_schedule_def)
    ultimately show "wp (rd_reset e x) (\<lambda>_. exit_success) t"
      by (intro rd_reset_live[OF e t(2), where n = ?n]) simp
  qed
  then show ?thesis by (simp only: rd_cleanup_def wp_bind)
qed

lemma rd_live:
  assumes "good_env e" "unmap_ok e (5 * 4096)" "rd_arguments argv = Some x"
  shows "exit_success (rd_final e argv)"
proof -
  have n: "5 * nat (sys_page_size e) = 5 * 4096" using assms(1) by (simp add: good_env_def)
  have report: "wp (rd_report e x) (\<lambda>_. exit_success) t" if "exit_success t" for t :: desc_session
    by (rule rd_report_wp) (use that in simp)
  have "wp (do { rd_attempt e x; rd_cleanup e x; teardown e (5 * nat (sys_page_size e)); rd_report e x })
      (\<lambda>_. exit_success) rd_locals"
    unfolding wp_bind n
    by (rule wp_mono[OF wp_conjI[OF rd_attempt_attempted rd_attempt_live[OF assms(1)]]], elim conjE,
        rule wp_mono[OF rd_cleanup_live[OF assms(1)]], assumption, assumption,
        rule wp_mono[OF preservesD[OF teardown_live[OF assms(2)]]], assumption, erule report)
  then show ?thesis by (simp only: rd_main_effects[OF assms(3)])
qed

end
