(* ===== verification/Experiment_Properties.thy ===== *)
theory Experiment_Properties
  imports Ring_Descriptors_Live
begin

text \<open>
  The property of the single-DSP experiments (\<^verbatim>\<open>tools/vfio_ring_descriptors.c\<close>).
\<close>

section \<open>vfio_ring_descriptors\<close>



end
