(* ===== verification/Spec2Isabelle.thy ===== *)
theory Spec2Isabelle
  imports Kernel_Properties Identity Lib_Properties Tool_Properties Command_Properties
    Listing_Properties Experiment_Properties
begin

text \<open>
  A model of the C programs of the UAD-2 OCTO bring-up repository: the Linux driver, the user
  library, the command line tool and the VFIO bring-up tools, with the theorems that make them
  correct.

  \<^bold>\<open>The program.\<close> The card is a PCI device with eight DSPs. Each DSP has a command ring and a
  response ring of sixteen 32-bit control words in BAR0 (four page addresses, an index and
  control words); one word, DMA control, holds an enable bit and a reset bit for every DSP. The
  kernel module \<^verbatim>\<open>kernel/uad2_compute.c\<close> owns the card: it allocates 64 DMA pages, publishes their
  addresses in the rings, enables the engines, checks what it reads back, and offers the result to
  user space as a character device with five ioctls. \<^verbatim>\<open>lib/uad2_compute.c\<close> wraps the ioctls,
  \<^verbatim>\<open>lib/uad2ctl.c\<close> is a command line front end of the library. \<^verbatim>\<open>kernel/uad2_identity.c\<close> is a
  separate module that only reads six words and declines the device. The programs under \<^verbatim>\<open>tools/\<close>
  are the experiments the driver was derived from; they drive the card from user space through
  VFIO, with the same register sequences.

  \<^bold>\<open>How effects are modelled.\<close> A program is a function in the state monad over a record that
  extends \<open>bus\<close>, whose only field is \<open>log\<close>: the list of the events so far, newest first (register
  loads and stores, acquisitions and releases, bus mastering, sleeps, device resets). The card is
  a parameter \<open>hw\<close> that answers every load as a function of the whole history, so nothing is
  assumed about it unless a theorem says so. What was stored, held, mapped or enabled at an instant is
  computed from the history (\<open>writes\<close>, \<open>shadow\<close>, \<open>held\<close>, \<open>bus_master\<close>); \<open>always P\<close> says that P held
  at every instant. Calls of the kernel or of VFIO are fields of a parameter record (their
  return values), acquired resources are events.
\<close>

text \<open>
  \<^bold>\<open>Theories.\<close>

  \<^item> \<open>Prelude\<close>: the weakest-precondition calculus of the state monad (\<open>wp\<close>, \<open>preserves\<close>), loops
    that stop early, and word and list facts.
  \<^item> \<open>Bus\<close>: histories, what is computed from them, loads and stores, scans; the locales
    \<open>mmio_reader\<close> and \<open>mmio_port\<close>, the contract of a program's load and store routines, which every
    program below interprets with its own \<^verbatim>\<open>mmio_read32\<close> and \<^verbatim>\<open>mmio_write32\<close> (or \<^verbatim>\<open>uad2_read\<close> and
    \<^verbatim>\<open>uad2_write\<close>).
  \<^item> \<open>Uapi\<close>, \<open>Kernel_Device\<close>: \<^verbatim>\<open>include/uapi/uad2_compute.h\<close>; registers, structures and access routines of
    \<^verbatim>\<open>kernel/uad2_compute.c\<close>. \<open>Octo_Card\<close>: the documented card \<open>octo_hw\<close> and a concrete one.
  \<^item> \<open>Kernel_Transport\<close>: start, stop and DSP reset; \<open>Kernel_Safety\<close> and \<open>Kernel_Results\<close>: their
    safety and their results on a documented card.
  \<^item> \<open>Kernel_Ioctl\<close>: \<^verbatim>\<open>uad2_ioctl\<close>; \<open>Kernel_Lifecycle\<close>: probe, open, release and remove;
    \<open>Kernel_System\<close>: the interleavings of all entry points as a step relation, with its
    invariants; \<open>Kernel_Properties\<close>: the driver's properties.
  \<^item> \<open>Identity\<close>: \<^verbatim>\<open>kernel/uad2_identity.c\<close>.
  \<^item> \<open>Lib_Compute\<close>, \<open>Uad2ctl\<close>, \<open>Lib_Properties\<close>: the library and the command line tool over any
    operating system interface, and composed with the driver model.
  \<^item> \<open>Ring_Port\<close>: the register routines the tools share, over any interpretation of \<open>mmio_port\<close>;
    \<open>Vfio\<close>, \<open>Vfio_Session\<close>: the VFIO set-up and teardown, the safety of a session, and the locale
    \<open>vfio_tool\<close>, from which each tool with DMA memory has its release theorem; \<open>Probe_Session\<close>: the
    sessions without memory, whose programs exit at the first error; \<open>Card_Session\<close>: what a
    documented card answers (\<open>meets\<close>) and a host on which every call succeeds (\<open>good_env\<close>).
  \<^item> \<open>Full_Octo_Start\<close>, \<open>Full_Octo_Results\<close>, \<open>Full_Octo_Success\<close>, \<open>Full_Octo_Live\<close>:
    \<^verbatim>\<open>tools/vfio_full_octo_start.c\<close>, the shape of its stores, what its success is backed by, and its
    success on a documented card. \<open>Official_Ring\<close> and its \<open>_Results\<close> and \<open>_Live\<close>:
    \<^verbatim>\<open>tools/vfio_official_ring_init.c\<close>. \<open>Ring_Control\<close>: \<^verbatim>\<open>tools/vfio_ring_control.c\<close>. \<open>Reset_Recovery\<close> and
    \<open>Reset_Recovery_Results\<close>: \<^verbatim>\<open>tools/vfio_reset_recovery.c\<close>. \<open>Probe_Live\<close>: success and termination of the
    last two. \<open>Tool_Properties\<close>: their properties, among them that
    the driver's start is the tool's.
  \<^item> \<open>Ring_Layout\<close>: where rings and entries lie in the locked memory. \<open>Command_Session\<close>,
    \<open>Command_Routines\<close>: the session and the routines of the three tools that submit commands to the
    firmware; \<open>Command_Contract\<close>: their exact stores and what they keep; \<open>Command_Tool\<close>: what their
    polls, checks, cleanup and teardown establish, and the locale \<open>command_tool\<close> each tool interprets;
    \<open>Command_Live\<close>: the phases on a card that serves its rings; \<open>Command_Time\<close>: how long they can sleep.
  \<^item> \<open>Full_Query\<close> (and \<open>_Results\<close>, \<open>_Live\<close>): \<^verbatim>\<open>tools/vfio_full_query.c\<close>. \<open>Loader_Answer\<close>: reading the
    payload file and judging the reply; \<open>Loader_Rejection\<close>, \<open>Runtime_Load\<close> (and \<open>_Results\<close>):
    \<^verbatim>\<open>tools/vfio_loader_rejection.c\<close> and \<^verbatim>\<open>tools/vfio_runtime_load.c\<close>; \<open>Loader_Chain\<close>: the chain of
    descriptors they offer is the payload; \<open>Loader_Live\<close>: their success. \<open>Command_Properties\<close>: the
    properties of the three tools, and the release of every session with memory.
  \<^item> \<open>Listings\<close>: lists of loads, and the locale \<open>listing\<close> of the programs that only load and report;
    \<open>Capability_Snapshot\<close>, \<open>Resource_Layout\<close>, \<open>Read_Status\<close>: \<^verbatim>\<open>tools/vfio_capability_snapshot.c\<close>,
    \<^verbatim>\<open>tools/vfio_resource_layout.c\<close> and \<^verbatim>\<open>tools/vfio_read_status.c\<close>; \<open>Dma_Map\<close>: \<^verbatim>\<open>tools/vfio_dma_map.c\<close>;
    \<open>Listing_Properties\<close>: what the three report, and the fixed history of the last.
  \<^item> \<open>Dsp0_Stages\<close>: the descriptor words of DSP 0 and the stages of a run; \<open>Ring_Descriptors\<close> and its
    \<open>_Run\<close>, \<open>_Results\<close> and \<open>_Live\<close>: \<^verbatim>\<open>tools/vfio_ring_descriptors.c\<close>, its four experiments up to the
    cleanup label, what the cleanup undoes, and their success; \<open>Experiment_Properties\<close>: its property.
\<close>

text \<open>
  \<^bold>\<open>Parameters and hypotheses.\<close> \<open>octo_hw hw\<close> is the card as \<^verbatim>\<open>docs/protocol-notes.md\<close> describes it: DMA
  control, interrupt enable and ring words read back what was stored, the identity words are constant,
  the DSPs report ready. Only the theorems that promise success use it; every safety,
  release and store theorem holds for every card. \<open>good_env e\<close> is a VFIO host on which each call
  succeeds, no signal arrives and the card leaves the canary pages alone; \<open>clock_advances\<close> is a
  monotonic clock that counts at least the time slept; \<open>serving_env e reply\<close> is such a host whose card
  consumes what its rings are offered and puts a reply in the response buffer; \<open>good_input c content\<close> is
  a readable file. Each has a concrete instance (\<open>octo_card\<close>,
  \<open>demo_env\<close>, \<open>demo_clock\<close>, \<open>demo_command\<close>), on which the witnesses run.

  \<^bold>\<open>Bounds and fuel.\<close> Every loop of the code is bounded by a constant except the polling loop of
  \<^verbatim>\<open>vfio_reset_recovery\<close>, which has fuel; 100 turns are enough, as each sleeps 0.1 s of a limit of
  10 s. Registers, addresses and counters have the width of the C type.

  \<^bold>\<open>Not modelled.\<close> The text of diagnostics on standard error, module metadata, the registration
  macros, the signal-set calls; hardware memory ordering (the barriers of the access routines are
  part of the atomic load and store events); the Python scripts and the shell wrappers. One tool of
  \<^verbatim>\<open>tools/\<close> has no model: \<^verbatim>\<open>vfio_query_command.c\<close>, the single-DSP precursor of the command experiments.
\<close>

end
